(* ===== verification/Prelude.thy ===== *)
theory Prelude
  imports Main "HOL-Library.Word"
begin

unbundle bit_operations_syntax

text \<open>
  Shared vocabulary of the development: the machine types of the Rust sources, the outcome of a
  fallible Rust computation, bounds-checked slice access, checked 64-bit arithmetic and the
  little-endian byte encoding of integers.

  A Rust function that returns \<open>Result<T, E>\<close> is modelled by a value of type
  \<open>('t, 'e) outcome\<close>: \<open>Ok\<close> and \<open>Err\<close> are the two constructors of
  \<open>Result\<close>, and \<open>Panic\<close> is a panic (an out-of-range index or slice, an overflow
  of the checked arithmetic of the development profile, a failed assertion), so that a claim that
  code does not panic is a claim about a value.  The \<open>?\<close> operator is \<open>and_then\<close>.
\<close>

section \<open>Machine types and outcomes\<close>

type_synonym u8 = "8 word"
type_synonym u16 = "16 word"
type_synonym u32 = "32 word"
type_synonym u64 = "64 word"
type_synonym byte_vec = "u8 list"

datatype panic =
    IndexOutOfBounds
  | ArithmeticOverflow
  | AssertionFailed
  | ExpectFailed
  | Unreachable

datatype ('a, 'e) outcome = Ok 'a | Err 'e | Panic panic

fun and_then :: "('a, 'e) outcome \<Rightarrow> ('a \<Rightarrow> ('b, 'e) outcome) \<Rightarrow> ('b, 'e) outcome" where
  "and_then (Ok a) f = f a"
| "and_then (Err e) f = Err e"
| "and_then (Panic p) f = Panic p"

fun map_err :: "('e \<Rightarrow> 'f) \<Rightarrow> ('a, 'e) outcome \<Rightarrow> ('a, 'f) outcome" where
  "map_err g (Ok a) = Ok a"
| "map_err g (Err e) = Err (g e)"
| "map_err g (Panic p) = Panic p"

fun is_ok :: "('a, 'e) outcome \<Rightarrow> bool" where
  "is_ok (Ok a) = True"
| "is_ok (Err e) = False"
| "is_ok (Panic p) = False"

fun is_panic :: "('a, 'e) outcome \<Rightarrow> bool" where
  "is_panic (Ok a) = False"
| "is_panic (Err e) = False"
| "is_panic (Panic p) = True"

definition vec_index :: "'a list \<Rightarrow> nat \<Rightarrow> ('a, 'e) outcome" where
  "vec_index xs i = (if i < length xs then Ok (xs ! i) else Panic IndexOutOfBounds)"

definition vec_slice :: "'a list \<Rightarrow> nat \<Rightarrow> nat \<Rightarrow> ('a list, 'e) outcome" where
  "vec_slice xs a b =
     (if a \<le> b \<and> b \<le> length xs then Ok (take (b - a) (drop a xs)) else Panic IndexOutOfBounds)"

definition vec_copy :: "'a list \<Rightarrow> nat \<Rightarrow> 'a list \<Rightarrow> ('a list, 'e) outcome" where
  "vec_copy xs a ys =
     (if a + length ys \<le> length xs then Ok (take a xs @ ys @ drop (a + length ys) xs)
      else Panic IndexOutOfBounds)"

section \<open>Checked unsigned 64-bit arithmetic on naturals\<close>

text \<open>
  A \<open>u64\<close> that the code computes with (an absolute ring offset, a counter) is a natural
  number; every addition and subtraction on it is checked, as in the development profile.
\<close>

definition u64_limit :: nat where
  "u64_limit = 2 ^ 64"

definition u64_add :: "nat \<Rightarrow> nat \<Rightarrow> (nat, 'e) outcome" where
  "u64_add a b = (if a + b < u64_limit then Ok (a + b) else Panic ArithmeticOverflow)"

definition u64_sub :: "nat \<Rightarrow> nat \<Rightarrow> (nat, 'e) outcome" where
  "u64_sub a b = (if b \<le> a then Ok (a - b) else Panic ArithmeticOverflow)"

definition u64_saturating_add :: "nat \<Rightarrow> nat \<Rightarrow> nat" where
  "u64_saturating_add a b = min (a + b) (u64_limit - 1)"

section \<open>Little-endian integers\<close>

primrec le_bytes :: "nat \<Rightarrow> nat \<Rightarrow> byte_vec" where
  "le_bytes 0 v = []"
| "le_bytes (Suc n) v = of_nat v # le_bytes n (v div 256)"

primrec le_nat :: "byte_vec \<Rightarrow> nat" where
  "le_nat [] = 0"
| "le_nat (b # bs) = unat b + 256 * le_nat bs"

definition u16_to_le_bytes :: "u16 \<Rightarrow> byte_vec" where
  "u16_to_le_bytes w = le_bytes 2 (unat w)"

definition u32_to_le_bytes :: "u32 \<Rightarrow> byte_vec" where
  "u32_to_le_bytes w = le_bytes 4 (unat w)"

definition u64_to_le_bytes :: "u64 \<Rightarrow> byte_vec" where
  "u64_to_le_bytes w = le_bytes 8 (unat w)"

definition from_le_bytes :: "byte_vec \<Rightarrow> 'a::len word" where
  "from_le_bytes bs = of_nat (le_nat bs)"

section \<open>Collections of facts\<close>

named_theorems outcome_simps \<open>case analysis of composed outcomes\<close>
named_theorems no_panic \<open>compositional absence of panics\<close>
named_theorems le_simps \<open>little-endian encoding and decoding\<close>

section \<open>Outcomes\<close>

lemma and_then_cong [fundef_cong]:
  assumes "x = y" and "\<And>a. y = Ok a \<Longrightarrow> f a = g a"
  shows "and_then x f = and_then y g"
  using assms by (cases y) auto

lemma and_then_eq_Ok [outcome_simps]:
  "and_then x f = Ok b \<longleftrightarrow> (\<exists>a. x = Ok a \<and> f a = Ok b)"
  by (cases x) auto

lemma and_thenE: "and_then x f = Ok y \<Longrightarrow> (\<And>z. x = Ok z \<Longrightarrow> f z = Ok y \<Longrightarrow> P) \<Longrightarrow> P"
  by (auto simp: and_then_eq_Ok)

lemma if_OkE:
  "(if c then Err e else x) = Ok y \<Longrightarrow> (x = Ok y \<Longrightarrow> P) \<Longrightarrow> P"
  "(if c then Panic q else x) = Ok y \<Longrightarrow> (x = Ok y \<Longrightarrow> P) \<Longrightarrow> P"
  by (auto split: if_splits)

lemma and_then_eq_Err [outcome_simps]:
  "and_then x f = Err e \<longleftrightarrow> x = Err e \<or> (\<exists>a. x = Ok a \<and> f a = Err e)"
  by (cases x) auto

lemma and_then_eq_Panic [outcome_simps]:
  "and_then x f = Panic p \<longleftrightarrow> x = Panic p \<or> (\<exists>a. x = Ok a \<and> f a = Panic p)"
  by (cases x) auto

lemma and_then_assoc: "and_then (and_then x f) g = and_then x (\<lambda>a. and_then (f a) g)"
  by (cases x) simp_all

lemma is_panic_and_then [simp]:
  "is_panic (and_then x f) \<longleftrightarrow> is_panic x \<or> (\<exists>a. x = Ok a \<and> is_panic (f a))"
  by (cases x) auto

lemma is_panic_map_err [simp]: "is_panic (map_err g x) = is_panic x"
  by (cases x) auto

lemma map_err_eq_Ok [outcome_simps]: "map_err g x = Ok a \<longleftrightarrow> x = Ok a"
  by (cases x) auto

lemma map_err_eq_Err [outcome_simps]: "map_err g x = Err f \<longleftrightarrow> (\<exists>e. x = Err e \<and> f = g e)"
  by (cases x) auto

lemma vec_index_eq_Ok [outcome_simps]:
  "vec_index xs i = Ok a \<longleftrightarrow> i < length xs \<and> a = xs ! i"
  by (auto simp: vec_index_def)

lemma vec_index_not_Err [simp]: "vec_index xs i \<noteq> Err e"
  by (simp add: vec_index_def)

lemma vec_index_ok [simp]: "i < length xs \<Longrightarrow> vec_index xs i = Ok (xs ! i)"
  by (simp add: vec_index_def)

lemma vec_slice_eq_Ok [outcome_simps]:
  "vec_slice xs a b = Ok ys \<longleftrightarrow> a \<le> b \<and> b \<le> length xs \<and> ys = take (b - a) (drop a xs)"
  by (auto simp: vec_slice_def)

lemma vec_slice_not_Err [simp]: "vec_slice xs a b \<noteq> Err e"
  by (simp add: vec_slice_def)

lemma vec_slice_ok [simp]:
  "a \<le> b \<Longrightarrow> b \<le> length xs \<Longrightarrow> vec_slice xs a b = Ok (take (b - a) (drop a xs))"
  by (simp add: vec_slice_def)

lemma vec_copy_eq_Ok [outcome_simps]:
  "vec_copy xs a ys = Ok zs \<longleftrightarrow>
     a + length ys \<le> length xs \<and> zs = take a xs @ ys @ drop (a + length ys) xs"
  by (auto simp: vec_copy_def)

lemma vec_copy_ok [simp]:
  "a + length ys \<le> length xs \<Longrightarrow>
     vec_copy xs a ys = Ok (take a xs @ ys @ drop (a + length ys) xs)"
  by (simp add: vec_copy_def)

lemma vec_copy_not_Err [simp]: "vec_copy xs a ys \<noteq> Err e"
  by (simp add: vec_copy_def)

lemma u64_add_eq_Ok [outcome_simps]: "u64_add a b = Ok c \<longleftrightarrow> a + b < u64_limit \<and> c = a + b"
  by (auto simp: u64_add_def)

lemma u64_add_not_Err [simp]: "u64_add a b \<noteq> Err e"
  by (simp add: u64_add_def)

lemma u64_add_ok [simp]: "a + b < u64_limit \<Longrightarrow> u64_add a b = Ok (a + b)"
  by (simp add: u64_add_def)

lemma u64_sub_eq_Ok [outcome_simps]: "u64_sub a b = Ok c \<longleftrightarrow> b \<le> a \<and> c = a - b"
  by (auto simp: u64_sub_def)

lemma u64_sub_not_Err [simp]: "u64_sub a b \<noteq> Err e"
  by (simp add: u64_sub_def)

lemma u64_sub_ok [simp]: "b \<le> a \<Longrightarrow> u64_sub a b = Ok (a - b)"
  by (simp add: u64_sub_def)

lemma unat_less_pow: "unat (w :: 'a::len word) < 2 ^ LENGTH('a)"
  by (rule unsigned_less)

lemma unat_byte_bound [simp]: "unat (b :: u8) < 256"
  using unat_less_pow [of b] by simp

lemma unat_ucast_byte: "unat (ucast (b :: u8) :: u32) = unat b"
proof -
  have "unat b < 2 ^ 32" by (rule order.strict_trans [OF unat_byte_bound]) simp
  then show ?thesis by (simp add: unsigned_ucast_eq take_bit_eq_mod)
qed

lemma byte_256_zero: "(256 :: u8) = 0"
  by (simp add: word_unat_eq_iff)

lemma unat_u64_limit [simp]: "unat (w :: u64) < u64_limit"
  using unat_less_pow [of w] by (simp add: u64_limit_def)

lemma unat_of_nat_u64: "n < u64_limit \<Longrightarrow> unat (of_nat n :: u64) = n"
  by (simp add: unat_of_nat u64_limit_def)

section \<open>Absence of panics\<close>

lemma no_panic_and_then [no_panic]:
  "\<not> is_panic x \<Longrightarrow> (\<And>a. x = Ok a \<Longrightarrow> \<not> is_panic (f a)) \<Longrightarrow> \<not> is_panic (and_then x f)"
  by (cases x) auto

lemma no_panic_if [no_panic]:
  "(b \<Longrightarrow> \<not> is_panic x) \<Longrightarrow> (\<not> b \<Longrightarrow> \<not> is_panic y) \<Longrightarrow> \<not> is_panic (if b then x else y)"
  by simp

lemma no_panic_value [no_panic]: "\<not> is_panic (Ok a)" "\<not> is_panic (Err e)"
  by simp_all

lemma no_panic_map_err [no_panic]: "\<not> is_panic x \<Longrightarrow> \<not> is_panic (map_err g x)"
  by simp

lemma no_panic_access [no_panic]:
  "i < length xs \<Longrightarrow> \<not> is_panic (vec_index xs i)"
  "a \<le> b \<Longrightarrow> b \<le> length xs \<Longrightarrow> \<not> is_panic (vec_slice xs a b)"
  "m + n < u64_limit \<Longrightarrow> \<not> is_panic (u64_add m n)"
  "n \<le> m \<Longrightarrow> \<not> is_panic (u64_sub m n)"
  by simp_all

section \<open>Lists\<close>

lemma take_drop_append_mid [simp]:
  "length pre = a \<Longrightarrow> length mid = n \<Longrightarrow> take n (drop a (pre @ mid @ post)) = mid"
  by simp

lemma nth_take_drop [simp]: "a + i < length xs \<Longrightarrow> i < n \<Longrightarrow> take n (drop a xs) ! i = xs ! (a + i)"
  by simp

lemma take_drop_split:
  "m \<le> n \<Longrightarrow> take n (drop a xs) = take m (drop a xs) @ take (n - m) (drop (a + m) xs)"
  by (metis add.commute add_diff_inverse_nat drop_drop not_less take_add)

lemma take_drop_Cons:
  "a < length xs \<Longrightarrow> take (Suc n) (drop a xs) = xs ! a # take n (drop (Suc a) xs)"
  by (simp add: Cons_nth_drop_Suc [symmetric])

lemma list_all_zero_replicate: "(\<forall>b \<in> set bs. b = z) \<Longrightarrow> bs = replicate (length bs) z"
  by (induction bs) auto

lemma filter_split:
  assumes "list_all (\<lambda>x. \<not> P x) (take m xs)" "list_all P (drop m xs)"
  shows "filter P (drop n xs) = drop (max n m) xs"
proof (cases "n \<le> m")
  case True
  have "drop n xs = drop n (take m xs) @ drop m xs"
    using True by (metis append_take_drop_id drop_append drop_take length_take le_add_diff_inverse2 min.absorb2
        diff_is_0_eq' drop0 drop_all drop_drop linorder_linear)
  moreover have "filter P (drop n (take m xs)) = []"
    using assms(1) by (auto simp: list_all_iff filter_empty_conv dest: in_set_dropD)
  moreover have "filter P (drop m xs) = drop m xs" using assms(2) by (simp add: list_all_iff)
  ultimately show ?thesis using True by (simp add: max_def)
next
  case False
  then have "set (drop n xs) \<subseteq> set (drop m xs)" by (simp add: set_drop_subset_set_drop)
  then have "filter P (drop n xs) = drop n xs" using assms(2) by (intro filter_True) (auto simp: list_all_iff)
  with False show ?thesis by (simp add: max_def)
qed

section \<open>Little-endian round trips\<close>

lemma length_le_bytes [simp]: "length (le_bytes n v) = n"
  by (induction n arbitrary: v) auto

lemma le_bytes_numeral [simp]:
  "le_bytes (numeral k) v = of_nat v # le_bytes (pred_numeral k) (v div 256)"
  by (simp only: numeral_eq_Suc le_bytes.simps)

lemma unat_of_nat_byte [simp]: "unat (of_nat v :: u8) = v mod 256"
  by (simp add: unat_of_nat)

lemma le_nat_le_bytes [le_simps]: "le_nat (le_bytes n v) = v mod 256 ^ n"
proof (induction n arbitrary: v)
  case 0
  then show ?case by simp
next
  case (Suc n)
  have "v mod 256 + 256 * (v div 256 mod 256 ^ n) = v mod (256 * 256 ^ n)"
    by (simp add: mod_mult2_eq)
  then show ?case by (simp add: Suc)
qed

lemma le_nat_bound: "le_nat bs < 256 ^ length bs"
proof (induction bs)
  case Nil
  then show ?case by simp
next
  case (Cons b bs)
  have "256 * Suc (le_nat bs) \<le> 256 * 256 ^ length bs"
    using Cons by (intro mult_le_mono) auto
  then have "256 * le_nat bs + 256 \<le> 256 ^ length (b # bs)" by simp
  with unat_byte_bound [of b] show ?case unfolding le_nat.simps by linarith
qed

lemma le_bytes_le_nat [le_simps]: "length bs = n \<Longrightarrow> le_bytes n (le_nat bs) = bs"
proof (induction bs arbitrary: n)
  case Nil
  then show ?case by simp
next
  case (Cons b bs)
  have b: "unat b < 256" by simp
  then have "(unat b + 256 * le_nat bs) div 256 = le_nat bs" by simp
  moreover have "(of_nat (unat b + 256 * le_nat bs) :: u8) = b"
    by (simp add: byte_256_zero)
  ultimately show ?case using Cons by auto
qed

lemma le_bytes_inj:
  assumes "le_bytes n v = le_bytes n w" and "v < 256 ^ n" and "w < 256 ^ n"
  shows "v = w"
  using assms by (metis le_nat_le_bytes mod_less)

lemma length_to_le_bytes [simp]:
  "length (u16_to_le_bytes a) = 2" "length (u32_to_le_bytes b) = 4" "length (u64_to_le_bytes c) = 8"
  by (simp_all only: u16_to_le_bytes_def u32_to_le_bytes_def u64_to_le_bytes_def length_le_bytes)

lemma from_le_bytes_of_word [simp]:
  "from_le_bytes (le_bytes n (unat (w :: 'a::len word))) = w" if "LENGTH('a) = 8 * n"
proof -
  have "unat w < 2 ^ (8 * n)" using unat_less_pow [of w] that by simp
  then have "unat w < 256 ^ n" by (simp add: power_mult)
  then show ?thesis by (simp add: from_le_bytes_def le_nat_le_bytes)
qed

lemma from_to_le_bytes [simp]:
  "from_le_bytes (u16_to_le_bytes a) = a"
  "from_le_bytes (u32_to_le_bytes b) = b"
  "from_le_bytes (u64_to_le_bytes c) = c"
  by (simp_all only: u16_to_le_bytes_def u32_to_le_bytes_def u64_to_le_bytes_def)
     (rule from_le_bytes_of_word, simp)+

lemma unat_from_le_bytes [le_simps]:
  "unat (from_le_bytes bs :: 'a::len word) = le_nat bs" if "8 * length bs = LENGTH('a)"
proof -
  have "(256::nat) ^ length bs = 2 ^ (8 * length bs)" by (simp add: power_mult)
  also have "\<dots> = 2 ^ LENGTH('a)" using that by simp
  finally show ?thesis
    using le_nat_bound [of bs] by (simp add: from_le_bytes_def unat_of_nat)
qed

lemma to_from_le_bytes:
  "length bs = 2 \<Longrightarrow> u16_to_le_bytes (from_le_bytes bs) = bs"
  "length bs = 4 \<Longrightarrow> u32_to_le_bytes (from_le_bytes bs) = bs"
  "length bs = 8 \<Longrightarrow> u64_to_le_bytes (from_le_bytes bs) = bs"
  by (subst u16_to_le_bytes_def u32_to_le_bytes_def u64_to_le_bytes_def,
      subst unat_from_le_bytes, simp, rule le_bytes_le_nat, assumption)+

end
