(* ===== verification/Crc.thy ===== *)
theory Crc
  imports Prelude
begin

text \<open>
  The CRC-32C (Castagnoli) checksum of \<open>crates/carriage/src/crc.rs\<close>: the bit step and byte step
  of the loop of \<open>crc32c\<close>, the checksum itself, and the facts that make it an error detector: every
  step is injective, so two inputs of equal length that differ in one byte have different checksums.
\<close>

definition REFLECTED_POLY :: u32 where
  "REFLECTED_POLY = 0x82F63B78"

definition crc_bit_step :: "u32 \<Rightarrow> u32" where
  "crc_bit_step crc =
     (let mask = 0 - (crc AND 1) in drop_bit 1 crc XOR (REFLECTED_POLY AND mask))"

definition crc_byte_step :: "u32 \<Rightarrow> u8 \<Rightarrow> u32" where
  "crc_byte_step crc byte = (crc_bit_step ^^ 8) (crc XOR ucast byte)"

definition crc32c :: "byte_vec \<Rightarrow> u32" where
  "crc32c bytes = NOT (foldl crc_byte_step 0xFFFFFFFF bytes)"

section \<open>Every step is injective\<close>

lemma xor_right_cancel:
  fixes a b :: u32
  assumes "a XOR c = b XOR c"
  shows "a = b"
proof -
  have "(a XOR c) XOR c = (b XOR c) XOR c" using assms by simp
  then show ?thesis by (simp add: xor.assoc)
qed

lemma crc_bit_step_cases:
  "crc_bit_step c = (if odd c then drop_bit 1 c XOR REFLECTED_POLY else drop_bit 1 c)"
proof (cases "odd c")
  case True
  then have "c AND 1 = 1" by (simp add: and_one_eq odd_iff_mod_2_eq_one)
  with True show ?thesis by (simp add: crc_bit_step_def)
next
  case False
  then have "c AND 1 = 0" by (simp add: and_one_eq even_iff_mod_2_eq_zero)
  with False show ?thesis by (simp add: crc_bit_step_def)
qed

lemma crc_bit_step_top: "bit (crc_bit_step c) 31 = odd c"
proof -
  have "bit REFLECTED_POLY 31"
    by (simp add: REFLECTED_POLY_def bit_numeral_rec)
  moreover have "\<not> bit (drop_bit 1 c) 31"
    by (auto simp: bit_drop_bit_eq dest: bit_imp_le_length)
  ultimately show ?thesis by (simp add: crc_bit_step_cases bit_xor_iff)
qed

lemma inj_crc_bit_step: "inj crc_bit_step"
proof (rule injI)
  fix a b :: u32
  assume eq: "crc_bit_step a = crc_bit_step b"
  then have odd: "odd a = odd b" by (metis crc_bit_step_top)
  have "drop_bit 1 a = drop_bit 1 b"
  proof (cases "odd a")
    case True
    with eq odd have "drop_bit 1 a XOR REFLECTED_POLY = drop_bit 1 b XOR REFLECTED_POLY"
      by (simp add: crc_bit_step_cases)
    then show ?thesis by (rule xor_right_cancel)
  next
    case False
    with eq odd show ?thesis by (simp add: crc_bit_step_cases)
  qed
  moreover have "a AND 1 = b AND 1" using odd by (simp add: and_one_eq mod_2_eq_odd)
  ultimately show "a = b"
    by (metis bits_ident take_bit_eq_mask mask_1)
qed

lemma inj_crc_byte_step_state: "crc_byte_step a x = crc_byte_step b x \<Longrightarrow> a = b"
proof -
  assume "crc_byte_step a x = crc_byte_step b x"
  then have "a XOR ucast x = b XOR ucast x"
    unfolding crc_byte_step_def by (rule injD [OF inj_fn [OF inj_crc_bit_step]])
  then show ?thesis by (rule xor_right_cancel)
qed

lemma inj_crc_byte_step_byte: "crc_byte_step a x = crc_byte_step a y \<Longrightarrow> x = y"
proof -
  assume "crc_byte_step a x = crc_byte_step a y"
  then have "a XOR ucast x = a XOR ucast y"
    unfolding crc_byte_step_def by (rule injD [OF inj_fn [OF inj_crc_bit_step]])
  then have "ucast x XOR a = ucast y XOR a" by (simp add: xor.commute)
  then have "(ucast x :: u32) = ucast y" by (rule xor_right_cancel)
  then show ?thesis by (metis unat_ucast_byte word_unat_eq_iff)
qed

lemma foldl_crc_inj: "foldl crc_byte_step a zs = foldl crc_byte_step b zs \<Longrightarrow> a = b"
  by (induction zs arbitrary: a b) (auto dest: inj_crc_byte_step_state)

lemma crc32c_byte_change:
  "crc32c (xs @ x # zs) = crc32c (xs @ y # zs) \<longleftrightarrow> x = y"
proof
  assume "crc32c (xs @ x # zs) = crc32c (xs @ y # zs)"
  then have "NOT (NOT (foldl crc_byte_step (crc_byte_step (foldl crc_byte_step 0xFFFFFFFF xs) x) zs))
           = NOT (NOT (foldl crc_byte_step (crc_byte_step (foldl crc_byte_step 0xFFFFFFFF xs) y) zs))"
    by (simp add: crc32c_def)
  then show "x = y"
    by (auto dest!: foldl_crc_inj inj_crc_byte_step_byte)
qed simp

lemma crc32c_update:
  assumes "i < length bs" and "crc32c (bs[i := y]) = crc32c bs"
  shows "bs ! i = y"
proof -
  have "bs[i := y] = take i bs @ y # drop (Suc i) bs"
    using assms(1) by (simp add: upd_conv_take_nth_drop)
  moreover have "bs = take i bs @ bs ! i # drop (Suc i) bs"
    using assms(1) by (simp add: id_take_nth_drop)
  ultimately show ?thesis
    using assms(2) crc32c_byte_change by metis
qed

section \<open>The known answer\<close>

lemma crc_byte_step_unfold:
  "crc_byte_step c b = crc_bit_step (crc_bit_step (crc_bit_step (crc_bit_step
     (crc_bit_step (crc_bit_step (crc_bit_step (crc_bit_step (c XOR ucast b))))))))"
  by (simp add: crc_byte_step_def eval_nat_numeral)

lemmas crc_eval = crc32c_def crc_byte_step_unfold crc_bit_step_cases REFLECTED_POLY_def

text \<open>CRC-32C of the ASCII digits 1 to 9 is the published check value 0xE3069283, and of the
  empty input 0.\<close>

theorem crc32c_known_answer:
  "crc32c [0x31, 0x32, 0x33, 0x34, 0x35, 0x36, 0x37, 0x38, 0x39] = 0xE3069283 \<and> crc32c [] = 0"
  by (simp add: crc_eval)

end
