(* ===== verification/Wire.thy ===== *)
theory Wire
  imports Crc
begin

text \<open>
  The binary record of \<open>crates/carriage/src/wire.rs\<close>: slots and records, \<open>encode\<close>,
  \<open>validate_record\<close> and \<open>decode\<close>.  The two loops over the slot area are recursive functions on the
  byte offset with the distance to the end of the slot area as their measure; every index and slice
  of the source is a bounds-checked access, so that a panic is a value.  The lemmas show the round
  trips in both directions, that decoding arbitrary bytes never panics, which inputs \<open>encode\<close>
  refuses, and that a corrupted byte is caught by the checksum.
\<close>

section \<open>Constants, data and errors\<close>

definition HEADER_LEN :: nat where [simp]: "HEADER_LEN = 40"
definition CRC_LEN :: nat where [simp]: "CRC_LEN = 4"
definition SYNC :: byte_vec where "SYNC = [0x4F, 0x4F, 0x54, 0x32]"

definition FLAG_TIME_UNSYNCED :: u16 where "FLAG_TIME_UNSYNCED = push_bit 0 1"
definition FLAG_SYNTHETIC :: u16 where "FLAG_SYNTHETIC = push_bit 1 1"
definition FLAG_PARTIAL_PAYLOAD :: u16 where "FLAG_PARTIAL_PAYLOAD = push_bit 2 1"
definition FLAG_HAS_CRC :: u16 where "FLAG_HAS_CRC = push_bit 3 1"

record Slot =
  slot_key :: u16
  slot_ty :: u8
  slot_payload :: byte_vec

definition slot_new :: "u16 \<Rightarrow> u8 \<Rightarrow> byte_vec \<Rightarrow> Slot" where
  "slot_new key ty payload = \<lparr>slot_key = key, slot_ty = ty, slot_payload = payload\<rparr>"

record Record =
  rec_flags :: u16
  rec_source_time :: u64
  rec_run_id :: u64
  rec_seq :: u64
  rec_source_id :: u32
  rec_event_type_id :: u32
  rec_slots :: "Slot list"

definition record_new :: "u64 \<Rightarrow> u64 \<Rightarrow> u64 \<Rightarrow> u32 \<Rightarrow> u32 \<Rightarrow> Record" where
  "record_new source_time run_id seq source_id event_type_id =
     \<lparr>rec_flags = 0, rec_source_time = source_time, rec_run_id = run_id, rec_seq = seq,
      rec_source_id = source_id, rec_event_type_id = event_type_id, rec_slots = []\<rparr>"

record DecodedRecord =
  dec_record :: Record
  dec_consumed :: nat

datatype WireError =
    CrcMismatch u32 u32        \<comment> \<open>expected, actual\<close>
  | InvalidLength nat nat      \<comment> \<open>total\_len, available\<close>
  | InvalidPadding nat         \<comment> \<open>offset\<close>
  | InvalidSlot nat            \<comment> \<open>offset\<close>
  | RecordTooLong nat          \<comment> \<open>len\<close>
  | SlotTooLong u16 nat        \<comment> \<open>key, len\<close>
  | Truncated nat nat          \<comment> \<open>needed, available\<close>
  | WrongSync

section \<open>Encoding\<close>

definition padding_len :: "nat \<Rightarrow> nat" where
  "padding_len payload_len = (4 - (payload_len mod 4)) mod 4"

definition slot_encoded_len :: "Slot \<Rightarrow> (nat, WireError) outcome" where
  "slot_encoded_len s =
     (if length (slot_payload s) > 255
      then Err (SlotTooLong (slot_key s) (length (slot_payload s)))
      else Ok (4 + length (slot_payload s) + padding_len (length (slot_payload s))))"

definition slot_encode_into :: "Slot \<Rightarrow> byte_vec \<Rightarrow> (byte_vec, WireError) outcome" where
  "slot_encode_into s out =
     (if length (slot_payload s) > 255
      then Err (SlotTooLong (slot_key s) (length (slot_payload s)))
      else Ok (out @ u16_to_le_bytes (slot_key s) @ [slot_ty s] @ [of_nat (length (slot_payload s))]
                @ slot_payload s @ replicate (padding_len (length (slot_payload s))) 0))"

fun sum_slot_lens :: "Slot list \<Rightarrow> nat \<Rightarrow> (nat, WireError) outcome" where
  "sum_slot_lens [] slots_len = Ok slots_len"
| "sum_slot_lens (s # ss) slots_len =
     and_then (slot_encoded_len s) (\<lambda>n. sum_slot_lens ss (slots_len + n))"

fun encode_slots_into :: "Slot list \<Rightarrow> byte_vec \<Rightarrow> (byte_vec, WireError) outcome" where
  "encode_slots_into [] out = Ok out"
| "encode_slots_into (s # ss) out = and_then (slot_encode_into s out) (encode_slots_into ss)"

definition encode_flags :: "u16 \<Rightarrow> bool \<Rightarrow> u16" where
  "encode_flags flags with_crc =
     (if with_crc then flags OR FLAG_HAS_CRC else flags AND NOT FLAG_HAS_CRC)"

definition encode_header :: "Record \<Rightarrow> u16 \<Rightarrow> u16 \<Rightarrow> byte_vec" where
  "encode_header r total_len flags =
     SYNC @ u16_to_le_bytes total_len @ u16_to_le_bytes flags
     @ u64_to_le_bytes (rec_source_time r) @ u64_to_le_bytes (rec_run_id r)
     @ u64_to_le_bytes (rec_seq r) @ u32_to_le_bytes (rec_source_id r)
     @ u32_to_le_bytes (rec_event_type_id r)"

definition encode :: "Record \<Rightarrow> bool \<Rightarrow> (byte_vec, WireError) outcome" where
  "encode r with_crc =
     and_then (sum_slot_lens (rec_slots r) 0) (\<lambda>slots_len.
       let total_len = HEADER_LEN + slots_len + (if with_crc then CRC_LEN else 0)
       in if total_len > 65535 then Err (RecordTooLong total_len)
          else and_then
            (encode_slots_into (rec_slots r)
              (encode_header r (of_nat total_len) (encode_flags (rec_flags r) with_crc)))
            (\<lambda>out. let out = (if with_crc then out @ u32_to_le_bytes (crc32c out) else out)
                    in if length out = total_len then Ok out else Panic AssertionFailed))"

section \<open>Reading\<close>

definition read_u16 :: "byte_vec \<Rightarrow> nat \<Rightarrow> (u16, 'e) outcome" where
  "read_u16 bytes offset = and_then (vec_slice bytes offset (offset + 2)) (\<lambda>b. Ok (from_le_bytes b))"

definition read_u32 :: "byte_vec \<Rightarrow> nat \<Rightarrow> (u32, 'e) outcome" where
  "read_u32 bytes offset = and_then (vec_slice bytes offset (offset + 4)) (\<lambda>b. Ok (from_le_bytes b))"

definition read_u64 :: "byte_vec \<Rightarrow> nat \<Rightarrow> (u64, 'e) outcome" where
  "read_u64 bytes offset = and_then (vec_slice bytes offset (offset + 8)) (\<lambda>b. Ok (from_le_bytes b))"

fun first_nonzero :: "byte_vec \<Rightarrow> nat \<Rightarrow> nat option" where
  "first_nonzero [] i = None"
| "first_nonzero (b # bs) i = (if b \<noteq> 0 then Some i else first_nonzero bs (Suc i))"

function validate_slots :: "byte_vec \<Rightarrow> nat \<Rightarrow> nat \<Rightarrow> (unit, WireError) outcome" where
  "validate_slots bytes slots_end offset =
     (if offset < slots_end then
        if slots_end - offset < 4 then Err (InvalidSlot offset)
        else and_then (vec_index bytes (offset + 3)) (\<lambda>len_byte.
          let len = unat len_byte;
              payload_start = offset + 4;
              payload_end = payload_start + len
          in if payload_end > slots_end then Err (InvalidSlot offset)
             else let next_offset = payload_end + padding_len len
                  in if next_offset > slots_end then Err (InvalidSlot offset)
                     else and_then (vec_slice bytes payload_end next_offset) (\<lambda>padding.
                       case first_nonzero padding 0 of
                         Some i \<Rightarrow> Err (InvalidPadding (payload_end + i))
                       | None \<Rightarrow> validate_slots bytes slots_end next_offset))
      else Ok ())"
  by pat_completeness auto
termination
  by (relation "measure (\<lambda>(bytes, slots_end, offset). slots_end - offset)") auto

definition validate_record :: "byte_vec \<Rightarrow> (nat, WireError) outcome" where
  "validate_record bytes =
     (if length bytes < HEADER_LEN then Err (Truncated HEADER_LEN (length bytes))
      else and_then (vec_slice bytes 0 4) (\<lambda>sync.
        if sync \<noteq> SYNC then Err WrongSync
        else and_then (read_u16 bytes 4) (\<lambda>total.
          let total_len = unat total
          in if total_len < HEADER_LEN then Err (InvalidLength total_len (length bytes))
             else if total_len > length bytes then Err (Truncated total_len (length bytes))
             else and_then (read_u16 bytes 6) (\<lambda>flags.
               let has_crc = (flags AND FLAG_HAS_CRC \<noteq> 0)
               in if has_crc \<and> total_len < HEADER_LEN + CRC_LEN
                  then Err (InvalidLength total_len (length bytes))
                  else and_then
                    (if has_crc then
                       let trailer = total_len - CRC_LEN
                       in and_then (read_u32 bytes trailer) (\<lambda>expected.
                          and_then (vec_slice bytes 0 trailer) (\<lambda>body.
                            let actual = crc32c body
                            in if expected \<noteq> actual then Err (CrcMismatch expected actual)
                               else Ok trailer))
                     else Ok total_len)
                    (\<lambda>slots_end.
                       and_then (validate_slots bytes slots_end HEADER_LEN) (\<lambda>_. Ok total_len))))))"

function decode_slots ::
  "byte_vec \<Rightarrow> nat \<Rightarrow> nat \<Rightarrow> Slot list \<Rightarrow> (Slot list, WireError) outcome" where
  "decode_slots bytes slots_end offset slots =
     (if offset < slots_end then
        and_then (read_u16 bytes offset) (\<lambda>key.
        and_then (vec_index bytes (offset + 2)) (\<lambda>ty.
        and_then (vec_index bytes (offset + 3)) (\<lambda>len_byte.
          let len = unat len_byte;
              payload_start = offset + 4;
              payload_end = payload_start + len;
              next_offset = payload_end + padding_len len
          in and_then (vec_slice bytes payload_start payload_end) (\<lambda>payload.
               decode_slots bytes slots_end next_offset
                 (slots @ [\<lparr>slot_key = key, slot_ty = ty, slot_payload = payload\<rparr>])))))
      else Ok slots)"
  by pat_completeness auto
termination
  by (relation "measure (\<lambda>(bytes, slots_end, offset, slots). slots_end - offset)") auto

definition decode :: "byte_vec \<Rightarrow> (DecodedRecord, WireError) outcome" where
  "decode bytes =
     and_then (validate_record bytes) (\<lambda>total_len.
     and_then (read_u16 bytes 6) (\<lambda>flags.
       let has_crc = (flags AND FLAG_HAS_CRC \<noteq> 0);
           slots_end = (if has_crc then total_len - CRC_LEN else total_len)
       in and_then (decode_slots bytes slots_end HEADER_LEN []) (\<lambda>slots.
          and_then (read_u64 bytes 8) (\<lambda>source_time.
          and_then (read_u64 bytes 16) (\<lambda>run_id.
          and_then (read_u64 bytes 24) (\<lambda>seq.
          and_then (read_u32 bytes 32) (\<lambda>source_id.
          and_then (read_u32 bytes 36) (\<lambda>event_type_id.
            Ok \<lparr>dec_record =
                  \<lparr>rec_flags = flags, rec_source_time = source_time, rec_run_id = run_id,
                   rec_seq = seq, rec_source_id = source_id, rec_event_type_id = event_type_id,
                   rec_slots = slots\<rparr>,
                dec_consumed = total_len\<rparr>))))))))"

declare validate_slots.simps [simp del] decode_slots.simps [simp del]

section \<open>The image of a slot\<close>

definition slot_ok :: "Slot \<Rightarrow> bool" where
  "slot_ok s \<longleftrightarrow> length (slot_payload s) \<le> 255"

definition slot_bytes :: "Slot \<Rightarrow> byte_vec" where
  "slot_bytes s =
     u16_to_le_bytes (slot_key s) @ [slot_ty s, of_nat (length (slot_payload s))]
     @ slot_payload s @ replicate (padding_len (length (slot_payload s))) 0"

definition slots_bytes :: "Slot list \<Rightarrow> byte_vec" where
  "slots_bytes ss = concat (map slot_bytes ss)"

lemma slots_bytes_simps [simp]:
  "slots_bytes [] = []" "slots_bytes (s # ss) = slot_bytes s @ slots_bytes ss"
  by (simp_all add: slots_bytes_def)

lemma length_slot_bytes [simp]:
  "length (slot_bytes s) =
     4 + length (slot_payload s) + padding_len (length (slot_payload s))"
  by (simp add: slot_bytes_def)

lemma padding_len_aligned: "4 dvd 4 + n + padding_len n"
proof -
  have "n mod 4 = 0 \<or> n mod 4 = 1 \<or> n mod 4 = 2 \<or> n mod 4 = 3" by arith
  then have "n mod 4 = 0 \<and> padding_len n = 0 \<or> n mod 4 = 1 \<and> padding_len n = 3
      \<or> n mod 4 = 2 \<and> padding_len n = 2 \<or> n mod 4 = 3 \<and> padding_len n = 1"
    by (auto simp: padding_len_def)
  then show ?thesis by presburger
qed

lemma length_slots_bytes_aligned: "4 dvd length (slots_bytes ss)"
proof (induction ss)
  case (Cons s ss)
  have "4 dvd length (slot_bytes s)"
    using padding_len_aligned [of "length (slot_payload s)"] by simp
  with Cons show ?case by (simp only: slots_bytes_simps length_append dvd_add)
qed simp

lemma slot_encoded_len_ok [simp]: "slot_ok s \<Longrightarrow> slot_encoded_len s = Ok (length (slot_bytes s))"
  by (simp add: slot_encoded_len_def slot_ok_def)

lemma slot_encode_into_ok [simp]: "slot_ok s \<Longrightarrow> slot_encode_into s out = Ok (out @ slot_bytes s)"
  by (simp add: slot_encode_into_def slot_ok_def slot_bytes_def)

lemma sum_slot_lens_ok [simp]:
  "list_all slot_ok ss \<Longrightarrow> sum_slot_lens ss n = Ok (n + length (slots_bytes ss))"
  by (induction ss arbitrary: n) (simp_all add: add.assoc del: length_slot_bytes)

lemma encode_slots_into_ok [simp]:
  "list_all slot_ok ss \<Longrightarrow> encode_slots_into ss out = Ok (out @ slots_bytes ss)"
  by (induction ss arbitrary: out) simp_all

lemma sum_slot_lens_eq_Ok:
  "sum_slot_lens ss n = Ok m \<longleftrightarrow> list_all slot_ok ss \<and> m = n + length (slots_bytes ss)"
proof (induction ss arbitrary: n)
  case (Cons s ss)
  show ?case
  proof (cases "slot_ok s")
    case True
    with Cons show ?thesis by (simp add: add.assoc del: length_slot_bytes)
  next
    case False
    then show ?thesis by (simp add: slot_encoded_len_def slot_ok_def)
  qed
qed auto

lemma sum_slot_lens_not_panic [simp]: "sum_slot_lens ss n \<noteq> Panic p"
  by (induction ss arbitrary: n) (auto simp: slot_encoded_len_def outcome_simps)

lemma length_encode_header [simp]: "length (encode_header r t f) = 40"
  by (simp add: encode_header_def SYNC_def)

section \<open>What encode produces and refuses\<close>

definition record_len :: "Record \<Rightarrow> bool \<Rightarrow> nat" where
  "record_len r with_crc = 40 + length (slots_bytes (rec_slots r)) + (if with_crc then 4 else 0)"

definition encodable :: "Record \<Rightarrow> bool \<Rightarrow> bool" where
  "encodable r with_crc \<longleftrightarrow> list_all slot_ok (rec_slots r) \<and> record_len r with_crc \<le> 65535"

definition record_body :: "Record \<Rightarrow> bool \<Rightarrow> byte_vec" where
  "record_body r with_crc =
     encode_header r (of_nat (record_len r with_crc)) (encode_flags (rec_flags r) with_crc)
     @ slots_bytes (rec_slots r)"

definition record_bytes :: "Record \<Rightarrow> bool \<Rightarrow> byte_vec" where
  "record_bytes r with_crc =
     record_body r with_crc
     @ (if with_crc then u32_to_le_bytes (crc32c (record_body r with_crc)) else [])"

lemma length_record_body [simp]:
  "length (record_body r c) = 40 + length (slots_bytes (rec_slots r))"
  by (simp add: record_body_def)

lemma length_record_bytes [simp]: "length (record_bytes r c) = record_len r c"
  by (simp add: record_bytes_def record_len_def)

lemma encode_ok: "encodable r c \<Longrightarrow> encode r c = Ok (record_bytes r c)"
  by (auto simp: encode_def encodable_def record_len_def record_bytes_def record_body_def Let_def)

lemma encode_eq_Ok: "encode r c = Ok bs \<longleftrightarrow> encodable r c \<and> bs = record_bytes r c"
proof
  assume e: "encode r c = Ok bs"
  then have "encodable r c"
    by (auto simp: encode_def outcome_simps sum_slot_lens_eq_Ok encodable_def record_len_def Let_def
        split: if_splits)
  with e show "encodable r c \<and> bs = record_bytes r c" by (simp add: encode_ok)
qed (simp add: encode_ok)

lemma encode_not_panic: "encode r c \<noteq> Panic p"
proof (cases "list_all slot_ok (rec_slots r)")
  case True
  then show ?thesis by (auto simp: encode_def Let_def)
next
  case False
  then have "\<not> is_ok (sum_slot_lens (rec_slots r) 0)"
    by (metis is_ok.elims(2) sum_slot_lens_eq_Ok)
  then show ?thesis by (cases "sum_slot_lens (rec_slots r) 0") (auto simp: encode_def)
qed

section \<open>Reading back what encode wrote\<close>

lemma length_SYNC [simp]: "length SYNC = 4"
  by (simp add: SYNC_def)

lemma header_reads:
  fixes r t f rest
  defines "bs \<equiv> encode_header r t f @ rest"
  shows "vec_slice bs 0 4 = Ok SYNC" "read_u16 bs 4 = Ok t" "read_u16 bs 6 = Ok f"
    "read_u64 bs 8 = Ok (rec_source_time r)" "read_u64 bs 16 = Ok (rec_run_id r)"
    "read_u64 bs 24 = Ok (rec_seq r)" "read_u32 bs 32 = Ok (rec_source_id r)"
    "read_u32 bs 36 = Ok (rec_event_type_id r)"
  by (simp_all add: bs_def encode_header_def read_u16_def read_u32_def read_u64_def)

lemma read_u16_at [simp]: "read_u16 (pre @ u16_to_le_bytes w @ post) (length pre) = Ok w"
  by (simp add: read_u16_def)

lemma read_u32_at [simp]: "read_u32 (pre @ u32_to_le_bytes w @ post) (length pre) = Ok w"
  by (simp add: read_u32_def)

lemma first_nonzero_replicate [simp]: "first_nonzero (replicate n 0) i = None"
  by (induction n arbitrary: i) auto

lemma slot_eta [simp]:
  "\<lparr>slot_key = slot_key s, slot_ty = slot_ty s, slot_payload = slot_payload s\<rparr> = (s :: Slot)"
  by simp

lemma slot_len_byte: "slot_ok s \<Longrightarrow> length (slot_payload s) mod 256 = length (slot_payload s)"
  by (simp add: slot_ok_def)

lemma slot_reads:
  fixes pre s post
  defines "bs \<equiv> pre @ slot_bytes s @ post" and "n \<equiv> length (slot_payload s)"
  shows "read_u16 bs (length pre) = (Ok (slot_key s) :: (u16, WireError) outcome)"
    "vec_index bs (length pre + 2) = Ok (slot_ty s)"
    "vec_index bs (length pre + 3) = Ok (of_nat n)"
    "vec_slice bs (length pre + 4) (length pre + 4 + n) = Ok (slot_payload s)"
    "vec_slice bs (length pre + 4 + n) (length pre + 4 + n + padding_len n)
       = Ok (replicate (padding_len n) 0)"
proof -
  show "read_u16 bs (length pre) = (Ok (slot_key s) :: (u16, WireError) outcome)"
    by (simp add: bs_def slot_bytes_def)
  show "vec_index bs (length pre + 2) = Ok (slot_ty s)"
    by (simp add: bs_def slot_bytes_def vec_index_def nth_append)
  show "vec_index bs (length pre + 3) = Ok (of_nat n)"
    by (simp add: bs_def slot_bytes_def vec_index_def nth_append n_def)
  show "vec_slice bs (length pre + 4) (length pre + 4 + n) = Ok (slot_payload s)"
    by (simp add: bs_def slot_bytes_def n_def)
  show "vec_slice bs (length pre + 4 + n) (length pre + 4 + n + padding_len n)
       = Ok (replicate (padding_len n) 0)"
    by (simp add: bs_def slot_bytes_def n_def)
qed

lemma decode_slots_slots_bytes:
  assumes "list_all slot_ok ss"
  shows "decode_slots (pre @ slots_bytes ss @ post) (length pre + length (slots_bytes ss))
           (length pre) acc = Ok (acc @ ss)"
  using assms
proof (induction ss arbitrary: pre acc)
  case Nil
  then show ?case by (simp add: decode_slots.simps)
next
  case (Cons s ss)
  then have s: "slot_ok s" and ss: "list_all slot_ok ss" by simp_all
  show ?case
    using slot_len_byte [OF s] slot_reads [of pre s "slots_bytes ss @ post"]
      Cons.IH [OF ss, of "pre @ slot_bytes s" "acc @ [s]"]
    by (subst decode_slots.simps) (simp add: Let_def add.assoc)
qed

lemma validate_slots_slots_bytes:
  assumes "list_all slot_ok ss"
  shows "validate_slots (pre @ slots_bytes ss @ post) (length pre + length (slots_bytes ss))
           (length pre) = Ok ()"
  using assms
proof (induction ss arbitrary: pre)
  case Nil
  then show ?case by (simp add: validate_slots.simps)
next
  case (Cons s ss)
  then have s: "slot_ok s" and ss: "list_all slot_ok ss" by simp_all
  show ?case
    using slot_len_byte [OF s] slot_reads [of pre s "slots_bytes ss @ post"]
      Cons.IH [OF ss, of "pre @ slot_bytes s"]
    by (subst validate_slots.simps) (simp add: Let_def add.assoc)
qed

definition normalise_flags :: "Record \<Rightarrow> bool \<Rightarrow> Record" where
  "normalise_flags r c = r\<lparr>rec_flags := encode_flags (rec_flags r) c\<rparr>"

lemma has_crc_iff: "f AND FLAG_HAS_CRC = 0 \<longleftrightarrow> \<not> bit f 3"
  unfolding FLAG_HAS_CRC_def bit_iff_and_push_bit_not_eq_0 by simp

lemma bit_encode_flags [simp]: "bit (encode_flags f c) 3 = c"
  by (auto simp: encode_flags_def FLAG_HAS_CRC_def bit_simps)

lemma unat_record_len [simp]: "encodable r c \<Longrightarrow> unat (of_nat (record_len r c) :: u16) = record_len r c"
  by (simp add: encodable_def unat_of_nat)

lemma read_u32_mid: "length pre = n \<Longrightarrow> read_u32 (pre @ u32_to_le_bytes w @ post) n = Ok w"
  by (simp add: read_u32_def)

lemma vec_slice_prefix: "length pre = n \<Longrightarrow> vec_slice (pre @ post) 0 n = Ok pre"
  by simp

lemma record_bytes_header:
  "record_bytes r c @ rest = encode_header r (of_nat (record_len r c)) (encode_flags (rec_flags r) c)
     @ slots_bytes (rec_slots r)
     @ (if c then u32_to_le_bytes (crc32c (record_body r c)) else []) @ rest"
  by (simp add: record_bytes_def record_body_def)

lemma record_trailer_pos: "record_len r True - 4 = length (record_body r True)"
  by (simp add: record_len_def)

lemma record_trailer:
  fixes rest :: byte_vec
  shows "read_u32 (record_bytes r True @ rest) (length (record_body r True))
           = (Ok (crc32c (record_body r True)) :: (u32, WireError) outcome)"
    "vec_slice (record_bytes r True @ rest) 0 (length (record_body r True))
           = (Ok (record_body r True) :: (byte_vec, WireError) outcome)"
  by (simp_all add: record_bytes_def read_u32_mid vec_slice_prefix
      del: vec_slice_ok length_record_body)

lemma validate_record_record_bytes:
  assumes "encodable r c"
  shows "validate_record (record_bytes r c @ rest) = Ok (record_len r c)"
proof -
  let ?bs = "record_bytes r c @ rest"
  let ?se = "length (record_body r c)"
  have hdr: "vec_slice ?bs 0 4 = (Ok SYNC :: (byte_vec, WireError) outcome)"
    "read_u16 ?bs 4 = (Ok (of_nat (record_len r c)) :: (u16, WireError) outcome)"
    "read_u16 ?bs 6 = (Ok (encode_flags (rec_flags r) c) :: (u16, WireError) outcome)"
    by (simp_all only: record_bytes_header header_reads)
  have len: "40 \<le> record_len r c" "40 + (if c then 4 else 0) \<le> record_len r c"
    by (simp_all add: record_len_def)
  have slots: "validate_slots ?bs ?se 40 = Ok ()"
    using validate_slots_slots_bytes [of "rec_slots r"
        "encode_header r (of_nat (record_len r c)) (encode_flags (rec_flags r) c)"] assms
    by (simp add: record_bytes_header encodable_def)
  have se: "?se = (if c then record_len r c - 4 else record_len r c)"
    by (simp add: record_len_def)
  show ?thesis
    using hdr len slots se assms record_trailer [of r rest] record_trailer_pos [of r]
    by (cases c) (simp_all add: validate_record_def has_crc_iff Let_def del: vec_slice_ok length_record_body)
qed

lemma decode_record_bytes:
  assumes "encodable r c"
  shows "decode (record_bytes r c @ rest)
           = Ok \<lparr>dec_record = normalise_flags r c, dec_consumed = record_len r c\<rparr>"
proof -
  let ?bs = "record_bytes r c @ rest"
  have se: "(if c then record_len r c - 4 else record_len r c)
              = 40 + length (slots_bytes (rec_slots r))"
    by (simp add: record_len_def)
  have slots: "decode_slots ?bs (40 + length (slots_bytes (rec_slots r))) 40 [] = Ok (rec_slots r)"
    using decode_slots_slots_bytes [of "rec_slots r"
        "encode_header r (of_nat (record_len r c)) (encode_flags (rec_flags r) c)"
        "(if c then u32_to_le_bytes (crc32c (record_body r c)) else []) @ rest" "[]"] assms
    by (simp add: record_bytes_header encodable_def)
  show ?thesis
    using validate_record_record_bytes [OF assms, of rest] slots se
    by (simp add: decode_def Let_def has_crc_iff record_bytes_header header_reads normalise_flags_def
        cong: if_cong)
qed

section \<open>Every accepted byte string is a canonical encoding\<close>

lemma slot_of_bytes:
  fixes bs off
  defines "L \<equiv> unat (bs ! (off + 3))"
  assumes len: "off + 4 + L + padding_len L \<le> length bs"
    and pad: "take (padding_len L) (drop (off + 4 + L) bs) = replicate (padding_len L) 0"
  shows "slot_bytes \<lparr>slot_key = from_le_bytes (take 2 (drop off bs)), slot_ty = bs ! (off + 2),
            slot_payload = take L (drop (off + 4) bs)\<rparr>
         = take (4 + L + padding_len L) (drop off bs)" (is "slot_bytes ?s = _")
proof -
  have pl: "length (slot_payload ?s) = L" using len by simp
  have "slot_bytes ?s = take 2 (drop off bs) @ [bs ! (off + 2), bs ! (off + 3)]
      @ take L (drop (off + 4) bs) @ take (padding_len L) (drop (off + 4 + L) bs)"
    unfolding slot_bytes_def pl pad using len
    by (simp add: to_from_le_bytes(1) L_def)
  also have "\<dots> = take (4 + L + padding_len L) (drop off bs)"
    using len
    by (simp add: take_drop_split [of 2 "4 + L + padding_len L"] take_drop_Cons
        take_drop_split [of L "L + padding_len L"] eval_nat_numeral)
  finally show ?thesis .
qed

lemma first_nonzero_None: "first_nonzero bs i = None \<longleftrightarrow> (\<forall>b \<in> set bs. b = 0)"
  by (induction bs arbitrary: i) auto

lemma validate_slots_step:
  fixes bs off
  defines "L \<equiv> unat (bs ! (off + 3))"
  assumes "validate_slots bs se off = Ok ()" "off < se"
  shows "off + 4 + L + padding_len L \<le> se"
    "take (padding_len L) (drop (off + 4 + L) bs) = replicate (padding_len L) 0"
    "validate_slots bs se (off + 4 + L + padding_len L) = Ok ()"
proof -
  have *: "off + 4 + L + padding_len L \<le> se \<and> off + 4 + L + padding_len L \<le> length bs
      \<and> (\<forall>b \<in> set (take (padding_len L) (drop (off + 4 + L) bs)). b = 0)
      \<and> validate_slots bs se (off + 4 + L + padding_len L) = Ok ()"
    using assms(2,3) unfolding validate_slots.simps [of bs se off]
    by (auto simp: outcome_simps Let_def L_def first_nonzero_None split: if_splits option.splits)
  then show "off + 4 + L + padding_len L \<le> se"
    "validate_slots bs se (off + 4 + L + padding_len L) = Ok ()" by simp_all
  show "take (padding_len L) (drop (off + 4 + L) bs) = replicate (padding_len L) 0"
  proof -
    have "length (take (padding_len L) (drop (off + 4 + L) bs)) = padding_len L" using * by auto
    then show ?thesis
      using list_all_zero_replicate [of "take (padding_len L) (drop (off + 4 + L) bs)" 0] * by metis
  qed
qed

lemma parse_slots:
  assumes "validate_slots bs se off = Ok ()" "off \<le> se" "se \<le> length bs"
  shows "\<exists>ss. list_all slot_ok ss \<and> take (se - off) (drop off bs) = slots_bytes ss"
  using assms
proof (induction "se - off" arbitrary: off rule: less_induct)
  case less
  show ?case
  proof (cases "off < se")
    case False
    with less.prems show ?thesis by (intro exI [of _ "[]"]) simp
  next
    case True
    define L where "L = unat (bs ! (off + 3))"
    define n where "n = 4 + L + padding_len L"
    note st = validate_slots_step [OF less.prems(1) True, folded L_def]
    have n: "off + n \<le> se" "0 < n" "validate_slots bs se (off + n) = Ok ()"
      using st(1,3) by (simp_all add: n_def add.assoc)
    from True n(1,2) have "se - (off + n) < se - off" by linarith
    from less.hyps [OF this n(3,1) less.prems(3)]
    obtain ss where ss: "list_all slot_ok ss"
        "take (se - (off + n)) (drop (off + n) bs) = slots_bytes ss"
      by auto
    let ?s = "\<lparr>slot_key = from_le_bytes (take 2 (drop off bs)), slot_ty = bs ! (off + 2),
            slot_payload = take L (drop (off + 4) bs)\<rparr>"
    have "slot_bytes ?s = take n (drop off bs)"
      using slot_of_bytes [of off bs, folded L_def] st(1,2) less.prems(3) by (simp add: n_def)
    moreover have "slot_ok ?s"
      using unat_byte_bound [of "bs ! (off + 3)"] unfolding slot_ok_def L_def
      by (simp del: unat_byte_bound add: min.coboundedI2)
    ultimately show ?thesis
      using ss n less.prems(3)
      by (intro exI [of _ "?s # ss"]) (simp add: take_drop_split [of n "se - off"])
  qed
qed

lemma header_of_bytes:
  assumes "40 \<le> length bs" "take 4 bs = SYNC"
    and "t = from_le_bytes (take 2 (drop 4 bs))" "f = from_le_bytes (take 2 (drop 6 bs))"
    and "rec_source_time r = from_le_bytes (take 8 (drop 8 bs))"
    and "rec_run_id r = from_le_bytes (take 8 (drop 16 bs))"
    and "rec_seq r = from_le_bytes (take 8 (drop 24 bs))"
    and "rec_source_id r = from_le_bytes (take 4 (drop 32 bs))"
    and "rec_event_type_id r = from_le_bytes (take 4 (drop 36 bs))"
  shows "encode_header r t f = take 40 bs"
proof -
  have "take 40 bs = take 4 bs @ take 2 (drop 4 bs) @ take 2 (drop 6 bs) @ take 8 (drop 8 bs)
      @ take 8 (drop 16 bs) @ take 8 (drop 24 bs) @ take 4 (drop 32 bs) @ take 4 (drop 36 bs)"
    using take_drop_split [of 4 40 0 bs] take_drop_split [of 2 36 4 bs] take_drop_split [of 2 34 6 bs]
      take_drop_split [of 8 32 8 bs] take_drop_split [of 8 24 16 bs] take_drop_split [of 8 16 24 bs]
      take_drop_split [of 4 8 32 bs]
    by simp
  then show ?thesis using assms by (simp add: encode_header_def to_from_le_bytes)
qed

lemma read_words:
  "read_u16 bs i = (Ok a :: (u16, 'e) outcome) \<longleftrightarrow> i + 2 \<le> length bs \<and> a = from_le_bytes (take 2 (drop i bs))"
  "read_u32 bs i = (Ok b :: (u32, 'e) outcome) \<longleftrightarrow> i + 4 \<le> length bs \<and> b = from_le_bytes (take 4 (drop i bs))"
  "read_u64 bs i = (Ok c :: (u64, 'e) outcome) \<longleftrightarrow> i + 8 \<le> length bs \<and> c = from_le_bytes (take 8 (drop i bs))"
  by (auto simp: read_u16_def read_u32_def read_u64_def outcome_simps)

definition slots_end_of :: "u16 \<Rightarrow> nat \<Rightarrow> nat" where
  "slots_end_of f n = (if bit f 3 then n - 4 else n)"

lemma validate_record_inv:
  assumes "validate_record bs = Ok n"
  defines "f \<equiv> from_le_bytes (take 2 (drop 6 bs)) :: u16"
  shows "40 \<le> n" "n \<le> length bs" "take 4 bs = SYNC" "from_le_bytes (take 2 (drop 4 bs)) = (of_nat n :: u16)"
    "n < 65536" "40 \<le> slots_end_of f n" "validate_slots bs (slots_end_of f n) 40 = Ok ()"
    "bit f 3 \<Longrightarrow> 44 \<le> n \<and> u32_to_le_bytes (crc32c (take (n - 4) bs)) = take 4 (drop (n - 4) bs)"
proof -
  have "unat (from_le_bytes (take 2 (drop 4 bs)) :: u16) < 65536"
    using unat_less_pow [of "from_le_bytes (take 2 (drop 4 bs)) :: u16"] by simp
  moreover have "40 \<le> n \<and> n \<le> length bs \<and> take 4 bs = SYNC \<and> n = unat (from_le_bytes (take 2 (drop 4 bs)) :: u16)
    \<and> 40 \<le> slots_end_of f n \<and> validate_slots bs (slots_end_of f n) 40 = Ok ()
    \<and> (bit f 3 \<longrightarrow> 44 \<le> n \<and> crc32c (take (n - 4) bs) = from_le_bytes (take 4 (drop (n - 4) bs)))"
    using assms(1) unfolding validate_record_def
    by (auto simp: outcome_simps read_words Let_def has_crc_iff f_def slots_end_of_def split: if_splits)
  ultimately show "40 \<le> n" "n \<le> length bs" "take 4 bs = SYNC"
    "from_le_bytes (take 2 (drop 4 bs)) = (of_nat n :: u16)"
    "n < 65536" "40 \<le> slots_end_of f n" "validate_slots bs (slots_end_of f n) 40 = Ok ()"
    "bit f 3 \<Longrightarrow> 44 \<le> n \<and> u32_to_le_bytes (crc32c (take (n - 4) bs)) = take 4 (drop (n - 4) bs)"
    by (auto simp: to_from_le_bytes)
qed

definition record_of_bytes :: "byte_vec \<Rightarrow> Slot list \<Rightarrow> Record" where
  "record_of_bytes bs ss =
     \<lparr>rec_flags = from_le_bytes (take 2 (drop 6 bs)),
      rec_source_time = from_le_bytes (take 8 (drop 8 bs)),
      rec_run_id = from_le_bytes (take 8 (drop 16 bs)),
      rec_seq = from_le_bytes (take 8 (drop 24 bs)),
      rec_source_id = from_le_bytes (take 4 (drop 32 bs)),
      rec_event_type_id = from_le_bytes (take 4 (drop 36 bs)),
      rec_slots = ss\<rparr>"

lemma decode_of_valid:
  assumes v: "validate_record bs = Ok n"
  defines "f \<equiv> from_le_bytes (take 2 (drop 6 bs)) :: u16"
  shows "\<exists>ss. list_all slot_ok ss \<and> take (slots_end_of f n - 40) (drop 40 bs) = slots_bytes ss
           \<and> decode bs = Ok \<lparr>dec_record = record_of_bytes bs ss, dec_consumed = n\<rparr>"
proof -
  note inv = validate_record_inv [OF v, folded f_def]
  let ?se = "slots_end_of f n"
  have se: "?se \<le> length bs" using inv(2) by (auto simp: slots_end_of_def)
  obtain ss where ss: "list_all slot_ok ss" "take (?se - 40) (drop 40 bs) = slots_bytes ss"
    using parse_slots [OF inv(7,6) se] by auto
  have "bs = take 40 bs @ slots_bytes ss @ drop ?se bs"
    using inv(6) by (metis append_take_drop_id drop_drop le_add_diff_inverse2 ss(2))
  moreover have "length (slots_bytes ss) = ?se - 40" using ss(2) se by (metis length_drop length_take min.absorb2 diff_le_mono)
  moreover have "length (take 40 bs) = 40" using inv(1,2) by simp
  ultimately have "decode_slots bs ?se 40 [] = Ok ss"
    using decode_slots_slots_bytes [OF ss(1), of "take 40 bs" "drop ?se bs" "[]"] inv(6)
    by (metis append_Nil le_add_diff_inverse)
  then have "decode_slots bs (if bit f 3 then n - 4 else n) 40 [] = Ok ss"
    by (simp only: slots_end_of_def)
  then have "decode bs = Ok \<lparr>dec_record = record_of_bytes bs ss, dec_consumed = n\<rparr>"
    using v inv(1,2) unfolding f_def
    by (cases "bit (from_le_bytes (take 2 (drop 6 bs)) :: u16) 3")
       (simp_all add: decode_def read_u16_def read_u32_def read_u64_def Let_def has_crc_iff
        record_of_bytes_def)
  with ss show ?thesis by blast
qed

section \<open>Absence of panics\<close>

lemma validate_slots_not_panic:
  assumes "se \<le> length bs"
  shows "\<not> is_panic (validate_slots bs se off)"
  using assms
proof (induction "se - off" arbitrary: off rule: less_induct)
  case less
  have IH: "\<not> is_panic (validate_slots bs se (off + 4 + n + padding_len n))" if "off < se" for n
    using less that by simp
  show ?case
    using less.prems IH unfolding validate_slots.simps [of bs se off]
    by (auto simp: Let_def outcome_simps vec_index_def vec_slice_def split: option.split)
qed

lemma validate_record_not_panic: "\<not> is_panic (validate_record bs)"
  unfolding validate_record_def
  by (auto simp: Let_def read_u16_def read_u32_def read_words outcome_simps vec_slice_def
      intro!: validate_slots_not_panic split: if_splits)

lemma bit_FLAG_HAS_CRC: "bit FLAG_HAS_CRC n \<longleftrightarrow> n = 3"
  unfolding FLAG_HAS_CRC_def by (subst bit_push_bit_iff) (auto simp: bit_1_iff)

lemma encode_flags_same: "encode_flags f (bit f 3) = f"
  by (rule bit_eqI) (auto simp: encode_flags_def bit_or_iff bit_and_iff bit_not_iff bit_FLAG_HAS_CRC)

lemma record_bytes_of_valid:
  assumes v: "validate_record bs = Ok n" and ss: "list_all slot_ok ss"
    and eq: "take (slots_end_of (from_le_bytes (take 2 (drop 6 bs))) n - 40) (drop 40 bs) = slots_bytes ss"
  defines "r \<equiv> record_of_bytes bs ss"
  shows "encodable r (bit (rec_flags r) 3)" "record_bytes r (bit (rec_flags r) 3) = take n bs"
proof -
  let ?f = "from_le_bytes (take 2 (drop 6 bs)) :: u16" and ?c = "bit (rec_flags r) 3"
  have f: "rec_flags r = ?f" "rec_slots r = ss" by (simp_all add: r_def record_of_bytes_def)
  note inv = validate_record_inv [OF v]
  have sl: "length (slots_bytes ss) = slots_end_of ?f n - 40"
    using inv(1,2,6) unfolding eq [symmetric] by (simp add: slots_end_of_def)
  then have len: "record_len r ?c = n"
    using inv(1,6,8) by (auto simp: record_len_def f slots_end_of_def)
  then show "encodable r ?c" using ss inv(5) by (simp add: encodable_def f)
  have flags: "encode_flags ?f (bit ?f 3) = ?f"
    by (rule encode_flags_same)
  have hdr: "encode_header r (of_nat n) ?f = take 40 bs"
    using inv(1-4) by (intro header_of_bytes) (simp_all add: r_def record_of_bytes_def)
  have body: "record_body r ?c = take (slots_end_of ?f n) bs"
    using inv(6) take_drop_split [of 40 "slots_end_of ?f n" 0 bs]
    by (simp add: record_body_def len [unfolded f] f flags hdr eq [symmetric])
  show "record_bytes r ?c = take n bs"
    using inv(1,2,8) take_drop_split [of "n - 4" n 0 bs] body
    by (cases "bit ?f 3") (simp_all add: record_bytes_def f slots_end_of_def)
qed

lemma decode_eq_Ok:
  "decode bs = Ok d \<longleftrightarrow>
     encodable (dec_record d) (bit (rec_flags (dec_record d)) 3)
     \<and> dec_consumed d = record_len (dec_record d) (bit (rec_flags (dec_record d)) 3)
     \<and> dec_consumed d \<le> length bs
     \<and> take (dec_consumed d) bs = record_bytes (dec_record d) (bit (rec_flags (dec_record d)) 3)"
  (is "_ \<longleftrightarrow> ?R")
proof
  assume d: "decode bs = Ok d"
  then obtain n where v: "validate_record bs = Ok n" by (auto simp: decode_def outcome_simps)
  from decode_of_valid [OF v] d obtain ss where ss: "list_all slot_ok ss"
      "take (slots_end_of (from_le_bytes (take 2 (drop 6 bs))) n - 40) (drop 40 bs) = slots_bytes ss"
      "d = \<lparr>dec_record = record_of_bytes bs ss, dec_consumed = n\<rparr>" by auto
  note rb = record_bytes_of_valid [OF v ss(1,2)]
  moreover have "n = record_len (record_of_bytes bs ss) (bit (rec_flags (record_of_bytes bs ss)) 3)"
    using arg_cong [OF rb(2), of length] validate_record_inv(2) [OF v] by simp
  ultimately show ?R using ss(3) validate_record_inv(2) [OF v] by simp
next
  assume r: ?R
  let ?r = "dec_record d" let ?c = "bit (rec_flags ?r) 3"
  have "bs = record_bytes ?r ?c @ drop (dec_consumed d) bs" using r by (metis append_take_drop_id)
  moreover have "normalise_flags ?r ?c = ?r" by (simp add: normalise_flags_def encode_flags_same)
  moreover have "\<lparr>dec_record = ?r, dec_consumed = dec_consumed d\<rparr> = d" by simp
  ultimately show "decode bs = Ok d"
    using decode_record_bytes [of ?r ?c "drop (dec_consumed d) bs"] r by metis
qed

lemma decode_not_panic: "\<not> is_panic (decode bs)"
proof (cases "validate_record bs")
  case (Ok n)
  then show ?thesis using decode_of_valid [OF Ok] by auto
next
  case (Err e)
  then show ?thesis by (simp add: decode_def)
next
  case (Panic p)
  then show ?thesis using validate_record_not_panic [of bs] by simp
qed

lemma validate_record_iff_decode:
  "validate_record bs = Ok n \<longleftrightarrow> (\<exists>d. decode bs = Ok d \<and> dec_consumed d = n)"
proof
  assume "validate_record bs = Ok n"
  then show "\<exists>d. decode bs = Ok d \<and> dec_consumed d = n" using decode_of_valid by fastforce
next
  assume "\<exists>d. decode bs = Ok d \<and> dec_consumed d = n"
  then obtain d where d: "decode bs = Ok d" "dec_consumed d = n" by auto
  then obtain m where v: "validate_record bs = Ok m" by (auto simp: decode_def outcome_simps)
  with decode_of_valid [OF v] d show "validate_record bs = Ok n" by auto
qed

lemma u32_to_le_bytes_inject: "u32_to_le_bytes a = u32_to_le_bytes b \<Longrightarrow> a = b"
  by (metis from_to_le_bytes(2))

lemma validate_record_crc_fails:
  assumes "44 \<le> n" "n \<le> length bs" "n < 65536" "take 4 bs = SYNC"
    and "take 2 (drop 4 bs) = u16_to_le_bytes (of_nat n)"
    and "bit (from_le_bytes (take 2 (drop 6 bs)) :: u16) 3"
    and "u32_to_le_bytes (crc32c (take (n - 4) bs)) \<noteq> take 4 (drop (n - 4) bs)"
  shows "\<exists>e a. validate_record bs = Err (CrcMismatch e a)"
proof -
  have "from_le_bytes (take 4 (drop (n - 4) bs)) \<noteq> crc32c (take (n - 4) bs)"
    using assms(1,2,7) to_from_le_bytes(2) [of "take 4 (drop (n - 4) bs)"] by auto
  moreover have "unat (of_nat n :: u16) = n" using assms(3) by (simp add: unat_of_nat)
  ultimately show ?thesis
    using assms by (simp add: validate_record_def read_u16_def read_u32_def Let_def has_crc_iff)
qed

lemma corrupted_trailer:
  fixes bs :: byte_vec
  assumes i: "8 \<le> i" "i < n" and n: "44 \<le> n" "n \<le> length bs" and b: "b \<noteq> bs ! i"
    and ok: "u32_to_le_bytes (crc32c (take (n - 4) bs)) = take 4 (drop (n - 4) bs)"
  shows "u32_to_le_bytes (crc32c (take (n - 4) (bs[i := b]))) \<noteq> take 4 (drop (n - 4) (bs[i := b]))"
proof (cases "i < n - 4")
  case True
  then have "take 4 (drop (n - 4) (bs[i := b])) = take 4 (drop (n - 4) bs)"
    by (simp add: drop_update_cancel)
  moreover have "take (n - 4) (bs[i := b]) = (take (n - 4) bs)[i := b]" by (simp add: take_update_swap)
  moreover have "crc32c ((take (n - 4) bs)[i := b]) \<noteq> crc32c (take (n - 4) bs)"
    using crc32c_update [of i "take (n - 4) bs" b] True n b by auto
  ultimately show ?thesis using ok u32_to_le_bytes_inject by metis
next
  case False
  then have "take (n - 4) (bs[i := b]) = take (n - 4) bs" by simp
  moreover have "take 4 (drop (n - 4) (bs[i := b])) ! (i - (n - 4)) = b"
    using False i n by simp
  moreover have "take 4 (drop (n - 4) bs) ! (i - (n - 4)) = bs ! i" using False i n by simp
  ultimately show ?thesis using ok b by metis
qed

lemma length_slots_bytes:
  "length (slots_bytes ss) = sum_list (map (\<lambda>s. 4 + length (slot_payload s)
     + padding_len (length (slot_payload s))) ss)"
  by (induction ss) simp_all

lemma sum_slot_lens_eq_Err:
  "sum_slot_lens ss n = Err e \<Longrightarrow>
     \<exists>s \<in> set ss. 255 < length (slot_payload s) \<and> e = SlotTooLong (slot_key s) (length (slot_payload s))"
  by (induction ss arbitrary: n) (auto simp: slot_encoded_len_def outcome_simps split: if_splits)

lemma encode_eq_Err:
  "encode r c = Err e \<Longrightarrow>
     (\<exists>s \<in> set (rec_slots r). 255 < length (slot_payload s)
        \<and> e = SlotTooLong (slot_key s) (length (slot_payload s)))
     \<or> list_all (\<lambda>s. length (slot_payload s) \<le> 255) (rec_slots r) \<and> (\<exists>n > 65535. e = RecordTooLong n)"
  using sum_slot_lens_eq_Err [of "rec_slots r" 0 e]
  by (auto simp: encode_def outcome_simps sum_slot_lens_eq_Ok Let_def list_all_iff slot_ok_def
      split: if_splits)

section \<open>Properties of the wire format\<close>

text \<open>C9. Round trip: what \<open>encode\<close> writes, followed by any bytes, \<open>decode\<close> reads back as the
  same record, its flag bit 3 set to whether a checksum was requested, and consumes exactly the
  bytes that were written.\<close>

theorem decode_encode:
  assumes "encode r with_crc = Ok bs"
  shows "decode (bs @ rest)
           = Ok \<lparr>dec_record = r\<lparr>rec_flags := encode_flags (rec_flags r) with_crc\<rparr>,
                 dec_consumed = length bs\<rparr>"
  using assms decode_record_bytes [of r with_crc rest] by (auto simp: encode_eq_Ok normalise_flags_def)

theorem decode_encode_witness:
  "\<exists>bs. encode (record_new 1 2 3 4 5) False = Ok bs
     \<and> decode (bs @ [9]) = Ok \<lparr>dec_record = record_new 1 2 3 4 5, dec_consumed = 40\<rparr>"
proof -
  have e: "encode (record_new 1 2 3 4 5) False = Ok (record_bytes (record_new 1 2 3 4 5) False)"
    by (rule encode_ok) (simp add: encodable_def record_len_def record_new_def)
  show ?thesis
    using e decode_encode [OF e, of "[9]"]
    by (simp add: record_len_def record_new_def encode_flags_def FLAG_HAS_CRC_def)
qed

text \<open>C31. Canonicality: a byte string that \<open>decode\<close> accepts is, up to the length it consumes, the
  very bytes \<open>encode\<close> produces for the decoded record, so no two distinct byte strings of a record
  are both accepted and re-encoding a captured record is the identity.\<close>

theorem encode_decode:
  assumes "decode bs = Ok d"
  shows "encode (dec_record d) (rec_flags (dec_record d) AND FLAG_HAS_CRC \<noteq> 0)
           = Ok (take (dec_consumed d) bs) \<and> dec_consumed d \<le> length bs"
  using assms by (auto simp: decode_eq_Ok encode_eq_Ok has_crc_iff)

theorem encode_decode_witness:
  "\<exists>bs d. decode bs = Ok d
     \<and> encode (dec_record d) (rec_flags (dec_record d) AND FLAG_HAS_CRC \<noteq> 0) = Ok (take (dec_consumed d) bs)
     \<and> dec_consumed d < length bs"
proof -
  let ?r = "record_new 1 2 3 4 5"
  have ok: "encodable ?r True" by (simp add: encodable_def record_len_def record_new_def)
  note d = decode_record_bytes [OF ok, of "[9, 9]"]
  show ?thesis using d encode_decode [OF d] by (intro exI conjI) auto
qed

text \<open>\<open>decode\<close> and \<open>validate_record\<close> are total on arbitrary bytes: no index, slice or subtraction
  of theirs panics, they agree on which bytes are a record and on its length, and they report the
  same error otherwise.\<close>

theorem decode_total:
  "(\<exists>d. decode bs = Ok d \<and> validate_record bs = Ok (dec_consumed d))
     \<or> (\<exists>e. decode bs = Err e \<and> validate_record bs = Err e)"
proof (cases "validate_record bs")
  case (Ok n)
  then show ?thesis using validate_record_iff_decode by blast
next
  case (Err e)
  then show ?thesis by (simp add: decode_def)
next
  case (Panic p)
  then show ?thesis using validate_record_not_panic [of bs] by simp
qed


text \<open>C35. A record written with a checksum and damaged in one byte anywhere after the length and
  flag fields is refused with \<open>CrcMismatch\<close>: the damaged record is never accepted as data.\<close>

theorem corrupted_byte_rejected:
  assumes "encode r True = Ok bs" "8 \<le> i" "i < length bs" "b \<noteq> bs ! i"
  shows "\<exists>expected actual. decode (bs[i := b] @ rest) = Err (CrcMismatch expected actual)"
proof -
  let ?bs = "bs @ rest" and ?n = "length bs"
  have v: "validate_record ?bs = Ok ?n" and f: "bit (from_le_bytes (take 2 (drop 6 ?bs)) :: u16) 3"
    using assms(1) validate_record_record_bytes [of r True rest] header_reads(3)[of r "of_nat (record_len r True)" "encode_flags (rec_flags r) True"]
    by (auto simp: encode_eq_Ok record_bytes_header read_words simp del: append_assoc)
  note inv = validate_record_inv [OF v]
  have len_field: "take 2 (drop 4 bs) = u16_to_le_bytes (of_nat ?n)"
    using to_from_le_bytes(1) [of "take 2 (drop 4 bs)"] inv(1,4) by simp
  have upd: "bs[i := b] @ rest = ?bs[i := b]" using assms(3) by (simp add: list_update_append)
  have "\<exists>e a. validate_record (?bs[i := b]) = Err (CrcMismatch e a)"
  proof (rule validate_record_crc_fails [of ?n])
    show "u32_to_le_bytes (crc32c (take (?n - 4) (?bs[i := b]))) \<noteq> take 4 (drop (?n - 4) (?bs[i := b]))"
      using corrupted_trailer [of i ?n ?bs b] inv(8) [OF f] assms(2-4) by (simp add: nth_append)
  qed (use inv f len_field assms(2,3) in \<open>auto simp: drop_update_swap\<close>)
  then show ?thesis by (auto simp: upd decode_def)
qed

theorem corrupted_byte_rejected_witness:
  "\<exists>bs. encode (record_new 7 2 3 4 5) True = Ok bs \<and> 8 < length bs \<and> bs ! 8 = 7
     \<and> (\<exists>expected actual. decode (bs[8 := 6] @ []) = Err (CrcMismatch expected actual))"
proof -
  let ?r = "record_new 7 2 3 4 5"
  have ok: "encode ?r True = Ok (record_bytes ?r True)"
    by (rule encode_ok) (simp add: encodable_def record_len_def record_new_def)
  have len: "8 < length (record_bytes ?r True)" by (simp add: record_len_def)
  have nth: "record_bytes ?r True ! 8 = 7"
    using record_bytes_header [of ?r True "[]"]
    by (simp add: encode_header_def nth_append u64_to_le_bytes_def record_new_def)
  show ?thesis
    using ok len nth corrupted_byte_rejected [OF ok order.refl len, of 6 "[]"] by auto
qed

end
