(* ===== verification/Control.thy ===== *)
theory Control
  imports Wire
begin

text \<open>
  The shared-memory control block of \<open>crates/carriage/src/control.rs\<close>: the 88-byte image of the
  producer's fields, written by \<open>ControlBlockSnapshot::encode\<close> under a stable even seqlock and read
  back by \<open>decode_with_locks\<close>, which is given the seqlock values observed before and after the bytes
  were copied.  The lemmas show that exactly the images \<open>encode\<close> produces are accepted and that a torn
  or in-progress read is refused.
\<close>

section \<open>Layout\<close>

definition CONTROL_BLOCK_LEN :: nat where [simp]: "CONTROL_BLOCK_LEN = 88"
definition CONTROL_BLOCK_SYNC :: byte_vec where "CONTROL_BLOCK_SYNC = [0x4F, 0x4F, 0x54, 0x32]"
definition OFF_SYNC :: nat where [simp]: "OFF_SYNC = 0"
definition OFF_VERSION :: nat where [simp]: "OFF_VERSION = 4"
definition OFF_CAPS :: nat where [simp]: "OFF_CAPS = 5"
definition OFF_RESERVED :: nat where [simp]: "OFF_RESERVED = 6"
definition OFF_BUFFER_ID :: nat where [simp]: "OFF_BUFFER_ID = 8"
definition OFF_BUFFER_BYTES :: nat where [simp]: "OFF_BUFFER_BYTES = 12"
definition OFF_SEQ_LOCK :: nat where [simp]: "OFF_SEQ_LOCK = 16"
definition OFF_RESERVED2 :: nat where [simp]: "OFF_RESERVED2 = 20"
definition OFF_HEAD_ABS :: nat where [simp]: "OFF_HEAD_ABS = 24"
definition OFF_OLDEST_ABS :: nat where [simp]: "OFF_OLDEST_ABS = 32"
definition OFF_LOST_COUNT :: nat where [simp]: "OFF_LOST_COUNT = 40"
definition OFF_RUN_ID :: nat where [simp]: "OFF_RUN_ID = 48"
definition OFF_EPOCH_ID :: nat where [simp]: "OFF_EPOCH_ID = 56"
definition OFF_EPOCH_FIRST_ABS :: nat where [simp]: "OFF_EPOCH_FIRST_ABS = 64"
definition OFF_DEFINITION_HASH :: nat where [simp]: "OFF_DEFINITION_HASH = 72"
definition OFF_PREV_DEFINITION_HASH :: nat where [simp]: "OFF_PREV_DEFINITION_HASH = 80"

record ControlBlockSnapshot =
  cb_version :: u8
  cb_caps :: u8
  cb_buffer_id :: u32
  cb_buffer_bytes :: u32
  cb_head_abs :: u64
  cb_oldest_abs :: u64
  cb_lost_count :: u64
  cb_run_id :: u64
  cb_epoch_id :: u64
  cb_epoch_first_abs :: u64
  cb_definition_hash :: byte_vec
  cb_prev_definition_hash :: byte_vec

datatype ControlBlockError =
    CbTruncated nat nat           \<comment> \<open>needed, available\<close>
  | CbWrongSync
  | Updating u32                  \<comment> \<open>seq\_lock\<close>
  | StaleSnapshot u32 u32         \<comment> \<open>first, second\<close>
  | ReservedNonZero

section \<open>Encoding and decoding\<close>

definition cb_write_u32 :: "byte_vec \<Rightarrow> nat \<Rightarrow> u32 \<Rightarrow> (byte_vec, 'e) outcome" where
  "cb_write_u32 bytes offset value = vec_copy bytes offset (u32_to_le_bytes value)"

definition cb_write_u64 :: "byte_vec \<Rightarrow> nat \<Rightarrow> u64 \<Rightarrow> (byte_vec, 'e) outcome" where
  "cb_write_u64 bytes offset value = vec_copy bytes offset (u64_to_le_bytes value)"

definition cb_read_u32 :: "byte_vec \<Rightarrow> nat \<Rightarrow> (u32, 'e) outcome" where
  "cb_read_u32 bytes offset =
     and_then (vec_slice bytes offset (offset + 4)) (\<lambda>b. Ok (from_le_bytes b))"

definition cb_read_u64 :: "byte_vec \<Rightarrow> nat \<Rightarrow> (u64, 'e) outcome" where
  "cb_read_u64 bytes offset =
     and_then (vec_slice bytes offset (offset + 8)) (\<lambda>b. Ok (from_le_bytes b))"

definition snapshot_encode :: "ControlBlockSnapshot \<Rightarrow> u32 \<Rightarrow> (byte_vec, 'e) outcome" where
  "snapshot_encode s seq_lock =
     (if odd seq_lock then Panic AssertionFailed
      else and_then (vec_copy (replicate CONTROL_BLOCK_LEN 0) OFF_SYNC CONTROL_BLOCK_SYNC) (\<lambda>bytes.
           and_then (vec_copy bytes OFF_VERSION [cb_version s]) (\<lambda>bytes.
           and_then (vec_copy bytes OFF_CAPS [cb_caps s]) (\<lambda>bytes.
           and_then (cb_write_u32 bytes OFF_BUFFER_ID (cb_buffer_id s)) (\<lambda>bytes.
           and_then (cb_write_u32 bytes OFF_BUFFER_BYTES (cb_buffer_bytes s)) (\<lambda>bytes.
           and_then (cb_write_u32 bytes OFF_SEQ_LOCK seq_lock) (\<lambda>bytes.
           and_then (cb_write_u64 bytes OFF_HEAD_ABS (cb_head_abs s)) (\<lambda>bytes.
           and_then (cb_write_u64 bytes OFF_OLDEST_ABS (cb_oldest_abs s)) (\<lambda>bytes.
           and_then (cb_write_u64 bytes OFF_LOST_COUNT (cb_lost_count s)) (\<lambda>bytes.
           and_then (cb_write_u64 bytes OFF_RUN_ID (cb_run_id s)) (\<lambda>bytes.
           and_then (cb_write_u64 bytes OFF_EPOCH_ID (cb_epoch_id s)) (\<lambda>bytes.
           and_then (cb_write_u64 bytes OFF_EPOCH_FIRST_ABS (cb_epoch_first_abs s)) (\<lambda>bytes.
           and_then (vec_copy bytes OFF_DEFINITION_HASH (cb_definition_hash s)) (\<lambda>bytes.
             vec_copy bytes OFF_PREV_DEFINITION_HASH (cb_prev_definition_hash s)))))))))))))))"

definition read_snapshot_fields :: "byte_vec \<Rightarrow> (ControlBlockSnapshot, ControlBlockError) outcome" where
  "read_snapshot_fields bytes =
     and_then (vec_slice bytes OFF_DEFINITION_HASH (OFF_DEFINITION_HASH + 8)) (\<lambda>definition_hash.
     and_then (vec_slice bytes OFF_PREV_DEFINITION_HASH (OFF_PREV_DEFINITION_HASH + 8))
       (\<lambda>prev_definition_hash.
     and_then (vec_index bytes OFF_VERSION) (\<lambda>version.
     and_then (vec_index bytes OFF_CAPS) (\<lambda>caps.
     and_then (cb_read_u32 bytes OFF_BUFFER_ID) (\<lambda>buffer_id.
     and_then (cb_read_u32 bytes OFF_BUFFER_BYTES) (\<lambda>buffer_bytes.
     and_then (cb_read_u64 bytes OFF_HEAD_ABS) (\<lambda>head_abs.
     and_then (cb_read_u64 bytes OFF_OLDEST_ABS) (\<lambda>oldest_abs.
     and_then (cb_read_u64 bytes OFF_LOST_COUNT) (\<lambda>lost_count.
     and_then (cb_read_u64 bytes OFF_RUN_ID) (\<lambda>run_id.
     and_then (cb_read_u64 bytes OFF_EPOCH_ID) (\<lambda>epoch_id.
     and_then (cb_read_u64 bytes OFF_EPOCH_FIRST_ABS) (\<lambda>epoch_first_abs.
       Ok \<lparr>cb_version = version, cb_caps = caps, cb_buffer_id = buffer_id,
           cb_buffer_bytes = buffer_bytes, cb_head_abs = head_abs, cb_oldest_abs = oldest_abs,
           cb_lost_count = lost_count, cb_run_id = run_id, cb_epoch_id = epoch_id,
           cb_epoch_first_abs = epoch_first_abs, cb_definition_hash = definition_hash,
           cb_prev_definition_hash = prev_definition_hash\<rparr>))))))))))))"

definition decode_with_locks ::
  "byte_vec \<Rightarrow> u32 \<Rightarrow> u32 \<Rightarrow> (ControlBlockSnapshot, ControlBlockError) outcome" where
  "decode_with_locks bytes first_seq_lock second_seq_lock =
     (if length bytes < CONTROL_BLOCK_LEN then Err (CbTruncated CONTROL_BLOCK_LEN (length bytes))
      else and_then (vec_slice bytes OFF_SYNC (OFF_SYNC + 4)) (\<lambda>sync.
        if sync \<noteq> CONTROL_BLOCK_SYNC then Err CbWrongSync
        else if odd first_seq_lock then Err (Updating first_seq_lock)
        else if first_seq_lock \<noteq> second_seq_lock
        then Err (StaleSnapshot first_seq_lock second_seq_lock)
        else and_then (cb_read_u32 bytes OFF_SEQ_LOCK) (\<lambda>image_lock.
          if image_lock \<noteq> first_seq_lock then Err (StaleSnapshot first_seq_lock image_lock)
          else and_then (vec_slice bytes OFF_RESERVED (OFF_RESERVED + 2)) (\<lambda>reserved.
               and_then (vec_slice bytes OFF_RESERVED2 (OFF_RESERVED2 + 4)) (\<lambda>reserved2.
                 if reserved \<noteq> [0, 0] \<or> reserved2 \<noteq> [0, 0, 0, 0] then Err ReservedNonZero
                 else read_snapshot_fields bytes)))))"

definition overwrote_record_at :: "ControlBlockSnapshot \<Rightarrow> nat \<Rightarrow> bool" where
  "overwrote_record_at s record_abs \<longleftrightarrow> unat (cb_oldest_abs s) > record_abs"

section \<open>The image of a snapshot\<close>

definition snapshot_wf :: "ControlBlockSnapshot \<Rightarrow> bool" where
  "snapshot_wf s \<longleftrightarrow> length (cb_definition_hash s) = 8 \<and> length (cb_prev_definition_hash s) = 8"

definition snapshot_image :: "ControlBlockSnapshot \<Rightarrow> u32 \<Rightarrow> byte_vec" where
  "snapshot_image s seq_lock =
     CONTROL_BLOCK_SYNC @ [cb_version s] @ [cb_caps s] @ [0, 0]
     @ u32_to_le_bytes (cb_buffer_id s) @ u32_to_le_bytes (cb_buffer_bytes s)
     @ u32_to_le_bytes seq_lock @ [0, 0, 0, 0]
     @ u64_to_le_bytes (cb_head_abs s) @ u64_to_le_bytes (cb_oldest_abs s)
     @ u64_to_le_bytes (cb_lost_count s) @ u64_to_le_bytes (cb_run_id s)
     @ u64_to_le_bytes (cb_epoch_id s) @ u64_to_le_bytes (cb_epoch_first_abs s)
     @ cb_definition_hash s @ cb_prev_definition_hash s"

lemma length_CONTROL_BLOCK_SYNC [simp]: "length CONTROL_BLOCK_SYNC = 4"
  by (simp add: CONTROL_BLOCK_SYNC_def)

lemma vec_copy_zeros:
  assumes "length pre \<le> a" "a + length ys \<le> length pre + n"
  shows "vec_copy (pre @ replicate n 0) a ys
     = Ok ((pre @ replicate (a - length pre) 0 @ ys) @ replicate (length pre + n - a - length ys) 0)"
  using assms by (simp add: drop_append)

lemma snapshot_encode_ok:
  assumes "snapshot_wf s" "even seq_lock"
  shows "snapshot_encode s seq_lock = Ok (snapshot_image s seq_lock)"
proof -
  note steps = vec_copy_zeros vec_copy_zeros [of "[]", simplified]
  show ?thesis
    using assms
    by (simp add: snapshot_encode_def snapshot_wf_def cb_write_u32_def cb_write_u64_def steps
        snapshot_image_def numeral_eq_Suc
        del: append_assoc vec_copy_ok replicate.simps append.simps)
       (simp add: eval_nat_numeral)
qed

lemma length_snapshot_image [simp]: "snapshot_wf s \<Longrightarrow> length (snapshot_image s q) = 88"
  by (simp add: snapshot_image_def snapshot_wf_def)

lemma snapshot_encode_odd: "odd seq_lock \<Longrightarrow> snapshot_encode s seq_lock = Panic AssertionFailed"
  by (simp add: snapshot_encode_def)

definition snapshot_of_bytes :: "byte_vec \<Rightarrow> ControlBlockSnapshot" where
  "snapshot_of_bytes bs =
     \<lparr>cb_version = bs ! 4, cb_caps = bs ! 5,
      cb_buffer_id = from_le_bytes (take 4 (drop 8 bs)),
      cb_buffer_bytes = from_le_bytes (take 4 (drop 12 bs)),
      cb_head_abs = from_le_bytes (take 8 (drop 24 bs)),
      cb_oldest_abs = from_le_bytes (take 8 (drop 32 bs)),
      cb_lost_count = from_le_bytes (take 8 (drop 40 bs)),
      cb_run_id = from_le_bytes (take 8 (drop 48 bs)),
      cb_epoch_id = from_le_bytes (take 8 (drop 56 bs)),
      cb_epoch_first_abs = from_le_bytes (take 8 (drop 64 bs)),
      cb_definition_hash = take 8 (drop 72 bs),
      cb_prev_definition_hash = take 8 (drop 80 bs)\<rparr>"

lemma read_snapshot_fields_ok:
  "88 \<le> length bs \<Longrightarrow> read_snapshot_fields bs = Ok (snapshot_of_bytes bs)"
  by (simp add: read_snapshot_fields_def snapshot_of_bytes_def cb_read_u32_def cb_read_u64_def)

lemma snapshot_of_image:
  "snapshot_wf s \<Longrightarrow> snapshot_of_bytes (snapshot_image s q @ rest) = s"
  by (simp add: snapshot_of_bytes_def snapshot_image_def snapshot_wf_def CONTROL_BLOCK_SYNC_def)

lemma image_fields:
  assumes "snapshot_wf s"
  shows "take 4 (snapshot_image s q @ rest) = CONTROL_BLOCK_SYNC"
    "take 4 (drop 16 (snapshot_image s q @ rest)) = u32_to_le_bytes q"
    "take 2 (drop 6 (snapshot_image s q @ rest)) = [0, 0]"
    "take 4 (drop 20 (snapshot_image s q @ rest)) = [0, 0, 0, 0]"
  using assms by (simp_all add: snapshot_image_def snapshot_wf_def CONTROL_BLOCK_SYNC_def)

lemma decode_with_locks_eq:
  assumes "88 \<le> length bs"
  shows "decode_with_locks bs q q2 =
     (if take 4 bs \<noteq> CONTROL_BLOCK_SYNC then Err CbWrongSync
      else if odd q then Err (Updating q)
      else if q \<noteq> q2 then Err (StaleSnapshot q q2)
      else if from_le_bytes (take 4 (drop 16 bs)) \<noteq> q
      then Err (StaleSnapshot q (from_le_bytes (take 4 (drop 16 bs))))
      else if take 2 (drop 6 bs) \<noteq> [0, 0] \<or> take 4 (drop 20 bs) \<noteq> [0, 0, 0, 0] then Err ReservedNonZero
      else Ok (snapshot_of_bytes bs))"
  using assms by (simp add: decode_with_locks_def cb_read_u32_def read_snapshot_fields_ok)

lemma decode_with_locks_short:
  "length bs < 88 \<Longrightarrow> decode_with_locks bs q q2 = Err (CbTruncated 88 (length bs))"
  by (simp add: decode_with_locks_def)

lemma image_of_bytes:
  assumes len: "88 \<le> length bs" and sync: "take 4 bs = CONTROL_BLOCK_SYNC"
    and lock: "from_le_bytes (take 4 (drop 16 bs)) = q"
    and res: "take 2 (drop 6 bs) = [0, 0]" "take 4 (drop 20 bs) = [0, 0, 0, 0]"
  shows "snapshot_image (snapshot_of_bytes bs) q = take 88 bs"
proof -
  have c: "take 2 (drop 4 bs) = [bs ! 4] @ [bs ! 5]"
    using len by (simp add: take_drop_Cons eval_nat_numeral)
  have "take 88 bs = take 4 bs @ take 2 (drop 4 bs) @ take 2 (drop 6 bs) @ take 4 (drop 8 bs)
      @ take 4 (drop 12 bs) @ take 4 (drop 16 bs) @ take 4 (drop 20 bs) @ take 8 (drop 24 bs)
      @ take 8 (drop 32 bs) @ take 8 (drop 40 bs) @ take 8 (drop 48 bs) @ take 8 (drop 56 bs)
      @ take 8 (drop 64 bs) @ take 8 (drop 72 bs) @ take 8 (drop 80 bs)"
    using take_drop_split [of 4 88 0 bs] take_drop_split [of 2 84 4 bs] take_drop_split [of 2 82 6 bs]
      take_drop_split [of 4 80 8 bs] take_drop_split [of 4 76 12 bs] take_drop_split [of 4 72 16 bs]
      take_drop_split [of 4 68 20 bs] take_drop_split [of 8 64 24 bs] take_drop_split [of 8 56 32 bs]
      take_drop_split [of 8 48 40 bs] take_drop_split [of 8 40 48 bs] take_drop_split [of 8 32 56 bs]
      take_drop_split [of 8 24 64 bs] take_drop_split [of 8 16 72 bs]
    by simp
  then show ?thesis
    unfolding c using len sync res lock [symmetric]
    by (simp add: snapshot_image_def snapshot_of_bytes_def to_from_le_bytes)
qed

text \<open>C32. Control block round trip and canonicality: \<open>decode_with_locks\<close> returns a snapshot exactly
  when both observed seqlock values are the same even number and the image begins with the 88 bytes
  \<open>encode\<close> writes for that snapshot under that number (the two hash prefixes being 8 bytes).\<close>

theorem decode_with_locks_iff:
  "decode_with_locks bs first second = Ok s \<longleftrightarrow>
     first = second \<and> snapshot_wf s \<and> 88 \<le> length bs
     \<and> snapshot_encode s first = (Ok (take 88 bs) :: (byte_vec, ControlBlockError) outcome)"
  (is "?L \<longleftrightarrow> ?R")
proof
  assume L: ?L
  then have len: "88 \<le> length bs" using decode_with_locks_short [of bs first second] by fastforce
  with L have *: "take 4 bs = CONTROL_BLOCK_SYNC" "even first" "first = second"
      "from_le_bytes (take 4 (drop 16 bs)) = first" "take 2 (drop 6 bs) = [0, 0]"
      "take 4 (drop 20 bs) = [0, 0, 0, 0]" "s = snapshot_of_bytes bs"
    by (auto simp: decode_with_locks_eq split: if_splits)
  moreover have "snapshot_wf s" using len *(7) by (simp add: snapshot_wf_def snapshot_of_bytes_def)
  ultimately show ?R using image_of_bytes [OF len] snapshot_encode_ok [of s first] len by simp
next
  assume R: ?R
  then have ev: "even first" by (metis outcome.distinct(3) snapshot_encode_odd)
  with R have "snapshot_encode s first
      = (Ok (snapshot_image s first) :: (byte_vec, ControlBlockError) outcome)"
    by (simp add: snapshot_encode_ok)
  with R have im: "take 88 bs = snapshot_image s first" by (metis outcome.inject(1))
  then have bs: "bs = snapshot_image s first @ drop 88 bs" by (metis append_take_drop_id)
  have "decode_with_locks (snapshot_image s first @ drop 88 bs) first second = Ok s"
    using R ev image_fields [of s first "drop 88 bs"] snapshot_of_image [of s first "drop 88 bs"]
    by (auto simp: decode_with_locks_eq)
  with bs show ?L by simp
qed

text \<open>\<open>decode_with_locks\<close> refuses every torn read: if the producer
  was updating (odd seqlock), moved the seqlock between the two observations, or left a different
  seqlock in the copied image, the result is an error whatever the bytes are.\<close>

theorem decode_with_locks_torn:
  assumes "odd first \<or> first \<noteq> second
     \<or> 20 \<le> length bs \<and> from_le_bytes (take 4 (drop 16 bs)) \<noteq> first"
  shows "\<exists>e. decode_with_locks bs first second = Err e"
  using assms decode_with_locks_short [of bs first second]
  by (cases "88 \<le> length bs") (auto simp: decode_with_locks_eq)

theorem decode_with_locks_torn_witness:
  "(2 :: u32) \<noteq> 4 \<and> (\<exists>e. decode_with_locks (CONTROL_BLOCK_SYNC @ replicate 84 0) 2 4 = Err e)"
  using decode_with_locks_torn [of 2 4 "CONTROL_BLOCK_SYNC @ replicate 84 0"] by simp

lemma decode_with_locks_not_panic: "\<not> is_panic (decode_with_locks bs first second)"
  using decode_with_locks_short [of bs first second]
  by (cases "88 \<le> length bs") (auto simp: decode_with_locks_eq)

end
