(* ===== verification/Log_Spec.thy ===== *)
theory Log_Spec
  imports Prelude
begin

text \<open>
  The contract a drop-oldest record store offers, as a locale: \<open>inv s es\<close> says that the store holds
  exactly the entries \<open>es\<close>; a successful write drops some of the oldest entries, appends the new one,
  adds the keys of what it dropped to the loss log and counts them.  The ring of \<open>Ring\<close> is an
  instance; the client lemma proved here once gives the history of any sequence of writes.
\<close>

fun write_all :: "('s \<Rightarrow> 'r \<Rightarrow> ('s \<times> 'o, 'x) outcome) \<Rightarrow> 's \<Rightarrow> 'r list \<Rightarrow> ('s, 'x) outcome" where
  "write_all write s [] = Ok s"
| "write_all write s (r # rs) = and_then (write s r) (\<lambda>(s, _). write_all write s rs)"

locale bounded_log =
  fixes inv :: "'s \<Rightarrow> 'e list \<Rightarrow> bool"
    and lost :: "'s \<Rightarrow> 'k list"
    and lost_total :: "'s \<Rightarrow> nat"
    and wr :: "'s \<Rightarrow> 'r \<Rightarrow> ('s \<times> 'o, 'x) outcome"
    and admissible :: "'r \<Rightarrow> bool"
    and content :: "'e \<Rightarrow> 'c"
    and norm :: "'r \<Rightarrow> 'c"
    and key :: "'c \<Rightarrow> 'k"
  assumes write_law:
    "inv s es \<Longrightarrow> admissible r \<Longrightarrow> wr s r = Ok (s', out) \<Longrightarrow>
       \<exists>dropped kept e. es = dropped @ kept \<and> inv s' (kept @ [e]) \<and> content e = norm r
         \<and> lost s' = lost s @ map (key \<circ> content) dropped
         \<and> lost_total s' = lost_total s + length dropped"
begin

lemma write_all_accounts:
  assumes "inv s es" "list_all admissible rs" "write_all wr s rs = Ok s'"
  shows "\<exists>n es'. inv s' es' \<and> n \<le> length es + length rs
     \<and> map content es' = drop n (map content es @ map norm rs)
     \<and> lost s' = lost s @ map key (take n (map content es @ map norm rs))
     \<and> lost_total s' = lost_total s + n"
  using assms
proof (induction rs arbitrary: s es)
  case Nil
  then show ?case by (intro exI [of _ 0] exI [of _ es]) simp
next
  case (Cons r rs)
  from Cons.prems(3) obtain s1 out where w: "wr s r = Ok (s1, out)" "write_all wr s1 rs = Ok s'"
    by (auto simp: outcome_simps)
  from write_law [OF Cons.prems(1) _ w(1)] Cons.prems(2) obtain dropped kept e where
    es: "es = dropped @ kept" "inv s1 (kept @ [e])" "content e = norm r"
    "lost s1 = lost s @ map (key \<circ> content) dropped" "lost_total s1 = lost_total s + length dropped"
    by auto
  from Cons.IH [OF es(2) _ w(2)] Cons.prems(2) obtain n es' where
    n: "inv s' es'" "n \<le> length (kept @ [e]) + length rs"
    "map content es' = drop n (map content (kept @ [e]) @ map norm rs)"
    "lost s' = lost s1 @ map key (take n (map content (kept @ [e]) @ map norm rs))"
    "lost_total s' = lost_total s1 + n" by auto
  have all: "map content es @ map norm (r # rs) = map content dropped @ map content (kept @ [e]) @ map norm rs"
    by (simp add: es)
  show ?case
    using n es(4,5) unfolding all
    by (intro exI [of _ "length dropped + n"] exI [of _ es']) (auto simp: es(1))
qed

end

end
