(* ===== verification/Ring.thy ===== *)
theory Ring
  imports Control Log_Spec
begin

text \<open>
  The byte-pool ring of \<open>crates/carriage/src/ring.rs\<close>.  \<open>RingBuffer\<close> is the source's struct; an
  operation that takes \<open>&mut self\<close> returns the new ring in its \<open>Ok\<close> value (every error of
  \<open>write_record\<close> is returned before the first assignment, so an \<open>Err\<close> leaves the ring as it was).
  Absolute offsets and counters are naturals under checked 64-bit arithmetic.  The closure argument of
  \<open>read_raw_window\<close>, which re-reads the oldest retained offset while a producer may be writing, is a
  function from the number of calls made so far to the value observed by the next call.
\<close>

section \<open>Data\<close>

definition DEFAULT_BUFFER_ID :: u32 where "DEFAULT_BUFFER_ID = 1"

record ReadRecord =
  rr_start_abs :: nat
  rr_end_abs :: nat
  rr_record :: Record

record ReadBatch =
  rb_records :: "ReadRecord list"
  rb_next_abs :: nat
  rb_lapped :: bool

record RecordIndex =
  idx_start_abs :: nat
  idx_end_abs :: nat
  idx_run_id :: u64
  idx_source_id :: u32
  idx_seq :: u64

record LossRange =
  lr_run_id :: u64
  lr_source_id :: u32
  lr_first_seq :: nat
  lr_last_seq :: nat

definition loss_range_count :: "LossRange \<Rightarrow> (nat, 'e) outcome" where
  "loss_range_count r = and_then (u64_sub (lr_last_seq r) (lr_first_seq r)) (\<lambda>d. u64_add d 1)"

record RingBuffer =
  ring_bytes :: byte_vec
  ring_head_abs :: nat
  ring_oldest_abs :: nat
  ring_lost_count :: nat
  ring_wraps :: nat
  ring_index :: "RecordIndex list"
  ring_producer_loss_ranges :: "LossRange list"

datatype RingError =
    OverwrittenMidRead nat nat              \<comment> \<open>read\_abs, oldest\_abs\<close>
  | RecordCrossesBoundary nat               \<comment> \<open>abs\<close>
  | RecordExceedsCapacity nat nat           \<comment> \<open>record\_len, capacity\<close>
  | EncodedRecordLengthMismatch nat nat     \<comment> \<open>declared\_len, actual\_len\<close>
  | EncodedRecordMissingCrc u16             \<comment> \<open>flags\<close>
  | ControlBlockCapacityMismatch u32 nat    \<comment> \<open>snapshot\_bytes, capacity\<close>
  | CapturedCapacityZero
  | InvalidCapturedWindow nat nat nat       \<comment> \<open>head\_abs, oldest\_abs, capacity\<close>
  | ControlBlock ControlBlockError
  | UnexpectedWrapMarker nat                \<comment> \<open>abs\<close>
  | RingWire WireError

section \<open>Construction and queries\<close>

definition ring_new :: "nat \<Rightarrow> (RingBuffer, 'e) outcome" where
  "ring_new cap =
     (if 0 < cap then
        Ok \<lparr>ring_bytes = replicate cap 0, ring_head_abs = 0, ring_oldest_abs = 0, ring_lost_count = 0,
            ring_wraps = 0, ring_index = [], ring_producer_loss_ranges = []\<rparr>
      else Panic AssertionFailed)"

definition from_captured :: "byte_vec \<Rightarrow> nat \<Rightarrow> nat \<Rightarrow> nat \<Rightarrow> (RingBuffer, RingError) outcome" where
  "from_captured bytes head_abs oldest_abs lost_count =
     (let cap = length bytes
      in if cap = 0 then Err CapturedCapacityZero
         else if oldest_abs > head_abs then Err (InvalidCapturedWindow head_abs oldest_abs cap)
         else if head_abs - oldest_abs > cap then Err (InvalidCapturedWindow head_abs oldest_abs cap)
         else Ok \<lparr>ring_bytes = bytes, ring_head_abs = head_abs, ring_oldest_abs = oldest_abs,
                  ring_lost_count = lost_count, ring_wraps = 0, ring_index = [],
                  ring_producer_loss_ranges = []\<rparr>)"

definition capacity :: "RingBuffer \<Rightarrow> nat" where
  "capacity ring = length (ring_bytes ring)"

definition take_producer_loss_ranges :: "RingBuffer \<Rightarrow> RingBuffer \<times> LossRange list" where
  "take_producer_loss_ranges ring =
     (ring\<lparr>ring_producer_loss_ranges := []\<rparr>, ring_producer_loss_ranges ring)"

definition physical_offset :: "RingBuffer \<Rightarrow> nat \<Rightarrow> nat" where
  "physical_offset ring pos = pos mod capacity ring"

section \<open>Writing\<close>

definition record_producer_loss ::
  "LossRange list \<Rightarrow> u64 \<Rightarrow> u32 \<Rightarrow> u64 \<Rightarrow> (LossRange list, 'e) outcome" where
  "record_producer_loss ranges run_id source_id seq =
     (let push = ranges @ [\<lparr>lr_run_id = run_id, lr_source_id = source_id,
                            lr_first_seq = unat seq, lr_last_seq = unat seq\<rparr>]
      in if ranges \<noteq> [] \<and> lr_run_id (last ranges) = run_id \<and> lr_source_id (last ranges) = source_id
         then and_then (u64_add (lr_last_seq (last ranges)) 1) (\<lambda>succ.
                if succ = unat seq
                then Ok (butlast ranges @ [(last ranges)\<lparr>lr_last_seq := unat seq\<rparr>])
                else Ok push)
         else Ok push)"

fun evict_loop ::
  "nat \<Rightarrow> RecordIndex list \<Rightarrow> LossRange list \<Rightarrow> nat
     \<Rightarrow> (RecordIndex list \<times> LossRange list \<times> nat, 'e) outcome" where
  "evict_loop retention_floor [] ranges evicted_count = Ok ([], ranges, evicted_count)"
| "evict_loop retention_floor (idx # index) ranges evicted_count =
     (if idx_start_abs idx < retention_floor then
        and_then (record_producer_loss ranges (idx_run_id idx) (idx_source_id idx) (idx_seq idx))
          (\<lambda>ranges. and_then (u64_add evicted_count 1)
          (\<lambda>evicted_count. evict_loop retention_floor index ranges evicted_count))
      else Ok (idx # index, ranges, evicted_count))"

definition evict_before_clobber :: "RingBuffer \<Rightarrow> nat \<Rightarrow> nat \<Rightarrow> (RingBuffer, 'e) outcome" where
  "evict_before_clobber ring final_head next_record_start =
     (let retention_floor = final_head - capacity ring
      in and_then (evict_loop retention_floor (ring_index ring) (ring_producer_loss_ranges ring) 0)
           (\<lambda>(index, ranges, evicted_count).
         and_then (u64_add (ring_lost_count ring) evicted_count) (\<lambda>lost_count.
           Ok (ring\<lparr>ring_index := index, ring_producer_loss_ranges := ranges,
                    ring_lost_count := lost_count,
                    ring_oldest_abs := (case index of [] \<Rightarrow> next_record_start
                                        | idx # _ \<Rightarrow> idx_start_abs idx)\<rparr>))))"

definition write_record ::
  "RingBuffer \<Rightarrow> Record \<Rightarrow> (RingBuffer \<times> nat \<times> nat, RingError) outcome" where
  "write_record ring r =
     and_then (map_err RingWire (encode r True)) (\<lambda>encoded.
       if length encoded > capacity ring
       then Err (RecordExceedsCapacity (length encoded) (capacity ring))
       else let start_phys = physical_offset ring (ring_head_abs ring)
       in and_then
         (if start_phys = 0 \<or> start_phys + length encoded \<le> capacity ring
          then Ok (ring_head_abs ring)
          else u64_add (ring_head_abs ring) (capacity ring - start_phys)) (\<lambda>start_abs.
       and_then (u64_add start_abs (length encoded)) (\<lambda>end_abs.
       and_then (evict_before_clobber ring end_abs start_abs) (\<lambda>ring.
       and_then
         (if start_abs \<noteq> ring_head_abs ring
          then and_then (vec_copy (ring_bytes ring) start_phys [0]) (\<lambda>bytes.
               and_then (u64_add (ring_wraps ring) 1) (\<lambda>wraps.
                 Ok (ring\<lparr>ring_bytes := bytes, ring_wraps := wraps\<rparr>)))
          else Ok ring) (\<lambda>ring.
         let start = physical_offset ring start_abs;
             stop = start + length encoded
         in if \<not> stop \<le> capacity ring then Panic AssertionFailed
            else and_then (vec_copy (ring_bytes ring) start encoded) (\<lambda>bytes.
              Ok (ring\<lparr>ring_bytes := bytes, ring_head_abs := end_abs,
                       ring_index := ring_index ring @
                         [\<lparr>idx_start_abs = start_abs, idx_end_abs = end_abs, idx_run_id = rec_run_id r,
                           idx_source_id = rec_source_id r, idx_seq = rec_seq r\<rparr>]\<rparr>,
                  start_abs, end_abs)))))))"

section \<open>Reading\<close>

fun read_indexed :: "RingBuffer \<Rightarrow> RecordIndex list \<Rightarrow> ReadRecord list \<Rightarrow> (ReadRecord list, RingError) outcome" where
  "read_indexed ring [] records = Ok records"
| "read_indexed ring (idx # index) records =
     (let start = physical_offset ring (idx_start_abs idx)
      in and_then (u64_sub (idx_end_abs idx) (idx_start_abs idx)) (\<lambda>len.
         and_then (vec_slice (ring_bytes ring) start (start + len)) (\<lambda>slice.
         and_then (map_err RingWire (decode slice)) (\<lambda>decoded.
           if rec_run_id (dec_record decoded) \<noteq> idx_run_id idx
              \<or> rec_source_id (dec_record decoded) \<noteq> idx_source_id idx
              \<or> rec_seq (dec_record decoded) \<noteq> idx_seq idx
           then Panic AssertionFailed
           else read_indexed ring index
             (records @ [\<lparr>rr_start_abs = idx_start_abs idx, rr_end_abs = idx_end_abs idx,
                          rr_record = dec_record decoded\<rparr>])))))"

definition read_from :: "RingBuffer \<Rightarrow> nat \<Rightarrow> (ReadBatch, RingError) outcome" where
  "read_from ring cursor_abs =
     (let lapped = cursor_abs < ring_oldest_abs ring;
          effective_cursor = (if lapped then ring_oldest_abs ring else cursor_abs)
      in and_then
           (read_indexed ring [idx \<leftarrow> ring_index ring. idx_start_abs idx \<ge> effective_cursor] [])
           (\<lambda>records. Ok \<lparr>rb_records = records, rb_next_abs = ring_head_abs ring, rb_lapped = lapped\<rparr>))"

definition read_le_u16 :: "byte_vec \<Rightarrow> nat \<Rightarrow> (u16, 'e) outcome" where
  "read_le_u16 bytes offset =
     and_then (vec_index bytes offset) (\<lambda>b0. and_then (vec_index bytes (offset + 1)) (\<lambda>b1.
       Ok (from_le_bytes [b0, b1])))"

function (sequential) read_raw_loop ::
  "byte_vec \<Rightarrow> nat \<Rightarrow> nat \<Rightarrow> (nat \<Rightarrow> nat) \<Rightarrow> nat \<Rightarrow> nat \<Rightarrow> ReadRecord list
     \<Rightarrow> (ReadRecord list \<times> nat, RingError) outcome" where
  "read_raw_loop bytes head_abs first_oldest oldest_after_read calls pos records =
     (if pos < head_abs then
        if first_oldest > pos then Err (OverwrittenMidRead pos first_oldest)
        else let cap = length bytes; phys = pos mod cap in
          and_then (vec_index bytes phys) (\<lambda>first.
          if first = 0 then
            if phys = 0 then Err (UnexpectedWrapMarker pos)
            else and_then (u64_add pos (cap - phys)) (\<lambda>pos.
                   read_raw_loop bytes head_abs first_oldest oldest_after_read calls pos records)
          else if phys + HEADER_LEN > cap then Err (RecordCrossesBoundary pos)
          else and_then (vec_slice bytes phys (phys + 4)) (\<lambda>sync.
            if sync \<noteq> SYNC then Err (RingWire WrongSync)
            else and_then (read_le_u16 bytes (phys + 4)) (\<lambda>len_field.
              let total_len = unat len_field in
              if total_len < HEADER_LEN then Err (RingWire (InvalidLength total_len (cap - phys)))
              else if phys + total_len > cap then Err (RecordCrossesBoundary pos)
              else and_then (vec_slice bytes phys (phys + total_len)) (\<lambda>slice.
                and_then (map_err RingWire (decode slice)) (\<lambda>decoded.
                  let oldest_after = oldest_after_read calls in
                  if oldest_after > pos then Err (OverwrittenMidRead pos oldest_after)
                  else and_then (u64_add pos (dec_consumed decoded)) (\<lambda>end_abs.
                       and_then (u64_add pos total_len) (\<lambda>next_abs.
                         read_raw_loop bytes head_abs first_oldest oldest_after_read (Suc calls) next_abs
                           (records @ [\<lparr>rr_start_abs = pos, rr_end_abs = end_abs,
                                        rr_record = dec_record decoded\<rparr>]))))))))
      else Ok (records, calls))"
  by pat_completeness auto
termination
  by (relation "measure (\<lambda>(bytes, head_abs, first_oldest, oldest_after_read, calls, pos, records).
        head_abs - pos)") (auto simp: outcome_simps)

definition read_raw_window ::
  "RingBuffer \<Rightarrow> nat \<Rightarrow> nat \<Rightarrow> nat \<Rightarrow> (nat \<Rightarrow> nat) \<Rightarrow> (ReadBatch, RingError) outcome" where
  "read_raw_window ring cursor_abs head_abs first_oldest oldest_after_read =
     (let lapped = cursor_abs < first_oldest;
          pos = (if lapped then first_oldest else cursor_abs)
      in and_then
           (read_raw_loop (ring_bytes ring) head_abs first_oldest oldest_after_read 0 pos [])
           (\<lambda>(records, calls).
             let final_oldest = oldest_after_read calls
             in if final_oldest \<noteq> first_oldest \<and> final_oldest > cursor_abs
                then Err (OverwrittenMidRead cursor_abs final_oldest)
                else Ok \<lparr>rb_records = records, rb_next_abs = head_abs, rb_lapped = lapped\<rparr>))"

definition read_raw_from :: "RingBuffer \<Rightarrow> nat \<Rightarrow> (ReadBatch, RingError) outcome" where
  "read_raw_from ring cursor_abs =
     read_raw_window ring cursor_abs (ring_head_abs ring) (ring_oldest_abs ring)
       (\<lambda>_. ring_oldest_abs ring)"

definition read_raw_from_snapshot ::
  "RingBuffer \<Rightarrow> nat \<Rightarrow> ControlBlockSnapshot \<Rightarrow> (ReadBatch, RingError) outcome" where
  "read_raw_from_snapshot ring cursor_abs snapshot =
     (if unat (cb_buffer_bytes snapshot) \<noteq> capacity ring
      then Err (ControlBlockCapacityMismatch (cb_buffer_bytes snapshot) (capacity ring))
      else read_raw_window ring cursor_abs (unat (cb_head_abs snapshot)) (unat (cb_oldest_abs snapshot))
             (\<lambda>_. unat (cb_oldest_abs snapshot)))"

declare read_raw_loop.simps [simp del]

section \<open>What a ring holds\<close>

text \<open>
  \<open>ring_holds ring rs\<close> relates a ring to the list of records it retains: the index lists them, they lie
  in the byte pool in absolute order from the oldest offset to the head, adjacent or separated by a
  wrap gap whose first byte is the marker, and no byte older than one capacity is claimed.
\<close>

definition gap_ok :: "byte_vec \<Rightarrow> nat \<Rightarrow> nat \<Rightarrow> bool" where
  "gap_ok bs a b \<longleftrightarrow> a = b \<or>
     a mod length bs \<noteq> 0 \<and> b = a + (length bs - a mod length bs) \<and> bs ! (a mod length bs) = 0"

definition stored :: "byte_vec \<Rightarrow> ReadRecord \<Rightarrow> bool" where
  "stored bs x \<longleftrightarrow>
     encodable (rr_record x) True \<and> bit (rec_flags (rr_record x)) 3
     \<and> rr_end_abs x = rr_start_abs x + record_len (rr_record x) True
     \<and> rr_start_abs x mod length bs + record_len (rr_record x) True \<le> length bs
     \<and> take (record_len (rr_record x) True) (drop (rr_start_abs x mod length bs) bs)
         = record_bytes (rr_record x) True"

fun linked :: "byte_vec \<Rightarrow> nat \<Rightarrow> ReadRecord list \<Rightarrow> nat \<Rightarrow> bool" where
  "linked bs a [] h \<longleftrightarrow> a = h"
| "linked bs a (x # xs) h \<longleftrightarrow>
     gap_ok bs a (rr_start_abs x) \<and> stored bs x \<and> linked bs (rr_end_abs x) xs h"

definition index_of :: "ReadRecord \<Rightarrow> RecordIndex" where
  "index_of x = \<lparr>idx_start_abs = rr_start_abs x, idx_end_abs = rr_end_abs x,
     idx_run_id = rec_run_id (rr_record x), idx_source_id = rec_source_id (rr_record x),
     idx_seq = rec_seq (rr_record x)\<rparr>"

definition ring_holds :: "RingBuffer \<Rightarrow> ReadRecord list \<Rightarrow> bool" where
  "ring_holds ring rs \<longleftrightarrow>
     0 < capacity ring
     \<and> ring_index ring = map index_of rs
     \<and> linked (ring_bytes ring) (ring_oldest_abs ring) rs (ring_head_abs ring)
     \<and> (rs \<noteq> [] \<longrightarrow> rr_start_abs (hd rs) = ring_oldest_abs ring)
     \<and> ring_head_abs ring \<le> ring_oldest_abs ring + capacity ring"

lemma record_len_pos: "40 \<le> record_len r c"
  by (simp add: record_len_def)

lemma stored_span: "stored bs x \<Longrightarrow> rr_start_abs x < rr_end_abs x"
  using record_len_pos [of "rr_record x" True] by (simp add: stored_def)

lemma gap_ok_le: "gap_ok bs a b \<Longrightarrow> a \<le> b"
  by (auto simp: gap_ok_def)

lemma gap_ok_refl [simp]: "gap_ok bs a a"
  by (simp add: gap_ok_def)

lemma linked_le: "linked bs a rs h \<Longrightarrow> a \<le> h"
proof (induction rs arbitrary: a)
  case (Cons x rs)
  then have "a \<le> rr_start_abs x" "rr_start_abs x < rr_end_abs x" "rr_end_abs x \<le> h"
    using gap_ok_le stored_span by auto
  then show ?case by linarith
qed simp

lemma linked_bounds:
  "linked bs a rs h \<Longrightarrow> x \<in> set rs \<Longrightarrow> a \<le> rr_start_abs x \<and> rr_start_abs x < rr_end_abs x \<and> rr_end_abs x \<le> h"
proof (induction rs arbitrary: a)
  case (Cons y rs)
  have y: "a \<le> rr_start_abs y" "rr_start_abs y < rr_end_abs y" "rr_end_abs y \<le> h"
    using Cons.prems(1) gap_ok_le stored_span linked_le by auto
  show ?case
  proof (cases "x = y")
    case False
    then have "rr_end_abs y \<le> rr_start_abs x \<and> rr_start_abs x < rr_end_abs x \<and> rr_end_abs x \<le> h"
      using Cons.prems by (intro Cons.IH) auto
    with y show ?thesis by linarith
  qed (use y in simp)
qed simp

lemma linked_stored: "linked bs a rs h \<Longrightarrow> x \<in> set rs \<Longrightarrow> stored bs x"
  by (induction rs arbitrary: a) auto

lemma linked_snoc:
  "linked bs a rs h \<Longrightarrow> gap_ok bs h (rr_start_abs x) \<Longrightarrow> stored bs x \<Longrightarrow> linked bs a (rs @ [x]) (rr_end_abs x)"
  by (induction rs arbitrary: a) auto

lemma linked_dropWhile:
  "linked bs a rs h \<Longrightarrow> dropWhile P rs \<noteq> [] \<Longrightarrow>
     linked bs (rr_start_abs (hd (dropWhile P rs))) (dropWhile P rs) h"
  by (induction rs arbitrary: a) auto

lemma linked_dropWhile_floor:
  assumes "linked bs a rs h" "x \<in> set (dropWhile (\<lambda>x. rr_start_abs x < f) rs)"
  shows "f \<le> rr_start_abs x"
proof -
  let ?ks = "dropWhile (\<lambda>x. rr_start_abs x < f) rs"
  have ne: "?ks \<noteq> []" using assms(2) by (cases ?ks) simp_all
  then have "f \<le> rr_start_abs (hd ?ks)" using hd_dropWhile [OF ne] by simp
  also have "\<dots> \<le> rr_start_abs x"
    using linked_bounds [OF linked_dropWhile [OF assms(1) ne] assms(2)] by simp
  finally show ?thesis .
qed

subsection \<open>Bytes outside the written region\<close>

lemma mod_shift: "a mod c + k < c \<Longrightarrow> (a + k) mod c = a mod c + (k :: nat)"
  by (metis mod_add_left_eq mod_less)

lemma mod_distinct:
  fixes p q c :: nat
  assumes "p < q" "q < p + c"
  shows "p mod c \<noteq> q mod c"
proof
  assume "p mod c = q mod c"
  then have "c dvd q - p" using assms(1) by (metis mod_eq_dvd_iff_nat less_imp_le)
  moreover have "q - p < c" "0 < q - p" using assms by linarith+
  ultimately show False using nat_dvd_not_less by blast
qed

lemma stored_cong:
  assumes "stored bs x" "length bs' = length bs"
    and "\<And>p. rr_start_abs x \<le> p \<Longrightarrow> p < rr_end_abs x \<Longrightarrow> bs' ! (p mod length bs) = bs ! (p mod length bs)"
  shows "stored bs' x"
proof -
  let ?n = "record_len (rr_record x) True" and ?s = "rr_start_abs x mod length bs"
  have fit: "?s + ?n \<le> length bs" and e: "rr_end_abs x = rr_start_abs x + ?n"
    using assms(1) by (simp_all add: stored_def)
  have "take ?n (drop ?s bs') = take ?n (drop ?s bs)"
  proof (rule nth_equalityI)
    fix k assume "k < length (take ?n (drop ?s bs'))"
    then have k: "k < ?n" "?s + k < length bs" using fit assms(2) by auto
    then have "(rr_start_abs x + k) mod length bs = ?s + k" by (intro mod_shift) simp
    with assms(3) [of "rr_start_abs x + k"] k e assms(2) fit
    show "take ?n (drop ?s bs') ! k = take ?n (drop ?s bs) ! k" by simp
  qed (use assms(2) in simp)
  with assms show ?thesis by (simp add: stored_def)
qed

lemma linked_cong:
  assumes "linked bs a rs h" "length bs' = length bs"
    and "\<And>p. a \<le> p \<Longrightarrow> p < h \<Longrightarrow> bs' ! (p mod length bs) = bs ! (p mod length bs)"
  shows "linked bs' a rs h"
  using assms
proof (induction rs arbitrary: a)
  case (Cons x rs)
  have le: "a \<le> rr_start_abs x" "rr_start_abs x < rr_end_abs x" "rr_end_abs x \<le> h"
    using linked_bounds [OF Cons.prems(1), of x] by auto
  have st: "stored bs' x"
  proof (rule stored_cong)
    show "stored bs x" using Cons.prems(1) by simp
    show "bs' ! (p mod length bs) = bs ! (p mod length bs)"
      if "rr_start_abs x \<le> p" "p < rr_end_abs x" for p
      by (rule Cons.prems(3)) (use that le in linarith)+
  qed (rule Cons.prems(2))
  have "bs' ! (a mod length bs) = bs ! (a mod length bs)"
    using Cons.prems(3) [of a] le by simp
  then have "gap_ok bs' a (rr_start_abs x)"
    using Cons.prems(1,2) unfolding gap_ok_def linked.simps by metis
  moreover have "linked bs' (rr_end_abs x) rs h"
  proof (rule Cons.IH)
    show "linked bs (rr_end_abs x) rs h" using Cons.prems(1) by simp
    show "bs' ! (p mod length bs) = bs ! (p mod length bs)" if "rr_end_abs x \<le> p" "p < h" for p
      by (rule Cons.prems(3)) (use that le in linarith)+
  qed (rule Cons.prems(2))
  ultimately show ?case using st by simp
qed simp

definition overwrite :: "byte_vec \<Rightarrow> nat \<Rightarrow> byte_vec \<Rightarrow> byte_vec" where
  "overwrite bs s ys = take s bs @ ys @ drop (s + length ys) bs"

lemma length_overwrite [simp]: "s + length ys \<le> length bs \<Longrightarrow> length (overwrite bs s ys) = length bs"
  by (simp add: overwrite_def)

lemma nth_overwrite:
  "s + length ys \<le> length bs \<Longrightarrow> j < length bs \<Longrightarrow>
     overwrite bs s ys ! j = (if s \<le> j \<and> j < s + length ys then ys ! (j - s) else bs ! j)"
  by (auto simp: overwrite_def nth_append min_def)

lemma overwrite_same: "s + length ys \<le> length bs \<Longrightarrow> take (length ys) (drop s (overwrite bs s ys)) = ys"
  by (simp add: overwrite_def)

lemma overwrite_outside:
  assumes fit: "a mod length bs + length ys \<le> length bs" and p: "p < a" "a + length ys \<le> p + length bs"
    and ne: "0 < length bs"
  shows "overwrite bs (a mod length bs) ys ! (p mod length bs) = bs ! (p mod length bs)"
proof -
  let ?c = "length bs"
  have "\<not> (a mod ?c \<le> p mod ?c \<and> p mod ?c < a mod ?c + length ys)"
  proof
    assume j: "a mod ?c \<le> p mod ?c \<and> p mod ?c < a mod ?c + length ys"
    define k where "k = p mod ?c - a mod ?c"
    have "(a + k) mod ?c = p mod ?c" using j fit by (subst mod_shift) (auto simp: k_def)
    moreover have "p < a + k" "a + k < p + ?c" using p j by (auto simp: k_def)
    ultimately show False using mod_distinct [of p "a + k" ?c] by simp
  qed
  moreover have "p mod ?c < ?c" using ne by (rule mod_less_divisor)
  ultimately show ?thesis using nth_overwrite [OF fit, of "p mod ?c"] by (simp only: if_False)
qed

section \<open>Where a record goes\<close>

definition place :: "nat \<Rightarrow> nat \<Rightarrow> nat \<Rightarrow> nat" where
  "place cap head n =
     (if head mod cap = 0 \<or> head mod cap + n \<le> cap then head else head + (cap - head mod cap))"

definition written_bytes :: "byte_vec \<Rightarrow> nat \<Rightarrow> nat \<Rightarrow> byte_vec \<Rightarrow> byte_vec" where
  "written_bytes bs head s enc =
     overwrite (if s \<noteq> head then overwrite bs (head mod length bs) [0] else bs) (s mod length bs) enc"

definition survivors :: "nat \<Rightarrow> ReadRecord list \<Rightarrow> ReadRecord list" where
  "survivors retention_floor rs = dropWhile (\<lambda>x. rr_start_abs x < retention_floor) rs"

definition evicted :: "nat \<Rightarrow> ReadRecord list \<Rightarrow> ReadRecord list" where
  "evicted retention_floor rs = takeWhile (\<lambda>x. rr_start_abs x < retention_floor) rs"

lemma evicted_survivors: "evicted f rs @ survivors f rs = rs"
  by (simp add: evicted_def survivors_def)

lemma place_bounds: "0 < cap \<Longrightarrow> head \<le> place cap head n \<and> place cap head n \<le> head + cap"
  by (cases "head mod cap = 0 \<or> head mod cap + n \<le> cap"; simp only: place_def if_True if_False; linarith)

lemma place_wrap:
  assumes "0 < cap" "place cap head n \<noteq> head"
  shows "place cap head n mod cap = 0"
proof -
  have "place cap head n = head + (cap - head mod cap)"
    using assms(2) by (simp add: place_def split: if_splits)
  also have "\<dots> = cap * (head div cap) + cap"
    using mult_div_mod_eq [of cap head] mod_less_divisor [OF assms(1), of head] by linarith
  finally show ?thesis by simp
qed

lemma place_fits:
  assumes "0 < cap" "n \<le> cap"
  shows "place cap head n mod cap + n \<le> cap"
proof (cases "place cap head n = head")
  case True
  then have "head mod cap = 0 \<or> head mod cap + n \<le> cap"
    using mod_less_divisor [OF assms(1), of head] by (simp add: place_def split: if_splits)
  with True assms show ?thesis by auto
qed (use place_wrap assms in simp)

lemma gap_ok_place:
  assumes "bs ! (head mod length bs) = 0 \<or> place (length bs) head n = head"
  shows "gap_ok bs head (place (length bs) head n)"
proof (cases "place (length bs) head n = head")
  case False
  then have "place (length bs) head n = head + (length bs - head mod length bs)" "head mod length bs \<noteq> 0"
    by (simp_all add: place_def split: if_splits)
  with False assms show ?thesis unfolding gap_ok_def by metis
qed simp

definition placed :: "byte_vec \<Rightarrow> nat \<Rightarrow> nat \<Rightarrow> byte_vec \<Rightarrow> bool" where
  "placed bs head s enc \<longleftrightarrow> 0 < length bs \<and> length enc \<le> length bs \<and> s = place (length bs) head (length enc)"

lemma placedD:
  assumes "placed bs head s enc"
  shows "s mod length bs + length enc \<le> length bs" "head \<le> s" "head mod length bs < length bs"
    "length (if s \<noteq> head then overwrite bs (head mod length bs) [0] else bs) = length bs"
    "head mod length bs + length [0 :: u8] \<le> length bs"
  using assms place_fits [of "length bs" "length enc" head] place_bounds [of "length bs" head "length enc"]
  by (simp_all add: placed_def Suc_le_eq)

lemma length_written_bytes: "placed bs head s enc \<Longrightarrow> length (written_bytes bs head s enc) = length bs"
  using placedD [of bs head s enc] by (simp add: written_bytes_def split: if_splits)

lemma written_bytes_new:
  assumes "placed bs head s enc"
  shows "take (length enc) (drop (s mod length bs) (written_bytes bs head s enc)) = enc"
  unfolding written_bytes_def
  by (rule overwrite_same) (simp only: placedD(4,1) [OF assms])

lemma written_bytes_base:
  assumes pl: "placed bs head s enc" and p: "p < s" "s + length enc \<le> p + length bs"
  shows "written_bytes bs head s enc ! (p mod length bs)
     = (if s \<noteq> head then overwrite bs (head mod length bs) [0] else bs) ! (p mod length bs)"
    (is "_ = ?b ! _")
proof -
  have l: "length ?b = length bs" by (rule placedD(4) [OF pl])
  have "0 < length bs" using pl by (simp add: placed_def)
  then have "overwrite ?b (s mod length ?b) enc ! (p mod length ?b) = ?b ! (p mod length ?b)"
    using overwrite_outside [of s ?b enc p] placedD(1) [OF pl] p unfolding l by blast
  then show ?thesis unfolding written_bytes_def l .
qed

lemma written_bytes_outside:
  assumes pl: "placed bs head s enc" and p: "p < head" "s + length enc \<le> p + length bs"
  shows "written_bytes bs head s enc ! (p mod length bs) = bs ! (p mod length bs)"
proof -
  have ne: "0 < length bs" using pl by (simp add: placed_def)
  have "overwrite bs (head mod length bs) [0] ! (p mod length bs) = bs ! (p mod length bs)" if "s \<noteq> head"
    using overwrite_outside [OF placedD(5) [OF pl] p(1) _ ne] placedD(2) [OF pl] p that by simp
  then show ?thesis
    using written_bytes_base [OF pl _ p(2)] placedD(2) [OF pl] p(1) by simp
qed

lemma written_bytes_marker:
  assumes pl: "placed bs head s enc" and "s \<noteq> head" "s + length enc \<le> head + length bs"
  shows "written_bytes bs head s enc ! (head mod length bs) = 0"
proof -
  have "overwrite bs (head mod length bs) [0] ! (head mod length bs) = 0"
    using placedD(3,5) [OF pl] by (simp add: nth_overwrite)
  then show ?thesis
    using written_bytes_base [OF pl _ assms(3)] placedD(2) [OF pl] assms(2) by simp
qed

lemma stored_written:
  assumes "placed bs head s (record_bytes r True)" "encodable r True"
  shows "stored (written_bytes bs head s (record_bytes r True))
     \<lparr>rr_start_abs = s, rr_end_abs = s + record_len r True, rr_record = normalise_flags r True\<rparr>"
proof -
  have eq: "record_bytes (normalise_flags r True) True = record_bytes r True"
    "record_len (normalise_flags r True) True = record_len r True"
    "encodable (normalise_flags r True) True"
    using assms(2) encode_flags_same [of "encode_flags (rec_flags r) True"]
    by (simp_all add: normalise_flags_def record_bytes_def record_body_def record_len_def
        encode_header_def encodable_def)
  show ?thesis
    using placedD(1) [OF assms(1)] written_bytes_new [OF assms(1)] length_written_bytes [OF assms(1)]
    by (simp add: stored_def eq) (simp add: normalise_flags_def)
qed

lemma linked_written:
  assumes pl: "placed bs head s enc" and l: "linked bs a rs head"
    and st: "stored (written_bytes bs head s enc) x" "rr_start_abs x = s" "rr_end_abs x = s + length enc"
  defines "ks \<equiv> survivors (s + length enc - length bs) rs"
  shows "linked (written_bytes bs head s enc) (rr_start_abs (hd (ks @ [x])))
     (ks @ [x]) (s + length enc)"
proof (cases ks)
  case Nil
  with st show ?thesis by simp
next
  case (Cons y ys)
  let ?f = "s + length enc - length bs" and ?w = "written_bytes bs head s enc"
  have len: "length ?w = length bs" by (rule length_written_bytes [OF pl])
  have hd: "linked bs (rr_start_abs y) ks head"
    using linked_dropWhile [OF l, of "\<lambda>x. rr_start_abs x < ?f", folded survivors_def ks_def] Cons
    by simp
  have fl: "?f \<le> rr_start_abs y"
    using linked_dropWhile_floor [OF l, of y ?f] Cons by (simp add: ks_def survivors_def)
  have "linked ?w (rr_start_abs y) ks head"
    by (rule linked_cong [OF hd len], rule written_bytes_outside [OF pl]) (use fl in linarith)+
  moreover have "rr_start_abs y < head" using linked_bounds [OF hd, of y] Cons by auto
  then have "?w ! (head mod length bs) = 0" if "s \<noteq> head"
    using written_bytes_marker [OF pl that] fl by linarith
  then have "gap_ok ?w head s"
    using gap_ok_place [of ?w head "length enc"] pl unfolding len placed_def by metis
  ultimately have "linked ?w (rr_start_abs y) (ks @ [x]) (rr_end_abs x)"
    by (intro linked_snoc) (simp_all add: st)
  with Cons st show ?thesis by simp
qed

section \<open>Producer loss accounting\<close>

type_synonym stream_key = "u64 \<times> u32 \<times> nat"

definition stream_key :: "ReadRecord \<Rightarrow> stream_key" where
  "stream_key x = (rec_run_id (rr_record x), rec_source_id (rr_record x), unat (rec_seq (rr_record x)))"

definition expand_range :: "LossRange \<Rightarrow> stream_key list" where
  "expand_range r = map (\<lambda>q. (lr_run_id r, lr_source_id r, q)) [lr_first_seq r ..< Suc (lr_last_seq r)]"

definition expand_ranges :: "LossRange list \<Rightarrow> stream_key list" where
  "expand_ranges ranges = concat (map expand_range ranges)"

definition ranges_ok :: "LossRange list \<Rightarrow> bool" where
  "ranges_ok ranges \<longleftrightarrow>
     list_all (\<lambda>r. lr_first_seq r \<le> lr_last_seq r \<and> lr_last_seq r + 1 < u64_limit) ranges"

lemma expand_ranges_snoc [simp]: "expand_ranges (rs @ [r]) = expand_ranges rs @ expand_range r"
  by (simp add: expand_ranges_def)

text \<open>The ranges after one more loss: a loss that continues the last range extends it.\<close>

definition push_loss :: "LossRange list \<Rightarrow> stream_key \<Rightarrow> LossRange list" where
  "push_loss ranges key = (case key of (run, src, q) \<Rightarrow>
     if ranges \<noteq> [] \<and> lr_run_id (last ranges) = run \<and> lr_source_id (last ranges) = src \<and> lr_last_seq (last ranges) + 1 = q
     then butlast ranges @ [(last ranges)\<lparr>lr_last_seq := q\<rparr>]
     else ranges @ [\<lparr>lr_run_id = run, lr_source_id = src, lr_first_seq = q, lr_last_seq = q\<rparr>])"

lemma record_producer_loss_push:
  "ranges_ok ranges \<Longrightarrow> record_producer_loss ranges run src seq = Ok (push_loss ranges (run, src, unat seq))"
  by (cases ranges rule: rev_cases) (auto simp: record_producer_loss_def push_loss_def Let_def ranges_ok_def)

lemma record_producer_loss_ok:
  assumes ok: "ranges_ok ranges" and seq: "unat seq + 1 < u64_limit"
  shows "\<exists>ranges'. record_producer_loss ranges run src seq = Ok ranges' \<and> ranges_ok ranges'
     \<and> expand_ranges ranges' = expand_ranges ranges @ [(run, src, unat seq)]"
proof (cases "ranges \<noteq> [] \<and> lr_run_id (last ranges) = run \<and> lr_source_id (last ranges) = src
    \<and> lr_last_seq (last ranges) + 1 = unat seq")
  case True
  then obtain init r where r: "ranges = init @ [r]" by (metis rev_exhaust)
  with True ok seq show ?thesis
    by (simp add: record_producer_loss_def ranges_ok_def expand_range_def list_all_append)
next
  case False
  moreover have "lr_last_seq (last ranges) + 1 < u64_limit" if "ranges \<noteq> []"
    using ok that last_in_set [OF that] by (simp add: ranges_ok_def list_all_iff)
  ultimately show ?thesis
    using ok seq
    by (cases "ranges = []")
       (auto simp: record_producer_loss_def ranges_ok_def expand_range_def expand_ranges_def Let_def)
qed

definition seq_room :: "ReadRecord \<Rightarrow> bool" where
  "seq_room x \<longleftrightarrow> unat (rec_seq (rr_record x)) + 1 < u64_limit"

lemma evict_loop_ok:
  assumes "ranges_ok ranges" "list_all seq_room rs" "c + length rs < u64_limit"
  shows "\<exists>ranges'. evict_loop f (map index_of rs) ranges c
       = Ok (map index_of (survivors f rs), ranges', c + length (evicted f rs))
     \<and> ranges_ok ranges' \<and> expand_ranges ranges' = expand_ranges ranges @ map stream_key (evicted f rs)
     \<and> ranges' = foldl push_loss ranges (map stream_key (evicted f rs))"
  using assms
proof (induction rs arbitrary: ranges c)
  case Nil
  then show ?case by (simp add: survivors_def evicted_def)
next
  case (Cons x rs)
  show ?case
  proof (cases "rr_start_abs x < f")
    case True
    obtain r1 where r1: "record_producer_loss ranges (rec_run_id (rr_record x))
          (rec_source_id (rr_record x)) (rec_seq (rr_record x)) = (Ok r1 :: (_, 'a) outcome)"
        "ranges_ok r1" "expand_ranges r1 = expand_ranges ranges @ [stream_key x]" "r1 = push_loss ranges (stream_key x)"
      using record_producer_loss_ok [OF Cons.prems(1), of "rec_seq (rr_record x)", where 'a = 'a]
        record_producer_loss_push [OF Cons.prems(1), where 'a = 'a] Cons.prems(2)
      by (auto simp: seq_room_def stream_key_def)
    from Cons.IH [OF r1(2), of "c + 1"] Cons.prems r1 True show ?thesis
      by (auto simp: index_of_def survivors_def evicted_def)
  next
    case False
    with Cons.prems show ?thesis by (simp add: index_of_def survivors_def evicted_def)
  qed
qed

section \<open>Writing preserves the invariant and appends\<close>

definition ring_inv :: "RingBuffer \<Rightarrow> ReadRecord list \<Rightarrow> bool" where
  "ring_inv ring rs \<longleftrightarrow>
     ring_holds ring rs \<and> ranges_ok (ring_producer_loss_ranges ring) \<and> list_all seq_room rs
     \<and> ring_wraps ring + 44 * (ring_lost_count ring + length rs) \<le> ring_head_abs ring"

lemma ring_new_inv: "0 < cap \<Longrightarrow> \<exists>ring. ring_new cap = Ok ring \<and> ring_inv ring [] \<and> capacity ring = cap"
  by (simp add: ring_new_def ring_inv_def ring_holds_def ranges_ok_def capacity_def)

lemma record_len_crc: "44 \<le> record_len r True"
  by (simp add: record_len_def)

lemma evict_before_clobber_ok:
  fixes e s
  assumes inv: "ring_inv ring rs" and room: "ring_head_abs ring < u64_limit"
  defines "f \<equiv> e - capacity ring"
  shows "\<exists>ranges'. evict_before_clobber ring e s =
       Ok (ring\<lparr>ring_index := map index_of (survivors f rs), ring_producer_loss_ranges := ranges',
                ring_lost_count := ring_lost_count ring + length (evicted f rs),
                ring_oldest_abs := (case survivors f rs of [] \<Rightarrow> s | y # _ \<Rightarrow> rr_start_abs y)\<rparr>)
     \<and> ranges_ok ranges'
     \<and> expand_ranges ranges' = expand_ranges (ring_producer_loss_ranges ring) @ map stream_key (evicted f rs)
     \<and> ranges' = foldl push_loss (ring_producer_loss_ranges ring) (map stream_key (evicted f rs))"
proof -
  have idx: "ring_index ring = map index_of rs" and ok: "ranges_ok (ring_producer_loss_ranges ring)"
      "list_all seq_room rs"
    and cnt: "ring_lost_count ring + length rs < u64_limit"
    using inv room by (auto simp: ring_inv_def ring_holds_def)
  have "length (evicted f rs) \<le> length rs" by (simp add: evicted_def length_takeWhile_le)
  with cnt have add: "ring_lost_count ring + length (evicted f rs) < u64_limit" by linarith
  obtain ranges' where "evict_loop f (map index_of rs) (ring_producer_loss_ranges ring) 0
       = (Ok (map index_of (survivors f rs), ranges', length (evicted f rs)) :: (_, 'a) outcome)"
     "ranges_ok ranges'"
     "expand_ranges ranges' = expand_ranges (ring_producer_loss_ranges ring) @ map stream_key (evicted f rs)"
     "ranges' = foldl push_loss (ring_producer_loss_ranges ring) (map stream_key (evicted f rs))"
    using evict_loop_ok [OF ok, of 0 f] cnt by auto
  with add show ?thesis
    unfolding evict_before_clobber_def Let_def f_def [symmetric] idx
    by (auto simp: index_of_def split: list.split)
qed

definition written_ring :: "RingBuffer \<Rightarrow> ReadRecord list \<Rightarrow> ReadRecord \<Rightarrow> LossRange list \<Rightarrow> RingBuffer" where
  "written_ring ring rs x ranges =
     (let f = rr_end_abs x - capacity ring in
      ring\<lparr>ring_bytes := written_bytes (ring_bytes ring) (ring_head_abs ring) (rr_start_abs x)
                      (record_bytes (rr_record x) True),
       ring_head_abs := rr_end_abs x,
       ring_oldest_abs := rr_start_abs (hd (survivors f rs @ [x])),
       ring_lost_count := ring_lost_count ring + length (evicted f rs),
       ring_wraps := (if rr_start_abs x \<noteq> ring_head_abs ring then ring_wraps ring + 1 else ring_wraps ring),
       ring_index := map index_of (survivors f rs @ [x]),
       ring_producer_loss_ranges := ranges\<rparr>)"

definition next_entry :: "RingBuffer \<Rightarrow> Record \<Rightarrow> ReadRecord" where
  "next_entry ring r =
     (let s = place (capacity ring) (ring_head_abs ring) (record_len r True)
      in \<lparr>rr_start_abs = s, rr_end_abs = s + record_len r True, rr_record = normalise_flags r True\<rparr>)"

definition writable :: "RingBuffer \<Rightarrow> Record \<Rightarrow> bool" where
  "writable ring r \<longleftrightarrow>
     encodable r True \<and> record_len r True \<le> capacity ring \<and> rr_end_abs (next_entry ring r) < u64_limit"

lemma normalise_flags_sel [simp]:
  "rec_run_id (normalise_flags r c) = rec_run_id r" "rec_source_id (normalise_flags r c) = rec_source_id r"
  "rec_seq (normalise_flags r c) = rec_seq r"
  by (simp_all add: normalise_flags_def)

lemma normalise_flags_bytes:
  "record_bytes (normalise_flags r True) True = record_bytes r True"
  "record_len (normalise_flags r True) True = record_len r True"
  using encode_flags_same [of "encode_flags (rec_flags r) True"]
  by (simp_all add: normalise_flags_def record_bytes_def record_body_def record_len_def encode_header_def)

lemma oldest_after_eviction:
  "(case ks of [] \<Rightarrow> rr_start_abs x | y # _ \<Rightarrow> rr_start_abs y) = rr_start_abs (hd (ks @ [x]))"
  by (cases ks) simp_all

lemma next_entry_placed:
  assumes "ring_inv ring rs" "writable ring r"
  shows "placed (ring_bytes ring) (ring_head_abs ring) (rr_start_abs (next_entry ring r)) (record_bytes r True)"
  using assms by (simp add: ring_inv_def ring_holds_def placed_def next_entry_def capacity_def writable_def Let_def)

lemma write_record_eq:
  assumes inv: "ring_inv ring rs" and wr: "writable ring r"
  defines "x \<equiv> next_entry ring r"
  defines "f \<equiv> rr_end_abs x - capacity ring"
  shows "\<exists>ranges'. write_record ring r = Ok (written_ring ring rs x ranges', rr_start_abs x, rr_end_abs x)
     \<and> ranges_ok ranges'
     \<and> expand_ranges ranges' = expand_ranges (ring_producer_loss_ranges ring) @ map stream_key (evicted f rs)
     \<and> ranges' = foldl push_loss (ring_producer_loss_ranges ring) (map stream_key (evicted f rs))"
proof -
  let ?h = "ring_head_abs ring" and ?c = "capacity ring" and ?n = "record_len r True"
  define s where "s = place ?c ?h ?n"
  have x: "x = \<lparr>rr_start_abs = s, rr_end_abs = s + ?n, rr_record = normalise_flags r True\<rparr>"
    by (simp add: x_def s_def next_entry_def Let_def)
  have enc: "encodable r True" and fit: "?n \<le> ?c" and lim: "s + ?n < u64_limit"
    using wr by (simp_all add: writable_def x [unfolded x_def])
  have cap: "0 < ?c" "?c = length (ring_bytes ring)" and cnt: "ring_wraps ring \<le> ?h"
    using inv by (simp_all add: ring_inv_def ring_holds_def capacity_def)
  have pl: "placed (ring_bytes ring) ?h s (record_bytes r True)"
    using next_entry_placed [OF inv wr] by (simp add: x [unfolded x_def])
  have lims: "s < u64_limit" "?h < u64_limit" "ring_wraps ring + 1 < u64_limit"
    using lim cnt placedD(2) [OF pl] record_len_crc [of r] by linarith+
  have f: "f = s + ?n - ?c" by (simp add: f_def x)
  obtain ranges' where ev: "evict_before_clobber ring (s + ?n) s =
       (Ok (ring\<lparr>ring_index := map index_of (survivors f rs), ring_producer_loss_ranges := ranges',
                ring_lost_count := ring_lost_count ring + length (evicted f rs),
                ring_oldest_abs := rr_start_abs (hd (survivors f rs @ [x]))\<rparr>)
          :: (_, RingError) outcome)"
     and ranges': "ranges_ok ranges'"
     "expand_ranges ranges' = expand_ranges (ring_producer_loss_ranges ring) @ map stream_key (evicted f rs)"
     "ranges' = foldl push_loss (ring_producer_loss_ranges ring) (map stream_key (evicted f rs))"
    using evict_before_clobber_ok [OF inv lims(2), of "s + ?n" "rr_start_abs x"]
    unfolding f oldest_after_eviction by (auto simp: x)
  have sel: "(if ?h mod ?c = 0 \<or> ?h mod ?c + ?n \<le> ?c then Ok ?h else u64_add ?h (?c - ?h mod ?c))
       = (Ok s :: (_, RingError) outcome)"
    using lims(1) by (auto simp: s_def place_def)
  have "write_record ring r = Ok (written_ring ring rs x ranges', s, s + ?n)"
    using sel ev [unfolded f x] lims lim placedD [OF pl] fit cap
    by (auto simp: write_record_def encode_ok [OF enc] physical_offset_def Let_def written_bytes_def
        overwrite_def capacity_def index_of_def written_ring_def normalise_flags_bytes x)
  with ranges' show ?thesis by (auto simp: x)
qed

lemma written_ring_inv:
  assumes inv: "ring_inv ring rs" and wr: "writable ring r" and seq: "unat (rec_seq r) + 1 < u64_limit"
    and ok: "ranges_ok ranges"
  defines "x \<equiv> next_entry ring r"
  shows "ring_inv (written_ring ring rs x ranges) (survivors (rr_end_abs x - capacity ring) rs @ [x])"
proof -
  let ?bs = "ring_bytes ring" and ?n = "record_len r True" and ?f = "rr_end_abs x - capacity ring"
    and ?ring = "written_ring ring rs x ranges"
  define s where "s = rr_start_abs x"
  note pl = next_entry_placed [OF inv wr, folded x_def s_def]
  have x: "x = \<lparr>rr_start_abs = s, rr_end_abs = s + ?n, rr_record = normalise_flags r True\<rparr>"
    and n: "?n \<le> capacity ring"
    using wr by (simp_all add: x_def s_def next_entry_def Let_def writable_def)
  have cap: "0 < capacity ring" "capacity ring = length ?bs"
    and lk: "linked ?bs (ring_oldest_abs ring) rs (ring_head_abs ring)"
    using inv by (simp_all add: ring_inv_def ring_holds_def capacity_def)
  have st: "stored (written_bytes ?bs (ring_head_abs ring) s (record_bytes r True)) x"
    using stored_written [OF pl] wr by (simp add: x writable_def)
  have lk': "linked (ring_bytes ?ring) (ring_oldest_abs ?ring) (survivors ?f rs @ [x]) (rr_end_abs x)"
    using linked_written [OF pl lk st]
    by (simp add: written_ring_def Let_def normalise_flags_bytes x cap(2))
  have old: "rr_end_abs x \<le> ring_oldest_abs ?ring + capacity ring"
  proof (cases "survivors ?f rs")
    case (Cons y ys)
    then have "?f \<le> rr_start_abs y"
      using linked_dropWhile_floor [OF lk, of y ?f] by (simp add: survivors_def)
    with Cons show ?thesis by (simp add: written_ring_def)
  qed (use n in \<open>simp add: written_ring_def x\<close>)
  have holds: "ring_holds ?ring (survivors ?f rs @ [x])"
    using lk' old cap length_written_bytes [OF pl]
    by (simp add: ring_holds_def capacity_def written_ring_def Let_def x normalise_flags_bytes)
  have "list_all seq_room (evicted ?f rs @ survivors ?f rs)"
    using inv by (simp add: evicted_survivors ring_inv_def)
  then have seqs: "list_all seq_room (survivors ?f rs @ [x])"
    using seq by (simp add: seq_room_def normalise_flags_def x)
  have "length (evicted ?f rs) + length (survivors ?f rs) = length rs"
    by (metis evicted_survivors length_append)
  then show ?thesis
    using holds ok seqs inv placedD(2) [OF pl] record_len_crc [of r]
    by (auto simp: ring_inv_def written_ring_def Let_def x)
qed

lemma write_record_Ok_writable:
  assumes "write_record ring r = Ok (ring', s, e)"
  shows "writable ring r"
proof -
  have enc: "encodable r True"
    using assms by (auto simp: write_record_def outcome_simps encode_eq_Ok)
  then show ?thesis
    using assms unfolding write_record_def encode_ok [OF enc] writable_def next_entry_def place_def
    by (auto simp: Let_def outcome_simps physical_offset_def split: if_splits)
qed

section \<open>Reading returns what is retained\<close>

lemma stored_decode:
  assumes "stored bs x"
  defines "st \<equiv> rr_start_abs x mod length bs" and "n \<equiv> record_len (rr_record x) True"
  shows "decode (take n (drop st bs)) = Ok \<lparr>dec_record = rr_record x, dec_consumed = n\<rparr>"
proof -
  have "normalise_flags (rr_record x) True = rr_record x"
    using assms(1) encode_flags_same [of "rec_flags (rr_record x)"]
    by (simp add: stored_def normalise_flags_def)
  then show ?thesis
    using assms(1) decode_record_bytes [of "rr_record x" True "[]"] by (simp add: stored_def st_def n_def)
qed

lemma read_indexed_ok:
  assumes "list_all (stored (ring_bytes ring)) rs"
  shows "read_indexed ring (map index_of rs) acc = Ok (acc @ rs)"
  using assms
proof (induction rs arbitrary: acc)
  case (Cons x rs)
  then have st: "stored (ring_bytes ring) x" by simp
  have "rr_end_abs x = rr_start_abs x + record_len (rr_record x) True"
    "rr_start_abs x mod length (ring_bytes ring) + record_len (rr_record x) True \<le> length (ring_bytes ring)"
    using st by (simp_all add: stored_def)
  with stored_decode [OF st] Cons show ?case
    by (simp add: index_of_def Let_def physical_offset_def capacity_def)
qed simp

lemma read_from_ok:
  assumes "ring_holds ring rs"
  shows "read_from ring cursor =
     Ok \<lparr>rb_records = [x \<leftarrow> rs. cursor \<le> rr_start_abs x], rb_next_abs = ring_head_abs ring,
         rb_lapped = (cursor < ring_oldest_abs ring)\<rparr>"
proof -
  let ?c = "if cursor < ring_oldest_abs ring then ring_oldest_abs ring else cursor"
  have idx: "ring_index ring = map index_of rs" 
    and lk: "linked (ring_bytes ring) (ring_oldest_abs ring) rs (ring_head_abs ring)"
    using assms by (simp_all add: ring_holds_def)
  have "list_all (stored (ring_bytes ring)) [x \<leftarrow> rs. ?c \<le> rr_start_abs x]"
    using linked_stored [OF lk] by (simp add: list_all_iff)
  from read_indexed_ok [OF this, of "[]"]
  have "read_indexed ring [i \<leftarrow> ring_index ring. ?c \<le> idx_start_abs i] [] = Ok [x \<leftarrow> rs. ?c \<le> rr_start_abs x]"
    by (simp add: idx filter_map o_def index_of_def)
  moreover have "[x \<leftarrow> rs. ?c \<le> rr_start_abs x] = [x \<leftarrow> rs. cursor \<le> rr_start_abs x]"
  proof (intro filter_cong refl)
    show "(?c \<le> rr_start_abs x) = (cursor \<le> rr_start_abs x)" if "x \<in> set rs" for x
      using linked_bounds [OF lk that] by auto
  qed
  ultimately show ?thesis by (simp add: read_from_def Let_def)
qed

lemma read_raw_step_gap:
  assumes "gap_ok bs a b" "a \<noteq> b" "b \<le> h" "h < u64_limit" "fo \<le> a" "0 < length bs"
  shows "read_raw_loop bs h fo obs calls a acc = read_raw_loop bs h fo obs calls b acc"
proof -
  have g: "a mod length bs \<noteq> 0" "b = a + (length bs - a mod length bs)" "bs ! (a mod length bs) = 0"
    using assms(1,2) by (auto simp: gap_ok_def)
  have "a mod length bs < length bs" using assms(6) by simp
  moreover have "u64_add a (length bs - a mod length bs) = (Ok b :: (_, RingError) outcome)"
    using g(2) assms(3,4) by (simp only: u64_add_def) simp
  moreover have "a < h" using g(2) assms(3) \<open>a mod length bs < length bs\<close> by linarith
  ultimately show ?thesis
    using g(1,3) assms(5) by (subst read_raw_loop.simps) (simp add: Let_def)
qed

lemma stored_header:
  assumes "stored bs x"
  defines "st \<equiv> rr_start_abs x mod length bs" and "n \<equiv> record_len (rr_record x) True"
  shows "st + n \<le> length bs" "st + 40 \<le> length bs" "bs ! st \<noteq> 0" "take 4 (drop st bs) = SYNC"
    "read_le_u16 bs (st + 4) = (Ok (of_nat n) :: (u16, RingError) outcome)" "unat (of_nat n :: u16) = n"
proof -
  let ?r = "rr_record x"
  have enc: "encodable ?r True" and fit: "st + n \<le> length bs"
    and eq: "take n (drop st bs) = record_bytes ?r True"
    using assms(1) by (simp_all add: stored_def st_def n_def)
  show "st + n \<le> length bs" by (rule fit)
  then show len: "st + 40 \<le> length bs" using record_len_pos [of ?r True] by (simp add: n_def)
  show "unat (of_nat n :: u16) = n" using enc by (simp add: n_def)
  have rb: "record_bytes ?r True = SYNC @ u16_to_le_bytes (of_nat n) @ drop 6 (record_bytes ?r True)"
    using record_bytes_header [of ?r True "[]"] by (simp add: encode_header_def n_def)
  have "take 6 (drop st bs) = take 6 (take n (drop st bs))"
    using record_len_pos [of ?r True] by (simp add: n_def min_def)
  also have "\<dots> = SYNC @ u16_to_le_bytes (of_nat n)" unfolding eq by (subst rb) simp
  finally have six: "take 6 (drop st bs) = SYNC @ u16_to_le_bytes (of_nat n)" .
  have "take 4 (drop st bs) = take 4 (take 6 (drop st bs))" by simp
  then show sync: "take 4 (drop st bs) = SYNC" unfolding six by simp
  have "bs ! st = take 4 (drop st bs) ! 0" using len by simp
  then show "bs ! st \<noteq> 0" unfolding sync by (simp add: SYNC_def)
  have "[bs ! (st + 4), bs ! (st + 5)] = drop 4 (take 6 (drop st bs))"
    using len by (simp add: drop_take take_drop_Cons eval_nat_numeral)
  then have "[bs ! (st + 4), bs ! (st + 4 + 1)] = u16_to_le_bytes (of_nat n)" unfolding six by (simp add: add.commute)
  then show "read_le_u16 bs (st + 4) = (Ok (of_nat n) :: (u16, RingError) outcome)"
    using len by (simp add: read_le_u16_def)
qed

lemma read_raw_step_record:
  assumes st: "stored bs x" and a: "a = rr_start_abs x" and e: "rr_end_abs x \<le> h" "h < u64_limit"
    and o: "fo \<le> a" "obs calls \<le> a"
  shows "read_raw_loop bs h fo obs calls a acc =
     read_raw_loop bs h fo obs (Suc calls) (rr_end_abs x) (acc @ [x])"
proof -
  let ?n = "record_len (rr_record x) True"
  have end_x: "rr_end_abs x = a + ?n" using st a by (simp add: stored_def)
  have "a < h" using stored_span [OF st] a e by simp
  moreover have "\<lparr>rr_start_abs = a, rr_end_abs = a + ?n, rr_record = rr_record x\<rparr> = x"
    using end_x a by (cases x) simp
  ultimately show ?thesis
    using stored_header [OF st, folded a] stored_decode [OF st, folded a] o e end_x record_len_pos [of "rr_record x" True]
    by (subst read_raw_loop.simps) (simp add: Let_def)
qed

lemma read_raw_loop_linked:
  assumes "linked bs a rs h" "0 < length bs" "h < u64_limit" "fo \<le> a" "\<And>k. obs k \<le> a"
  shows "read_raw_loop bs h fo obs calls a acc = Ok (acc @ rs, calls + length rs)"
  using assms
proof (induction rs arbitrary: a acc calls)
  case Nil
  then show ?case by (simp add: read_raw_loop.simps)
next
  case (Cons x rs)
  have b: "a \<le> rr_start_abs x" "rr_start_abs x < rr_end_abs x" "rr_end_abs x \<le> h"
    using linked_bounds [OF Cons.prems(1), of x] by auto
  have "read_raw_loop bs h fo obs calls a acc = read_raw_loop bs h fo obs calls (rr_start_abs x) acc"
    using read_raw_step_gap [of bs a "rr_start_abs x" h fo obs calls acc] Cons.prems b
    by (cases "a = rr_start_abs x") auto
  also have "\<dots> = read_raw_loop bs h fo obs (Suc calls) (rr_end_abs x) (acc @ [x])"
    using Cons.prems b order.trans [OF Cons.prems(5) b(1)] by (intro read_raw_step_record) auto
  also have "\<dots> = Ok ((acc @ [x]) @ rs, Suc calls + length rs)"
  proof (rule Cons.IH)
    show "obs k \<le> rr_end_abs x" for k using Cons.prems(5) [of k] b by linarith
  qed (use Cons.prems b in auto)
  finally show ?case by simp
qed

definition cursor_ok :: "RingBuffer \<Rightarrow> ReadRecord list \<Rightarrow> nat \<Rightarrow> bool" where
  "cursor_ok ring rs c \<longleftrightarrow>
     c \<le> ring_oldest_abs ring \<or> ring_head_abs ring \<le> c
     \<or> (\<exists>x \<in> set rs. c = rr_start_abs x \<or> c = rr_end_abs x)"

lemma linked_from:
  assumes "linked bs a rs h" "x \<in> set rs" "c = rr_start_abs x \<or> c = rr_end_abs x"
  shows "linked bs c [x \<leftarrow> rs. c \<le> rr_start_abs x] h"
  using assms
proof (induction rs arbitrary: a)
  case (Cons y rs)
  have y: "rr_start_abs y < rr_end_abs y" using linked_bounds [OF Cons.prems(1), of y] by simp
  have all: "[z \<leftarrow> rs. c' \<le> rr_start_abs z] = rs" if "c' \<le> rr_end_abs y" for c'
    using linked_bounds [of bs "rr_end_abs y" rs h] Cons.prems(1) that by (force intro: filter_True)
  show ?case
  proof (cases "x = y")
    case True
    then consider "c = rr_start_abs y" | "c = rr_end_abs y" using Cons.prems(3) by auto
    then show ?thesis using all [of c] y Cons.prems(1) by cases auto
  next
    case False
    then have x: "x \<in> set rs" using Cons.prems(2) by simp
    then have "rr_end_abs y \<le> c"
      using linked_bounds [of bs "rr_end_abs y" rs h x] Cons.prems by auto
    then show ?thesis using y Cons.IH [of "rr_end_abs y"] x Cons.prems by auto
  qed
qed simp

lemma read_raw_from_ok:
  assumes h: "ring_holds ring rs" and room: "ring_head_abs ring < u64_limit" and c: "cursor_ok ring rs cursor"
  shows "read_raw_from ring cursor = read_from ring cursor"
proof -
  let ?bs = "ring_bytes ring" and ?h = "ring_head_abs ring" and ?o = "ring_oldest_abs ring"
  let ?a = "if cursor < ?o then ?o else cursor"
  have lk: "linked ?bs ?o rs ?h" and cap: "0 < length ?bs"
    using h by (simp_all add: ring_holds_def capacity_def)
  have "\<exists>k. read_raw_loop ?bs ?h ?o (\<lambda>_. ?o) 0 ?a [] = Ok ([x \<leftarrow> rs. cursor \<le> rr_start_abs x], k)"
  proof (cases "cursor \<le> ?o")
    case True
    then have "[x \<leftarrow> rs. cursor \<le> rr_start_abs x] = rs"
      using linked_bounds [OF lk] by (force intro: filter_True)
    with True show ?thesis using read_raw_loop_linked [OF lk cap room order.refl, of "\<lambda>_. ?o" 0 "[]"] by auto
  next
    case False
    show ?thesis
    proof (cases "?h \<le> cursor")
      case True
      then have "[x \<leftarrow> rs. cursor \<le> rr_start_abs x] = []"
        using linked_bounds [OF lk] by (force intro: filter_False)
      with True False show ?thesis by (simp add: read_raw_loop.simps)
    next
      case nh: False
      then have "linked ?bs cursor [x \<leftarrow> rs. cursor \<le> rr_start_abs x] ?h"
        using linked_from [OF lk] c False by (auto simp: cursor_ok_def)
      from read_raw_loop_linked [OF this cap room, of ?o "\<lambda>_. ?o" 0 "[]"] False show ?thesis by auto
    qed
  qed
  then show ?thesis
    by (auto simp: read_raw_from_def read_raw_window_def Let_def read_from_ok [OF h])
qed

section \<open>The ring is a bounded log\<close>

definition record_key :: "Record \<Rightarrow> stream_key" where
  "record_key r = (rec_run_id r, rec_source_id r, unat (rec_seq r))"

definition seq_not_max :: "Record \<Rightarrow> bool" where
  "seq_not_max r \<longleftrightarrow> unat (rec_seq r) + 1 < u64_limit"

lemma stream_key_record_key: "stream_key = record_key \<circ> rr_record"
  by (auto simp: stream_key_def record_key_def)

lemma write_record_refines:
  assumes inv: "ring_inv ring rs" and wr: "writable ring r" and seq: "seq_not_max r"
  defines "x \<equiv> next_entry ring r"
  defines "f \<equiv> rr_end_abs x - capacity ring"
  shows "\<exists>ring'. write_record ring r = Ok (ring', rr_start_abs x, rr_end_abs x)
     \<and> ring_inv ring' (survivors f rs @ [x])
     \<and> capacity ring' = capacity ring \<and> ring_head_abs ring' = rr_end_abs x
     \<and> ring_oldest_abs ring' = rr_start_abs (hd (survivors f rs @ [x]))
     \<and> ring_lost_count ring' = ring_lost_count ring + length (evicted f rs)
     \<and> expand_ranges (ring_producer_loss_ranges ring')
         = expand_ranges (ring_producer_loss_ranges ring) @ map stream_key (evicted f rs)"
proof -
  from write_record_eq [OF inv wr] obtain ranges' where
    w: "write_record ring r = Ok (written_ring ring rs x ranges', rr_start_abs x, rr_end_abs x)"
    and r: "ranges_ok ranges'" "expand_ranges ranges'
      = expand_ranges (ring_producer_loss_ranges ring) @ map stream_key (evicted f rs)"
    by (auto simp: x_def f_def)
  have "ring_inv (written_ring ring rs x ranges') (survivors f rs @ [x])"
    using written_ring_inv [OF inv wr _ r(1)] seq by (simp add: x_def f_def seq_not_max_def)
  moreover have "capacity (written_ring ring rs x ranges') = capacity ring"
    using length_written_bytes [OF next_entry_placed [OF inv wr]]
    by (simp add: written_ring_def x_def next_entry_def Let_def capacity_def normalise_flags_bytes)
  ultimately show ?thesis
    using w r(2) by (auto simp: written_ring_def Let_def f_def)
qed

lemma write_record_ranges:
  assumes "ring_inv ring rs" "writable ring r" "write_record ring r = Ok (ring', s, e)"
  shows "ring_producer_loss_ranges ring' = foldl push_loss (ring_producer_loss_ranges ring) (map stream_key (evicted (e - capacity ring) rs))"
  using write_record_eq [OF assms(1,2)] assms(3) by (auto simp: written_ring_def Let_def)

interpretation ring_log: bounded_log ring_inv "\<lambda>ring. expand_ranges (ring_producer_loss_ranges ring)"
  ring_lost_count write_record seq_not_max rr_record "\<lambda>r. normalise_flags r True" record_key
proof unfold_locales
  fix ring rs r ring' out
  assume inv: "ring_inv ring rs" "seq_not_max r" and w: "write_record ring r = Ok (ring', out)"
  let ?x = "next_entry ring r"
  let ?f = "rr_end_abs ?x - capacity ring"
  have "writable ring r" using w by (cases out) (auto intro: write_record_Ok_writable)
  from write_record_refines [OF inv(1) this inv(2)] w
  have "ring_inv ring' (survivors ?f rs @ [?x])"
    "ring_lost_count ring' = ring_lost_count ring + length (evicted ?f rs)"
    "expand_ranges (ring_producer_loss_ranges ring')
       = expand_ranges (ring_producer_loss_ranges ring) @ map stream_key (evicted ?f rs)"
    by auto
  then show "\<exists>dropped kept e. rs = dropped @ kept \<and> ring_inv ring' (kept @ [e])
         \<and> rr_record e = normalise_flags r True
         \<and> expand_ranges (ring_producer_loss_ranges ring')
             = expand_ranges (ring_producer_loss_ranges ring) @ map (record_key \<circ> rr_record) dropped
         \<and> ring_lost_count ring' = ring_lost_count ring + length dropped"
    by (intro exI [of _ "evicted ?f rs"] exI [of _ "survivors ?f rs"] exI [of _ ?x])
       (simp add: evicted_survivors stream_key_record_key, simp add: next_entry_def Let_def)
qed

section \<open>Robustness of the raw reader\<close>

lemma read_raw_loop_not_panic:
  assumes "h + length bs \<le> u64_limit" "0 < length bs"
  shows "\<not> is_panic (read_raw_loop bs h fo obs calls pos acc)"
proof (induction "h - pos" arbitrary: pos calls acc rule: less_induct)
  case less
  let ?phys = "pos mod length bs"
  have phys: "?phys < length bs" using assms by simp
  show ?case
  proof (cases "pos < h \<and> fo \<le> pos")
    case True
    then have lim: "pos + k < u64_limit" if "k \<le> length bs" for k using assms that by linarith
    have IH: "\<not> is_panic (read_raw_loop bs h fo obs c p a)"
      if "u64_add pos k = (Ok p :: (nat, RingError) outcome)" "0 < k" for c k p a
      using less [of p] that True by (auto simp: outcome_simps)
    have consumed: "dec_consumed d \<le> length bs"
      if "vec_slice bs i j = (Ok xs :: (byte_vec, RingError) outcome)" "map_err RingWire (decode xs) = Ok d"
      for i j xs d
      using that by (auto simp: outcome_simps decode_eq_Ok)
    have u16: "\<not> is_panic (read_le_u16 bs i)" if "\<not> length bs < i + 2" for i
      using that by (simp add: read_le_u16_def)
    show ?thesis
      by (subst read_raw_loop.simps, unfold Let_def)
         (intro no_panic decode_not_panic u16; (simp add: phys lim; fail)?,
          ((erule IH, simp add: phys) | (rule lim, erule (1) consumed))?)+
  qed (subst read_raw_loop.simps, auto)
qed

lemma read_raw_window_not_panic:
  assumes "head + capacity ring \<le> u64_limit" "0 < capacity ring"
  shows "\<not> is_panic (read_raw_window ring cursor head fo obs)"
  using read_raw_loop_not_panic [of head "ring_bytes ring" fo obs 0] assms
  by (auto simp: read_raw_window_def Let_def capacity_def)

lemma read_raw_loop_cases:
  assumes "read_raw_loop bs h fo obs calls pos acc = Ok (recs, calls')" "pos < h" "0 < length bs"
  obtains (gap) p where "pos < p" "read_raw_loop bs h fo obs calls p acc = Ok (recs, calls')"
  | (rec) p x where "pos < p" "rr_start_abs x = pos" "obs calls \<le> pos" "fo \<le> pos"
      "read_raw_loop bs h fo obs (Suc calls) p (acc @ [x]) = Ok (recs, calls')"
proof -
  have phys: "pos mod length bs < length bs" using assms(3) by simp
  have "(\<exists>p > pos. read_raw_loop bs h fo obs calls p acc = Ok (recs, calls'))
     \<or> (\<exists>p x. pos < p \<and> rr_start_abs x = pos \<and> obs calls \<le> pos \<and> fo \<le> pos
          \<and> read_raw_loop bs h fo obs (Suc calls) p (acc @ [x]) = Ok (recs, calls'))"
    using assms(1,2) phys
    apply (subst (asm) read_raw_loop.simps)
    apply (simp only: Let_def if_True outcome_simps split: if_splits)
    apply (auto simp: outcome_simps)
    done
  with that show thesis by blast
qed

lemma read_raw_loop_rechecked:
  assumes "read_raw_loop bs h fo obs calls pos acc = Ok (recs, calls')" "0 < length bs"
  shows "\<exists>new. recs = acc @ new \<and> calls' = calls + length new
     \<and> (\<forall>i < length new. obs (calls + i) \<le> rr_start_abs (new ! i) \<and> fo \<le> rr_start_abs (new ! i)
          \<and> rr_start_abs (new ! i) < h)"
  using assms
proof (induction "h - pos" arbitrary: pos calls acc rule: less_induct)
  case less
  show ?case
  proof (cases "pos < h")
    case True
    from less.prems(1) True less.prems(2) show ?thesis
    proof (cases rule: read_raw_loop_cases)
      case (gap p)
      then show ?thesis using less.hyps [of p calls acc] True less.prems(2) by auto
    next
      case (rec p x)
      then obtain new where "recs = (acc @ [x]) @ new" "calls' = Suc calls + length new"
          "\<forall>i < length new. obs (Suc calls + i) \<le> rr_start_abs (new ! i) \<and> fo \<le> rr_start_abs (new ! i)
            \<and> rr_start_abs (new ! i) < h"
        using less.hyps [OF diff_less_mono2 [OF rec(1) True] rec(5) less.prems(2)] by blast
      with rec True show ?thesis
        by (intro exI [of _ "x # new"]) (auto simp: nth_Cons split: nat.split)
    qed
  qed (use less.prems in \<open>auto simp: read_raw_loop.simps\<close>)
qed

section \<open>Properties of the ring\<close>

lemma ring_new_Ok:
  "ring_new cap = Ok ring \<Longrightarrow> ring_inv ring [] \<and> ring_lost_count ring = 0
     \<and> expand_ranges (ring_producer_loss_ranges ring) = []"
  by (auto simp: ring_new_def ring_inv_def ring_holds_def ranges_ok_def capacity_def expand_ranges_def
      split: if_splits)

lemma read_raw_from_cong:
  "ring_bytes v = ring_bytes r \<Longrightarrow> ring_head_abs v = ring_head_abs r \<Longrightarrow>
     ring_oldest_abs v = ring_oldest_abs r \<Longrightarrow> read_raw_from v c = read_raw_from r c"
  by (simp add: read_raw_from_def read_raw_window_def)

lemma from_captured_ok:
  assumes "bytes \<noteq> []" "oldest \<le> head" "head \<le> oldest + length bytes"
  shows "from_captured bytes head oldest lost =
     Ok \<lparr>ring_bytes = bytes, ring_head_abs = head, ring_oldest_abs = oldest, ring_lost_count = lost,
         ring_wraps = 0, ring_index = [], ring_producer_loss_ranges = []\<rparr>"
  using assms by (simp add: from_captured_def Let_def)

lemma next_entry_end:
  "0 < capacity ring \<Longrightarrow> record_len r True \<le> capacity ring \<Longrightarrow>
     rr_end_abs (next_entry ring r) \<le> ring_head_abs ring + 2 * capacity ring"
  using place_bounds [of "capacity ring" "ring_head_abs ring" "record_len r True"]
  by (simp add: next_entry_def Let_def)

text \<open>C2. Writing refines appending to a bounded list.  In a ring that holds \<open>rs\<close> (and has room below
  \<open>2^64\<close>), an encodable record that fits the capacity is written at the head, or at the next capacity
  boundary when it would cross it; the ring then holds the new record after exactly those old records
  whose bytes are less than one capacity behind the new head, the oldest offset is that of the first of
  them, and the dropped records are counted and logged in order in the producer's loss ranges.\<close>

theorem write_record_appends:
  assumes "ring_inv ring rs" and "encodable r True" and "record_len r True \<le> capacity ring"
    and "ring_head_abs ring + 2 * capacity ring < u64_limit" and "unat (rec_seq r) + 1 < u64_limit"
  defines "start \<equiv> place (capacity ring) (ring_head_abs ring) (record_len r True)"
  defines "stop \<equiv> place (capacity ring) (ring_head_abs ring) (record_len r True) + record_len r True"
  defines "retained \<equiv> dropWhile (\<lambda>x. rr_start_abs x < stop - capacity ring) rs
             @ [\<lparr>rr_start_abs = start, rr_end_abs = stop, rr_record = normalise_flags r True\<rparr>]"
    and "dropped \<equiv> takeWhile (\<lambda>x. rr_start_abs x < stop - capacity ring) rs"
  shows "\<exists>ring'. write_record ring r = Ok (ring', start, stop)
     \<and> ring_inv ring' retained \<and> capacity ring' = capacity ring
     \<and> ring_head_abs ring' = stop \<and> ring_oldest_abs ring' = rr_start_abs (hd retained)
     \<and> ring_lost_count ring' = ring_lost_count ring + length dropped
     \<and> expand_ranges (ring_producer_loss_ranges ring')
         = expand_ranges (ring_producer_loss_ranges ring) @ map stream_key dropped"
proof -
  have x: "next_entry ring r
      = \<lparr>rr_start_abs = start, rr_end_abs = stop, rr_record = normalise_flags r True\<rparr>"
    by (simp add: next_entry_def Let_def start_def stop_def)
  have "0 < capacity ring" using assms(1) by (simp add: ring_inv_def ring_holds_def)
  then have "writable ring r"
    using next_entry_end [of ring r] assms(2-4) by (simp add: writable_def)
  from write_record_refines [OF assms(1) this] assms(5) show ?thesis
    by (simp add: x seq_not_max_def survivors_def evicted_def retained_def dropped_def)
qed

theorem write_record_appends_witness:
  "\<exists>ring ring'. ring_new 100 = (Ok ring :: (RingBuffer, RingError) outcome)
     \<and> write_record ring (record_new 1 2 3 4 5) = Ok (ring', 0, 44)
     \<and> ring_head_abs ring' = 44 \<and> ring_lost_count ring' = 0"
proof -
  from ring_new_inv [of 100] obtain ring where r: "ring_new 100 = (Ok ring :: (_, RingError) outcome)"
    "ring_inv ring []" "capacity ring = 100" by auto
  then have h: "ring_head_abs ring = 0" "ring_lost_count ring = 0" by (auto simp: ring_new_def)
  have len: "record_len (record_new 1 2 3 4 5) True = 44" by (simp add: record_len_def record_new_def)
  show ?thesis
    using write_record_appends [OF r(2), of "record_new 1 2 3 4 5"] r h len
    by (auto simp: encodable_def record_new_def place_def u64_limit_def)
qed

text \<open>Totality of writing and its errors: in a valid ring with room below \<open>2^64\<close>, \<open>write_record\<close>
  never panics.  A record that cannot be encoded is refused with the wire error of \<open>encode\<close>, one larger
  than the ring with \<open>RecordExceedsCapacity\<close>, and every other record is written.\<close>

theorem write_record_total:
  assumes "ring_inv ring rs" and "ring_head_abs ring + 2 * capacity ring < u64_limit"
    and "unat (rec_seq r) + 1 < u64_limit"
  shows "(\<exists>e. encode r True = Err e \<and> write_record ring r = Err (RingWire e))
     \<or> (\<exists>bs. encode r True = Ok bs \<and> capacity ring < length bs
          \<and> write_record ring r = Err (RecordExceedsCapacity (length bs) (capacity ring)))
     \<or> (\<exists>bs ring' start. encode r True = Ok bs \<and> length bs \<le> capacity ring
          \<and> write_record ring r = Ok (ring', start, start + length bs))"
proof (cases "encode r True")
  case (Ok bs)
  then have enc: "encodable r True" "bs = record_bytes r True" by (simp_all add: encode_eq_Ok)
  show ?thesis
  proof (cases "length bs \<le> capacity ring")
    case True
    have "0 < capacity ring" using assms(1) by (simp add: ring_inv_def ring_holds_def)
    then have "writable ring r" using next_entry_end [of ring r] assms(2) enc True by (simp add: writable_def)
    from write_record_refines [OF assms(1) this] assms(3) Ok enc True show ?thesis
      by (auto simp: seq_not_max_def next_entry_def Let_def)
  qed (auto simp: Ok write_record_def)
qed (auto simp: write_record_def encode_not_panic)

theorem write_record_total_witness:
  "\<exists>ring. ring_new 40 = (Ok ring :: (RingBuffer, RingError) outcome)
     \<and> write_record ring (record_new 1 2 3 4 5) = Err (RecordExceedsCapacity 44 40)"
proof -
  from ring_new_inv [of 40] obtain ring where r: "ring_new 40 = (Ok ring :: (_, RingError) outcome)"
    "ring_inv ring []" "capacity ring = 40" by auto
  then have h: "ring_head_abs ring = 0" by (auto simp: ring_new_def)
  have enc: "encodable (record_new 1 2 3 4 5) True" by (simp add: encodable_def record_len_def record_new_def)
  have len: "length (record_bytes (record_new 1 2 3 4 5) True) = 44" by (simp add: record_len_def record_new_def)
  show ?thesis
    using write_record_total [OF r(2), of "record_new 1 2 3 4 5"] r h encode_ok [OF enc] len
    by (auto simp: record_new_def u64_limit_def)
qed

text \<open>C11. Walking the raw bytes is equivalent to reading through the index.  From any cursor a consumer
  can hold (not past the oldest offset, at or past the head, or at a boundary of a retained record), the
  raw reader returns exactly what the index reader returns: the retained records that start at or after
  the cursor, in order, the head as the next cursor, and the lapped flag.\<close>

theorem read_raw_from_equals_read_from:
  assumes "ring_inv ring rs" and "ring_head_abs ring < u64_limit" and "cursor_ok ring rs cursor"
  shows "read_raw_from ring cursor = read_from ring cursor
     \<and> read_from ring cursor =
         Ok \<lparr>rb_records = [x \<leftarrow> rs. cursor \<le> rr_start_abs x], rb_next_abs = ring_head_abs ring,
             rb_lapped = (cursor < ring_oldest_abs ring)\<rparr>"
  using assms read_raw_from_ok read_from_ok by (auto simp: ring_inv_def)

theorem read_raw_from_equals_read_from_witness:
  "\<exists>ring. ring_new 100 = (Ok ring :: (RingBuffer, RingError) outcome)
     \<and> read_raw_from ring 0 = Ok \<lparr>rb_records = [], rb_next_abs = 0, rb_lapped = False\<rparr>"
proof -
  from ring_new_inv [of 100] obtain ring where r: "ring_new 100 = (Ok ring :: (_, RingError) outcome)"
    "ring_inv ring []" by auto
  then have h: "ring_head_abs ring = 0" "ring_oldest_abs ring = 0" by (auto simp: ring_new_def)
  show ?thesis
    using read_raw_from_equals_read_from [OF r(2), of 0] r h by (simp add: cursor_ok_def u64_limit_def)
qed

text \<open>C33. Nothing is lost silently.  After any sequence of successful writes into a fresh ring, the
  written records split at some \<open>n\<close>: the first \<open>n\<close> are exactly the records in the producer's loss
  ranges, in order, and their number is the lost count; the rest are exactly what a raw read from
  offset 0 delivers, in order and unchanged up to the checksum flag.\<close>

theorem ring_history:
  assumes "ring_new cap = (Ok ring0 :: (RingBuffer, RingError) outcome)" and "list_all seq_not_max rs"
    and "write_all write_record ring0 rs = Ok ring" and "ring_head_abs ring < u64_limit"
  shows "\<exists>n batch. n \<le> length rs \<and> read_raw_from ring 0 = Ok batch
     \<and> map rr_record (rb_records batch) = map (\<lambda>r. normalise_flags r True) (drop n rs)
     \<and> expand_ranges (ring_producer_loss_ranges ring) = map record_key (take n rs)
     \<and> ring_lost_count ring = n"
proof -
  from ring_new_Ok [OF assms(1)] have inv0: "ring_inv ring0 []"
    and zero: "expand_ranges (ring_producer_loss_ranges ring0) = []" "ring_lost_count ring0 = 0"
    by simp_all
  have keys: "record_key (normalise_flags r True) = record_key r" for r by (simp add: record_key_def)
  from ring_log.write_all_accounts [OF inv0 assms(2,3)] obtain n es where
    n: "ring_inv ring es" "n \<le> length rs" "map rr_record es = map (\<lambda>r. normalise_flags r True) (drop n rs)"
      "expand_ranges (ring_producer_loss_ranges ring) = map record_key (take n rs)" "ring_lost_count ring = n"
    by (auto simp: zero drop_map take_map o_def keys)
  have "cursor_ok ring es 0" by (simp add: cursor_ok_def)
  with n assms(4) read_raw_from_ok [of ring es 0] read_from_ok [of ring es 0] show ?thesis
    by (auto simp: ring_inv_def)
qed

theorem ring_history_witness:
  "\<exists>ring0 ring n. ring_new 100 = (Ok ring0 :: (RingBuffer, RingError) outcome)
     \<and> write_all write_record ring0 [record_new 1 2 3 4 5] = Ok ring \<and> n \<le> 1
     \<and> expand_ranges (ring_producer_loss_ranges ring) = map record_key (take n [record_new 1 2 3 4 5])"
proof -
  from ring_new_inv [of 100] obtain ring where r: "ring_new 100 = (Ok ring :: (_, RingError) outcome)"
    "ring_inv ring []" "capacity ring = 100" by auto
  then have h: "ring_head_abs ring = 0" by (auto simp: ring_new_def)
  have "writable ring (record_new 1 2 3 4 5)"
    by (simp add: writable_def encodable_def record_len_def record_new_def r(3) next_entry_def place_def h u64_limit_def)
  from write_record_refines [OF r(2) this] obtain ring' where
    w: "write_record ring (record_new 1 2 3 4 5) = Ok (ring', 0, 44)" "ring_head_abs ring' = 44"
    by (auto simp: seq_not_max_def record_new_def u64_limit_def next_entry_def place_def h record_len_def r(3))
  then have "write_all write_record ring [record_new 1 2 3 4 5] = Ok ring'" by simp
  with ring_history [OF r(1) _ this] w(2) r(1) show ?thesis
    by (auto simp: seq_not_max_def record_new_def u64_limit_def)
qed

text \<open>Overwrites are detected whatever a concurrent producer does.  For every sequence of observations
  of the oldest offset: if the raw window read succeeds, each delivered record lay at or above the oldest
  offset observed after its bytes were decoded, and the final observation either is the initial one or
  does not exceed the cursor.\<close>

theorem read_raw_window_rechecked:
  assumes "read_raw_window ring cursor head first_oldest observe = Ok batch" and "0 < capacity ring"
  shows "(\<forall>i < length (rb_records batch). observe i \<le> rr_start_abs (rb_records batch ! i)
            \<and> first_oldest \<le> rr_start_abs (rb_records batch ! i)
            \<and> rr_start_abs (rb_records batch ! i) < head)
     \<and> (observe (length (rb_records batch)) = first_oldest \<or> observe (length (rb_records batch)) \<le> cursor)
     \<and> rb_next_abs batch = head"
proof -
  obtain recs calls where loop: "read_raw_loop (ring_bytes ring) head first_oldest observe 0
      (if cursor < first_oldest then first_oldest else cursor) [] = Ok (recs, calls)"
    and rest: "\<not> (observe calls \<noteq> first_oldest \<and> observe calls > cursor)"
      "batch = \<lparr>rb_records = recs, rb_next_abs = head, rb_lapped = (cursor < first_oldest)\<rparr>"
    using assms(1) by (auto simp: read_raw_window_def Let_def outcome_simps split: if_splits)
  from read_raw_loop_rechecked [OF loop] assms(2) rest show ?thesis
    by (auto simp: capacity_def)
qed

theorem read_raw_window_rechecked_witness:
  "\<exists>ring batch. ring_new 10 = (Ok ring :: (RingBuffer, RingError) outcome)
     \<and> read_raw_window ring 0 0 0 (\<lambda>_. 0) = Ok batch \<and> rb_next_abs batch = 0"
proof -
  from ring_new_inv [of 10] obtain ring where r: "ring_new 10 = (Ok ring :: (_, RingError) outcome)"
    "capacity ring = 10" by auto
  have "read_raw_window ring 0 0 0 (\<lambda>_. 0) = Ok \<lparr>rb_records = [], rb_next_abs = 0, rb_lapped = False\<rparr>"
    by (simp add: read_raw_window_def read_raw_loop.simps)
  with read_raw_window_rechecked [OF this] r show ?thesis by auto
qed

text \<open>A captured image reads like the live ring.  The byte pool and control fields of any valid ring
  are accepted by \<open>from_captured\<close>, and the raw reader on the captured view returns from every valid cursor
  what the live ring's index reader returns, although the view has no index.\<close>

theorem captured_reads_like_live:
  assumes "ring_inv ring rs" and "ring_head_abs ring < u64_limit" and "cursor_ok ring rs cursor"
  shows "\<exists>view. from_captured (ring_bytes ring) (ring_head_abs ring) (ring_oldest_abs ring)
       (ring_lost_count ring) = Ok view
     \<and> ring_index view = [] \<and> read_raw_from view cursor = read_from ring cursor"
proof -
  have "ring_oldest_abs ring \<le> ring_head_abs ring"
    "ring_head_abs ring \<le> ring_oldest_abs ring + length (ring_bytes ring)" "ring_bytes ring \<noteq> []"
    using assms(1) linked_le by (auto simp: ring_inv_def ring_holds_def capacity_def)
  moreover have "read_raw_from ring cursor = read_from ring cursor"
    using assms by (auto simp: ring_inv_def intro: read_raw_from_ok)
  moreover have "read_raw_from (ring\<lparr>ring_wraps := 0, ring_index := [], ring_producer_loss_ranges := []\<rparr>) cursor
      = read_raw_from ring cursor"
    by (rule read_raw_from_cong) simp_all
  ultimately show ?thesis
    by (cases ring) (simp add: from_captured_ok)
qed

theorem captured_reads_like_live_witness:
  "\<exists>ring view. ring_new 100 = (Ok ring :: (RingBuffer, RingError) outcome)
     \<and> from_captured (ring_bytes ring) 0 0 0 = Ok view \<and> read_raw_from view 0 = read_from ring 0"
proof -
  from ring_new_inv [of 100] obtain ring where r: "ring_new 100 = (Ok ring :: (_, RingError) outcome)"
    "ring_inv ring []" by auto
  then have h: "ring_head_abs ring = 0" "ring_oldest_abs ring = 0" "ring_lost_count ring = 0"
    by (auto simp: ring_new_def)
  show ?thesis
    using captured_reads_like_live [OF r(2), of 0] r h by (auto simp: cursor_ok_def u64_limit_def)
qed

text \<open>Reading an arbitrary captured image is safe: whatever the bytes, the cursor and the window
  that \<open>from_captured\<close> accepted, as long as the head is at least one capacity below \<open>2^64\<close>, the raw
  reader terminates without a panic.\<close>

theorem captured_read_no_panic:
  assumes "from_captured bytes head oldest lost = Ok view" and "head + length bytes \<le> u64_limit"
  shows "\<not> is_panic (read_raw_from view cursor)"
proof -
  have "0 < capacity view" "capacity view = length bytes" "ring_head_abs view = head"
    using assms(1) by (auto simp: from_captured_def Let_def capacity_def split: if_splits)
  with assms(2) show ?thesis
    by (simp add: read_raw_from_def read_raw_window_not_panic)
qed

theorem captured_read_no_panic_witness:
  "\<exists>view. from_captured [1, 2, 3] 3 0 0 = Ok view \<and> \<not> is_panic (read_raw_from view 0)"
proof -
  have "\<exists>view. from_captured [1, 2, 3] 3 0 0 = Ok view" by (simp add: from_captured_def)
  then obtain view where v: "from_captured [1, 2, 3] 3 0 0 = Ok view" by blast
  from captured_read_no_panic [OF v, of 0] v show ?thesis by (auto simp: u64_limit_def)
qed

end
