(* ===== verification/Registry.thy ===== *)
theory Registry
  imports Prelude
begin

text \<open>
  The canonical id registry of \<open>crates/carriage/src/registry.rs\<close>: event ids, field keys and TLV type
  tags as machine words, the event, field, type, unit and enum catalogues as lists in the order of the
  source, and the lookups over them.  The lemmas show that the catalogues are keyed without collision,
  that every lookup is complete, that every event lies in the id range of its group, and that core and
  vendor ids partition the id spaces.
\<close>

section \<open>Ids\<close>

named_theorems registry_ids \<open>the numeric value of every registry constant\<close>

definition SYSTEM_SOURCE_ID :: u32 where [registry_ids]: "SYSTEM_SOURCE_ID = 0"
definition EVENT_RANGE_BASE :: "u32 \<times> u32" where [registry_ids]: "EVENT_RANGE_BASE = (0x00000001, 0x000000FF)"
definition EVENT_RANGE_SYSTEM :: "u32 \<times> u32" where [registry_ids]: "EVENT_RANGE_SYSTEM = (0x00000100, 0x000001FF)"
definition EVENT_RANGE_CONDITION :: "u32 \<times> u32" where [registry_ids]: "EVENT_RANGE_CONDITION = (0x00000200, 0x000002FF)"
definition EVENT_RANGE_PROCEDURAL :: "u32 \<times> u32" where [registry_ids]: "EVENT_RANGE_PROCEDURAL = (0x00000300, 0x000003FF)"
definition EVENT_RANGE_REGULATED :: "u32 \<times> u32" where [registry_ids]: "EVENT_RANGE_REGULATED = (0x00000400, 0x000004FF)"
definition EVENT_RANGE_VENDOR :: "u32 \<times> u32" where [registry_ids]: "EVENT_RANGE_VENDOR = (0x80000000, 0xFFFFFFFF)"
definition EVENT_STATE_TRANSITION :: u32 where [registry_ids]: "EVENT_STATE_TRANSITION = 0x0001"
definition EVENT_VALUE_CHANGED :: u32 where [registry_ids]: "EVENT_VALUE_CHANGED = 0x0002"
definition EVENT_MESSAGE :: u32 where [registry_ids]: "EVENT_MESSAGE = 0x0003"
definition EVENT_HEARTBEAT :: u32 where [registry_ids]: "EVENT_HEARTBEAT = 0x0100"
definition EVENT_LOGGER_STARTED :: u32 where [registry_ids]: "EVENT_LOGGER_STARTED = 0x0101"
definition EVENT_LOGGER_STOPPED :: u32 where [registry_ids]: "EVENT_LOGGER_STOPPED = 0x0102"
definition EVENT_BUFFER_CLEARED :: u32 where [registry_ids]: "EVENT_BUFFER_CLEARED = 0x0103"
definition EVENT_RECORDS_DROPPED :: u32 where [registry_ids]: "EVENT_RECORDS_DROPPED = 0x0104"
definition EVENT_SOURCE_REGISTERED :: u32 where [registry_ids]: "EVENT_SOURCE_REGISTERED = 0x0105"
definition EVENT_DEFINITION_CHANGED :: u32 where [registry_ids]: "EVENT_DEFINITION_CHANGED = 0x0106"
definition EVENT_TIME_SYNC_CHANGED :: u32 where [registry_ids]: "EVENT_TIME_SYNC_CHANGED = 0x0107"
definition EVENT_SOURCE_HIGH_WATER :: u32 where [registry_ids]: "EVENT_SOURCE_HIGH_WATER = 0x0108"
definition EVENT_CONDITION_ACTIVE :: u32 where [registry_ids]: "EVENT_CONDITION_ACTIVE = 0x0200"
definition EVENT_CONDITION_CLEARED :: u32 where [registry_ids]: "EVENT_CONDITION_CLEARED = 0x0201"
definition EVENT_CONDITION_ACKNOWLEDGED :: u32 where [registry_ids]: "EVENT_CONDITION_ACKNOWLEDGED = 0x0202"
definition EVENT_CONDITION_CONFIRMED :: u32 where [registry_ids]: "EVENT_CONDITION_CONFIRMED = 0x0203"
definition EVENT_CONDITION_SHELVED :: u32 where [registry_ids]: "EVENT_CONDITION_SHELVED = 0x0204"
definition EVENT_CONDITION_UNSHELVED :: u32 where [registry_ids]: "EVENT_CONDITION_UNSHELVED = 0x0205"
definition EVENT_CONDITION_SUPPRESSED :: u32 where [registry_ids]: "EVENT_CONDITION_SUPPRESSED = 0x0206"
definition EVENT_CONDITION_UNSUPPRESSED :: u32 where [registry_ids]: "EVENT_CONDITION_UNSUPPRESSED = 0x0207"
definition EVENT_CONDITION_OUT_OF_SERVICE :: u32 where [registry_ids]: "EVENT_CONDITION_OUT_OF_SERVICE = 0x0208"
definition EVENT_CONDITION_IN_SERVICE :: u32 where [registry_ids]: "EVENT_CONDITION_IN_SERVICE = 0x0209"
definition EVENT_CONDITION_COMMENTED :: u32 where [registry_ids]: "EVENT_CONDITION_COMMENTED = 0x020A"
definition EVENT_CONDITION_RESET :: u32 where [registry_ids]: "EVENT_CONDITION_RESET = 0x020B"
definition EVENT_CONDITION_PRIORITY_CHANGED :: u32 where [registry_ids]: "EVENT_CONDITION_PRIORITY_CHANGED = 0x020C"
definition EVENT_REFRESH_START :: u32 where [registry_ids]: "EVENT_REFRESH_START = 0x020D"
definition EVENT_REFRESH_END :: u32 where [registry_ids]: "EVENT_REFRESH_END = 0x020E"
definition EVENT_RECIPE_LOADED :: u32 where [registry_ids]: "EVENT_RECIPE_LOADED = 0x0301"
definition EVENT_RECIPE_APPROVED :: u32 where [registry_ids]: "EVENT_RECIPE_APPROVED = 0x0302"
definition EVENT_BATCH_EVENT :: u32 where [registry_ids]: "EVENT_BATCH_EVENT = 0x0303"
definition EVENT_MATERIAL_ADDITION :: u32 where [registry_ids]: "EVENT_MATERIAL_ADDITION = 0x0304"
definition EVENT_OPERATOR_ACTION :: u32 where [registry_ids]: "EVENT_OPERATOR_ACTION = 0x0400"
definition EVENT_OPERATOR_LOGIN :: u32 where [registry_ids]: "EVENT_OPERATOR_LOGIN = 0x0401"
definition EVENT_OPERATOR_LOGOUT :: u32 where [registry_ids]: "EVENT_OPERATOR_LOGOUT = 0x0402"
definition EVENT_PARAMETER_CHANGE :: u32 where [registry_ids]: "EVENT_PARAMETER_CHANGE = 0x0403"
definition EVENT_ESIGNATURE :: u32 where [registry_ids]: "EVENT_ESIGNATURE = 0x0404"
definition EVENT_SECURITY_ACCESS_FAILURE :: u32 where [registry_ids]: "EVENT_SECURITY_ACCESS_FAILURE = 0x0405"
definition EVENT_PROGRAM_DOWNLOAD :: u32 where [registry_ids]: "EVENT_PROGRAM_DOWNLOAD = 0x0406"
definition KEY_STATE_MACHINE_ID :: u16 where [registry_ids]: "KEY_STATE_MACHINE_ID = 0x0001"
definition KEY_CATEGORY :: u16 where [registry_ids]: "KEY_CATEGORY = 0x0002"
definition KEY_PREVIOUS_STATE :: u16 where [registry_ids]: "KEY_PREVIOUS_STATE = 0x0003"
definition KEY_NEW_STATE :: u16 where [registry_ids]: "KEY_NEW_STATE = 0x0004"
definition KEY_CONDITION_ID :: u16 where [registry_ids]: "KEY_CONDITION_ID = 0x0005"
definition KEY_CONDITION_CLASS :: u16 where [registry_ids]: "KEY_CONDITION_CLASS = 0x0006"
definition KEY_CORRELATION_ID :: u16 where [registry_ids]: "KEY_CORRELATION_ID = 0x0007"
definition KEY_SEVERITY :: u16 where [registry_ids]: "KEY_SEVERITY = 0x0008"
definition KEY_CAUSE_OPERAND :: u16 where [registry_ids]: "KEY_CAUSE_OPERAND = 0x0009"
definition KEY_ACTION_ID :: u16 where [registry_ids]: "KEY_ACTION_ID = 0x000A"
definition KEY_ACTOR :: u16 where [registry_ids]: "KEY_ACTOR = 0x000B"
definition KEY_CONTEXT_REF :: u16 where [registry_ids]: "KEY_CONTEXT_REF = 0x000C"
definition KEY_VALUE_ID :: u16 where [registry_ids]: "KEY_VALUE_ID = 0x000D"
definition KEY_DATA_TYPE_RESERVED :: u16 where [registry_ids]: "KEY_DATA_TYPE_RESERVED = 0x000E"
definition KEY_PREVIOUS_VALUE :: u16 where [registry_ids]: "KEY_PREVIOUS_VALUE = 0x000F"
definition KEY_NEW_VALUE :: u16 where [registry_ids]: "KEY_NEW_VALUE = 0x0010"
definition KEY_QUALITY :: u16 where [registry_ids]: "KEY_QUALITY = 0x0011"
definition KEY_SEMANTIC_ROLE :: u16 where [registry_ids]: "KEY_SEMANTIC_ROLE = 0x0012"
definition KEY_UNIT :: u16 where [registry_ids]: "KEY_UNIT = 0x0013"
definition KEY_MESSAGE_TEMPLATE_ID :: u16 where [registry_ids]: "KEY_MESSAGE_TEMPLATE_ID = 0x0014"
definition KEY_ARG :: u16 where [registry_ids]: "KEY_ARG = 0x0015"
definition KEY_COUNT :: u16 where [registry_ids]: "KEY_COUNT = 0x0016"
definition KEY_DROPPED_COUNT :: u16 where [registry_ids]: "KEY_DROPPED_COUNT = KEY_COUNT"
definition KEY_FIRST_LOST_SEQ :: u16 where [registry_ids]: "KEY_FIRST_LOST_SEQ = 0x0017"
definition KEY_LAST_LOST_SEQ :: u16 where [registry_ids]: "KEY_LAST_LOST_SEQ = 0x0018"
definition KEY_WINDOW_START :: u16 where [registry_ids]: "KEY_WINDOW_START = 0x0019"
definition KEY_WINDOW_END :: u16 where [registry_ids]: "KEY_WINDOW_END = 0x001A"
definition KEY_SOURCE_PATH :: u16 where [registry_ids]: "KEY_SOURCE_PATH = 0x001B"
definition KEY_DEF_HASH_NEW :: u16 where [registry_ids]: "KEY_DEF_HASH_NEW = 0x001C"
definition KEY_ACK_BY :: u16 where [registry_ids]: "KEY_ACK_BY = 0x001D"
definition KEY_SHELVE_SECS :: u16 where [registry_ids]: "KEY_SHELVE_SECS = 0x001E"
definition KEY_REASON :: u16 where [registry_ids]: "KEY_REASON = 0x001F"
definition KEY_AUTH_RESULT :: u16 where [registry_ids]: "KEY_AUTH_RESULT = 0x0020"
definition KEY_WORKSTATION :: u16 where [registry_ids]: "KEY_WORKSTATION = 0x0021"
definition KEY_SIGNATURE_MEANING :: u16 where [registry_ids]: "KEY_SIGNATURE_MEANING = 0x0022"
definition KEY_RECIPE_ID :: u16 where [registry_ids]: "KEY_RECIPE_ID = 0x0023"
definition KEY_RECIPE_VERSION :: u16 where [registry_ids]: "KEY_RECIPE_VERSION = 0x0024"
definition KEY_BATCH_ID :: u16 where [registry_ids]: "KEY_BATCH_ID = 0x0025"
definition KEY_MATERIAL_ID :: u16 where [registry_ids]: "KEY_MATERIAL_ID = 0x0026"
definition KEY_QUANTITY :: u16 where [registry_ids]: "KEY_QUANTITY = 0x0027"
definition KEY_PROGRAM_ID :: u16 where [registry_ids]: "KEY_PROGRAM_ID = 0x0028"
definition KEY_REGISTERED_SOURCE_ID :: u16 where [registry_ids]: "KEY_REGISTERED_SOURCE_ID = 0x0029"
definition KEY_INTERVAL_MS :: u16 where [registry_ids]: "KEY_INTERVAL_MS = 0x002A"
definition KEY_SEQ_BASE :: u16 where [registry_ids]: "KEY_SEQ_BASE = 0x002B"
definition KEY_NEW_PRIORITY :: u16 where [registry_ids]: "KEY_NEW_PRIORITY = 0x002C"
definition KEY_RESERVED_002D :: u16 where [registry_ids]: "KEY_RESERVED_002D = 0x002D"
definition KEY_PREVIOUS_PRIORITY :: u16 where [registry_ids]: "KEY_PREVIOUS_PRIORITY = 0x002E"
definition KEY_SIGNED_EVENT_SEQ :: u16 where [registry_ids]: "KEY_SIGNED_EVENT_SEQ = 0x002F"
definition KEY_EFFECTIVE_TIME :: u16 where [registry_ids]: "KEY_EFFECTIVE_TIME = 0x0030"
definition KEY_CORRECTION_OF :: u16 where [registry_ids]: "KEY_CORRECTION_OF = 0x0031"
definition KEY_CLOCK_QUALITY :: u16 where [registry_ids]: "KEY_CLOCK_QUALITY = 0x0032"
definition KEY_ROLE :: u16 where [registry_ids]: "KEY_ROLE = 0x0033"
definition KEY_REFRESH_ID :: u16 where [registry_ids]: "KEY_REFRESH_ID = 0x0034"
definition KEY_GROUP_ID :: u16 where [registry_ids]: "KEY_GROUP_ID = 0x0035"
definition KEY_FIRST_IN_GROUP :: u16 where [registry_ids]: "KEY_FIRST_IN_GROUP = 0x0036"
definition KEY_COMMENT :: u16 where [registry_ids]: "KEY_COMMENT = 0x0037"
definition KEY_PRODUCED_COUNT :: u16 where [registry_ids]: "KEY_PRODUCED_COUNT = 0x0038"
definition KEY_SOURCE_HIGH_WATER :: u16 where [registry_ids]: "KEY_SOURCE_HIGH_WATER = KEY_PRODUCED_COUNT"
definition KEY_DEF_HASH_OLD :: u16 where [registry_ids]: "KEY_DEF_HASH_OLD = 0x0039"
definition KEY_EPOCH_ID :: u16 where [registry_ids]: "KEY_EPOCH_ID = 0x003A"
definition KEY_COLD_START :: u16 where [registry_ids]: "KEY_COLD_START = 0x003B"
definition TY_BOOL :: u8 where [registry_ids]: "TY_BOOL = 0x00"
definition TY_SINT :: u8 where [registry_ids]: "TY_SINT = 0x01"
definition TY_USINT :: u8 where [registry_ids]: "TY_USINT = 0x02"
definition TY_UINT :: u8 where [registry_ids]: "TY_UINT = 0x03"
definition TY_INT :: u8 where [registry_ids]: "TY_INT = 0x04"
definition TY_UDINT :: u8 where [registry_ids]: "TY_UDINT = 0x05"
definition TY_DINT :: u8 where [registry_ids]: "TY_DINT = 0x06"
definition TY_ULINT :: u8 where [registry_ids]: "TY_ULINT = 0x07"
definition TY_LINT :: u8 where [registry_ids]: "TY_LINT = 0x08"
definition TY_REAL :: u8 where [registry_ids]: "TY_REAL = 0x09"
definition TY_LREAL :: u8 where [registry_ids]: "TY_LREAL = 0x0A"
definition TY_DATE_TIME :: u8 where [registry_ids]: "TY_DATE_TIME = 0x0B"
definition TY_STRING :: u8 where [registry_ids]: "TY_STRING = 0x0C"
definition TY_BYTES :: u8 where [registry_ids]: "TY_BYTES = 0x0D"

section \<open>Catalogue entries\<close>

datatype EventGroup = Base | System | Condition | Procedural | Regulated

record EventSpec =
  es_id :: u32
  es_name :: string
  es_group :: EventGroup

datatype FieldKind =
    Fixed u8
  | ValuePayload
  | Reserved

record FieldSpec =
  fs_key :: u16
  fs_name :: string
  fs_kind :: FieldKind
  fs_repeatable :: bool

record TlvTypeSpec =
  ts_code :: u8
  ts_name :: string
  ts_fixed_width :: "nat option"

record UnitSpec =
  us_unit_id :: u16
  us_symbol :: string
  us_name :: string

record EnumValue =
  ev_value :: u16
  ev_label :: string

datatype SeverityBand = Low | Medium | High

record ProceduralModelSpec =
  pm_name :: string
  pm_states :: "EnumValue list"

definition field :: "u16 \<Rightarrow> string \<Rightarrow> FieldKind \<Rightarrow> bool \<Rightarrow> FieldSpec" where
  "field key name kind repeatable =
     \<lparr>fs_key = key, fs_name = name, fs_kind = kind, fs_repeatable = repeatable\<rparr>"

definition ty :: "u8 \<Rightarrow> string \<Rightarrow> nat option \<Rightarrow> TlvTypeSpec" where
  "ty code name fixed_width = \<lparr>ts_code = code, ts_name = name, ts_fixed_width = fixed_width\<rparr>"

definition unit :: "u16 \<Rightarrow> string \<Rightarrow> string \<Rightarrow> UnitSpec" where
  "unit unit_id symbol name = \<lparr>us_unit_id = unit_id, us_symbol = symbol, us_name = name\<rparr>"

definition ev :: "u16 \<Rightarrow> string \<Rightarrow> EnumValue" where
  "ev value label = \<lparr>ev_value = value, ev_label = label\<rparr>"

section \<open>Catalogues\<close>

definition event_entry :: "u32 \<Rightarrow> string \<Rightarrow> EventGroup \<Rightarrow> EventSpec" where
  "event_entry i name grp = \<lparr>es_id = i, es_name = name, es_group = grp\<rparr>"

definition EVENT_SPECS_Base :: "EventSpec list" where
  "EVENT_SPECS_Base =
     [event_entry EVENT_STATE_TRANSITION ''StateTransition'' Base,
      event_entry EVENT_VALUE_CHANGED ''ValueChanged'' Base,
      event_entry EVENT_MESSAGE ''Message'' Base]"

definition EVENT_SPECS_System :: "EventSpec list" where
  "EVENT_SPECS_System =
     [event_entry EVENT_HEARTBEAT ''Heartbeat'' System,
      event_entry EVENT_LOGGER_STARTED ''LoggerStarted'' System,
      event_entry EVENT_LOGGER_STOPPED ''LoggerStopped'' System,
      event_entry EVENT_BUFFER_CLEARED ''BufferCleared'' System,
      event_entry EVENT_RECORDS_DROPPED ''RecordsDropped'' System,
      event_entry EVENT_SOURCE_REGISTERED ''SourceRegistered'' System,
      event_entry EVENT_DEFINITION_CHANGED ''DefinitionChanged'' System,
      event_entry EVENT_TIME_SYNC_CHANGED ''TimeSyncChanged'' System,
      event_entry EVENT_SOURCE_HIGH_WATER ''SourceHighWater'' System]"

definition EVENT_SPECS_Condition :: "EventSpec list" where
  "EVENT_SPECS_Condition =
     [event_entry EVENT_CONDITION_ACTIVE ''ConditionActive'' Condition,
      event_entry EVENT_CONDITION_CLEARED ''ConditionCleared'' Condition,
      event_entry EVENT_CONDITION_ACKNOWLEDGED ''ConditionAcknowledged'' Condition,
      event_entry EVENT_CONDITION_CONFIRMED ''ConditionConfirmed'' Condition,
      event_entry EVENT_CONDITION_SHELVED ''ConditionShelved'' Condition,
      event_entry EVENT_CONDITION_UNSHELVED ''ConditionUnshelved'' Condition,
      event_entry EVENT_CONDITION_SUPPRESSED ''ConditionSuppressed'' Condition,
      event_entry EVENT_CONDITION_UNSUPPRESSED ''ConditionUnsuppressed'' Condition,
      event_entry EVENT_CONDITION_OUT_OF_SERVICE ''ConditionOutOfService'' Condition,
      event_entry EVENT_CONDITION_IN_SERVICE ''ConditionInService'' Condition,
      event_entry EVENT_CONDITION_COMMENTED ''ConditionCommented'' Condition,
      event_entry EVENT_CONDITION_RESET ''ConditionReset'' Condition,
      event_entry EVENT_CONDITION_PRIORITY_CHANGED ''ConditionPriorityChanged'' Condition,
      event_entry EVENT_REFRESH_START ''RefreshStart'' Condition,
      event_entry EVENT_REFRESH_END ''RefreshEnd'' Condition]"

definition EVENT_SPECS_Procedural :: "EventSpec list" where
  "EVENT_SPECS_Procedural =
     [event_entry EVENT_RECIPE_LOADED ''RecipeLoaded'' Procedural,
      event_entry EVENT_RECIPE_APPROVED ''RecipeApproved'' Procedural,
      event_entry EVENT_BATCH_EVENT ''BatchEvent'' Procedural,
      event_entry EVENT_MATERIAL_ADDITION ''MaterialAddition'' Procedural]"

definition EVENT_SPECS_Regulated :: "EventSpec list" where
  "EVENT_SPECS_Regulated =
     [event_entry EVENT_OPERATOR_ACTION ''OperatorAction'' Regulated,
      event_entry EVENT_OPERATOR_LOGIN ''OperatorLogin'' Regulated,
      event_entry EVENT_OPERATOR_LOGOUT ''OperatorLogout'' Regulated,
      event_entry EVENT_PARAMETER_CHANGE ''ParameterChange'' Regulated,
      event_entry EVENT_ESIGNATURE ''ESignature'' Regulated,
      event_entry EVENT_SECURITY_ACCESS_FAILURE ''SecurityAccessFailure'' Regulated,
      event_entry EVENT_PROGRAM_DOWNLOAD ''ProgramDownload'' Regulated]"

definition EVENT_SPECS :: "EventSpec list" where
  "EVENT_SPECS =
     EVENT_SPECS_Base @ EVENT_SPECS_System @ EVENT_SPECS_Condition @ EVENT_SPECS_Procedural @ EVENT_SPECS_Regulated"

definition FIELD_SPECS_LOW :: "FieldSpec list" where
  "FIELD_SPECS_LOW =
     [field KEY_STATE_MACHINE_ID ''stateMachineId'' (Fixed TY_UDINT) False,
      field KEY_CATEGORY ''category'' (Fixed TY_UINT) False,
      field KEY_PREVIOUS_STATE ''previousState'' (Fixed TY_UINT) False,
      field KEY_NEW_STATE ''newState'' (Fixed TY_UINT) False,
      field KEY_CONDITION_ID ''conditionId'' (Fixed TY_UDINT) False,
      field KEY_CONDITION_CLASS ''conditionClass'' (Fixed TY_UINT) False,
      field KEY_CORRELATION_ID ''correlationId'' (Fixed TY_UDINT) False,
      field KEY_SEVERITY ''severity'' (Fixed TY_UINT) False,
      field KEY_CAUSE_OPERAND ''causeOperand'' (Fixed TY_UDINT) True,
      field KEY_ACTION_ID ''actionId'' (Fixed TY_UDINT) False,
      field KEY_ACTOR ''actor'' (Fixed TY_STRING) False,
      field KEY_CONTEXT_REF ''contextRef'' (Fixed TY_UDINT) True,
      field KEY_VALUE_ID ''valueId'' (Fixed TY_UDINT) False,
      field KEY_DATA_TYPE_RESERVED ''dataType'' Reserved False,
      field KEY_PREVIOUS_VALUE ''previousValue'' ValuePayload False,
      field KEY_NEW_VALUE ''newValue'' ValuePayload False,
      field KEY_QUALITY ''quality'' (Fixed TY_UINT) False,
      field KEY_SEMANTIC_ROLE ''semanticRole'' (Fixed TY_UINT) False,
      field KEY_UNIT ''unit'' (Fixed TY_UINT) False,
      field KEY_MESSAGE_TEMPLATE_ID ''messageTemplateId'' (Fixed TY_UDINT) False,
      field KEY_ARG ''arg'' ValuePayload True,
      field KEY_COUNT ''count'' (Fixed TY_UDINT) False,
      field KEY_FIRST_LOST_SEQ ''firstLostSeq'' (Fixed TY_ULINT) False,
      field KEY_LAST_LOST_SEQ ''lastLostSeq'' (Fixed TY_ULINT) False,
      field KEY_WINDOW_START ''windowStart'' (Fixed TY_DATE_TIME) False,
      field KEY_WINDOW_END ''windowEnd'' (Fixed TY_DATE_TIME) False,
      field KEY_SOURCE_PATH ''sourcePath'' (Fixed TY_STRING) False,
      field KEY_DEF_HASH_NEW ''defHashNew'' (Fixed TY_BYTES) False,
      field KEY_ACK_BY ''ackBy'' (Fixed TY_STRING) False]"

definition FIELD_SPECS_HIGH :: "FieldSpec list" where
  "FIELD_SPECS_HIGH =
     [field KEY_SHELVE_SECS ''shelveSecs'' (Fixed TY_UDINT) False,
      field KEY_REASON ''reason'' (Fixed TY_STRING) False,
      field KEY_AUTH_RESULT ''authResult'' (Fixed TY_UINT) False,
      field KEY_WORKSTATION ''workstation'' (Fixed TY_STRING) False,
      field KEY_SIGNATURE_MEANING ''signatureMeaning'' (Fixed TY_UINT) False,
      field KEY_RECIPE_ID ''recipeId'' (Fixed TY_UDINT) False,
      field KEY_RECIPE_VERSION ''recipeVersion'' (Fixed TY_STRING) False,
      field KEY_BATCH_ID ''batchId'' (Fixed TY_UDINT) False,
      field KEY_MATERIAL_ID ''materialId'' (Fixed TY_UDINT) False,
      field KEY_QUANTITY ''quantity'' (Fixed TY_LREAL) False,
      field KEY_PROGRAM_ID ''programId'' (Fixed TY_UDINT) False,
      field KEY_REGISTERED_SOURCE_ID ''registeredSourceId'' (Fixed TY_UDINT) False,
      field KEY_INTERVAL_MS ''intervalMs'' (Fixed TY_UDINT) False,
      field KEY_SEQ_BASE ''seqBase'' (Fixed TY_ULINT) False,
      field KEY_NEW_PRIORITY ''newPriority'' (Fixed TY_UINT) False,
      field KEY_RESERVED_002D ''reserved002D'' Reserved False,
      field KEY_PREVIOUS_PRIORITY ''previousPriority'' (Fixed TY_UINT) False,
      field KEY_SIGNED_EVENT_SEQ ''signedEventSeq'' (Fixed TY_ULINT) False,
      field KEY_EFFECTIVE_TIME ''effectiveTime'' (Fixed TY_DATE_TIME) False,
      field KEY_CORRECTION_OF ''correctionOf'' (Fixed TY_ULINT) False,
      field KEY_CLOCK_QUALITY ''clockQuality'' (Fixed TY_UINT) False,
      field KEY_ROLE ''role'' (Fixed TY_UINT) False,
      field KEY_REFRESH_ID ''refreshId'' (Fixed TY_UDINT) False,
      field KEY_GROUP_ID ''groupId'' (Fixed TY_UDINT) False,
      field KEY_FIRST_IN_GROUP ''firstInGroup'' (Fixed TY_BOOL) False,
      field KEY_COMMENT ''comment'' (Fixed TY_STRING) False,
      field KEY_PRODUCED_COUNT ''producedCount'' (Fixed TY_ULINT) False,
      field KEY_DEF_HASH_OLD ''defHashOld'' (Fixed TY_BYTES) False,
      field KEY_EPOCH_ID ''epochId'' (Fixed TY_ULINT) False,
      field KEY_COLD_START ''coldStart'' (Fixed TY_BOOL) False]"

definition FIELD_SPECS :: "FieldSpec list" where
  "FIELD_SPECS = FIELD_SPECS_LOW @ FIELD_SPECS_HIGH"

definition TLV_TYPE_SPECS :: "TlvTypeSpec list" where
  "TLV_TYPE_SPECS =
     [ty TY_BOOL ''Bool'' (Some 1),
      ty TY_SINT ''SInt'' (Some 1),
      ty TY_USINT ''USInt'' (Some 1),
      ty TY_UINT ''UInt'' (Some 2),
      ty TY_INT ''Int'' (Some 2),
      ty TY_UDINT ''UDInt'' (Some 4),
      ty TY_DINT ''DInt'' (Some 4),
      ty TY_ULINT ''ULInt'' (Some 8),
      ty TY_LINT ''LInt'' (Some 8),
      ty TY_REAL ''Real'' (Some 4),
      ty TY_LREAL ''LReal'' (Some 8),
      ty TY_DATE_TIME ''DateTime'' (Some 8),
      ty TY_STRING ''String'' None,
      ty TY_BYTES ''Bytes'' None]"

definition UNIT_SPECS :: "UnitSpec list" where
  "UNIT_SPECS =
     [unit 1 ''1'' ''count'',
      unit 2 ''L'' ''litre'',
      unit 3 ''degC'' ''degree Celsius'',
      unit 4 ''bar'' ''bar'',
      unit 5 ''rpm'' ''revolutions per minute'',
      unit 6 ''s'' ''second'',
      unit 7 ''ms'' ''millisecond'',
      unit 8 ''kg'' ''kilogram'',
      unit 9 ''m'' ''metre'',
      unit 10 ''%'' ''percent'']"

definition CATEGORY_VALUES :: "EnumValue list" where
  "CATEGORY_VALUES =
     [ev 0 ''ProcessState'', ev 1 ''Mode'', ev 2 ''Procedural'']"

definition CONDITION_CLASS_VALUES :: "EnumValue list" where
  "CONDITION_CLASS_VALUES =
     [ev 0 ''Alarm'', ev 1 ''Interlock'']"

definition QUALITY_VALUES :: "EnumValue list" where
  "QUALITY_VALUES =
     [ev 0 ''Good'', ev 1 ''Uncertain'', ev 2 ''Bad'', ev 3 ''Unknown'']"

definition AUTH_RESULT_VALUES :: "EnumValue list" where
  "AUTH_RESULT_VALUES =
     [ev 0 ''Granted'', ev 1 ''Denied'', ev 2 ''NotRequired'', ev 3 ''Pending'', ev 4 ''Expired'']"

definition SEMANTIC_ROLE_VALUES :: "EnumValue list" where
  "SEMANTIC_ROLE_VALUES =
     [ev 0 ''Actual'', ev 1 ''Setpoint'', ev 2 ''Command'', ev 3 ''Count'', ev 4 ''Position'', ev 5 ''Status'']"

definition SIGNATURE_MEANING_VALUES :: "EnumValue list" where
  "SIGNATURE_MEANING_VALUES =
     [ev 0 ''Authored'', ev 1 ''Reviewed'', ev 2 ''Approved'', ev 3 ''Verified'', ev 4 ''Performed'', ev 5 ''Witnessed'']"

definition CLOCK_QUALITY_VALUES :: "EnumValue list" where
  "CLOCK_QUALITY_VALUES =
     [ev 0 ''Unknown'', ev 1 ''FreeRunning'', ev 2 ''Synced'', ev 3 ''Holdover'']"

definition TIME_SYNC_STATE_VALUES :: "EnumValue list" where
  "TIME_SYNC_STATE_VALUES =
     [ev 0 ''Unsynced'', ev 1 ''Synced'', ev 2 ''SteppedForward'', ev 3 ''SteppedBackward'']"

definition BATCH_STATE_VALUES :: "EnumValue list" where
  "BATCH_STATE_VALUES =
     [ev 0 ''Started'', ev 1 ''Completed'', ev 2 ''Held'', ev 3 ''Resumed'', ev 4 ''Aborted'', ev 5 ''Paused'']"

definition PROCEDURAL_MODEL_A_STATES :: "EnumValue list" where
  "PROCEDURAL_MODEL_A_STATES =
     [ev 0 ''Idle'', ev 1 ''Running'', ev 2 ''Complete'', ev 3 ''Pausing'', ev 4 ''Paused'', ev 5 ''Holding'', ev 6 ''Held'', ev 7 ''Restarting'', ev 8 ''Stopping'', ev 9 ''Stopped'', ev 10 ''Aborting'', ev 11 ''Aborted'']"

definition PROCEDURAL_MODEL_B_STATES :: "EnumValue list" where
  "PROCEDURAL_MODEL_B_STATES =
     [ev 0 ''Idle'', ev 1 ''Starting'', ev 2 ''Execute'', ev 3 ''Completing'', ev 4 ''Complete'', ev 5 ''Holding'', ev 6 ''Held'', ev 7 ''Unholding'', ev 8 ''Suspending'', ev 9 ''Suspended'', ev 10 ''Unsuspending'', ev 11 ''Stopping'', ev 12 ''Stopped'', ev 13 ''Aborting'', ev 14 ''Aborted'', ev 15 ''Clearing'', ev 16 ''Resetting'']"

definition PROCEDURAL_MODELS :: "ProceduralModelSpec list" where
  "PROCEDURAL_MODELS =
     [\<lparr>pm_name = ''ISA-88'', pm_states = PROCEDURAL_MODEL_A_STATES\<rparr>,
      \<lparr>pm_name = ''PackML'', pm_states = PROCEDURAL_MODEL_B_STATES\<rparr>]"

section \<open>Lookups and classification\<close>

definition event_spec :: "u32 \<Rightarrow> EventSpec option" where
  "event_spec i = find (\<lambda>spec. es_id spec = i) EVENT_SPECS"

definition field_spec :: "u16 \<Rightarrow> FieldSpec option" where
  "field_spec key = find (\<lambda>spec. fs_key spec = key) FIELD_SPECS"

definition tlv_type_spec :: "u8 \<Rightarrow> TlvTypeSpec option" where
  "tlv_type_spec code = find (\<lambda>spec. ts_code spec = code) TLV_TYPE_SPECS"

text \<open>\<open>to_ascii_lowercase\<close> of the standard library on one ASCII character: the capital letters are
  the codes 65 to 90.\<close>

definition ascii_lower :: "char \<Rightarrow> char" where
  "ascii_lower c = (let n = (of_char c :: nat) in if 65 \<le> n \<and> n \<le> 90 then char_of (n + 32) else c)"

definition eq_ignore_ascii_case :: "string \<Rightarrow> string \<Rightarrow> bool" where
  "eq_ignore_ascii_case a b \<longleftrightarrow> map ascii_lower a = map ascii_lower b"

definition unit_spec_by_symbol :: "string \<Rightarrow> UnitSpec option" where
  "unit_spec_by_symbol symbol = find (\<lambda>spec. eq_ignore_ascii_case (us_symbol spec) symbol) UNIT_SPECS"

definition unit_spec :: "u16 \<Rightarrow> UnitSpec option" where
  "unit_spec unit_id = find (\<lambda>spec. us_unit_id spec = unit_id) UNIT_SPECS"

definition is_core_event_id :: "u32 \<Rightarrow> bool" where
  "is_core_event_id i \<longleftrightarrow> i AND 0x80000000 = 0"

definition is_vendor_event_id :: "u32 \<Rightarrow> bool" where
  "is_vendor_event_id i \<longleftrightarrow> fst EVENT_RANGE_VENDOR \<le> i \<and> i \<le> snd EVENT_RANGE_VENDOR"

definition is_core_key :: "u16 \<Rightarrow> bool" where
  "is_core_key key \<longleftrightarrow> 0x0001 \<le> key \<and> key \<le> 0x7FFF"

definition is_vendor_key :: "u16 \<Rightarrow> bool" where
  "is_vendor_key key \<longleftrightarrow> key \<ge> 0x8000"

definition severity_band :: "u16 \<Rightarrow> SeverityBand option" where
  "severity_band severity =
     (if 1 \<le> severity \<and> severity \<le> 332 then Some Low
      else if 333 \<le> severity \<and> severity \<le> 666 then Some Medium
      else if 667 \<le> severity \<and> severity \<le> 1000 then Some High
      else None)"

lemmas event_catalogue = EVENT_SPECS_def EVENT_SPECS_Base_def EVENT_SPECS_System_def EVENT_SPECS_Condition_def EVENT_SPECS_Procedural_def EVENT_SPECS_Regulated_def event_entry_def
lemmas field_catalogue = FIELD_SPECS_def FIELD_SPECS_LOW_def FIELD_SPECS_HIGH_def field_def
lemmas type_catalogue = TLV_TYPE_SPECS_def ty_def

section \<open>The catalogues are keyed\<close>

lemma find_complete:
  assumes "distinct (map k xs)"
  shows "find (\<lambda>x. k x = i) xs = Some x \<longleftrightarrow> x \<in> set xs \<and> k x = i"
  using assms by (induction xs) (auto simp: image_iff)

definition group_range :: "EventGroup \<Rightarrow> u32 \<times> u32" where
  "group_range g = (case g of Base \<Rightarrow> EVENT_RANGE_BASE | System \<Rightarrow> EVENT_RANGE_SYSTEM
     | Condition \<Rightarrow> EVENT_RANGE_CONDITION | Procedural \<Rightarrow> EVENT_RANGE_PROCEDURAL
     | Regulated \<Rightarrow> EVENT_RANGE_REGULATED)"

lemma distinct_event_ids: "distinct (map es_id EVENT_SPECS)"
  by (simp add: event_catalogue registry_ids)

lemma distinct_field_keys: "distinct (map fs_key FIELD_SPECS)"
  by (simp add: field_catalogue registry_ids)

lemma distinct_type_codes: "distinct (map ts_code TLV_TYPE_SPECS)"
  by (simp add: type_catalogue registry_ids)

lemma event_groups:
  "list_all (\<lambda>s. fst (group_range (es_group s)) \<le> es_id s \<and> es_id s \<le> snd (group_range (es_group s))) EVENT_SPECS"
  by (simp add: event_catalogue registry_ids group_range_def)

lemma field_tags:
  "list_all (\<lambda>s. is_core_key (fs_key s) \<and> (case fs_kind s of Fixed t \<Rightarrow> tlv_type_spec t \<noteq> None | _ \<Rightarrow> True)) FIELD_SPECS"
  by (simp add: field_catalogue registry_ids is_core_key_def tlv_type_spec_def type_catalogue)

lemma high_bit_iff: "bit (i :: u32) 31 \<longleftrightarrow> 0x80000000 \<le> i"
proof -
  have "bit i 31 \<longleftrightarrow> bit (unat i) 31" by (simp add: bit_unsigned_iff)
  also have "\<dots> \<longleftrightarrow> odd (unat i div 2 ^ 31)" by (simp add: bit_iff_odd)
  also have "unat i div 2 ^ 31 = (if 2 ^ 31 \<le> unat i then 1 else 0)"
    using unat_less_pow [of i] by (auto simp: div_nat_eqI)
  finally show ?thesis by (simp add: word_le_nat_alt)
qed

lemma core_event_id_iff: "is_core_event_id i \<longleftrightarrow> \<not> is_vendor_event_id i"
proof -
  have "(i AND 0x80000000 = 0) = (\<not> bit i 31)"
    using bit_iff_and_push_bit_not_eq_0 [of i 31] by simp
  moreover have "i \<le> 0xFFFFFFFF" using unat_less_pow [of i] by (simp add: word_le_nat_alt)
  ultimately show ?thesis
    by (simp add: is_core_event_id_def is_vendor_event_id_def EVENT_RANGE_VENDOR_def high_bit_iff)
qed

lemma word_le_pred: "\<not> (i :: u16) \<le> 0x7FFF \<longleftrightarrow> 0x8000 \<le> i"
  by (simp add: word_le_nat_alt, linarith)

lemma u16_zero_iff: "(i :: u16) = 0 \<longleftrightarrow> \<not> 1 \<le> i"
proof -
  have "i = 0 \<longleftrightarrow> unat i = 0" by (simp add: unat_eq_0)
  also have "\<dots> \<longleftrightarrow> \<not> unat (1 :: u16) \<le> unat i" by (simp, linarith)
  finally show ?thesis by (simp add: word_le_nat_alt)
qed

text \<open>The registry is collision-free and its lookups are complete: an event id, field key or type tag
  finds exactly the catalogue entry that carries it, every event id lies in the range of its group, and
  every field key is a core key whose fixed type, if it has one, is registered.\<close>

theorem registry_lookups_complete:
  "(event_spec i = Some e \<longleftrightarrow> e \<in> set EVENT_SPECS \<and> es_id e = i)
   \<and> (field_spec k = Some f \<longleftrightarrow> f \<in> set FIELD_SPECS \<and> fs_key f = k)
   \<and> (tlv_type_spec c = Some t \<longleftrightarrow> t \<in> set TLV_TYPE_SPECS \<and> ts_code t = c)
   \<and> list_all (\<lambda>s. fst (group_range (es_group s)) \<le> es_id s \<and> es_id s \<le> snd (group_range (es_group s)))
       EVENT_SPECS
   \<and> list_all (\<lambda>s. is_core_key (fs_key s)
         \<and> (case fs_kind s of Fixed tag \<Rightarrow> tlv_type_spec tag \<noteq> None | _ \<Rightarrow> True)) FIELD_SPECS"
proof (intro conjI)
  show "event_spec i = Some e \<longleftrightarrow> e \<in> set EVENT_SPECS \<and> es_id e = i"
    unfolding event_spec_def by (rule find_complete [OF distinct_event_ids])
  show "field_spec k = Some f \<longleftrightarrow> f \<in> set FIELD_SPECS \<and> fs_key f = k"
    unfolding field_spec_def by (rule find_complete [OF distinct_field_keys])
  show "tlv_type_spec c = Some t \<longleftrightarrow> t \<in> set TLV_TYPE_SPECS \<and> ts_code t = c"
    unfolding tlv_type_spec_def by (rule find_complete [OF distinct_type_codes])
qed (rule event_groups, rule field_tags)

text \<open>The id spaces are partitioned: every 32-bit event id is either core or vendor and never both,
  every non-zero key is either core or vendor and never both, key 0 is neither, and exactly the
  severities 1 to 1000 have a band.\<close>

theorem id_spaces_partitioned:
  "(is_core_event_id i \<longleftrightarrow> \<not> is_vendor_event_id i)
   \<and> (if k = 0 then \<not> is_core_key k \<and> \<not> is_vendor_key k else is_core_key k \<longleftrightarrow> \<not> is_vendor_key k)
   \<and> (severity_band s \<noteq> None \<longleftrightarrow> 1 \<le> s \<and> s \<le> 1000)"
proof (intro conjI)
  show "is_core_event_id i \<longleftrightarrow> \<not> is_vendor_event_id i" by (rule core_event_id_iff)
  show "if k = 0 then \<not> is_core_key k \<and> \<not> is_vendor_key k else is_core_key k \<longleftrightarrow> \<not> is_vendor_key k"
    using word_le_pred [of k] u16_zero_iff [of k] by (auto simp: is_core_key_def is_vendor_key_def)
  show "severity_band s \<noteq> None \<longleftrightarrow> 1 \<le> s \<and> s \<le> 1000"
    by (auto simp: severity_band_def word_le_nat_alt)
qed

end
