(* ===== verification/Loss.thy ===== *)
theory Loss
  imports Ring Registry "HOL-Library.Product_Lexorder"
begin

text \<open>
  Loss accounting, \<open>crates/carriage/src/loss.rs\<close>: the tracker's per-stream delivery counts, next
  expected sequence numbers and merged loss intervals, fed by sequence gaps, authoritative
  \<open>RecordsDropped\<close> records and source high-water checkpoints.  A \<open>BTreeMap\<close> is a finite map, sequence
  numbers are naturals under checked 64-bit arithmetic.  The lemmas show that the intervals of a stream
  stay disjoint and apart, that inserting one is set union, that the lost count is the number of lost
  sequence numbers, and that every sequence number below the next expected one is accounted for.
\<close>

section \<open>Data\<close>

record LossEvent =
  le_buffer_id :: u32
  le_run_id :: u64
  le_source_id :: u32
  le_first_seq :: nat
  le_last_seq :: nat
  le_count :: nat
  le_synthetic :: bool

type_synonym source_key = "u64 \<times> u32"

record LossTracker =
  lt_buffer_id :: u32
  lt_next_seq_by_source :: "source_key \<rightharpoonup> nat"
  lt_delivered_by_source :: "source_key \<rightharpoonup> nat"
  lt_loss_events :: "LossEvent list"

definition tracker_new :: "u32 \<Rightarrow> LossTracker" where
  "tracker_new buffer_id =
     \<lparr>lt_buffer_id = buffer_id, lt_next_seq_by_source = Map.empty, lt_delivered_by_source = Map.empty,
      lt_loss_events = []\<rparr>"

section \<open>Intervals\<close>

definition same_loss_stream :: "LossEvent \<Rightarrow> LossEvent \<Rightarrow> bool" where
  "same_loss_stream l r \<longleftrightarrow>
     le_buffer_id l = le_buffer_id r \<and> le_run_id l = le_run_id r \<and> le_source_id l = le_source_id r"

definition ranges_touch_or_overlap :: "LossEvent \<Rightarrow> LossEvent \<Rightarrow> bool" where
  "ranges_touch_or_overlap l r \<longleftrightarrow>
     le_first_seq r \<le> u64_saturating_add (le_last_seq l) 1
     \<and> le_first_seq l \<le> u64_saturating_add (le_last_seq r) 1"

definition merge_into :: "LossEvent \<Rightarrow> LossEvent \<Rightarrow> (LossEvent, 'e) outcome" where
  "merge_into m interval =
     (let first_seq = min (le_first_seq m) (le_first_seq interval);
          last_seq = max (le_last_seq m) (le_last_seq interval)
      in and_then (u64_sub last_seq first_seq) (\<lambda>d.
         and_then (u64_add d 1) (\<lambda>count.
           Ok (m\<lparr>le_first_seq := first_seq, le_last_seq := last_seq, le_count := count,
                 le_synthetic := (le_synthetic m \<and> le_synthetic interval)\<rparr>))))"

fun merge_loop :: "LossEvent list \<Rightarrow> LossEvent list \<Rightarrow> (LossEvent list, 'e) outcome" where
  "merge_loop merged [] = Ok merged"
| "merge_loop merged (interval # intervals) =
     (if merged \<noteq> [] \<and> ranges_touch_or_overlap (last merged) interval
      then and_then (merge_into (last merged) interval) (\<lambda>m.
             merge_loop (butlast merged @ [m]) intervals)
      else merge_loop (merged @ [interval]) intervals)"

definition insert_loss_event :: "LossTracker \<Rightarrow> LossEvent \<Rightarrow> (LossTracker, 'e) outcome" where
  "insert_loss_event tracker event =
     (let absorbed = (\<lambda>existing. same_loss_stream existing event \<and> ranges_touch_or_overlap existing event);
          intervals = sort_key le_first_seq (filter absorbed (lt_loss_events tracker) @ [event]);
          retained = filter (Not \<circ> absorbed) (lt_loss_events tracker)
      in and_then (merge_loop [] intervals) (\<lambda>merged.
           Ok (tracker\<lparr>lt_loss_events := retained @ merged\<rparr>)))"

section \<open>The records that carry loss\<close>

definition records_dropped_record :: "nat \<Rightarrow> LossRange \<Rightarrow> (Record, 'e) outcome" where
  "records_dropped_record seq rng =
     and_then (u64_add 1780000000000000000 seq) (\<lambda>source_time.
     and_then (loss_range_count rng) (\<lambda>count.
       Ok ((record_new (of_nat source_time) (lr_run_id rng) (of_nat seq) (lr_source_id rng)
              EVENT_RECORDS_DROPPED)
           \<lparr>rec_slots :=
              [slot_new KEY_DROPPED_COUNT TY_UDINT (u32_to_le_bytes (of_nat count)),
               slot_new KEY_FIRST_LOST_SEQ TY_ULINT (u64_to_le_bytes (of_nat (lr_first_seq rng))),
               slot_new KEY_LAST_LOST_SEQ TY_ULINT (u64_to_le_bytes (of_nat (lr_last_seq rng)))]\<rparr>)))"

fun scan_dropped_slots ::
  "Slot list \<Rightarrow> nat option \<times> nat option \<times> nat option \<Rightarrow> nat option \<times> nat option \<times> nat option" where
  "scan_dropped_slots [] found = found"
| "scan_dropped_slots (s # slots) (count, fst_seq, lst_seq) =
     scan_dropped_slots slots
       (if slot_key s = KEY_DROPPED_COUNT \<and> length (slot_payload s) = 4
        then (Some (unat (from_le_bytes (slot_payload s) :: u32)), fst_seq, lst_seq)
        else if slot_key s = KEY_FIRST_LOST_SEQ \<and> length (slot_payload s) = 8
        then (count, Some (unat (from_le_bytes (slot_payload s) :: u64)), lst_seq)
        else if slot_key s = KEY_LAST_LOST_SEQ \<and> length (slot_payload s) = 8
        then (count, fst_seq, Some (unat (from_le_bytes (slot_payload s) :: u64)))
        else (count, fst_seq, lst_seq))"

definition parse_records_dropped :: "Record \<Rightarrow> u32 \<Rightarrow> (LossEvent option, 'e) outcome" where
  "parse_records_dropped r buffer_id =
     (if rec_event_type_id r \<noteq> EVENT_RECORDS_DROPPED then Ok None
      else case scan_dropped_slots (rec_slots r) (None, None, None) of
        (Some count, Some fst_seq, Some lst_seq) \<Rightarrow>
          if lst_seq < fst_seq then Ok None
          else and_then (u64_sub lst_seq fst_seq) (\<lambda>d. and_then (u64_add d 1) (\<lambda>n.
            if count \<noteq> n then Ok None
            else Ok (Some \<lparr>le_buffer_id = buffer_id, le_run_id = rec_run_id r,
                           le_source_id = rec_source_id r, le_first_seq = fst_seq, le_last_seq = lst_seq,
                           le_count = count, le_synthetic = (rec_flags r AND FLAG_SYNTHETIC \<noteq> 0)\<rparr>)))
      | _ \<Rightarrow> Ok None)"

fun find_high_water :: "Slot list \<Rightarrow> u64 \<Rightarrow> nat option" where
  "find_high_water [] seq = None"
| "find_high_water (s # slots) seq =
     (if slot_key s \<noteq> KEY_SOURCE_HIGH_WATER \<or> length (slot_payload s) \<noteq> 8
      then find_high_water slots seq
      else let produced_count = (from_le_bytes (slot_payload s) :: u64)
           in if produced_count = seq then Some (unat produced_count) else find_high_water slots seq)"

definition parse_source_high_water :: "Record \<Rightarrow> nat option" where
  "parse_source_high_water r =
     (if rec_event_type_id r \<noteq> EVENT_SOURCE_HIGH_WATER then None
      else find_high_water (rec_slots r) (rec_seq r))"

section \<open>Accounting a record\<close>

definition map_get_or_0 :: "('k \<rightharpoonup> nat) \<Rightarrow> 'k \<Rightarrow> nat" where
  "map_get_or_0 m k = (case m k of None \<Rightarrow> 0 | Some v \<Rightarrow> v)"

definition stream_loss :: "LossTracker \<Rightarrow> Record \<Rightarrow> nat \<Rightarrow> nat \<Rightarrow> nat \<Rightarrow> bool \<Rightarrow> LossEvent" where
  "stream_loss tracker r first_seq last_seq count synthetic =
     \<lparr>le_buffer_id = lt_buffer_id tracker, le_run_id = rec_run_id r, le_source_id = rec_source_id r,
      le_first_seq = first_seq, le_last_seq = last_seq, le_count = count, le_synthetic = synthetic\<rparr>"

definition account_high_water :: "LossTracker \<Rightarrow> Record \<Rightarrow> nat \<Rightarrow> (LossTracker, 'e) outcome" where
  "account_high_water tracker r expected =
     (case parse_source_high_water r of
        Some produced_count \<Rightarrow>
          if produced_count > expected
          then and_then (u64_sub produced_count 1) (\<lambda>last_seq.
               and_then (u64_sub produced_count expected) (\<lambda>count.
                 insert_loss_event tracker (stream_loss tracker r expected last_seq count False)))
          else Ok tracker
      | None \<Rightarrow> Ok tracker)"

definition account_gap :: "LossTracker \<Rightarrow> Record \<Rightarrow> nat \<Rightarrow> (LossTracker, 'e) outcome" where
  "account_gap tracker r expected =
     (if unat (rec_seq r) > expected
      then and_then (u64_sub (unat (rec_seq r)) 1) (\<lambda>last_seq.
           and_then (u64_sub last_seq expected) (\<lambda>d.
           and_then (u64_add d 1) (\<lambda>count.
             insert_loss_event tracker (stream_loss tracker r expected last_seq count True))))
      else Ok tracker)"

definition account_delivery :: "LossTracker \<Rightarrow> Record \<Rightarrow> nat \<Rightarrow> (LossTracker, 'e) outcome" where
  "account_delivery tracker r expected =
     (let source_key = (rec_run_id r, rec_source_id r)
      in if unat (rec_seq r) \<ge> expected
         then and_then (u64_add (map_get_or_0 (lt_delivered_by_source tracker) source_key) 1) (\<lambda>d.
              and_then (u64_add (unat (rec_seq r)) 1) (\<lambda>n.
                Ok (tracker\<lparr>lt_delivered_by_source := (lt_delivered_by_source tracker)(source_key \<mapsto> d),
                            lt_next_seq_by_source := (lt_next_seq_by_source tracker)(source_key \<mapsto> n)\<rparr>)))
         else Ok tracker)"

definition account_dropped :: "LossTracker \<Rightarrow> Record \<Rightarrow> (LossTracker, 'e) outcome" where
  "account_dropped tracker r =
     and_then (parse_records_dropped r (lt_buffer_id tracker)) (\<lambda>authoritative.
       case authoritative of
         Some event \<Rightarrow> insert_loss_event tracker event
       | None \<Rightarrow> Ok tracker)"

definition account :: "LossTracker \<Rightarrow> Record \<Rightarrow> (LossTracker, 'e) outcome" where
  "account tracker r =
     (let expected = map_get_or_0 (lt_next_seq_by_source tracker) (rec_run_id r, rec_source_id r)
      in and_then (account_high_water tracker r expected) (\<lambda>tracker.
         and_then (account_gap tracker r expected) (\<lambda>tracker.
         and_then (account_delivery tracker r expected) (\<lambda>tracker.
           account_dropped tracker r))))"

fun account_all :: "LossTracker \<Rightarrow> Record list \<Rightarrow> (LossTracker, 'e) outcome" where
  "account_all tracker [] = Ok tracker"
| "account_all tracker (r # rs) = and_then (account tracker r) (\<lambda>tracker. account_all tracker rs)"

definition tracker_delivered :: "LossTracker \<Rightarrow> u64 \<Rightarrow> u32 \<Rightarrow> nat" where
  "tracker_delivered tracker run_id source_id =
     map_get_or_0 (lt_delivered_by_source tracker) (run_id, source_id)"

fun u64_sum :: "nat list \<Rightarrow> nat \<Rightarrow> (nat, 'e) outcome" where
  "u64_sum [] acc = Ok acc"
| "u64_sum (n # ns) acc = and_then (u64_add acc n) (\<lambda>acc. u64_sum ns acc)"

definition tracker_lost :: "LossTracker \<Rightarrow> u64 \<Rightarrow> u32 \<Rightarrow> (nat, 'e) outcome" where
  "tracker_lost tracker run_id source_id =
     u64_sum (map le_count
       [event \<leftarrow> lt_loss_events tracker. le_run_id event = run_id \<and> le_source_id event = source_id]) 0"

definition tracker_loss_events :: "LossTracker \<Rightarrow> LossEvent list" where
  "tracker_loss_events tracker =
     sort_key (\<lambda>event. (le_buffer_id event, le_run_id event, le_source_id event,
                        le_first_seq event, le_last_seq event)) (lt_loss_events tracker)"

section \<open>Intervals as sets\<close>

definition le_stream :: "LossEvent \<Rightarrow> source_key" where
  "le_stream e = (le_run_id e, le_source_id e)"

definition span :: "LossEvent \<Rightarrow> nat set" where
  "span e = {le_first_seq e .. le_last_seq e}"

definition event_ok :: "u32 \<Rightarrow> LossEvent \<Rightarrow> bool" where
  "event_ok b e \<longleftrightarrow> le_buffer_id e = b \<and> le_first_seq e \<le> le_last_seq e
     \<and> le_last_seq e + 1 < u64_limit \<and> le_count e = le_last_seq e - le_first_seq e + 1"

definition apart :: "LossEvent \<Rightarrow> LossEvent \<Rightarrow> bool" where
  "apart x y \<longleftrightarrow> le_last_seq x + 1 < le_first_seq y \<or> le_last_seq y + 1 < le_first_seq x"

definition events_ok :: "u32 \<Rightarrow> LossEvent list \<Rightarrow> bool" where
  "events_ok b evs \<longleftrightarrow> list_all (event_ok b) evs
     \<and> sorted_wrt (\<lambda>x y. le_stream x = le_stream y \<longrightarrow> apart x y) evs"

definition covered :: "LossEvent list \<Rightarrow> source_key \<Rightarrow> nat set" where
  "covered evs k = (\<Union>e \<in> {e \<in> set evs. le_stream e = k}. span e)"

definition fat :: "LossEvent \<Rightarrow> nat set" where
  "fat e = {le_first_seq e - 1 .. le_last_seq e + 1}"

lemma apart_iff_fat:
  assumes "event_ok b x" "event_ok b y"
  shows "apart x y \<longleftrightarrow> fat x \<inter> span y = {}"
proof
  assume "fat x \<inter> span y = {}"
  then have "max (le_first_seq x - 1) (le_first_seq y) \<notin> fat x \<inter> span y" by blast
  then show "apart x y"
    using assms unfolding apart_def fat_def span_def event_ok_def by (simp add: max_def split: if_splits; linarith)
qed (use assms in \<open>auto simp: apart_def fat_def span_def event_ok_def\<close>)

lemma touch_iff_not_apart:
  assumes "event_ok b x" "event_ok b y"
  shows "ranges_touch_or_overlap x y \<longleftrightarrow> \<not> apart x y"
  using assms by (auto simp: ranges_touch_or_overlap_def apart_def event_ok_def u64_saturating_add_def min_def)

lemma apart_sym: "apart x y \<longleftrightarrow> apart y x"
  by (auto simp: apart_def)

definition before :: "LossEvent \<Rightarrow> LossEvent \<Rightarrow> bool" where
  "before x y \<longleftrightarrow> le_last_seq x + 1 < le_first_seq y"

lemma merge_into_ok:
  assumes "event_ok b m" "event_ok b i" "le_stream m = k" "\<not> apart m i" "le_first_seq m \<le> le_first_seq i"
  shows "\<exists>m'. merge_into m i = Ok m' \<and> event_ok b m' \<and> le_stream m' = k
     \<and> le_first_seq m' = le_first_seq m \<and> span m' = span m \<union> span i"
proof -
  have lim: "max (le_last_seq m) (le_last_seq i) - le_first_seq m + 1 < u64_limit"
    "le_first_seq m \<le> max (le_last_seq m) (le_last_seq i)"
    "max (le_last_seq m) (le_last_seq i) + 1 < u64_limit"
    using assms by (auto simp: event_ok_def)
  have "{le_first_seq m .. max (le_last_seq m) (le_last_seq i)} = span m \<union> span i"
    using assms(1,2,4,5) by (auto simp: event_ok_def span_def apart_def)
  with lim assms show ?thesis
    by (auto simp: merge_into_def Let_def event_ok_def span_def le_stream_def min_def)
qed

lemma sorted_wrt_before_snoc:
  "sorted_wrt before (xs @ [m]) \<Longrightarrow> le_first_seq m' = le_first_seq m \<Longrightarrow> sorted_wrt before (xs @ [m'])"
  by (auto simp: sorted_wrt_append before_def)

lemma merge_loop_ok:
  assumes "sorted (map le_first_seq ivs)" "list_all (\<lambda>e. event_ok b e \<and> le_stream e = k) ivs"
    and "list_all (\<lambda>e. event_ok b e \<and> le_stream e = k) merged" "sorted_wrt before merged"
    and "merged \<noteq> [] \<Longrightarrow> list_all (\<lambda>i. le_first_seq (last merged) \<le> le_first_seq i) ivs"
  shows "\<exists>res. merge_loop merged ivs = Ok res \<and> list_all (\<lambda>e. event_ok b e \<and> le_stream e = k) res
     \<and> sorted_wrt before res \<and> \<Union> (span ` set res) = \<Union> (span ` set merged) \<union> \<Union> (span ` set ivs)"
  using assms
proof (induction ivs arbitrary: merged)
  case Nil
  then show ?case by simp
next
  case (Cons i ivs)
  show ?case
  proof (cases "merged \<noteq> [] \<and> ranges_touch_or_overlap (last merged) i")
    case True
    then obtain init m where m: "merged = init @ [m]" by (metis rev_exhaust)
    have "\<not> apart m i" using True Cons.prems m touch_iff_not_apart [of b m i] by simp
    then obtain m' where m': "merge_into m i = (Ok m' :: (LossEvent, 'a) outcome)" "event_ok b m'"
        "le_stream m' = k" "le_first_seq m' = le_first_seq m" "span m' = span m \<union> span i"
      using merge_into_ok [of b m i k] Cons.prems m by auto
    have "\<exists>res. merge_loop (init @ [m']) ivs = (Ok res :: (LossEvent list, 'a) outcome)
       \<and> list_all (\<lambda>e. event_ok b e \<and> le_stream e = k) res \<and> sorted_wrt before res
       \<and> \<Union> (span ` set res) = \<Union> (span ` set (init @ [m'])) \<union> \<Union> (span ` set ivs)"
      using Cons.prems m m' sorted_wrt_before_snoc [of init m m']
      by (intro Cons.IH) auto
    with True m m' show ?thesis by (auto simp: Un_assoc)
  next
    case False
    have srt: "sorted_wrt before (merged @ [i])"
    proof (cases "merged = []")
      case ne: False
      then obtain init m where m: "merged = init @ [m]" by (metis rev_exhaust)
      have "before m i"
        using False ne Cons.prems m touch_iff_not_apart [of b m i]
        by (auto simp: apart_def before_def event_ok_def)
      moreover have "before x i" if "x \<in> set init" for x
        using that Cons.prems(3,4) m \<open>before m i\<close>
        by (fastforce simp: sorted_wrt_append before_def event_ok_def list_all_iff)
      ultimately show ?thesis using Cons.prems(4) m by (auto simp: sorted_wrt_append)
    qed simp
    have "\<exists>res. merge_loop (merged @ [i]) ivs = (Ok res :: (LossEvent list, 'a) outcome)
       \<and> list_all (\<lambda>e. event_ok b e \<and> le_stream e = k) res \<and> sorted_wrt before res
       \<and> \<Union> (span ` set res) = \<Union> (span ` set (merged @ [i])) \<union> \<Union> (span ` set ivs)"
      using Cons.prems srt by (intro Cons.IH) (auto simp: list_all_iff)
    with False show ?thesis by (simp add: Un_ac if_not_P)
  qed
qed


section \<open>Inserting an interval is set union\<close>

lemma covered_append [simp]: "covered (xs @ ys) k = covered xs k \<union> covered ys k"
  by (auto simp: covered_def)

lemma covered_stream:
  "list_all (\<lambda>e. le_stream e = k) xs \<Longrightarrow> covered xs j = (if j = k then \<Union> (span ` set xs) else {})"
  by (auto simp: covered_def list_all_iff)

lemma covered_partition: "covered (filter (Not \<circ> P) xs) k \<union> covered (filter P xs) k = covered xs k"
  by (auto simp: covered_def)

lemma events_ok_filter: "events_ok b evs \<Longrightarrow> events_ok b (filter P evs)"
  by (simp add: events_ok_def sorted_wrt_filter list_all_iff)

lemma before_imp_apart: "before x y \<Longrightarrow> apart x y"
  by (simp add: before_def apart_def)

lemma events_ok_append:
  assumes "events_ok b xs" "events_ok b ys"
    and "\<And>x y. x \<in> set xs \<Longrightarrow> y \<in> set ys \<Longrightarrow> le_stream x = le_stream y \<Longrightarrow> apart x y"
  shows "events_ok b (xs @ ys)"
  using assms by (auto simp: events_ok_def sorted_wrt_append)

lemma events_ok_pair:
  "events_ok b evs \<Longrightarrow> x \<in> set evs \<Longrightarrow> y \<in> set evs \<Longrightarrow> x \<noteq> y \<Longrightarrow> le_stream x = le_stream y \<Longrightarrow> apart x y"
  unfolding events_ok_def
  by (induction evs) (auto simp: apart_sym)

lemma merged_apart:
  assumes ok: "event_ok b x" "list_all (event_ok b) ivs" "list_all (event_ok b) res" "m \<in> set res"
    and un: "\<Union> (span ` set res) = \<Union> (span ` set ivs)" and ap: "\<And>i. i \<in> set ivs \<Longrightarrow> apart x i"
  shows "apart x m"
proof -
  have "fat x \<inter> span i = {}" if "i \<in> set ivs" for i
    using ap [OF that] apart_iff_fat [OF ok(1), of i] ok(2) that by (simp add: list_all_iff)
  then have "fat x \<inter> \<Union> (span ` set res) = {}" unfolding un by blast
  then have "fat x \<inter> span m = {}" using ok(4) by blast
  then show ?thesis using apart_iff_fat [OF ok(1), of m] ok(3,4) by (simp add: list_all_iff)
qed

lemma insert_loss_event_ok:
  assumes ok: "events_ok b (lt_loss_events t)" and new: "event_ok b new"
  shows "\<exists>evs. insert_loss_event t new = Ok (t\<lparr>lt_loss_events := evs\<rparr>) \<and> events_ok b evs
     \<and> (\<forall>k. covered evs k = covered (lt_loss_events t) k \<union> (if k = le_stream new then span new else {}))"
proof -
  let ?evs = "lt_loss_events t"
  let ?P = "\<lambda>x. same_loss_stream x new \<and> ranges_touch_or_overlap x new"
  let ?ivs = "sort_key le_first_seq (filter ?P ?evs @ [new])" and ?keep = "filter (Not \<circ> ?P) ?evs"
  have all: "event_ok b x" if "x \<in> set ?evs" for x using ok that by (simp add: events_ok_def list_all_iff)
  have str: "same_loss_stream x new \<longleftrightarrow> le_stream x = le_stream new" if "x \<in> set ?evs" for x
    using all [OF that] new by (auto simp: same_loss_stream_def le_stream_def event_ok_def)
  have ivs: "list_all (\<lambda>e. event_ok b e \<and> le_stream e = le_stream new) ?ivs"
    using all str new by (auto simp: list_all_iff)
  from merge_loop_ok [of ?ivs b "le_stream new" "[]"] ivs obtain res where
    res: "merge_loop [] ?ivs = (Ok res :: (LossEvent list, 'a) outcome)"
      "list_all (\<lambda>e. event_ok b e \<and> le_stream e = le_stream new) res" "sorted_wrt before res"
      "\<Union> (span ` set res) = \<Union> (span ` set ?ivs)" by auto
  have res_ok: "events_ok b res"
    using res(2,3) unfolding events_ok_def
    by (auto simp: list_all_iff intro: sorted_wrt_mono_rel [rotated, OF res(3)] before_imp_apart)
  have apart_res: "apart x m" if "x \<in> set ?keep" "m \<in> set res" "le_stream x = le_stream m" for x m
  proof (rule merged_apart [OF _ _ _ that(2) res(4)])
    have x: "x \<in> set ?evs" "\<not> ?P x" using that(1) by simp_all
    have sx: "le_stream x = le_stream new" using that(2,3) res(2) by (simp add: list_all_iff)
    show "event_ok b x" by (rule all [OF x(1)])
    fix i assume "i \<in> set ?ivs"
    then consider "i = new" | "i \<in> set ?evs" "?P i" by auto
    then show "apart x i"
    proof cases
      case 1
      then show ?thesis using x sx str touch_iff_not_apart [OF all [OF x(1)] new] by auto
    next
      case 2
      then have "x \<noteq> i" using x(2) by blast
      with 2 x(1) sx str events_ok_pair [OF ok x(1), of i] show ?thesis by auto
    qed
  qed (use ivs res(2) in \<open>auto simp: list_all_iff\<close>)
  have "events_ok b (?keep @ res)"
    using events_ok_append [OF events_ok_filter [OF ok] res_ok] apart_res by blast
  moreover have "covered (?keep @ res) k = covered ?evs k \<union> (if k = le_stream new then span new else {})" for k
  proof -
    have "covered res k = covered (filter ?P ?evs @ [new]) k"
      using covered_stream [of "le_stream new" res k] covered_stream [of "le_stream new" "filter ?P ?evs @ [new]" k]
        res(2,4) ivs by (auto simp: list_all_iff)
    then show ?thesis
      using covered_partition [of ?P ?evs k] covered_stream [of "le_stream new" "[new]" k] by auto
  qed
  moreover have "insert_loss_event t new = (Ok (t\<lparr>lt_loss_events := ?keep @ res\<rparr>) :: (_, 'a) outcome)"
    using res(1) by (simp add: insert_loss_event_def)
  ultimately show ?thesis by blast
qed

section \<open>The lost count\<close>

lemma u64_sum_ok: "acc + sum_list ns < u64_limit \<Longrightarrow> u64_sum ns acc = Ok (acc + sum_list ns)"
  by (induction ns arbitrary: acc) (auto simp: add.assoc)

lemma apart_disjoint: "event_ok b x \<Longrightarrow> event_ok b y \<Longrightarrow> apart x y \<Longrightarrow> span x \<inter> span y = {}"
  by (auto simp: apart_def span_def event_ok_def)

lemma finite_span [simp]: "finite (span e)"
  by (simp add: span_def)

lemma card_span: "event_ok b e \<Longrightarrow> card (span e) = le_count e"
  by (auto simp: event_ok_def span_def Suc_diff_le)

lemma sum_counts:
  assumes "events_ok b evs" "list_all (\<lambda>e. le_stream e = k) evs"
  shows "sum_list (map le_count evs) = card (\<Union> (span ` set evs))"
  using assms
proof (induction evs)
  case (Cons e evs)
  have e: "event_ok b e" and evs: "events_ok b evs"
    using Cons.prems(1) by (simp_all add: events_ok_def)
  have "span e \<inter> span x = {}" if "x \<in> set evs" for x
    using Cons.prems that apart_disjoint [of b e x] by (auto simp: events_ok_def list_all_iff)
  then have "card (span e \<union> \<Union> (span ` set evs)) = card (span e) + card (\<Union> (span ` set evs))"
    by (intro card_Un_disjoint) auto
  with Cons evs e show ?case by (simp add: card_span)
qed simp

lemma covered_bound: "events_ok b evs \<Longrightarrow> covered evs k \<subseteq> {0 ..< u64_limit - 1}"
  by (fastforce simp: covered_def span_def events_ok_def list_all_iff event_ok_def)

lemma tracker_lost_card:
  assumes ok: "events_ok b (lt_loss_events t)"
  shows "tracker_lost t run src = Ok (card (covered (lt_loss_events t) (run, src)))"
proof -
  let ?xs = "[e \<leftarrow> lt_loss_events t. le_stream e = (run, src)]"
  have "sum_list (map le_count ?xs) = card (\<Union> (span ` set ?xs))"
    using sum_counts [OF events_ok_filter [OF ok], of "(run, src)" "\<lambda>e. le_stream e = (run, src)"]
    by (auto simp: list_all_iff)
  also have "\<Union> (span ` set ?xs) = covered (lt_loss_events t) (run, src)"
    by (auto simp: covered_def)
  finally have sum: "sum_list (map le_count ?xs) = card (covered (lt_loss_events t) (run, src))" .
  have "card (covered (lt_loss_events t) (run, src)) \<le> card {0 ..< u64_limit - 1}"
    using covered_bound [OF ok] by (intro card_mono) auto
  also have "\<dots> < u64_limit" by (simp add: u64_limit_def)
  finally show ?thesis
    using u64_sum_ok [of 0 "map le_count ?xs"] sum by (simp add: tracker_lost_def le_stream_def)
qed

section \<open>What accounting one record does\<close>

definition record_stream :: "Record \<Rightarrow> source_key" where
  "record_stream r = (rec_run_id r, rec_source_id r)"

definition loss_sane :: "Record \<Rightarrow> bool" where
  "loss_sane r \<longleftrightarrow> unat (rec_seq r) + 1 < u64_limit
     \<and> (case snd (snd (scan_dropped_slots (rec_slots r) (None, None, None))) of
          None \<Rightarrow> True | Some l \<Rightarrow> l + 1 < u64_limit)"

definition authoritative :: "Record \<Rightarrow> nat set" where
  "authoritative r =
     (case (parse_records_dropped r 0 :: (LossEvent option, unit) outcome) of
        Ok (Some e) \<Rightarrow> span e | _ \<Rightarrow> {})"

abbreviation next_of :: "LossTracker \<Rightarrow> source_key \<Rightarrow> nat" where
  "next_of t \<equiv> map_get_or_0 (lt_next_seq_by_source t)"

abbreviation delivered_of :: "LossTracker \<Rightarrow> source_key \<Rightarrow> nat" where
  "delivered_of t \<equiv> map_get_or_0 (lt_delivered_by_source t)"

lemma map_get_or_0_upd [simp]: "map_get_or_0 (m(k \<mapsto> v)) = (map_get_or_0 m)(k := v)"
  by (auto simp: map_get_or_0_def)

lemma parse_records_dropped_sane:
  assumes "loss_sane r"
  shows "\<exists>out. parse_records_dropped r b = Ok out
     \<and> (case out of None \<Rightarrow> authoritative r = {}
        | Some e \<Rightarrow> event_ok b e \<and> le_stream e = record_stream r \<and> authoritative r = span e)"
proof -
  obtain c f l where scan: "scan_dropped_slots (rec_slots r) (None, None, None) = (c, f, l)"
    by (metis prod.exhaust)
  with assms have l: "x + 1 < u64_limit" if "l = Some x" for x using that by (simp add: loss_sane_def)
  show ?thesis
    using scan l
    by (cases c; cases f; cases l)
       (auto simp: parse_records_dropped_def authoritative_def event_ok_def le_stream_def record_stream_def
          span_def u64_add_def u64_sub_def)
qed

lemma find_high_water_seq: "find_high_water slots seq = Some p \<Longrightarrow> p = unat seq"
  by (induction slots seq rule: find_high_water.induct) (auto simp: Let_def split: if_splits)

definition adds_loss :: "LossTracker \<Rightarrow> (LossTracker, 'e) outcome \<Rightarrow> source_key \<Rightarrow> nat set \<Rightarrow> bool" where
  "adds_loss t out k0 A \<longleftrightarrow>
     (\<exists>evs. out = Ok (t\<lparr>lt_loss_events := evs\<rparr>) \<and> events_ok (lt_buffer_id t) evs
       \<and> (\<forall>k. covered evs k = covered (lt_loss_events t) k \<union> (if k = k0 then A else {})))"

lemma adds_loss_nothing: "events_ok (lt_buffer_id t) (lt_loss_events t) \<Longrightarrow> adds_loss t (Ok t) k {}"
  unfolding adds_loss_def by (rule exI [of _ "lt_loss_events t"]) simp

lemma adds_loss_insert:
  assumes "events_ok (lt_buffer_id t) (lt_loss_events t)" "event_ok (lt_buffer_id t) e"
  shows "adds_loss t (insert_loss_event t e) (le_stream e) (span e)"
  using insert_loss_event_ok [OF assms] by (auto simp: adds_loss_def)

lemma stream_loss_gap:
  assumes "n < s" "s < u64_limit"
  shows "event_ok (lt_buffer_id t) (stream_loss t r n (s - 1) (s - n) syn)"
    "le_stream (stream_loss t r n (s - 1) (s - n) syn) = record_stream r"
    "span (stream_loss t r n (s - 1) (s - n) syn) = {n ..< s}"
  using assms by (auto simp: stream_loss_def event_ok_def le_stream_def span_def record_stream_def)

lemma account_high_water_adds:
  assumes ok: "events_ok (lt_buffer_id t) (lt_loss_events t)"
  shows "\<exists>A \<subseteq> {n ..< unat (rec_seq r)}. adds_loss t (account_high_water t r n) (record_stream r) A"
proof (cases "parse_source_high_water r")
  case None
  then show ?thesis
    by (intro exI [of _ "{}"]) (simp add: account_high_water_def adds_loss_nothing [OF ok])
next
  case (Some p)
  then have p: "p = unat (rec_seq r)"
    by (auto simp: parse_source_high_water_def dest: find_high_water_seq split: if_splits)
  show ?thesis
  proof (cases "n < p")
    case True
    have "p < u64_limit" by (simp add: p)
    from stream_loss_gap [OF True this, of t r False]
    have "adds_loss t (account_high_water t r n) (record_stream r) {n ..< unat (rec_seq r)}"
      using adds_loss_insert [OF ok, of "stream_loss t r n (p - 1) (p - n) False"] Some True p
      by (simp add: account_high_water_def)
    then show ?thesis by blast
  next
    case False
    with Some show ?thesis
      by (intro exI [of _ "{}"]) (simp add: account_high_water_def adds_loss_nothing [OF ok])
  qed
qed

lemma account_gap_adds:
  assumes ok: "events_ok (lt_buffer_id t) (lt_loss_events t)"
  shows "adds_loss t (account_gap t r n :: (LossTracker, 'e) outcome) (record_stream r) {n ..< unat (rec_seq r)}"
proof (cases "n < unat (rec_seq r)")
  case True
  have lim: "unat (rec_seq r) < u64_limit" by simp
  have eq: "unat (rec_seq r) - 1 - n + 1 = unat (rec_seq r) - n" using True by linarith
  have "unat (rec_seq r) - n < u64_limit" using lim by linarith
  then have "u64_add (unat (rec_seq r) - 1 - n) 1 = (Ok (unat (rec_seq r) - n) :: (_, 'e) outcome)"
    by (simp only: u64_add_def eq if_True)
  with True stream_loss_gap [OF True lim, of t r True] show ?thesis
    using adds_loss_insert [OF ok, of "stream_loss t r n (unat (rec_seq r) - 1) (unat (rec_seq r) - n) True"]
    by (simp add: account_gap_def)
next
  case False
  then show ?thesis using adds_loss_nothing [OF ok] by (simp add: account_gap_def)
qed

lemma account_dropped_adds:
  assumes ok: "events_ok (lt_buffer_id t) (lt_loss_events t)" and sane: "loss_sane r"
  shows "adds_loss t (account_dropped t r :: (LossTracker, 'e) outcome) (record_stream r) (authoritative r)"
proof -
  obtain out where *: "parse_records_dropped r (lt_buffer_id t) = (Ok out :: (_, 'e) outcome)"
    "case out of None \<Rightarrow> authoritative r = {} | Some e \<Rightarrow> event_ok (lt_buffer_id t) e
       \<and> le_stream e = record_stream r \<and> authoritative r = span e"
    using parse_records_dropped_sane [OF sane, of "lt_buffer_id t"] by blast
  show ?thesis
  proof (cases out)
    case None
    with * show ?thesis by (simp add: account_dropped_def adds_loss_nothing [OF ok])
  next
    case (Some e)
    with * adds_loss_insert [OF ok, of e] show ?thesis by (auto simp: account_dropped_def)
  qed
qed

lemma account_ok:
  fixes t :: LossTracker and r :: Record
  assumes ok: "events_ok (lt_buffer_id t) (lt_loss_events t)" and sane: "loss_sane r"
    and dn: "delivered_of t (record_stream r) \<le> next_of t (record_stream r)"
  defines "k0 \<equiv> record_stream r" and "s \<equiv> unat (rec_seq r)"
  defines "n \<equiv> next_of t k0"
  shows "\<exists>t'. account t r = (Ok t' :: (LossTracker, 'e) outcome) \<and> lt_buffer_id t' = lt_buffer_id t
     \<and> events_ok (lt_buffer_id t) (lt_loss_events t')
     \<and> next_of t' = (if n \<le> s then (next_of t)(k0 := s + 1) else next_of t)
     \<and> delivered_of t' = (if n \<le> s then (delivered_of t)(k0 := delivered_of t k0 + 1) else delivered_of t)
     \<and> (\<forall>k. covered (lt_loss_events t') k = covered (lt_loss_events t) k
          \<union> (if k = k0 then {n ..< s} \<union> authoritative r else {}))"
proof -
  let ?b = "lt_buffer_id t"
  have s: "s + 1 < u64_limit" using sane by (simp add: loss_sane_def s_def)
  have n: "n = map_get_or_0 (lt_next_seq_by_source t) (rec_run_id r, rec_source_id r)"
    by (simp add: n_def k0_def record_stream_def)
  obtain A e1 where t1: "account_high_water t r n = (Ok (t\<lparr>lt_loss_events := e1\<rparr>) :: (_, 'e) outcome)"
    and A: "A \<subseteq> {n ..< s}" "events_ok ?b e1"
      "\<And>k. covered e1 k = covered (lt_loss_events t) k \<union> (if k = k0 then A else {})"
    using account_high_water_adds [OF ok, of n r] unfolding adds_loss_def s_def k0_def by blast
  obtain e2 where t2: "account_gap (t\<lparr>lt_loss_events := e1\<rparr>) r n
        = (Ok (t\<lparr>lt_loss_events := e2\<rparr>) :: (_, 'e) outcome)"
    and B: "events_ok ?b e2" "\<And>k. covered e2 k = covered e1 k \<union> (if k = k0 then {n ..< s} else {})"
    using account_gap_adds [of "t\<lparr>lt_loss_events := e1\<rparr>" r n] A(2) unfolding adds_loss_def s_def k0_def by auto
  define t3 where "t3 = (if n \<le> s then t\<lparr>lt_loss_events := e2,
      lt_delivered_by_source := (lt_delivered_by_source t)(k0 \<mapsto> delivered_of t k0 + 1),
      lt_next_seq_by_source := (lt_next_seq_by_source t)(k0 \<mapsto> s + 1)\<rparr> else t\<lparr>lt_loss_events := e2\<rparr>)"
  have t3: "account_delivery (t\<lparr>lt_loss_events := e2\<rparr>) r n = (Ok t3 :: (_, 'e) outcome)"
    using s dn n by (auto simp: account_delivery_def t3_def Let_def k0_def record_stream_def s_def n_def)
  have b3: "lt_buffer_id t3 = ?b" "lt_loss_events t3 = e2" by (simp_all add: t3_def)
  obtain e4 where t4: "account_dropped t3 r = (Ok (t3\<lparr>lt_loss_events := e4\<rparr>) :: (_, 'e) outcome)"
    and C: "events_ok ?b e4" "\<And>k. covered e4 k = covered e2 k \<union> (if k = k0 then authoritative r else {})"
    using account_dropped_adds [OF _ sane, of t3] B(1) b3 unfolding adds_loss_def k0_def by auto
  have "account t r = (Ok (t3\<lparr>lt_loss_events := e4\<rparr>) :: (_, 'e) outcome)"
    using t1 t2 t3 t4 by (simp add: account_def n [symmetric])
  moreover have "covered e4 k = covered (lt_loss_events t) k \<union> (if k = k0 then {n ..< s} \<union> authoritative r else {})" for k
    using A(1) by (auto simp: C(2) B(2) A(3))
  ultimately show ?thesis using C(1) b3 by (auto simp: t3_def)
qed

section \<open>Accounting a sequence of records\<close>

fun delivered_seqs :: "(source_key \<Rightarrow> nat) \<Rightarrow> Record list \<Rightarrow> source_key \<Rightarrow> nat set" where
  "delivered_seqs nxt [] k = {}"
| "delivered_seqs nxt (r # rs) k =
     (if nxt (record_stream r) \<le> unat (rec_seq r)
      then (if k = record_stream r then {unat (rec_seq r)} else {})
           \<union> delivered_seqs (nxt(record_stream r := unat (rec_seq r) + 1)) rs k
      else delivered_seqs nxt rs k)"

definition reported_seqs :: "Record list \<Rightarrow> source_key \<Rightarrow> nat set" where
  "reported_seqs rs k = (\<Union>r \<in> {r \<in> set rs. record_stream r = k}. authoritative r)"

definition loss_inv :: "LossTracker \<Rightarrow> (source_key \<Rightarrow> nat set) \<Rightarrow> (source_key \<Rightarrow> nat set) \<Rightarrow> bool" where
  "loss_inv t D A \<longleftrightarrow> events_ok (lt_buffer_id t) (lt_loss_events t)
     \<and> (\<forall>k. D k \<subseteq> {0 ..< next_of t k} \<and> card (D k) = delivered_of t k
          \<and> covered (lt_loss_events t) k = ({0 ..< next_of t k} - D k) \<union> A k)"

lemma loss_inv_new: "loss_inv (tracker_new b) (\<lambda>_. {}) (\<lambda>_. {})"
  by (simp add: loss_inv_def tracker_new_def events_ok_def map_get_or_0_def covered_def)

lemma account_step:
  assumes inv: "loss_inv t D A" and sane: "loss_sane r"
  defines "k0 \<equiv> record_stream r" and "s \<equiv> unat (rec_seq r)"
  shows "\<exists>t'. account t r = (Ok t' :: (LossTracker, 'e) outcome)
     \<and> loss_inv t' (if next_of t k0 \<le> s then D(k0 := insert s (D k0)) else D)
                   (A(k0 := A k0 \<union> authoritative r))
     \<and> next_of t' = (if next_of t k0 \<le> s then (next_of t)(k0 := s + 1) else next_of t)"
proof -
  have ok: "events_ok (lt_buffer_id t) (lt_loss_events t)"
    and D: "\<And>k. D k \<subseteq> {0 ..< next_of t k}" "\<And>k. card (D k) = delivered_of t k"
    and C: "\<And>k. covered (lt_loss_events t) k = ({0 ..< next_of t k} - D k) \<union> A k"
    using inv by (auto simp: loss_inv_def)
  have fin: "finite (D k)" for k using D(1) by (rule finite_subset) simp
  have "delivered_of t k0 \<le> next_of t k0"
    using card_mono [OF _ D(1) [of k0]] D(2) [of k0] by simp
  from account_ok [OF ok sane this [unfolded k0_def]] obtain t' where
    t': "account t r = (Ok t' :: (LossTracker, 'e) outcome)" "lt_buffer_id t' = lt_buffer_id t"
      "events_ok (lt_buffer_id t) (lt_loss_events t')"
      "next_of t' = (if next_of t k0 \<le> s then (next_of t)(k0 := s + 1) else next_of t)"
      "delivered_of t' = (if next_of t k0 \<le> s then (delivered_of t)(k0 := delivered_of t k0 + 1) else delivered_of t)"
      "\<And>k. covered (lt_loss_events t') k = covered (lt_loss_events t) k
          \<union> (if k = k0 then {next_of t k0 ..< s} \<union> authoritative r else {})"
    unfolding k0_def s_def by blast
  have fresh: "s \<notin> D k0" if "next_of t k0 \<le> s" using D(1) [of k0] that by auto
  have "loss_inv t' (if next_of t k0 \<le> s then D(k0 := insert s (D k0)) else D)
                   (A(k0 := A k0 \<union> authoritative r))"
    unfolding loss_inv_def
  proof (intro conjI allI)
    fix k
    show "(if next_of t k0 \<le> s then D(k0 := insert s (D k0)) else D) k \<subseteq> {0 ..< next_of t' k}"
      using D(1) [of k] by (auto simp: t'(4))
    show "card ((if next_of t k0 \<le> s then D(k0 := insert s (D k0)) else D) k) = delivered_of t' k"
      using D(2) fresh fin by (auto simp: t'(5))
    show "covered (lt_loss_events t') k = {0 ..< next_of t' k}
          - (if next_of t k0 \<le> s then D(k0 := insert s (D k0)) else D) k \<union> (A(k0 := A k0 \<union> authoritative r)) k"
      using D(1) [of k] by (auto simp: t'(4,6) C)
  qed (simp add: t'(2,3))
  with t'(1,4) show ?thesis by blast
qed

lemma account_all_inv:
  assumes "loss_inv t D A" "list_all loss_sane rs"
  shows "\<exists>t'. account_all t rs = (Ok t' :: (LossTracker, 'e) outcome)
     \<and> loss_inv t' (\<lambda>k. D k \<union> delivered_seqs (next_of t) rs k) (\<lambda>k. A k \<union> reported_seqs rs k)"
  using assms
proof (induction rs arbitrary: t D A)
  case Nil
  then show ?case by (simp add: reported_seqs_def)
next
  case (Cons r rs)
  let ?k = "record_stream r" and ?s = "unat (rec_seq r)"
  let ?D = "if next_of t ?k \<le> ?s then D(?k := insert ?s (D ?k)) else D"
  let ?A = "A(?k := A ?k \<union> authoritative r)"
  from account_step [OF Cons.prems(1)] Cons.prems(2) obtain t1 where
    t1: "account t r = (Ok t1 :: (LossTracker, 'e) outcome)" "loss_inv t1 ?D ?A"
      "next_of t1 = (if next_of t ?k \<le> ?s then (next_of t)(?k := ?s + 1) else next_of t)"
    by auto
  from Cons.IH [OF t1(2)] Cons.prems(2) obtain t' where
    t': "account_all t1 rs = (Ok t' :: (LossTracker, 'e) outcome)"
      "loss_inv t' (\<lambda>k. ?D k \<union> delivered_seqs (next_of t1) rs k) (\<lambda>k. ?A k \<union> reported_seqs rs k)"
    by auto
  have "(\<lambda>k. ?D k \<union> delivered_seqs (next_of t1) rs k) = (\<lambda>k. D k \<union> delivered_seqs (next_of t) (r # rs) k)"
    by (rule ext) (simp add: t1(3))
  moreover have "(\<lambda>k. ?A k \<union> reported_seqs rs k) = (\<lambda>k. A k \<union> reported_seqs (r # rs) k)"
    by (rule ext) (auto simp: reported_seqs_def)
  ultimately show ?case using t1(1) t' by simp
qed

section \<open>Properties of loss accounting\<close>

text \<open>Inserting a loss interval is set union on its stream.  If the tracker's intervals are well formed
  and, per stream, disjoint with at least one sequence number between them, then after inserting any
  well-formed interval they still are, the stream covers exactly what it covered plus the new interval,
  and no other stream changes.\<close>

theorem insert_loss_event_union:
  assumes "events_ok b (lt_loss_events t)" and "event_ok b e"
  shows "\<exists>evs. insert_loss_event t e = Ok (t\<lparr>lt_loss_events := evs\<rparr>) \<and> events_ok b evs
     \<and> (\<forall>k. covered evs k = covered (lt_loss_events t) k \<union> (if k = le_stream e then span e else {}))"
  by (rule insert_loss_event_ok [OF assms])

theorem insert_loss_event_union_witness:
  "\<exists>evs. insert_loss_event (tracker_new 1) (stream_loss (tracker_new 1) (record_new 1 2 3 4 5) 3 7 5 True)
       = (Ok ((tracker_new 1)\<lparr>lt_loss_events := evs\<rparr>) :: (LossTracker, unit) outcome)
     \<and> covered evs (2, 4) = {3 .. 7}"
proof -
  let ?e = "stream_loss (tracker_new 1) (record_new 1 2 3 4 5) 3 7 5 True"
  have "events_ok 1 (lt_loss_events (tracker_new 1))" by (simp add: tracker_new_def events_ok_def)
  moreover have "event_ok 1 ?e" by (simp add: event_ok_def stream_loss_def tracker_new_def u64_limit_def)
  ultimately obtain evs where "insert_loss_event (tracker_new 1) ?e
       = (Ok ((tracker_new 1)\<lparr>lt_loss_events := evs\<rparr>) :: (LossTracker, unit) outcome)"
      "covered evs (2, 4) = covered (lt_loss_events (tracker_new 1)) (2, 4)
         \<union> (if (2, 4) = le_stream ?e then span ?e else {})"
    using insert_loss_event_union [of 1 "tracker_new 1" ?e, where 'a = unit] by blast
  then show ?thesis
    by (auto simp: tracker_new_def covered_def le_stream_def span_def stream_loss_def record_new_def)
qed



text \<open>Conservation: when every reported loss is of sequence numbers that are below the next expected one
  and were not delivered, delivered plus lost is exactly the number of records the source has produced
  up to the last one seen.\<close>

theorem delivered_plus_lost:
  assumes "list_all loss_sane rs"
    and "account_all (tracker_new b) rs = (Ok t :: (LossTracker, 'e) outcome)"
    and "reported_seqs rs (run, src)
       \<subseteq> {0 ..< map_get_or_0 (lt_next_seq_by_source t) (run, src)} - delivered_seqs (\<lambda>_. 0) rs (run, src)"
  shows "\<exists>lost. tracker_lost t run src = (Ok lost :: (nat, 'e) outcome)
     \<and> tracker_delivered t run src + lost = map_get_or_0 (lt_next_seq_by_source t) (run, src)"
proof -
  let ?N = "map_get_or_0 (lt_next_seq_by_source t) (run, src)" and ?D = "delivered_seqs (\<lambda>_. 0) rs (run, src)"
  have n0: "next_of (tracker_new b) = (\<lambda>_. 0)" by (simp add: tracker_new_def map_get_or_0_def fun_eq_iff)
  from account_all_inv [OF loss_inv_new [of b] assms(1), where 'e = 'e] assms(2)
  have inv: "loss_inv t (delivered_seqs (\<lambda>_. 0) rs) (reported_seqs rs)" by (simp add: n0)
  then have D: "?D \<subseteq> {0 ..< ?N}" "tracker_delivered t run src = card ?D"
    and "covered (lt_loss_events t) (run, src) = {0 ..< ?N} - ?D"
    using assms(3) by (auto simp: loss_inv_def tracker_delivered_def)
  then have "tracker_lost t run src = (Ok (card ({0 ..< ?N} - ?D)) :: (nat, 'e) outcome)"
    using inv tracker_lost_card [of "lt_buffer_id t" t run src] by (simp add: loss_inv_def)
  moreover have "card ?D + card ({0 ..< ?N} - ?D) = ?N"
    using D(1) card_mono [OF _ D(1)] by (simp add: card_Diff_subset finite_subset [OF D(1)])
  ultimately show ?thesis using D(2) by auto
qed

theorem delivered_plus_lost_witness:
  "\<exists>t lost. account_all (tracker_new 1) [record_new 0 1 0 7 2, record_new 0 1 3 7 2]
       = (Ok t :: (LossTracker, unit) outcome)
     \<and> tracker_lost t 1 7 = (Ok lost :: (nat, unit) outcome) \<and> tracker_delivered t 1 7 + lost = next_of t (1, 7)"
proof -
  let ?rs = "[record_new 0 1 0 7 2, record_new 0 1 3 7 2]"
  have s: "list_all loss_sane ?rs" by (simp add: loss_sane_def record_new_def u64_limit_def)
  from account_all_inv [OF loss_inv_new [of 1] this, where 'e = unit] obtain t where
    t: "account_all (tracker_new 1) ?rs = (Ok t :: (LossTracker, unit) outcome)" by blast
  have "reported_seqs ?rs (1, 7) = {}"
    by (auto simp: reported_seqs_def authoritative_def parse_records_dropped_def record_new_def registry_ids)
  with delivered_plus_lost [OF s t, of 1 7] t show ?thesis by auto
qed

lemma loss_invD:
  "loss_inv t D A \<Longrightarrow> events_ok (lt_buffer_id t) (lt_loss_events t) \<and> delivered_of t k = card (D k)
     \<and> covered (lt_loss_events t) k = ({0 ..< next_of t k} - D k) \<union> A k"
  unfolding loss_inv_def by metis

lemma unat_of_nat_u32: "unat (of_nat n :: u32) = n mod 2 ^ 32"
  by (simp add: unat_of_nat)

lemma dropped_record_scan:
  assumes "records_dropped_record seq rng = (Ok r :: (Record, 'e) outcome)" "lr_first_seq rng < u64_limit" "lr_last_seq rng < u64_limit"
  shows "scan_dropped_slots (rec_slots r) (None, None, None)
      = (Some ((lr_last_seq rng - lr_first_seq rng + 1) mod 2 ^ 32), Some (lr_first_seq rng), Some (lr_last_seq rng))"
    "rec_event_type_id r = EVENT_RECORDS_DROPPED" "rec_run_id r = lr_run_id rng" "rec_source_id r = lr_source_id rng"
    "rec_flags r = 0" "rec_seq r = of_nat seq"
    "lr_first_seq rng \<le> lr_last_seq rng" "lr_last_seq rng - lr_first_seq rng + 1 < u64_limit"
  using assms
  by (auto simp: records_dropped_record_def loss_range_count_def outcome_simps record_new_def slot_new_def
      registry_ids unat_of_nat_u64 unat_of_nat_u32 simp del: of_nat_add of_nat_diff of_nat_Suc)

text \<open>The authoritative loss record round trips: what \<open>parse_records_dropped\<close> reads from the record that
  \<open>records_dropped_record\<close> builds is the producer's range, when the range has fewer than \<open>2^32\<close>
  records.\<close>

theorem records_dropped_roundtrip:
  assumes "records_dropped_record seq rng = (Ok r :: (Record, 'e) outcome)" and "lr_last_seq rng < u64_limit"
    and "lr_last_seq rng - lr_first_seq rng + 1 < 2 ^ 32"
  shows "parse_records_dropped r b = (Ok (Some
     \<lparr>le_buffer_id = b, le_run_id = lr_run_id rng, le_source_id = lr_source_id rng,
      le_first_seq = lr_first_seq rng, le_last_seq = lr_last_seq rng,
      le_count = lr_last_seq rng - lr_first_seq rng + 1, le_synthetic = False\<rparr>) :: (LossEvent option, 'f) outcome)"
proof -
  have "lr_first_seq rng \<le> lr_last_seq rng"
    using assms(1) by (auto simp: records_dropped_record_def loss_range_count_def outcome_simps)
  then have f: "lr_first_seq rng < u64_limit" using assms(2) by simp
  show ?thesis
    using dropped_record_scan [OF assms(1) f assms(2)] assms(3)
    by (simp add: parse_records_dropped_def)
qed

theorem records_dropped_roundtrip_witness:
  "\<exists>r. records_dropped_record 9 \<lparr>lr_run_id = 1, lr_source_id = 7, lr_first_seq = 3, lr_last_seq = 5\<rparr>
       = (Ok r :: (Record, unit) outcome)
     \<and> parse_records_dropped r 2 = (Ok (Some
         \<lparr>le_buffer_id = 2, le_run_id = 1, le_source_id = 7, le_first_seq = 3, le_last_seq = 5,
          le_count = 3, le_synthetic = False\<rparr>) :: (LossEvent option, unit) outcome)"
proof -
  let ?g = "\<lparr>lr_run_id = 1, lr_source_id = 7, lr_first_seq = 3, lr_last_seq = 5\<rparr>"
  obtain r where r: "records_dropped_record 9 ?g = (Ok r :: (Record, unit) outcome)"
    by (simp add: records_dropped_record_def loss_range_count_def u64_limit_def)
  from records_dropped_roundtrip [OF r, of 2, where 'f = unit] r show ?thesis by (auto simp: u64_limit_def)
qed

text \<open>A range of \<open>2^32\<close> or more records is not reported: the count slot holds the count modulo
  \<open>2^32\<close>, which disagrees with the two bounds, and the consumer discards the record.\<close>

theorem records_dropped_truncated:
  assumes "records_dropped_record seq rng = (Ok r :: (Record, 'e) outcome)" and "lr_last_seq rng < u64_limit"
    and "2 ^ 32 \<le> lr_last_seq rng - lr_first_seq rng + 1"
  shows "parse_records_dropped r b = (Ok None :: (LossEvent option, 'f) outcome)"
proof -
  have "lr_first_seq rng \<le> lr_last_seq rng"
    using assms(1) by (auto simp: records_dropped_record_def loss_range_count_def outcome_simps)
  then have f: "lr_first_seq rng < u64_limit" using assms(2) by simp
  have "(lr_last_seq rng - lr_first_seq rng + 1) mod 2 ^ 32 < 2 ^ 32" by (rule mod_less_divisor) simp
  then have "(lr_last_seq rng - lr_first_seq rng + 1) mod 2 ^ 32 \<noteq> lr_last_seq rng - lr_first_seq rng + 1"
    using assms(3) by linarith
  then show ?thesis
    using dropped_record_scan [OF assms(1) f assms(2)]
    by (simp add: parse_records_dropped_def u64_add_def u64_sub_def)
qed

theorem records_dropped_truncated_witness:
  "\<exists>r. records_dropped_record 9 \<lparr>lr_run_id = 1, lr_source_id = 7, lr_first_seq = 0, lr_last_seq = 2 ^ 32 - 1\<rparr>
       = (Ok r :: (Record, unit) outcome)
     \<and> parse_records_dropped r 2 = (Ok None :: (LossEvent option, unit) outcome)"
proof -
  let ?g = "\<lparr>lr_run_id = 1, lr_source_id = 7, lr_first_seq = 0, lr_last_seq = 2 ^ 32 - 1\<rparr>"
  obtain r where r: "records_dropped_record 9 ?g = (Ok r :: (Record, unit) outcome)"
    by (simp add: records_dropped_record_def loss_range_count_def u64_limit_def)
  from records_dropped_truncated [OF r, of 2, where 'f = unit] r show ?thesis by (auto simp: u64_limit_def)
qed

lemma dropped_record_sane:
  assumes "records_dropped_record seq rng = Ok r" "seq + 1 < u64_limit" "lr_last_seq rng + 1 < u64_limit"
  shows "loss_sane r"
proof -
  have "lr_first_seq rng \<le> lr_last_seq rng"
    using assms(1) by (auto simp: records_dropped_record_def loss_range_count_def outcome_simps)
  then have f: "lr_first_seq rng < u64_limit" "lr_last_seq rng < u64_limit" using assms(3) by simp_all
  show ?thesis
    using dropped_record_scan [OF assms(1) f] assms(2,3)
    by (simp add: loss_sane_def unat_of_nat_u64)
qed

text \<open>Evicted after delivery is counted twice: a consumer that has read record 0 of a source and then
  reads the producer's \<open>RecordsDropped\<close> report of that record's eviction reports two records delivered and
  one lost, although the source has produced two and the consumer has read both.\<close>

theorem dropped_after_delivery_counts_twice:
  "\<exists>r t. records_dropped_record 1 \<lparr>lr_run_id = 1, lr_source_id = 7, lr_first_seq = 0, lr_last_seq = 0\<rparr>
         = (Ok r :: (Record, unit) outcome)
     \<and> account_all (tracker_new 1) [record_new 0 1 0 7 EVENT_MESSAGE, r] = (Ok t :: (LossTracker, unit) outcome)
     \<and> tracker_delivered t 1 7 = 2 \<and> tracker_lost t 1 7 = (Ok 1 :: (nat, unit) outcome)
     \<and> map_get_or_0 (lt_next_seq_by_source t) (1, 7) = 2"
proof -
  let ?g = "\<lparr>lr_run_id = 1, lr_source_id = 7, lr_first_seq = 0, lr_last_seq = 0\<rparr>"
  let ?r0 = "record_new 0 1 0 7 EVENT_MESSAGE"
  obtain r where r: "records_dropped_record 1 ?g = (Ok r :: (Record, unit) outcome)"
    by (simp add: records_dropped_record_def loss_range_count_def u64_limit_def)
  note scan = dropped_record_scan [OF r, simplified]
  have st: "record_stream ?r0 = (1, 7)" "record_stream r = (1, 7)" "unat (rec_seq ?r0) = 0" "unat (rec_seq r) = 1"
    using scan by (simp_all add: record_stream_def record_new_def u64_limit_def)
  have au: "authoritative ?r0 = {}" "authoritative r = {0}"
    using scan by (simp_all add: authoritative_def parse_records_dropped_def record_new_def registry_ids
        span_def u64_limit_def)
  have sane: "loss_sane ?r0" "loss_sane r"
    using dropped_record_sane [OF r] by (simp_all add: loss_sane_def record_new_def u64_limit_def)
  have n0: "next_of (tracker_new 1) = (\<lambda>_. 0)" by (simp add: tracker_new_def map_get_or_0_def fun_eq_iff)
  from account_step [OF loss_inv_new [of 1] sane(1), where 'e = unit] obtain t1 where
    t1: "account (tracker_new 1) ?r0 = (Ok t1 :: (LossTracker, unit) outcome)"
      "loss_inv t1 ((\<lambda>_. {})((1, 7) := {0})) (\<lambda>_. {})" "next_of t1 = (\<lambda>_. 0)((1, 7) := 1)"
    by (auto simp: n0 st au fun_upd_idem)
  from account_step [OF t1(2) sane(2), where 'e = unit] obtain t where
    t: "account t1 r = (Ok t :: (LossTracker, unit) outcome)"
      "loss_inv t ((\<lambda>_. {})((1, 7) := {0, 1})) ((\<lambda>_. {})((1, 7) := {0}))" "next_of t (1, 7) = 2"
    by (auto simp: t1(3) st au insert_commute)
  from t(2) have ok: "events_ok (lt_buffer_id t) (lt_loss_events t)" "delivered_of t (1, 7) = 2"
    "covered (lt_loss_events t) (1, 7) = {0 ..< next_of t (1, 7)} - {0, 1} \<union> {0}"
    using loss_invD [OF t(2), of "(1, 7)"] by auto
  have "{0 ..< next_of t (1, 7)} - {0, 1} \<union> {0} = {0}" by (auto simp: t(3))
  with r t1(1) t(1,3) ok tracker_lost_card [OF ok(1), of 1 7] show ?thesis
    by (auto simp: tracker_delivered_def)
qed

text \<open>A record that carries the largest sequence number stops the consumer: accounting it panics with
  an arithmetic overflow when the stream expects no larger one (the development profile; the release
  profile would wrap the next expected number to 0).\<close>

theorem account_max_seq_overflows:
  assumes "rec_seq r = 2 ^ 64 - 1" and "rec_event_type_id r \<noteq> EVENT_SOURCE_HIGH_WATER"
  shows "account (tracker_new b) r = (Panic ArithmeticOverflow :: (LossTracker, 'e) outcome)"
proof -
  have s: "unat (rec_seq r) = u64_limit - 1" by (simp add: assms(1) u64_limit_def)
  have ok: "events_ok (lt_buffer_id (tracker_new b)) (lt_loss_events (tracker_new b))"
    by (simp add: tracker_new_def events_ok_def)
  obtain evs where g: "account_gap (tracker_new b) r 0
      = (Ok ((tracker_new b)\<lparr>lt_loss_events := evs\<rparr>) :: (LossTracker, 'e) outcome)"
    using account_gap_adds [OF ok, of r 0] unfolding adds_loss_def by blast
  have "account_delivery ((tracker_new b)\<lparr>lt_loss_events := evs\<rparr>) r 0
      = (Panic ArithmeticOverflow :: (LossTracker, 'e) outcome)"
    by (simp add: account_delivery_def s u64_add_def tracker_new_def map_get_or_0_def u64_limit_def)
  moreover have "account_high_water (tracker_new b) r 0 = (Ok (tracker_new b) :: (LossTracker, 'e) outcome)"
    using assms(2) by (simp add: account_high_water_def parse_source_high_water_def)
  moreover have "map_get_or_0 (lt_next_seq_by_source (tracker_new b)) (rec_run_id r, rec_source_id r) = 0"
    by (simp add: tracker_new_def map_get_or_0_def)
  ultimately show ?thesis using g by (simp add: account_def)
qed

theorem account_max_seq_overflows_witness:
  "account (tracker_new 1) (record_new 0 1 (2 ^ 64 - 1) 7 EVENT_MESSAGE)
     = (Panic ArithmeticOverflow :: (LossTracker, unit) outcome)"
  using account_max_seq_overflows [of "record_new 0 1 (2 ^ 64 - 1) 7 EVENT_MESSAGE" 1, where 'e = unit]
  by (simp add: record_new_def registry_ids)

end
