(* ===== verification/Consumer.thy ===== *)
theory Consumer
  imports Loss "HOL-Library.Sublist"
begin

text \<open>
  The reading consumers of \<open>crates/carriage/src/consumer.rs\<close>: an absolute cursor and a loss tracker, a
  poll that reads a ring through its index (\<open>LossAccountingConsumer\<close>) or by walking its bytes
  (\<open>RawByteConsumer\<close>) and accounts what it read.  The contract both satisfy is the locale
  \<open>polling_consumer\<close>; inside it, sessions in which a producer writes and a consumer polls in any order are
  a step relation, and the lemma proved once is that a consumer delivers the produced records in order,
  each at most once, and all of them unless a poll is flagged as lapped.
\<close>

section \<open>The index-based consumer\<close>

record LossAccountingConsumer =
  lac_cursor_abs :: nat
  lac_tracker :: LossTracker

definition lac_with_buffer_id :: "u32 \<Rightarrow> LossAccountingConsumer" where
  "lac_with_buffer_id buffer_id = \<lparr>lac_cursor_abs = 0, lac_tracker = tracker_new buffer_id\<rparr>"

definition lac_new :: LossAccountingConsumer where
  "lac_new = lac_with_buffer_id DEFAULT_BUFFER_ID"

definition lac_account_batch ::
  "LossAccountingConsumer \<Rightarrow> ReadBatch \<Rightarrow> (LossAccountingConsumer, 'e) outcome" where
  "lac_account_batch c batch =
     and_then (account_all (lac_tracker c) (map rr_record (rb_records batch))) (\<lambda>tracker.
       Ok (c\<lparr>lac_tracker := tracker, lac_cursor_abs := rb_next_abs batch\<rparr>))"

definition lac_poll ::
  "LossAccountingConsumer \<Rightarrow> RingBuffer \<Rightarrow> (LossAccountingConsumer \<times> ReadBatch, RingError) outcome" where
  "lac_poll c ring =
     and_then (read_from ring (lac_cursor_abs c)) (\<lambda>batch.
     and_then (lac_account_batch c batch) (\<lambda>c. Ok (c, batch)))"

definition lac_delivered_in_run :: "LossAccountingConsumer \<Rightarrow> u64 \<Rightarrow> u32 \<Rightarrow> nat" where
  "lac_delivered_in_run c run_id source_id = tracker_delivered (lac_tracker c) run_id source_id"

definition lac_delivered :: "LossAccountingConsumer \<Rightarrow> u32 \<Rightarrow> nat" where
  "lac_delivered c source_id = lac_delivered_in_run c 1 source_id"

definition lac_lost_in_run :: "LossAccountingConsumer \<Rightarrow> u64 \<Rightarrow> u32 \<Rightarrow> (nat, 'e) outcome" where
  "lac_lost_in_run c run_id source_id = tracker_lost (lac_tracker c) run_id source_id"

definition lac_lost :: "LossAccountingConsumer \<Rightarrow> u32 \<Rightarrow> (nat, 'e) outcome" where
  "lac_lost c source_id = lac_lost_in_run c 1 source_id"

definition lac_loss_events :: "LossAccountingConsumer \<Rightarrow> LossEvent list" where
  "lac_loss_events c = tracker_loss_events (lac_tracker c)"

section \<open>The raw-byte consumer\<close>

record RawByteConsumer =
  rbc_cursor_abs :: nat
  rbc_tracker :: LossTracker

definition rbc_with_buffer_id :: "u32 \<Rightarrow> RawByteConsumer" where
  "rbc_with_buffer_id buffer_id = \<lparr>rbc_cursor_abs = 0, rbc_tracker = tracker_new buffer_id\<rparr>"

definition rbc_new :: RawByteConsumer where
  "rbc_new = rbc_with_buffer_id DEFAULT_BUFFER_ID"

definition rbc_account_batch :: "RawByteConsumer \<Rightarrow> ReadBatch \<Rightarrow> (RawByteConsumer, 'e) outcome" where
  "rbc_account_batch c batch =
     and_then (account_all (rbc_tracker c) (map rr_record (rb_records batch))) (\<lambda>tracker.
       Ok (c\<lparr>rbc_tracker := tracker, rbc_cursor_abs := rb_next_abs batch\<rparr>))"

definition rbc_poll :: "RawByteConsumer \<Rightarrow> RingBuffer \<Rightarrow> (RawByteConsumer \<times> ReadBatch, RingError) outcome" where
  "rbc_poll c ring =
     and_then (read_raw_from ring (rbc_cursor_abs c)) (\<lambda>batch.
     and_then (rbc_account_batch c batch) (\<lambda>c. Ok (c, batch)))"

definition rbc_poll_snapshot ::
  "RawByteConsumer \<Rightarrow> RingBuffer \<Rightarrow> ControlBlockSnapshot
     \<Rightarrow> (RawByteConsumer \<times> ReadBatch, RingError) outcome" where
  "rbc_poll_snapshot c ring snapshot =
     and_then (read_raw_from_snapshot ring (rbc_cursor_abs c) snapshot) (\<lambda>batch.
     and_then (rbc_account_batch c batch) (\<lambda>c. Ok (c, batch)))"

definition rbc_delivered_in_run :: "RawByteConsumer \<Rightarrow> u64 \<Rightarrow> u32 \<Rightarrow> nat" where
  "rbc_delivered_in_run c run_id source_id = tracker_delivered (rbc_tracker c) run_id source_id"

definition rbc_lost_in_run :: "RawByteConsumer \<Rightarrow> u64 \<Rightarrow> u32 \<Rightarrow> (nat, 'e) outcome" where
  "rbc_lost_in_run c run_id source_id = tracker_lost (rbc_tracker c) run_id source_id"

definition rbc_loss_events :: "RawByteConsumer \<Rightarrow> LossEvent list" where
  "rbc_loss_events c = tracker_loss_events (rbc_tracker c)"

section \<open>Sessions\<close>

record 'c session =
  ses_ring :: RingBuffer
  ses_consumer :: 'c
  ses_produced :: "Record list"
  ses_delivered :: "Record list"
  ses_lapped :: bool

inductive session_step ::
  "('c \<Rightarrow> RingBuffer \<Rightarrow> ('c \<times> ReadBatch, RingError) outcome) \<Rightarrow> 'c session \<Rightarrow> 'c session \<Rightarrow> bool"
  for poll where
  produce: "write_record (ses_ring s) r = Ok (ring, start, stop) \<Longrightarrow> seq_not_max r \<Longrightarrow>
     session_step poll s (s\<lparr>ses_ring := ring, ses_produced := ses_produced s @ [r]\<rparr>)"
| consume: "poll (ses_consumer s) (ses_ring s) = Ok (c, batch) \<Longrightarrow>
     session_step poll s (s\<lparr>ses_consumer := c,
       ses_delivered := ses_delivered s @ map rr_record (rb_records batch),
       ses_lapped := (ses_lapped s \<or> rb_lapped batch)\<rparr>)"

inductive_cases session_stepE: "session_step poll s s'"

definition session_start :: "RingBuffer \<Rightarrow> 'c \<Rightarrow> 'c session" where
  "session_start ring c =
     \<lparr>ses_ring = ring, ses_consumer = c, ses_produced = [], ses_delivered = [], ses_lapped = False\<rparr>"

definition session_inv :: "('c \<Rightarrow> nat) \<Rightarrow> 'c session \<Rightarrow> ReadRecord list \<Rightarrow> nat \<Rightarrow> nat \<Rightarrow> bool" where
  "session_inv cursor s entries n m \<longleftrightarrow>
     ring_inv (ses_ring s) (drop n entries) \<and> ring_head_abs (ses_ring s) < u64_limit
     \<and> n \<le> length entries \<and> m \<le> length entries
     \<and> map rr_record entries = map (\<lambda>r. normalise_flags r True) (ses_produced s)
     \<and> list_all (\<lambda>x. cursor (ses_consumer s) \<le> rr_start_abs x) (drop m entries)
     \<and> list_all (\<lambda>x. rr_start_abs x < cursor (ses_consumer s)) (take m entries)
     \<and> list_all (\<lambda>x. rr_start_abs x < ring_oldest_abs (ses_ring s)) (take n entries)
     \<and> (entries \<noteq> [] \<longrightarrow> rr_end_abs (last entries) = ring_head_abs (ses_ring s))
     \<and> (if m = 0 then cursor (ses_consumer s) \<le> ring_oldest_abs (ses_ring s)
        else cursor (ses_consumer s) = rr_end_abs (entries ! (m - 1)))
     \<and> cursor (ses_consumer s) \<le> ring_head_abs (ses_ring s)
     \<and> subseq (ses_delivered s) (map rr_record (take m entries))
     \<and> (\<not> ses_lapped s \<longrightarrow> ses_delivered s = map rr_record (take m entries))"

lemma eviction_take:
  "evicted f rs = take (length (evicted f rs)) rs" "survivors f rs = drop (length (evicted f rs)) rs"
  "length (evicted f rs) \<le> length rs"
proof -
  have "evicted f rs @ survivors f rs = rs" by (rule evicted_survivors)
  then show "evicted f rs = take (length (evicted f rs)) rs" "survivors f rs = drop (length (evicted f rs)) rs"
    by (simp_all add: append_eq_conv_conj)
  show "length (evicted f rs) \<le> length rs" by (simp add: evicted_def length_takeWhile_le)
qed

lemma eviction_order:
  assumes inv: "ring_inv ring rs" and wr: "writable ring r"
  defines "x \<equiv> next_entry ring r"
  defines "f \<equiv> rr_end_abs x - capacity ring"
  shows "list_all (\<lambda>y. rr_start_abs y < rr_start_abs (hd (survivors f rs @ [x]))) (evicted f rs)"
    "ring_oldest_abs ring \<le> rr_start_abs (hd (survivors f rs @ [x]))" "ring_head_abs ring \<le> rr_start_abs x"
proof -
  have lk: "linked (ring_bytes ring) (ring_oldest_abs ring) rs (ring_head_abs ring)" and cap: "0 < capacity ring"
    using inv by (simp_all add: ring_inv_def ring_holds_def)
  show hx: "ring_head_abs ring \<le> rr_start_abs x"
    using place_bounds [OF cap] by (simp add: x_def next_entry_def Let_def)
  have low: "rr_start_abs y < f" "rr_start_abs y < ring_head_abs ring" if "y \<in> set (evicted f rs)" for y
    using that set_takeWhileD [of y _ rs] linked_bounds [OF lk, of y] by (auto simp: evicted_def)
  show "list_all (\<lambda>y. rr_start_abs y < rr_start_abs (hd (survivors f rs @ [x]))) (evicted f rs)"
  proof (cases "survivors f rs")
    case Nil
    with low(2) hx show ?thesis by (fastforce simp: list_all_iff)
  next
    case (Cons z zs)
    then have "f \<le> rr_start_abs z"
      using linked_dropWhile_floor [OF lk, of z f] by (simp add: survivors_def)
    with Cons low(1) show ?thesis by (fastforce simp: list_all_iff)
  qed
  show "ring_oldest_abs ring \<le> rr_start_abs (hd (survivors f rs @ [x]))"
  proof (cases "survivors f rs")
    case Nil
    with hx linked_le [OF lk] show ?thesis by simp
  next
    case (Cons z zs)
    then have "z \<in> set rs" by (metis list.set_intros(1) set_dropWhileD survivors_def)
    with Cons linked_bounds [OF lk, of z] show ?thesis by simp
  qed
qed

lemma session_inv_start:
  assumes "ring_new cap = Ok ring" "cursor c = 0"
  shows "session_inv cursor (session_start ring c) [] 0 0"
  using ring_new_Ok [OF assms(1)] assms
  by (auto simp: session_inv_def session_start_def ring_new_def u64_limit_def split: if_splits)

lemma session_inv_produce:
  assumes inv: "session_inv cursor s entries n m" and w: "write_record (ses_ring s) r = Ok (ring, start, stop)"
    and seq: "seq_not_max r"
  shows "\<exists>entries' n'. session_inv cursor (s\<lparr>ses_ring := ring, ses_produced := ses_produced s @ [r]\<rparr>) entries' n' m"
proof -
  let ?rs = "drop n entries" and ?x = "next_entry (ses_ring s) r"
  let ?f = "rr_end_abs ?x - capacity (ses_ring s)"
  have ri: "ring_inv (ses_ring s) ?rs" and n: "n \<le> length entries" using inv by (simp_all add: session_inv_def)
  have wr: "writable (ses_ring s) r" using w by (rule write_record_Ok_writable)
  from write_record_refines [OF ri wr seq] w have
    r': "ring_inv ring (survivors ?f ?rs @ [?x])" "ring_head_abs ring = rr_end_abs ?x"
      "ring_oldest_abs ring = rr_start_abs (hd (survivors ?f ?rs @ [?x]))" by auto
  note ord = eviction_order [OF ri wr]
  define k where "k = length (evicted ?f ?rs)"
  have k: "evicted ?f ?rs = take k ?rs" "survivors ?f ?rs = drop k ?rs" "k \<le> length ?rs"
    using eviction_take [of ?f ?rs] by (simp_all only: k_def)
  have lists: "drop (n + k) (entries @ [?x]) = survivors ?f ?rs @ [?x]"
    "take (n + k) (entries @ [?x]) = take n entries @ evicted ?f ?rs"
    using k n by (simp add: add.commute, simp add: take_add)
  have x: "rr_record ?x = normalise_flags r True" "rr_start_abs ?x < rr_end_abs ?x"
    using record_len_pos [of r True] by (simp_all add: next_entry_def Let_def)
  have "session_inv cursor (s\<lparr>ses_ring := ring, ses_produced := ses_produced s @ [r]\<rparr>) (entries @ [?x]) (n + k) m"
    unfolding session_inv_def
    using inv r' ord x wr k(3) unfolding lists
    by (auto simp: session_inv_def writable_def nth_append list_all_iff split: if_splits)
  then show ?thesis by blast
qed

locale polling_consumer =
  fixes poll :: "'c \<Rightarrow> RingBuffer \<Rightarrow> ('c \<times> ReadBatch, RingError) outcome"
    and cursor :: "'c \<Rightarrow> nat"
  assumes poll_law:
    "ring_inv ring rs \<Longrightarrow> ring_head_abs ring < u64_limit \<Longrightarrow> cursor_ok ring rs (cursor c) \<Longrightarrow>
     poll c ring = Ok (c', batch) \<Longrightarrow>
       batch = \<lparr>rb_records = [x \<leftarrow> rs. cursor c \<le> rr_start_abs x], rb_next_abs = ring_head_abs ring,
                rb_lapped = (cursor c < ring_oldest_abs ring)\<rparr>
       \<and> cursor c' = ring_head_abs ring"
begin

lemma session_cursor_ok:
  assumes inv: "session_inv cursor s entries n m"
  shows "cursor_ok (ses_ring s) (drop n entries) (cursor (ses_consumer s))"
proof -
  let ?c = "cursor (ses_consumer s)" and ?rs = "drop n entries"
  have ri: "ring_inv (ses_ring s) ?rs"
    and m: "m = 0 \<Longrightarrow> ?c \<le> ring_oldest_abs (ses_ring s)" "0 < m \<Longrightarrow> ?c = rr_end_abs (entries ! (m - 1))"
    and le: "m \<le> length entries" and late: "list_all (\<lambda>x. ?c \<le> rr_start_abs x) (drop m entries)"
    using inv by (simp_all add: session_inv_def split: if_splits)
  consider "m = 0" | "0 < m" "n < m" | "0 < m" "m \<le> n" by linarith
  then show ?thesis
  proof cases
    case 1
    then show ?thesis using m by (simp add: cursor_ok_def)
  next
    case 2
    then have "entries ! (m - 1) = ?rs ! (m - 1 - n)" "m - 1 - n < length ?rs" using le by auto
    then have "entries ! (m - 1) \<in> set ?rs" by (metis nth_mem)
    then show ?thesis using m(2) 2 by (auto simp: cursor_ok_def)
  next
    case 3
    show ?thesis
    proof (cases ?rs)
      case Nil
      with ri have "ring_oldest_abs (ses_ring s) = ring_head_abs (ses_ring s)"
        by (simp add: ring_inv_def ring_holds_def)
      then show ?thesis by (auto simp: cursor_ok_def)
    next
      case (Cons y ys)
      then have "y \<in> set (drop m entries)" using 3 set_drop_subset_set_drop [of m n entries] by auto
      then have "?c \<le> rr_start_abs y" using late by (simp add: list_all_iff)
      moreover have "rr_start_abs y = ring_oldest_abs (ses_ring s)"
        using ri Cons by (simp add: ring_inv_def ring_holds_def)
      ultimately show ?thesis by (simp add: cursor_ok_def)
    qed
  qed
qed

lemma session_inv_consume:
  assumes inv: "session_inv cursor s entries n m" and p: "poll (ses_consumer s) (ses_ring s) = Ok (c, batch)"
  shows "session_inv cursor (s\<lparr>ses_consumer := c,
       ses_delivered := ses_delivered s @ map rr_record (rb_records batch),
       ses_lapped := (ses_lapped s \<or> rb_lapped batch)\<rparr>) entries n (length entries)"
proof -
  let ?c = "cursor (ses_consumer s)" and ?ring = "ses_ring s"
  have ri: "ring_inv ?ring (drop n entries)" and lim: "ring_head_abs ?ring < u64_limit"
    and early: "list_all (\<lambda>x. rr_start_abs x < ?c) (take m entries)"
    and late: "list_all (\<lambda>x. ?c \<le> rr_start_abs x) (drop m entries)"
    and dropped: "list_all (\<lambda>x. rr_start_abs x < ring_oldest_abs ?ring) (take n entries)"
    and ch: "?c \<le> ring_head_abs ?ring" and n: "n \<le> length entries" and m: "m \<le> length entries"
    using inv by (simp_all add: session_inv_def)
  from poll_law [OF ri lim session_cursor_ok [OF inv] p]
  have b: "rb_records batch = drop (max n m) entries" "rb_lapped batch = (?c < ring_oldest_abs ?ring)"
    "cursor c = ring_head_abs ?ring"
    using early late by (auto simp: filter_split list_all_iff not_le)
  have lk: "linked (ring_bytes ?ring) (ring_oldest_abs ?ring) (drop n entries) (ring_head_abs ?ring)"
    using ri by (simp add: ring_inv_def ring_holds_def)
  have below: "rr_start_abs x < ring_head_abs ?ring" if "x \<in> set entries" for x
  proof -
    have "x \<in> set (take n entries) \<or> x \<in> set (drop n entries)" using that by (metis Un_iff append_take_drop_id set_append)
    then show ?thesis
      using dropped linked_le [OF lk] linked_bounds [OF lk, of x] by (fastforce simp: list_all_iff)
  qed
  have sub: "subseq (ses_delivered s @ map rr_record (rb_records batch)) (map rr_record entries)"
  proof -
    have "subseq (drop (max n m) entries) (drop m entries)"
      by (metis drop_drop max.cobounded2 le_add_diff_inverse2 sublist_imp_subseq suffix_drop suffix_imp_sublist)
    then have "subseq (ses_delivered s @ map rr_record (drop (max n m) entries))
        (map rr_record (take m entries) @ map rr_record (drop m entries))"
      using inv by (intro list_emb_append_mono subseq_map) (auto simp: session_inv_def)
    then show ?thesis by (simp add: b(1) flip: map_append)
  qed
  have all: "ses_delivered s @ map rr_record (rb_records batch) = map rr_record entries"
    if "\<not> ses_lapped s" "\<not> rb_lapped batch"
  proof -
    have "n \<le> m"
    proof (rule ccontr)
      assume "\<not> n \<le> m"
      then have "entries ! m \<in> set (take n entries)" "entries ! m \<in> set (drop m entries)"
        using n by (auto simp: in_set_conv_nth intro: exI [of _ m] exI [of _ 0])
      then show False using that(2) dropped late b(2) by (fastforce simp: list_all_iff)
    qed
    then have "ses_delivered s = map rr_record (take m entries)" "max n m = m"
      using inv that(1) by (simp_all add: session_inv_def)
    then show ?thesis by (simp add: b(1) flip: map_append)
  qed
  show ?thesis
    using inv below sub all b(2,3) ri lim
    by (auto simp: session_inv_def list_all_iff last_conv_nth ring_inv_def ring_holds_def)
qed

lemma session_reachable:
  assumes "(session_step poll)\<^sup>*\<^sup>* s0 s" "session_inv cursor s0 entries0 n0 m0"
  shows "\<exists>entries n m. session_inv cursor s entries n m"
  using assms
proof (induction rule: rtranclp_induct)
  case (step s1 s2)
  then obtain entries n m where "session_inv cursor s1 entries n m" by blast
  with step(2) show ?case
    by (cases rule: session_step.cases) (blast dest: session_inv_produce session_inv_consume)+
qed blast

lemma session_delivery:
  assumes "ring_new cap = (Ok ring :: (RingBuffer, RingError) outcome)" "cursor c0 = 0"
    and "(session_step poll)\<^sup>*\<^sup>* (session_start ring c0) s" "session_step poll s s'"
    and "ses_produced s' = ses_produced s"
  shows "subseq (ses_delivered s') (map (\<lambda>r. normalise_flags r True) (ses_produced s'))
     \<and> (\<not> ses_lapped s' \<longrightarrow> ses_delivered s' = map (\<lambda>r. normalise_flags r True) (ses_produced s'))"
proof -
  from session_reachable [OF assms(3) session_inv_start [of cap ring cursor c0, OF assms(1,2)]] obtain entries n m
    where inv: "session_inv cursor s entries n m" by blast
  from assms(4) show ?thesis
  proof (cases rule: session_step.cases)
    case (produce r ring start stop)
    with assms(5) show ?thesis by simp
  next
    case (consume c batch)
    from session_inv_consume [OF inv consume(2)] show ?thesis
      unfolding consume(1) session_inv_def by (metis take_all order.refl)
  qed
qed

end

section \<open>Both consumers satisfy the contract\<close>

interpretation indexed: polling_consumer lac_poll lac_cursor_abs
  by unfold_locales
     (auto simp: lac_poll_def lac_account_batch_def outcome_simps ring_inv_def read_from_ok)

interpretation raw: polling_consumer rbc_poll rbc_cursor_abs
  by unfold_locales
     (auto simp: rbc_poll_def rbc_account_batch_def outcome_simps ring_inv_def read_from_ok read_raw_from_ok)

lemma account_all_append:
  "account_all t (xs @ ys) = and_then (account_all t xs) (\<lambda>t. account_all t ys)"
  by (induction xs arbitrary: t) (simp_all add: and_then_assoc)

lemma tracker_follows_session:
  assumes "(session_step rbc_poll)\<^sup>*\<^sup>* (session_start ring (rbc_with_buffer_id b)) s"
  shows "account_all (tracker_new b) (ses_delivered s)
     = (Ok (rbc_tracker (ses_consumer s)) :: (LossTracker, RingError) outcome)"
  using assms
proof (induction rule: rtranclp_induct)
  case base
  then show ?case by (simp add: session_start_def rbc_with_buffer_id_def)
next
  case (step s1 s2)
  from step(2,3) show ?case
    by (cases rule: session_step.cases)
       (auto simp: rbc_poll_def rbc_account_batch_def outcome_simps account_all_append)
qed

lemma rbc_poll_ok:
  assumes "ring_inv ring rs" "ring_head_abs ring < u64_limit" "cursor_ok ring rs (rbc_cursor_abs c)"
    and "loss_inv (rbc_tracker c) D A" "list_all (loss_sane \<circ> rr_record) rs"
  shows "\<exists>c'. rbc_poll c ring = Ok (c', \<lparr>rb_records = [x \<leftarrow> rs. rbc_cursor_abs c \<le> rr_start_abs x],
       rb_next_abs = ring_head_abs ring, rb_lapped = (rbc_cursor_abs c < ring_oldest_abs ring)\<rparr>)"
proof -
  let ?new = "[x \<leftarrow> rs. rbc_cursor_abs c \<le> rr_start_abs x]"
  have "list_all loss_sane (map rr_record ?new)" using assms(5) by (auto simp: list_all_iff)
  from account_all_inv [OF assms(4) this, where 'e = RingError] obtain t where
    "account_all (rbc_tracker c) (map rr_record ?new) = (Ok t :: (LossTracker, RingError) outcome)" by blast
  moreover have "ring_holds ring rs" using assms(1) by (simp add: ring_inv_def)
  ultimately show ?thesis
    using assms(2,3)
    by (simp add: rbc_poll_def rbc_account_batch_def read_raw_from_ok [of ring rs] read_from_ok [of ring rs])
qed

section \<open>Properties of the consumers\<close>



text \<open>The same guarantee for the consumer that reads through the in-memory index.\<close>

theorem indexed_consumer_delivery:
  assumes "ring_new cap = (Ok ring :: (RingBuffer, RingError) outcome)"
    and "(session_step lac_poll)\<^sup>*\<^sup>* (session_start ring (lac_with_buffer_id b)) s"
    and "lac_poll (ses_consumer s) (ses_ring s) = Ok (c, batch)"
  shows "subseq (ses_delivered s @ map rr_record (rb_records batch))
           (map (\<lambda>r. normalise_flags r True) (ses_produced s))
     \<and> (\<not> ses_lapped s \<and> \<not> rb_lapped batch \<longrightarrow>
          ses_delivered s @ map rr_record (rb_records batch)
            = map (\<lambda>r. normalise_flags r True) (ses_produced s))"
proof -
  have "lac_cursor_abs (lac_with_buffer_id b) = 0" by (simp add: lac_with_buffer_id_def)
  from indexed.session_delivery [OF assms(1) this assms(2) session_step.consume [of lac_poll, OF assms(3)]]
  show ?thesis by simp
qed

theorem indexed_consumer_delivery_witness:
  "\<exists>ring c batch. ring_new 100 = (Ok ring :: (RingBuffer, RingError) outcome)
     \<and> lac_poll (lac_with_buffer_id 1) ring = Ok (c, batch) \<and> subseq (map rr_record (rb_records batch)) []"
proof -
  from ring_new_inv [of 100] obtain ring where r: "ring_new 100 = (Ok ring :: (_, RingError) outcome)"
    "ring_inv ring []" by auto
  then obtain c batch where p: "lac_poll (lac_with_buffer_id 1) ring = Ok (c, batch)"
    by (auto simp: lac_poll_def lac_account_batch_def ring_inv_def read_from_ok)
  have "(session_step lac_poll)\<^sup>*\<^sup>* (session_start ring (lac_with_buffer_id 1)) (session_start ring (lac_with_buffer_id 1))"
    by simp
  from indexed_consumer_delivery [OF r(1) this] p r show ?thesis by (fastforce simp: session_start_def)
qed



end
