(* ===== verification/Definition_Model.thy ===== *)
theory Definition_Model
  imports Registry
begin

text \<open>
  The content model of a definition file, \<open>crates/definition/src/model.rs\<close>: one record per struct, in
  dependency order, the canonical event schemas of the whole registry, and the sample definition.  A
  \<open>String\<close> is the list of its UTF-8 bytes.  The serde attributes (field names, defaults, refusal of
  unknown fields) describe the JSON reader and are not modelled.
\<close>

section \<open>Data\<close>

datatype OverflowPolicy = OverwriteOldest | DropNewest | HoldProducer

datatype EpochStrategy = Retain | Clear

datatype MaxOccurs = Count u16 | Unbounded string

record DefinitionCaps =
  dc_crc :: bool
  dc_source_high_water :: bool

record DefinitionConstraints =
  dk_max_record_size :: u16
  dk_max_slots :: u16
  dk_overflow_policy :: OverflowPolicy

record DefinitionHeader =
  dh_wire_version :: u16
  dh_semantic_version :: string
  dh_profiles :: "string list"
  dh_conformance_level :: string
  dh_caps :: DefinitionCaps
  dh_constraints :: DefinitionConstraints
  dh_epoch_strategy :: EpochStrategy
  dh_content_hash :: string

record SlotDefinition =
  sd_key :: u16
  sd_tlv_type :: "u8 option"
  sd_value_payload :: bool
  sd_min_occurs :: u16
  sd_max_occurs :: MaxOccurs
  sd_order_class :: u16

record EventTypeDefinition =
  et_id :: u32
  et_name :: string
  et_profile :: string
  et_slots :: "SlotDefinition list"

record SourceDefinition =
  src_source_id :: u32
  src_name :: string
  src_path :: "string list"
  src_hierarchy :: "string list"
  src_dynamic :: bool

record StateMachineDefinition =
  sm_state_machine_id :: u32
  sm_name :: string
  sm_category :: u16
  sm_procedural_model :: "string option"
  sm_enum_set :: string

record CauseOperandDefinition =
  co_operand_id :: u32
  co_name :: string

record ConditionDefinition =
  cd_condition_id :: u32
  cd_name :: string
  cd_condition_class :: u16
  cd_default_severity :: u16
  cd_cause_operands :: "CauseOperandDefinition list"

record MessageTemplateDefinition =
  mt_message_template_id :: u32
  mt_name :: string
  mt_format :: string
  mt_arg_types :: "u8 list"

record ScaledInteger =
  si_value :: int
  si_scale :: u32

record Deadband =
  db_decimal :: "string option"
  db_scaled :: "ScaledInteger option"

record ValueDefinition =
  vd_value_id :: u32
  vd_name :: string
  vd_data_type :: u8
  vd_semantic_role :: u16
  vd_unit :: "u16 option"
  vd_deadband :: "Deadband option"
  vd_sampling_policy :: "string option"

record UnitDefinition =
  ud_unit_id :: u16
  ud_symbol :: string

record RecipeDefinition =
  rd_recipe_id :: u32
  rd_name :: string
  rd_version :: "string option"

record BatchDefinition =
  bd_batch_id :: u32
  bd_name :: string
  bd_recipe :: "u32 option"

record MaterialDefinition =
  md_material_id :: u32
  md_name :: string
  md_unit :: "u16 option"

record OperatorDefinition =
  od_actor :: string
  od_name :: string
  od_roles :: "string list"

record ESignatureMeaningDefinition =
  em_meaning :: u16
  em_label :: string

record EnumMember =
  en_value :: u16
  en_label :: string

record EnumSetDefinition =
  ed_name :: string
  ed_members :: "EnumMember list"

record SeverityBandDefinition =
  sb_min :: u16
  sb_max :: u16

record SeverityScale =
  sc_name :: string
  sc_low :: SeverityBandDefinition
  sc_medium :: SeverityBandDefinition
  sc_high :: SeverityBandDefinition

record DefinitionFile =
  df_header :: DefinitionHeader
  df_event_types :: "EventTypeDefinition list"
  df_sources :: "SourceDefinition list"
  df_state_machines :: "StateMachineDefinition list"
  df_conditions :: "ConditionDefinition list"
  df_message_templates :: "MessageTemplateDefinition list"
  df_values :: "ValueDefinition list"
  df_units :: "UnitDefinition list"
  df_enum_sets :: "EnumSetDefinition list"
  df_recipe_definitions :: "RecipeDefinition list"
  df_batch_definitions :: "BatchDefinition list"
  df_material_definitions :: "MaterialDefinition list"
  df_operator_definitions :: "OperatorDefinition list"
  df_e_signature_meanings :: "ESignatureMeaningDefinition list"
  df_severity_scale :: SeverityScale

definition PRODUCER_MAX_RECORD_SIZE :: u16 where
  "PRODUCER_MAX_RECORD_SIZE = 256"

section \<open>Canonical event schemas\<close>

definition slot :: "u16 \<Rightarrow> u8 \<Rightarrow> u16 \<Rightarrow> MaxOccurs \<Rightarrow> u16 \<Rightarrow> SlotDefinition" where
  "slot key tlv_type min_occurs max_occurs order_cls =
     \<lparr>sd_key = key, sd_tlv_type = Some tlv_type, sd_value_payload = False, sd_min_occurs = min_occurs,
      sd_max_occurs = max_occurs, sd_order_class = order_cls\<rparr>"

definition value_slot :: "u16 \<Rightarrow> u16 \<Rightarrow> MaxOccurs \<Rightarrow> u16 \<Rightarrow> SlotDefinition" where
  "value_slot key min_occurs max_occurs order_cls =
     \<lparr>sd_key = key, sd_tlv_type = None, sd_value_payload = True, sd_min_occurs = min_occurs,
      sd_max_occurs = max_occurs, sd_order_class = order_cls\<rparr>"

text \<open>The \<open>match\<close> of \<open>canonical_event_type\<close>, one definition per event group of the registry.\<close>

definition canonical_slots_base :: "u32 \<Rightarrow> SlotDefinition list option" where
  "canonical_slots_base i =
     (if i = EVENT_STATE_TRANSITION then Some
         [slot KEY_STATE_MACHINE_ID TY_UDINT 1 (Count 1) 1,
          slot KEY_CATEGORY TY_UINT 1 (Count 1) 2,
          slot KEY_PREVIOUS_STATE TY_UINT 1 (Count 1) 3,
          slot KEY_NEW_STATE TY_UINT 1 (Count 1) 4]
      else if i = EVENT_VALUE_CHANGED then Some
         [slot KEY_VALUE_ID TY_UDINT 1 (Count 1) 1,
          value_slot KEY_NEW_VALUE 1 (Count 1) 2,
          value_slot KEY_PREVIOUS_VALUE 0 (Count 1) 3,
          slot KEY_QUALITY TY_UINT 0 (Count 1) 4,
          slot KEY_SEMANTIC_ROLE TY_UINT 0 (Count 1) 5,
          slot KEY_UNIT TY_UINT 0 (Count 1) 6]
      else if i = EVENT_MESSAGE then Some
         [slot KEY_MESSAGE_TEMPLATE_ID TY_UDINT 1 (Count 1) 1,
          value_slot KEY_ARG 0 (Unbounded ''unbounded'') 2,
          slot KEY_SEVERITY TY_UINT 0 (Count 1) 3]
      else None)"

definition canonical_slots_system :: "u32 \<Rightarrow> SlotDefinition list option" where
  "canonical_slots_system i =
     (if i = EVENT_HEARTBEAT then Some
         [slot KEY_INTERVAL_MS TY_UDINT 0 (Count 1) 1,
          slot KEY_SEQ_BASE TY_ULINT 0 (Count 1) 2]
      else if i = EVENT_LOGGER_STARTED then Some
         [slot KEY_COLD_START TY_BOOL 1 (Count 1) 1]
      else if i = EVENT_LOGGER_STOPPED \<or> i = EVENT_BUFFER_CLEARED then Some
         []
      else if i = EVENT_RECORDS_DROPPED then Some
         [slot KEY_DROPPED_COUNT TY_UDINT 1 (Count 1) 1,
          slot KEY_FIRST_LOST_SEQ TY_ULINT 1 (Count 1) 2,
          slot KEY_LAST_LOST_SEQ TY_ULINT 1 (Count 1) 3,
          slot KEY_WINDOW_START TY_DATE_TIME 0 (Count 1) 4,
          slot KEY_WINDOW_END TY_DATE_TIME 0 (Count 1) 5]
      else if i = EVENT_SOURCE_REGISTERED then Some
         [slot KEY_REGISTERED_SOURCE_ID TY_UDINT 1 (Count 1) 1,
          slot KEY_SOURCE_PATH TY_STRING 0 (Count 1) 2]
      else if i = EVENT_DEFINITION_CHANGED then Some
         [slot KEY_DEF_HASH_OLD TY_BYTES 1 (Count 1) 1,
          slot KEY_DEF_HASH_NEW TY_BYTES 1 (Count 1) 2,
          slot KEY_EPOCH_ID TY_ULINT 1 (Count 1) 3]
      else if i = EVENT_TIME_SYNC_CHANGED then Some
         [slot KEY_CLOCK_QUALITY TY_UINT 1 (Count 1) 1,
          slot KEY_WINDOW_START TY_DATE_TIME 0 (Count 1) 2,
          slot KEY_WINDOW_END TY_DATE_TIME 0 (Count 1) 3]
      else if i = EVENT_SOURCE_HIGH_WATER then Some
         [slot KEY_SOURCE_HIGH_WATER TY_ULINT 1 (Count 1) 1]
      else None)"

definition canonical_slots_condition :: "u32 \<Rightarrow> SlotDefinition list option" where
  "canonical_slots_condition i =
     (if i = EVENT_CONDITION_ACTIVE then Some
         [slot KEY_CONDITION_ID TY_UDINT 1 (Count 1) 1,
          slot KEY_CONDITION_CLASS TY_UINT 1 (Count 1) 2,
          slot KEY_CORRELATION_ID TY_UDINT 1 (Count 1) 3,
          slot KEY_SEVERITY TY_UINT 0 (Count 1) 4,
          slot KEY_CAUSE_OPERAND TY_UDINT 0 (Unbounded ''unbounded'') 5,
          slot KEY_GROUP_ID TY_UDINT 0 (Count 1) 6,
          slot KEY_FIRST_IN_GROUP TY_BOOL 0 (Count 1) 7,
          slot KEY_REFRESH_ID TY_UDINT 0 (Count 1) 8]
      else if i = EVENT_CONDITION_CLEARED then Some
         [slot KEY_CONDITION_ID TY_UDINT 1 (Count 1) 1,
          slot KEY_CONDITION_CLASS TY_UINT 1 (Count 1) 2,
          slot KEY_CORRELATION_ID TY_UDINT 1 (Count 1) 3,
          slot KEY_REFRESH_ID TY_UDINT 0 (Count 1) 4]
      else if i = EVENT_CONDITION_ACKNOWLEDGED \<or> i = EVENT_CONDITION_CONFIRMED then Some
         [slot KEY_CONDITION_ID TY_UDINT 1 (Count 1) 1,
          slot KEY_CORRELATION_ID TY_UDINT 1 (Count 1) 2,
          slot KEY_ACK_BY TY_STRING 0 (Count 1) 3,
          slot KEY_REFRESH_ID TY_UDINT 0 (Count 1) 4]
      else if i = EVENT_CONDITION_SHELVED then Some
         [slot KEY_CONDITION_ID TY_UDINT 1 (Count 1) 1,
          slot KEY_CORRELATION_ID TY_UDINT 1 (Count 1) 2,
          slot KEY_ACK_BY TY_STRING 0 (Count 1) 3,
          slot KEY_SHELVE_SECS TY_UDINT 0 (Count 1) 4,
          slot KEY_REFRESH_ID TY_UDINT 0 (Count 1) 5]
      else if i = EVENT_CONDITION_UNSHELVED then Some
         [slot KEY_CONDITION_ID TY_UDINT 1 (Count 1) 1,
          slot KEY_CORRELATION_ID TY_UDINT 1 (Count 1) 2,
          slot KEY_REFRESH_ID TY_UDINT 0 (Count 1) 3]
      else if i = EVENT_CONDITION_SUPPRESSED then Some
         [slot KEY_CONDITION_ID TY_UDINT 1 (Count 1) 1,
          slot KEY_REASON TY_STRING 0 (Count 1) 2,
          slot KEY_REFRESH_ID TY_UDINT 0 (Count 1) 3]
      else if i = EVENT_CONDITION_UNSUPPRESSED \<or> i = EVENT_CONDITION_IN_SERVICE then Some
         [slot KEY_CONDITION_ID TY_UDINT 1 (Count 1) 1,
          slot KEY_REFRESH_ID TY_UDINT 0 (Count 1) 2]
      else if i = EVENT_CONDITION_OUT_OF_SERVICE then Some
         [slot KEY_CONDITION_ID TY_UDINT 1 (Count 1) 1,
          slot KEY_ACK_BY TY_STRING 0 (Count 1) 2,
          slot KEY_REFRESH_ID TY_UDINT 0 (Count 1) 3]
      else if i = EVENT_CONDITION_COMMENTED then Some
         [slot KEY_CONDITION_ID TY_UDINT 1 (Count 1) 1,
          slot KEY_CORRELATION_ID TY_UDINT 1 (Count 1) 2,
          slot KEY_COMMENT TY_STRING 1 (Count 1) 3,
          slot KEY_ACK_BY TY_STRING 0 (Count 1) 4,
          slot KEY_REFRESH_ID TY_UDINT 0 (Count 1) 5]
      else if i = EVENT_CONDITION_RESET then Some
         [slot KEY_CONDITION_ID TY_UDINT 1 (Count 1) 1,
          slot KEY_CORRELATION_ID TY_UDINT 1 (Count 1) 2,
          slot KEY_ACK_BY TY_STRING 0 (Count 1) 3,
          slot KEY_REFRESH_ID TY_UDINT 0 (Count 1) 4]
      else if i = EVENT_CONDITION_PRIORITY_CHANGED then Some
         [slot KEY_CONDITION_ID TY_UDINT 1 (Count 1) 1,
          slot KEY_PREVIOUS_PRIORITY TY_UINT 1 (Count 1) 2,
          slot KEY_NEW_PRIORITY TY_UINT 1 (Count 1) 3,
          slot KEY_ACK_BY TY_STRING 0 (Count 1) 4,
          slot KEY_REFRESH_ID TY_UDINT 0 (Count 1) 5]
      else if i = EVENT_REFRESH_START \<or> i = EVENT_REFRESH_END then Some
         [slot KEY_REFRESH_ID TY_UDINT 1 (Count 1) 1]
      else None)"

definition canonical_slots_procedural :: "u32 \<Rightarrow> SlotDefinition list option" where
  "canonical_slots_procedural i =
     (if i = EVENT_RECIPE_LOADED then Some
         [slot KEY_RECIPE_ID TY_UDINT 1 (Count 1) 1,
          slot KEY_RECIPE_VERSION TY_STRING 1 (Count 1) 2,
          slot KEY_BATCH_ID TY_UDINT 0 (Count 1) 3,
          slot KEY_EFFECTIVE_TIME TY_DATE_TIME 0 (Count 1) 4]
      else if i = EVENT_RECIPE_APPROVED then Some
         [slot KEY_RECIPE_ID TY_UDINT 1 (Count 1) 1,
          slot KEY_RECIPE_VERSION TY_STRING 1 (Count 1) 2,
          slot KEY_AUTH_RESULT TY_UINT 0 (Count 1) 3,
          slot KEY_ACK_BY TY_STRING 0 (Count 1) 4]
      else if i = EVENT_BATCH_EVENT then Some
         [slot KEY_BATCH_ID TY_UDINT 1 (Count 1) 1,
          slot KEY_NEW_STATE TY_UINT 1 (Count 1) 2,
          slot KEY_RECIPE_ID TY_UDINT 0 (Count 1) 3]
      else if i = EVENT_MATERIAL_ADDITION then Some
         [slot KEY_BATCH_ID TY_UDINT 1 (Count 1) 1,
          slot KEY_MATERIAL_ID TY_UDINT 1 (Count 1) 2,
          slot KEY_QUANTITY TY_LREAL 1 (Count 1) 3,
          slot KEY_UNIT TY_UINT 0 (Count 1) 4,
          slot KEY_CORRECTION_OF TY_ULINT 0 (Count 1) 5]
      else None)"

definition canonical_slots_regulated :: "u32 \<Rightarrow> SlotDefinition list option" where
  "canonical_slots_regulated i =
     (if i = EVENT_OPERATOR_ACTION then Some
         [slot KEY_ACTION_ID TY_UDINT 1 (Count 1) 1,
          slot KEY_ACTOR TY_STRING 1 (Count 1) 2,
          slot KEY_CONTEXT_REF TY_UDINT 0 (Unbounded ''unbounded'') 3,
          slot KEY_AUTH_RESULT TY_UINT 0 (Count 1) 4,
          slot KEY_WORKSTATION TY_STRING 0 (Count 1) 5]
      else if i = EVENT_OPERATOR_LOGIN then Some
         [slot KEY_ACTOR TY_STRING 1 (Count 1) 1,
          slot KEY_AUTH_RESULT TY_UINT 1 (Count 1) 2,
          slot KEY_WORKSTATION TY_STRING 0 (Count 1) 3,
          slot KEY_ROLE TY_UINT 0 (Count 1) 4]
      else if i = EVENT_OPERATOR_LOGOUT then Some
         [slot KEY_ACTOR TY_STRING 1 (Count 1) 1,
          slot KEY_WORKSTATION TY_STRING 0 (Count 1) 2]
      else if i = EVENT_PARAMETER_CHANGE then Some
         [slot KEY_VALUE_ID TY_UDINT 1 (Count 1) 1,
          value_slot KEY_PREVIOUS_VALUE 1 (Count 1) 2,
          value_slot KEY_NEW_VALUE 1 (Count 1) 3,
          slot KEY_ACTOR TY_STRING 1 (Count 1) 4,
          slot KEY_REASON TY_STRING 1 (Count 1) 5,
          slot KEY_AUTH_RESULT TY_UINT 0 (Count 1) 6]
      else if i = EVENT_ESIGNATURE then Some
         [slot KEY_ACTION_ID TY_UDINT 1 (Count 1) 1,
          slot KEY_ACTOR TY_STRING 1 (Count 1) 2,
          slot KEY_SIGNATURE_MEANING TY_UINT 1 (Count 1) 3,
          slot KEY_SIGNED_EVENT_SEQ TY_ULINT 1 (Count 1) 4,
          slot KEY_AUTH_RESULT TY_UINT 0 (Count 1) 5]
      else if i = EVENT_SECURITY_ACCESS_FAILURE then Some
         [slot KEY_ACTOR TY_STRING 1 (Count 1) 1,
          slot KEY_WORKSTATION TY_STRING 0 (Count 1) 2,
          slot KEY_REASON TY_STRING 0 (Count 1) 3]
      else if i = EVENT_PROGRAM_DOWNLOAD then Some
         [slot KEY_DEF_HASH_NEW TY_BYTES 1 (Count 1) 1,
          slot KEY_PROGRAM_ID TY_UDINT 1 (Count 1) 2,
          slot KEY_ACTOR TY_STRING 1 (Count 1) 3,
          slot KEY_AUTH_RESULT TY_UINT 0 (Count 1) 4]
      else None)"

definition canonical_slots :: "u32 \<Rightarrow> SlotDefinition list option" where
  "canonical_slots i =
     (case canonical_slots_base i of Some slots \<Rightarrow> Some slots | None \<Rightarrow>
     (case canonical_slots_system i of Some slots \<Rightarrow> Some slots | None \<Rightarrow>
     (case canonical_slots_condition i of Some slots \<Rightarrow> Some slots | None \<Rightarrow>
     (case canonical_slots_procedural i of Some slots \<Rightarrow> Some slots | None \<Rightarrow>
      canonical_slots_regulated i))))"

definition canonical_event_type :: "u32 \<Rightarrow> EventTypeDefinition option" where
  "canonical_event_type i =
     (case canonical_slots i of None \<Rightarrow> None
      | Some slots \<Rightarrow>
         (case event_spec i of None \<Rightarrow> None
          | Some spec \<Rightarrow> Some \<lparr>et_id = i, et_name = es_name spec,
              et_profile = (case es_group spec of Base \<Rightarrow> ''Core'' | System \<Rightarrow> ''Full''
                 | Condition \<Rightarrow> ''Full'' | Procedural \<Rightarrow> ''Full'' | Regulated \<Rightarrow> ''Full''),
              et_slots = slots\<rparr>))"

fun expect_event_types :: "EventSpec list \<Rightarrow> (EventTypeDefinition list, 'e) outcome" where
  "expect_event_types [] = Ok []"
| "expect_event_types (spec # specs) =
     (case canonical_event_type (es_id spec) of
        None \<Rightarrow> Panic ExpectFailed
      | Some e \<Rightarrow> and_then (expect_event_types specs) (\<lambda>es. Ok (e # es)))"

definition canonical_event_types :: "(EventTypeDefinition list, 'e) outcome" where
  "canonical_event_types = expect_event_types EVENT_SPECS"

section \<open>The sample definition\<close>

definition sample_header :: DefinitionHeader where
  "sample_header =
     \<lparr>dh_wire_version = 2, dh_semantic_version = ''1.0.0'', dh_profiles = [''Core'', ''Full''],
      dh_conformance_level = ''Producer-Full'',
      dh_caps = \<lparr>dc_crc = True, dc_source_high_water = True\<rparr>,
      dh_constraints = \<lparr>dk_max_record_size = PRODUCER_MAX_RECORD_SIZE, dk_max_slots = 16,
        dk_overflow_policy = OverwriteOldest\<rparr>,
      dh_epoch_strategy = Retain, dh_content_hash = []\<rparr>"

definition sample_values :: "ValueDefinition list" where
  "sample_values =
     [\<lparr>vd_value_id = 2001, vd_name = ''Temperature'', vd_data_type = TY_REAL, vd_semantic_role = 0, vd_unit = None,
        vd_deadband = Some \<lparr>db_decimal = Some ''0.5'', db_scaled = None\<rparr>, vd_sampling_policy = None\<rparr>,
      \<lparr>vd_value_id = 2002, vd_name = ''BatchCount'', vd_data_type = TY_DINT, vd_semantic_role = 3, vd_unit = None,
        vd_deadband = None, vd_sampling_policy = Some ''on-change''\<rparr>,
      \<lparr>vd_value_id = 2003, vd_name = ''Enabled'', vd_data_type = TY_BOOL, vd_semantic_role = 0, vd_unit = None,
        vd_deadband = None, vd_sampling_policy = Some ''on-change''\<rparr>,
      \<lparr>vd_value_id = 2004, vd_name = ''SmallSigned'', vd_data_type = TY_SINT, vd_semantic_role = 0, vd_unit = None,
        vd_deadband = None, vd_sampling_policy = Some ''on-change''\<rparr>,
      \<lparr>vd_value_id = 2005, vd_name = ''SmallUnsigned'', vd_data_type = TY_USINT, vd_semantic_role = 0, vd_unit = None,
        vd_deadband = None, vd_sampling_policy = Some ''on-change''\<rparr>,
      \<lparr>vd_value_id = 2006, vd_name = ''SignedWord'', vd_data_type = TY_INT, vd_semantic_role = 0, vd_unit = None,
        vd_deadband = None, vd_sampling_policy = Some ''on-change''\<rparr>,
      \<lparr>vd_value_id = 2007, vd_name = ''UnsignedWord'', vd_data_type = TY_UINT, vd_semantic_role = 0, vd_unit = None,
        vd_deadband = None, vd_sampling_policy = Some ''on-change''\<rparr>,
      \<lparr>vd_value_id = 2008, vd_name = ''UnsignedDoubleWord'', vd_data_type = TY_UDINT, vd_semantic_role = 0, vd_unit = None,
        vd_deadband = None, vd_sampling_policy = Some ''on-change''\<rparr>,
      \<lparr>vd_value_id = 2009, vd_name = ''UnsignedLong'', vd_data_type = TY_ULINT, vd_semantic_role = 0, vd_unit = None,
        vd_deadband = None, vd_sampling_policy = Some ''on-change''\<rparr>,
      \<lparr>vd_value_id = 2010, vd_name = ''SignedLong'', vd_data_type = TY_LINT, vd_semantic_role = 0, vd_unit = None,
        vd_deadband = None, vd_sampling_policy = Some ''on-change''\<rparr>,
      \<lparr>vd_value_id = 2011, vd_name = ''HighPrecision'', vd_data_type = TY_LREAL, vd_semantic_role = 0, vd_unit = None,
        vd_deadband = None, vd_sampling_policy = Some ''on-change''\<rparr>,
      \<lparr>vd_value_id = 2012, vd_name = ''StatusText'', vd_data_type = TY_STRING, vd_semantic_role = 5, vd_unit = None,
        vd_deadband = None, vd_sampling_policy = Some ''on-change''\<rparr>]"

definition sample_definition :: "(DefinitionFile, 'e) outcome" where
  "sample_definition =
     and_then canonical_event_types (\<lambda>event_types. Ok
       \<lparr>df_header = sample_header,
        df_event_types = event_types,
        df_sources = [\<lparr>src_source_id = 66, src_name = ''UnitA.Phase1'', src_path = [''Area1'', ''UnitA'', ''Phase1''],
          src_hierarchy = [''area'', ''unit'', ''phase''], src_dynamic = False\<rparr>],
        df_state_machines = [\<lparr>sm_state_machine_id = 7, sm_name = ''CoreProcedure'', sm_category = 2,
          sm_procedural_model = Some ''ISA-88'', sm_enum_set = ''CoreProcedureStates''\<rparr>],
        df_conditions = [\<lparr>cd_condition_id = 9001, cd_name = ''HighPhAlarm'', cd_condition_class = 0,
          cd_default_severity = 900, cd_cause_operands = [\<lparr>co_operand_id = 1, co_name = ''Level''\<rparr>]\<rparr>],
        df_message_templates = [\<lparr>mt_message_template_id = 1001, mt_name = ''Status'',
          mt_format = ''Status: {1}'', mt_arg_types = [TY_STRING]\<rparr>],
        df_values = sample_values,
        df_units = [],
        df_enum_sets = [\<lparr>ed_name = ''CoreProcedureStates'',
          ed_members = [\<lparr>en_value = 3, en_label = ''Pausing''\<rparr>, \<lparr>en_value = 4, en_label = ''Paused''\<rparr>]\<rparr>],
        df_recipe_definitions = [], df_batch_definitions = [], df_material_definitions = [],
        df_operator_definitions = [],
        df_e_signature_meanings =
          map (\<lambda>meaning. \<lparr>em_meaning = ev_value meaning, em_label = ev_label meaning\<rparr>) SIGNATURE_MEANING_VALUES,
        df_severity_scale = \<lparr>sc_name = ''baseline'', sc_low = \<lparr>sb_min = 1, sb_max = 332\<rparr>,
          sc_medium = \<lparr>sb_min = 333, sb_max = 666\<rparr>, sc_high = \<lparr>sb_min = 667, sb_max = 1000\<rparr>\<rparr>\<rparr>)"

end
