(* ===== verification/Btree.thy ===== *)
theory Btree
  imports Main
begin

text \<open>
  \<open>BTreeMap\<close> of the Rust standard library where the program iterates over it: a list of key-value
  pairs in strictly increasing key order, which is the order of iteration.
\<close>

type_synonym ('k, 'v) btree = "('k \<times> 'v) list"

fun btree_insert :: "'k::linorder \<Rightarrow> 'v \<Rightarrow> ('k, 'v) btree \<Rightarrow> ('k, 'v) btree" where
  "btree_insert k v [] = [(k, v)]"
| "btree_insert k v ((k', v') # m) =
     (if k < k' then (k, v) # (k', v') # m
      else if k = k' then (k, v) # m
      else (k', v') # btree_insert k v m)"

definition btree_get :: "('k, 'v) btree \<Rightarrow> 'k \<Rightarrow> 'v option" where
  "btree_get m k = map_of m k"

definition btree_ok :: "('k::linorder, 'v) btree \<Rightarrow> bool" where
  "btree_ok m \<longleftrightarrow> sorted_wrt (<) (map fst m)"

lemma set_btree_insert: "fst ` set (btree_insert k v m) = insert k (fst ` set m)"
  by (induction k v m rule: btree_insert.induct) auto

lemma btree_ok_insert [simp, intro]: "btree_ok m \<Longrightarrow> btree_ok (btree_insert k v m)"
proof (induction k v m rule: btree_insert.induct)
  case (2 k v k' v' m)
  then have IH: "btree_ok (btree_insert k v m)" if "\<not> k < k'" "k \<noteq> k'"
    using that by (simp add: btree_ok_def)
  have "set (map fst (btree_insert k v m)) = insert k (set (map fst m))"
    using set_btree_insert [of k v m] by simp
  with 2 IH show ?case by (auto simp: btree_ok_def)
qed (simp add: btree_ok_def)

lemma btree_get_insert [simp]:
  "btree_ok m \<Longrightarrow> btree_get (btree_insert k v m) = (btree_get m)(k \<mapsto> v)"
proof (induction k v m rule: btree_insert.induct)
  case (2 k v k' v' m)
  then show ?case by (auto simp: btree_ok_def btree_get_def fun_eq_iff)
qed (simp add: btree_get_def fun_eq_iff)

lemma btree_ok_Nil [simp]: "btree_ok []"
  by (simp add: btree_ok_def)

lemma btree_get_Nil [simp]: "btree_get [] = Map.empty"
  by (simp add: btree_get_def fun_eq_iff)

lemma btree_get_mem: "btree_ok m \<Longrightarrow> (k, v) \<in> set m \<longleftrightarrow> btree_get m k = Some v"
  unfolding btree_ok_def btree_get_def
  by (metis map_of_eq_Some_iff strict_sorted_iff)

end
