(* ===== verification/Schema.thy ===== *)
theory Schema
  imports Definition_Model Wire Btree
begin

text \<open>
  Record and definition schema validation, \<open>crates/definition/src/schema.rs\<close>.  The loops are recursions
  over the slots, events and state machines in source order; the \<open>BTreeMap\<close>s of slot positions and
  counts are ordered association lists, because their iteration order decides which violation is
  reported first; a \<open>BTreeSet\<close> that is only tested for membership is the list of what was inserted.
\<close>

section \<open>Violations and results\<close>

definition VALUE_PAYLOAD_SCHEMA_TYPE :: u8 where
  "VALUE_PAYLOAD_SCHEMA_TYPE = 0xFF"

datatype DefinitionSchemaViolation =
    DuplicateEventId u32
  | DuplicateSlotKey u32 u16
  | OrderClassNotAscending u32 u16 u16
  | CoreTypeMismatch u32 u16 u8 u8
  | DefUnknownTlvType u32 u16 u8
  | DefReservedCoreKey u32 u16
  | InvalidMaxOccurs u32 u16
  | UnknownProceduralModel u32 string
  | MissingEnumSet u32 string
  | ProceduralStateMismatch u32 string u16 string

datatype SchemaViolation =
    Definition DefinitionSchemaViolation
  | UnknownEventId u32
  | RecordTooLarge nat nat
  | TooManySlots nat nat
  | UnexpectedCoreKey u16
  | VendorExtensionNotTrailing u16
  | VendorExtensionOutOfOrder u16 u16
  | TypeMismatch u16 u8 u8
  | UnknownTlvType u16 u8
  | ReservedCoreKey u16
  | FixedWidthMismatch u16 u8 nat nat
  | MissingRequired u16 u16 nat
  | TooManyOccurrences u16 u16 nat
  | RepeatedSlotNotContiguous u16
  | OrderClassViolation u16 u16 u16
  | Encode WireError

record PlaceholderRecord =
  ph_source_id :: u32
  ph_event_type_id :: u32
  ph_run_id :: u64
  ph_seq :: u64
  ph_slots :: "Slot list"
  ph_reason :: SchemaViolation

datatype SchemaValidation = Valid "u16 list" | Placeholder PlaceholderRecord

definition placeholder :: "Record \<Rightarrow> SchemaViolation \<Rightarrow> SchemaValidation" where
  "placeholder r reason =
     Placeholder \<lparr>ph_source_id = rec_source_id r, ph_event_type_id = rec_event_type_id r,
       ph_run_id = rec_run_id r, ph_seq = rec_seq r, ph_slots = rec_slots r, ph_reason = reason\<rparr>"

section \<open>The definition itself\<close>

definition validate_max_occurs :: "u32 \<Rightarrow> SlotDefinition \<Rightarrow> (unit, DefinitionSchemaViolation) outcome" where
  "validate_max_occurs event_id s =
     (case sd_max_occurs s of
        Count n \<Rightarrow> if n < sd_min_occurs s \<or> n = 0 then Err (InvalidMaxOccurs event_id (sd_key s)) else Ok ()
      | Unbounded v \<Rightarrow> if v \<noteq> ''unbounded'' then Err (InvalidMaxOccurs event_id (sd_key s)) else Ok ())"

definition unwrap_or :: "'a option \<Rightarrow> 'a \<Rightarrow> 'a" where
  "unwrap_or x d = (case x of None \<Rightarrow> d | Some v \<Rightarrow> v)"

text \<open>The checks after the \<open>match\<close> on the field kind, reached by fixed core keys and private keys.\<close>

definition validate_declared_type :: "u32 \<Rightarrow> SlotDefinition \<Rightarrow> (unit, DefinitionSchemaViolation) outcome" where
  "validate_declared_type event_id s =
     (if sd_value_payload s
      then Err (CoreTypeMismatch event_id (sd_key s) VALUE_PAYLOAD_SCHEMA_TYPE
                  (unwrap_or (sd_tlv_type s) VALUE_PAYLOAD_SCHEMA_TYPE))
      else case sd_tlv_type s of
        None \<Rightarrow> Err (DefUnknownTlvType event_id (sd_key s) VALUE_PAYLOAD_SCHEMA_TYPE)
      | Some tlv_type \<Rightarrow>
          if tlv_type_spec tlv_type = None then Err (DefUnknownTlvType event_id (sd_key s) tlv_type)
          else Ok ())"

definition validate_slot_definition_type ::
  "u32 \<Rightarrow> SlotDefinition \<Rightarrow> (unit, DefinitionSchemaViolation) outcome" where
  "validate_slot_definition_type event_id s =
     (case field_spec (sd_key s) of
        Some f \<Rightarrow>
          (case fs_kind f of
             Fixed expected \<Rightarrow>
               if sd_tlv_type s \<noteq> Some expected \<or> sd_value_payload s
               then Err (CoreTypeMismatch event_id (sd_key s)
                           (unwrap_or (sd_tlv_type s) VALUE_PAYLOAD_SCHEMA_TYPE) expected)
               else validate_declared_type event_id s
           | ValuePayload \<Rightarrow>
               if \<not> sd_value_payload s \<or> sd_tlv_type s \<noteq> None
               then Err (CoreTypeMismatch event_id (sd_key s)
                           (unwrap_or (sd_tlv_type s) VALUE_PAYLOAD_SCHEMA_TYPE) VALUE_PAYLOAD_SCHEMA_TYPE)
               else Ok ()
           | Reserved \<Rightarrow> Err (DefReservedCoreKey event_id (sd_key s)))
      | None \<Rightarrow>
          if is_core_key (sd_key s) then Err (DefReservedCoreKey event_id (sd_key s))
          else validate_declared_type event_id s)"

fun validate_slot_definitions ::
  "u32 \<Rightarrow> u16 option \<Rightarrow> u16 list \<Rightarrow> SlotDefinition list \<Rightarrow> (unit, DefinitionSchemaViolation) outcome" where
  "validate_slot_definitions event_id previous keys [] = Ok ()"
| "validate_slot_definitions event_id previous keys (s # slots) =
     (if sd_key s \<in> set keys then Err (DuplicateSlotKey event_id (sd_key s))
      else case previous of
        Some p \<Rightarrow>
          if sd_order_class s \<le> p then Err (OrderClassNotAscending event_id p (sd_order_class s))
          else and_then (validate_max_occurs event_id s) (\<lambda>_.
               and_then (validate_slot_definition_type event_id s) (\<lambda>_.
                 validate_slot_definitions event_id (Some (sd_order_class s)) (sd_key s # keys) slots))
      | None \<Rightarrow>
          and_then (validate_max_occurs event_id s) (\<lambda>_.
          and_then (validate_slot_definition_type event_id s) (\<lambda>_.
            validate_slot_definitions event_id (Some (sd_order_class s)) (sd_key s # keys) slots)))"

definition validate_event_definition :: "EventTypeDefinition \<Rightarrow> (unit, DefinitionSchemaViolation) outcome" where
  "validate_event_definition event = validate_slot_definitions (et_id event) None [] (et_slots event)"

fun validate_members ::
  "u32 \<Rightarrow> ProceduralModelSpec \<Rightarrow> EnumMember list \<Rightarrow> (unit, DefinitionSchemaViolation) outcome" where
  "validate_members machine_id model [] = Ok ()"
| "validate_members machine_id model (member # members) =
     (if \<not> list_ex (\<lambda>state. ev_value state = en_value member \<and> ev_label state = en_label member) (pm_states model)
      then Err (ProceduralStateMismatch machine_id (pm_name model) (en_value member) (en_label member))
      else validate_members machine_id model members)"

fun validate_machines ::
  "EnumSetDefinition list \<Rightarrow> StateMachineDefinition list \<Rightarrow> (unit, DefinitionSchemaViolation) outcome" where
  "validate_machines enum_sets [] = Ok ()"
| "validate_machines enum_sets (machine # machines) =
     (case sm_procedural_model machine of
        None \<Rightarrow> validate_machines enum_sets machines
      | Some model_name \<Rightarrow>
         (case find (\<lambda>model. eq_ignore_ascii_case (pm_name model) model_name) PROCEDURAL_MODELS of
            None \<Rightarrow> Err (UnknownProceduralModel (sm_state_machine_id machine) model_name)
          | Some model \<Rightarrow>
             (case find (\<lambda>enum_set. ed_name enum_set = sm_enum_set machine) enum_sets of
                None \<Rightarrow> Err (MissingEnumSet (sm_state_machine_id machine) (sm_enum_set machine))
              | Some enum_set \<Rightarrow>
                  and_then (validate_members (sm_state_machine_id machine) model (ed_members enum_set)) (\<lambda>_.
                    validate_machines enum_sets machines))))"

definition validate_state_machine_models :: "DefinitionFile \<Rightarrow> (unit, DefinitionSchemaViolation) outcome" where
  "validate_state_machine_models d = validate_machines (df_enum_sets d) (df_state_machines d)"

fun validate_events :: "u32 list \<Rightarrow> EventTypeDefinition list \<Rightarrow> (unit, DefinitionSchemaViolation) outcome" where
  "validate_events event_ids [] = Ok ()"
| "validate_events event_ids (event # events) =
     (if et_id event \<in> set event_ids then Err (DuplicateEventId (et_id event))
      else and_then (validate_event_definition event) (\<lambda>_. validate_events (et_id event # event_ids) events))"

definition validate_definition :: "DefinitionFile \<Rightarrow> (unit, DefinitionSchemaViolation) outcome" where
  "validate_definition d =
     and_then (validate_events [] (df_event_types d)) (\<lambda>_. validate_state_machine_models d)"

section \<open>A record against its event schema\<close>

definition encoded_record_len :: "Record \<Rightarrow> (nat, WireError) outcome" where
  "encoded_record_len r =
     and_then (encode r (rec_flags r AND FLAG_HAS_CRC \<noteq> 0)) (\<lambda>bytes. Ok (length bytes))"

definition validate_record_slot_type :: "Slot \<Rightarrow> SlotDefinition \<Rightarrow> (unit, SchemaViolation) outcome" where
  "validate_record_slot_type s schema =
     (case field_spec (slot_key s) of
        Some f \<Rightarrow>
          (case fs_kind f of
             ValuePayload \<Rightarrow>
               if tlv_type_spec (slot_ty s) = None then Err (UnknownTlvType (slot_key s) (slot_ty s)) else Ok ()
           | Fixed expected \<Rightarrow>
               if slot_ty s \<noteq> expected then Err (TypeMismatch (slot_key s) (slot_ty s) expected) else Ok ()
           | Reserved \<Rightarrow> Err (ReservedCoreKey (slot_key s)))
      | None \<Rightarrow>
          if is_core_key (slot_key s) then Err (ReservedCoreKey (slot_key s))
          else if Some (slot_ty s) \<noteq> sd_tlv_type schema
          then Err (TypeMismatch (slot_key s) (slot_ty s) (unwrap_or (sd_tlv_type schema) VALUE_PAYLOAD_SCHEMA_TYPE))
          else Ok ())"

definition record_value_id :: "Record \<Rightarrow> u32 option" where
  "record_value_id r =
     map_option (\<lambda>c. from_le_bytes (slot_payload c))
       (find (\<lambda>c. slot_key c = KEY_VALUE_ID \<and> length (slot_payload c) = 4) (rec_slots r))"

definition validate_value_payload_type ::
  "Slot \<Rightarrow> Record \<Rightarrow> DefinitionFile \<Rightarrow> (unit, SchemaViolation) outcome" where
  "validate_value_payload_type s r d =
     (if slot_key s \<noteq> KEY_PREVIOUS_VALUE \<and> slot_key s \<noteq> KEY_NEW_VALUE then Ok ()
      else case record_value_id r of
        None \<Rightarrow> Ok ()
      | Some value_id \<Rightarrow>
         (case find (\<lambda>v. vd_value_id v = value_id) (df_values d) of
            None \<Rightarrow> Ok ()
          | Some value_def \<Rightarrow>
              if slot_ty s \<noteq> vd_data_type value_def
              then Err (TypeMismatch (slot_key s) (slot_ty s) (vd_data_type value_def)) else Ok ()))"

definition validate_payload_width :: "Slot \<Rightarrow> (unit, SchemaViolation) outcome" where
  "validate_payload_width s =
     (case tlv_type_spec (slot_ty s) of
        None \<Rightarrow> Err (UnknownTlvType (slot_key s) (slot_ty s))
      | Some spec \<Rightarrow>
          (let check_empty = (if slot_payload s = [] \<and> slot_ty s \<noteq> TY_STRING \<and> slot_ty s \<noteq> TY_BYTES
              then Err (FixedWidthMismatch (slot_key s) (slot_ty s) 0 (unwrap_or (ts_fixed_width spec) 1))
              else Ok ())
          in case ts_fixed_width spec of
               Some expected \<Rightarrow>
                 if length (slot_payload s) \<noteq> expected
                 then Err (FixedWidthMismatch (slot_key s) (slot_ty s) (length (slot_payload s)) expected)
                 else check_empty
             | None \<Rightarrow> check_empty))"

fun is_contiguous :: "nat list \<Rightarrow> bool" where
  "is_contiguous (a # b # ps) \<longleftrightarrow> b = a + 1 \<and> is_contiguous (b # ps)"
| "is_contiguous _ \<longleftrightarrow> True"

record slot_scan =
  scan_counts :: "(u16, nat) btree"
  scan_positions :: "(u16, nat list) btree"
  scan_known_order :: "(u16 \<times> u16) list"
  scan_extension_keys :: "u16 list"
  scan_previous_vendor_key :: "u16 option"
  scan_saw_vendor_extension :: bool

definition scan_start :: slot_scan where
  "scan_start = \<lparr>scan_counts = [], scan_positions = [], scan_known_order = [], scan_extension_keys = [],
     scan_previous_vendor_key = None, scan_saw_vendor_extension = False\<rparr>"

definition scan_known :: "nat \<Rightarrow> Slot \<Rightarrow> SlotDefinition \<Rightarrow> slot_scan \<Rightarrow> slot_scan" where
  "scan_known index s schema st =
     st\<lparr>scan_known_order := scan_known_order st @ [(sd_order_class schema, slot_key s)],
        scan_counts := btree_insert (slot_key s)
          (unwrap_or (btree_get (scan_counts st) (slot_key s)) 0 + 1) (scan_counts st),
        scan_positions := btree_insert (slot_key s)
          (unwrap_or (btree_get (scan_positions st) (slot_key s)) [] @ [index]) (scan_positions st)\<rparr>"

definition scan_vendor :: "Slot \<Rightarrow> slot_scan \<Rightarrow> slot_scan" where
  "scan_vendor s st =
     st\<lparr>scan_saw_vendor_extension := True, scan_previous_vendor_key := Some (slot_key s),
        scan_extension_keys := scan_extension_keys st @ [slot_key s]\<rparr>"

fun scan_slots ::
  "Record \<Rightarrow> DefinitionFile \<Rightarrow> (u16 \<rightharpoonup> SlotDefinition) \<Rightarrow> nat \<Rightarrow> Slot list \<Rightarrow> slot_scan
     \<Rightarrow> (slot_scan, SchemaViolation) outcome" where
  "scan_slots r d schema_by_key index [] st = Ok st"
| "scan_slots r d schema_by_key index (s # slots) st =
     (case schema_by_key (slot_key s) of
        Some schema \<Rightarrow>
          if scan_saw_vendor_extension st then Err (VendorExtensionNotTrailing (slot_key s))
          else and_then (validate_record_slot_type s schema) (\<lambda>_.
               and_then (validate_value_payload_type s r d) (\<lambda>_.
               and_then (validate_payload_width s) (\<lambda>_.
                 scan_slots r d schema_by_key (index + 1) slots (scan_known index s schema st))))
      | None \<Rightarrow>
          if is_vendor_key (slot_key s)
          then (case scan_previous_vendor_key st of
                  Some previous \<Rightarrow>
                    if slot_key s \<le> previous then Err (VendorExtensionOutOfOrder previous (slot_key s))
                    else scan_slots r d schema_by_key (index + 1) slots (scan_vendor s st)
                | None \<Rightarrow> scan_slots r d schema_by_key (index + 1) slots (scan_vendor s st))
          else Err (UnexpectedCoreKey (slot_key s)))"

fun check_contiguous :: "(u16, nat list) btree \<Rightarrow> (unit, SchemaViolation) outcome" where
  "check_contiguous [] = Ok ()"
| "check_contiguous ((key, occurrences) # positions) =
     (if \<not> is_contiguous occurrences then Err (RepeatedSlotNotContiguous key) else check_contiguous positions)"

fun check_order :: "u16 option \<Rightarrow> (u16 \<times> u16) list \<Rightarrow> (unit, SchemaViolation) outcome" where
  "check_order previous [] = Ok ()"
| "check_order previous ((order_cls, key) # known_order) =
     (case previous of
        Some p \<Rightarrow> if order_cls < p then Err (OrderClassViolation p order_cls key)
                  else check_order (Some order_cls) known_order
      | None \<Rightarrow> check_order (Some order_cls) known_order)"

fun check_occurrences :: "(u16, nat) btree \<Rightarrow> SlotDefinition list \<Rightarrow> (unit, SchemaViolation) outcome" where
  "check_occurrences counts [] = Ok ()"
| "check_occurrences counts (schema # slots) =
     (let actual = unwrap_or (btree_get counts (sd_key schema)) 0 in
      if actual < unat (sd_min_occurs schema) then Err (MissingRequired (sd_key schema) (sd_min_occurs schema) actual)
      else case sd_max_occurs schema of
        Count n \<Rightarrow> if actual > unat n then Err (TooManyOccurrences (sd_key schema) n actual)
                   else check_occurrences counts slots
      | Unbounded _ \<Rightarrow> check_occurrences counts slots)"

definition schema_map :: "EventTypeDefinition \<Rightarrow> u16 \<rightharpoonup> SlotDefinition" where
  "schema_map event = map_of (rev (map (\<lambda>s. (sd_key s, s)) (et_slots event)))"

definition validate_record_slots ::
  "Record \<Rightarrow> EventTypeDefinition \<Rightarrow> DefinitionFile \<Rightarrow> (u16 list, SchemaViolation) outcome" where
  "validate_record_slots r event d =
     and_then (scan_slots r d (schema_map event) 0 (rec_slots r) scan_start) (\<lambda>st.
     and_then (check_contiguous (scan_positions st)) (\<lambda>_.
     and_then (check_order None (scan_known_order st)) (\<lambda>_.
     and_then (check_occurrences (scan_counts st) (et_slots event)) (\<lambda>_.
       Ok (scan_extension_keys st)))))"

definition schema_validate_record :: "Record \<Rightarrow> nat \<Rightarrow> DefinitionFile \<Rightarrow> (SchemaValidation, 'e) outcome" where
  "schema_validate_record r len d =
     (case validate_definition d of
        Err reason \<Rightarrow> Ok (placeholder r (Definition reason))
      | Panic x \<Rightarrow> Panic x
      | Ok _ \<Rightarrow>
        (let constraints = dh_constraints (df_header d) in
         if len > unat (dk_max_record_size constraints)
         then Ok (placeholder r (RecordTooLarge len (unat (dk_max_record_size constraints))))
         else if length (rec_slots r) > unat (dk_max_slots constraints)
         then Ok (placeholder r (TooManySlots (length (rec_slots r)) (unat (dk_max_slots constraints))))
         else case find (\<lambda>event. et_id event = rec_event_type_id r) (df_event_types d) of
           None \<Rightarrow> Ok (placeholder r (UnknownEventId (rec_event_type_id r)))
         | Some event \<Rightarrow>
            (case validate_record_slots r event d of
               Ok extension_keys \<Rightarrow> Ok (Valid extension_keys)
             | Err reason \<Rightarrow> Ok (placeholder r reason)
             | Panic x \<Rightarrow> Panic x)))"

section \<open>Well-formed definitions\<close>

definition max_occurs_ok :: "SlotDefinition \<Rightarrow> bool" where
  "max_occurs_ok s \<longleftrightarrow>
     (case sd_max_occurs s of Count n \<Rightarrow> sd_min_occurs s \<le> n \<and> 0 < n | Unbounded v \<Rightarrow> v = ''unbounded'')"

definition declared_type_ok :: "SlotDefinition \<Rightarrow> bool" where
  "declared_type_ok s \<longleftrightarrow>
     (case field_spec (sd_key s) of
        Some f \<Rightarrow> (case fs_kind f of
            Fixed t \<Rightarrow> sd_tlv_type s = Some t \<and> \<not> sd_value_payload s
          | ValuePayload \<Rightarrow> sd_tlv_type s = None \<and> sd_value_payload s
          | Reserved \<Rightarrow> False)
      | None \<Rightarrow> \<not> is_core_key (sd_key s) \<and> \<not> sd_value_payload s
          \<and> (case sd_tlv_type s of None \<Rightarrow> False | Some t \<Rightarrow> tlv_type_spec t \<noteq> None))"

definition event_schema_ok :: "EventTypeDefinition \<Rightarrow> bool" where
  "event_schema_ok e \<longleftrightarrow> distinct (map sd_key (et_slots e)) \<and> sorted_wrt (<) (map sd_order_class (et_slots e))
     \<and> list_all (\<lambda>s. max_occurs_ok s \<and> declared_type_ok s) (et_slots e)"

definition machine_ok :: "EnumSetDefinition list \<Rightarrow> StateMachineDefinition \<Rightarrow> bool" where
  "machine_ok enum_sets machine \<longleftrightarrow>
     (case sm_procedural_model machine of None \<Rightarrow> True
      | Some name \<Rightarrow>
         (case (find (\<lambda>m. eq_ignore_ascii_case (pm_name m) name) PROCEDURAL_MODELS,
                find (\<lambda>s. ed_name s = sm_enum_set machine) enum_sets) of
            (Some model, Some enum_set) \<Rightarrow>
              list_all (\<lambda>e. (en_value e, en_label e) \<in> (\<lambda>s. (ev_value s, ev_label s)) ` set (pm_states model))
                (ed_members enum_set)
          | _ \<Rightarrow> False))"

definition definition_ok :: "DefinitionFile \<Rightarrow> bool" where
  "definition_ok d \<longleftrightarrow> distinct (map et_id (df_event_types d)) \<and> list_all event_schema_ok (df_event_types d)
     \<and> list_all (machine_ok (df_enum_sets d)) (df_state_machines d)"

lemma validate_max_occurs_eq_Ok: "validate_max_occurs i s = Ok u \<longleftrightarrow> max_occurs_ok s"
  by (auto simp: validate_max_occurs_def max_occurs_ok_def not_less word_gt_0 split: MaxOccurs.splits)

lemma field_spec_fixed: "field_spec k = Some f \<Longrightarrow> fs_kind f = Fixed t \<Longrightarrow> tlv_type_spec t \<noteq> None"
  using field_tags find_complete [OF distinct_field_keys, of k f]
  by (fastforce simp: field_spec_def list_all_iff)

lemma validate_slot_definition_type_eq_Ok:
  "validate_slot_definition_type i s = Ok u \<longleftrightarrow> declared_type_ok s"
  by (auto simp: validate_slot_definition_type_def declared_type_ok_def validate_declared_type_def
      split: option.splits FieldKind.splits dest: field_spec_fixed)

lemma validate_slot_definitions_eq_Ok:
  "validate_slot_definitions i previous keys slots = Ok u \<longleftrightarrow>
     distinct (map sd_key slots) \<and> set (map sd_key slots) \<inter> set keys = {}
     \<and> sorted_wrt (<) ((case previous of None \<Rightarrow> [] | Some p \<Rightarrow> [p]) @ map sd_order_class slots)
     \<and> list_all (\<lambda>s. max_occurs_ok s \<and> declared_type_ok s) slots"
proof (induction i previous keys slots rule: validate_slot_definitions.induct)
  case (2 i previous keys s slots)
  then show ?case
    by (cases previous) (auto simp: outcome_simps validate_max_occurs_eq_Ok validate_slot_definition_type_eq_Ok
        not_le intro: less_trans)
qed (auto split: option.splits)

lemma validate_event_definition_eq_Ok: "validate_event_definition e = Ok u \<longleftrightarrow> event_schema_ok e"
  by (auto simp: validate_event_definition_def event_schema_ok_def validate_slot_definitions_eq_Ok)

lemma validate_events_eq_Ok:
  "validate_events ids es = Ok u \<longleftrightarrow>
     distinct (map et_id es) \<and> set (map et_id es) \<inter> set ids = {} \<and> list_all event_schema_ok es"
  by (induction ids es rule: validate_events.induct)
     (auto simp: outcome_simps validate_event_definition_eq_Ok)

lemma validate_members_eq_Ok:
  "validate_members i model es = Ok u \<longleftrightarrow>
     list_all (\<lambda>e. (en_value e, en_label e) \<in> (\<lambda>s. (ev_value s, ev_label s)) ` set (pm_states model)) es"
proof (induction es)
  case (Cons e es)
  have "list_ex (\<lambda>s. ev_value s = en_value e \<and> ev_label s = en_label e) (pm_states model) \<longleftrightarrow>
      (en_value e, en_label e) \<in> (\<lambda>s. (ev_value s, ev_label s)) ` set (pm_states model)"
    by (auto simp: list_ex_iff image_iff) metis
  with Cons show ?case by simp
qed simp

lemma validate_machines_eq_Ok:
  "validate_machines sets ms = Ok u \<longleftrightarrow> list_all (machine_ok sets) ms"
proof (induction ms)
  case (Cons m ms)
  then show ?case
    by (cases "sm_procedural_model m")
       (auto simp: outcome_simps machine_ok_def [of sets m] validate_members_eq_Ok split: option.splits)
qed simp

lemma validate_definition_eq_Ok: "validate_definition d = Ok u \<longleftrightarrow> definition_ok d"
  by (auto simp: validate_definition_def validate_state_machine_models_def definition_ok_def outcome_simps
      validate_events_eq_Ok validate_machines_eq_Ok)

section \<open>Validation never panics\<close>

lemma validate_slot_definitions_no_panic: "\<not> is_panic (validate_slot_definitions i p ks ss)"
  by (induction i p ks ss rule: validate_slot_definitions.induct)
     (auto simp: validate_max_occurs_def validate_slot_definition_type_def validate_declared_type_def
        split: option.splits MaxOccurs.splits FieldKind.splits)

lemma validate_members_no_panic: "\<not> is_panic (validate_members i m es)"
  by (induction i m es rule: validate_members.induct) auto

lemma validate_machines_no_panic: "\<not> is_panic (validate_machines sets ms)"
  by (induction sets ms rule: validate_machines.induct)
     (auto simp: validate_members_no_panic split: option.splits)

lemma validate_events_no_panic: "\<not> is_panic (validate_events ids es)"
  by (induction ids es rule: validate_events.induct)
     (auto simp: validate_event_definition_def validate_slot_definitions_no_panic)

lemma validate_definition_no_panic: "\<not> is_panic (validate_definition d)"
  by (auto simp: validate_definition_def validate_state_machine_models_def validate_events_no_panic
      validate_machines_no_panic)

section \<open>Conforming records\<close>

definition slot_ok_for :: "Record \<Rightarrow> DefinitionFile \<Rightarrow> (u16 \<rightharpoonup> SlotDefinition) \<Rightarrow> Slot \<Rightarrow> bool" where
  "slot_ok_for r d sm s \<longleftrightarrow>
     (case sm (slot_key s) of None \<Rightarrow> False
      | Some schema \<Rightarrow> validate_record_slot_type s schema = Ok () \<and> validate_value_payload_type s r d = Ok ()
          \<and> validate_payload_width s = Ok ())"

definition vendor_slot :: "(u16 \<rightharpoonup> SlotDefinition) \<Rightarrow> Slot \<Rightarrow> bool" where
  "vendor_slot sm s \<longleftrightarrow> sm (slot_key s) = None \<and> is_vendor_key (slot_key s)"

fun scan_all_known :: "(u16 \<rightharpoonup> SlotDefinition) \<Rightarrow> nat \<Rightarrow> Slot list \<Rightarrow> slot_scan \<Rightarrow> slot_scan" where
  "scan_all_known sm i [] st = st"
| "scan_all_known sm i (s # ss) st = scan_all_known sm (i + 1) ss (scan_known i s (the (sm (slot_key s))) st)"

lemma scan_slots_vendor:
  assumes "scan_saw_vendor_extension st" "scan_previous_vendor_key st = Some p"
  shows "scan_slots r d sm i ss st = Ok st' \<longleftrightarrow>
     list_all (vendor_slot sm) ss \<and> sorted_wrt (<) (p # map slot_key ss) \<and> st' = foldl (\<lambda>st s. scan_vendor s st) st ss"
  using assms
proof (induction ss arbitrary: st i p)
  case (Cons s ss)
  then show ?case
    by (auto simp: vendor_slot_def scan_vendor_def not_le intro: less_trans split: option.splits)
qed auto

lemma scan_slots_Nil_known:
  assumes "\<not> scan_saw_vendor_extension st" "scan_previous_vendor_key st = None"
  shows "scan_slots r d sm i ss st = Ok st' \<longleftrightarrow>
     (\<exists>known vendor. ss = known @ vendor \<and> list_all (slot_ok_for r d sm) known \<and> list_all (vendor_slot sm) vendor
        \<and> sorted_wrt (<) (map slot_key vendor)
        \<and> st' = foldl (\<lambda>st s. scan_vendor s st) (scan_all_known sm i known st) vendor)"
  using assms
proof (induction ss arbitrary: st i)
  case (Cons s ss)
  show ?case
  proof (cases "sm (slot_key s)")
    case None
    have "scan_slots r d sm i (s # ss) st = Ok st' \<longleftrightarrow>
       is_vendor_key (slot_key s) \<and> scan_slots r d sm (i + 1) ss (scan_vendor s st) = Ok st'"
      using None Cons.prems by auto
    also have "\<dots> \<longleftrightarrow> list_all (vendor_slot sm) (s # ss) \<and> sorted_wrt (<) (map slot_key (s # ss))
        \<and> st' = foldl (\<lambda>st s. scan_vendor s st) st (s # ss)"
      using None by (subst scan_slots_vendor [of _ "slot_key s"]) (auto simp: scan_vendor_def vendor_slot_def)
    also have "\<dots> \<longleftrightarrow> (\<exists>known vendor. s # ss = known @ vendor \<and> list_all (slot_ok_for r d sm) known
        \<and> list_all (vendor_slot sm) vendor \<and> sorted_wrt (<) (map slot_key vendor)
        \<and> st' = foldl (\<lambda>st s. scan_vendor s st) (scan_all_known sm i known st) vendor)"
    proof (intro iffI; (elim exE conjE)?)
      fix known vendor
      assume "s # ss = known @ vendor" "list_all (slot_ok_for r d sm) known" "list_all (vendor_slot sm) vendor"
        "sorted_wrt (<) (map slot_key vendor)"
        "st' = foldl (\<lambda>st s. scan_vendor s st) (scan_all_known sm i known st) vendor"
      moreover from this have "known = []" using None by (cases known) (auto simp: slot_ok_for_def)
      ultimately show "list_all (vendor_slot sm) (s # ss) \<and> sorted_wrt (<) (map slot_key (s # ss))
        \<and> st' = foldl (\<lambda>st s. scan_vendor s st) st (s # ss)" by simp
    qed (intro exI [of _ "[]"] exI [of _ "s # ss"], simp)
    finally show ?thesis .
  next
    case (Some schema)
    let ?st = "scan_known i s schema st"
    have st: "\<not> scan_saw_vendor_extension ?st" "scan_previous_vendor_key ?st = None"
      using Cons.prems by (auto simp: scan_known_def)
    have "scan_slots r d sm i (s # ss) st = Ok st' \<longleftrightarrow>
       slot_ok_for r d sm s \<and> scan_slots r d sm (i + 1) ss ?st = Ok st'"
      using Some Cons.prems by (auto simp: outcome_simps slot_ok_for_def)
    also have "\<dots> \<longleftrightarrow> (\<exists>known vendor. s # ss = known @ vendor \<and> list_all (slot_ok_for r d sm) known
        \<and> list_all (vendor_slot sm) vendor \<and> sorted_wrt (<) (map slot_key vendor)
        \<and> st' = foldl (\<lambda>st s. scan_vendor s st) (scan_all_known sm i known st) vendor)" (is "?L \<longleftrightarrow> ?R")
    proof
      assume ?L
      then obtain known vendor where "ss = known @ vendor" "slot_ok_for r d sm s" "list_all (slot_ok_for r d sm) known"
        "list_all (vendor_slot sm) vendor" "sorted_wrt (<) (map slot_key vendor)"
        "st' = foldl (\<lambda>st s. scan_vendor s st) (scan_all_known sm (i + 1) known ?st) vendor"
        unfolding Cons.IH [OF st] by blast
      then show ?R using Some by (intro exI [of _ "s # known"] exI [of _ vendor]) simp
    next
      assume ?R
      then obtain known vendor where r: "s # ss = known @ vendor" "list_all (slot_ok_for r d sm) known"
        "list_all (vendor_slot sm) vendor" "sorted_wrt (<) (map slot_key vendor)"
        "st' = foldl (\<lambda>st s. scan_vendor s st) (scan_all_known sm i known st) vendor" by blast
      from r(1,3) Some obtain known' where "known = s # known'"
        by (cases known) (auto simp: vendor_slot_def)
      with r Some show ?L unfolding Cons.IH [OF st] by (intro conjI exI [of _ known'] exI [of _ vendor]) simp_all
    qed
    finally show ?thesis .
  qed
qed auto

lemma scan_all_known_order:
  "scan_known_order (scan_all_known sm i ss st)
     = scan_known_order st @ map (\<lambda>s. (sd_order_class (the (sm (slot_key s))), slot_key s)) ss"
  by (induction sm i ss st rule: scan_all_known.induct) (auto simp: scan_known_def)

lemma scan_all_known_other:
  "scan_extension_keys (scan_all_known sm i ss st) = scan_extension_keys st"
  by (induction sm i ss st rule: scan_all_known.induct) (auto simp: scan_known_def)

lemma scan_all_vendor:
  "scan_known_order (foldl (\<lambda>st s. scan_vendor s st) st ss) = scan_known_order st"
  "scan_counts (foldl (\<lambda>st s. scan_vendor s st) st ss) = scan_counts st"
  "scan_positions (foldl (\<lambda>st s. scan_vendor s st) st ss) = scan_positions st"
  "scan_extension_keys (foldl (\<lambda>st s. scan_vendor s st) st ss) = scan_extension_keys st @ map slot_key ss"
  by (induction ss arbitrary: st) (auto simp: scan_vendor_def)

lemma scan_all_known_counts:
  assumes "btree_ok (scan_counts st)"
  shows "btree_ok (scan_counts (scan_all_known sm i ss st))"
    and "unwrap_or (btree_get (scan_counts (scan_all_known sm i ss st)) k) 0
       = unwrap_or (btree_get (scan_counts st) k) 0 + length [s \<leftarrow> ss. slot_key s = k]"
  using assms
  by (induction sm i ss st rule: scan_all_known.induct) (auto simp: scan_known_def unwrap_or_def)

fun occurrences :: "nat \<Rightarrow> u16 \<Rightarrow> Slot list \<Rightarrow> nat list" where
  "occurrences i k [] = []"
| "occurrences i k (s # ss) = (if slot_key s = k then i # occurrences (i + 1) k ss else occurrences (i + 1) k ss)"

lemma scan_all_known_positions:
  assumes "btree_ok (scan_positions st)"
  shows "btree_ok (scan_positions (scan_all_known sm i ss st))"
    and "unwrap_or (btree_get (scan_positions (scan_all_known sm i ss st)) k) []
       = unwrap_or (btree_get (scan_positions st) k) [] @ occurrences i k ss"
  using assms
  by (induction sm i ss st rule: scan_all_known.induct)
     (auto simp: scan_known_def unwrap_or_def)

lemma check_contiguous_eq_Ok:
  "check_contiguous ps = Ok u \<longleftrightarrow> (\<forall>(k, os) \<in> set ps. is_contiguous os)"
  by (induction ps rule: check_contiguous.induct) auto

lemma check_order_eq_Ok:
  "check_order p ks = Ok u \<longleftrightarrow> sorted ((case p of None \<Rightarrow> [] | Some c \<Rightarrow> [c]) @ map fst ks)"
  by (induction p ks rule: check_order.induct) (auto simp: not_less split: option.splits intro: order_trans)

definition occurs_ok :: "nat \<Rightarrow> SlotDefinition \<Rightarrow> bool" where
  "occurs_ok n s \<longleftrightarrow> unat (sd_min_occurs s) \<le> n
     \<and> (case sd_max_occurs s of Count m \<Rightarrow> n \<le> unat m | Unbounded _ \<Rightarrow> True)"

lemma check_occurrences_eq_Ok:
  "check_occurrences c ss = Ok u \<longleftrightarrow> list_all (\<lambda>s. occurs_ok (unwrap_or (btree_get c (sd_key s)) 0) s) ss"
  by (induction c ss rule: check_occurrences.induct) (auto simp: Let_def occurs_ok_def not_less split: MaxOccurs.splits)

lemma occurrences_keys: "k \<in> slot_key ` set ss" if "occurrences i k ss \<noteq> []"
  using that by (induction ss arbitrary: i) (auto split: if_splits)

lemma contiguous_if_sorted:
  assumes "sorted (map (\<lambda>s. c (slot_key s)) ss)" and "inj_on c (slot_key ` set ss)"
  shows "is_contiguous (occurrences i k ss)"
  using assms
proof (induction ss arbitrary: i)
  case (Cons s ss)
  then have IH: "is_contiguous (occurrences (i + 1) k ss)" by (simp add: inj_on_def)
  show ?case
  proof (cases "slot_key s = k \<and> k \<in> slot_key ` set ss")
    case True
    then obtain t ts where ss: "ss = t # ts" by (cases ss) auto
    have "c (slot_key s) \<le> c (slot_key t)" "c (slot_key t) \<le> c k"
      using Cons.prems(1) True ss by (simp, auto simp: ss)
    then have "c (slot_key t) = c k" using True by (intro antisym) simp_all
    moreover have "slot_key t \<in> slot_key ` set (s # ss)" by (simp add: ss)
    moreover have "k \<in> slot_key ` set (s # ss)" using True by simp
    ultimately have "slot_key t = k" by (rule inj_onD [OF Cons.prems(2)])
    with IH show ?thesis using True by (simp add: ss)
  next
    case False
    then have "slot_key s = k \<Longrightarrow> occurrences (i + 1) k ss = []" using occurrences_keys by blast
    with IH show ?thesis by auto
  qed
qed simp

lemma filter_least_first:
  assumes "sorted (map f xs)" "\<forall>x \<in> set xs. c \<le> f x"
  shows "xs = [x \<leftarrow> xs. f x = c] @ [x \<leftarrow> xs. f x \<noteq> c]"
  using assms
proof (induction xs)
  case (Cons x xs)
  show ?case
  proof (cases "f x = c")
    case False
    then have "\<forall>y \<in> set xs. f y \<noteq> c" using Cons.prems by fastforce
    with False show ?thesis by (simp add: filter_empty_conv filter_id_conv)
  qed (use Cons in simp)
qed simp

lemma sorted_grouped:
  fixes f :: "'a \<Rightarrow> 'b::linorder"
  assumes "sorted_wrt (<) cs" "f ` set xs \<subseteq> set cs"
  shows "sorted (map f xs) \<longleftrightarrow> xs = concat (map (\<lambda>c. [x \<leftarrow> xs. f x = c]) cs)"
proof
  assume "sorted (map f xs)"
  with assms show "xs = concat (map (\<lambda>c. [x \<leftarrow> xs. f x = c]) cs)"
  proof (induction cs arbitrary: xs)
    case (Cons c cs)
    let ?ys = "[x \<leftarrow> xs. f x \<noteq> c]"
    have split: "xs = [x \<leftarrow> xs. f x = c] @ ?ys"
      using Cons.prems by (intro filter_least_first) (auto simp: less_imp_le image_subset_iff)
    have "?ys = concat (map (\<lambda>c. [x \<leftarrow> ?ys. f x = c]) cs)"
      using Cons.prems by (intro Cons.IH) (auto intro: sorted_filter)
    also have "\<dots> = concat (map (\<lambda>c. [x \<leftarrow> xs. f x = c]) cs)"
      using Cons.prems(1) by (intro arg_cong [of _ _ concat] map_cong) (auto intro: filter_cong)
    finally show ?case using split by simp
  qed simp
next
  have blocks: "sorted (map f (concat (map (\<lambda>c. [x \<leftarrow> ys. f x = c]) cs)))" if "sorted_wrt (<) cs" for ys cs
    using that
  proof (induction cs)
    case (Cons c cs)
    have "map f [x \<leftarrow> ys. f x = c] = replicate (length [x \<leftarrow> ys. f x = c]) c"
      by (induction ys) auto
    with Cons show ?case by (auto simp: sorted_append less_imp_le)
  qed simp
  assume "xs = concat (map (\<lambda>c. [x \<leftarrow> xs. f x = c]) cs)"
  then show "sorted (map f xs)" using blocks [OF assms(1), of xs] by simp
qed

lemma schema_map_iff:
  assumes "distinct (map sd_key (et_slots e))"
  shows "schema_map e k = Some s \<longleftrightarrow> s \<in> set (et_slots e) \<and> sd_key s = k"
proof -
  have "distinct (map fst (rev (map (\<lambda>s. (sd_key s, s)) (et_slots e))))"
    using assms by (simp add: rev_map [symmetric] o_def)
  from map_of_eq_Some_iff [OF this, of k s] show ?thesis by (auto simp: schema_map_def)
qed

lemma schema_map_None: "schema_map e k = None \<longleftrightarrow> k \<notin> sd_key ` set (et_slots e)"
  by (simp add: schema_map_def map_of_eq_None_iff image_image)

section \<open>The declarative reading of a schema\<close>

definition typed_as :: "SlotDefinition \<Rightarrow> Slot \<Rightarrow> bool" where
  "typed_as schema s \<longleftrightarrow> (case sd_tlv_type schema of Some t \<Rightarrow> slot_ty s = t | None \<Rightarrow> True)"

definition payload_ok :: "Slot \<Rightarrow> bool" where
  "payload_ok s \<longleftrightarrow> (case tlv_type_spec (slot_ty s) of None \<Rightarrow> False
     | Some spec \<Rightarrow> (case ts_fixed_width spec of None \<Rightarrow> True | Some w \<Rightarrow> length (slot_payload s) = w))"

definition value_type_ok :: "Record \<Rightarrow> DefinitionFile \<Rightarrow> Slot \<Rightarrow> bool" where
  "value_type_ok r d s \<longleftrightarrow> slot_key s \<in> {KEY_PREVIOUS_VALUE, KEY_NEW_VALUE} \<longrightarrow>
     (case Option.bind (record_value_id r) (\<lambda>i. find (\<lambda>v. vd_value_id v = i) (df_values d)) of
        None \<Rightarrow> True | Some v \<Rightarrow> slot_ty s = vd_data_type v)"

definition conforms :: "Record \<Rightarrow> DefinitionFile \<Rightarrow> EventTypeDefinition \<Rightarrow> Slot list \<Rightarrow> Slot list \<Rightarrow> bool" where
  "conforms r d e known vendor \<longleftrightarrow>
     rec_slots r = known @ vendor
     \<and> known = concat (map (\<lambda>schema. [s \<leftarrow> known. slot_key s = sd_key schema]) (et_slots e))
     \<and> list_all (\<lambda>schema. let ss = [s \<leftarrow> known. slot_key s = sd_key schema] in
           occurs_ok (length ss) schema
           \<and> list_all (\<lambda>s. typed_as schema s \<and> payload_ok s \<and> value_type_ok r d s) ss) (et_slots e)
     \<and> list_all (\<lambda>s. is_vendor_key (slot_key s) \<and> slot_key s \<notin> sd_key ` set (et_slots e)) vendor
     \<and> sorted_wrt (<) (map slot_key vendor)"

lemma variable_width:
  "tlv_type_spec t = Some spec \<Longrightarrow> ts_fixed_width spec = None \<Longrightarrow> t = TY_STRING \<or> t = TY_BYTES"
  "tlv_type_spec t = Some spec \<Longrightarrow> ts_fixed_width spec \<noteq> Some 0"
  by (auto simp: tlv_type_spec_def type_catalogue split: if_splits)

lemma validate_payload_width_eq_Ok: "validate_payload_width s = Ok u \<longleftrightarrow> payload_ok s"
  using variable_width [of "slot_ty s"]
  by (auto simp: validate_payload_width_def payload_ok_def Let_def split: option.splits)

lemma validate_value_payload_type_eq_Ok: "validate_value_payload_type s r d = Ok u \<longleftrightarrow> value_type_ok r d s"
  by (auto simp: validate_value_payload_type_def value_type_ok_def split: option.splits)

lemma validate_record_slot_type_eq_Ok:
  assumes "declared_type_ok schema" "sd_key schema = slot_key s" "payload_ok s"
  shows "validate_record_slot_type s schema = Ok u \<longleftrightarrow> typed_as schema s"
  using assms
  by (auto simp: declared_type_ok_def validate_record_slot_type_def typed_as_def payload_ok_def
      split: option.splits FieldKind.splits)

lemma slot_ok_for_iff:
  assumes "event_schema_ok e"
  shows "slot_ok_for r d (schema_map e) s \<longleftrightarrow>
    (\<exists>schema \<in> set (et_slots e). sd_key schema = slot_key s \<and> typed_as schema s \<and> payload_ok s \<and> value_type_ok r d s)"
proof -
  have "slot_ok_for r d (schema_map e) s \<longleftrightarrow> (\<exists>schema. schema_map e (slot_key s) = Some schema
      \<and> validate_record_slot_type s schema = Ok () \<and> value_type_ok r d s \<and> payload_ok s)"
    by (auto simp: slot_ok_for_def validate_payload_width_eq_Ok validate_value_payload_type_eq_Ok split: option.splits)
  then show ?thesis
    using assms validate_record_slot_type_eq_Ok [of _ s]
    by (fastforce simp: schema_map_iff event_schema_ok_def list_all_iff)
qed


definition class_of :: "EventTypeDefinition \<Rightarrow> u16 \<Rightarrow> u16" where
  "class_of e k = sd_order_class (the (schema_map e k))"

lemma class_of_slot:
  assumes "event_schema_ok e" "s \<in> set (et_slots e)"
  shows "class_of e (sd_key s) = sd_order_class s"
proof -
  have "schema_map e (sd_key s) = Some s" using assms by (simp add: schema_map_iff event_schema_ok_def)
  then show ?thesis by (simp add: class_of_def)
qed

lemma inj_class_of:
  assumes "event_schema_ok e"
  shows "inj_on (class_of e) (sd_key ` set (et_slots e))"
proof (rule inj_onI)
  fix j k
  assume "j \<in> sd_key ` set (et_slots e)" "k \<in> sd_key ` set (et_slots e)" and eq: "class_of e j = class_of e k"
  then obtain s t where st: "s \<in> set (et_slots e)" "t \<in> set (et_slots e)" "j = sd_key s" "k = sd_key t" by blast
  have "distinct (map sd_order_class (et_slots e))"
    using assms by (simp add: event_schema_ok_def strict_sorted_iff)
  then have "inj_on sd_order_class (set (et_slots e))" by (simp add: distinct_map)
  moreover have "sd_order_class s = sd_order_class t" using eq st class_of_slot [OF assms] by simp
  ultimately have "s = t" using st by (auto dest: inj_onD)
  with st show "j = k" by simp
qed

lemma sorted_iff_schema_order:
  assumes e: "event_schema_ok e" and keys: "slot_key ` set known \<subseteq> sd_key ` set (et_slots e)"
  shows "sorted (map (\<lambda>s. class_of e (slot_key s)) known) \<longleftrightarrow>
      known = concat (map (\<lambda>schema. [s \<leftarrow> known. slot_key s = sd_key schema]) (et_slots e))"
proof -
  have block: "[s \<leftarrow> known. class_of e (slot_key s) = sd_order_class schema] = [s \<leftarrow> known. slot_key s = sd_key schema]"
    if schema: "schema \<in> set (et_slots e)" for schema
  proof (rule filter_cong [OF refl])
    fix s assume "s \<in> set known"
    then have "slot_key s \<in> sd_key ` set (et_slots e)" using keys by blast
    then show "(class_of e (slot_key s) = sd_order_class schema) = (slot_key s = sd_key schema)"
      using inj_onD [OF inj_class_of [OF e], of "slot_key s" "sd_key schema"] schema
      by (auto simp: class_of_slot [OF e schema, symmetric])
  qed
  have "(\<lambda>s. class_of e (slot_key s)) ` set known \<subseteq> set (map sd_order_class (et_slots e))"
    using keys class_of_slot [OF e] by (fastforce simp: image_subset_iff)
  then have "sorted (map (\<lambda>s. class_of e (slot_key s)) known) \<longleftrightarrow>
      known = concat (map (\<lambda>c. [s \<leftarrow> known. class_of e (slot_key s) = c]) (map sd_order_class (et_slots e)))"
    using e by (intro sorted_grouped) (simp_all add: event_schema_ok_def)
  also have "map (\<lambda>c. [s \<leftarrow> known. class_of e (slot_key s) = c]) (map sd_order_class (et_slots e))
      = map (\<lambda>schema. [s \<leftarrow> known. slot_key s = sd_key schema]) (et_slots e)"
    using block by simp
  finally show ?thesis .
qed

lemma positions_contiguous:
  assumes e: "event_schema_ok e" and keys: "slot_key ` set known \<subseteq> sd_key ` set (et_slots e)"
    and ord: "sorted (map (\<lambda>s. class_of e (slot_key s)) known)"
  shows "check_contiguous (scan_positions (scan_all_known sm 0 known scan_start)) = Ok ()"
proof -
  let ?ps = "scan_positions (scan_all_known sm 0 known scan_start)"
  have ok: "btree_ok ?ps" by (rule scan_all_known_positions) (simp add: scan_start_def)
  have "os = occurrences 0 k known" if "(k, os) \<in> set ?ps" for k os
    using that scan_all_known_positions(2) [of scan_start sm 0 known k] ok
    by (simp add: btree_get_mem scan_start_def unwrap_or_def)
  moreover have "is_contiguous (occurrences 0 k known)" for k
    by (rule contiguous_if_sorted [OF ord inj_on_subset [OF inj_class_of [OF e] keys]])
  ultimately show ?thesis by (auto simp: check_contiguous_eq_Ok)
qed

lemma slot_ok_for_keys:
  assumes "event_schema_ok e" "list_all (slot_ok_for r d (schema_map e)) known"
  shows "slot_key ` set known \<subseteq> sd_key ` set (et_slots e)"
proof (rule image_subsetI)
  fix s assume "s \<in> set known"
  with assms obtain schema where "schema \<in> set (et_slots e)" "sd_key schema = slot_key s"
    using slot_ok_for_iff [OF assms(1), of r d s] by (auto simp: list_all_iff)
  then show "slot_key s \<in> sd_key ` set (et_slots e)" by (metis imageI)
qed

lemma blocks_cover:
  assumes "known = concat (map (\<lambda>schema. [s \<leftarrow> known. slot_key s = sd_key schema]) slots)" "s \<in> set known"
  shows "slot_key s \<in> sd_key ` set slots"
  using assms(2) by (subst (asm) assms(1)) auto

lemma conforms_iff:
  assumes e: "event_schema_ok e"
  shows "conforms r d e known vendor \<longleftrightarrow>
     rec_slots r = known @ vendor \<and> list_all (slot_ok_for r d (schema_map e)) known
     \<and> list_all (vendor_slot (schema_map e)) vendor \<and> sorted_wrt (<) (map slot_key vendor)
     \<and> sorted (map (\<lambda>s. class_of e (slot_key s)) known)
     \<and> list_all (\<lambda>s. occurs_ok (length [t \<leftarrow> known. slot_key t = sd_key s]) s) (et_slots e)" (is "?L \<longleftrightarrow> ?R")
proof
  assume c: ?L
  then have "slot_key ` set known \<subseteq> sd_key ` set (et_slots e)"
    using blocks_cover [of known "et_slots e"] by (auto simp: conforms_def)
  moreover have "slot_ok_for r d (schema_map e) s" if "s \<in> set known" for s
  proof -
    from that \<open>slot_key ` set known \<subseteq> _\<close> obtain schema where sc: "schema \<in> set (et_slots e)" "slot_key s = sd_key schema"
      by blast
    with c that have "typed_as schema s \<and> payload_ok s \<and> value_type_ok r d s"
      by (simp add: conforms_def list_all_iff Let_def)
    with sc show ?thesis unfolding slot_ok_for_iff [OF e] by metis
  qed
  ultimately show ?R
    using c sorted_iff_schema_order [OF e, of known]
    by (auto simp: conforms_def list_all_iff vendor_slot_def schema_map_None Let_def)
next
  assume r: ?R
  then have "slot_key ` set known \<subseteq> sd_key ` set (et_slots e)"
    using slot_ok_for_keys [OF e] by blast
  moreover have "typed_as schema s \<and> payload_ok s \<and> value_type_ok r d s"
    if "schema \<in> set (et_slots e)" "s \<in> set known" "slot_key s = sd_key schema" for schema s
  proof -
    from r that(2) obtain schema' where s': "schema' \<in> set (et_slots e)" "sd_key schema' = slot_key s"
      "typed_as schema' s \<and> payload_ok s \<and> value_type_ok r d s"
      using slot_ok_for_iff [OF e] by (auto simp: list_all_iff)
    moreover have "schema' = schema"
      using e s' that by (auto simp: event_schema_ok_def distinct_map inj_on_def)
    ultimately show ?thesis by simp
  qed
  ultimately show ?L
    using r sorted_iff_schema_order [OF e, of known]
    by (auto simp: conforms_def list_all_iff vendor_slot_def schema_map_None Let_def)
qed

lemma validate_record_slots_eq_Ok:
  assumes e: "event_schema_ok e"
  shows "validate_record_slots r e d = Ok ext \<longleftrightarrow> (\<exists>known vendor. conforms r d e known vendor \<and> ext = map slot_key vendor)"
proof -
  have counts: "unwrap_or (btree_get (scan_counts (scan_all_known sm 0 known scan_start)) k) 0
      = length [s \<leftarrow> known. slot_key s = k]" for sm known k
    using scan_all_known_counts(2) [of scan_start sm 0 known k] by (simp add: scan_start_def unwrap_or_def)
  note keys = slot_ok_for_keys [OF e, of r d]
  have start: "\<not> scan_saw_vendor_extension scan_start" "scan_previous_vendor_key scan_start = None"
    "scan_known_order scan_start = []" "scan_extension_keys scan_start = []"
    by (simp_all add: scan_start_def)
  have "validate_record_slots r e d = Ok ext \<longleftrightarrow> (\<exists>known vendor. rec_slots r = known @ vendor
      \<and> list_all (slot_ok_for r d (schema_map e)) known \<and> list_all (vendor_slot (schema_map e)) vendor
      \<and> sorted_wrt (<) (map slot_key vendor)
      \<and> check_contiguous (scan_positions (scan_all_known (schema_map e) 0 known scan_start)) = Ok ()
      \<and> sorted (map (\<lambda>s. class_of e (slot_key s)) known)
      \<and> list_all (\<lambda>s. occurs_ok (length [t \<leftarrow> known. slot_key t = sd_key s]) s) (et_slots e)
      \<and> ext = map slot_key vendor)"
    unfolding validate_record_slots_def and_then_eq_Ok scan_slots_Nil_known [OF start(1,2)]
    by (fastforce simp: scan_all_vendor check_order_eq_Ok check_occurrences_eq_Ok counts scan_all_known_order
        scan_all_known_other start o_def class_of_def)
  also have "\<dots> \<longleftrightarrow> (\<exists>known vendor. conforms r d e known vendor \<and> ext = map slot_key vendor)"
    using positions_contiguous [OF e keys] by (auto simp: conforms_iff [OF e])
  finally show ?thesis .
qed

lemma slot_checks_no_panic:
  "\<not> is_panic (validate_record_slot_type s schema)" "\<not> is_panic (validate_value_payload_type s r d)"
  "\<not> is_panic (validate_payload_width s)"
  by (auto simp: validate_record_slot_type_def validate_value_payload_type_def validate_payload_width_def Let_def
      split: option.splits FieldKind.splits)

lemma scan_slots_no_panic: "\<not> is_panic (scan_slots r d sm i ss st)"
proof (induction ss arbitrary: i st)
  case (Cons s ss)
  then show ?case
    by (cases "sm (slot_key s)"; cases "scan_previous_vendor_key st") (simp_all add: slot_checks_no_panic)
qed simp

lemma validate_record_slots_no_panic: "\<not> is_panic (validate_record_slots r e d)"
proof -
  have "\<not> is_panic (check_contiguous ps)" for ps by (induction ps rule: check_contiguous.induct) auto
  moreover have "\<not> is_panic (check_order p ks)" for p ks
    by (induction p ks rule: check_order.induct) (auto split: option.splits)
  moreover have "\<not> is_panic (check_occurrences c ss)" for c ss
    by (induction c ss rule: check_occurrences.induct) (auto simp: Let_def split: MaxOccurs.splits)
  ultimately show ?thesis by (auto simp: validate_record_slots_def scan_slots_no_panic)
qed

lemma find_event:
  assumes "distinct (map et_id es)"
  shows "find (\<lambda>e. et_id e = i) es = Some e \<longleftrightarrow> e \<in> set es \<and> et_id e = i"
  by (rule find_complete [OF assms])

text \<open>C15. Schema validation accepts exactly the conforming records.  A record is valid with extension keys
  \<open>ext\<close> if and only if the definition is well formed, the encoded length and the number of slots are within
  the definition's constraints, and some event schema of the record's id fits: the slots are the declared
  slots in schema order, repeated ones together, each as often as its bounds allow and with its declared
  type and width (for value slots the type of the referenced value), followed by private slots in strictly
  ascending key order, whose keys are \<open>ext\<close>.\<close>

theorem schema_validation_exact:
  "schema_validate_record r len d = Ok (Valid ext) \<longleftrightarrow>
     definition_ok d
     \<and> len \<le> unat (dk_max_record_size (dh_constraints (df_header d)))
     \<and> length (rec_slots r) \<le> unat (dk_max_slots (dh_constraints (df_header d)))
     \<and> (\<exists>e known vendor. e \<in> set (df_event_types d) \<and> et_id e = rec_event_type_id r
          \<and> conforms r d e known vendor \<and> ext = map slot_key vendor)"
proof (cases "definition_ok d")
  case False
  then show ?thesis
    using validate_definition_eq_Ok [of d]
    by (auto simp: schema_validate_record_def placeholder_def split: outcome.splits)
next
  case True
  then have "validate_definition d = Ok ()" and dist: "distinct (map et_id (df_event_types d))"
    by (simp_all add: validate_definition_eq_Ok definition_ok_def)
  then have "schema_validate_record r len d = Ok (Valid ext) \<longleftrightarrow>
     len \<le> unat (dk_max_record_size (dh_constraints (df_header d)))
     \<and> length (rec_slots r) \<le> unat (dk_max_slots (dh_constraints (df_header d)))
     \<and> (\<exists>e. find (\<lambda>e. et_id e = rec_event_type_id r) (df_event_types d) = Some e
          \<and> validate_record_slots r e d = Ok ext)"
    by (auto simp: schema_validate_record_def placeholder_def Let_def not_less split: outcome.splits option.splits)
  also have "(\<exists>e. find (\<lambda>e. et_id e = rec_event_type_id r) (df_event_types d) = Some e
          \<and> validate_record_slots r e d = Ok ext) \<longleftrightarrow>
      (\<exists>e known vendor. e \<in> set (df_event_types d) \<and> et_id e = rec_event_type_id r
          \<and> conforms r d e known vendor \<and> ext = map slot_key vendor)"
    using True validate_record_slots_eq_Ok [of _ r d ext]
    by (auto simp: find_event [OF dist] definition_ok_def list_all_iff)
  finally show ?thesis using True by simp
qed

text \<open>Validation never stops the stream: for every record, length and definition it returns, without
  a panic, either the validity of the record or a placeholder that keeps the record's envelope and raw
  slots.\<close>

theorem schema_validation_total:
  "(\<exists>ext. schema_validate_record r len d = Ok (Valid ext))
   \<or> (\<exists>reason. schema_validate_record r len d = Ok (placeholder r reason))"
proof -
  have "validate_definition d \<noteq> Panic p" "validate_record_slots r e d \<noteq> Panic p" for p e
    using validate_definition_no_panic [of d] validate_record_slots_no_panic [of r e d] by auto
  then show ?thesis
    by (auto simp: schema_validate_record_def Let_def split: outcome.splits option.splits)
qed

text \<open>A defective definition makes every record a placeholder: if the definition is not well formed
  then one and the same definition defect is the reason for every record and every length.\<close>

theorem defective_definition_placeholders:
  assumes "\<not> definition_ok d"
  shows "\<exists>v. validate_definition d = Err v
     \<and> (\<forall>r len. schema_validate_record r len d = Ok (placeholder r (Definition v)))"
  using assms validate_definition_eq_Ok [of d] validate_definition_no_panic [of d]
  by (cases "validate_definition d") (auto simp: schema_validate_record_def)

end
