(* ===== verification/Hash.thy ===== *)
theory Hash
  imports Complex_Main Definition_Model
begin

text \<open>
  The binding hash of a definition file, \<open>crates/definition/src/hash.rs\<close>.  Canonical JSON (the crate
  \<open>serde_jcs\<close>) and SHA-256 (the crate \<open>sha2\<close>) are parameters: \<open>jcs\<close> gives the canonical bytes of a
  definition or the message of its error, \<open>sha256\<close> the digest of a byte string.  The guard against
  duplicate keys and floating-point numbers is a visitor that \<open>serde_json\<close> drives; it is modelled as a
  function of the tree of values the deserializer presents to it.  An object is the list of its entries;
  their keys are distinct, so the list stands for the map.
\<close>

section \<open>Content and carriage hash\<close>

type_synonym jcs = "DefinitionFile \<Rightarrow> (byte_vec, string) outcome"
type_synonym digest = "byte_vec \<Rightarrow> byte_vec"

record DefinitionHash =
  hash_content_hash :: string
  hash_carriage_hash :: byte_vec

datatype DefinitionError = Json string | Canonical string

definition definition_error_message :: "DefinitionError \<Rightarrow> string" where
  "definition_error_message err =
     (case err of Json message \<Rightarrow> ''invalid definition JSON: '' @ message
      | Canonical message \<Rightarrow> ''canonicalization failed: '' @ message)"

definition canonical_json_bytes :: "jcs \<Rightarrow> DefinitionFile \<Rightarrow> (byte_vec, DefinitionError) outcome" where
  "canonical_json_bytes jcs d = map_err Canonical (jcs d)"

definition canonical_definition_bytes_for_hash :: "jcs \<Rightarrow> DefinitionFile \<Rightarrow> (byte_vec, DefinitionError) outcome" where
  "canonical_definition_bytes_for_hash jcs d =
     canonical_json_bytes jcs (d\<lparr>df_header := (df_header d)\<lparr>dh_content_hash := []\<rparr>\<rparr>)"

definition hex_digit :: "nat \<Rightarrow> char" where
  "hex_digit n = ''0123456789abcdef'' ! n"

primrec lower_hex :: "byte_vec \<Rightarrow> string" where
  "lower_hex [] = []"
| "lower_hex (b # bs) = hex_digit (unat b div 16) # hex_digit (unat b mod 16) # lower_hex bs"

definition compute_content_hash ::
  "jcs \<Rightarrow> digest \<Rightarrow> DefinitionFile \<Rightarrow> (DefinitionHash, DefinitionError) outcome" where
  "compute_content_hash jcs sha256 d =
     and_then (canonical_definition_bytes_for_hash jcs d) (\<lambda>canonical.
       let digest = sha256 canonical in
       and_then (vec_slice digest 0 8) (\<lambda>carriage_hash.
         Ok \<lparr>hash_content_hash = lower_hex digest, hash_carriage_hash = carriage_hash\<rparr>))"

section \<open>The duplicate-key and float guard\<close>

datatype visited =
    VisitBool bool
  | VisitI64 int
  | VisitU64 nat
  | VisitF64 rat
  | VisitStr string
  | VisitNone
  | VisitUnit
  | VisitSome visited
  | VisitSeq "visited list"
  | VisitMap "(string \<times> visited) list"

datatype Value =
    Null
  | Bool bool
  | Number int
  | String string
  | Array "Value list"
  | Object "(string \<times> Value) list"

fun visit :: "visited \<Rightarrow> (Value, string) outcome"
  and visit_seq :: "visited list \<Rightarrow> (Value list, string) outcome"
  and visit_map :: "string list \<Rightarrow> (string \<times> visited) list \<Rightarrow> ((string \<times> Value) list, string) outcome" where
  "visit (VisitBool b) = Ok (Bool b)"
| "visit (VisitI64 i) = Ok (Number i)"
| "visit (VisitU64 n) = Ok (Number (int n))"
| "visit (VisitF64 x) =
     (if x = of_int \<lfloor>x\<rfloor> then Err ''integer number out of range''
      else Err ''floating-point numbers are not allowed'')"
| "visit (VisitStr s) = Ok (String s)"
| "visit VisitNone = Ok Null"
| "visit VisitUnit = Ok Null"
| "visit (VisitSome v) = visit v"
| "visit (VisitSeq vs) = and_then (visit_seq vs) (\<lambda>values. Ok (Array values))"
| "visit (VisitMap kvs) = and_then (visit_map [] kvs) (\<lambda>obj. Ok (Object obj))"
| "visit_seq [] = Ok []"
| "visit_seq (v # vs) =
     and_then (visit v) (\<lambda>value. and_then (visit_seq vs) (\<lambda>values. Ok (value # values)))"
| "visit_map keys [] = Ok []"
| "visit_map keys ((k, v) # kvs) =
     (if k \<in> set keys then Err (''duplicate key `'' @ k @ ''`'')
      else and_then (visit v) (\<lambda>value.
           and_then (visit_map (k # keys) kvs) (\<lambda>obj. Ok ((k, value) # obj))))"

section \<open>Hexadecimal digits\<close>

lemma length_lower_hex [simp]: "length (lower_hex bs) = 2 * length bs"
  by (induction bs) auto

lemma inj_hex_digit: "inj_on hex_digit {0 ..< 16}"
proof -
  have "distinct (map hex_digit [0 ..< 16])" by (simp add: hex_digit_def upt_rec)
  then show ?thesis by (simp add: distinct_map)
qed

lemma lower_hex_inject: "length a = length b \<Longrightarrow> lower_hex a = lower_hex b \<Longrightarrow> a = b"
proof (induction a b rule: list_induct2)
  case (Cons x xs y ys)
  have digits: "unat x div 16 < 16" "unat y div 16 < 16" using unat_byte_bound [of x] unat_byte_bound [of y] by (simp_all add: less_mult_imp_div_less)
  from Cons.prems have "unat x div 16 = unat y div 16" "unat x mod 16 = unat y mod 16"
    using inj_onD [OF inj_hex_digit, of "unat x div 16" "unat y div 16"]
      inj_onD [OF inj_hex_digit, of "unat x mod 16" "unat y mod 16"] digits by auto
  then have "unat x = unat y" by (metis div_mult_mod_eq)
  then have "x = y" by (simp add: word_unat_eq_iff)
  with Cons show ?case by simp
qed simp

section \<open>The guard\<close>

fun clean :: "visited \<Rightarrow> bool"
  and clean_seq :: "visited list \<Rightarrow> bool"
  and clean_map :: "(string \<times> visited) list \<Rightarrow> bool" where
  "clean (VisitF64 x) \<longleftrightarrow> False"
| "clean (VisitSome v) \<longleftrightarrow> clean v"
| "clean (VisitSeq vs) \<longleftrightarrow> clean_seq vs"
| "clean (VisitMap kvs) \<longleftrightarrow> distinct (map fst kvs) \<and> clean_map kvs"
| "clean _ \<longleftrightarrow> True"
| "clean_seq [] \<longleftrightarrow> True"
| "clean_seq (v # vs) \<longleftrightarrow> clean v \<and> clean_seq vs"
| "clean_map [] \<longleftrightarrow> True"
| "clean_map ((k, v) # kvs) \<longleftrightarrow> clean v \<and> clean_map kvs"

lemma visit_ok_iff:
  "(\<exists>x. visit v = Ok x) \<longleftrightarrow> clean v"
  "(\<exists>xs. visit_seq vs = Ok xs) \<longleftrightarrow> clean_seq vs"
  "(\<exists>obj. visit_map keys kvs = Ok obj) \<longleftrightarrow> distinct (map fst kvs) \<and> fst ` set kvs \<inter> set keys = {} \<and> clean_map kvs"
  by (induction v and vs and keys kvs rule: visit_visit_seq_visit_map.induct)
     (auto simp: outcome_simps)

lemma visit_map_keys: "visit_map keys kvs = Ok obj \<Longrightarrow> map fst obj = map fst kvs"
  by (induction kvs arbitrary: keys obj) (auto simp: outcome_simps split: if_splits)

section \<open>Properties\<close>

lemma compute_content_hash_clears:
  "compute_content_hash jcs sha256 (d\<lparr>df_header := (df_header d)\<lparr>dh_content_hash := h\<rparr>\<rparr>)
     = compute_content_hash jcs sha256 d"
  by (simp add: compute_content_hash_def canonical_definition_bytes_for_hash_def)

end
