(* ===== verification/Resolver.thy ===== *)
theory Resolver
  imports Schema Hash Control
begin

text \<open>
  Record resolution, \<open>crates/definition/src/resolver.rs\<close>: selection of the definition by absolute position,
  hash verification, schema validation and the decoding of slots into named, typed fields.  A floating-point
  value is the bit pattern \<open>from_bits\<close> is given; signed integers are the same words read as signed.
  \<open>String::from_utf8\<close> is the check of well-formed UTF-8 (Unicode table 3-7) on the bytes.
\<close>

section \<open>Data\<close>

record DefinitionSet =
  ds_current :: "DefinitionFile option"
  ds_prior :: "DefinitionFile option"

definition definition_set_current :: "DefinitionFile \<Rightarrow> DefinitionSet" where
  "definition_set_current current = \<lparr>ds_current = Some current, ds_prior = None\<rparr>"

definition definition_set_current_and_prior :: "DefinitionFile \<Rightarrow> DefinitionFile \<Rightarrow> DefinitionSet" where
  "definition_set_current_and_prior current prior = \<lparr>ds_current = Some current, ds_prior = Some prior\<rparr>"

record ResolvedSource =
  rsrc_name :: string
  rsrc_path :: "string list"
  rsrc_hierarchy :: "string list"
  rsrc_dynamic :: bool

datatype ResolvedEpoch = Current | Prior

datatype ResolvedValue =
    RBool bool
  | RSInt u8
  | RUSInt u8
  | RUInt u16
  | RInt u16
  | RUDInt u32
  | RDInt u32
  | RULInt u64
  | RLInt u64
  | RReal u32
  | RLReal u64
  | RDateTime u64
  | RString string
  | RBytes byte_vec

record ResolvedField =
  rf_key :: u16
  rf_name :: string
  rf_type_name :: string
  rf_value :: ResolvedValue
  rf_unit :: "string option"
  rf_enum_label :: "string option"

record ResolvedExtensionField =
  rx_key :: u16
  rx_type_tag :: u8
  rx_type_name :: "string option"
  rx_value :: "ResolvedValue option"
  rx_payload :: byte_vec

record ResolvedRecord =
  rv_event_name :: string
  rv_source :: "ResolvedSource option"
  rv_source_id :: u32
  rv_event_type_id :: u32
  rv_run_id :: u64
  rv_epoch_id :: u64
  rv_source_time :: u64
  rv_seq :: u64
  rv_epoch :: ResolvedEpoch
  rv_fields :: "ResolvedField list"
  rv_extension_fields :: "ResolvedExtensionField list"

datatype ResolvePlaceholderReason =
    MissingCurrentDefinition
  | StalePriorEpoch
  | Drift ResolvedEpoch byte_vec byte_vec
  | FullHashDrift string string
  | ResolveUnknownEventId u32
  | SchemaReason SchemaViolation
  | InvalidUtf8 u16
  | ResolveUnknownTlvType u16 u8
  | HashReason string

record ResolvedPlaceholder =
  rp_source_id :: u32
  rp_event_type_id :: u32
  rp_run_id :: u64
  rp_epoch_id :: u64
  rp_seq :: u64
  rp_epoch :: ResolvedEpoch
  rp_slots :: "Slot list"
  rp_reason :: ResolvePlaceholderReason

datatype Resolution = Resolved ResolvedRecord | ResPlaceholder ResolvedPlaceholder

definition resolver_placeholder ::
  "Record \<Rightarrow> ControlBlockSnapshot \<Rightarrow> ResolvedEpoch \<Rightarrow> ResolvePlaceholderReason \<Rightarrow> Resolution" where
  "resolver_placeholder r snapshot epoch reason =
     ResPlaceholder \<lparr>rp_source_id = rec_source_id r, rp_event_type_id = rec_event_type_id r,
       rp_run_id = rec_run_id r, rp_epoch_id = cb_epoch_id snapshot, rp_seq = rec_seq r, rp_epoch = epoch,
       rp_slots = rec_slots r, rp_reason = reason\<rparr>"

section \<open>UTF-8\<close>

definition continuation :: "u8 \<Rightarrow> bool" where
  "continuation b \<longleftrightarrow> 0x80 \<le> b \<and> b \<le> 0xBF"

definition three_byte_start :: "u8 \<Rightarrow> u8 \<Rightarrow> bool" where
  "three_byte_start b c \<longleftrightarrow>
     b = 0xE0 \<and> 0xA0 \<le> c \<and> c \<le> 0xBF
     \<or> (0xE1 \<le> b \<and> b \<le> 0xEC \<or> b = 0xEE \<or> b = 0xEF) \<and> continuation c
     \<or> b = 0xED \<and> 0x80 \<le> c \<and> c \<le> 0x9F"

definition four_byte_start :: "u8 \<Rightarrow> u8 \<Rightarrow> bool" where
  "four_byte_start b c \<longleftrightarrow>
     b = 0xF0 \<and> 0x90 \<le> c \<and> c \<le> 0xBF
     \<or> 0xF1 \<le> b \<and> b \<le> 0xF3 \<and> continuation c
     \<or> b = 0xF4 \<and> 0x80 \<le> c \<and> c \<le> 0x8F"

fun utf8_valid :: "byte_vec \<Rightarrow> bool" where
  "utf8_valid [] = True"
| "utf8_valid [b] = (b \<le> 0x7F)"
| "utf8_valid [b, c] =
     (if b \<le> 0x7F then utf8_valid [c] else 0xC2 \<le> b \<and> b \<le> 0xDF \<and> continuation c)"
| "utf8_valid [b, c, d] =
     (if b \<le> 0x7F then utf8_valid [c, d]
      else if 0xC2 \<le> b \<and> b \<le> 0xDF then continuation c \<and> utf8_valid [d]
      else three_byte_start b c \<and> continuation d)"
| "utf8_valid (b # c # d # e # bs) =
     (if b \<le> 0x7F then utf8_valid (c # d # e # bs)
      else if 0xC2 \<le> b \<and> b \<le> 0xDF then continuation c \<and> utf8_valid (d # e # bs)
      else if three_byte_start b c then continuation d \<and> utf8_valid (e # bs)
      else four_byte_start b c \<and> continuation d \<and> continuation e \<and> utf8_valid bs)"

definition string_from_utf8 :: "byte_vec \<Rightarrow> string option" where
  "string_from_utf8 bs = (if utf8_valid bs then Some (map (\<lambda>b. char_of (unat b)) bs) else None)"

section \<open>Values\<close>

datatype ValueDecodeError = ValueInvalidUtf8 | ValueUnknownTlvType

definition payload_u16 :: "byte_vec \<Rightarrow> (u16, 'e) outcome" where
  "payload_u16 bytes = (if length bytes = 2 then Ok (from_le_bytes bytes) else Panic ExpectFailed)"

definition payload_u32 :: "byte_vec \<Rightarrow> (u32, 'e) outcome" where
  "payload_u32 bytes = (if length bytes = 4 then Ok (from_le_bytes bytes) else Panic ExpectFailed)"

definition payload_u64 :: "byte_vec \<Rightarrow> (u64, 'e) outcome" where
  "payload_u64 bytes = (if length bytes = 8 then Ok (from_le_bytes bytes) else Panic ExpectFailed)"

definition map_ok :: "('a \<Rightarrow> 'b) \<Rightarrow> ('a, 'e) outcome \<Rightarrow> ('b, 'e) outcome" where
  "map_ok f x = and_then x (\<lambda>a. Ok (f a))"

definition decode_value :: "Slot \<Rightarrow> (ResolvedValue, ValueDecodeError) outcome" where
  "decode_value s =
     (let t = slot_ty s; bytes = slot_payload s in
      if t = 0x00 then map_ok (\<lambda>b. RBool (b \<noteq> 0)) (vec_index bytes 0)
      else if t = 0x01 then map_ok RSInt (vec_index bytes 0)
      else if t = 0x02 then map_ok RUSInt (vec_index bytes 0)
      else if t = 0x03 then map_ok RUInt (payload_u16 bytes)
      else if t = 0x04 then map_ok RInt (payload_u16 bytes)
      else if t = 0x05 then map_ok RUDInt (payload_u32 bytes)
      else if t = 0x06 then map_ok RDInt (payload_u32 bytes)
      else if t = 0x07 then map_ok RULInt (payload_u64 bytes)
      else if t = 0x08 then map_ok RLInt (payload_u64 bytes)
      else if t = 0x09 then map_ok RReal (payload_u32 bytes)
      else if t = 0x0A then map_ok RLReal (payload_u64 bytes)
      else if t = 0x0B then map_ok RDateTime (payload_u64 bytes)
      else if t = 0x0C then
        (case string_from_utf8 bytes of Some str \<Rightarrow> Ok (RString str) | None \<Rightarrow> Err ValueInvalidUtf8)
      else if t = 0x0D then Ok (RBytes bytes)
      else Err ValueUnknownTlvType)"

fun as_u32 :: "ResolvedValue \<Rightarrow> u32 option" where
  "as_u32 (RUDInt v) = Some v"
| "as_u32 _ = None"

fun as_u16 :: "ResolvedValue \<Rightarrow> u16 option" where
  "as_u16 (RUInt v) = Some v"
| "as_u16 _ = None"

section \<open>Names and labels\<close>

record FieldContext =
  ctx_state_machine_id :: "u32 option"
  ctx_category :: "u16 option"
  ctx_value_id :: "u32 option"
  ctx_condition_id :: "u32 option"
  ctx_message_template_id :: "u32 option"

definition context_default :: FieldContext where
  "context_default = \<lparr>ctx_state_machine_id = None, ctx_category = None, ctx_value_id = None,
     ctx_condition_id = None, ctx_message_template_id = None\<rparr>"

definition context_slot :: "FieldContext \<Rightarrow> Slot \<Rightarrow> FieldContext" where
  "context_slot ctx s =
     (let key = slot_key s; bytes = slot_payload s in
      if key = KEY_STATE_MACHINE_ID \<and> length bytes = 4 then ctx\<lparr>ctx_state_machine_id := Some (from_le_bytes bytes)\<rparr>
      else if key = KEY_CATEGORY \<and> length bytes = 2 then ctx\<lparr>ctx_category := Some (from_le_bytes bytes)\<rparr>
      else if key = KEY_VALUE_ID \<and> length bytes = 4 then ctx\<lparr>ctx_value_id := Some (from_le_bytes bytes)\<rparr>
      else if key = KEY_CONDITION_ID \<and> length bytes = 4 then ctx\<lparr>ctx_condition_id := Some (from_le_bytes bytes)\<rparr>
      else if key = KEY_MESSAGE_TEMPLATE_ID \<and> length bytes = 4
        then ctx\<lparr>ctx_message_template_id := Some (from_le_bytes bytes)\<rparr>
      else ctx)"

definition context_from_record :: "Record \<Rightarrow> FieldContext" where
  "context_from_record r = foldl context_slot context_default (rec_slots r)"

definition state_machine_name :: "u32 \<Rightarrow> DefinitionFile \<Rightarrow> string option" where
  "state_machine_name i d = map_option sm_name (find (\<lambda>m. sm_state_machine_id m = i) (df_state_machines d))"

definition value_name :: "u32 \<Rightarrow> DefinitionFile \<Rightarrow> string option" where
  "value_name i d = map_option vd_name (find (\<lambda>v. vd_value_id v = i) (df_values d))"

definition condition_name :: "u32 \<Rightarrow> DefinitionFile \<Rightarrow> string option" where
  "condition_name i d = map_option cd_name (find (\<lambda>c. cd_condition_id c = i) (df_conditions d))"

definition message_template_format :: "u32 \<Rightarrow> DefinitionFile \<Rightarrow> string option" where
  "message_template_format i d =
     map_option mt_format (find (\<lambda>t. mt_message_template_id t = i) (df_message_templates d))"

definition cause_operand_name :: "u32 \<Rightarrow> u32 \<Rightarrow> DefinitionFile \<Rightarrow> string option" where
  "cause_operand_name condition_id operand_id d =
     Option.bind (find (\<lambda>c. cd_condition_id c = condition_id) (df_conditions d)) (\<lambda>condition.
       map_option co_name (find (\<lambda>operand. co_operand_id operand = operand_id) (cd_cause_operands condition)))"

definition source_to_resolved :: "SourceDefinition \<Rightarrow> ResolvedSource" where
  "source_to_resolved source = \<lparr>rsrc_name = src_name source, rsrc_path = src_path source,
     rsrc_hierarchy = src_hierarchy source, rsrc_dynamic = src_dynamic source\<rparr>"

definition resolve_source :: "u32 \<Rightarrow> DefinitionFile \<Rightarrow> ResolvedSource option" where
  "resolve_source source_id d =
     map_option source_to_resolved (find (\<lambda>source. src_source_id source = source_id) (df_sources d))"

definition enum_value_label :: "EnumValue list \<Rightarrow> u16 \<Rightarrow> string option" where
  "enum_value_label values v = map_option ev_label (find (\<lambda>entry. ev_value entry = v) values)"

definition enum_set_member_label :: "EnumMember list \<Rightarrow> u16 \<Rightarrow> string option" where
  "enum_set_member_label values v = map_option en_label (find (\<lambda>entry. en_value entry = v) values)"

definition severity_label :: "u16 \<Rightarrow> string option" where
  "severity_label v =
     map_option (\<lambda>band. case band of Low \<Rightarrow> ''Low'' | Medium \<Rightarrow> ''Medium'' | High \<Rightarrow> ''High'') (severity_band v)"

definition state_label :: "u32 \<Rightarrow> u16 \<Rightarrow> DefinitionFile \<Rightarrow> string option" where
  "state_label state_machine_id v d =
     Option.bind (find (\<lambda>m. sm_state_machine_id m = state_machine_id) (df_state_machines d)) (\<lambda>machine.
     Option.bind (find (\<lambda>s. ed_name s = sm_enum_set machine) (df_enum_sets d)) (\<lambda>enum_set.
       enum_set_member_label (ed_members enum_set) v))"

definition enum_label :: "u16 \<Rightarrow> ResolvedValue \<Rightarrow> FieldContext \<Rightarrow> DefinitionFile \<Rightarrow> string option" where
  "enum_label key v ctx d =
     Option.bind (as_u16 v) (\<lambda>int_value.
       if key = KEY_CATEGORY then enum_value_label CATEGORY_VALUES int_value
       else if key = KEY_AUTH_RESULT then enum_value_label AUTH_RESULT_VALUES int_value
       else if key = KEY_SIGNATURE_MEANING then enum_value_label SIGNATURE_MEANING_VALUES int_value
       else if key = KEY_PREVIOUS_STATE \<or> key = KEY_NEW_STATE
         then Option.bind (ctx_state_machine_id ctx) (\<lambda>m. state_label m int_value d)
       else if key = KEY_SEVERITY then severity_label int_value
       else None)"

definition unit_symbol :: "u16 \<Rightarrow> DefinitionFile \<Rightarrow> string option" where
  "unit_symbol unit_id d = map_option ud_symbol (find (\<lambda>u. ud_unit_id u = unit_id) (df_units d))"

definition unit_label :: "u16 \<Rightarrow> ResolvedValue \<Rightarrow> FieldContext \<Rightarrow> DefinitionFile \<Rightarrow> string option" where
  "unit_label key v ctx d =
     (if key = KEY_UNIT then Option.bind (as_u16 v) (\<lambda>unit_id. unit_symbol unit_id d)
      else if key \<noteq> KEY_PREVIOUS_VALUE \<and> key \<noteq> KEY_NEW_VALUE then None
      else Option.bind (ctx_value_id ctx) (\<lambda>value_id.
           Option.bind (find (\<lambda>entry. vd_value_id entry = value_id) (df_values d)) (\<lambda>entry.
           Option.bind (vd_unit entry) (\<lambda>unit_id. unit_symbol unit_id d))))"

text \<open>\<open>semantic_value\<close> replaces an id by the name it refers to; the result is the value, the field name and
  the type name, the latter two unchanged when nothing is replaced.\<close>

definition replace_ref :: "ResolvedValue \<Rightarrow> string \<Rightarrow> string \<Rightarrow> string option \<Rightarrow> string \<Rightarrow> string
    \<Rightarrow> ResolvedValue \<times> string \<times> string" where
  "replace_ref v name type_name found ref_name ref_type =
     (case found of Some n \<Rightarrow> (RString n, ref_name, ref_type) | None \<Rightarrow> (v, name, type_name))"

definition semantic_value ::
  "u16 \<Rightarrow> ResolvedValue \<Rightarrow> FieldContext \<Rightarrow> DefinitionFile \<Rightarrow> string \<Rightarrow> string \<Rightarrow> string option
     \<Rightarrow> ResolvedValue \<times> string \<times> string" where
  "semantic_value key v ctx d name type_name label =
     (if key = KEY_STATE_MACHINE_ID
      then replace_ref v name type_name (Option.bind (as_u32 v) (\<lambda>i. state_machine_name i d)) ''stateMachine'' ''StateMachineRef''
      else if key = KEY_VALUE_ID
      then replace_ref v name type_name (Option.bind (as_u32 v) (\<lambda>i. value_name i d)) ''value'' ''ValueRef''
      else if key = KEY_CONDITION_ID
      then replace_ref v name type_name (Option.bind (as_u32 v) (\<lambda>i. condition_name i d)) ''condition'' ''ConditionRef''
      else if key = KEY_MESSAGE_TEMPLATE_ID
      then replace_ref v name type_name (Option.bind (as_u32 v) (\<lambda>i. message_template_format i d))
             ''messageTemplate'' ''MessageTemplateRef''
      else if key = KEY_CAUSE_OPERAND
      then replace_ref v name type_name
             (Option.bind (ctx_condition_id ctx) (\<lambda>c. Option.bind (as_u32 v) (\<lambda>i. cause_operand_name c i d)))
             ''causeOperand'' ''CauseOperandRef''
      else if key = KEY_PREVIOUS_STATE \<or> key = KEY_NEW_STATE
      then replace_ref v name type_name label name ''StateRef''
      else (v, name, type_name))"

section \<open>Slots\<close>

definition decode_extension_value :: "Slot \<Rightarrow> (ResolvedValue option, 'e) outcome" where
  "decode_extension_value s =
     (case tlv_type_spec (slot_ty s) of
        None \<Rightarrow> Ok None
      | Some spec \<Rightarrow>
          if (case ts_fixed_width spec of Some expected \<Rightarrow> length (slot_payload s) \<noteq> expected | None \<Rightarrow> False)
          then Ok None
          else if slot_payload s = [] \<and> slot_ty s \<noteq> TY_STRING \<and> slot_ty s \<noteq> TY_BYTES then Ok None
          else (case decode_value s of Ok v \<Rightarrow> Ok (Some v) | Err _ \<Rightarrow> Ok None | Panic p \<Rightarrow> Panic p))"

definition resolve_extension_field :: "Slot \<Rightarrow> (ResolvedExtensionField, 'e) outcome" where
  "resolve_extension_field s =
     and_then (decode_extension_value s) (\<lambda>v.
       Ok \<lparr>rx_key = slot_key s, rx_type_tag = slot_ty s,
           rx_type_name = map_option ts_name (tlv_type_spec (slot_ty s)), rx_value = v, rx_payload = slot_payload s\<rparr>)"

definition decode_error_reason :: "Slot \<Rightarrow> ValueDecodeError \<Rightarrow> ResolvePlaceholderReason" where
  "decode_error_reason s err =
     (case err of ValueInvalidUtf8 \<Rightarrow> InvalidUtf8 (slot_key s)
      | ValueUnknownTlvType \<Rightarrow> ResolveUnknownTlvType (slot_key s) (slot_ty s))"

definition resolve_field ::
  "FieldContext \<Rightarrow> DefinitionFile \<Rightarrow> Slot \<Rightarrow> FieldSpec \<Rightarrow> (ResolvedField, ResolvePlaceholderReason) outcome" where
  "resolve_field ctx d s f =
     (case tlv_type_spec (slot_ty s) of
        None \<Rightarrow> Err (ResolveUnknownTlvType (slot_key s) (slot_ty s))
      | Some type_spec \<Rightarrow>
          and_then (map_err (decode_error_reason s) (decode_value s)) (\<lambda>v.
            let label = enum_label (slot_key s) v ctx d;
                u = unit_label (slot_key s) v ctx d;
                (v', name, type_name) = semantic_value (slot_key s) v ctx d (fs_name f) (ts_name type_spec) label
            in Ok \<lparr>rf_key = slot_key s, rf_name = name, rf_type_name = type_name, rf_value = v', rf_unit = u,
                   rf_enum_label = label\<rparr>))"

fun resolve_slots_loop ::
  "FieldContext \<Rightarrow> EventTypeDefinition \<Rightarrow> DefinitionFile \<Rightarrow> Slot list
     \<Rightarrow> (ResolvedField list \<times> ResolvedExtensionField list, ResolvePlaceholderReason) outcome" where
  "resolve_slots_loop ctx event d [] = Ok ([], [])"
| "resolve_slots_loop ctx event d (s # slots) =
     (if slot_key s \<ge> 0x8000
      then and_then (resolve_extension_field s) (\<lambda>x.
           and_then (resolve_slots_loop ctx event d slots) (\<lambda>(fields, extension_fields).
             Ok (fields, x # extension_fields)))
      else case find (\<lambda>schema. sd_key schema = slot_key s) (et_slots event) of
        None \<Rightarrow> resolve_slots_loop ctx event d slots
      | Some _ \<Rightarrow>
         (case field_spec (slot_key s) of
            None \<Rightarrow> resolve_slots_loop ctx event d slots
          | Some f \<Rightarrow>
              if fs_kind f = Reserved then resolve_slots_loop ctx event d slots
              else and_then (resolve_field ctx d s f) (\<lambda>fld.
                   and_then (resolve_slots_loop ctx event d slots) (\<lambda>(fields, extension_fields).
                     Ok (fld # fields, extension_fields)))))"

definition resolve_slots ::
  "Record \<Rightarrow> EventTypeDefinition \<Rightarrow> DefinitionFile
     \<Rightarrow> (ResolvedField list \<times> ResolvedExtensionField list, ResolvePlaceholderReason) outcome" where
  "resolve_slots r event d = resolve_slots_loop (context_from_record r) event d (rec_slots r)"

section \<open>Records\<close>

definition selected_definition :: "ResolvedEpoch \<Rightarrow> DefinitionSet \<Rightarrow> DefinitionFile option" where
  "selected_definition epoch definitions =
     (case epoch of Current \<Rightarrow> ds_current definitions | Prior \<Rightarrow> ds_prior definitions)"

definition hash_error :: "DefinitionError \<Rightarrow> ResolvePlaceholderReason" where
  "hash_error err = HashReason (definition_error_message err)"

definition verify_definition_hash ::
  "jcs \<Rightarrow> digest \<Rightarrow> DefinitionFile \<Rightarrow> ResolvedEpoch \<Rightarrow> byte_vec \<Rightarrow> (unit, ResolvePlaceholderReason) outcome" where
  "verify_definition_hash jcs sha256 d epoch expected =
     and_then (map_err hash_error (compute_content_hash jcs sha256 d)) (\<lambda>hash.
       if hash_carriage_hash hash \<noteq> expected then Err (Drift epoch expected (hash_carriage_hash hash))
       else if dh_content_hash (df_header d) \<noteq> [] \<and> dh_content_hash (df_header d) \<noteq> hash_content_hash hash
       then Err (FullHashDrift (dh_content_hash (df_header d)) (hash_content_hash hash))
       else Ok ())"

definition epoch_of :: "nat \<Rightarrow> ControlBlockSnapshot \<Rightarrow> ResolvedEpoch" where
  "epoch_of record_abs snapshot = (if record_abs \<ge> unat (cb_epoch_first_abs snapshot) then Current else Prior)"

definition schema_reason :: "SchemaViolation \<Rightarrow> ResolvePlaceholderReason" where
  "schema_reason reason = (case reason of UnknownEventId i \<Rightarrow> ResolveUnknownEventId i | other \<Rightarrow> SchemaReason other)"

text \<open>The steps of \<open>resolve_record\<close> that can fail, as one outcome whose error is the placeholder's reason.\<close>

definition resolve_against ::
  "jcs \<Rightarrow> digest \<Rightarrow> Record \<Rightarrow> ControlBlockSnapshot \<Rightarrow> ResolvedEpoch \<Rightarrow> byte_vec \<Rightarrow> DefinitionFile
     \<Rightarrow> (ResolvedRecord, ResolvePlaceholderReason) outcome" where
  "resolve_against jcs sha256 r snapshot epoch selected_hash d =
     and_then (verify_definition_hash jcs sha256 d epoch selected_hash) (\<lambda>_.
     and_then (map_err (\<lambda>err. SchemaReason (Encode err)) (encoded_record_len r)) (\<lambda>record_len.
     and_then (schema_validate_record r record_len d) (\<lambda>validation.
       case validation of
         Placeholder p \<Rightarrow> Err (schema_reason (ph_reason p))
       | Valid _ \<Rightarrow>
          (case find (\<lambda>event. et_id event = rec_event_type_id r) (df_event_types d) of
             None \<Rightarrow> Err (ResolveUnknownEventId (rec_event_type_id r))
           | Some event \<Rightarrow>
               and_then (resolve_slots r event d) (\<lambda>(fields, extension_fields).
                 Ok \<lparr>rv_event_name = et_name event, rv_source = resolve_source (rec_source_id r) d,
                     rv_source_id = rec_source_id r, rv_event_type_id = rec_event_type_id r,
                     rv_run_id = rec_run_id r, rv_epoch_id = cb_epoch_id snapshot,
                     rv_source_time = rec_source_time r, rv_seq = rec_seq r, rv_epoch = epoch,
                     rv_fields = fields, rv_extension_fields = extension_fields\<rparr>)))))"

definition resolve_record ::
  "jcs \<Rightarrow> digest \<Rightarrow> Record \<Rightarrow> nat \<Rightarrow> ControlBlockSnapshot \<Rightarrow> DefinitionSet \<Rightarrow> (Resolution, 'e) outcome" where
  "resolve_record jcs sha256 r record_abs snapshot definitions =
     (let epoch = epoch_of record_abs snapshot;
          selected_hash = (case epoch of Current \<Rightarrow> cb_definition_hash snapshot
                           | Prior \<Rightarrow> cb_prev_definition_hash snapshot)
      in case selected_definition epoch definitions of
           None \<Rightarrow> Ok (resolver_placeholder r snapshot epoch
             (case epoch of Current \<Rightarrow> MissingCurrentDefinition | Prior \<Rightarrow> StalePriorEpoch))
         | Some d \<Rightarrow>
            (case resolve_against jcs sha256 r snapshot epoch selected_hash d of
               Ok rec \<Rightarrow> Ok (Resolved rec)
             | Err reason \<Rightarrow> Ok (resolver_placeholder r snapshot epoch reason)
             | Panic p \<Rightarrow> Panic p))"

section \<open>Decoding never panics on validated slots\<close>

lemma tlv_widths:
  "tlv_type_spec 0x00 = Some t \<Longrightarrow> ts_fixed_width t = Some 1" "tlv_type_spec 0x01 = Some t \<Longrightarrow> ts_fixed_width t = Some 1"
  "tlv_type_spec 0x02 = Some t \<Longrightarrow> ts_fixed_width t = Some 1" "tlv_type_spec 0x03 = Some t \<Longrightarrow> ts_fixed_width t = Some 2"
  "tlv_type_spec 0x04 = Some t \<Longrightarrow> ts_fixed_width t = Some 2" "tlv_type_spec 0x05 = Some t \<Longrightarrow> ts_fixed_width t = Some 4"
  "tlv_type_spec 0x06 = Some t \<Longrightarrow> ts_fixed_width t = Some 4" "tlv_type_spec 0x07 = Some t \<Longrightarrow> ts_fixed_width t = Some 8"
  "tlv_type_spec 0x08 = Some t \<Longrightarrow> ts_fixed_width t = Some 8" "tlv_type_spec 0x09 = Some t \<Longrightarrow> ts_fixed_width t = Some 4"
  "tlv_type_spec 0x0A = Some t \<Longrightarrow> ts_fixed_width t = Some 8" "tlv_type_spec 0x0B = Some t \<Longrightarrow> ts_fixed_width t = Some 8"
  by (simp_all add: tlv_type_spec_def type_catalogue registry_ids, auto)

lemma decode_value_no_panic:
  assumes "payload_ok s"
  shows "\<not> is_panic (decode_value s)"
proof -
  from assms obtain t where t: "tlv_type_spec (slot_ty s) = Some t"
    "case ts_fixed_width t of None \<Rightarrow> True | Some w \<Rightarrow> length (slot_payload s) = w"
    by (auto simp: payload_ok_def split: option.splits)
  then show ?thesis
    using tlv_widths [of t]
    by (auto simp: decode_value_def Let_def map_ok_def vec_index_def payload_u16_def payload_u32_def payload_u64_def
        split: option.splits)
qed

lemma decode_extension_no_panic: "\<not> is_panic (decode_extension_value s)"
proof (cases "payload_ok s")
  case True
  then show ?thesis using decode_value_no_panic [OF True]
    by (auto simp: decode_extension_value_def split: option.splits outcome.splits)
next
  case False
  then show ?thesis
    by (auto simp: decode_extension_value_def payload_ok_def split: option.splits outcome.splits if_splits)
qed

lemma resolve_extension_no_panic: "\<not> is_panic (resolve_extension_field s)"
  by (simp add: resolve_extension_field_def decode_extension_no_panic)

lemma resolve_field_no_panic: "payload_ok s \<Longrightarrow> \<not> is_panic (resolve_field ctx d s f)"
  by (auto simp: resolve_field_def decode_value_no_panic Let_def split_def split: option.splits)

lemma resolve_slots_loop_no_panic:
  assumes "list_all (\<lambda>s. slot_key s < 0x8000 \<longrightarrow> payload_ok s) slots"
  shows "\<not> is_panic (resolve_slots_loop ctx event d slots)"
  using assms
  by (induction slots)
     (auto simp: resolve_extension_no_panic resolve_field_no_panic not_le split: option.splits)

lemma conforms_slots:
  assumes "event_schema_ok e" "conforms r d e known vendor"
  shows "list_all (\<lambda>s. (slot_key s < 0x8000 \<longrightarrow> payload_ok s)
      \<and> (slot_key s \<in> sd_key ` set (et_slots e) \<or> is_vendor_key (slot_key s))) (rec_slots r)"
proof -
  have c: "rec_slots r = known @ vendor" "list_all (slot_ok_for r d (schema_map e)) known"
    "list_all (vendor_slot (schema_map e)) vendor"
    using assms by (simp_all add: conforms_iff)
  have "payload_ok s \<and> slot_key s \<in> sd_key ` set (et_slots e)" if "s \<in> set known" for s
    using c(2) that slot_ok_for_iff [OF assms(1), of r d s] slot_ok_for_keys [OF assms(1) c(2)]
    by (auto simp: list_all_iff)
  then show ?thesis using c by (auto simp: list_all_iff vendor_slot_def is_vendor_key_def)
qed

lemma schema_valid_conforms:
  assumes "schema_validate_record r len d = Ok (Valid ext)"
  obtains e known vendor where "definition_ok d" "event_schema_ok e"
    "find (\<lambda>event. et_id event = rec_event_type_id r) (df_event_types d) = Some e" "conforms r d e known vendor"
proof -
  have "validate_definition d = Ok ()"
    using assms by (auto simp: schema_validate_record_def placeholder_def split: outcome.splits)
  then have d: "definition_ok d" by (simp add: validate_definition_eq_Ok)
  from assms obtain e where e: "find (\<lambda>event. et_id event = rec_event_type_id r) (df_event_types d) = Some e"
    "validate_record_slots r e d = Ok ext"
    by (auto simp: schema_validate_record_def placeholder_def Let_def split: outcome.splits option.splits if_splits)
  then have "event_schema_ok e" using d
    by (auto simp: definition_ok_def list_all_iff find_Some_iff)
  with e d show thesis using validate_record_slots_eq_Ok that by blast
qed

lemma resolve_against_Ok:
  assumes "resolve_against jcs sha256 r snapshot epoch h d = Ok rv"
  obtains e len ext known vendor flds exts where
    "verify_definition_hash jcs sha256 d epoch h = Ok ()" "encoded_record_len r = Ok len"
    "schema_validate_record r len d = (Ok (Valid ext) :: (_, ResolvePlaceholderReason) outcome)"
    "definition_ok d" "event_schema_ok e" "conforms r d e known vendor" "et_id e = rec_event_type_id r"
    "e \<in> set (df_event_types d)"
    "resolve_slots r e d = Ok (flds, exts)" "rv_event_name rv = et_name e"
    "rv_fields rv = flds" "rv_extension_fields rv = exts" "rv_epoch rv = epoch" "rv_epoch_id rv = cb_epoch_id snapshot"
    "rv_source_id rv = rec_source_id r" "rv_run_id rv = rec_run_id r" "rv_seq rv = rec_seq r"
    "rv_event_type_id rv = rec_event_type_id r" "rv_source_time rv = rec_source_time r"
proof -
  from assms obtain u len v where v:
    "verify_definition_hash jcs sha256 d epoch h = Ok u" "encoded_record_len r = Ok len"
    "schema_validate_record r len d = (Ok v :: (_, ResolvePlaceholderReason) outcome)"
    and rest: "(case v of Placeholder p \<Rightarrow> Err (schema_reason (ph_reason p)) | Valid _ \<Rightarrow>
        (case find (\<lambda>event. et_id event = rec_event_type_id r) (df_event_types d) of
           None \<Rightarrow> Err (ResolveUnknownEventId (rec_event_type_id r))
         | Some event \<Rightarrow> and_then (resolve_slots r event d) (\<lambda>(flds, exts).
             Ok \<lparr>rv_event_name = et_name event, rv_source = resolve_source (rec_source_id r) d,
               rv_source_id = rec_source_id r, rv_event_type_id = rec_event_type_id r,
               rv_run_id = rec_run_id r, rv_epoch_id = cb_epoch_id snapshot,
               rv_source_time = rec_source_time r, rv_seq = rec_seq r, rv_epoch = epoch,
               rv_fields = flds, rv_extension_fields = exts\<rparr>))) = Ok rv"
    unfolding resolve_against_def and_then_eq_Ok map_err_eq_Ok by blast
  from rest obtain ext where ext: "v = Valid ext" by (cases v) auto
  with rest obtain e flds exts where e:
    "find (\<lambda>event. et_id event = rec_event_type_id r) (df_event_types d) = Some e"
    "resolve_slots r e d = Ok (flds, exts)"
    and rv: "rv_event_name rv = et_name e"
    "rv_fields rv = flds" "rv_extension_fields rv = exts" "rv_epoch rv = epoch" "rv_epoch_id rv = cb_epoch_id snapshot"
    "rv_source_id rv = rec_source_id r" "rv_run_id rv = rec_run_id r" "rv_seq rv = rec_seq r"
    "rv_event_type_id rv = rec_event_type_id r" "rv_source_time rv = rec_source_time r"
    by (auto simp: outcome_simps split: option.splits)
  have u: "verify_definition_hash jcs sha256 d epoch h = Ok ()" using v(1) by simp
  note * = u v(2) v(3) [unfolded ext] e
  obtain known vendor where "definition_ok d" "event_schema_ok e" "conforms r d e known vendor"
    by (rule schema_valid_conforms [OF *(3)]) (use *(4) in auto)
  moreover have "et_id e = rec_event_type_id r" "e \<in> set (df_event_types d)"
    using *(4) by (auto simp: find_Some_iff)
  ultimately show thesis using that * rv by blast
qed

section \<open>Every slot is kept\<close>

lemma resolve_extension_field_sel:
  "resolve_extension_field s = Ok x \<Longrightarrow> rx_key x = slot_key s \<and> rx_type_tag x = slot_ty s \<and> rx_payload x = slot_payload s"
  by (auto simp: resolve_extension_field_def outcome_simps)

lemma resolve_field_key: "resolve_field ctx d s f = Ok x \<Longrightarrow> rf_key x = slot_key s"
  by (auto simp: resolve_field_def outcome_simps Let_def split_def split: option.splits)

lemma resolve_slots_loop_extensions:
  "resolve_slots_loop ctx e d slots = Ok (flds, exts) \<Longrightarrow>
     map (\<lambda>x. (rx_key x, rx_type_tag x, rx_payload x)) exts
       = map (\<lambda>s. (slot_key s, slot_ty s, slot_payload s)) [s \<leftarrow> slots. is_vendor_key (slot_key s)]"
proof (induction slots arbitrary: flds exts)
  case (Cons s slots)
  then show ?case
    by (auto simp: outcome_simps is_vendor_key_def split: if_splits option.splits dest!: resolve_extension_field_sel)
qed simp

lemma core_key_resolvable:
  assumes "event_schema_ok e" "schema \<in> set (et_slots e)" "sd_key schema = k" "k < 0x8000" "k \<noteq> 0"
  shows "\<exists>f. field_spec k = Some f \<and> fs_kind f \<noteq> Reserved"
proof -
  have "declared_type_ok schema" using assms by (simp add: event_schema_ok_def list_all_iff)
  moreover have "is_core_key k"
    using assms(4,5) u16_zero_iff [of k] word_le_pred [of k] by (auto simp: is_core_key_def)
  ultimately show ?thesis using assms(3) by (auto simp: declared_type_ok_def split: option.splits FieldKind.splits)
qed

lemma field_spec_nonzero: "field_spec k = Some f \<Longrightarrow> k \<noteq> 0"
  using field_tags find_complete [OF distinct_field_keys, of k f]
  by (auto simp: field_spec_def list_all_iff is_core_key_def)

lemma resolve_slots_loop_fields:
  assumes e: "event_schema_ok e"
    and "list_all (\<lambda>s. slot_key s \<in> sd_key ` set (et_slots e) \<or> is_vendor_key (slot_key s)) slots"
    and "resolve_slots_loop ctx e d slots = Ok (flds, exts)"
  shows "map rf_key flds = [k \<leftarrow> map slot_key slots. k < 0x8000 \<and> k \<noteq> 0]"
  using assms(2,3)
proof (induction slots arbitrary: flds exts)
  case (Cons s slots)
  show ?case
  proof (cases "is_vendor_key (slot_key s) \<or> slot_key s = 0")
    case True
    with Cons.prems obtain exts' where "resolve_slots_loop ctx e d slots = Ok (flds, exts')"
      using field_spec_nonzero [of "slot_key s"]
      by (auto simp: outcome_simps is_vendor_key_def split: option.splits if_splits)
    with Cons True show ?thesis by (auto simp: is_vendor_key_def not_le)
  next
    case False
    with Cons.prems(1) obtain schema where sc: "schema \<in> set (et_slots e)" "sd_key schema = slot_key s" by auto
    from False have k: "slot_key s < 0x8000" "slot_key s \<noteq> 0" by (auto simp: is_vendor_key_def)
    from core_key_resolvable [OF e sc k] obtain f where f: "field_spec (slot_key s) = Some f" "fs_kind f \<noteq> Reserved" by blast
    obtain y where y: "find (\<lambda>schema. sd_key schema = slot_key s) (et_slots e) = Some y"
      using sc by (cases "find (\<lambda>schema. sd_key schema = slot_key s) (et_slots e)") (auto simp: find_None_iff)
    have "\<not> 0x8000 \<le> slot_key s" using k by simp
    with Cons.prems(2) f y obtain fld flds' where "resolve_field ctx d s f = Ok fld" "flds = fld # flds'"
      "resolve_slots_loop ctx e d slots = Ok (flds', exts)"
      by (auto simp: outcome_simps)
    with Cons k show ?thesis by (auto dest: resolve_field_key)
  qed
qed simp

lemma compute_content_hash_no_panic:
  assumes "\<forall>x. 8 \<le> length (sha256 x)" "\<forall>d. \<not> is_panic (jcs d)"
  shows "\<not> is_panic (compute_content_hash jcs sha256 d)"
  using assms
  by (simp add: compute_content_hash_def canonical_definition_bytes_for_hash_def canonical_json_bytes_def Let_def vec_slice_def)

lemma schema_validate_record_no_panic: "\<not> is_panic (schema_validate_record r len d)"
proof -
  have "validate_definition d \<noteq> Panic p" "validate_record_slots r e d \<noteq> Panic p" for p e
    using validate_definition_no_panic [of d] validate_record_slots_no_panic [of r e d] by auto
  then show ?thesis
    by (auto simp: schema_validate_record_def Let_def split: outcome.splits option.splits)
qed

lemma resolve_against_no_panic:
  assumes "\<forall>x. 8 \<le> length (sha256 x)" "\<forall>d. \<not> is_panic (jcs d)"
  shows "\<not> is_panic (resolve_against jcs sha256 r snapshot epoch h d)"
proof -
  have "\<not> is_panic (verify_definition_hash jcs sha256 d epoch h)"
    using compute_content_hash_no_panic [OF assms] by (simp add: verify_definition_hash_def)
  moreover have "\<not> is_panic (encoded_record_len r)" 
    by (cases "encode r (rec_flags r AND FLAG_HAS_CRC \<noteq> 0)") (simp_all add: encoded_record_len_def encode_not_panic)
  moreover have "\<not> is_panic (schema_validate_record r len d)" for len
    by (rule schema_validate_record_no_panic)
  moreover have "\<not> is_panic (resolve_slots r e d)"
    if v: "schema_validate_record r len d = (Ok (Valid ext) :: (_, ResolvePlaceholderReason) outcome)"
      and f: "find (\<lambda>event. et_id event = rec_event_type_id r) (df_event_types d) = Some e" for len ext e
  proof -
    obtain known vendor where "event_schema_ok e" "conforms r d e known vendor"
      by (rule schema_valid_conforms [OF v]) (use f in auto)
    from conforms_slots [OF this] show ?thesis
      unfolding resolve_slots_def by (intro resolve_slots_loop_no_panic) (auto simp: list_all_iff)
  qed
  ultimately show ?thesis
    by (auto simp: resolve_against_def split_def split: SchemaValidation.split option.split)
qed

lemma resolve_record_Resolved:
  assumes "resolve_record jcs sha256 r a snapshot defs = Ok (Resolved rv)"
  obtains d where "selected_definition (epoch_of a snapshot) defs = Some d"
    "resolve_against jcs sha256 r snapshot (epoch_of a snapshot)
      (case epoch_of a snapshot of Current \<Rightarrow> cb_definition_hash snapshot | Prior \<Rightarrow> cb_prev_definition_hash snapshot) d
      = Ok rv"
  using assms
  by (auto simp: resolve_record_def resolver_placeholder_def Let_def split: option.splits outcome.splits)

end
