(* ===== verification/Epoch.thy ===== *)
theory Epoch
  imports Consumer Btree
begin

text \<open>
  Runs, epochs and per-source sequence numbers, \<open>crates/carriage/src/epoch.rs\<close>.  A method of
  \<open>EpochProducer\<close> is a function from the producer to the producer after the call and the result, because
  some errors are returned after fields have changed; \<open>pbind\<close> is the \<open>?\<close> operator on such functions.
  The \<open>BTreeMap\<close> of source sequence numbers, which is iterated, is an ordered association list; the
  resolver's maps, which are not, are finite maps.
\<close>

section \<open>The producer\<close>

record PendingTransition =
  pt_def_hash_old :: byte_vec
  pt_def_hash_new :: byte_vec
  pt_epoch_id :: u64
  pt_definition_changed_emitted :: bool

record EpochProducer =
  ep_ring :: RingBuffer
  ep_run_id :: nat
  ep_epoch_id :: u64
  ep_epoch_first_abs :: nat
  ep_system_seq :: nat
  ep_source_seq :: "(u32, nat) btree"
  ep_source_time :: nat
  ep_definition_hash :: byte_vec
  ep_prev_definition_hash :: byte_vec
  ep_transition :: "PendingTransition option"

datatype EpochError =
    DefinitionAlreadyEmitted
  | DefinitionNotEmitted
  | EmissionDuringTransition
  | NoTransitionOpen
  | EpochRing RingError
  | TransitionAlreadyOpen

type_synonym 'a producing = "EpochProducer \<Rightarrow> EpochProducer \<times> ('a, EpochError) outcome"

definition pbind :: "'a producing \<Rightarrow> ('a \<Rightarrow> 'b producing) \<Rightarrow> 'b producing" where
  "pbind m f p = (case m p of (p', Ok a) \<Rightarrow> f a p' | (p', Err e) \<Rightarrow> (p', Err e)
                   | (p', Panic x) \<Rightarrow> (p', Panic x))"

definition preturn :: "'a \<Rightarrow> 'a producing" where
  "preturn a p = (p, Ok a)"

definition producer_new :: "nat \<Rightarrow> nat \<Rightarrow> u64 \<Rightarrow> (EpochProducer, 'e) outcome" where
  "producer_new cap run_id epoch_id =
     and_then (ring_new cap) (\<lambda>ring.
       Ok \<lparr>ep_ring = ring, ep_run_id = run_id, ep_epoch_id = epoch_id, ep_epoch_first_abs = 0,
           ep_system_seq = 0, ep_source_seq = [], ep_source_time = 1780000000000000000,
           ep_definition_hash = replicate 8 0, ep_prev_definition_hash = replicate 8 0,
           ep_transition = None\<rparr>)"

definition control_snapshot :: "EpochProducer \<Rightarrow> ControlBlockSnapshot" where
  "control_snapshot p =
     \<lparr>cb_version = 2, cb_caps = 0, cb_buffer_id = DEFAULT_BUFFER_ID,
      cb_buffer_bytes = of_nat (capacity (ep_ring p)),
      cb_head_abs = of_nat (ring_head_abs (ep_ring p)),
      cb_oldest_abs = of_nat (ring_oldest_abs (ep_ring p)),
      cb_lost_count = of_nat (ring_lost_count (ep_ring p)),
      cb_run_id = of_nat (ep_run_id p), cb_epoch_id = ep_epoch_id p,
      cb_epoch_first_abs = of_nat (ep_epoch_first_abs p),
      cb_definition_hash = ep_definition_hash p,
      cb_prev_definition_hash = ep_prev_definition_hash p\<rparr>"

text \<open>\<open>self.ring.write_record(&record)?\<close>: the ring is replaced on success and kept on an error.\<close>

definition producer_write :: "Record \<Rightarrow> (nat \<times> nat) producing" where
  "producer_write r p =
     (case write_record (ep_ring p) r of
        Ok (ring, start_abs, end_abs) \<Rightarrow> (p\<lparr>ep_ring := ring\<rparr>, Ok (start_abs, end_abs))
      | Err e \<Rightarrow> (p, Err (EpochRing e))
      | Panic x \<Rightarrow> (p, Panic x))"

definition producer_record :: "u32 \<Rightarrow> nat \<Rightarrow> u32 \<Rightarrow> Record producing" where
  "producer_record source_id seq event_type_id p =
     (let r = record_new (of_nat (ep_source_time p)) (of_nat (ep_run_id p)) (of_nat seq) source_id event_type_id
      in case u64_add (ep_source_time p) 1 of
           Ok t \<Rightarrow> (p\<lparr>ep_source_time := t\<rparr>, Ok r)
         | Err e \<Rightarrow> (p, Err e)
         | Panic x \<Rightarrow> (p, Panic x))"

definition next_source_seq :: "u32 \<Rightarrow> nat producing" where
  "next_source_seq source_id p =
     (let seq = (case btree_get (ep_source_seq p) source_id of None \<Rightarrow> 0 | Some n \<Rightarrow> n)
      in case u64_add seq 1 of
           Ok n \<Rightarrow> (p\<lparr>ep_source_seq := btree_insert source_id n (ep_source_seq p)\<rparr>, Ok seq)
         | Err e \<Rightarrow> (p, Err e)
         | Panic x \<Rightarrow> (p, Panic x))"

definition emit_system :: "u32 \<Rightarrow> Slot list \<Rightarrow> (nat \<times> nat) producing" where
  "emit_system event_type_id slots p =
     (let seq = ep_system_seq p
      in case u64_add seq 1 of
           Ok n \<Rightarrow> pbind (producer_record SYSTEM_SOURCE_ID seq event_type_id) (\<lambda>r.
                    producer_write (r\<lparr>rec_slots := slots\<rparr>)) (p\<lparr>ep_system_seq := n\<rparr>)
         | Err e \<Rightarrow> (p, Err e)
         | Panic x \<Rightarrow> (p, Panic x))"

definition emit_data :: "u32 \<Rightarrow> u32 \<Rightarrow> unit producing" where
  "emit_data source_id event_type_id p =
     (if ep_transition p \<noteq> None then (p, Err EmissionDuringTransition)
      else pbind (next_source_seq source_id) (\<lambda>seq.
           pbind (producer_record source_id seq event_type_id) (\<lambda>r.
             let r = (if event_type_id = EVENT_MESSAGE
                      then r\<lparr>rec_slots := rec_slots r
                              @ [slot_new KEY_MESSAGE_TEMPLATE_ID TY_UDINT (u32_to_le_bytes 0)]\<rparr>
                      else r)
             in pbind (producer_write r) (\<lambda>_. preturn ()))) p)"

fun checkpoint_loop :: "(u32 \<times> nat) list \<Rightarrow> unit producing" where
  "checkpoint_loop [] p = (p, Ok ())"
| "checkpoint_loop ((source_id, produced_count) # high_water) p =
     pbind (producer_record source_id produced_count EVENT_SOURCE_HIGH_WATER) (\<lambda>r.
     pbind (producer_write (r\<lparr>rec_slots := rec_slots r
              @ [slot_new KEY_SOURCE_HIGH_WATER TY_ULINT (u64_to_le_bytes (of_nat produced_count))]\<rparr>)) (\<lambda>_ p.
       case u64_add produced_count 1 of
         Ok n \<Rightarrow> checkpoint_loop high_water
                  (p\<lparr>ep_source_seq := btree_insert source_id n (ep_source_seq p)\<rparr>)
       | Err e \<Rightarrow> (p, Err e)
       | Panic x \<Rightarrow> (p, Panic x))) p"

definition checkpoint_high_water :: "unit producing" where
  "checkpoint_high_water p =
     (if ep_transition p \<noteq> None then (p, Err EmissionDuringTransition)
      else checkpoint_loop (ep_source_seq p) p)"

definition begin_epoch_transition :: "byte_vec \<Rightarrow> byte_vec \<Rightarrow> u64 \<Rightarrow> unit producing" where
  "begin_epoch_transition def_hash_old def_hash_new epoch_id p =
     (if ep_transition p \<noteq> None then (p, Err TransitionAlreadyOpen)
      else pbind (emit_system EVENT_LOGGER_STOPPED []) (\<lambda>_.
           pbind checkpoint_high_water (\<lambda>_ p.
             (p\<lparr>ep_transition := Some \<lparr>pt_def_hash_old = def_hash_old, pt_def_hash_new = def_hash_new,
                 pt_epoch_id = epoch_id, pt_definition_changed_emitted = False\<rparr>\<rparr>, Ok ()))) p)"

definition emit_definition_changed :: "unit producing" where
  "emit_definition_changed p =
     (case ep_transition p of
        None \<Rightarrow> (p, Err NoTransitionOpen)
      | Some pending \<Rightarrow>
          if pt_definition_changed_emitted pending then (p, Err DefinitionAlreadyEmitted)
          else pbind (emit_system EVENT_DEFINITION_CHANGED
                  [slot_new KEY_DEF_HASH_OLD TY_BYTES (pt_def_hash_old pending),
                   slot_new KEY_DEF_HASH_NEW TY_BYTES (pt_def_hash_new pending),
                   slot_new KEY_EPOCH_ID TY_ULINT (u64_to_le_bytes (pt_epoch_id pending))])
                (\<lambda>_ p. (p\<lparr>ep_transition := Some (pending\<lparr>pt_definition_changed_emitted := True\<rparr>)\<rparr>, Ok ()))
                (p\<lparr>ep_transition := None\<rparr>))"

definition adopt_epoch :: "PendingTransition \<Rightarrow> u8 \<Rightarrow> unit producing" where
  "adopt_epoch pending cold_start =
     pbind (emit_system EVENT_LOGGER_STARTED [slot_new KEY_COLD_START TY_BOOL [cold_start]])
       (\<lambda>(start_abs, _) p.
          (p\<lparr>ep_epoch_first_abs := start_abs, ep_prev_definition_hash := pt_def_hash_old pending,
             ep_definition_hash := pt_def_hash_new pending\<rparr>, Ok ()))"

definition finish_definition_change :: "unit producing" where
  "finish_definition_change p =
     (case ep_transition p of
        None \<Rightarrow> (p, Err NoTransitionOpen)
      | Some pending \<Rightarrow>
          if \<not> pt_definition_changed_emitted pending then (p, Err DefinitionNotEmitted)
          else adopt_epoch pending 0 (p\<lparr>ep_transition := None, ep_epoch_id := pt_epoch_id pending\<rparr>))"

definition finish_cold_start :: "unit producing" where
  "finish_cold_start p =
     (case ep_transition p of
        None \<Rightarrow> (p, Err NoTransitionOpen)
      | Some pending \<Rightarrow>
          if \<not> pt_definition_changed_emitted pending then (p, Err DefinitionNotEmitted)
          else case u64_add (ep_run_id p) 1 of
            Ok run_id \<Rightarrow> adopt_epoch pending 1
              (p\<lparr>ep_transition := None, ep_run_id := run_id, ep_epoch_id := pt_epoch_id pending,
                 ep_system_seq := 0, ep_source_seq := []\<rparr>)
          | Err e \<Rightarrow> (p, Err e)
          | Panic x \<Rightarrow> (p, Panic x))"

section \<open>The resolver\<close>

record EpochResolver =
  er_buffer_id :: u32
  er_run_default_epoch :: "u64 \<rightharpoonup> u64"
  er_epoch_boundaries :: "u64 \<rightharpoonup> (nat \<times> u64) list"
  er_pending_epoch :: "u64 option"

definition resolver_new :: "u32 \<Rightarrow> u64 \<Rightarrow> u64 \<Rightarrow> EpochResolver" where
  "resolver_new buffer_id initial_run_id initial_epoch_id =
     \<lparr>er_buffer_id = buffer_id, er_run_default_epoch = [initial_run_id \<mapsto> initial_epoch_id],
      er_epoch_boundaries = Map.empty, er_pending_epoch = None\<rparr>"

fun definition_changed_scan :: "Slot list \<Rightarrow> u64 option \<Rightarrow> u64 option" where
  "definition_changed_scan [] epoch_id = epoch_id"
| "definition_changed_scan (s # slots) epoch_id =
     definition_changed_scan slots
       (if slot_key s = KEY_EPOCH_ID \<and> length (slot_payload s) = 8
        then Some (from_le_bytes (slot_payload s)) else epoch_id)"

definition definition_changed_epoch :: "Record \<Rightarrow> u64 option" where
  "definition_changed_epoch r = definition_changed_scan (rec_slots r) None"

definition logger_started_cold_start :: "Record \<Rightarrow> bool option" where
  "logger_started_cold_start r =
     map_option (\<lambda>s. slot_payload s ! 0 \<noteq> 0)
       (find (\<lambda>s. slot_key s = KEY_COLD_START \<and> length (slot_payload s) = 1) (rec_slots r))"

definition push_boundary ::
  "(u64 \<rightharpoonup> (nat \<times> u64) list) \<Rightarrow> u64 \<Rightarrow> nat \<times> u64 \<Rightarrow> (u64 \<rightharpoonup> (nat \<times> u64) list)" where
  "push_boundary m run_id b = m(run_id \<mapsto> (case m run_id of None \<Rightarrow> [] | Some bs \<Rightarrow> bs) @ [b])"

definition observe :: "EpochResolver \<Rightarrow> u32 \<Rightarrow> ReadRecord \<Rightarrow> EpochResolver" where
  "observe er buffer_id read =
     (if buffer_id \<noteq> er_buffer_id er then er
      else let r = rr_record read in
        if rec_event_type_id r = EVENT_DEFINITION_CHANGED
        then er\<lparr>er_pending_epoch := definition_changed_epoch r\<rparr>
        else if rec_event_type_id r = EVENT_LOGGER_STARTED
        then case er_pending_epoch er of
          None \<Rightarrow> er
        | Some pending \<Rightarrow>
            if (case logger_started_cold_start r of None \<Rightarrow> False | Some b \<Rightarrow> b)
            then er\<lparr>er_pending_epoch := None,
                    er_run_default_epoch := (er_run_default_epoch er)(rec_run_id r \<mapsto> pending),
                    er_epoch_boundaries :=
                      push_boundary (er_epoch_boundaries er) (rec_run_id r) (rr_start_abs read, pending)\<rparr>
            else er\<lparr>er_pending_epoch := None,
                    er_epoch_boundaries := map_option (sort_key fst) \<circ>
                      push_boundary (er_epoch_boundaries er) (rec_run_id r) (rr_start_abs read, pending)\<rparr>
        else er)"

definition resolve :: "EpochResolver \<Rightarrow> u32 \<Rightarrow> u64 \<Rightarrow> nat \<Rightarrow> u64 option" where
  "resolve er buffer_id run_id start_abs =
     (if buffer_id \<noteq> er_buffer_id er then None
      else case Option.bind (er_epoch_boundaries er run_id)
                  (\<lambda>boundaries. find (\<lambda>b. start_abs \<ge> fst b) (rev boundaries)) of
             Some b \<Rightarrow> Some (snd b)
           | None \<Rightarrow> er_run_default_epoch er run_id)"

section \<open>What a successful operation writes\<close>

datatype producer_op =
    EmitData u32 u32
  | BeginTransition byte_vec byte_vec u64
  | Checkpoint
  | EmitDefinitionChanged
  | FinishDefinitionChange
  | FinishColdStart

fun run_op :: "producer_op \<Rightarrow> unit producing" where
  "run_op (EmitData source_id event_type_id) = emit_data source_id event_type_id"
| "run_op (BeginTransition old new epoch_id) = begin_epoch_transition old new epoch_id"
| "run_op Checkpoint = checkpoint_high_water"
| "run_op EmitDefinitionChanged = emit_definition_changed"
| "run_op FinishDefinitionChange = finish_definition_change"
| "run_op FinishColdStart = finish_cold_start"

fun write_log ::
  "RingBuffer \<Rightarrow> Record list \<Rightarrow> (RingBuffer \<times> (nat \<times> Record) list, RingError) outcome" where
  "write_log ring [] = Ok (ring, [])"
| "write_log ring (r # rs) = and_then (write_record ring r) (\<lambda>(ring, start, _).
     and_then (write_log ring rs) (\<lambda>(ring, log). Ok (ring, (start, r) # log)))"

definition stream_record :: "nat \<Rightarrow> nat \<Rightarrow> u32 \<Rightarrow> nat \<Rightarrow> u32 \<Rightarrow> Slot list \<Rightarrow> Record" where
  "stream_record time run source_id seq event_type_id slots =
     (record_new (of_nat time) (of_nat run) (of_nat seq) source_id event_type_id)\<lparr>rec_slots := slots\<rparr>"

definition system_record :: "EpochProducer \<Rightarrow> u32 \<Rightarrow> Slot list \<Rightarrow> Record" where
  "system_record p event_type_id slots =
     stream_record (ep_source_time p) (ep_run_id p) SYSTEM_SOURCE_ID (ep_system_seq p) event_type_id slots"

definition source_next :: "EpochProducer \<Rightarrow> u32 \<Rightarrow> nat" where
  "source_next p source_id = (case btree_get (ep_source_seq p) source_id of None \<Rightarrow> 0 | Some n \<Rightarrow> n)"

definition data_record :: "EpochProducer \<Rightarrow> u32 \<Rightarrow> u32 \<Rightarrow> Record" where
  "data_record p source_id event_type_id =
     stream_record (ep_source_time p) (ep_run_id p) source_id (source_next p source_id) event_type_id
       (if event_type_id = EVENT_MESSAGE
        then [slot_new KEY_MESSAGE_TEMPLATE_ID TY_UDINT (u32_to_le_bytes 0)] else [])"

fun high_water_records :: "nat \<Rightarrow> nat \<Rightarrow> (u32 \<times> nat) list \<Rightarrow> Record list" where
  "high_water_records time run [] = []"
| "high_water_records time run ((source_id, n) # m) =
     stream_record time run source_id n EVENT_SOURCE_HIGH_WATER
       [slot_new KEY_SOURCE_HIGH_WATER TY_ULINT (u64_to_le_bytes (of_nat n))]
     # high_water_records (time + 1) run m"

definition definition_changed_slots :: "PendingTransition \<Rightarrow> Slot list" where
  "definition_changed_slots t =
     [slot_new KEY_DEF_HASH_OLD TY_BYTES (pt_def_hash_old t),
      slot_new KEY_DEF_HASH_NEW TY_BYTES (pt_def_hash_new t),
      slot_new KEY_EPOCH_ID TY_ULINT (u64_to_le_bytes (pt_epoch_id t))]"

fun op_records :: "producer_op \<Rightarrow> EpochProducer \<Rightarrow> Record list" where
  "op_records (EmitData source_id event_type_id) p = [data_record p source_id event_type_id]"
| "op_records Checkpoint p = high_water_records (ep_source_time p) (ep_run_id p) (ep_source_seq p)"
| "op_records (BeginTransition old new epoch_id) p =
     system_record p EVENT_LOGGER_STOPPED []
     # high_water_records (ep_source_time p + 1) (ep_run_id p) (ep_source_seq p)"
| "op_records EmitDefinitionChanged p =
     (case ep_transition p of None \<Rightarrow> []
      | Some t \<Rightarrow> [system_record p EVENT_DEFINITION_CHANGED (definition_changed_slots t)])"
| "op_records FinishDefinitionChange p =
     [system_record p EVENT_LOGGER_STARTED [slot_new KEY_COLD_START TY_BOOL [0]]]"
| "op_records FinishColdStart p =
     [system_record (p\<lparr>ep_run_id := ep_run_id p + 1, ep_system_seq := 0\<rparr>) EVENT_LOGGER_STARTED
        [slot_new KEY_COLD_START TY_BOOL [1]]]"

lemma pbind_eq_Ok:
  "pbind m f p = (p', Ok b) \<longleftrightarrow> (\<exists>p1 a. m p = (p1, Ok a) \<and> f a p1 = (p', Ok b))"
  by (auto simp: pbind_def split: prod.splits outcome.splits)

lemma producer_write_eq_Ok:
  "producer_write r p = (p', Ok (a, b)) \<longleftrightarrow>
     (\<exists>ring. write_record (ep_ring p) r = Ok (ring, a, b) \<and> p' = p\<lparr>ep_ring := ring\<rparr>)"
  by (auto simp: producer_write_def split: outcome.splits)

lemma producer_record_eq_Ok:
  "producer_record src seq e p = (p', Ok r) \<longleftrightarrow>
     ep_source_time p + 1 < u64_limit \<and> p' = p\<lparr>ep_source_time := ep_source_time p + 1\<rparr>
     \<and> r = stream_record (ep_source_time p) (ep_run_id p) src seq e []"
  by (auto simp: producer_record_def stream_record_def record_new_def u64_add_def Let_def)

lemma emit_system_eq_Ok:
  "emit_system e slots p = (p', Ok (a, b)) \<longleftrightarrow>
     ep_system_seq p + 1 < u64_limit \<and> ep_source_time p + 1 < u64_limit
     \<and> (\<exists>ring. write_record (ep_ring p) (system_record p e slots) = Ok (ring, a, b)
          \<and> p' = p\<lparr>ep_ring := ring, ep_system_seq := ep_system_seq p + 1,
                    ep_source_time := ep_source_time p + 1\<rparr>)"
  by (auto simp: emit_system_def Let_def u64_add_def pbind_eq_Ok producer_record_eq_Ok producer_write_eq_Ok
      system_record_def stream_record_def)

lemma emit_data_eq_Ok:
  "emit_data src e p = (p', Ok ()) \<longleftrightarrow>
     ep_transition p = None \<and> source_next p src + 1 < u64_limit \<and> ep_source_time p + 1 < u64_limit
     \<and> (\<exists>ring a b. write_record (ep_ring p) (data_record p src e) = Ok (ring, a, b)
          \<and> p' = p\<lparr>ep_ring := ring, ep_source_time := ep_source_time p + 1,
                    ep_source_seq := btree_insert src (source_next p src + 1) (ep_source_seq p)\<rparr>)"
  by (auto simp: emit_data_def next_source_seq_def source_next_def Let_def u64_add_def pbind_eq_Ok
      producer_record_eq_Ok producer_write_eq_Ok data_record_def stream_record_def record_new_def preturn_def
      split: option.splits if_splits)

definition bump :: "(u32 \<times> nat) list \<Rightarrow> (u32, nat) btree \<Rightarrow> (u32, nat) btree" where
  "bump hw m = foldl (\<lambda>m (k, n). btree_insert k (n + 1) m) m hw"

lemma bump_simps [simp]: "bump [] m = m" "bump ((k, n) # hw) m = bump hw (btree_insert k (n + 1) m)"
  by (simp_all add: bump_def)

lemma checkpoint_loop_Ok:
  "checkpoint_loop hw p = (p', Ok ()) \<Longrightarrow>
     \<exists>ring log. write_log (ep_ring p) (high_water_records (ep_source_time p) (ep_run_id p) hw) = Ok (ring, log)
       \<and> p' = p\<lparr>ep_ring := ring, ep_source_time := ep_source_time p + length hw,
                 ep_source_seq := bump hw (ep_source_seq p)\<rparr>
       \<and> list_all (\<lambda>(k, n). n + 1 < u64_limit) hw"
proof (induction hw arbitrary: p)
  case Nil
  then show ?case by simp
next
  case (Cons x hw)
  obtain k n where x: "x = (k, n)" by fastforce
  let ?r = "stream_record (ep_source_time p) (ep_run_id p) k n EVENT_SOURCE_HIGH_WATER
       [slot_new KEY_SOURCE_HIGH_WATER TY_ULINT (u64_to_le_bytes (of_nat n))]"
  from Cons.prems obtain ring a b where
    w: "write_record (ep_ring p) ?r = Ok (ring, a, b)" and n: "n + 1 < u64_limit"
    and rest: "checkpoint_loop hw (p\<lparr>ep_source_time := ep_source_time p + 1, ep_ring := ring,
        ep_source_seq := btree_insert k (n + 1) (ep_source_seq p)\<rparr>) = (p', Ok ())"
    by (auto simp: x pbind_eq_Ok producer_record_eq_Ok producer_write_eq_Ok u64_add_def stream_record_def
        record_new_def split: if_splits)
  from Cons.IH [OF rest] obtain ring' log where
    "write_log ring (high_water_records (ep_source_time p + 1) (ep_run_id p) hw) = Ok (ring', log)"
    "p' = p\<lparr>ep_ring := ring', ep_source_time := ep_source_time p + 1 + length hw,
            ep_source_seq := bump hw (btree_insert k (n + 1) (ep_source_seq p))\<rparr>"
    "list_all (\<lambda>(k, n). n + 1 < u64_limit) hw" by auto
  with w n show ?case by (simp add: x)
qed

lemma checkpoint_eq_Ok:
  assumes "checkpoint_high_water p = (p', Ok ())"
  shows "ep_transition p = None"
    "\<exists>ring log. write_log (ep_ring p) (high_water_records (ep_source_time p) (ep_run_id p) (ep_source_seq p)) = Ok (ring, log)
       \<and> p' = p\<lparr>ep_ring := ring, ep_source_time := ep_source_time p + length (ep_source_seq p),
                 ep_source_seq := bump (ep_source_seq p) (ep_source_seq p)\<rparr>
       \<and> list_all (\<lambda>(k, n). n + 1 < u64_limit) (ep_source_seq p)"
  using assms checkpoint_loop_Ok [of "ep_source_seq p" p p'] by (auto simp: checkpoint_high_water_def split: if_splits)

lemma op_writes:
  assumes "run_op op p = (p', Ok ())"
  shows "\<exists>log. write_log (ep_ring p) (op_records op p) = Ok (ep_ring p', log)"
proof (cases op)
  case (EmitData src e)
  then show ?thesis using assms by (auto simp: emit_data_eq_Ok)
next
  case (BeginTransition old new epoch)
  then show ?thesis
    using assms
    by (auto simp: begin_epoch_transition_def pbind_eq_Ok emit_system_eq_Ok dest!: checkpoint_eq_Ok split: if_splits)
next
  case Checkpoint
  then show ?thesis using assms by (auto dest!: checkpoint_eq_Ok)
next
  case EmitDefinitionChanged
  then show ?thesis
    using assms by (auto simp: emit_definition_changed_def pbind_eq_Ok emit_system_eq_Ok system_record_def
        definition_changed_slots_def split: option.splits if_splits)
next
  case FinishDefinitionChange
  then show ?thesis
    using assms by (auto simp: finish_definition_change_def adopt_epoch_def pbind_eq_Ok emit_system_eq_Ok
        system_record_def split: option.splits if_splits)
next
  case FinishColdStart
  then show ?thesis
    using assms by (auto simp: finish_cold_start_def adopt_epoch_def pbind_eq_Ok emit_system_eq_Ok u64_add_def
        system_record_def split: option.splits if_splits)
qed

section \<open>Sequence numbers are gap-free\<close>

definition stream_seqs :: "Record list \<Rightarrow> nat \<Rightarrow> u32 \<Rightarrow> nat list" where
  "stream_seqs rs run src =
     map (\<lambda>r. unat (rec_seq r)) [r \<leftarrow> rs. unat (rec_run_id r) = run \<and> rec_source_id r = src]"

definition numbered :: "nat \<Rightarrow> (u32 \<Rightarrow> nat) \<Rightarrow> Record list \<Rightarrow> bool" where
  "numbered run c rs \<longleftrightarrow>
     (\<forall>src. stream_seqs rs run src = [0 ..< c src])
     \<and> (\<forall>run' src. run < run' \<longrightarrow> stream_seqs rs run' src = [])
     \<and> (\<forall>run' src. \<exists>n. stream_seqs rs run' src = [0 ..< n])"

definition counters :: "EpochProducer \<Rightarrow> u32 \<Rightarrow> nat" where
  "counters p src = (if src = SYSTEM_SOURCE_ID then ep_system_seq p else source_next p src)"

definition seq_inv :: "EpochProducer \<Rightarrow> Record list \<Rightarrow> bool" where
  "seq_inv p rs \<longleftrightarrow> btree_ok (ep_source_seq p) \<and> btree_get (ep_source_seq p) SYSTEM_SOURCE_ID = None
     \<and> ep_run_id p < u64_limit \<and> numbered (ep_run_id p) (counters p) rs"

fun op_ok :: "producer_op \<Rightarrow> bool" where
  "op_ok (EmitData source_id event_type_id) \<longleftrightarrow> source_id \<noteq> SYSTEM_SOURCE_ID
     \<and> event_type_id \<noteq> EVENT_DEFINITION_CHANGED \<and> event_type_id \<noteq> EVENT_LOGGER_STARTED"
| "op_ok _ \<longleftrightarrow> True"

lemma stream_seqs_append [simp]: "stream_seqs (xs @ ys) run src = stream_seqs xs run src @ stream_seqs ys run src"
  by (simp add: stream_seqs_def)

lemma numbered_snoc:
  assumes "numbered run c rs" "unat (rec_run_id r) = run" "unat (rec_seq r) = c (rec_source_id r)"
  shows "numbered run (c(rec_source_id r := c (rec_source_id r) + 1)) (rs @ [r])"
proof -
  have one: "stream_seqs [r] run' src = (if run' = run \<and> src = rec_source_id r then [c src] else [])" for run' src
    using assms(2,3) by (auto simp: stream_seqs_def)
  have "\<exists>n. stream_seqs rs run' src @ (if run' = run \<and> src = rec_source_id r then [c src] else []) = [0 ..< n]" for run' src
  proof (cases "run' = run \<and> src = rec_source_id r")
    case True
    then show ?thesis using assms(1) by (intro exI [of _ "c src + 1"]) (simp add: numbered_def)
  qed (use assms(1) in \<open>auto simp: numbered_def\<close>)
  with assms(1) show ?thesis by (simp add: numbered_def one)
qed

lemma numbered_new_run: "numbered run c rs \<Longrightarrow> numbered (run + 1) (\<lambda>_. 0) rs"
  by (simp add: numbered_def)

lemma stream_record_sel [simp]:
  "rec_source_id (stream_record t run src seq e slots) = src"
  "rec_event_type_id (stream_record t run src seq e slots) = e"
  "rec_slots (stream_record t run src seq e slots) = slots"
  "run < u64_limit \<Longrightarrow> unat (rec_run_id (stream_record t run src seq e slots)) = run"
  "seq < u64_limit \<Longrightarrow> unat (rec_seq (stream_record t run src seq e slots)) = seq"
  by (simp_all add: stream_record_def record_new_def unat_of_nat_u64)

lemma numbered_stream_record:
  assumes "numbered run c rs" "run < u64_limit" "c src + 1 < u64_limit"
  shows "numbered run (c(src := c src + 1)) (rs @ [stream_record t run src (c src) e slots])"
  using numbered_snoc [OF assms(1), of "stream_record t run src (c src) e slots"] assms(2,3) by simp

lemma numbered_high_water:
  assumes "numbered run c rs" "run < u64_limit" "distinct (map fst hw)"
    and "list_all (\<lambda>(k, n). c k = n \<and> n + 1 < u64_limit) hw"
  shows "numbered run (\<lambda>k. if k \<in> fst ` set hw then c k + 1 else c k) (rs @ high_water_records t run hw)"
  using assms
proof (induction hw arbitrary: c rs t)
  case (Cons x hw)
  obtain k n where x: "x = (k, n)" by fastforce
  let ?r = "stream_record t run k n EVENT_SOURCE_HIGH_WATER
       [slot_new KEY_SOURCE_HIGH_WATER TY_ULINT (u64_to_le_bytes (of_nat n))]"
  let ?c = "c(k := n + 1)"
  have "numbered run ?c (rs @ [?r])"
    using numbered_stream_record [of run c rs k] Cons.prems by (auto simp: x)
  then have "numbered run (\<lambda>j. if j \<in> fst ` set hw then ?c j + 1 else ?c j)
      ((rs @ [?r]) @ high_water_records (t + 1) run hw)"
  proof (rule Cons.IH)
    show "list_all (\<lambda>(k, n). ?c k = n \<and> n + 1 < u64_limit) hw"
      using Cons.prems(3,4) by (force simp: x list_all_iff)
  qed (use Cons.prems in simp_all)
  moreover have "(\<lambda>j. if j \<in> fst ` set hw then ?c j + 1 else ?c j)
      = (\<lambda>j. if j \<in> fst ` set (x # hw) then c j + 1 else c j)"
    using Cons.prems(3,4) by (auto simp: x fun_eq_iff)
  ultimately show ?case by (simp add: x)
qed simp

lemma btree_bump:
  assumes "btree_ok m" "distinct (map fst hw)"
  shows "btree_ok (bump hw m)
     \<and> btree_get (bump hw m) = (\<lambda>k. case map_of hw k of None \<Rightarrow> btree_get m k | Some n \<Rightarrow> Some (n + 1))"
  using assms
proof (induction hw arbitrary: m)
  case (Cons x hw)
  obtain k n where x: "x = (k, n)" by fastforce
  have "map_of hw k = None" using Cons.prems(2) by (simp add: x map_of_eq_None_iff)
  with Cons show ?case by (auto simp: x fun_eq_iff split: option.splits)
qed simp

lemma btree_ok_distinct: "btree_ok m \<Longrightarrow> distinct (map fst m)"
  by (simp add: btree_ok_def strict_sorted_iff)

lemma counters_bump:
  assumes "btree_ok (ep_source_seq p)" "btree_get (ep_source_seq p) SYSTEM_SOURCE_ID = None"
    and "ep_source_seq p' = bump (ep_source_seq p) (ep_source_seq p)" "ep_system_seq p' = ep_system_seq p"
  shows "counters p' = (\<lambda>k. if k \<in> fst ` set (ep_source_seq p) then counters p k + 1 else counters p k)"
    "btree_ok (ep_source_seq p')" "btree_get (ep_source_seq p') SYSTEM_SOURCE_ID = None"
proof -
  note b = btree_bump [OF assms(1) btree_ok_distinct [OF assms(1)], folded assms(3)]
  then show "btree_ok (ep_source_seq p')" by simp
  show "btree_get (ep_source_seq p') SYSTEM_SOURCE_ID = None"
    using b assms(2) by (simp add: btree_get_def)
  show "counters p' = (\<lambda>k. if k \<in> fst ` set (ep_source_seq p) then counters p k + 1 else counters p k)"
  proof
    fix k
    have "map_of (ep_source_seq p) k = None \<longleftrightarrow> k \<notin> fst ` set (ep_source_seq p)" by (simp add: map_of_eq_None_iff)
    moreover have "SYSTEM_SOURCE_ID \<notin> fst ` set (ep_source_seq p)"
      using assms(2) by (simp add: btree_get_def map_of_eq_None_iff)
    ultimately show "counters p' k = (if k \<in> fst ` set (ep_source_seq p) then counters p k + 1 else counters p k)"
      using b assms(4) by (auto simp: counters_def source_next_def btree_get_def split: option.splits)
  qed
qed

lemma seq_inv_checkpoint:
  assumes inv: "seq_inv p rs" and p': "checkpoint_high_water p = (p', Ok ())"
  shows "seq_inv p' (rs @ high_water_records (ep_source_time p) (ep_run_id p) (ep_source_seq p))"
proof -
  from checkpoint_eq_Ok(2) [OF p'] have f: "ep_source_seq p' = bump (ep_source_seq p) (ep_source_seq p)"
    "ep_system_seq p' = ep_system_seq p" "ep_run_id p' = ep_run_id p"
    and lim: "list_all (\<lambda>(k, n). n + 1 < u64_limit) (ep_source_seq p)" by auto
  have ok: "btree_ok (ep_source_seq p)" "btree_get (ep_source_seq p) SYSTEM_SOURCE_ID = None"
    using inv by (simp_all add: seq_inv_def)
  have "counters p k = n" if "(k, n) \<in> set (ep_source_seq p)" for k n
    using that btree_get_mem [OF ok(1)] ok(2) by (auto simp: counters_def source_next_def)
  then have "list_all (\<lambda>(k, n). counters p k = n \<and> n + 1 < u64_limit) (ep_source_seq p)"
    using lim by (auto simp: list_all_iff)
  with inv numbered_high_water [OF _ _ btree_ok_distinct [OF ok(1)], of "ep_run_id p" "counters p" rs]
  show ?thesis
    using counters_bump [OF ok f(1,2)] f(3) by (simp add: seq_inv_def)
qed

lemma seq_inv_system:
  assumes inv: "seq_inv p rs" and es: "emit_system e slots p = (p', Ok (a, b))"
  shows "seq_inv p' (rs @ [system_record p e slots])"
proof -
  from es have p': "ep_source_seq p' = ep_source_seq p" "ep_system_seq p' = ep_system_seq p + 1"
    "ep_run_id p' = ep_run_id p" "ep_system_seq p + 1 < u64_limit" by (auto simp: emit_system_eq_Ok)
  then have "counters p' = (counters p)(SYSTEM_SOURCE_ID := counters p SYSTEM_SOURCE_ID + 1)"
    by (auto simp: counters_def source_next_def fun_eq_iff)
  moreover have "numbered (ep_run_id p) ((counters p)(SYSTEM_SOURCE_ID := counters p SYSTEM_SOURCE_ID + 1))
      (rs @ [system_record p e slots])"
    using numbered_stream_record [of "ep_run_id p" "counters p" rs SYSTEM_SOURCE_ID] inv p'(4)
    by (simp add: seq_inv_def system_record_def counters_def)
  ultimately show ?thesis using inv p' by (simp add: seq_inv_def)
qed

lemma seq_inv_cong:
  "seq_inv p rs \<Longrightarrow> ep_source_seq p' = ep_source_seq p \<Longrightarrow> ep_system_seq p' = ep_system_seq p \<Longrightarrow>
     ep_run_id p' = ep_run_id p \<Longrightarrow> seq_inv p' rs"
proof -
  assume *: "seq_inv p rs" "ep_source_seq p' = ep_source_seq p" "ep_system_seq p' = ep_system_seq p"
    "ep_run_id p' = ep_run_id p"
  then have "counters p' = counters p" by (simp add: counters_def source_next_def fun_eq_iff)
  with * show ?thesis by (simp add: seq_inv_def)
qed

lemma seq_inv_data:
  assumes inv: "seq_inv p rs" and es: "emit_data src e p = (p', Ok ())" and src: "src \<noteq> SYSTEM_SOURCE_ID"
  shows "seq_inv p' (rs @ [data_record p src e])"
proof -
  from es have p': "ep_source_seq p' = btree_insert src (source_next p src + 1) (ep_source_seq p)"
    "ep_system_seq p' = ep_system_seq p" "ep_run_id p' = ep_run_id p" "source_next p src + 1 < u64_limit"
    by (auto simp: emit_data_eq_Ok)
  have ok: "btree_ok (ep_source_seq p)" using inv by (simp add: seq_inv_def)
  then have "counters p' = (counters p)(src := counters p src + 1)"
    using p' src by (auto simp: counters_def source_next_def fun_eq_iff)
  moreover have "numbered (ep_run_id p) ((counters p)(src := counters p src + 1)) (rs @ [data_record p src e])"
    using numbered_stream_record [of "ep_run_id p" "counters p" rs src] inv p'(4) src
    by (simp add: seq_inv_def data_record_def counters_def)
  ultimately show ?thesis using inv p' ok src by (simp add: seq_inv_def)
qed

lemma seq_inv_new_run:
  assumes "seq_inv p rs" "ep_run_id p + 1 < u64_limit"
  shows "seq_inv (p\<lparr>ep_transition := tr, ep_run_id := ep_run_id p + 1, ep_epoch_id := ep,
           ep_system_seq := 0, ep_source_seq := []\<rparr>) rs"
proof -
  have "counters (p\<lparr>ep_transition := tr, ep_run_id := ep_run_id p + 1, ep_epoch_id := ep,
           ep_system_seq := 0, ep_source_seq := []\<rparr>) = (\<lambda>_. 0)"
    by (simp add: counters_def source_next_def fun_eq_iff)
  with assms numbered_new_run [of "ep_run_id p" "counters p" rs] show ?thesis by (simp add: seq_inv_def)
qed

lemma seq_inv_op:
  assumes inv: "seq_inv p rs" and run: "run_op op p = (p', Ok ())" and ok: "op_ok op"
  shows "seq_inv p' (rs @ op_records op p)"
proof (cases op)
  case (EmitData src e)
  then show ?thesis using seq_inv_data [OF inv] run ok by simp
next
  case (BeginTransition old new epoch)
  with run obtain p1 a b p2 where "emit_system EVENT_LOGGER_STOPPED [] p = (p1, Ok (a, b))"
      "checkpoint_high_water p1 = (p2, Ok ())"
      and p': "ep_source_seq p' = ep_source_seq p2" "ep_system_seq p' = ep_system_seq p2" "ep_run_id p' = ep_run_id p2"
    by (auto simp: begin_epoch_transition_def pbind_eq_Ok split: if_splits)
  note c = seq_inv_checkpoint [OF seq_inv_system [OF inv this(1)] this(2)] and s = this(1)
  have "ep_source_seq p1 = ep_source_seq p" "ep_run_id p1 = ep_run_id p" "ep_source_time p1 = ep_source_time p + 1"
    using s by (auto simp: emit_system_eq_Ok)
  with seq_inv_cong [OF c p'] BeginTransition show ?thesis by simp
next
  case Checkpoint
  then show ?thesis using seq_inv_checkpoint [OF inv] run by simp
next
  case EmitDefinitionChanged
  with run obtain t p1 a b where t: "ep_transition p = Some t"
      and e: "emit_system EVENT_DEFINITION_CHANGED (definition_changed_slots t) (p\<lparr>ep_transition := None\<rparr>) = (p1, Ok (a, b))"
      and p': "ep_source_seq p' = ep_source_seq p1" "ep_system_seq p' = ep_system_seq p1" "ep_run_id p' = ep_run_id p1"
    by (auto simp: emit_definition_changed_def definition_changed_slots_def pbind_eq_Ok split: option.splits if_splits)
  have "seq_inv (p\<lparr>ep_transition := None\<rparr>) rs" by (rule seq_inv_cong [OF inv]) simp_all
  from seq_inv_cong [OF seq_inv_system [OF this e] p'] EmitDefinitionChanged t show ?thesis
    by (simp add: system_record_def)
next
  case FinishDefinitionChange
  with run obtain t p1 a b where t: "ep_transition p = Some t"
      and e: "emit_system EVENT_LOGGER_STARTED [slot_new KEY_COLD_START TY_BOOL [0]]
        (p\<lparr>ep_transition := None, ep_epoch_id := pt_epoch_id t\<rparr>) = (p1, Ok (a, b))"
      and p': "ep_source_seq p' = ep_source_seq p1" "ep_system_seq p' = ep_system_seq p1" "ep_run_id p' = ep_run_id p1"
    by (auto simp: finish_definition_change_def adopt_epoch_def pbind_eq_Ok split: option.splits if_splits)
  have "seq_inv (p\<lparr>ep_transition := None, ep_epoch_id := pt_epoch_id t\<rparr>) rs"
    by (rule seq_inv_cong [OF inv]) simp_all
  from seq_inv_cong [OF seq_inv_system [OF this e] p'] FinishDefinitionChange t show ?thesis
    by (simp add: system_record_def)
next
  case FinishColdStart
  with run obtain t p1 a b where tr: "ep_transition p = Some t" and t: "ep_run_id p + 1 < u64_limit"
      and e: "emit_system EVENT_LOGGER_STARTED [slot_new KEY_COLD_START TY_BOOL [1]]
        (p\<lparr>ep_transition := None, ep_run_id := ep_run_id p + 1, ep_epoch_id := pt_epoch_id t,
           ep_system_seq := 0, ep_source_seq := []\<rparr>) = (p1, Ok (a, b))"
      and p': "ep_source_seq p' = ep_source_seq p1" "ep_system_seq p' = ep_system_seq p1" "ep_run_id p' = ep_run_id p1"
    by (auto simp: finish_cold_start_def adopt_epoch_def pbind_eq_Ok u64_add_def split: option.splits if_splits)
  from seq_inv_cong [OF seq_inv_system [OF seq_inv_new_run [OF inv t] e] p'] FinishColdStart show ?thesis
    by (simp add: system_record_def)
qed

section \<open>The resolver recovers the epoch of every record\<close>

type_synonym epoch_log = "(nat \<times> Record \<times> u64) list"

definition read_of :: "nat \<Rightarrow> Record \<Rightarrow> ReadRecord" where
  "read_of a r = \<lparr>rr_start_abs = a, rr_end_abs = a + record_len r True, rr_record = normalise_flags r True\<rparr>"

definition replay :: "u32 \<Rightarrow> EpochResolver \<Rightarrow> epoch_log \<Rightarrow> EpochResolver" where
  "replay buf er L = foldl (\<lambda>er (a, r, e). observe er buf (read_of a r)) er L"

definition res_inv ::
  "u32 \<Rightarrow> u64 option \<Rightarrow> nat \<Rightarrow> nat \<Rightarrow> u64 \<Rightarrow> epoch_log \<Rightarrow> EpochResolver \<Rightarrow> bool" where
  "res_inv buf pend head run ep L er \<longleftrightarrow>
     er_buffer_id er = buf \<and> er_pending_epoch er = pend \<and> run < u64_limit
     \<and> (\<forall>a r e. (a, r, e) \<in> set L \<longrightarrow>
          resolve er buf (rec_run_id r) a = Some e \<and> a < head \<and> unat (rec_run_id r) \<le> run)
     \<and> (\<forall>a \<ge> head. resolve er buf (of_nat run) a = Some ep)
     \<and> (\<forall>k bs. er_epoch_boundaries er k = Some bs \<longrightarrow>
          sorted (map fst bs) \<and> (\<forall>b \<in> set bs. fst b < head) \<and> unat k \<le> run)"

lemma replay_snoc: "replay buf er (L @ [(a, r, e)]) = observe (replay buf er L) buf (read_of a r)"
  by (simp add: replay_def)

lemma resolve_cong:
  "er_buffer_id er' = er_buffer_id er \<Longrightarrow> er_epoch_boundaries er' = er_epoch_boundaries er \<Longrightarrow>
     er_run_default_epoch er' = er_run_default_epoch er \<Longrightarrow> resolve er' buf run a = resolve er buf run a"
  by (simp add: resolve_def split: option.split)

lemma read_of_sel [simp]:
  "rr_start_abs (read_of a r) = a" "rec_event_type_id (rr_record (read_of a r)) = rec_event_type_id r"
  "rec_slots (rr_record (read_of a r)) = rec_slots r" "rec_run_id (rr_record (read_of a r)) = rec_run_id r"
  by (simp_all add: read_of_def normalise_flags_def)

lemma res_inv_ordinary:
  assumes inv: "res_inv buf pend h run ep L er" and a: "h \<le> a" "a < h'"
    and r: "rec_event_type_id r \<noteq> EVENT_DEFINITION_CHANGED" "rec_event_type_id r \<noteq> EVENT_LOGGER_STARTED"
      "rec_run_id r = of_nat run"
  shows "res_inv buf pend h' run ep (L @ [(a, r, ep)]) (observe er buf (read_of a r))"
proof -
  have obs: "observe er buf (read_of a r) = er" using r by (simp add: observe_def Let_def)
  have "resolve er buf (of_nat run) a = Some ep" "unat (of_nat run :: u64) \<le> run"
    using inv a(1) by (simp_all add: res_inv_def unat_of_nat_u64)
  with inv a r(3) show ?thesis unfolding obs res_inv_def by fastforce
qed

lemma res_inv_definition_changed:
  assumes inv: "res_inv buf None h run ep L er" and a: "h \<le> a" "a < h'"
    and r: "rec_event_type_id r = EVENT_DEFINITION_CHANGED" "rec_slots r = definition_changed_slots t"
      "rec_run_id r = of_nat run"
  shows "res_inv buf (Some (pt_epoch_id t)) h' run ep (L @ [(a, r, ep)]) (observe er buf (read_of a r))"
proof -
  have "definition_changed_epoch (rr_record (read_of a r)) = Some (pt_epoch_id t)"
    by (simp add: definition_changed_epoch_def r(2) definition_changed_slots_def slot_new_def registry_ids)
  then have obs: "observe er buf (read_of a r) = er\<lparr>er_pending_epoch := Some (pt_epoch_id t)\<rparr>"
    using inv r(1) by (simp add: observe_def Let_def res_inv_def)
  have res: "resolve (er\<lparr>er_pending_epoch := Some (pt_epoch_id t)\<rparr>) b k x = resolve er b k x" for b k x
    by (rule resolve_cong) simp_all
  have "resolve er buf (of_nat run) a = Some ep" "unat (of_nat run :: u64) \<le> run"
    using inv a(1) by (simp_all add: res_inv_def unat_of_nat_u64)
  with inv a r(3) show ?thesis unfolding obs res_inv_def res by fastforce
qed

lemma sorted_snoc: "sorted (map fst bs) \<Longrightarrow> (\<forall>b \<in> set bs. fst b < (a :: nat)) \<Longrightarrow> sorted (map fst (bs @ [(a, e)]))"
  by (auto simp: sorted_append)

lemma resolve_boundary:
  fixes er :: EpochResolver
  assumes "er_buffer_id er' = er_buffer_id er"
    and "er_epoch_boundaries er' = push_boundary (er_epoch_boundaries er) run (a, e)"
    and "er_run_default_epoch er' = er_run_default_epoch er \<or> k \<noteq> run \<and> er_run_default_epoch er' k = er_run_default_epoch er k"
  shows "resolve er' buf k x = (if buf = er_buffer_id er \<and> k = run \<and> a \<le> x then Some e else resolve er buf k x)"
  using assms by (cases "er_epoch_boundaries er run") (auto simp: resolve_def push_boundary_def split: option.split)

lemma sort_boundaries:
  assumes "\<And>k bs. m k = Some bs \<Longrightarrow> sorted (map fst bs) \<and> (\<forall>b \<in> set bs. fst b < a)"
  shows "map_option (sort_key fst) \<circ> push_boundary m run (a, e) = push_boundary m run (a, e)"
proof
  fix k
  show "(map_option (sort_key fst) \<circ> push_boundary m run (a, e)) k = push_boundary m run (a, e) k"
  proof (cases "k = run")
    case True
    have "sorted (map fst ((case m run of None \<Rightarrow> [] | Some bs \<Rightarrow> bs) @ [(a, e)]))"
      using assms [of run] by (cases "m run") (auto intro: sorted_snoc simp del: map_append)
    then show ?thesis using True by (simp add: push_boundary_def sort_key_id_if_sorted)
  next
    case False
    then show ?thesis using assms [of k]
      by (cases "m k") (auto simp: push_boundary_def sort_key_id_if_sorted)
  qed
qed

lemma boundaries_push:
  assumes "\<And>k bs. m k = Some bs \<Longrightarrow> sorted (map fst bs) \<and> (\<forall>b \<in> set bs. fst b < h) \<and> unat k \<le> run"
    and "h \<le> a" "a < h'" "run \<le> run'" "unat k0 \<le> run'" "push_boundary m k0 (a, e) k = Some bs"
  shows "sorted (map fst bs) \<and> (\<forall>b \<in> set bs. fst b < h') \<and> unat k \<le> run'"
proof (cases "k = k0")
  case True
  have "sorted (map fst ((case m k0 of None \<Rightarrow> [] | Some bs \<Rightarrow> bs) @ [(a, e)]))"
    using assms(1) [of k0] assms(2) by (cases "m k0") (auto intro!: sorted_snoc simp del: map_append dest: less_le_trans)
  then show ?thesis
    using True assms(2,3,5,6) assms(1) [of k0]
    by (cases "m k0") (fastforce simp: push_boundary_def)+
next
  case False
  then have "m k = Some bs" using assms(6) by (simp add: push_boundary_def)
  with assms(1) [OF this] assms(2-4) show ?thesis by fastforce
qed

lemma res_inv_started:
  assumes inv: "res_inv buf (Some e) h run ep L er" and a: "h \<le> a" "a < h'"
    and r: "rec_event_type_id r = EVENT_LOGGER_STARTED" "rec_run_id r = of_nat run'" "run' < u64_limit"
    and c: "rec_slots r = [slot_new KEY_COLD_START TY_BOOL [if run' = run then 0 else 1]]" "run' = run \<or> run' = run + 1"
  shows "res_inv buf None h' run' e (L @ [(a, r, e)]) (observe er buf (read_of a r))"
proof -
  let ?er = "observe er buf (read_of a r)"
  have b: "er_buffer_id er = buf" "er_pending_epoch er = Some e"
    and bd: "\<And>k bs. er_epoch_boundaries er k = Some bs \<Longrightarrow>
        sorted (map fst bs) \<and> (\<forall>b \<in> set bs. fst b < h) \<and> unat k \<le> run"
    and old: "\<And>x r' e'. (x, r', e') \<in> set L \<Longrightarrow> resolve er buf (rec_run_id r') x = Some e' \<and> x < h \<and> unat (rec_run_id r') \<le> run"
    using inv by (auto simp: res_inv_def)
  have cold: "logger_started_cold_start (rr_record (read_of a r)) = Some (run' \<noteq> run)"
    by (simp add: logger_started_cold_start_def c(1) slot_new_def)
  have "map_option (sort_key fst) \<circ> push_boundary (er_epoch_boundaries er) (rec_run_id r) (a, e)
      = push_boundary (er_epoch_boundaries er) (rec_run_id r) (a, e)"
    using bd a(1) by (intro sort_boundaries) (metis less_le_trans)
  then have er: "er_buffer_id ?er = buf" "er_pending_epoch ?er = None"
    "er_epoch_boundaries ?er = push_boundary (er_epoch_boundaries er) (of_nat run') (a, e)"
    "er_run_default_epoch ?er = (if run' = run then er_run_default_epoch er
       else (er_run_default_epoch er)(of_nat run' \<mapsto> e))"
    using b cold r(1,2) by (auto simp: observe_def Let_def registry_ids)
  have un: "unat (of_nat run' :: u64) = run'" using r(3) by (rule unat_of_nat_u64)
  have res: "resolve ?er buf k x = (if k = of_nat run' \<and> a \<le> x then Some e else resolve er buf k x)"
    if "run' = run \<or> unat k \<le> run" for k x
  proof -
    have "k \<noteq> of_nat run'" if "run' \<noteq> run" using \<open>run' = run \<or> unat k \<le> run\<close> that c(2) un by auto
    then have "er_run_default_epoch ?er = er_run_default_epoch er
        \<or> k \<noteq> of_nat run' \<and> er_run_default_epoch ?er k = er_run_default_epoch er k"
      using er(4) by auto
    from resolve_boundary [OF _ er(3) this, of buf x] er(1) b(1) show ?thesis by simp
  qed
  have "resolve ?er buf (rec_run_id r') x = Some e' \<and> x < h' \<and> unat (rec_run_id r') \<le> run'"
    if "(x, r', e') \<in> set (L @ [(a, r, e)])" for x r' e'
  proof (cases "(x, r', e') \<in> set L")
    case True
    with old [OF True] res [of "rec_run_id r'" x] a c(2) show ?thesis by auto
  next
    case False
    then have "x = a" "r' = r" "e' = e" using that by auto
    then show ?thesis using er(1,3) r(2) a un b(1) by (auto simp: resolve_def push_boundary_def)
  qed
  moreover have "resolve ?er buf (of_nat run') x = Some e" if "h' \<le> x" for x
    using er(1,3) a that b(1) by (auto simp: resolve_def push_boundary_def)
  moreover have "sorted (map fst bs) \<and> (\<forall>b \<in> set bs. fst b < h') \<and> unat k \<le> run'"
    if "er_epoch_boundaries ?er k = Some bs" for k bs
  proof (rule boundaries_push [OF bd a])
    show "run \<le> run'" using c(2) by auto
    show "unat (of_nat run' :: u64) \<le> run'" by (simp add: un)
    show "push_boundary (er_epoch_boundaries er) (of_nat run') (a, e) k = Some bs" using that by (simp only: er(3))
  qed
  ultimately show ?thesis using er(1,2) r(3) unfolding res_inv_def by blast
qed

lemma evict_before_clobber_keeps:
  "evict_before_clobber ring e s = Ok ring1 \<Longrightarrow>
     ring_head_abs ring1 = ring_head_abs ring \<and> ring_bytes ring1 = ring_bytes ring"
  by (auto simp: evict_before_clobber_def Let_def outcome_simps)

lemma write_record_position:
  assumes "write_record ring r = Ok (ring', a, b)"
  shows "ring_head_abs ring \<le> a" "a < ring_head_abs ring'"
proof -
  from assms obtain encoded where enc: "encode r True = Ok encoded"
    by (cases "encode r True") (simp_all add: write_record_def)
  then have len: "0 < length encoded" using record_len_pos [of r True] by (auto simp: encode_eq_Ok)
  have "ring_head_abs ring \<le> a \<and> ring_head_abs ring' = a + length encoded"
    using assms unfolding write_record_def enc Let_def map_err.simps and_then.simps
    by (elim and_thenE if_OkE) (auto simp: u64_add_def split: if_split_asm)
  with len show "ring_head_abs ring \<le> a" "a < ring_head_abs ring'" by simp_all
qed

definition tag :: "u64 \<Rightarrow> (nat \<times> Record) list \<Rightarrow> epoch_log" where
  "tag e log = map (\<lambda>(a, r). (a, r, e)) log"

lemma replay_append: "replay buf er (L @ M) = replay buf (replay buf er L) M"
  by (simp add: replay_def)

lemma write_log_records: "write_log ring rs = Ok (ring', log) \<Longrightarrow> map snd log = rs"
  by (induction rs arbitrary: ring log) (auto simp: outcome_simps)

lemma write_log_write_all:
  "write_log ring rs = Ok (ring', log) \<Longrightarrow> write_all write_record ring rs = Ok ring'"
  by (induction rs arbitrary: ring log) (auto simp: outcome_simps)

lemma write_all_append:
  "write_all w s (xs @ ys) = and_then (write_all w s xs) (\<lambda>s. write_all w s ys)"
  by (induction xs arbitrary: s) (auto simp: and_then_assoc split_def)

lemma res_inv_write_ordinary:
  assumes "res_inv buf pend (ring_head_abs ring) run ep L (replay buf er0 L)"
    and "write_log ring rs = Ok (ring', log)"
    and "list_all (\<lambda>r. rec_event_type_id r \<noteq> EVENT_DEFINITION_CHANGED
       \<and> rec_event_type_id r \<noteq> EVENT_LOGGER_STARTED \<and> rec_run_id r = of_nat run) rs"
  shows "res_inv buf pend (ring_head_abs ring') run ep (L @ tag ep log) (replay buf er0 (L @ tag ep log))"
  using assms
proof (induction rs arbitrary: ring L log)
  case Nil
  then show ?case by (simp add: tag_def)
next
  case (Cons r rs)
  from Cons.prems(2) obtain ring1 a b log1 where
    w: "write_record ring r = Ok (ring1, a, b)" and l: "write_log ring1 rs = Ok (ring', log1)"
    and log: "log = (a, r) # log1" by (auto simp: outcome_simps)
  have "res_inv buf pend (ring_head_abs ring1) run ep (L @ [(a, r, ep)]) (replay buf er0 (L @ [(a, r, ep)]))"
    unfolding replay_snoc
    using Cons.prems(1,3) write_record_position [OF w] by (intro res_inv_ordinary) auto
  from Cons.IH [OF this l] Cons.prems(3) show ?case by (simp add: log tag_def)
qed

definition transition_pending :: "EpochProducer \<Rightarrow> u64 option" where
  "transition_pending p = (case ep_transition p of
     Some t \<Rightarrow> if pt_definition_changed_emitted t then Some (pt_epoch_id t) else None | None \<Rightarrow> None)"

definition epoch_inv :: "u32 \<Rightarrow> EpochProducer \<Rightarrow> epoch_log \<Rightarrow> EpochResolver \<Rightarrow> bool" where
  "epoch_inv buf p L er \<longleftrightarrow>
     res_inv buf (transition_pending p) (ring_head_abs (ep_ring p)) (ep_run_id p) (ep_epoch_id p) L er"

lemma high_water_records_ordinary:
  "list_all (\<lambda>r. rec_event_type_id r \<noteq> EVENT_DEFINITION_CHANGED
       \<and> rec_event_type_id r \<noteq> EVENT_LOGGER_STARTED \<and> rec_run_id r = of_nat run) (high_water_records t run hw)"
  by (induction t run hw rule: high_water_records.induct)
     (auto simp: stream_record_def record_new_def registry_ids)

lemma epoch_inv_op:
  assumes inv: "epoch_inv buf p L (replay buf er0 L)" and run: "run_op op p = (p', Ok ())" and ok: "op_ok op"
    and log: "write_log (ep_ring p) (op_records op p) = Ok (ep_ring p', new)"
  shows "epoch_inv buf p' (L @ tag (ep_epoch_id p') new) (replay buf er0 (L @ tag (ep_epoch_id p') new))"
proof -
  have plain: "epoch_inv buf p' (L @ tag (ep_epoch_id p') new) (replay buf er0 (L @ tag (ep_epoch_id p') new))"
    if "transition_pending p' = transition_pending p" "ep_run_id p' = ep_run_id p" "ep_epoch_id p' = ep_epoch_id p"
      "list_all (\<lambda>r. rec_event_type_id r \<noteq> EVENT_DEFINITION_CHANGED
       \<and> rec_event_type_id r \<noteq> EVENT_LOGGER_STARTED \<and> rec_run_id r = of_nat (ep_run_id p)) (op_records op p)"
    using res_inv_write_ordinary [OF inv [unfolded epoch_inv_def] log that(4)] that(1-3) by (simp add: epoch_inv_def)
  show ?thesis
  proof (cases op)
    case (EmitData src e)
    then show ?thesis
      using run ok by (intro plain) (auto simp: emit_data_eq_Ok transition_pending_def data_record_def
          stream_record_def record_new_def)
  next
    case (BeginTransition old nw epoch)
    with run have "ep_transition p = None" "ep_run_id p' = ep_run_id p" "ep_epoch_id p' = ep_epoch_id p"
      "transition_pending p' = None"
      by (auto simp: begin_epoch_transition_def pbind_eq_Ok emit_system_eq_Ok transition_pending_def
          dest!: checkpoint_eq_Ok split: if_splits)
    with BeginTransition show ?thesis
      using high_water_records_ordinary [of "ep_run_id p" "ep_source_time p + 1" "ep_source_seq p"]
      by (intro plain) (auto simp: transition_pending_def system_record_def stream_record_def record_new_def registry_ids)
  next
    case Checkpoint
    with run have "ep_run_id p' = ep_run_id p" "ep_epoch_id p' = ep_epoch_id p" "ep_transition p' = ep_transition p"
      by (auto dest!: checkpoint_eq_Ok)
    with Checkpoint show ?thesis
      using high_water_records_ordinary [of "ep_run_id p" "ep_source_time p" "ep_source_seq p"]
      by (intro plain) (auto simp: transition_pending_def)
  next
    case EmitDefinitionChanged
    with run obtain t where t: "ep_transition p = Some t" "\<not> pt_definition_changed_emitted t"
      and p': "ep_run_id p' = ep_run_id p" "ep_epoch_id p' = ep_epoch_id p"
        "transition_pending p' = Some (pt_epoch_id t)"
      by (auto simp: emit_definition_changed_def pbind_eq_Ok emit_system_eq_Ok transition_pending_def
          split: option.splits if_splits)
    let ?r = "system_record p EVENT_DEFINITION_CHANGED (definition_changed_slots t)"
    from log EmitDefinitionChanged t obtain a b where w: "write_record (ep_ring p) ?r = Ok (ep_ring p', a, b)"
      and new: "new = [(a, ?r)]" by (auto simp: outcome_simps)
    have "res_inv buf (Some (pt_epoch_id t)) (ring_head_abs (ep_ring p')) (ep_run_id p) (ep_epoch_id p)
        (L @ [(a, ?r, ep_epoch_id p)]) (observe (replay buf er0 L) buf (read_of a ?r))"
      using inv t write_record_position [OF w]
      by (intro res_inv_definition_changed)
         (auto simp: epoch_inv_def transition_pending_def system_record_def stream_record_def record_new_def)
    then show ?thesis by (simp add: epoch_inv_def new tag_def replay_snoc p')
  next
    case FinishDefinitionChange
    with run obtain t where t: "ep_transition p = Some t" "transition_pending p = Some (pt_epoch_id t)"
      and p': "ep_run_id p' = ep_run_id p" "ep_epoch_id p' = pt_epoch_id t" "transition_pending p' = None"
      by (auto simp: finish_definition_change_def adopt_epoch_def pbind_eq_Ok emit_system_eq_Ok transition_pending_def
          split: option.splits if_splits)
    let ?r = "system_record p EVENT_LOGGER_STARTED [slot_new KEY_COLD_START TY_BOOL [0]]"
    from log FinishDefinitionChange obtain a b where w: "write_record (ep_ring p) ?r = Ok (ep_ring p', a, b)"
      and new: "new = [(a, ?r)]" by (auto simp: outcome_simps)
    have "ep_run_id p < u64_limit" using inv by (simp add: epoch_inv_def res_inv_def)
    then have "res_inv buf None (ring_head_abs (ep_ring p')) (ep_run_id p) (pt_epoch_id t)
        (L @ [(a, ?r, pt_epoch_id t)]) (observe (replay buf er0 L) buf (read_of a ?r))"
      using inv t write_record_position [OF w]
      by (intro res_inv_started [of _ _ _ "ep_run_id p" "ep_epoch_id p"])
         (auto simp: epoch_inv_def system_record_def stream_record_def record_new_def)
    then show ?thesis by (simp add: epoch_inv_def new tag_def replay_snoc p')
  next
    case FinishColdStart
    with run obtain t where t: "ep_transition p = Some t" "transition_pending p = Some (pt_epoch_id t)"
        "ep_run_id p + 1 < u64_limit"
      and p': "ep_run_id p' = ep_run_id p + 1" "ep_epoch_id p' = pt_epoch_id t" "transition_pending p' = None"
      by (auto simp: finish_cold_start_def adopt_epoch_def pbind_eq_Ok emit_system_eq_Ok transition_pending_def
          u64_add_def split: option.splits if_splits)
    let ?r = "system_record (p\<lparr>ep_run_id := ep_run_id p + 1, ep_system_seq := 0\<rparr>) EVENT_LOGGER_STARTED
        [slot_new KEY_COLD_START TY_BOOL [1]]"
    from log FinishColdStart obtain a b where w: "write_record (ep_ring p) ?r = Ok (ep_ring p', a, b)"
      and new: "new = [(a, ?r)]" by (auto simp: outcome_simps)
    have "res_inv buf None (ring_head_abs (ep_ring p')) (ep_run_id p + 1) (pt_epoch_id t)
        (L @ [(a, ?r, pt_epoch_id t)]) (observe (replay buf er0 L) buf (read_of a ?r))"
      using inv t write_record_position [OF w]
      by (intro res_inv_started [of _ _ _ "ep_run_id p" "ep_epoch_id p"])
         (auto simp: epoch_inv_def system_record_def stream_record_def record_new_def)
    then show ?thesis by (simp add: epoch_inv_def new tag_def replay_snoc p')
  qed
qed

section \<open>Runs of the producer\<close>

inductive produces :: "EpochProducer \<Rightarrow> epoch_log \<Rightarrow> EpochProducer \<Rightarrow> bool" for p0 where
  start: "produces p0 [] p0"
| step: "produces p0 L p \<Longrightarrow> op_ok op \<Longrightarrow> run_op op p = (p', Ok ()) \<Longrightarrow>
     write_log (ep_ring p) (op_records op p) = Ok (ep_ring p', new) \<Longrightarrow>
     produces p0 (L @ tag (ep_epoch_id p') new) p'"

lemma producer_new_fields:
  assumes "producer_new cap run epoch = Ok p"
  shows "ep_run_id p = run" "ep_epoch_id p = epoch" "ep_system_seq p = 0" "ep_source_seq p = []"
    "ep_transition p = None" "ep_source_time p = 1780000000000000000" "ring_new cap = (Ok (ep_ring p) :: (RingBuffer, 'e) outcome)" "ring_head_abs (ep_ring p) = 0"
  using assms by (auto simp: producer_new_def outcome_simps ring_new_def split: if_splits)

lemma seq_inv_new:
  assumes "producer_new cap run epoch = Ok p" "run < u64_limit"
  shows "seq_inv p []"
proof -
  have "counters p = (\<lambda>_. 0)"
    using producer_new_fields [OF assms(1)] by (simp add: counters_def source_next_def fun_eq_iff)
  then show ?thesis
    using producer_new_fields [OF assms(1)] assms(2) by (auto simp: seq_inv_def numbered_def stream_seqs_def intro: exI [of _ 0])
qed

lemma epoch_inv_new:
  assumes "producer_new cap run epoch = Ok p" "run < u64_limit"
  shows "epoch_inv buf p [] (replay buf (resolver_new buf (of_nat run) epoch) [])"
  using producer_new_fields [OF assms(1)] assms(2)
  by (simp add: epoch_inv_def res_inv_def transition_pending_def replay_def resolver_new_def resolve_def)

lemma produces_inv:
  assumes "produces p0 L p" "seq_inv p0 []" "epoch_inv buf p0 [] (replay buf er0 [])"
  shows "seq_inv p (map (\<lambda>(a, r, e). r) L) \<and> epoch_inv buf p L (replay buf er0 L)
     \<and> write_all write_record (ep_ring p0) (map (\<lambda>(a, r, e). r) L) = Ok (ep_ring p)"
  using assms
proof (induction rule: produces.induct)
  case (step L p op p' new)
  have recs: "map (\<lambda>(a, r, e). r) (tag (ep_epoch_id p') new) = op_records op p"
    using write_log_records [OF step(4)] by (auto simp: tag_def o_def split_def)
  show ?case
    using step seq_inv_op [of p _ op p'] epoch_inv_op [of buf p L er0 op p' new] write_log_write_all [OF step(4)]
    by (simp add: recs write_all_append)
qed simp


lemma produces_extend:
  assumes "produces p0 L p" "op_ok op" "run_op op p = (p', Ok ())"
  shows "\<exists>new. produces p0 (L @ tag (ep_epoch_id p') new) p' \<and> map snd new = op_records op p"
proof -
  from op_writes [OF assms(3)] obtain log where log: "write_log (ep_ring p) (op_records op p) = Ok (ep_ring p', log)"
    by blast
  from produces.step [OF assms log] write_log_records [OF log] show ?thesis by blast
qed

section \<open>The transition protocol\<close>

datatype phase = Running | Announced | Changed

definition producer_phase :: "EpochProducer \<Rightarrow> phase" where
  "producer_phase p = (case ep_transition p of None \<Rightarrow> Running
     | Some t \<Rightarrow> if pt_definition_changed_emitted t then Changed else Announced)"

fun protocol :: "phase \<Rightarrow> producer_op \<Rightarrow> EpochError + phase" where
  "protocol ph (EmitData _ _) = (if ph = Running then Inr Running else Inl EmissionDuringTransition)"
| "protocol ph Checkpoint = (if ph = Running then Inr Running else Inl EmissionDuringTransition)"
| "protocol ph (BeginTransition _ _ _) = (if ph = Running then Inr Announced else Inl TransitionAlreadyOpen)"
| "protocol ph EmitDefinitionChanged =
     (case ph of Running \<Rightarrow> Inl NoTransitionOpen | Announced \<Rightarrow> Inr Changed | Changed \<Rightarrow> Inl DefinitionAlreadyEmitted)"
| "protocol ph FinishDefinitionChange =
     (case ph of Running \<Rightarrow> Inl NoTransitionOpen | Announced \<Rightarrow> Inl DefinitionNotEmitted | Changed \<Rightarrow> Inr Running)"
| "protocol ph FinishColdStart =
     (case ph of Running \<Rightarrow> Inl NoTransitionOpen | Announced \<Rightarrow> Inl DefinitionNotEmitted | Changed \<Rightarrow> Inr Running)"

definition ring_failure :: "('a, EpochError) outcome \<Rightarrow> bool" where
  [simp]: "ring_failure r \<longleftrightarrow> (\<forall>e. r = Err e \<longrightarrow> (\<exists>x. e = EpochRing x))"

lemma ring_failure_pbind:
  assumes "ring_failure (snd (m p))" "\<And>a p'. m p = (p', Ok a) \<Longrightarrow> ring_failure (snd (f a p'))"
  shows "ring_failure (snd (pbind m f p))"
  using assms by (cases "m p") (auto simp: pbind_def split: outcome.splits)

lemma ring_failure_write: "ring_failure (snd (producer_write r p))"
  by (auto simp: producer_write_def split: outcome.splits)

lemma ring_failure_record: "ring_failure (snd (producer_record src seq e p))"
  by (auto simp: producer_record_def Let_def split: outcome.splits)

lemma ring_failure_next: "ring_failure (snd (next_source_seq src p))"
  by (auto simp: next_source_seq_def Let_def split: outcome.splits)

lemma ring_failure_system: "ring_failure (snd (emit_system e slots p))"
  by (auto simp: emit_system_def Let_def split: outcome.splits
      simp del: ring_failure_def
      intro!: ring_failure_pbind ring_failure_record ring_failure_write)
     simp_all

lemma ring_failure_checkpoint: "ring_failure (snd (checkpoint_loop hw p))"
proof (induction hw p rule: checkpoint_loop.induct)
  case (2 src n hw p)
  then show ?case
    by (auto split: outcome.splits simp del: ring_failure_def
        intro!: ring_failure_pbind ring_failure_record ring_failure_write) simp_all
qed simp

lemma emit_system_transition: "emit_system e slots p = (p', r) \<Longrightarrow> ep_transition p' = ep_transition p"
  by (auto simp: emit_system_def pbind_def producer_record_def producer_write_def Let_def split: outcome.splits prod.splits)

lemmas ring_failures = ring_failure_write ring_failure_record ring_failure_next ring_failure_system ring_failure_checkpoint


lemma protocol_refused:
  "protocol (producer_phase p) op = Inl e \<Longrightarrow> run_op op p = (p, Err e)"
  by (cases op) (auto simp: producer_phase_def emit_data_def checkpoint_high_water_def begin_epoch_transition_def
      emit_definition_changed_def finish_definition_change_def finish_cold_start_def split: option.splits if_splits)

lemma protocol_failure:
  assumes "protocol (producer_phase p) op = Inr ph"
  shows "ring_failure (snd (run_op op p))"
proof (cases op)
  case (EmitData s e)
  with assms show ?thesis
    by (auto simp: emit_data_def preturn_def producer_phase_def simp del: ring_failure_def
       split: option.splits if_splits intro!: ring_failure_pbind ring_failures) simp_all
next
  case Checkpoint
  with assms show ?thesis
    by (auto simp: checkpoint_high_water_def producer_phase_def ring_failure_checkpoint
        simp del: ring_failure_def split: option.splits if_splits)
next
  case (BeginTransition a b c)
  with assms show ?thesis
    by (auto simp: begin_epoch_transition_def checkpoint_high_water_def producer_phase_def simp del: ring_failure_def
       split: option.splits if_splits dest: emit_system_transition intro!: ring_failure_pbind ring_failures) simp_all
qed (use assms in \<open>auto simp: emit_definition_changed_def finish_definition_change_def finish_cold_start_def
    adopt_epoch_def producer_phase_def u64_add_def simp del: ring_failure_def
       split: option.splits if_splits intro!: ring_failure_pbind ring_failures\<close>, simp_all)

lemma protocol_success:
  assumes "protocol (producer_phase p) op = Inr ph" "run_op op p = (p', Ok ())"
  shows "producer_phase p' = ph"
  using assms
  by (cases op) (auto simp: emit_data_eq_Ok pbind_eq_Ok begin_epoch_transition_def emit_definition_changed_def
      finish_definition_change_def finish_cold_start_def adopt_epoch_def emit_system_eq_Ok producer_phase_def
      u64_add_def dest!: checkpoint_eq_Ok split: option.splits if_splits)


section \<open>Properties\<close>

lemma log_records: "map (\<lambda>(a, r, e). r) L = map (fst \<circ> snd) L"
  by (simp add: o_def split_def)

lemma first_emission:
  "\<exists>p0 p a. producer_new 100 1 5 = (Ok p0 :: (_, EpochError) outcome)
     \<and> produces p0 [(a, data_record p0 66 EVENT_HEARTBEAT, 5)] p
     \<and> ep_epoch_id p = 5 \<and> ep_run_id p = 1"
proof -
  from ring_new_inv [of 100] obtain ring where r: "ring_new 100 = (Ok ring :: (_, EpochError) outcome)"
    "ring_inv ring []" "capacity ring = 100" by auto
  then have h: "ring_head_abs ring = 0" by (auto simp: ring_new_def)
  from r(1) obtain p0 where p0: "producer_new 100 1 5 = (Ok p0 :: (_, EpochError) outcome)" "ep_ring p0 = ring"
    by (simp add: producer_new_def)
  note f = producer_new_fields [OF p0(1)]
  let ?r = "data_record p0 66 EVENT_HEARTBEAT"
  have slots: "rec_slots ?r = []" by (simp add: data_record_def stream_record_def record_new_def registry_ids)
  then have len: "record_len ?r True = 44" by (simp add: record_len_def)
  then have "encodable ?r True" using slots by (simp add: encodable_def)
  then have "writable ring ?r"
    using r h len by (simp add: writable_def next_entry_def place_def Let_def u64_limit_def physical_offset_def)
  then obtain ring' where w: "write_record ring ?r = Ok (ring', 0, 44)"
    using write_record_eq [OF r(2), of ?r] h r(3) len by (auto simp: next_entry_def place_def Let_def physical_offset_def)
  have "run_op (EmitData 66 EVENT_HEARTBEAT) p0 = (p0\<lparr>ep_ring := ring', ep_source_time := ep_source_time p0 + 1,
      ep_source_seq := btree_insert 66 (source_next p0 66 + 1) (ep_source_seq p0)\<rparr>, Ok ())"
    using w f p0 by (simp add: emit_data_eq_Ok source_next_def u64_limit_def)
  from produces_extend [OF produces.start _ this] obtain p new where
    "produces p0 ([] @ tag (ep_epoch_id p) new) p" "map snd new = [?r]" "ep_epoch_id p = 5" "ep_run_id p = 1"
    using f by (auto simp: registry_ids)
  with p0 show ?thesis by (fastforce simp: tag_def Cons_eq_map_conv map_eq_Cons_conv)
qed



text \<open>C13. The resolver recovers every epoch.  A resolver started with the producer's first run and epoch
  and fed the records of the log in order resolves each logged record, by its buffer, run and offset, to
  the epoch the producer was in when it wrote it, through warm definition changes and cold starts; offsets
  from the head on resolve to the current epoch.\<close>

theorem resolver_recovers_epochs:
  assumes "producer_new cap run epoch = Ok p0" and "run < u64_limit" and "produces p0 L p"
  shows "let er = replay buf (resolver_new buf (of_nat run) epoch) L in
     list_all (\<lambda>(a, r, e). resolve er buf (rec_run_id r) a = Some e) L
     \<and> resolve er buf (of_nat (ep_run_id p)) (ring_head_abs (ep_ring p) + n) = Some (ep_epoch_id p)"
  using produces_inv [OF assms(3) seq_inv_new [OF assms(1,2)] epoch_inv_new [OF assms(1,2)], of buf]
  by (auto simp: Let_def epoch_inv_def res_inv_def list_all_iff)

theorem resolver_recovers_epochs_witness:
  "\<exists>p0 p a r. producer_new 100 1 5 = (Ok p0 :: (_, EpochError) outcome) \<and> produces p0 [(a, r, 5)] p
     \<and> resolve (replay 7 (resolver_new 7 1 5) [(a, r, 5)]) 7 (rec_run_id r) a = Some 5
     \<and> resolve (replay 7 (resolver_new 7 1 5) [(a, r, 5)]) 7 1 (ring_head_abs (ep_ring p) + 3) = Some 5"
proof -
  from first_emission obtain p0 p a where p: "producer_new 100 1 5 = (Ok p0 :: (_, EpochError) outcome)"
    "produces p0 [(a, data_record p0 66 EVENT_HEARTBEAT, 5)] p" "ep_epoch_id p = 5" "ep_run_id p = 1" by blast
  from resolver_recovers_epochs [OF p(1) _ p(2), of 7 3] p(3,4)
  have "resolve (replay 7 (resolver_new 7 1 5) [(a, data_record p0 66 EVENT_HEARTBEAT, 5)]) 7
      (rec_run_id (data_record p0 66 EVENT_HEARTBEAT)) a = Some 5
    \<and> resolve (replay 7 (resolver_new 7 1 5) [(a, data_record p0 66 EVENT_HEARTBEAT, 5)]) 7 1
      (ring_head_abs (ep_ring p) + 3) = Some 5"
    by (simp add: Let_def u64_limit_def)
  with p show ?thesis by blast
qed



text \<open>C39. A ring error while \<open>DefinitionChanged\<close> is written closes the transition: \<open>emit_definition_changed\<close>
  has taken the pending transition out of the producer and the \<open>?\<close> operator returns without putting it back.
  The producer is left running in the old epoch, its logger announced as stopped, and the sequence number and
  time of the record that was never written are consumed.\<close>

theorem definition_changed_error_closes_transition:
  assumes "ep_transition p = Some t" and "\<not> pt_definition_changed_emitted t"
    and "ep_system_seq p + 1 < u64_limit" and "ep_source_time p + 1 < u64_limit"
    and "write_record (ep_ring p) (system_record p EVENT_DEFINITION_CHANGED (definition_changed_slots t)) = Err e"
  shows "emit_definition_changed p =
      (p\<lparr>ep_transition := None, ep_system_seq := ep_system_seq p + 1, ep_source_time := ep_source_time p + 1\<rparr>,
       Err (EpochRing e))"
  using assms
  by (simp add: emit_definition_changed_def emit_system_def pbind_def producer_record_def producer_write_def
      u64_add_def Let_def system_record_def stream_record_def definition_changed_slots_def record_new_def)

theorem definition_changed_error_closes_transition_witness:
  "\<exists>p t. producer_new 60 1 5 = (Ok p :: (_, EpochError) outcome)
     \<and> emit_definition_changed (p\<lparr>ep_transition := Some t\<rparr>)
       = (p\<lparr>ep_transition := None, ep_system_seq := 1, ep_source_time := 1780000000000000001\<rparr>,
          Err (EpochRing (RecordExceedsCapacity 80 60)))"
proof -
  obtain p where p: "producer_new 60 1 5 = (Ok p :: (_, EpochError) outcome)"
    and cap: "capacity (ep_ring p) = 60"
    by (auto simp: producer_new_def ring_new_def capacity_def)
  note f = producer_new_fields [OF p]
  define t where "t = \<lparr>pt_def_hash_old = replicate 8 0, pt_def_hash_new = replicate 8 1, pt_epoch_id = 6,
    pt_definition_changed_emitted = False\<rparr>"
  let ?p = "p\<lparr>ep_transition := Some t\<rparr>"
  let ?r = "system_record ?p EVENT_DEFINITION_CHANGED (definition_changed_slots t)"
  have len: "record_len ?r True = 80"
    by (simp add: record_len_def system_record_def stream_record_def definition_changed_slots_def t_def
        slot_new_def record_new_def padding_len_def)
  have "encodable ?r True" using len
    by (simp add: encodable_def system_record_def stream_record_def definition_changed_slots_def t_def
        slot_new_def record_new_def slot_ok_def)
  then have "write_record (ep_ring ?p) ?r = Err (RecordExceedsCapacity 80 60)"
    using len cap by (simp add: write_record_def encode_ok)
  from definition_changed_error_closes_transition [of ?p t, OF _ _ _ _ this] f
  have "emit_definition_changed ?p = (p\<lparr>ep_transition := None, ep_system_seq := 1, ep_source_time := 1780000000000000001\<rparr>,
          Err (EpochRing (RecordExceedsCapacity 80 60)))"
    by (simp add: t_def u64_limit_def)
  with p show ?thesis by blast
qed

end
