(* ===== verification/Canonical.thy ===== *)
theory Canonical
  imports Schema Epoch
begin

text \<open>
  The canonical event schemas against the schema validator and the producer: every event of the registry
  has a well-formed canonical schema, the sample definition passes validation, and the system records the
  epoch producer and the loss reporter write conform to those schemas.
\<close>

section \<open>The canonical schemas are well formed\<close>

definition slots_schema_ok :: "SlotDefinition list \<Rightarrow> bool" where
  "slots_schema_ok ss \<longleftrightarrow> distinct (map sd_key ss) \<and> sorted_wrt (<) (map sd_order_class ss)
     \<and> list_all (\<lambda>s. max_occurs_ok s \<and> declared_type_ok s) ss"

lemma event_schema_ok_slots: "event_schema_ok e \<longleftrightarrow> slots_schema_ok (et_slots e)"
  by (simp add: event_schema_ok_def slots_schema_ok_def)

lemmas schema_eval = slots_schema_ok_def slot_def value_slot_def max_occurs_ok_def declared_type_ok_def
  field_spec_def field_catalogue registry_ids

lemma canonical_base_ok: "pred_option slots_schema_ok (canonical_slots_base i)"
  by (simp add: canonical_slots_base_def schema_eval)

lemma canonical_system_ok: "pred_option slots_schema_ok (canonical_slots_system i)"
  by (simp add: canonical_slots_system_def schema_eval)

lemma canonical_condition_ok: "pred_option slots_schema_ok (canonical_slots_condition i)"
  by (simp add: canonical_slots_condition_def schema_eval)

lemma canonical_procedural_ok: "pred_option slots_schema_ok (canonical_slots_procedural i)"
  by (simp add: canonical_slots_procedural_def schema_eval)

lemma canonical_regulated_ok: "pred_option slots_schema_ok (canonical_slots_regulated i)"
  by (simp add: canonical_slots_regulated_def schema_eval)

lemma canonical_slots_ok: "canonical_slots i = Some ss \<Longrightarrow> slots_schema_ok ss"
  using canonical_base_ok [of i] canonical_system_ok [of i] canonical_condition_ok [of i]
    canonical_procedural_ok [of i] canonical_regulated_ok [of i]
  by (auto simp: canonical_slots_def split: option.splits)

lemmas canonical_catalogue = canonical_slots_def canonical_slots_base_def canonical_slots_system_def
  canonical_slots_condition_def canonical_slots_procedural_def canonical_slots_regulated_def

lemma canonical_defined: "list_all (\<lambda>s. canonical_slots (es_id s) \<noteq> None) EVENT_SPECS"
  by (simp add: event_catalogue canonical_catalogue registry_ids)

lemma canonical_event_type_id: "canonical_event_type i = Some e \<Longrightarrow> et_id e = i \<and> event_schema_ok e"
  by (auto simp: canonical_event_type_def event_schema_ok_slots canonical_slots_ok split: option.splits)

lemma canonical_event_type_defined: "s \<in> set EVENT_SPECS \<Longrightarrow> \<exists>e. canonical_event_type (es_id s) = Some e"
  using canonical_defined find_complete [OF distinct_event_ids, of "es_id s" s]
  by (auto simp: canonical_event_type_def list_all_iff event_spec_def split: option.splits)

lemma expect_event_types_ok:
  assumes "\<forall>s \<in> set specs. \<exists>e. canonical_event_type (es_id s) = Some e"
  shows "expect_event_types specs = Ok (map (\<lambda>s. the (canonical_event_type (es_id s))) specs)"
  using assms by (induction specs) auto

definition canonical_list :: "EventTypeDefinition list" where
  "canonical_list = map (\<lambda>s. the (canonical_event_type (es_id s))) EVENT_SPECS"

lemma canonical_event_types_ok: "canonical_event_types = Ok canonical_list"
  unfolding canonical_event_types_def canonical_list_def
  by (rule expect_event_types_ok) (simp add: canonical_event_type_defined)

lemma canonical_list_ids: "map et_id canonical_list = map es_id EVENT_SPECS"
  unfolding canonical_list_def map_map o_def
  by (rule map_cong [OF refl]) (use canonical_event_type_defined canonical_event_type_id in fastforce)

lemma canonical_list_ok: "list_all event_schema_ok canonical_list"
  unfolding canonical_list_def list_all_iff
  using canonical_event_type_defined canonical_event_type_id by fastforce

lemma canonical_list_mem:
  assumes "canonical_event_type i = Some e"
  shows "e \<in> set canonical_list"
proof -
  from assms obtain spec where "event_spec i = Some spec" by (auto simp: canonical_event_type_def split: option.splits)
  then have "spec \<in> set EVENT_SPECS" "es_id spec = i"
    by (auto simp: event_spec_def find_complete [OF distinct_event_ids])
  with assms show ?thesis by (force simp: canonical_list_def)
qed

lemma sample_definition_ok:
  "\<exists>d. sample_definition = (Ok d :: (_, 'e) outcome) \<and> definition_ok d \<and> df_event_types d = canonical_list
     \<and> dk_max_record_size (dh_constraints (df_header d)) = 256 \<and> dk_max_slots (dh_constraints (df_header d)) = 16"
proof -
  have "distinct (map et_id canonical_list)" by (simp add: canonical_list_ids distinct_event_ids)
  then show ?thesis
    using canonical_list_ok
    by (simp add: sample_definition_def canonical_event_types_ok definition_ok_def machine_ok_def sample_header_def
        PRODUCER_MAX_RECORD_SIZE_def PROCEDURAL_MODELS_def eq_ignore_ascii_case_def PROCEDURAL_MODEL_A_STATES_def
        ev_def ascii_lower_def Let_def)
qed


lemma canonical_find:
  assumes "definition_ok d" "df_event_types d = canonical_list" "canonical_event_type i = Some e"
  shows "find (\<lambda>e. et_id e = i) (df_event_types d) = Some e"
  using assms canonical_list_mem [OF assms(3)] canonical_event_type_id [OF assms(3)]
  by (subst find_complete) (simp_all add: definition_ok_def)

lemma sample_definition_values: "sample_definition = (Ok d :: (_, 'e) outcome) \<Longrightarrow> df_values d = sample_values"
  by (auto simp: sample_definition_def canonical_event_types_ok)


section \<open>What the producer writes conforms\<close>

lemma canonical_system_events:
  "\<exists>e. canonical_event_type EVENT_LOGGER_STARTED = Some e
     \<and> et_slots e = [slot KEY_COLD_START TY_BOOL 1 (Count 1) 1]"
  "\<exists>e. canonical_event_type EVENT_LOGGER_STOPPED = Some e \<and> et_slots e = []"
  "\<exists>e. canonical_event_type EVENT_SOURCE_HIGH_WATER = Some e
     \<and> et_slots e = [slot KEY_SOURCE_HIGH_WATER TY_ULINT 1 (Count 1) 1]"
  "\<exists>e. canonical_event_type EVENT_DEFINITION_CHANGED = Some e
     \<and> et_slots e = [slot KEY_DEF_HASH_OLD TY_BYTES 1 (Count 1) 1, slot KEY_DEF_HASH_NEW TY_BYTES 1 (Count 1) 2,
         slot KEY_EPOCH_ID TY_ULINT 1 (Count 1) 3]"
  "\<exists>e. canonical_event_type EVENT_RECORDS_DROPPED = Some e
     \<and> et_slots e = [slot KEY_DROPPED_COUNT TY_UDINT 1 (Count 1) 1, slot KEY_FIRST_LOST_SEQ TY_ULINT 1 (Count 1) 2,
         slot KEY_LAST_LOST_SEQ TY_ULINT 1 (Count 1) 3, slot KEY_WINDOW_START TY_DATE_TIME 0 (Count 1) 4,
         slot KEY_WINDOW_END TY_DATE_TIME 0 (Count 1) 5]"
  by (simp_all add: canonical_event_type_def canonical_catalogue event_spec_def event_catalogue registry_ids)

lemmas conform_eval = conforms_def occurs_ok_def typed_as_def payload_ok_def value_type_ok_def slot_def slot_new_def
  tlv_type_spec_def type_catalogue registry_ids Let_def

lemma canonical_valid:
  assumes d: "definition_ok d" "df_event_types d = canonical_list"
    and size: "len \<le> unat (dk_max_record_size (dh_constraints (df_header d)))"
      "length (rec_slots r) \<le> unat (dk_max_slots (dh_constraints (df_header d)))"
    and e: "canonical_event_type (rec_event_type_id r) = Some e" and c: "conforms r d e (rec_slots r) []"
  shows "schema_validate_record r len d = Ok (Valid [])"
proof -
  have "validate_definition d = Ok ()" using d by (simp add: validate_definition_eq_Ok)
  moreover have "find (\<lambda>e. et_id e = rec_event_type_id r) (df_event_types d) = Some e"
    using canonical_find [OF d e] .
  moreover have "validate_record_slots r e d = Ok []"
    using c canonical_event_type_id [OF e] by (subst validate_record_slots_eq_Ok) auto
  ultimately show ?thesis using size by (simp add: schema_validate_record_def)
qed

fun is_system_op :: "producer_op \<Rightarrow> bool" where
  "is_system_op (EmitData _ _) = False"
| "is_system_op _ = True"

definition hashes_ok :: "EpochProducer \<Rightarrow> bool" where
  "hashes_ok p \<longleftrightarrow> (case ep_transition p of None \<Rightarrow> True
     | Some t \<Rightarrow> length (pt_def_hash_old t) = 8 \<and> length (pt_def_hash_new t) = 8)"

inductive system_slots :: "u32 \<Rightarrow> Slot list \<Rightarrow> bool" where
  stopped [simp]: "system_slots EVENT_LOGGER_STOPPED []"
| started [simp]: "system_slots EVENT_LOGGER_STARTED [slot_new KEY_COLD_START TY_BOOL [b]]"
| high_water [simp]:
    "system_slots EVENT_SOURCE_HIGH_WATER [slot_new KEY_SOURCE_HIGH_WATER TY_ULINT (u64_to_le_bytes n)]"
| changed [simp]: "length x = 8 \<Longrightarrow> length y = 8 \<Longrightarrow> system_slots EVENT_DEFINITION_CHANGED
     [slot_new KEY_DEF_HASH_OLD TY_BYTES x, slot_new KEY_DEF_HASH_NEW TY_BYTES y,
      slot_new KEY_EPOCH_ID TY_ULINT (u64_to_le_bytes n)]"
| dropped [simp]: "system_slots EVENT_RECORDS_DROPPED
     [slot_new KEY_DROPPED_COUNT TY_UDINT (u32_to_le_bytes c),
      slot_new KEY_FIRST_LOST_SEQ TY_ULINT (u64_to_le_bytes m), slot_new KEY_LAST_LOST_SEQ TY_ULINT (u64_to_le_bytes n)]"

lemma system_slots_conform:
  assumes "system_slots (rec_event_type_id r) (rec_slots r)"
  shows "\<exists>e. canonical_event_type (rec_event_type_id r) = Some e \<and> conforms r d e (rec_slots r) []"
    and "record_len r True \<le> 80" and "length (rec_slots r) \<le> 3"
proof -
  show "\<exists>e. canonical_event_type (rec_event_type_id r) = Some e \<and> conforms r d e (rec_slots r) []"
    using assms
    by (cases rule: system_slots.cases)
       (use canonical_system_events in \<open>auto simp: conform_eval\<close>)
  show "record_len r True \<le> 80" "length (rec_slots r) \<le> 3"
    using assms
    by (cases rule: system_slots.cases; simp add: record_len_def slot_new_def padding_len_def)+
qed

lemma high_water_system_slots:
  "r \<in> set (high_water_records t run hw) \<Longrightarrow> system_slots (rec_event_type_id r) (rec_slots r)"
  by (induction t run hw rule: high_water_records.induct) (auto simp: stream_record_def record_new_def)

lemma op_records_system_slots:
  assumes "is_system_op op" "hashes_ok p" "r \<in> set (op_records op p)"
  shows "system_slots (rec_event_type_id r) (rec_slots r)"
  using assms
  by (cases op) (auto simp: system_record_def stream_record_def record_new_def hashes_ok_def
      definition_changed_slots_def split: option.splits dest: high_water_system_slots)

lemma dropped_record_system_slots:
  "records_dropped_record seq rng = Ok r \<Longrightarrow> system_slots (rec_event_type_id r) (rec_slots r)"
  by (auto simp: records_dropped_record_def outcome_simps record_new_def)


section \<open>Properties\<close>

text \<open>The canonical schemas are complete and consistent: \<open>canonical_event_types\<close> returns without a panic
  one schema for every event of the registry, in registry order, each schema is well formed against the
  registry's field types, and the sample definition passes \<open>validate_definition\<close>.\<close>

theorem canonical_schemas_valid:
  "\<exists>es d. canonical_event_types = (Ok es :: (_, 'e) outcome) \<and> map et_id es = map es_id EVENT_SPECS
     \<and> list_all (\<lambda>e. validate_event_definition e = Ok ()) es
     \<and> sample_definition = (Ok d :: (_, 'e) outcome) \<and> validate_definition d = Ok ()"
  using canonical_event_types_ok canonical_list_ids canonical_list_ok sample_definition_ok
  by (auto simp: validate_event_definition_eq_Ok validate_definition_eq_Ok)



theorem defective_definition_placeholders_witness:
  "\<exists>d v. \<not> definition_ok d \<and> schema_validate_record (record_new 1 2 3 4 5) 44 d
      = (Ok (placeholder (record_new 1 2 3 4 5) (Definition v)) :: (_, unit) outcome)"
proof -
  from sample_definition_ok [where 'e = unit] obtain d :: DefinitionFile where "df_event_types d = canonical_list" by blast
  define e where "e = \<lparr>et_id = 7, et_name = [], et_profile = [], et_slots = []\<rparr>"
  have "\<not> definition_ok (d\<lparr>df_event_types := [e, e]\<rparr>)" by (simp add: definition_ok_def)
  with defective_definition_placeholders [OF this] show ?thesis by blast
qed

end
