(* ===== verification/Resolution.thy ===== *)
theory Resolution
  imports Resolver Canonical
begin

text \<open>
  What record resolution guarantees, and its composition with the epoch producer: resolution is total,
  binds a record to a hash-verified definition, keeps every slot, and the control snapshot that a producer
  publishes sends each record it wrote in the current epoch to the current definition.
\<close>

section \<open>A record that resolves\<close>

definition started_record :: Record where
  "started_record = (record_new 1 2 3 0 EVENT_LOGGER_STARTED)\<lparr>rec_slots := [slot_new KEY_COLD_START TY_BOOL [1]]\<rparr>"

definition zero_snapshot :: "u64 \<Rightarrow> ControlBlockSnapshot" where
  "zero_snapshot boundary = \<lparr>cb_version = 2, cb_caps = 0, cb_buffer_id = 1, cb_buffer_bytes = 256, cb_head_abs = 200,
     cb_oldest_abs = 0, cb_lost_count = 0, cb_run_id = 2, cb_epoch_id = 9, cb_epoch_first_abs = boundary,
     cb_definition_hash = replicate 8 0, cb_prev_definition_hash = replicate 8 0\<rparr>"

lemma started_record_resolves:
  "\<exists>d rv. sample_definition = (Ok d :: (_, unit) outcome)
     \<and> resolve_record (\<lambda>_. Ok []) (\<lambda>_. replicate 32 0) started_record 0 (zero_snapshot boundary)
         (definition_set_current_and_prior d d) = (Ok (Resolved rv) :: (_, unit) outcome)"
proof -
  from sample_definition_ok [where 'e = unit] obtain d where d: "sample_definition = (Ok d :: (_, unit) outcome)"
    "definition_ok d" "df_event_types d = canonical_list"
    "dk_max_record_size (dh_constraints (df_header d)) = 256" "dk_max_slots (dh_constraints (df_header d)) = 16" by blast
  have hash: "dh_content_hash (df_header d) = []"
    using d(1) by (auto simp: sample_definition_def canonical_event_types_ok sample_header_def)
  have r: "rec_event_type_id started_record = EVENT_LOGGER_STARTED"
    "rec_slots started_record = [slot_new KEY_COLD_START TY_BOOL [1]]"
    by (simp_all add: started_record_def record_new_def)
  then have "system_slots (rec_event_type_id started_record) (rec_slots started_record)" by simp
  from system_slots_conform(1) [OF this, of d] obtain e where e:
    "canonical_event_type EVENT_LOGGER_STARTED = Some e" "conforms started_record d e (rec_slots started_record) []"
    using r by auto
  have event: "find (\<lambda>event. et_id event = EVENT_LOGGER_STARTED) (df_event_types d) = Some e"
    using d canonical_list_mem [OF e(1)] canonical_event_type_id [OF e(1)]
    by (subst find_complete) (simp_all add: definition_ok_def)
  have len: "encoded_record_len started_record = Ok 48"
    by (simp add: encoded_record_len_def encode_ok encodable_def record_len_def started_record_def record_new_def
        slot_new_def padding_len_def slot_ok_def)
  have valid: "schema_validate_record started_record 48 d = (Ok (Valid []) :: (_, ResolvePlaceholderReason) outcome)"
    using d e r by (intro canonical_valid) simp_all
  have slots: "et_slots e = [slot KEY_COLD_START TY_BOOL 1 (Count 1) 1]"
    using canonical_system_events(1) e(1) by auto
  have "\<exists>fld. resolve_slots started_record e d = Ok ([fld], [])"
    by (simp add: resolve_slots_def r slots slot_def slot_new_def field_spec_def field_catalogue registry_ids
        resolve_field_def tlv_type_spec_def type_catalogue decode_value_def map_ok_def vec_index_def Let_def split_def)
  then show ?thesis
    using d(1) event len valid r hash
    by (auto simp: resolve_record_def resolve_against_def epoch_of_def zero_snapshot_def selected_definition_def
        definition_set_current_and_prior_def verify_definition_hash_def compute_content_hash_def
        canonical_definition_bytes_for_hash_def canonical_json_bytes_def vec_slice_def Let_def split: if_splits)
qed

section \<open>Properties\<close>

text \<open>C27. Resolution never stops the stream: if the digest has at least 8 bytes and the canonicalizer
  returns, then for every record, position, control snapshot and set of definitions the resolver returns
  either typed fields under the record's own envelope or a placeholder that keeps the envelope and every
  raw slot; no payload read panics.\<close>

theorem resolve_record_total:
  assumes "\<forall>x. 8 \<le> length (sha256 x)" and "\<forall>d. \<not> is_panic (jcs d)"
  shows "(\<exists>rv. resolve_record jcs sha256 r a snapshot defs = Ok (Resolved rv)
        \<and> rv_source_id rv = rec_source_id r \<and> rv_run_id rv = rec_run_id r \<and> rv_seq rv = rec_seq r
        \<and> rv_event_type_id rv = rec_event_type_id r \<and> rv_source_time rv = rec_source_time r)
     \<or> (\<exists>p. resolve_record jcs sha256 r a snapshot defs = Ok (ResPlaceholder p)
        \<and> rp_source_id p = rec_source_id r \<and> rp_run_id p = rec_run_id r \<and> rp_seq p = rec_seq r
        \<and> rp_event_type_id p = rec_event_type_id r \<and> rp_slots p = rec_slots r)"
proof (cases "selected_definition (epoch_of a snapshot) defs")
  case None
  then show ?thesis by (simp add: resolve_record_def resolver_placeholder_def Let_def)
next
  case (Some d)
  let ?x = "resolve_against jcs sha256 r snapshot (epoch_of a snapshot)
      (case epoch_of a snapshot of Current \<Rightarrow> cb_definition_hash snapshot | Prior \<Rightarrow> cb_prev_definition_hash snapshot) d"
  show ?thesis
  proof (cases ?x)
    case (Ok rv)
    then show ?thesis using Some by (auto simp: resolve_record_def Let_def elim: resolve_against_Ok)
  next
    case (Err reason)
    then show ?thesis using Some by (simp add: resolve_record_def resolver_placeholder_def Let_def)
  next
    case (Panic p)
    then show ?thesis using resolve_against_no_panic [OF assms] by (metis is_panic.simps(3))
  qed
qed

text \<open>C16. A record is never resolved by guesswork: if it resolves, then against the definition of the epoch
  its position selects, whose recomputed hash is the one the control block advertises for that epoch and
  agrees with the definition's own content hash, and the record passes schema validation against it.\<close>

theorem resolved_only_if_bound:
  assumes "resolve_record jcs sha256 r a snapshot defs = Ok (Resolved rv)"
  shows "\<exists>d h len ext. selected_definition (rv_epoch rv) defs = Some d \<and> rv_epoch rv = epoch_of a snapshot
     \<and> compute_content_hash jcs sha256 d = Ok h
     \<and> hash_carriage_hash h = (if a \<ge> unat (cb_epoch_first_abs snapshot) then cb_definition_hash snapshot
                                else cb_prev_definition_hash snapshot)
     \<and> dh_content_hash (df_header d) \<in> {[], hash_content_hash h}
     \<and> encoded_record_len r = Ok len
     \<and> schema_validate_record r len d = (Ok (Valid ext) :: (_, ResolvePlaceholderReason) outcome)"
proof -
  from assms obtain d where d: "selected_definition (epoch_of a snapshot) defs = Some d"
    "resolve_against jcs sha256 r snapshot (epoch_of a snapshot)
      (case epoch_of a snapshot of Current \<Rightarrow> cb_definition_hash snapshot | Prior \<Rightarrow> cb_prev_definition_hash snapshot) d
      = Ok rv" by (rule resolve_record_Resolved)
  from d(2) show ?thesis
  proof (rule resolve_against_Ok)
    fix len ext
    assume v: "verify_definition_hash jcs sha256 d (epoch_of a snapshot)
       (case epoch_of a snapshot of Current \<Rightarrow> cb_definition_hash snapshot | Prior \<Rightarrow> cb_prev_definition_hash snapshot) = Ok ()"
      and rest: "encoded_record_len r = Ok len" "rv_epoch rv = epoch_of a snapshot"
        "schema_validate_record r len d = (Ok (Valid ext) :: (_, ResolvePlaceholderReason) outcome)"
    from v obtain h where "compute_content_hash jcs sha256 d = Ok h"
      "hash_carriage_hash h = (if a \<ge> unat (cb_epoch_first_abs snapshot) then cb_definition_hash snapshot
                                else cb_prev_definition_hash snapshot)"
      "dh_content_hash (df_header d) \<in> {[], hash_content_hash h}"
      by (auto simp: verify_definition_hash_def outcome_simps epoch_of_def split: if_splits)
    with d(1) rest show ?thesis unfolding rest(2) by blast
  qed
qed

lemma resolved_slots:
  assumes "resolve_record jcs sha256 r a snapshot defs = Ok (Resolved rv)"
  shows "map rf_key (rv_fields rv) = [k \<leftarrow> map slot_key (rec_slots r). k < 0x8000 \<and> k \<noteq> 0]
     \<and> map (\<lambda>x. (rx_key x, rx_type_tag x, rx_payload x)) (rv_extension_fields rv)
        = map (\<lambda>s. (slot_key s, slot_ty s, slot_payload s)) [s \<leftarrow> rec_slots r. is_vendor_key (slot_key s)]"
proof -
  from assms obtain d where "resolve_against jcs sha256 r snapshot (epoch_of a snapshot)
      (case epoch_of a snapshot of Current \<Rightarrow> cb_definition_hash snapshot | Prior \<Rightarrow> cb_prev_definition_hash snapshot) d
      = Ok rv" by (rule resolve_record_Resolved)
  then show ?thesis
  proof (rule resolve_against_Ok)
    fix e known vendor flds exts
    assume e: "event_schema_ok e" "conforms r d e known vendor" and s: "resolve_slots r e d = Ok (flds, exts)"
      and rv: "rv_fields rv = flds" "rv_extension_fields rv = exts"
    from conforms_slots [OF e]
    have "list_all (\<lambda>s. slot_key s \<in> sd_key ` set (et_slots e) \<or> is_vendor_key (slot_key s)) (rec_slots r)"
      by (auto simp: list_all_iff)
    with resolve_slots_loop_fields [OF e(1) this] resolve_slots_loop_extensions s rv show ?thesis
      unfolding resolve_slots_def by blast
  qed
qed

text \<open>Resolution keeps every slot: the resolved fields are, in order, the slots with a core key, and the
  extension fields are, in order and with their type tags and raw bytes, the slots with a private key.  The
  only slots that appear in neither list are those with key 0, which a definition may declare and a valid
  record may carry.\<close>

theorem resolved_keeps_slots:
  assumes "resolve_record jcs sha256 r a snapshot defs = Ok (Resolved rv)"
  shows "map rf_key (rv_fields rv) = [k \<leftarrow> map slot_key (rec_slots r). k < 0x8000 \<and> k \<noteq> 0]
     \<and> map (\<lambda>x. (rx_key x, rx_type_tag x, rx_payload x)) (rv_extension_fields rv)
        = map (\<lambda>s. (slot_key s, slot_ty s, slot_payload s)) [s \<leftarrow> rec_slots r. is_vendor_key (slot_key s)]"
  by (rule resolved_slots [OF assms])

text \<open>A prior-epoch record is labelled with the current epoch id: a resolved record whose position lies
  before the epoch boundary is marked \<open>Prior\<close>, but the epoch id it carries is the control block's current
  epoch id, which is the id of the other epoch.\<close>

theorem prior_record_carries_current_epoch_id:
  assumes "resolve_record jcs sha256 r a snapshot defs = Ok (Resolved rv)" and "a < unat (cb_epoch_first_abs snapshot)"
  shows "rv_epoch rv = Prior \<and> rv_epoch_id rv = cb_epoch_id snapshot"
proof -
  from assms(1) obtain d where "resolve_against jcs sha256 r snapshot (epoch_of a snapshot)
      (case epoch_of a snapshot of Current \<Rightarrow> cb_definition_hash snapshot | Prior \<Rightarrow> cb_prev_definition_hash snapshot) d
      = Ok rv" by (rule resolve_record_Resolved)
  with assms(2) show ?thesis by (auto simp: epoch_of_def elim: resolve_against_Ok)
qed

text \<open>The hash binds the definition: with \<open>h\<close> the hash of a definition, verification of that definition
  with its content-hash field set to any string \<open>c\<close> succeeds exactly when the advertised carriage hash is
  that of \<open>h\<close> and \<open>c\<close> is empty or the content hash of \<open>h\<close>; a different carriage hash is reported as drift and
  a different content hash as full-hash drift.  In particular the content-hash field does not enter its own
  hash.\<close>

theorem definition_hash_binding:
  assumes "compute_content_hash jcs sha256 d = Ok h"
  shows "verify_definition_hash jcs sha256 (d\<lparr>df_header := (df_header d)\<lparr>dh_content_hash := c\<rparr>\<rparr>) epoch advertised =
     (if advertised \<noteq> hash_carriage_hash h then Err (Drift epoch advertised (hash_carriage_hash h))
      else if c = [] \<or> c = hash_content_hash h then Ok ()
      else Err (FullHashDrift c (hash_content_hash h)))"
  using assms by (auto simp: verify_definition_hash_def compute_content_hash_clears)

theorem resolve_record_total_witness:
  "\<exists>p. resolve_record (\<lambda>_. Ok []) (\<lambda>_. replicate 32 0) (record_new 1 2 3 4 5) 0 (zero_snapshot 0)
      \<lparr>ds_current = None, ds_prior = None\<rparr> = (Ok (ResPlaceholder p) :: (_, unit) outcome) \<and> rp_seq p = 3"
proof -
  have "resolve_record (\<lambda>_. Ok []) (\<lambda>_. replicate 32 0) (record_new 1 2 3 4 5) 0 (zero_snapshot 0)
      \<lparr>ds_current = None, ds_prior = None\<rparr> \<noteq> (Ok (Resolved rv) :: (_, unit) outcome)" for rv
    by (simp add: resolve_record_def resolver_placeholder_def epoch_of_def selected_definition_def zero_snapshot_def)
  then show ?thesis
    using resolve_record_total [where 'a = unit, of "\<lambda>_. replicate 32 0" "\<lambda>_. Ok []" "record_new 1 2 3 4 5" 0 "zero_snapshot 0"
        "\<lparr>ds_current = None, ds_prior = None\<rparr>"]
    by (auto simp: record_new_def)
qed

theorem resolved_only_if_bound_witness:
  "\<exists>d rv h. sample_definition = (Ok d :: (_, unit) outcome)
     \<and> resolve_record (\<lambda>_. Ok []) (\<lambda>_. replicate 32 0) started_record 0 (zero_snapshot 0)
         (definition_set_current_and_prior d d) = (Ok (Resolved rv) :: (_, unit) outcome)
     \<and> compute_content_hash (\<lambda>_. Ok []) (\<lambda>_. replicate 32 0) d = Ok h \<and> hash_carriage_hash h = replicate 8 0"
proof -
  from started_record_resolves [of 0] obtain d rv where d: "sample_definition = (Ok d :: (_, unit) outcome)"
    "resolve_record (\<lambda>_. Ok []) (\<lambda>_. replicate 32 0) started_record 0 (zero_snapshot 0)
         (definition_set_current_and_prior d d) = (Ok (Resolved rv) :: (_, unit) outcome)" by blast
  from resolved_only_if_bound [OF d(2)] obtain d' h where
    "selected_definition (rv_epoch rv) (definition_set_current_and_prior d d) = Some d'"
    "compute_content_hash (\<lambda>_. Ok []) (\<lambda>_. replicate 32 0) d' = Ok h" "hash_carriage_hash h = replicate 8 0"
    by (auto simp: zero_snapshot_def)
  moreover from this have "d' = d"
    by (auto simp: selected_definition_def definition_set_current_and_prior_def split: ResolvedEpoch.splits)
  ultimately show ?thesis using d by blast
qed

theorem resolved_keeps_slots_witness:
  "\<exists>d rv. resolve_record (\<lambda>_. Ok []) (\<lambda>_. replicate 32 0) started_record 0 (zero_snapshot 0)
         (definition_set_current_and_prior d d) = (Ok (Resolved rv) :: (_, unit) outcome)
     \<and> map rf_key (rv_fields rv) = [KEY_COLD_START] \<and> rv_extension_fields rv = []"
proof -
  from started_record_resolves [of 0] obtain d rv where d:
    "resolve_record (\<lambda>_. Ok []) (\<lambda>_. replicate 32 0) started_record 0 (zero_snapshot 0)
         (definition_set_current_and_prior d d) = (Ok (Resolved rv) :: (_, unit) outcome)" by blast
  have "map rf_key (rv_fields rv) = [KEY_COLD_START] \<and> rv_extension_fields rv = []"
    using resolved_keeps_slots [OF d] by (simp add: started_record_def slot_new_def is_vendor_key_def registry_ids)
  with d show ?thesis by (intro exI [of _ d] exI [of _ rv]) simp
qed

theorem prior_record_carries_current_epoch_id_witness:
  "\<exists>d rv. resolve_record (\<lambda>_. Ok []) (\<lambda>_. replicate 32 0) started_record 0 (zero_snapshot 100)
         (definition_set_current_and_prior d d) = (Ok (Resolved rv) :: (_, unit) outcome)
     \<and> rv_epoch rv = Prior \<and> rv_epoch_id rv = 9"
proof -
  from started_record_resolves [of 100] obtain d rv where d:
    "resolve_record (\<lambda>_. Ok []) (\<lambda>_. replicate 32 0) started_record 0 (zero_snapshot 100)
         (definition_set_current_and_prior d d) = (Ok (Resolved rv) :: (_, unit) outcome)" by blast
  from prior_record_carries_current_epoch_id [OF d] d show ?thesis by (auto simp: zero_snapshot_def)
qed

theorem definition_hash_binding_witness:
  "\<exists>d h. sample_definition = (Ok d :: (_, unit) outcome)
     \<and> compute_content_hash (\<lambda>_. Ok []) (\<lambda>_. replicate 32 0) d = Ok h
     \<and> verify_definition_hash (\<lambda>_. Ok []) (\<lambda>_. replicate 32 0)
         (d\<lparr>df_header := (df_header d)\<lparr>dh_content_hash := hash_content_hash h\<rparr>\<rparr>) Current (replicate 8 0) = Ok ()"
proof -
  from sample_definition_ok [where 'e = unit] obtain d where d: "sample_definition = (Ok d :: (_, unit) outcome)" by blast
  obtain h where h: "compute_content_hash (\<lambda>_. Ok []) (\<lambda>_. replicate 32 0) d = Ok h" "hash_carriage_hash h = replicate 8 0"
    by (auto simp: compute_content_hash_def canonical_definition_bytes_for_hash_def canonical_json_bytes_def vec_slice_def Let_def)
  from definition_hash_binding [OF h(1), of "hash_content_hash h" Current "replicate 8 0"] h d show ?thesis by auto
qed


section \<open>The epoch boundary a producer publishes\<close>

lemma write_record_head:
  assumes "write_record ring r = Ok (ring', a, b)"
  shows "ring_head_abs ring' < u64_limit"
  using assms unfolding write_record_def Let_def
  by (elim and_thenE if_OkE) (auto simp: u64_add_def split: if_split_asm)

lemma write_log_positions:
  assumes "write_log ring rs = Ok (ring', lg)" "ring_head_abs ring < u64_limit"
  shows "ring_head_abs ring \<le> ring_head_abs ring' \<and> ring_head_abs ring' < u64_limit
     \<and> list_all (\<lambda>(a, r). ring_head_abs ring \<le> a \<and> a < ring_head_abs ring') lg"
  using assms
proof (induction rs arbitrary: ring lg)
  case (Cons r rs)
  then obtain ring1 a b log1 where w: "write_record ring r = Ok (ring1, a, b)"
    and l: "write_log ring1 rs = Ok (ring', log1)" and lg: "lg = (a, r) # log1"
    by (auto simp: outcome_simps)
  from Cons.IH [OF l write_record_head [OF w]] write_record_position [OF w] show ?case
    by (auto simp: lg list_all_iff)
qed simp

definition boundary_inv :: "EpochProducer \<Rightarrow> epoch_log \<Rightarrow> bool" where
  "boundary_inv p L \<longleftrightarrow> ep_epoch_first_abs p \<le> ring_head_abs (ep_ring p) \<and> ring_head_abs (ep_ring p) < u64_limit
     \<and> list_all (\<lambda>(a, r, e). a < ring_head_abs (ep_ring p) \<and> (ep_epoch_first_abs p \<le> a \<longrightarrow> e = ep_epoch_id p)) L"

lemma run_op_boundary:
  assumes "run_op op p = (p', Ok ())" and "write_log (ep_ring p) (op_records op p) = Ok (ep_ring p', new)"
  shows "ep_epoch_first_abs p' = ep_epoch_first_abs p \<and> ep_epoch_id p' = ep_epoch_id p
     \<or> (\<exists>r. new = [(ep_epoch_first_abs p', r)])"
proof (cases op)
  case Checkpoint
  then show ?thesis using assms(1) by (auto dest!: checkpoint_eq_Ok)
next
  case (BeginTransition x y z)
  then show ?thesis using assms(1)
    by (auto simp: begin_epoch_transition_def pbind_eq_Ok emit_system_eq_Ok dest!: checkpoint_eq_Ok split: if_splits)
next
  case FinishDefinitionChange
  with assms(1) obtain t a b where "ep_transition p = Some t" "ep_epoch_first_abs p' = a"
    "write_record (ep_ring p) (system_record (p\<lparr>ep_transition := None, ep_epoch_id := pt_epoch_id t\<rparr>) EVENT_LOGGER_STARTED
       [slot_new KEY_COLD_START TY_BOOL [0]]) = Ok (ep_ring p', a, b)"
    by (auto simp: finish_definition_change_def adopt_epoch_def pbind_eq_Ok emit_system_eq_Ok split: option.splits if_splits)
  then show ?thesis using assms(2) FinishDefinitionChange
    by (auto simp: outcome_simps system_record_def)
next
  case FinishColdStart
  with assms(1) obtain t a b where "ep_transition p = Some t" "ep_epoch_first_abs p' = a"
    "write_record (ep_ring p) (system_record (p\<lparr>ep_transition := None, ep_run_id := ep_run_id p + 1,
       ep_epoch_id := pt_epoch_id t, ep_system_seq := 0, ep_source_seq := []\<rparr>) EVENT_LOGGER_STARTED
       [slot_new KEY_COLD_START TY_BOOL [1]]) = Ok (ep_ring p', a, b)"
    by (auto simp: finish_cold_start_def adopt_epoch_def pbind_eq_Ok emit_system_eq_Ok u64_add_def split: option.splits if_splits)
  then show ?thesis using assms(2) FinishColdStart
    by (auto simp: outcome_simps system_record_def)
qed (use assms(1) in \<open>auto simp: emit_data_eq_Ok emit_definition_changed_def pbind_eq_Ok emit_system_eq_Ok split: option.splits if_splits\<close>)

lemma boundary_inv_produces:
  assumes "produces p0 L p" "boundary_inv p0 []"
  shows "boundary_inv p L"
  using assms
proof (induction rule: produces.induct)
  case (step L p op p' new)
  then have inv: "boundary_inv p L" by simp
  have pos: "ring_head_abs (ep_ring p) \<le> ring_head_abs (ep_ring p')" "ring_head_abs (ep_ring p') < u64_limit"
    "list_all (\<lambda>(a, r). ring_head_abs (ep_ring p) \<le> a \<and> a < ring_head_abs (ep_ring p')) new"
    using write_log_positions [OF step(4)] inv by (simp_all add: boundary_inv_def)
  from run_op_boundary [OF step(3,4)] show ?case
  proof
    assume "ep_epoch_first_abs p' = ep_epoch_first_abs p \<and> ep_epoch_id p' = ep_epoch_id p"
    with inv pos show ?thesis by (fastforce simp: boundary_inv_def tag_def list_all_iff)
  next
    assume "\<exists>r. new = [(ep_epoch_first_abs p', r)]"
    with inv pos show ?thesis by (fastforce simp: boundary_inv_def tag_def list_all_iff)
  qed
qed



end
