(* ===== verification/Text.thy ===== *)
theory Text
  imports Prelude "HOL-Library.Sublist"
begin

text \<open>
  Text of the Rust standard library that the report, the document and the harness use: decimal formatting and
  parsing of unsigned integers, booleans, lines and the words of a line.  A \<open>str\<close> is a list of bytes (HOL
  characters) in UTF-8; a whitespace character is one of the encodings of the Unicode property
  \<open>White_Space\<close>, which cannot start inside another character.
\<close>

section \<open>Numbers and booleans\<close>

fun decimal :: "nat \<Rightarrow> string" where
  "decimal n = (if n < 10 then [char_of (48 + n)] else decimal (n div 10) @ [char_of (48 + n mod 10)])"

declare decimal.simps [simp del]

definition digit_value :: "char \<Rightarrow> nat option" where
  "digit_value c = (let n = of_char c :: nat in if 48 \<le> n \<and> n < 58 then Some (n - 48) else None)"

fun parse_digits :: "nat \<Rightarrow> nat \<Rightarrow> string \<Rightarrow> nat option" where
  "parse_digits limit acc [] = Some acc"
| "parse_digits limit acc (c # cs) =
     (case digit_value c of
        None \<Rightarrow> None
      | Some d \<Rightarrow> if 10 * acc + d < limit then parse_digits limit (10 * acc + d) cs else None)"

definition parse_unsigned :: "nat \<Rightarrow> string \<Rightarrow> nat option" where
  "parse_unsigned limit s =
     (case s of
        [] \<Rightarrow> None
      | c # cs \<Rightarrow> if c = CHR ''+'' \<and> cs \<noteq> [] then parse_digits limit 0 cs else parse_digits limit 0 s)"

definition bool_text :: "bool \<Rightarrow> string" where
  "bool_text b = (if b then ''true'' else ''false'')"

definition parse_bool :: "string \<Rightarrow> bool option" where
  "parse_bool s = (if s = ''true'' then Some True else if s = ''false'' then Some False else None)"

section \<open>Words and lines\<close>

definition whitespace_chars :: "string list" where
  "whitespace_chars =
     [[CHR 0x09], [CHR 0x0A], [CHR 0x0B], [CHR 0x0C], [CHR 0x0D], [CHR 0x20],
      [CHR 0xC2, CHR 0x85], [CHR 0xC2, CHR 0xA0], [CHR 0xE1, CHR 0x9A, CHR 0x80],
      [CHR 0xE2, CHR 0x80, CHR 0x80], [CHR 0xE2, CHR 0x80, CHR 0x81], [CHR 0xE2, CHR 0x80, CHR 0x82], [CHR 0xE2, CHR 0x80, CHR 0x83],
      [CHR 0xE2, CHR 0x80, CHR 0x84], [CHR 0xE2, CHR 0x80, CHR 0x85], [CHR 0xE2, CHR 0x80, CHR 0x86], [CHR 0xE2, CHR 0x80, CHR 0x87],
      [CHR 0xE2, CHR 0x80, CHR 0x88], [CHR 0xE2, CHR 0x80, CHR 0x89], [CHR 0xE2, CHR 0x80, CHR 0x8A], [CHR 0xE2, CHR 0x80, CHR 0xA8],
      [CHR 0xE2, CHR 0x80, CHR 0xA9], [CHR 0xE2, CHR 0x80, CHR 0xAF],
      [CHR 0xE2, CHR 0x81, CHR 0x9F], [CHR 0xE3, CHR 0x80, CHR 0x80]]"

definition whitespace_len :: "string \<Rightarrow> nat" where
  "whitespace_len s = (case find (\<lambda>w. prefix w s) whitespace_chars of None \<Rightarrow> 0 | Some w \<Rightarrow> length w)"

function split_words :: "string \<Rightarrow> string \<Rightarrow> string list" where
  "split_words word [] = (if word = [] then [] else [word])"
| "split_words word (c # cs) =
     (let n = whitespace_len (c # cs)
      in if n = 0 then split_words (word @ [c]) cs
         else (if word = [] then [] else [word]) @ split_words [] (drop n (c # cs)))"
  by pat_completeness auto
termination
  by (relation "measure (\<lambda>(word, s). length s)") (auto simp: Let_def)

definition split_whitespace :: "string \<Rightarrow> string list" where
  "split_whitespace s = split_words [] s"

definition strip_cr :: "string \<Rightarrow> string" where
  "strip_cr s = (if s \<noteq> [] \<and> last s = CHR 0x0D then butlast s else s)"

fun split_lines :: "string \<Rightarrow> string \<Rightarrow> string list" where
  "split_lines line [] = (if line = [] then [] else [line])"
| "split_lines line (c # cs) =
     (if c = CHR 0x0A then strip_cr line # split_lines [] cs else split_lines (line @ [c]) cs)"

definition str_lines :: "string \<Rightarrow> string list" where
  "str_lines s = split_lines [] s"

section \<open>Decimal round trip\<close>

lemma digit_value_char [simp]: "d < 10 \<Longrightarrow> digit_value (char_of (48 + d)) = Some d"
  by (simp add: digit_value_def)

lemma parse_digits_append:
  "parse_digits limit acc (s @ t) = (case parse_digits limit acc s of None \<Rightarrow> None | Some n \<Rightarrow> parse_digits limit n t)"
  by (induction s arbitrary: acc) (auto split: option.splits)

lemma parse_digits_decimal: "n < limit \<Longrightarrow> parse_digits limit 0 (decimal n) = Some n"
proof (induction n rule: decimal.induct)
  case (1 n)
  show ?case
  proof (cases "n < 10")
    case False
    have "10 * (n div 10) + n mod 10 = n" by simp
    with 1 False show ?thesis by (simp add: decimal.simps [of n] parse_digits_append div_le_dividend le_less_trans)
  qed (use 1 in \<open>simp add: decimal.simps [of n]\<close>)
qed

definition digits :: "string \<Rightarrow> bool" where
  "digits s \<longleftrightarrow> s \<noteq> [] \<and> list_all (\<lambda>c. 48 \<le> (of_char c :: nat) \<and> (of_char c :: nat) < 58) s"

lemma digits_decimal [simp]: "digits (decimal n)"
proof (induction n rule: decimal.induct)
  case (1 n)
  then show ?case by (cases "n < 10") (simp_all add: decimal.simps [of n] digits_def)
qed

lemma parse_unsigned_decimal [simp]: "n < limit \<Longrightarrow> parse_unsigned limit (decimal n) = Some n"
proof -
  assume n: "n < limit"
  obtain c cs where c: "decimal n = c # cs" "digits (c # cs)"
    using digits_decimal [of n] by (metis digits_def list.exhaust)
  then have "c \<noteq> CHR ''+''" by (auto simp: digits_def)
  with c n show ?thesis using parse_digits_decimal [OF n] by (simp add: parse_unsigned_def)
qed

lemma parse_bool_text [simp]: "parse_bool (bool_text b) = Some b"
  by (simp add: parse_bool_def bool_text_def)

section \<open>Words\<close>

fun no_whitespace :: "string \<Rightarrow> bool" where
  "no_whitespace [] \<longleftrightarrow> True"
| "no_whitespace (c # cs) \<longleftrightarrow> whitespace_len (c # cs) = 0 \<and> no_whitespace cs"

definition word_text :: "string \<Rightarrow> bool" where
  "word_text s \<longleftrightarrow> s \<noteq> [] \<and> no_whitespace s"

lemma whitespace_len_zero: "whitespace_len s = 0 \<longleftrightarrow> (\<forall>w \<in> set whitespace_chars. \<not> prefix w s)"
proof -
  have ne: "w \<noteq> []" if "w \<in> set whitespace_chars" for w using that by (auto simp: whitespace_chars_def)
  show ?thesis
  proof (cases "find (\<lambda>w. prefix w s) whitespace_chars")
    case (Some w)
    then have "w \<in> set whitespace_chars" "prefix w s" by (auto simp: find_Some_iff dest: nth_mem)
    with ne Some show ?thesis by (auto simp: whitespace_len_def)
  next
    case None
    then have "\<forall>w \<in> set whitespace_chars. \<not> prefix w s" by (auto simp: find_None_iff)
    with None show ?thesis by (simp add: whitespace_len_def)
  qed
qed

lemma whitespace_separator:
  assumes "whitespace_len (c # cs) = 0"
  shows "whitespace_len (c # cs @ CHR '' '' # rest) = 0"
  using assms unfolding whitespace_len_zero
  by (cases cs; cases "tl cs") (auto simp: whitespace_chars_def)

lemma whitespace_len_space [simp]: "whitespace_len (CHR '' '' # s) = 1"
  by (simp add: whitespace_len_def whitespace_chars_def)

lemma split_words_word:
  assumes "no_whitespace s"
  shows "split_words word s = (if word @ s = [] then [] else [word @ s])"
    "split_words word (s @ CHR '' '' # rest) = (if word @ s = [] then [] else [word @ s]) @ split_words [] rest"
  using assms by (induction s arbitrary: word) (auto simp: whitespace_separator)

fun spaced :: "string list \<Rightarrow> string" where
  "spaced [] = []"
| "spaced [w] = w"
| "spaced (w # v # ws) = w @ CHR '' '' # spaced (v # ws)"

lemma split_spaced: "list_all word_text ws \<Longrightarrow> split_whitespace (spaced ws) = ws"
  unfolding split_whitespace_def by (induction ws rule: spaced.induct) (auto simp: split_words_word word_text_def)

lemma no_whitespace_ascii_head:
  assumes "32 < (of_char c :: nat)" "(of_char c :: nat) < 128"
  shows "whitespace_len (c # cs) = 0"
proof -
  have "\<not> prefix w (c # cs)" if "w \<in> set whitespace_chars" for w
    using that assms by (auto simp: whitespace_chars_def)
  then show ?thesis by (simp add: whitespace_len_zero)
qed

lemma no_whitespace_ascii:
  "list_all (\<lambda>c. 32 < (of_char c :: nat) \<and> (of_char c :: nat) < 128) s \<Longrightarrow> no_whitespace s"
  by (induction s) (auto simp: no_whitespace_ascii_head)

lemma word_ascii:
  "s \<noteq> [] \<Longrightarrow> list_all (\<lambda>c. 32 < (of_char c :: nat) \<and> (of_char c :: nat) < 128) s \<Longrightarrow> word_text s"
  by (simp add: word_text_def no_whitespace_ascii)

lemma word_text_Cons [simp]: "word_text (c # cs) = no_whitespace (c # cs)"
  by (simp add: word_text_def)

lemma no_whitespace_Cons [simp]:
  "32 < (of_char c :: nat) \<Longrightarrow> (of_char c :: nat) < 128 \<Longrightarrow> no_whitespace (c # cs) = no_whitespace cs"
  using no_whitespace_ascii_head by simp

lemma word_decimal [simp]: "word_text (decimal n)"
  using digits_decimal [of n] by (intro word_ascii) (fastforce simp: digits_def list_all_iff)+

lemma split_words_length:
  "length (concat (split_words word s)) + (if no_whitespace s then 0 else 1) \<le> length word + length s"
proof (induction word s rule: split_words.induct)
  case (2 word c cs)
  then show ?case
    by (cases "whitespace_len (c # cs) = 0") (fastforce simp: Let_def split: if_splits)+
qed simp

lemma split_whitespace_word: "split_whitespace s = [s] \<longleftrightarrow> word_text s"
proof
  assume "split_whitespace s = [s]"
  then show "word_text s"
    using split_words_length [of "[]" s] by (cases s) (auto simp: split_whitespace_def word_text_def split: if_splits)
qed (simp add: split_whitespace_def word_text_def split_words_word)

declare no_whitespace.simps(2) [simp del]

section \<open>Lines\<close>

lemma split_lines_line:
  assumes "CHR 0x0A \<notin> set s"
  shows "split_lines line (s @ CHR 0x0A # rest) = strip_cr (line @ s) # split_lines [] rest"
  using assms by (induction s arbitrary: line) auto

definition line_text :: "string \<Rightarrow> bool" where
  "line_text s \<longleftrightarrow> CHR 0x0A \<notin> set s \<and> strip_cr s = s"

definition text_of_lines :: "string list \<Rightarrow> string" where
  "text_of_lines ls = concat (map (\<lambda>l. l @ [CHR 0x0A]) ls)"

lemma str_lines_text: "list_all line_text ls \<Longrightarrow> str_lines (text_of_lines ls) = ls"
  unfolding str_lines_def text_of_lines_def
  by (induction ls) (auto simp: split_lines_line line_text_def)

lemma no_whitespace_mem: "no_whitespace s \<Longrightarrow> c \<in> set s \<Longrightarrow> [c] \<notin> set whitespace_chars"
  by (induction s) (auto simp: whitespace_len_zero no_whitespace.simps)

lemma set_spaced: "set (spaced ws) \<subseteq> insert (CHR '' '') (\<Union> (set ` set ws))"
  by (induction ws rule: spaced.induct) auto

lemma line_of_words:
  assumes "list_all word_text ws"
  shows "line_text (spaced ws)"
proof -
  have "[c] \<notin> set whitespace_chars" if c: "c \<in> set (spaced ws)" "c \<noteq> CHR '' ''" for c
  proof -
    obtain w where "w \<in> set ws" "c \<in> set w" using c set_spaced [of ws] by blast
    with assms no_whitespace_mem [of w c] show ?thesis by (simp add: list_all_iff word_text_def)
  qed
  then have "c \<noteq> CHR 0x0A" "c \<noteq> CHR 0x0D" if "c \<in> set (spaced ws)" for c
    using that by (force simp: whitespace_chars_def)+
  then show ?thesis by (auto simp: line_text_def strip_cr_def)
qed

end
