(* ===== verification/Concurrent.thy ===== *)
theory Concurrent
  imports Ring
begin

text \<open>
  The concurrent publish/read protocol of \<open>crates/carriage/src/concurrent.rs\<close> over the owned in-process
  store.  The shared memory is the record \<open>ConcurrentRing\<close>.  The producer never reads it, so an operation
  of the producer returns its new private state and the list of the stores it performs, in program order.
  The consumer only loads: its code is a function of \<open>mem\<close>, where \<open>mem k\<close> is the memory that its \<open>k\<close>-th load
  observes, and returns the number of the next load with its outcome, since a load may happen at any moment
  of the producer's work.  The fences order the accesses on weak memory; here every access takes effect in
  program order, so they do nothing, and neither do the control-update brackets, which the owned store leaves
  at the trait's empty defaults.
\<close>

section \<open>The shared memory\<close>

record ConcurrentRing =
  cr_bytes :: byte_vec
  cr_capacity :: nat
  cr_head_abs :: nat
  cr_oldest_abs :: nat
  cr_lost_count :: nat

definition concurrent_ring_new :: "nat \<Rightarrow> (ConcurrentRing, 'e) outcome" where
  "concurrent_ring_new cap =
     (if 0 < cap then
        Ok \<lparr>cr_bytes = replicate cap 0, cr_capacity = cap, cr_head_abs = 0, cr_oldest_abs = 0, cr_lost_count = 0\<rparr>
      else Panic AssertionFailed)"

subsection \<open>Stores\<close>

datatype store_op =
    StoreByte nat u8
  | StoreHead nat
  | StoreOldest nat
  | AddLost nat

definition store_byte_relaxed :: "ConcurrentRing \<Rightarrow> nat \<Rightarrow> u8 \<Rightarrow> (ConcurrentRing, 'e) outcome" where
  "store_byte_relaxed ring phys v =
     (if phys < length (cr_bytes ring) then Ok (ring\<lparr>cr_bytes := (cr_bytes ring)[phys := v]\<rparr>)
      else Panic IndexOutOfBounds)"

definition store_head_release :: "ConcurrentRing \<Rightarrow> nat \<Rightarrow> ConcurrentRing" where
  "store_head_release ring v = ring\<lparr>cr_head_abs := v\<rparr>"

definition store_oldest_relaxed :: "ConcurrentRing \<Rightarrow> nat \<Rightarrow> ConcurrentRing" where
  "store_oldest_relaxed ring v = ring\<lparr>cr_oldest_abs := v\<rparr>"

definition fetch_add_lost_release :: "ConcurrentRing \<Rightarrow> nat \<Rightarrow> ConcurrentRing" where
  "fetch_add_lost_release ring v = ring\<lparr>cr_lost_count := (cr_lost_count ring + v) mod u64_limit\<rparr>"

fun perform :: "store_op \<Rightarrow> ConcurrentRing \<Rightarrow> (ConcurrentRing, 'e) outcome" where
  "perform (StoreByte phys v) ring = store_byte_relaxed ring phys v"
| "perform (StoreHead v) ring = Ok (store_head_release ring v)"
| "perform (StoreOldest v) ring = Ok (store_oldest_relaxed ring v)"
| "perform (AddLost v) ring = Ok (fetch_add_lost_release ring v)"

fun perform_all :: "store_op list \<Rightarrow> ConcurrentRing \<Rightarrow> (ConcurrentRing list, 'e) outcome" where
  "perform_all [] ring = Ok []"
| "perform_all (op # ops) ring =
     and_then (perform op ring) (\<lambda>ring. and_then (perform_all ops ring) (\<lambda>rings. Ok (ring # rings)))"

subsection \<open>Loads\<close>

type_synonym observed = "nat \<Rightarrow> ConcurrentRing"
type_synonym 'a loads = "nat \<times> ('a, RingError) outcome"

fun load_then :: "nat \<times> ('a, 'e) outcome \<Rightarrow> (nat \<Rightarrow> 'a \<Rightarrow> nat \<times> ('b, 'e) outcome) \<Rightarrow> nat \<times> ('b, 'e) outcome" where
  "load_then (k, Ok a) f = f k a"
| "load_then (k, Err e) f = (k, Err e)"
| "load_then (k, Panic p) f = (k, Panic p)"

lemma load_then_cong [fundef_cong]:
  assumes "x = y" and "\<And>k a. y = (k, Ok a) \<Longrightarrow> f k a = g k a"
  shows "load_then x f = load_then y g"
  using assms by (cases "(y, g)" rule: load_then.cases) auto

definition load_byte_relaxed :: "observed \<Rightarrow> nat \<Rightarrow> nat \<Rightarrow> u8 loads" where
  "load_byte_relaxed mem phys k = (Suc k, vec_index (cr_bytes (mem k)) phys)"

primrec load_bytes :: "observed \<Rightarrow> nat \<Rightarrow> nat \<Rightarrow> nat \<Rightarrow> byte_vec loads" where
  "load_bytes mem 0 phys k = (k, Ok [])"
| "load_bytes mem (Suc n) phys k =
     load_then (load_byte_relaxed mem phys k) (\<lambda>k b.
     load_then (load_bytes mem n (Suc phys) k) (\<lambda>k bs. (k, Ok (b # bs))))"

definition load_head_acquire :: "observed \<Rightarrow> nat \<Rightarrow> nat loads" where
  "load_head_acquire mem k = (Suc k, Ok (cr_head_abs (mem k)))"

definition load_oldest_acquire :: "observed \<Rightarrow> nat \<Rightarrow> nat loads" where
  "load_oldest_acquire mem k = (Suc k, Ok (cr_oldest_abs (mem k)))"

definition load_oldest_relaxed :: "observed \<Rightarrow> nat \<Rightarrow> nat loads" where
  "load_oldest_relaxed mem k = (Suc k, Ok (cr_oldest_abs (mem k)))"

definition load_lost_acquire :: "observed \<Rightarrow> nat \<Rightarrow> nat loads" where
  "load_lost_acquire mem k = (Suc k, Ok (cr_lost_count (mem k)))"

definition read_oldest_after_record :: "observed \<Rightarrow> nat \<Rightarrow> nat loads" where
  "read_oldest_after_record mem k = load_oldest_relaxed mem k"

definition read_control_snapshot :: "observed \<Rightarrow> nat \<Rightarrow> nat \<Rightarrow> ControlBlockSnapshot loads" where
  "read_control_snapshot mem cap k =
     load_then (load_head_acquire mem k) (\<lambda>k head_abs.
     load_then (load_oldest_acquire mem k) (\<lambda>k oldest_abs.
     load_then (load_lost_acquire mem k) (\<lambda>k lost_count.
       (k, Ok \<lparr>cb_version = 2, cb_caps = 0, cb_buffer_id = DEFAULT_BUFFER_ID,
               cb_buffer_bytes = (if cap < 2 ^ 32 then of_nat cap else - 1),
               cb_head_abs = of_nat head_abs, cb_oldest_abs = of_nat oldest_abs,
               cb_lost_count = of_nat lost_count, cb_run_id = 0, cb_epoch_id = 0, cb_epoch_first_abs = 0,
               cb_definition_hash = replicate 8 0, cb_prev_definition_hash = replicate 8 0\<rparr>))))"

section \<open>The reader\<close>

definition store_physical_offset :: "nat \<Rightarrow> nat \<Rightarrow> nat" where
  "store_physical_offset cap pos = pos mod cap"

lemma gap_advances: "0 < cap \<Longrightarrow> pos < pos + (cap - pos mod cap)" for pos cap :: nat
  using mod_less_divisor [of cap pos] by linarith

function (sequential) read_store_loop ::
  "observed \<Rightarrow> nat \<Rightarrow> nat \<Rightarrow> nat \<Rightarrow> nat \<Rightarrow> nat \<Rightarrow> ReadRecord list \<Rightarrow> ReadRecord list loads" where
  "read_store_loop mem cap head_abs first_oldest k pos records =
     (if pos < head_abs then
        if first_oldest > pos then (k, Err (OverwrittenMidRead pos first_oldest))
        else if cap = 0 then (k, Panic ArithmeticOverflow)  \<comment> \<open>remainder by zero\<close>
        else let phys = store_physical_offset cap pos in
          load_then (load_byte_relaxed mem phys k) (\<lambda>k first.
          if first = 0 then
            if phys = 0 then (k, Err (UnexpectedWrapMarker pos))
            else load_then (k, u64_add pos (cap - phys)) (\<lambda>k pos.
                   read_store_loop mem cap head_abs first_oldest k pos records)
          else if phys + HEADER_LEN > cap then (k, Err (RecordCrossesBoundary pos))
          else load_then (load_bytes mem 4 phys k) (\<lambda>k sync.
            if sync \<noteq> SYNC then (k, Err (RingWire WrongSync))
            else load_then (load_bytes mem 2 (phys + 4) k) (\<lambda>k len_field.
              let total_len = unat (from_le_bytes len_field :: u16) in
              if total_len < HEADER_LEN then (k, Err (RingWire (InvalidLength total_len (cap - phys))))
              else if phys + total_len > cap then (k, Err (RecordCrossesBoundary pos))
              else load_then (load_bytes mem total_len phys k) (\<lambda>k bytes.
                load_then (read_oldest_after_record mem k) (\<lambda>k oldest_after.
                if oldest_after > pos then (k, Err (OverwrittenMidRead pos oldest_after))
                else load_then (k, map_err RingWire (decode bytes)) (\<lambda>k decoded.
                  load_then (k, u64_add pos (dec_consumed decoded)) (\<lambda>k end_abs.
                  load_then (k, u64_add pos total_len) (\<lambda>k next_abs.
                    read_store_loop mem cap head_abs first_oldest k next_abs
                      (records @ [\<lparr>rr_start_abs = pos, rr_end_abs = end_abs,
                                   rr_record = dec_record decoded\<rparr>])))))))))
      else (k, Ok records))"
  by pat_completeness auto
termination
  by (relation "measure (\<lambda>(mem, cap, head_abs, first_oldest, k, pos, records). head_abs - pos)")
     (auto simp: outcome_simps load_byte_relaxed_def store_physical_offset_def HEADER_LEN_def
        simp del: add_diff_assoc intro!: diff_less_mono2 gap_advances)

text \<open>The reader is generic in the store; of its methods only \<open>read_control_snapshot\<close> differs between the
  stores, so the snapshot is an argument.\<close>

definition read_raw_with :: "ControlBlockSnapshot loads \<Rightarrow> observed \<Rightarrow> nat \<Rightarrow> nat \<Rightarrow> ReadBatch loads" where
  "read_raw_with snapshot mem cap cursor_abs =
     load_then snapshot (\<lambda>k snapshot.
     if unat (cb_buffer_bytes snapshot) \<noteq> cap
     then (k, Err (ControlBlockCapacityMismatch (cb_buffer_bytes snapshot) cap))
     else let first_oldest = unat (cb_oldest_abs snapshot);
              head_abs = unat (cb_head_abs snapshot);
              lapped = cursor_abs < first_oldest;
              pos = (if lapped then first_oldest else cursor_abs)
       in load_then (read_store_loop mem cap head_abs first_oldest k pos []) (\<lambda>k records.
          load_then (load_oldest_acquire mem k) (\<lambda>k final_oldest.
            if final_oldest \<noteq> first_oldest \<and> final_oldest > cursor_abs
            then (k, Err (OverwrittenMidRead cursor_abs final_oldest))
            else (k, Ok \<lparr>rb_records = records, rb_next_abs = head_abs, rb_lapped = lapped\<rparr>))))"

definition read_raw_from_store :: "observed \<Rightarrow> nat \<Rightarrow> nat \<Rightarrow> nat \<Rightarrow> ReadBatch loads" where
  "read_raw_from_store mem cap cursor_abs k = read_raw_with (read_control_snapshot mem cap k) mem cap cursor_abs"

section \<open>The producer\<close>

record ConcurrentProducer =
  cp_spans :: "(nat \<times> nat) list"
  cp_head_abs :: nat

definition producer_with_store :: ConcurrentProducer where
  "producer_with_store = \<lparr>cp_spans = [], cp_head_abs = 0\<rparr>"

definition next_start_abs :: "nat \<Rightarrow> ConcurrentProducer \<Rightarrow> nat \<Rightarrow> (nat, 'e) outcome" where
  "next_start_abs cap p encoded_len =
     (let start_phys = store_physical_offset cap (cp_head_abs p)
      in if start_phys = 0 \<or> start_phys + encoded_len \<le> cap then Ok (cp_head_abs p)
         else u64_add (cp_head_abs p) (cap - start_phys))"

fun pop_spans :: "nat \<Rightarrow> (nat \<times> nat) list \<Rightarrow> nat \<Rightarrow> ((nat \<times> nat) list \<times> nat, 'e) outcome" where
  "pop_spans retention_floor [] n = Ok ([], n)"
| "pop_spans retention_floor ((start_abs, end_abs) # spans) n =
     (if start_abs < retention_floor
      then and_then (u64_add n 1) (\<lambda>n. pop_spans retention_floor spans n)
      else Ok ((start_abs, end_abs) # spans, n))"

definition spans_evict_before_clobber ::
  "nat \<Rightarrow> ConcurrentProducer \<Rightarrow> nat \<Rightarrow> nat \<Rightarrow> (ConcurrentProducer \<times> store_op list, 'e) outcome" where
  "spans_evict_before_clobber cap p final_head next_record_start =
     (let retention_floor = final_head - cap
      in and_then (pop_spans retention_floor (cp_spans p) 0) (\<lambda>(spans, n).
           let new_oldest = (case spans of [] \<Rightarrow> next_record_start | (start_abs, _) # _ \<Rightarrow> start_abs)
           in Ok (p\<lparr>cp_spans := spans\<rparr>, (if n > 0 then [AddLost n] else []) @ [StoreOldest new_oldest])))"

definition append_bytes_core ::
  "nat \<Rightarrow> ConcurrentProducer \<Rightarrow> byte_vec \<Rightarrow> (ConcurrentProducer \<times> store_op list, 'e) outcome" where
  "append_bytes_core cap p bytes =
     (if \<not> length bytes \<le> cap then Panic AssertionFailed
      else let start_phys = store_physical_offset cap (cp_head_abs p)
      in and_then (next_start_abs cap p (length bytes)) (\<lambda>record_start_abs.
         and_then (u64_add record_start_abs (length bytes)) (\<lambda>final_head.
         and_then (spans_evict_before_clobber cap p final_head record_start_abs) (\<lambda>(p, evictions).
           let marker = (if record_start_abs \<noteq> cp_head_abs p then [StoreByte start_phys 0] else []);
               record_start = store_physical_offset cap record_start_abs;
               body = map (\<lambda>(i, byte). StoreByte (record_start + i) byte) (enumerate 0 bytes)
           in Ok (p\<lparr>cp_spans := cp_spans p @ [(record_start_abs, final_head)], cp_head_abs := final_head\<rparr>,
                  evictions @ marker @ body @ [StoreHead final_head])))))"

definition publish_record ::
  "nat \<Rightarrow> ConcurrentProducer \<Rightarrow> Record \<Rightarrow> (ConcurrentProducer \<times> store_op list, RingError) outcome" where
  "publish_record cap p r =
     and_then (map_err RingWire (encode r True)) (\<lambda>encoded.
       if length encoded > cap then Err (RecordExceedsCapacity (length encoded) cap)
       else append_bytes_core cap p encoded)"

definition append_encoded ::
  "nat \<Rightarrow> ConcurrentProducer \<Rightarrow> byte_vec \<Rightarrow> (ConcurrentProducer \<times> store_op list, RingError) outcome" where
  "append_encoded cap p bytes =
     (if length bytes < HEADER_LEN
      then (case validate_record bytes of
              Err e \<Rightarrow> Err (RingWire e) | Ok _ \<Rightarrow> Panic Unreachable | Panic q \<Rightarrow> Panic q)
      else and_then (read_le_u16 bytes 6) (\<lambda>flags.
        if flags AND FLAG_HAS_CRC = 0 then Err (EncodedRecordMissingCrc flags)
        else and_then (map_err RingWire (validate_record bytes)) (\<lambda>consumed.
          if consumed \<noteq> length bytes then Err (EncodedRecordLengthMismatch consumed (length bytes))
          else if length bytes > cap then Err (RecordExceedsCapacity (length bytes) cap)
          else append_bytes_core cap p bytes)))"

section \<open>The consumer\<close>

record ConcurrentRawConsumer =
  cc_cursor_abs :: nat
  cc_lapped_batches :: nat
  cc_overwritten_retries :: nat
  cc_rejected_records :: nat

definition consumer_with_store :: ConcurrentRawConsumer where
  "consumer_with_store =
     \<lparr>cc_cursor_abs = 0, cc_lapped_batches = 0, cc_overwritten_retries = 0, cc_rejected_records = 0\<rparr>"

definition poll_with ::
  "ReadBatch loads \<Rightarrow> observed \<Rightarrow> ConcurrentRawConsumer \<Rightarrow> (ConcurrentRawConsumer \<times> ReadBatch) loads" where
  "poll_with read mem c =
     (case read of
        (k, Ok batch) \<Rightarrow>
          load_then (k, if rb_lapped batch then u64_add (cc_lapped_batches c) 1 else Ok (cc_lapped_batches c))
            (\<lambda>k n. (k, Ok (c\<lparr>cc_lapped_batches := n, cc_cursor_abs := rb_next_abs batch\<rparr>, batch)))
      | (k, Err (OverwrittenMidRead _ oldest_abs)) \<Rightarrow>
          load_then (k, u64_add (cc_overwritten_retries c) 1)
            (\<lambda>k n. (k, Ok (c\<lparr>cc_cursor_abs := oldest_abs, cc_overwritten_retries := n\<rparr>,
                           \<lparr>rb_records = [], rb_next_abs = oldest_abs, rb_lapped = True\<rparr>)))
      | (k, Err (ControlBlock _)) \<Rightarrow>
          load_then (k, u64_add (cc_overwritten_retries c) 1)
            (\<lambda>k n. (k, Ok (c\<lparr>cc_overwritten_retries := n\<rparr>,
                           \<lparr>rb_records = [], rb_next_abs = cc_cursor_abs c, rb_lapped = False\<rparr>)))
      | (k, Err (RingWire e)) \<Rightarrow>
          load_then (load_oldest_acquire mem k) (\<lambda>k oldest.
            if oldest > cc_cursor_abs c then
              load_then (k, u64_add (cc_rejected_records c) 1)
                (\<lambda>k n. (k, Ok (c\<lparr>cc_cursor_abs := oldest, cc_rejected_records := n\<rparr>,
                               \<lparr>rb_records = [], rb_next_abs = oldest, rb_lapped = True\<rparr>)))
            else (k, Err (RingWire e)))
      | (k, Err error) \<Rightarrow> (k, Err error)
      | (k, Panic q) \<Rightarrow> (k, Panic q))"

definition concurrent_poll ::
  "observed \<Rightarrow> nat \<Rightarrow> ConcurrentRawConsumer \<Rightarrow> nat \<Rightarrow> (ConcurrentRawConsumer \<times> ReadBatch) loads" where
  "concurrent_poll mem cap c k = poll_with (read_raw_from_store mem cap (cc_cursor_abs c) k) mem c"

declare read_store_loop.simps [simp del]

section \<open>A computation depends only on the loads it makes\<close>

definition causal :: "(observed \<Rightarrow> nat \<Rightarrow> 'a loads) \<Rightarrow> bool" where
  "causal f \<longleftrightarrow> (\<forall>mem k. k \<le> fst (f mem k) \<and>
     (\<forall>mem'. (\<forall>j. k \<le> j \<longrightarrow> j < fst (f mem k) \<longrightarrow> mem' j = mem j) \<longrightarrow> f mem' k = f mem k))"

named_theorems causal_intros \<open>which consumer computations are causal\<close>

lemma causalD:
  assumes "causal f"
  shows "k \<le> fst (f mem k)" "(\<And>j. k \<le> j \<Longrightarrow> j < fst (f mem k) \<Longrightarrow> mem' j = mem j) \<Longrightarrow> f mem' k = f mem k"
  using assms by (simp_all add: causal_def)

lemma causal_pure [causal_intros]: "causal (\<lambda>mem k. (k, x))"
  by (simp add: causal_def)

lemma causal_if [causal_intros]: "(b \<Longrightarrow> causal f) \<Longrightarrow> (\<not> b \<Longrightarrow> causal g) \<Longrightarrow> causal (\<lambda>mem k. if b then f mem k else g mem k)"
  by (cases b) simp_all

lemma causal_load [causal_intros]:
  "causal (\<lambda>mem k. load_byte_relaxed mem phys k)" "causal (\<lambda>mem k. load_oldest_acquire mem k)"
  "causal (\<lambda>mem k. read_oldest_after_record mem k)" "causal (\<lambda>mem k. load_head_acquire mem k)" "causal (\<lambda>mem k. load_lost_acquire mem k)"
  by (simp_all add: causal_def load_byte_relaxed_def load_oldest_acquire_def load_head_acquire_def
      load_lost_acquire_def read_oldest_after_record_def load_oldest_relaxed_def)

lemma causal_bind [causal_intros]:
  assumes f: "causal f" and g: "\<And>a. causal (\<lambda>mem k. g mem k a)"
  shows "causal (\<lambda>mem k. load_then (f mem k) (g mem))"
  unfolding causal_def
proof (intro allI conjI impI)
  fix mem mem' :: observed and k
  note fD = causalD [OF f, of k mem]
  show "k \<le> fst (load_then (f mem k) (g mem))"
    using fD(1) causalD(1) [OF g, of "fst (f mem k)" mem] order.trans
    by (cases "(f mem k, g mem)" rule: load_then.cases) auto
  assume agree: "\<forall>j. k \<le> j \<longrightarrow> j < fst (load_then (f mem k) (g mem)) \<longrightarrow> mem' j = mem j"
  have mono: "fst (f mem k) \<le> fst (load_then (f mem k) (g mem))"
    using causalD(1) [OF g, of "fst (f mem k)" mem]
    by (cases "(f mem k, g mem)" rule: load_then.cases) auto
  have "f mem' k = f mem k" by (rule fD(2)) (use agree mono in auto)
  moreover have "g mem' k' a = g mem k' a" if a: "f mem k = (k', Ok a)" for k' a
  proof (rule causalD(2) [OF g])
    fix j assume "k' \<le> j" "j < fst (g mem k' a)"
    then show "mem' j = mem j" using agree fD(1) a by auto
  qed
  ultimately show "load_then (f mem' k) (g mem') = load_then (f mem k) (g mem)"
    by (cases "(f mem k, g mem)" rule: load_then.cases) auto
qed

lemma causal_load_bytes [causal_intros]: "causal (\<lambda>mem k. load_bytes mem n phys k)"
proof (induction n arbitrary: phys)
  case (Suc n)
  show ?case unfolding load_bytes.simps by (intro causal_intros Suc)
qed (simp add: causal_def)

lemma u64_add_advance:
  assumes "u64_add pos n = (Ok q :: (nat, RingError) outcome)" "0 < n" "pos < head"
  shows "head - q < head - pos"
  using assms by (auto simp: outcome_simps)

lemma causal_bind_pure:
  assumes "\<And>a. x = Ok a \<Longrightarrow> causal (\<lambda>mem k. g mem k a)"
  shows "causal (\<lambda>mem k. load_then (k, x) (g mem))"
  using assms by (cases x) (simp_all add: causal_pure)

lemma causal_read_store_loop [causal_intros]:
  "causal (\<lambda>mem k. read_store_loop mem cap head first_oldest k pos records)"
proof (induction "head - pos" arbitrary: pos records rule: less_induct)
  case less
  have IH: "causal (\<lambda>mem k. read_store_loop mem cap head first_oldest k q rs)"
    if "pos < head" "0 < n" "u64_add pos n = (Ok q :: (nat, RingError) outcome)" for q n rs
    using less [of q rs] u64_add_advance [OF that(3,2,1)] by simp
  show ?case
    by (subst read_store_loop.simps, unfold Let_def)
       (intro causal_if causal_pure causal_bind [OF causal_load(1)] causal_bind [OF causal_load(3)]
          causal_bind [OF causal_load_bytes] causal_bind_pure;
        (erule (1) IH [rotated 2], simp add: store_physical_offset_def HEADER_LEN_def))
qed

lemma causal_read_raw_from_store [causal_intros]:
  "causal (\<lambda>mem k. read_raw_from_store mem cap cursor k)"
  unfolding read_raw_from_store_def read_raw_with_def read_control_snapshot_def Let_def
  by (intro causal_intros)

section \<open>Reading stable bytes\<close>

definition agrees :: "observed \<Rightarrow> byte_vec \<Rightarrow> nat \<Rightarrow> nat \<Rightarrow> bool" where
  "agrees mem bs a h \<longleftrightarrow> (\<forall>j. length (cr_bytes (mem j)) = length bs \<and> cr_oldest_abs (mem j) \<le> a
     \<and> (\<forall>p. a \<le> p \<longrightarrow> p < h \<longrightarrow> cr_bytes (mem j) ! (p mod length bs) = bs ! (p mod length bs)))"

lemma agreesD:
  assumes "agrees mem bs a h"
  shows "length (cr_bytes (mem j)) = length bs" "cr_oldest_abs (mem j) \<le> a"
    "a \<le> p \<Longrightarrow> p < h \<Longrightarrow> cr_bytes (mem j) ! (p mod length bs) = bs ! (p mod length bs)"
  using assms by (simp_all add: agrees_def)

lemma load_byte_stable:
  assumes "agrees mem bs a h" "a \<le> p" "p < h" "0 < length bs"
  shows "load_byte_relaxed mem (p mod length bs) k = (Suc k, Ok (bs ! (p mod length bs)))"
  using agreesD(1) [OF assms(1), of k] agreesD(3) [OF assms(1-3), of k] assms(4) by (simp add: load_byte_relaxed_def)

lemma load_bytes_stable:
  assumes ag: "agrees mem bs a h" and p: "a \<le> p" "p + n \<le> h" "p mod length bs + n \<le> length bs" and ne: "0 < length bs"
  shows "load_bytes mem n (p mod length bs) k = (k + n, Ok (take n (drop (p mod length bs) bs)))"
  using p
proof (induction n arbitrary: p k)
  case (Suc n)
  have lt: "p mod length bs < length bs" using ne by simp
  have "load_bytes mem n (Suc (p mod length bs)) (Suc k) = (Suc k + n, Ok (take n (drop (Suc (p mod length bs)) bs)))"
  proof (cases n)
    case (Suc m)
    then have "Suc p mod length bs = Suc (p mod length bs)"
      using Suc.prems(3) by (simp add: mod_Suc)
    with Suc.IH [of "Suc p" "Suc k"] Suc.prems show ?thesis by simp
  qed simp
  with load_byte_stable [OF ag, of p k] Suc.prems ne show ?case by (simp add: take_drop_Cons [OF lt])
qed simp

lemma load_bytes_stable_from:
  assumes ag: "agrees mem bs a h" and p: "a \<le> p" "p + (m + n) \<le> h" "p mod length bs + (m + n) \<le> length bs"
    and n: "0 < n"
  shows "load_bytes mem n (p mod length bs + m) k = (k + n, Ok (take n (drop (p mod length bs + m) bs)))"
proof -
  have "(p + m) mod length bs = p mod length bs + m" using p n by (intro mod_shift) simp
  moreover have "0 < length bs" using p n by linarith
  ultimately show ?thesis using load_bytes_stable [OF ag, of "p + m" n k] p by simp
qed

lemma store_step_gap:
  assumes ag: "agrees mem bs a h" and p: "a \<le> p" "p < h" and g: "gap_ok bs p q" and q: "q < u64_limit"
    and fo: "fo \<le> a" and ne: "0 < length bs"
  shows "\<exists>k'. read_store_loop mem (length bs) h fo k p acc = read_store_loop mem (length bs) h fo k' q acc"
proof (cases "p = q")
  case False
  then have "p mod length bs \<noteq> 0" "q = p + (length bs - p mod length bs)" "bs ! (p mod length bs) = 0"
    using g by (auto simp: gap_ok_def)
  then show ?thesis
    using load_byte_stable [OF ag p ne, of k] p fo q ne
    by (intro exI [of _ "Suc k"], subst read_store_loop.simps)
       (simp add: store_physical_offset_def Let_def del: add_diff_assoc)
qed auto

lemma store_step_record:
  assumes ag: "agrees mem bs a h" and st: "stored bs x" and p: "a \<le> rr_start_abs x" "rr_end_abs x \<le> h"
    and h: "h < u64_limit" and fo: "fo \<le> a" and ne: "0 < length bs"
  shows "\<exists>k'. read_store_loop mem (length bs) h fo k (rr_start_abs x) acc
     = read_store_loop mem (length bs) h fo k' (rr_end_abs x) (acc @ [x])"
proof -
  let ?n = "record_len (rr_record x) True" and ?p = "rr_start_abs x" and ?c = "length bs"
  note hdr = stored_header [OF st]
  have n: "40 \<le> ?n" by (rule record_len_pos)
  have e: "rr_end_abs x = ?p + ?n" using st by (simp add: stored_def)
  have lt: "?p < h" using e p n by linarith
  have x: "\<lparr>rr_start_abs = ?p, rr_end_abs = ?p + ?n, rr_record = rr_record x\<rparr> = x"
    using e by (cases x) simp
  have l1: "load_byte_relaxed mem (?p mod ?c) k = (Suc k, Ok (bs ! (?p mod ?c)))" for k
    by (rule load_byte_stable [OF ag p(1) lt ne])
  have l4: "load_bytes mem 4 (?p mod ?c) k = (k + 4, Ok SYNC)" for k
    using load_bytes_stable [OF ag p(1), of 4 k] hdr(1,4) n e p ne by simp
  have ln: "load_bytes mem ?n (?p mod ?c) k = (k + ?n, Ok (take ?n (drop (?p mod ?c) bs)))" for k
    using load_bytes_stable [OF ag p(1), of ?n k] hdr(1) e p ne by simp
  have l2: "load_bytes mem 2 (?p mod ?c + 4) k = (k + 2, Ok (take 2 (drop (?p mod ?c + 4) bs)))" for k
    using load_bytes_stable_from [OF ag p(1), of 4 2 k] hdr(1) n e p by simp
  have two: "take 2 (drop (?p mod ?c + 4) bs) = [bs ! (?p mod ?c + 4), bs ! (?p mod ?c + 5)]"
    using hdr(2) by (simp add: numeral_2_eq_2 take_drop_Cons add.commute)
  have len: "unat (from_le_bytes (take 2 (drop (?p mod ?c + 4) bs)) :: u16) = ?n"
    using hdr(2,5,6) unfolding two by (simp add: read_le_u16_def add.commute)
  have old: "read_oldest_after_record mem k = (Suc k, Ok (cr_oldest_abs (mem k)))" "cr_oldest_abs (mem k) \<le> ?p" for k
    using agreesD(2) [OF ag, of k] p by (simp_all add: read_oldest_after_record_def load_oldest_relaxed_def)
  have dec: "decode (take ?n (drop (?p mod ?c) bs)) = Ok \<lparr>dec_record = rr_record x, dec_consumed = ?n\<rparr>"
    by (rule stored_decode [OF st])
  show ?thesis
    using lt fo p ne n hdr(1,2,3) e h
    by (intro exI, subst read_store_loop.simps)
       (simp add: store_physical_offset_def Let_def l1 l4 l2 len ln old(1) dec x HEADER_LEN_def old(2) [THEN leD])
qed

lemma store_loop_linked:
  assumes "linked bs p rs h" "agrees mem bs a h" "a \<le> p" "h < u64_limit" "fo \<le> a" "0 < length bs"
  shows "\<exists>k'. read_store_loop mem (length bs) h fo k p acc = (k', Ok (acc @ rs))"
  using assms(1,3)
proof (induction rs arbitrary: p k acc)
  case Nil
  then show ?case by (simp add: read_store_loop.simps)
next
  case (Cons x rs)
  note rest = assms(4-6)
  have b: "p \<le> rr_start_abs x" "rr_start_abs x < rr_end_abs x" "rr_end_abs x \<le> h"
    using linked_bounds [OF Cons.prems(1), of x] by auto
  obtain k1 where "read_store_loop mem (length bs) h fo k p acc = read_store_loop mem (length bs) h fo k1 (rr_start_abs x) acc"
    using store_step_gap [OF assms(2) Cons.prems(2), of "rr_start_abs x" fo k acc] Cons.prems b rest by auto
  also obtain k2 where "\<dots> = read_store_loop mem (length bs) h fo k2 (rr_end_abs x) (acc @ [x])"
    using store_step_record [OF assms(2), of x fo k1 acc] Cons.prems b rest by auto
  also obtain k3 where "\<dots> = (k3, Ok ((acc @ [x]) @ rs))"
    using Cons.IH [of "rr_end_abs x" k2 "acc @ [x]"] Cons.prems b by auto
  finally show ?case by simp
qed

section \<open>What the reader reports when it fails\<close>

definition fails_with :: "(nat \<Rightarrow> RingError \<Rightarrow> bool) \<Rightarrow> 'a loads \<Rightarrow> bool" where
  "fails_with P x \<longleftrightarrow> (\<forall>k e. x = (k, Err e) \<longrightarrow> P k e)"

lemma fails_with_then:
  assumes "fails_with P x" "\<And>k a. x = (k, Ok a) \<Longrightarrow> fails_with P (f k a)"
  shows "fails_with P (load_then x f)"
  using assms by (cases "(x, f)" rule: load_then.cases) (auto simp: fails_with_def)

lemma fails_with_if: "(b \<Longrightarrow> fails_with P x) \<Longrightarrow> (\<not> b \<Longrightarrow> fails_with P y) \<Longrightarrow> fails_with P (if b then x else y)"
  by simp

lemma fails_with_pure:
  "fails_with P (k, Ok a)" "P k e \<Longrightarrow> fails_with P (k, Err e)" "fails_with P (k, Panic q)"
  "fails_with P (k, u64_add m n)"
  by (simp_all add: fails_with_def)

lemma fails_with_load:
  "fails_with P (load_byte_relaxed mem phys k)" "fails_with P (load_oldest_acquire mem k)"
  "fails_with P (read_oldest_after_record mem k)"
  by (simp_all add: fails_with_def load_byte_relaxed_def load_oldest_acquire_def read_oldest_after_record_def
      load_oldest_relaxed_def)

lemma fails_with_load_bytes: "fails_with P (load_bytes mem n phys k)"
proof (induction n arbitrary: phys k)
  case (Suc n)
  show ?case unfolding load_bytes.simps by (intro fails_with_then fails_with_load fails_with_pure Suc)
qed (simp add: fails_with_pure)

lemma fails_with_decode: "(\<And>w. P k (RingWire w)) \<Longrightarrow> fails_with P (k, map_err RingWire (decode bytes))"
  by (auto simp: fails_with_def outcome_simps)

lemmas fails_with_intros = fails_with_then fails_with_if fails_with_pure fails_with_load fails_with_load_bytes
  fails_with_decode

lemma load_then_eq:
  "load_then x f = (k, r) \<longleftrightarrow> (\<exists>j a. x = (j, Ok a) \<and> f j a = (k, r)) \<or> (\<exists>e. x = (k, Err e) \<and> r = Err e)
     \<or> (\<exists>q. x = (k, Panic q) \<and> r = Panic q)"
  by (cases "(x, f)" rule: load_then.cases) auto

definition reader_error :: "observed \<Rightarrow> nat \<Rightarrow> nat \<Rightarrow> RingError \<Rightarrow> bool" where
  "reader_error mem pos k e \<longleftrightarrow>
     (\<exists>a old. e = OverwrittenMidRead a old \<and> pos < old \<and> 0 < k \<and> old = cr_oldest_abs (mem (k - 1)))
     \<or> (\<exists>a. e = UnexpectedWrapMarker a \<or> e = RecordCrossesBoundary a) \<or> (\<exists>w. e = RingWire w)"

lemma reader_error_intros:
  "reader_error mem pos k (UnexpectedWrapMarker a)" "reader_error mem pos k (RecordCrossesBoundary a)"
  "reader_error mem pos k (RingWire w)"
  "read_oldest_after_record mem j = (k, Ok old) \<Longrightarrow> pos < old \<Longrightarrow> reader_error mem pos k (OverwrittenMidRead a old)"
  by (auto simp: reader_error_def read_oldest_after_record_def load_oldest_relaxed_def)

lemma read_store_loop_error:
  assumes "fo \<le> pos" "c \<le> pos"
  shows "fails_with (reader_error mem c) (read_store_loop mem cap h fo k pos acc)"
  using assms
proof (induction "h - pos" arbitrary: pos k acc rule: less_induct)
  case less
  have IH: "fails_with (reader_error mem c) (read_store_loop mem cap h fo j q rs)"
    if "(k, u64_add pos n) = (l, Ok q :: (nat, RingError) outcome)" "0 < n" "pos < h" for j q rs n k l
    using less.hyps [of q j rs] u64_add_advance [of pos n q h] that less.prems by (auto simp: outcome_simps)
  show ?case
    apply (subst read_store_loop.simps, unfold Let_def)
    apply (intro fails_with_intros)
    apply (use less.prems in simp)
    apply (rule reader_error_intros)
    apply (erule IH, simp add: store_physical_offset_def, assumption)
    apply (rule reader_error_intros)+
    apply assumption
    apply (use less.prems in simp)
    apply (rule reader_error_intros)
    apply (erule IH, simp add: HEADER_LEN_def, assumption)
    done
qed

section \<open>No panic\<close>

lemma no_panic_then [no_panic]:
  "\<not> is_panic (snd x) \<Longrightarrow> (\<And>k a. x = (k, Ok a) \<Longrightarrow> \<not> is_panic (snd (f k a))) \<Longrightarrow> \<not> is_panic (snd (load_then x f))"
  by (cases "(x, f)" rule: load_then.cases) auto

lemma no_panic_snd_if [no_panic]:
  "(b \<Longrightarrow> \<not> is_panic (snd x)) \<Longrightarrow> (\<not> b \<Longrightarrow> \<not> is_panic (snd y)) \<Longrightarrow> \<not> is_panic (snd (if b then x else y))"
  by simp

lemma load_bytes_length: "load_bytes mem n phys k = (k', Ok bs) \<Longrightarrow> length bs = n"
  by (induction n arbitrary: phys k bs) (auto simp: load_then_eq)

lemma load_bytes_no_panic:
  assumes "\<And>j. length (cr_bytes (mem j)) = cap" "phys + n \<le> cap"
  shows "\<not> is_panic (snd (load_bytes mem n phys k))"
  using assms(2)
proof (induction n arbitrary: phys k)
  case (Suc n)
  then show ?case unfolding load_bytes.simps by (intro no_panic) (auto simp: load_byte_relaxed_def assms(1))
qed simp

lemma read_store_loop_no_panic:
  assumes mem: "\<And>j. length (cr_bytes (mem j)) = cap" and cap: "0 < cap" "h + cap \<le> u64_limit"
  shows "\<not> is_panic (snd (read_store_loop mem cap h fo k pos acc))"
proof (induction "h - pos" arbitrary: pos k acc rule: less_induct)
  case less
  let ?phys = "store_physical_offset cap pos"
  have phys: "?phys < cap" using cap by (simp add: store_physical_offset_def)
  have IH: "\<not> is_panic (snd (read_store_loop mem cap h fo j q rs))"
    if "(k, u64_add pos n) = (l, Ok q :: (nat, RingError) outcome)" "0 < n" "pos < h" for j q rs n k l
    using less.hyps [of q j rs] u64_add_advance [of pos n q h] that by auto
  have lim: "\<not> is_panic (snd (k, u64_add pos n))" if "pos < h" "n \<le> cap" for n k
    using that cap by simp
  have dec: "dec_consumed d \<le> cap" if "load_bytes mem n p k = (l, Ok bs)" "n \<le> cap"
    "(l', map_err RingWire (decode bs)) = (l'', Ok d)" for n p k l l' l'' bs d
    using that load_bytes_length [OF that(1)] by (auto simp: outcome_simps decode_eq_Ok)
  have nz: "\<not> is_panic (snd (load_byte_relaxed mem ?phys k))" for k
    by (simp add: load_byte_relaxed_def mem phys)
  have lb: "\<not> is_panic (snd (load_bytes mem n p k))" if "p + n \<le> cap" for n p k
    by (rule load_bytes_no_panic [OF mem that])
  have d0: "\<not> is_panic (snd (k, map_err RingWire (decode bs)))" for k bs using decode_not_panic by simp
  have old: "\<not> is_panic (snd (read_oldest_after_record mem k))" for k
    by (simp add: read_oldest_after_record_def load_oldest_relaxed_def)
  have cz: "(cap = 0) = False" using cap by simp
  show ?case
    apply (subst read_store_loop.simps, unfold Let_def)
    apply (intro no_panic nz old d0)
    apply ((simp add: cz; fail) | (rule lim, assumption, (simp; fail)) | (rule lb, (simp add: HEADER_LEN_def; fail))
      | (erule IH, (simp add: phys HEADER_LEN_def; fail), assumption) | (rule lim, assumption, erule dec, (simp; fail), assumption))+
    done
qed

end
