(* ===== verification/Publishing.thy ===== *)
theory Publishing
  imports Concurrent "HOL-Library.Sublist"
begin

text \<open>
  What a consumer may rely on, and what follows.  The locale \<open>publisher\<close> states the promises of the writing
  side over the whole history of the shared memory: published records are ordered and within 64 bits, at every
  moment the retained ones lie in the byte pool between the oldest offset and the head, offsets never move
  back, and a byte of that window never changes.  Inside it the reading side is proved once: a read that
  returns has seen a snapshot, a read that fails was overtaken, and the polls of a session deliver a
  subsequence of what was published.
\<close>

section \<open>What a publisher promises\<close>

definition entries_ok :: "ReadRecord list \<Rightarrow> bool" where
  "entries_ok es \<longleftrightarrow> sorted_wrt (\<lambda>x y. rr_end_abs x \<le> rr_start_abs y) es
     \<and> list_all (\<lambda>x. rr_start_abs x < rr_end_abs x \<and> rr_end_abs x < u64_limit) es
     \<and> (es \<noteq> [] \<longrightarrow> rr_start_abs (hd es) = 0)"

definition retained :: "ReadRecord list \<Rightarrow> ConcurrentRing \<Rightarrow> ReadRecord list" where
  "retained es m = [x \<leftarrow> es. cr_oldest_abs m \<le> rr_start_abs x \<and> rr_end_abs x \<le> cr_head_abs m]"

definition coherent :: "nat \<Rightarrow> ReadRecord list \<Rightarrow> ConcurrentRing \<Rightarrow> bool" where
  "coherent cap es m \<longleftrightarrow> length (cr_bytes m) = cap
     \<and> (if retained es m = [] then cr_head_abs m \<le> cr_oldest_abs m
        else rr_start_abs (hd (retained es m)) = cr_oldest_abs m
          \<and> linked (cr_bytes m) (cr_oldest_abs m) (retained es m) (cr_head_abs m))
     \<and> (cr_head_abs m = 0 \<or> cr_head_abs m \<in> rr_end_abs ` set es)
     \<and> (cr_oldest_abs m = 0 \<or> cr_oldest_abs m \<in> rr_start_abs ` set es)
     \<and> list_all (\<lambda>x. rr_start_abs x < cr_oldest_abs m \<longrightarrow> rr_end_abs x \<le> cr_head_abs m) es"

definition safe_step :: "nat \<Rightarrow> ConcurrentRing \<Rightarrow> ConcurrentRing \<Rightarrow> bool" where
  "safe_step cap m m' \<longleftrightarrow> cr_head_abs m \<le> cr_head_abs m' \<and> cr_oldest_abs m \<le> cr_oldest_abs m'
     \<and> (\<forall>p. cr_oldest_abs m' \<le> p \<longrightarrow> p < cr_head_abs m \<longrightarrow> cr_bytes m' ! (p mod cap) = cr_bytes m ! (p mod cap))"

definition schedule :: "'a list \<Rightarrow> (nat \<Rightarrow> nat) \<Rightarrow> bool" where
  "schedule H \<tau> \<longleftrightarrow> mono \<tau> \<and> (\<forall>k. \<tau> k < length H)"

definition view :: "ConcurrentRing list \<Rightarrow> (nat \<Rightarrow> nat) \<Rightarrow> observed" where
  "view H \<tau> k = H ! \<tau> k"

definition point :: "ReadRecord list \<Rightarrow> nat \<Rightarrow> bool" where
  "point es c \<longleftrightarrow> c = 0 \<or> c \<in> rr_start_abs ` set es \<or> c \<in> rr_end_abs ` set es"

lemma safe_step_refl [simp]: "safe_step cap m m"
  by (simp add: safe_step_def)

lemma safe_step_trans: "safe_step cap a b \<Longrightarrow> safe_step cap b c \<Longrightarrow> safe_step cap a c"
  by (auto simp: safe_step_def)

lemma safe_stepD:
  assumes "safe_step cap m m'"
  shows "cr_head_abs m \<le> cr_head_abs m'" "cr_oldest_abs m \<le> cr_oldest_abs m'"
    "cr_oldest_abs m' \<le> p \<Longrightarrow> p < cr_head_abs m \<Longrightarrow> cr_bytes m' ! (p mod cap) = cr_bytes m ! (p mod cap)"
  using assms by (simp_all add: safe_step_def)

lemma entry_order:
  assumes "entries_ok es" "x \<in> set es" "y \<in> set es" "rr_start_abs x < rr_end_abs y"
  shows "rr_end_abs x \<le> rr_end_abs y"
proof (cases "x = y")
  case False
  from assms(2) obtain i where i: "i < length es" "es ! i = x" by (auto simp: in_set_conv_nth)
  from assms(3) obtain j where j: "j < length es" "es ! j = y" by (auto simp: in_set_conv_nth)
  have s: "\<And>i j. i < j \<Longrightarrow> j < length es \<Longrightarrow> rr_end_abs (es ! i) \<le> rr_start_abs (es ! j)"
    and lt: "\<And>z. z \<in> set es \<Longrightarrow> rr_start_abs z < rr_end_abs z"
    using assms(1) by (simp_all add: entries_ok_def sorted_wrt_iff_nth_less list_all_iff)
  have "i \<noteq> j" using False i j by auto
  then consider "i < j" | "j < i" by linarith
  then show ?thesis
  proof cases
    case 1
    with s [of i j] lt [OF assms(3)] i j show ?thesis by simp
  next
    case 2
    with s [of j i] lt [OF assms(2)] i j assms(4) show ?thesis by simp
  qed
qed simp

lemma entry_order':
  assumes "entries_ok es" "x \<in> set es" "y \<in> set es" "rr_start_abs x < rr_start_abs y"
  shows "rr_end_abs x \<le> rr_start_abs y"
proof -
  from assms(2) obtain i where i: "i < length es" "es ! i = x" by (auto simp: in_set_conv_nth)
  from assms(3) obtain j where j: "j < length es" "es ! j = y" by (auto simp: in_set_conv_nth)
  have s: "\<And>i j. i < j \<Longrightarrow> j < length es \<Longrightarrow> rr_end_abs (es ! i) \<le> rr_start_abs (es ! j)"
    and lt: "\<And>z. z \<in> set es \<Longrightarrow> rr_start_abs z < rr_end_abs z"
    using assms(1) by (simp_all add: entries_ok_def sorted_wrt_iff_nth_less list_all_iff)
  have "\<not> j < i" using s [of j i] lt [OF assms(3)] assms(4) i j by auto
  moreover have "i \<noteq> j" using assms(4) i j by auto
  ultimately show ?thesis using s [of i j] i j by simp
qed

lemma coherent_entry:
  assumes "entries_ok es" "coherent cap es m" "x \<in> set es" "rr_start_abs x < cr_head_abs m"
  shows "rr_end_abs x \<le> cr_head_abs m"
  using assms entry_order [OF assms(1,3)] by (auto simp: coherent_def)

lemma coherent_points: "coherent cap es m \<Longrightarrow> point es (cr_head_abs m) \<and> point es (cr_oldest_abs m)"
  by (auto simp: coherent_def point_def)

lemma coherent_bounds:
  "entries_ok es \<Longrightarrow> coherent cap es m \<Longrightarrow> cr_head_abs m < u64_limit \<and> cr_oldest_abs m < u64_limit"
  by (fastforce simp: coherent_def entries_ok_def list_all_iff u64_limit_def)

lemma linked_from_point:
  assumes es: "entries_ok es" and co: "coherent cap es m" and c: "point es c"
    and b: "cr_oldest_abs m \<le> c" "c < cr_head_abs m"
  shows "linked (cr_bytes m) c [x \<leftarrow> es. c \<le> rr_start_abs x \<and> rr_end_abs x \<le> cr_head_abs m] (cr_head_abs m)"
proof -
  let ?rs = "retained es m" and ?h = "cr_head_abs m" and ?o = "cr_oldest_abs m"
  have ne: "?rs \<noteq> []" using co b by (auto simp: coherent_def)
  then have hd: "rr_start_abs (hd ?rs) = ?o" and lk: "linked (cr_bytes m) ?o ?rs ?h"
    using co by (simp_all add: coherent_def)
  have "[x \<leftarrow> ?rs. c \<le> rr_start_abs x] = [x \<leftarrow> es. c \<le> rr_start_abs x \<and> ?o \<le> rr_start_abs x \<and> rr_end_abs x \<le> ?h]"
    by (simp add: retained_def conj_ac)
  also have "\<dots> = [x \<leftarrow> es. c \<le> rr_start_abs x \<and> rr_end_abs x \<le> ?h]"
    using b(1) by (intro filter_cong) auto
  finally have eq: "[x \<leftarrow> ?rs. c \<le> rr_start_abs x] = \<dots>" .
  have hdin: "hd ?rs \<in> set ?rs" using ne by simp
  have hdes: "hd ?rs \<in> set es" using hdin unfolding retained_def by auto
  have "\<exists>x \<in> set ?rs. c = rr_start_abs x \<or> c = rr_end_abs x"
  proof (cases "c = ?o")
    case True
    then show ?thesis using hd hdin by metis
  next
    case False
    then have "c \<noteq> 0" "?o < c" using b by auto
    with c obtain x where x: "x \<in> set es" "c = rr_start_abs x \<or> c = rr_end_abs x" by (auto simp: point_def)
    have s: "rr_start_abs x \<le> c" using x es by (auto simp: entries_ok_def list_all_iff intro: less_imp_le)
    with b have "rr_end_abs x \<le> ?h" using coherent_entry [OF es co x(1)] by simp
    moreover have "?o \<le> rr_start_abs x"
    proof (rule ccontr)
      assume "\<not> ?o \<le> rr_start_abs x"
      then have lt: "rr_start_abs x < rr_start_abs (hd ?rs)" using hd by simp
      then have "rr_end_abs x \<le> ?o" using entry_order' [OF es x(1) hdes] hd by simp
      with x(2) lt hd \<open>?o < c\<close> show False by auto
    qed
    ultimately show ?thesis using x by (auto simp: retained_def)
  qed
  then show ?thesis using linked_from [OF lk] eq by metis
qed

lemma no_entries_past_head:
  assumes "entries_ok es"
  shows "h \<le> c \<Longrightarrow> [x \<leftarrow> es. c \<le> rr_start_abs x \<and> rr_end_abs x \<le> h] = []"
  using assms by (auto simp: filter_empty_conv entries_ok_def list_all_iff)

locale publisher =
  fixes published :: "nat \<Rightarrow> ConcurrentRing list \<Rightarrow> ReadRecord list \<Rightarrow> bool"
  assumes capacity_law: "published cap H es \<Longrightarrow> 0 < cap"
    and entries_law: "published cap H es \<Longrightarrow> entries_ok es"
    and coherent_law: "published cap H es \<Longrightarrow> m \<in> set H \<Longrightarrow> coherent cap es m"
    and safe_law: "published cap H es \<Longrightarrow> sorted_wrt (safe_step cap) H"
begin

lemma view_coherent: "published cap H es \<Longrightarrow> schedule H \<tau> \<Longrightarrow> coherent cap es (view H \<tau> k)"
  by (rule coherent_law) (auto simp: view_def schedule_def)

lemma view_safe:
  assumes "published cap H es" "schedule H \<tau>" "j \<le> k"
  shows "safe_step cap (view H \<tau> j) (view H \<tau> k)"
proof -
  have "\<tau> j \<le> \<tau> k" "\<tau> k < length H" using assms(2,3) by (auto simp: schedule_def mono_def)
  then show ?thesis
    using safe_law [OF assms(1)] by (cases "\<tau> j = \<tau> k") (auto simp: view_def sorted_wrt_iff_nth_less)
qed

lemma stable_loop:
  assumes pub: "published cap H es" and sch: "schedule H \<tau>" and c: "point es c"
    and run: "read_store_loop (view H \<tau>) cap (cr_head_abs (view H \<tau> k)) fo j c [] = (k', r)"
    and j: "k \<le> j" "k \<le> k3" "k' \<le> Suc k3" and fo: "fo \<le> c" "cr_oldest_abs (view H \<tau> k) \<le> c"
    and old: "cr_oldest_abs (view H \<tau> k3) \<le> c"
  shows "r = Ok [x \<leftarrow> es. c \<le> rr_start_abs x \<and> rr_end_abs x \<le> cr_head_abs (view H \<tau> k)]"
proof -
  let ?m = "view H \<tau> k" 
  let ?h = "cr_head_abs ?m"
  note es = entries_law [OF pub] and co = view_coherent [OF pub sch]
  show ?thesis
  proof (cases "c < ?h")
    case False
    then show ?thesis using run no_entries_past_head [OF es, of ?h c] by (simp add: read_store_loop.simps)
  next
    case True
    define mem where "mem i = view H \<tau> (if j \<le> i \<and> i < k' then i else k3)" for i
    have lk: "linked (cr_bytes ?m) c [x \<leftarrow> es. c \<le> rr_start_abs x \<and> rr_end_abs x \<le> ?h] ?h"
      by (rule linked_from_point [OF es co c fo(2) True])
    have ag: "agrees mem (cr_bytes ?m) c ?h"
      unfolding agrees_def
    proof (intro allI conjI impI)
      fix i p
      define l where "l = (if j \<le> i \<and> i < k' then i else k3)"
      have l: "k \<le> l" "l \<le> k3" using j by (auto simp: l_def)
      have lo: "cr_oldest_abs (view H \<tau> l) \<le> c" using safe_stepD(2) [OF view_safe [OF pub sch l(2)]] old by simp
      show "length (cr_bytes (mem i)) = length (cr_bytes ?m)" "cr_oldest_abs (mem i) \<le> c"
        using co lo by (auto simp: mem_def l_def coherent_def)
      assume "c \<le> p" "p < ?h"
      then show "cr_bytes (mem i) ! (p mod length (cr_bytes ?m)) = cr_bytes ?m ! (p mod length (cr_bytes ?m))"
        using safe_stepD(3) [OF view_safe [OF pub sch l(1)], of p] lo co [of k]
        by (auto simp: mem_def l_def coherent_def)
    qed
    have "?h < u64_limit" using coherent_bounds [OF es co [of k]] by simp
    moreover have "length (cr_bytes ?m) = cap" "0 < cap" using co [of k] capacity_law [OF pub] by (simp_all add: coherent_def)
    ultimately obtain k2 where
      "read_store_loop mem cap ?h fo j c [] = (k2, Ok [x \<leftarrow> es. c \<le> rr_start_abs x \<and> rr_end_abs x \<le> ?h])"
      using store_loop_linked [OF lk ag order.refl _ fo(1), of j "[]"] by auto
    moreover have "read_store_loop mem cap ?h fo j c [] = read_store_loop (view H \<tau>) cap ?h fo j c []"
      using causalD(2) [OF causal_read_store_loop, of j "view H \<tau>" cap ?h fo c "[]" mem] run
      by (simp add: mem_def)
    ultimately show ?thesis using run by simp
  qed
qed

end

lemma read_raw_with_eq:
  assumes "unat (cb_buffer_bytes s) = cap" "unat (cb_head_abs s) = h" "unat (cb_oldest_abs s) = fo"
  shows "read_raw_with (k, Ok s) mem cap c =
    load_then (read_store_loop mem cap h fo k (max c fo) []) (\<lambda>k records.
      load_then (load_oldest_acquire mem k) (\<lambda>k final_oldest.
        if final_oldest \<noteq> fo \<and> final_oldest > c then (k, Err (OverwrittenMidRead c final_oldest))
        else (k, Ok \<lparr>rb_records = records, rb_next_abs = h, rb_lapped = (c < fo)\<rparr>)))"
proof -
  have "(if c < fo then fo else c) = max c fo" by (simp add: max_def)
  then show ?thesis using assms by (simp add: read_raw_with_def Let_def)
qed

text \<open>What a store's snapshot promises: a head and an oldest offset that were in the memory at moments of the
  call, the head no later than the oldest offset, or a control-block error.\<close>

definition takes_snapshot :: "observed \<Rightarrow> nat \<Rightarrow> (nat \<Rightarrow> ControlBlockSnapshot loads) \<Rightarrow> bool" where
  "takes_snapshot mem cap snapshot \<longleftrightarrow> (\<forall>k k' r. snapshot k = (k', r) \<longrightarrow> k < k'
     \<and> (case r of
          Ok s \<Rightarrow> unat (cb_buffer_bytes s) = cap \<and> (\<exists>i j. k \<le> i \<and> i \<le> j \<and> j < k'
            \<and> unat (cb_head_abs s) = cr_head_abs (mem i) \<and> unat (cb_oldest_abs s) = cr_oldest_abs (mem j))
        | Err e \<Rightarrow> (\<exists>b. e = ControlBlock b)
        | Panic q \<Rightarrow> False))"

lemma takes_snapshotD:
  assumes "takes_snapshot mem cap snapshot" "snapshot k = (k', r)"
  shows "k < k'" "\<not> is_panic r" "r = Err e \<Longrightarrow> \<exists>b. e = ControlBlock b"
    "r = Ok s \<Longrightarrow> unat (cb_buffer_bytes s) = cap \<and> (\<exists>i j. k \<le> i \<and> i \<le> j \<and> j < k'
       \<and> unat (cb_head_abs s) = cr_head_abs (mem i) \<and> unat (cb_oldest_abs s) = cr_oldest_abs (mem j))"
  using assms by (cases r; fastforce simp: takes_snapshot_def)+

context publisher
begin

lemma store_read_with:
  assumes pub: "published cap H es" and sch: "schedule H \<tau>" and c: "point es c"
    and s: "unat (cb_buffer_bytes s) = cap" "unat (cb_head_abs s) = cr_head_abs (view H \<tau> i)"
      "unat (cb_oldest_abs s) = cr_oldest_abs (view H \<tau> j)" "i \<le> j" "j < k"
    and run: "read_raw_with (k, Ok s) (view H \<tau>) cap c = (k', r)"
  defines "fo \<equiv> cr_oldest_abs (view H \<tau> j)" and "h \<equiv> cr_head_abs (view H \<tau> i)"
  shows "k \<le> k'" "r = Ok batch \<Longrightarrow> batch = \<lparr>rb_records = [x \<leftarrow> es. max c fo \<le> rr_start_abs x \<and> rr_end_abs x \<le> h],
           rb_next_abs = h, rb_lapped = (c < fo)\<rparr>"
    "r = Err e \<Longrightarrow> c < cr_oldest_abs (view H \<tau> (k' - 1)) \<and> reader_error (view H \<tau>) c k' e"
proof -
  let ?mem = "view H \<tau>"
  note es = entries_law [OF pub] and co = view_coherent [OF pub sch]
  have pt: "point es (max c fo)" using c coherent_points [OF co [of j]] by (simp add: fo_def max_def)
  have old: "cr_oldest_abs (?mem i) \<le> max c fo"
    using safe_stepD(2) [OF view_safe [OF pub sch s(4)]] by (simp add: fo_def)
  obtain k2 r2 where loop: "read_store_loop ?mem cap h fo k (max c fo) [] = (k2, r2)" by (metis surj_pair)
  have k2: "k \<le> k2" using causalD(1) [OF causal_read_store_loop, of k ?mem cap h fo "max c fo" "[]"] loop by simp
  note run' = run [unfolded read_raw_with_eq [OF s(1-3)], folded fo_def h_def, simplified loop]
  note stable = stable_loop [OF pub sch pt loop [unfolded h_def] _ _ _ _ old, folded h_def]
  show "k \<le> k'" using run' k2 by (cases r2) (auto simp: load_oldest_acquire_def split: if_splits)
  { assume r: "r = Ok batch"
    then obtain recs where recs: "r2 = Ok recs" and final: "\<not> (cr_oldest_abs (?mem k2) \<noteq> fo \<and> cr_oldest_abs (?mem k2) > c)"
      and b: "batch = \<lparr>rb_records = recs, rb_next_abs = h, rb_lapped = (c < fo)\<rparr>"
      using run' by (cases r2) (auto simp: load_oldest_acquire_def split: if_splits)
    have "cr_oldest_abs (?mem k2) \<le> max c fo" using final by auto
    from stable [OF _ _ _ _ this] k2 recs s(4,5)
    have "recs = [x \<leftarrow> es. max c fo \<le> rr_start_abs x \<and> rr_end_abs x \<le> h]" by simp
    with b show "batch = \<lparr>rb_records = [x \<leftarrow> es. max c fo \<le> rr_start_abs x \<and> rr_end_abs x \<le> h],
           rb_next_abs = h, rb_lapped = (c < fo)\<rparr>" by simp }
  { assume r: "r = Err e"
    show "c < cr_oldest_abs (?mem (k' - 1)) \<and> reader_error ?mem c k' e"
    proof (cases r2)
      case (Ok recs)
      with run' r show ?thesis by (auto simp: load_oldest_acquire_def reader_error_def split: if_splits)
    next
      case (Err e')
      then have e: "k' = k2" "e = e'" using run' r by auto
      have "\<not> cr_oldest_abs (?mem (k2 - 1)) \<le> max c fo"
        using stable [of "k2 - 1"] k2 s(4,5) Err by force
      then have "c < cr_oldest_abs (?mem (k' - 1))" using e by simp
      moreover have "fails_with (reader_error ?mem c) (read_store_loop ?mem cap h fo k (max c fo) [])"
        by (rule read_store_loop_error) auto
      then have "reader_error ?mem c k' e" using loop Err e by (simp add: fails_with_def)
      ultimately show ?thesis by simp
    qed (use run' r in auto) }
qed

lemma poll_with_spec:
  assumes pub: "published cap H es" and sch: "schedule H \<tau>" and c: "point es (cc_cursor_abs c)"
    and snap: "takes_snapshot (view H \<tau>) cap snapshot"
    and run: "poll_with (read_raw_with (snapshot k) (view H \<tau>) cap (cc_cursor_abs c)) (view H \<tau>) c = (k', Ok (c', batch))"
  obtains (read) i j where "k \<le> i" "i \<le> j" "j < k'" "batch = \<lparr>rb_records = [x \<leftarrow> es. max (cc_cursor_abs c)
         (cr_oldest_abs (view H \<tau> j)) \<le> rr_start_abs x \<and> rr_end_abs x \<le> cr_head_abs (view H \<tau> i)],
         rb_next_abs = cr_head_abs (view H \<tau> i), rb_lapped = (cc_cursor_abs c < cr_oldest_abs (view H \<tau> j))\<rparr>"
      "cc_cursor_abs c' = cr_head_abs (view H \<tau> i)"
    | (lapped) "k < k'" "rb_records batch = []" "rb_lapped batch" "cc_cursor_abs c < cc_cursor_abs c'"
        "cc_cursor_abs c' = cr_oldest_abs (view H \<tau> (k' - 1))"
    | (busy) "k < k'" "rb_records batch = []" "\<not> rb_lapped batch" "cc_cursor_abs c' = cc_cursor_abs c"
proof -
  let ?mem = "view H \<tau>"
  obtain k0 r0 where sn: "snapshot k = (k0, r0)" by (metis surj_pair)
  note S = takes_snapshotD [OF snap sn]
  show thesis
  proof (cases r0)
    case (Err e)
    with S(3) [OF Err] run sn S(1) show thesis
      by (intro busy) (auto simp: read_raw_with_def poll_with_def load_then_eq outcome_simps)
  next
    case (Ok s)
    from S(4) [OF Ok] obtain i j where s: "unat (cb_buffer_bytes s) = cap" "k \<le> i" "i \<le> j" "j < k0"
      "unat (cb_head_abs s) = cr_head_abs (?mem i)" "unat (cb_oldest_abs s) = cr_oldest_abs (?mem j)" by blast
    obtain k1 r1 where rd: "read_raw_with (k0, Ok s) ?mem cap (cc_cursor_abs c) = (k1, r1)" by (metis surj_pair)
    note R = store_read_with [OF pub sch c s(1,5,6,3,4) rd]
    note run' = run [unfolded sn Ok rd]
    show thesis
    proof (cases r1)
      case (Ok b)
      from R(2) [OF Ok] R(1) Ok run' s show thesis
        by (intro read [of i j]) (auto simp: poll_with_def outcome_simps load_then_eq split: if_splits)
    next
      case (Err e)
      note R3 = R(3) [OF Err]
      then consider (ow) a old where "e = OverwrittenMidRead a old" "cc_cursor_abs c < old" "old = cr_oldest_abs (?mem (k1 - 1))"
        | (hard) a where "e = UnexpectedWrapMarker a \<or> e = RecordCrossesBoundary a" | (wire) w where "e = RingWire w"
        by (auto simp: reader_error_def)
      then show thesis
      proof cases
        case ow
        with R(1) Err run' S(1) show thesis by (intro lapped) (auto simp: poll_with_def outcome_simps load_then_eq)
      next
        case hard
        with Err run' show thesis by (auto simp: poll_with_def)
      next
        case wire
        with R(1) Err run' S(1) show thesis
          by (intro lapped) (auto simp: poll_with_def outcome_simps load_then_eq load_oldest_acquire_def split: if_splits)
      qed
    qed (use run' in \<open>auto simp: poll_with_def\<close>)
  qed (use S(2) in simp)
qed

lemma poll_with_error:
  assumes pub: "published cap H es" and sch: "schedule H \<tau>" and c: "point es (cc_cursor_abs c)"
    and snap: "takes_snapshot (view H \<tau>) cap snapshot"
    and run: "poll_with (read_raw_with (snapshot k) (view H \<tau>) cap (cc_cursor_abs c)) (view H \<tau>) c = (k', Err e)"
  shows "(\<exists>a. e = UnexpectedWrapMarker a \<or> e = RecordCrossesBoundary a)
     \<and> cc_cursor_abs c < cr_oldest_abs (view H \<tau> (k' - 1))"
proof -
  let ?mem = "view H \<tau>"
  obtain k0 r0 where sn: "snapshot k = (k0, r0)" by (metis surj_pair)
  note S = takes_snapshotD [OF snap sn]
  obtain s where Ok: "r0 = Ok s"
    using S(2,3) run sn
    by (cases r0) (auto simp: read_raw_with_def poll_with_def load_then_eq outcome_simps)
  from S(4) [OF Ok] obtain i j where s: "unat (cb_buffer_bytes s) = cap" "k \<le> i" "i \<le> j" "j < k0"
    "unat (cb_head_abs s) = cr_head_abs (?mem i)" "unat (cb_oldest_abs s) = cr_oldest_abs (?mem j)" by blast
  obtain k1 r1 where read: "read_raw_with (k0, Ok s) ?mem cap (cc_cursor_abs c) = (k1, r1)" by (metis surj_pair)
  note R = store_read_with [OF pub sch c s(1,5,6,3,4) read]
  note run' = run [unfolded sn Ok read]
  from run' obtain e1 where r1: "r1 = Err e1"
    by (cases r1) (auto simp: poll_with_def outcome_simps load_then_eq split: if_splits)
  note R3 = R(3) [OF r1]
  have le: "cr_oldest_abs (?mem (k1 - 1)) \<le> cr_oldest_abs (?mem k1)"
    by (rule safe_stepD(2) [OF view_safe [OF pub sch]]) simp
  from R3 show ?thesis
    using run' r1 le
    by (auto simp: reader_error_def poll_with_def outcome_simps load_then_eq load_oldest_acquire_def split: if_splits)
qed

end

primrec poll_many_with ::
  "(nat \<Rightarrow> ControlBlockSnapshot loads) \<Rightarrow> observed \<Rightarrow> nat \<Rightarrow> nat \<Rightarrow> ConcurrentRawConsumer \<Rightarrow> nat
     \<Rightarrow> (ConcurrentRawConsumer \<times> ReadBatch list) loads" where
  "poll_many_with snapshot mem cap 0 c k = (k, Ok (c, []))"
| "poll_many_with snapshot mem cap (Suc n) c k =
     load_then (poll_many_with snapshot mem cap n c k) (\<lambda>k (c, batches).
     load_then (poll_with (read_raw_with (snapshot k) mem cap (cc_cursor_abs c)) mem c) (\<lambda>k (c, batch).
       (k, Ok (c, batches @ [batch]))))"

definition poll_many ::
  "observed \<Rightarrow> nat \<Rightarrow> nat \<Rightarrow> ConcurrentRawConsumer \<Rightarrow> nat \<Rightarrow> (ConcurrentRawConsumer \<times> ReadBatch list) loads" where
  "poll_many mem cap n c k = poll_many_with (read_control_snapshot mem cap) mem cap n c k"

lemma poll_many_simps [simp]:
  "poll_many mem cap 0 c k = (k, Ok (c, []))"
  "poll_many mem cap (Suc n) c k =
     load_then (poll_many mem cap n c k) (\<lambda>k (c, batches).
     load_then (concurrent_poll mem cap c k) (\<lambda>k (c, batch). (k, Ok (c, batches @ [batch]))))"
  by (simp_all add: poll_many_def concurrent_poll_def read_raw_from_store_def)

definition delivered :: "ReadBatch list \<Rightarrow> ReadRecord list" where
  "delivered batches = concat (map rb_records batches)"

lemma sorted_wrt_subseq:
  assumes "subseq xs ys" "sorted_wrt P ys"
  shows "sorted_wrt P xs"
  using assms by (induction rule: list_emb.induct) (auto dest: list_emb_set)

lemma sorted_filter_split:
  fixes f :: "'a \<Rightarrow> nat"
  assumes "sorted_wrt (\<lambda>x y. f x \<le> f y) xs"
  shows "[x \<leftarrow> xs. f x < c] @ [x \<leftarrow> xs. c \<le> f x] = xs"
  using assms
proof (induction xs)
  case (Cons x xs)
  show ?case
  proof (cases "f x < c")
    case False
    then have "[y \<leftarrow> xs. f y < c] = []" using Cons.prems by (fastforce simp: filter_empty_conv)
    with False Cons show ?thesis by (simp add: not_less)
  qed (use Cons in simp)
qed simp

lemma entries_sorted: "entries_ok es \<Longrightarrow> sorted_wrt (\<lambda>x y. rr_start_abs x \<le> rr_start_abs y) es"
  unfolding entries_ok_def sorted_wrt_iff_nth_less list_all_length by (meson less_imp_le order.trans order.strict_trans)

definition settled :: "ReadRecord list \<Rightarrow> nat \<Rightarrow> nat \<Rightarrow> bool" where
  "settled es c h \<longleftrightarrow> point es c \<and> list_all (\<lambda>x. rr_start_abs x < c \<longrightarrow> rr_end_abs x \<le> h) es"

lemma settled_mono: "settled es c h \<Longrightarrow> h \<le> h' \<Longrightarrow> settled es c h'"
  by (auto simp: settled_def list_all_iff)

lemma coherent_settled:
  assumes "entries_ok es" "coherent cap es m"
  shows "settled es (cr_head_abs m) (cr_head_abs m)" "settled es (cr_oldest_abs m) (cr_head_abs m)"
  using coherent_points [OF assms(2)] coherent_entry [OF assms] assms(2)
  by (auto simp: settled_def list_all_iff coherent_def)

lemma deliver_next:
  assumes es: "entries_ok es" and c: "settled es c h" and h: "settled es h h"
  shows "[x \<leftarrow> es. rr_start_abs x < h] = [x \<leftarrow> es. rr_start_abs x < c] @ [x \<leftarrow> es. c \<le> rr_start_abs x \<and> rr_end_abs x \<le> h]"
proof -
  let ?L = "[x \<leftarrow> es. rr_end_abs x \<le> h]"
  have lt: "rr_start_abs x < rr_end_abs x" if "x \<in> set es" for x
    using es that by (simp add: entries_ok_def list_all_iff)
  have "sorted_wrt (\<lambda>x y. rr_start_abs x \<le> rr_start_abs y) ?L"
    using entries_sorted [OF es] by (rule sorted_wrt_filter)
  from sorted_filter_split [OF this, of c]
  have "?L = [x \<leftarrow> es. rr_end_abs x \<le> h \<and> rr_start_abs x < c] @ [x \<leftarrow> es. c \<le> rr_start_abs x \<and> rr_end_abs x \<le> h]"
    by (simp add: conj_ac)
  moreover have "[x \<leftarrow> es. rr_end_abs x \<le> h \<and> rr_start_abs x < c] = [x \<leftarrow> es. rr_start_abs x < c]"
    using c by (intro filter_cong) (auto simp: settled_def list_all_iff)
  moreover have "?L = [x \<leftarrow> es. rr_start_abs x < h]"
    using h lt by (intro filter_cong) (force simp: settled_def list_all_iff)+
  ultimately show ?thesis by simp
qed

text \<open>Polls with any other work between them: the next poll starts at a later load.\<close>

inductive polled ::
  "(nat \<Rightarrow> ControlBlockSnapshot loads) \<Rightarrow> observed \<Rightarrow> nat \<Rightarrow> nat \<Rightarrow> ConcurrentRawConsumer \<Rightarrow> ReadBatch list \<Rightarrow> bool"
  for snapshot mem cap where
  start: "polled snapshot mem cap k consumer_with_store []"
| wait: "polled snapshot mem cap k c batches \<Longrightarrow> k \<le> k' \<Longrightarrow> polled snapshot mem cap k' c batches"
| poll: "polled snapshot mem cap k c batches \<Longrightarrow>
     poll_with (read_raw_with (snapshot k) mem cap (cc_cursor_abs c)) mem c = (k', Ok (c', batch)) \<Longrightarrow>
     polled snapshot mem cap k' c' (batches @ [batch])"

lemma polled_many:
  "poll_many_with snapshot mem cap n consumer_with_store 0 = (k, Ok (c, batches)) \<Longrightarrow> polled snapshot mem cap k c batches"
  by (induction n arbitrary: k c batches) (auto simp: load_then_eq intro: polled.intros)

context publisher
begin

lemma polled_delivery:
  assumes pub: "published cap H es" and sch: "schedule H \<tau>" and snap: "takes_snapshot (view H \<tau>) cap snapshot"
    and run: "polled snapshot (view H \<tau>) cap k c batches"
  shows "settled es (cc_cursor_abs c) (cr_head_abs (view H \<tau> k))
     \<and> subseq (delivered batches) [x \<leftarrow> es. rr_start_abs x < cc_cursor_abs c]
     \<and> (\<not> list_ex rb_lapped batches \<longrightarrow> delivered batches = [x \<leftarrow> es. rr_start_abs x < cc_cursor_abs c])
     \<and> (\<forall>x \<in> set es. cr_oldest_abs (view H \<tau> k) \<le> rr_start_abs x \<longrightarrow> rr_start_abs x < cc_cursor_abs c \<longrightarrow> x \<in> set (delivered batches))"
  using run
proof (induction rule: polled.induct)
  case (start k)
  then show ?case by (auto simp: consumer_with_store_def settled_def point_def delivered_def list_all_iff)
next
  case (wait k c batches k')
  then show ?case
    using settled_mono [of es _ "cr_head_abs (view H \<tau> k)"] safe_stepD(1,2) [OF view_safe [OF pub sch wait.hyps(2)]] by (meson order.trans)
next
  case (poll k0 c0 bs k c b)
  let ?mem = "view H \<tau>"
  note es = entries_law [OF pub] and co = view_coherent [OF pub sch]
  have mono: "i \<le> j \<Longrightarrow> cr_head_abs (?mem i) \<le> cr_head_abs (?mem j)" "i \<le> j \<Longrightarrow> cr_oldest_abs (?mem i) \<le> cr_oldest_abs (?mem j)" for i j
    using safe_stepD(1,2) [OF view_safe [OF pub sch]] by simp_all
  note IH = poll.IH
  then have st: "settled es (cc_cursor_abs c0) (cr_head_abs (?mem k0))" and pt: "point es (cc_cursor_abs c0)"
    by (simp_all add: settled_def)
  from pub sch pt snap poll.hyps(2) show ?case
  proof (cases rule: poll_with_spec)
    case (read i j)
    let ?fo = "cr_oldest_abs (?mem j)" and ?h = "cr_head_abs (?mem i)"
    have sh: "settled es ?h ?h" by (rule coherent_settled [OF es co])
    have st': "settled es (cc_cursor_abs c0) ?h" by (rule settled_mono [OF st mono(1) [OF read(1)]])
    let ?all = "[x \<leftarrow> es. cc_cursor_abs c0 \<le> rr_start_abs x \<and> rr_end_abs x \<le> ?h]"
    have recs: "rb_records b = filter (\<lambda>x. ?fo \<le> rr_start_abs x) ?all" using read(4) by (simp add: conj_ac)
    have "subseq (rb_records b) ?all" unfolding recs by (rule subseq_filter_left)
    moreover have "rb_records b = ?all" if "\<not> rb_lapped b"
      using read(4) that by (auto simp: not_less intro!: filter_cong)
    moreover have "[x \<leftarrow> es. rr_start_abs x < ?h] = [x \<leftarrow> es. rr_start_abs x < cc_cursor_abs c0] @ ?all"
      by (rule deliver_next [OF es st' sh])
    moreover have "x \<in> set (delivered bs) \<or> x \<in> set (rb_records b)"
      if x: "x \<in> set es" "cr_oldest_abs (?mem k) \<le> rr_start_abs x" "rr_start_abs x < ?h" for x
    proof (cases "rr_start_abs x < cc_cursor_abs c0")
      case True
      have "k0 \<le> k" using read(1-3) by simp
      from mono(2) [OF this] IH x True show ?thesis by (meson order.trans)
    next
      case False
      have "j \<le> k" using read(3) by simp
      from mono(2) [OF this] sh x False show ?thesis by (auto simp: recs settled_def list_all_iff)
    qed
    ultimately show ?thesis
      unfolding delivered_def read(5) using IH settled_mono [OF sh mono(1), of k] read(2,3)
      by (simp add: delivered_def list_emb_append_mono del: filter_filter)
  next
    case lapped
    have "settled es (cc_cursor_abs c) (cr_head_abs (?mem k))"
      using coherent_settled(2) [OF es co [of "k - 1"]] lapped(5) settled_mono mono(1) [of "k - 1" k] by fastforce
    moreover have eq: "filter (\<lambda>x. rr_start_abs x < cc_cursor_abs c0) [x \<leftarrow> es. rr_start_abs x < cc_cursor_abs c]
        = [x \<leftarrow> es. rr_start_abs x < cc_cursor_abs c0]"
      using lapped(4) by (auto intro!: filter_cong)
    have "subseq [x \<leftarrow> es. rr_start_abs x < cc_cursor_abs c0] [x \<leftarrow> es. rr_start_abs x < cc_cursor_abs c]"
      unfolding eq [symmetric] by (rule subseq_filter_left)
    moreover have "cc_cursor_abs c \<le> cr_oldest_abs (?mem k)" using lapped(5) mono(2) [of "k - 1" k] by simp
    ultimately show ?thesis using IH lapped subseq_order.trans by (auto simp: delivered_def)
  next
    case busy
    have "k0 \<le> k" using busy(1) by simp
    note m = mono(2) [OF this]
    have "x \<in> set (delivered bs)" if "x \<in> set es" "cr_oldest_abs (?mem k) \<le> rr_start_abs x" "rr_start_abs x < cc_cursor_abs c" for x
      using IH that(1,3) order.trans [OF m that(2)] busy(4) by simp
    with busy IH settled_mono [OF st mono(1), of k] show ?thesis by (simp add: delivered_def)
  qed
qed

lemma delivery_with:
  assumes pub: "published cap H es" and sch: "schedule H \<tau>" and snap: "takes_snapshot (view H \<tau>) cap snapshot"
    and run: "poll_many_with snapshot (view H \<tau>) cap n consumer_with_store 0 = (k, Ok (c, batches))"
  shows "settled es (cc_cursor_abs c) (cr_head_abs (view H \<tau> k))
     \<and> subseq (delivered batches) [x \<leftarrow> es. rr_start_abs x < cc_cursor_abs c]
     \<and> (\<not> list_ex rb_lapped batches \<longrightarrow> delivered batches = [x \<leftarrow> es. rr_start_abs x < cc_cursor_abs c])"
  using polled_delivery [OF pub sch snap polled_many [OF run]] by blast

lemma owned_snapshot_eq:
  assumes pub: "published cap H es" and sch: "schedule H \<tau>" and cap: "cap < 2 ^ 32"
  shows "\<exists>s. read_control_snapshot (view H \<tau>) cap k = (k + 3, Ok s) \<and> unat (cb_buffer_bytes s) = cap
     \<and> unat (cb_head_abs s) = cr_head_abs (view H \<tau> k) \<and> unat (cb_oldest_abs s) = cr_oldest_abs (view H \<tau> (Suc k))"
proof -
  have "cr_head_abs (view H \<tau> k) < u64_limit" "cr_oldest_abs (view H \<tau> (Suc k)) < u64_limit"
    using coherent_bounds [OF entries_law [OF pub] view_coherent [OF pub sch]] by auto
  moreover have "unat (of_nat cap :: u32) = cap" using cap by (simp add: unat_of_nat)
  ultimately show ?thesis
    using cap by (auto simp: read_control_snapshot_def load_head_acquire_def load_oldest_acquire_def load_lost_acquire_def
        unat_of_nat_u64 numeral_3_eq_3)
qed

lemma owned_snapshot:
  assumes "published cap H es" and "schedule H \<tau>" and "cap < 2 ^ 32"
  shows "takes_snapshot (view H \<tau>) cap (read_control_snapshot (view H \<tau>) cap)"
  unfolding takes_snapshot_def
proof (intro allI impI)
  fix k k' r assume run: "read_control_snapshot (view H \<tau>) cap k = (k', r)"
  from owned_snapshot_eq [OF assms, of k] obtain s where "read_control_snapshot (view H \<tau>) cap k = (k + 3, Ok s)"
    "unat (cb_buffer_bytes s) = cap" "unat (cb_head_abs s) = cr_head_abs (view H \<tau> k)"
    "unat (cb_oldest_abs s) = cr_oldest_abs (view H \<tau> (Suc k))" by blast
  with run show "k < k' \<and> (case r of
      Ok s \<Rightarrow> unat (cb_buffer_bytes s) = cap \<and> (\<exists>i j. k \<le> i \<and> i \<le> j \<and> j < k'
        \<and> unat (cb_head_abs s) = cr_head_abs (view H \<tau> i) \<and> unat (cb_oldest_abs s) = cr_oldest_abs (view H \<tau> j))
    | Err e \<Rightarrow> (\<exists>b. e = ControlBlock b) | Panic q \<Rightarrow> False)"
    by auto (intro exI [of _ k] conjI exI [of _ "Suc k"]; simp)
qed

lemma delivery:
  assumes "published cap H es" and "schedule H \<tau>" and "cap < 2 ^ 32"
    and "poll_many (view H \<tau>) cap n consumer_with_store 0 = (k, Ok (c, batches))"
  shows "settled es (cc_cursor_abs c) (cr_head_abs (view H \<tau> k))
     \<and> subseq (delivered batches) [x \<leftarrow> es. rr_start_abs x < cc_cursor_abs c]
     \<and> (\<not> list_ex rb_lapped batches \<longrightarrow> delivered batches = [x \<leftarrow> es. rr_start_abs x < cc_cursor_abs c])"
  using delivery_with [OF assms(1,2) owned_snapshot [OF assms(1-3)]] assms(4) by (simp add: poll_many_def)

lemma poll_error:
  assumes "published cap H es" and "schedule H \<tau>" and "point es (cc_cursor_abs c)" and "cap < 2 ^ 32"
    and "concurrent_poll (view H \<tau>) cap c k = (k', Err e)"
  shows "(\<exists>a. e = UnexpectedWrapMarker a \<or> e = RecordCrossesBoundary a)
     \<and> cc_cursor_abs c < cr_oldest_abs (view H \<tau> (k' - 1))"
  using poll_with_error [OF assms(1-3) owned_snapshot [OF assms(1,2,4)]] assms(5)
  by (simp add: concurrent_poll_def read_raw_from_store_def)

lemma store_read:
  assumes pub: "published cap H es" and sch: "schedule H \<tau>" and c: "point es c" and cap: "cap < 2 ^ 32"
    and run: "read_raw_from_store (view H \<tau>) cap c k = (k', Ok batch)"
  shows "batch = \<lparr>rb_records = [x \<leftarrow> es. max c (cr_oldest_abs (view H \<tau> (Suc k))) \<le> rr_start_abs x
              \<and> rr_end_abs x \<le> cr_head_abs (view H \<tau> k)],
           rb_next_abs = cr_head_abs (view H \<tau> k), rb_lapped = (c < cr_oldest_abs (view H \<tau> (Suc k)))\<rparr>"
proof -
  obtain s where s: "read_control_snapshot (view H \<tau>) cap k = (k + 3, Ok s)" "unat (cb_buffer_bytes s) = cap"
    "unat (cb_head_abs s) = cr_head_abs (view H \<tau> k)" "unat (cb_oldest_abs s) = cr_oldest_abs (view H \<tau> (Suc k))"
    using owned_snapshot_eq [OF pub sch cap] by blast
  from run have "read_raw_with (k + 3, Ok s) (view H \<tau>) cap c = (k', Ok batch)" by (simp add: read_raw_from_store_def s(1))
  from store_read_with(2) [OF pub sch c s(2-4) _ _ this] show ?thesis by simp
qed

end

context publisher
begin

lemma paused_read_with:
  assumes pub: "published cap H es" and sch: "schedule H \<tau>" and c: "point es c"
    and s: "unat (cb_buffer_bytes s) = cap" "unat (cb_head_abs s) = cr_head_abs (view H \<tau> k)"
      "unat (cb_oldest_abs s) = cr_oldest_abs (view H \<tau> k)" "k < k0"
    and pause: "\<And>j. k \<le> j \<Longrightarrow> view H \<tau> j = view H \<tau> k"
  shows "\<exists>k'. read_raw_with (k0, Ok s) (view H \<tau>) cap c = (k', Ok
     \<lparr>rb_records = [x \<leftarrow> es. max c (cr_oldest_abs (view H \<tau> k)) \<le> rr_start_abs x \<and> rr_end_abs x \<le> cr_head_abs (view H \<tau> k)],
      rb_next_abs = cr_head_abs (view H \<tau> k), rb_lapped = (c < cr_oldest_abs (view H \<tau> k))\<rparr>)"
proof -
  let ?mem = "view H \<tau>"
  let ?m = "?mem k"
  let ?h = "cr_head_abs ?m" and ?fo = "cr_oldest_abs ?m"
  note es = entries_law [OF pub] and co = view_coherent [OF pub sch]
  have pt: "point es (max c ?fo)" using c coherent_points [OF co [of k]] by (simp add: max_def)
  obtain k2 r2 where loop: "read_store_loop ?mem cap ?h ?fo k0 (max c ?fo) [] = (k2, r2)" by (metis surj_pair)
  have k2: "k0 \<le> k2" using causalD(1) [OF causal_read_store_loop, of k0 ?mem cap ?h ?fo "max c ?fo" "[]"] loop by simp
  have same: "?mem k2 = ?m" using pause [of k2] k2 s(4) by simp
  have "r2 = Ok [x \<leftarrow> es. max c ?fo \<le> rr_start_abs x \<and> rr_end_abs x \<le> ?h]"
    by (rule stable_loop [OF pub sch pt loop, of k2]) (use k2 s(4) same in auto)
  then show ?thesis using loop same read_raw_with_eq [OF s(1-3)] by (simp add: load_oldest_acquire_def)
qed

lemma paused_read:
  assumes pub: "published cap H es" and sch: "schedule H \<tau>" and c: "point es c" and cap: "cap < 2 ^ 32"
    and pause: "\<And>j. k \<le> j \<Longrightarrow> view H \<tau> j = view H \<tau> k"
  shows "\<exists>k' batch. read_raw_from_store (view H \<tau>) cap c k = (k', Ok batch)"
proof -
  obtain s where s: "read_control_snapshot (view H \<tau>) cap k = (k + 3, Ok s)" "unat (cb_buffer_bytes s) = cap"
    "unat (cb_head_abs s) = cr_head_abs (view H \<tau> k)" "unat (cb_oldest_abs s) = cr_oldest_abs (view H \<tau> (Suc k))"
    using owned_snapshot_eq [OF pub sch cap] by blast
  have "unat (cb_oldest_abs s) = cr_oldest_abs (view H \<tau> k)" using s(4) pause [of "Suc k"] by simp
  from paused_read_with [OF pub sch c s(2,3) this _ pause, of "k + 3"] s(1) show ?thesis
    by (simp add: read_raw_from_store_def) blast
qed

lemma head_below_last:
  assumes "published cap H es" "schedule H \<tau>"
  shows "cr_head_abs (view H \<tau> k) \<le> cr_head_abs (last H)"
proof -
  have "\<tau> k < length H" using assms(2) by (simp add: schedule_def)
  then have "\<tau> k = length H - 1 \<or> \<tau> k < length H - 1" "H \<noteq> []" by auto
  then have "safe_step cap (H ! \<tau> k) (H ! (length H - 1))"
    using safe_law [OF assms(1)] \<open>\<tau> k < length H\<close> by (auto simp: sorted_wrt_iff_nth_less)
  then show ?thesis using \<open>H \<noteq> []\<close> by (simp add: last_conv_nth view_def safe_step_def)
qed

lemma poll_with_no_panic:
  assumes pub: "published cap H es" and sch: "schedule H \<tau>" and room: "cr_head_abs (last H) + cap \<le> u64_limit"
    and snap: "takes_snapshot (view H \<tau>) cap snapshot"
    and n: "cc_lapped_batches c + 1 < u64_limit" "cc_overwritten_retries c + 1 < u64_limit" "cc_rejected_records c + 1 < u64_limit"
  shows "\<not> is_panic (snd (poll_with (read_raw_with (snapshot k) (view H \<tau>) cap (cc_cursor_abs c)) (view H \<tau>) c))"
proof -
  let ?mem = "view H \<tau>"
  have len: "length (cr_bytes (?mem j)) = cap" for j using view_coherent [OF pub sch, of j] by (simp add: coherent_def)
  obtain k0 r0 where sn: "snapshot k = (k0, r0)" by (metis surj_pair)
  note S = takes_snapshotD [OF snap sn]
  have "\<not> is_panic (snd (read_raw_with (k0, r0) ?mem cap (cc_cursor_abs c)))"
  proof (cases r0)
    case (Ok s)
    from S(4) [OF Ok] obtain i where "unat (cb_head_abs s) = cr_head_abs (?mem i)" by blast
    then have "unat (cb_head_abs s) + cap \<le> u64_limit" using head_below_last [OF pub sch, of i] room by simp
    then show ?thesis
      unfolding read_raw_with_def Let_def using read_store_loop_no_panic [of ?mem, OF len capacity_law [OF pub]]
      by (intro no_panic) (auto simp: Ok load_oldest_acquire_def)
  qed (use S(2) in \<open>simp_all add: read_raw_with_def\<close>)
  then obtain k1 r1 where "read_raw_with (snapshot k) ?mem cap (cc_cursor_abs c) = (k1, r1)" "\<not> is_panic r1"
    by (cases "read_raw_with (k0, r0) ?mem cap (cc_cursor_abs c)") (auto simp: sn)
  with n show ?thesis
    by (cases r1) (auto simp: poll_with_def load_oldest_acquire_def split: RingError.splits)
qed

lemma poll_no_panic:
  assumes pub: "published cap H es" and sch: "schedule H \<tau>" and room: "cr_head_abs (last H) + cap \<le> u64_limit"
    and n: "cc_lapped_batches c + 1 < u64_limit" "cc_overwritten_retries c + 1 < u64_limit" "cc_rejected_records c + 1 < u64_limit"
  shows "\<not> is_panic (snd (concurrent_poll (view H \<tau>) cap c k))"
proof -
  let ?mem = "view H \<tau>"
  note es = entries_law [OF pub] and co = view_coherent [OF pub sch]
  have len: "length (cr_bytes (?mem j)) = cap" for j using co [of j] by (simp add: coherent_def)
  have h: "cr_head_abs (?mem k) + cap \<le> u64_limit" using head_below_last [OF pub sch, of k] room by simp
  have lim: "cr_head_abs (?mem k) < u64_limit" using coherent_bounds [OF es co [of k]] by auto
  obtain k1 r1 where read: "read_raw_from_store ?mem cap (cc_cursor_abs c) k = (k1, r1)" by (metis surj_pair)
  have "\<not> is_panic (snd (read_raw_from_store ?mem cap (cc_cursor_abs c) k))"
    unfolding read_raw_from_store_def read_raw_with_def read_control_snapshot_def Let_def
    using read_store_loop_no_panic [of ?mem, OF len capacity_law [OF pub] h] unat_of_nat_u64 [OF lim]
    by (intro no_panic) (auto simp: load_head_acquire_def load_oldest_acquire_def load_lost_acquire_def)
  with read have "\<not> is_panic r1" by simp
  with read n show ?thesis
    by (cases r1) (auto simp: concurrent_poll_def poll_with_def load_oldest_acquire_def split: RingError.splits)
qed

end

lemma poll_counters:
  assumes "poll_with read mem c = (k', Ok (c', batch))"
  shows "cc_lapped_batches c' \<le> cc_lapped_batches c + 1" "cc_overwritten_retries c' \<le> cc_overwritten_retries c + 1"
    "cc_rejected_records c' \<le> cc_rejected_records c + 1"
  using assms
  by (auto simp: poll_with_def load_then_eq outcome_simps load_oldest_acquire_def
      split: prod.splits outcome.splits RingError.splits if_splits)

lemma poll_many_with_counters:
  assumes "poll_many_with snapshot mem cap n consumer_with_store 0 = (k, Ok (c, batches))"
  shows "cc_lapped_batches c \<le> n \<and> cc_overwritten_retries c \<le> n \<and> cc_rejected_records c \<le> n"
  using assms
proof (induction n arbitrary: k c batches)
  case 0
  then show ?case by (auto simp: consumer_with_store_def)
next
  case (Suc n)
  from Suc.prems obtain k0 c0 bs b where "poll_many_with snapshot mem cap n consumer_with_store 0 = (k0, Ok (c0, bs))"
    and p: "poll_with (read_raw_with (snapshot k0) mem cap (cc_cursor_abs c0)) mem c0 = (k, Ok (c, b))" by (auto simp: load_then_eq)
  from Suc.IH [OF this(1)] poll_counters [OF p] show ?case by linarith
qed

lemmas poll_many_counters = poll_many_with_counters [where snapshot = "read_control_snapshot mem cap" and mem = mem and cap = cap for mem cap,
  folded poll_many_def]

end
