(* ===== verification/Interleaving.thy ===== *)
theory Interleaving
  imports Publishing
begin

text \<open>
  The producer of \<open>crates/carriage/src/concurrent.rs\<close> keeps the promises of \<open>publisher\<close> under every
  interleaving: \<open>produced\<close> relates the calls of a producer to the history of the memory, one state per store,
  and to the records published; its invariant gives the interpretation of the locale, and the properties of
  the concurrent ring are stated over it for an arbitrary schedule of the consumer's loads.  A quiescent
  store is shown to be the sequential ring of \<open>Ring\<close>.
\<close>

section \<open>The producer keeps the promises\<close>

definition span_of :: "ReadRecord \<Rightarrow> nat \<times> nat" where
  "span_of x = (rr_start_abs x, rr_end_abs x)"

definition entry :: "ConcurrentProducer \<Rightarrow> Record \<Rightarrow> ReadRecord" where
  "entry p r = \<lparr>rr_start_abs = fst (last (cp_spans p)), rr_end_abs = cp_head_abs p, rr_record = r\<rparr>"

inductive produced :: "nat \<Rightarrow> ConcurrentProducer \<Rightarrow> ConcurrentRing list \<Rightarrow> ReadRecord list \<Rightarrow> bool" for cap where
  start: "concurrent_ring_new cap = (Ok m :: (_, RingError) outcome) \<Longrightarrow> produced cap producer_with_store [m] []"
| publish: "produced cap p H es \<Longrightarrow> publish_record cap p r = Ok (p', ops) \<Longrightarrow>
     perform_all ops (last H) = (Ok Hs :: (_, RingError) outcome) \<Longrightarrow>
     produced cap p' (H @ Hs) (es @ [entry p' (normalise_flags r True)])"
| append: "produced cap p H es \<Longrightarrow> append_encoded cap p bytes = Ok (p', ops) \<Longrightarrow> decode bytes = Ok d \<Longrightarrow>
     perform_all ops (last H) = (Ok Hs :: (_, RingError) outcome) \<Longrightarrow>
     produced cap p' (H @ Hs) (es @ [entry p' (dec_record d)])"

definition producer_inv :: "nat \<Rightarrow> ConcurrentProducer \<Rightarrow> ConcurrentRing list \<Rightarrow> ReadRecord list \<Rightarrow> bool" where
  "producer_inv cap p H es \<longleftrightarrow> 0 < cap \<and> H \<noteq> [] \<and> entries_ok es
     \<and> list_all (coherent cap es) H \<and> sorted_wrt (safe_step cap) H
     \<and> cr_head_abs (last H) = cp_head_abs p \<and> cp_spans p = map span_of (retained es (last H))
     \<and> cr_oldest_abs (last H) \<le> cp_head_abs p \<and> cp_head_abs p \<le> cr_oldest_abs (last H) + cap
     \<and> list_all (\<lambda>x. rr_start_abs x < cr_oldest_abs (last H) \<longrightarrow> rr_start_abs x + cap < cp_head_abs p) es
     \<and> (if es = [] then cp_head_abs p = 0 else cp_head_abs p = rr_end_abs (last es))"

subsection \<open>Single stores\<close>

lemma coherent_step:
  assumes "coherent cap es m" "safe_step cap m m'" "length (cr_bytes m') = cap"
    "cr_head_abs m' = cr_head_abs m" "cr_oldest_abs m' = cr_oldest_abs m"
  shows "coherent cap es m'"
proof -
  have len: "length (cr_bytes m) = cap" using assms(1) by (simp add: coherent_def)
  have "retained es m' = retained es m" using assms(4,5) by (simp add: retained_def)
  moreover have "linked (cr_bytes m') (cr_oldest_abs m) rs (cr_head_abs m)"
    if "linked (cr_bytes m) (cr_oldest_abs m) rs (cr_head_abs m)" for rs
    by (rule linked_cong [OF that]) (use safe_stepD(3) [OF assms(2)] assms len in auto)
  ultimately show ?thesis using assms(1,3-5) by (auto simp: coherent_def)
qed

lemma byte_store_safe:
  assumes "length (cr_bytes m) = cap" "0 < cap" "cr_head_abs m \<le> q" "q < cr_oldest_abs m + cap"
  shows "\<exists>m'. perform (StoreByte (q mod cap) v) m = (Ok m' :: (_, 'e) outcome) \<and> m' = m\<lparr>cr_bytes := (cr_bytes m)[q mod cap := v]\<rparr>
     \<and> safe_step cap m m'"
proof -
  have "q mod cap < cap" using assms(2) by simp
  moreover have "p mod cap \<noteq> q mod cap" if "cr_oldest_abs m \<le> p" "p < cr_head_abs m" for p
    using mod_distinct [of p q cap] assms that by linarith
  then have "(cr_bytes m)[q mod cap := v] ! (p mod cap) = cr_bytes m ! (p mod cap)"
    if "cr_oldest_abs m \<le> p" "p < cr_head_abs m" for p
    using that by (metis nth_list_update_neq)
  ultimately show ?thesis using assms(1) by (auto simp: store_byte_relaxed_def safe_step_def)
qed

subsection \<open>Sequences of stores\<close>

lemma perform_all_append:
  "perform_all (a @ b) m = and_then (perform_all a m :: (_, 'e) outcome) (\<lambda>A. and_then (perform_all b (last (m # A))) (\<lambda>B. Ok (A @ B)))"
proof (induction a arbitrary: m)
  case Nil
  then show ?case by (cases "perform_all b m :: (_, 'e) outcome") simp_all
next
  case (Cons op a)
  show ?case
  proof (cases "perform op m :: (_, 'e) outcome")
    case (Ok m1)
    then show ?thesis by (simp add: Cons and_then_assoc)
  qed simp_all
qed

lemma perform_all_inv:
  assumes "Q m" "\<And>op m. op \<in> set ops \<Longrightarrow> Q m \<Longrightarrow> \<exists>m'. perform op m = (Ok m' :: (_, 'e) outcome) \<and> Q m' \<and> safe_step cap m m'"
  shows "\<exists>Hs. perform_all ops m = (Ok Hs :: (_, 'e) outcome) \<and> list_all Q Hs \<and> sorted_wrt (safe_step cap) (m # Hs)"
  using assms
proof (induction ops arbitrary: m)
  case (Cons op ops)
  from Cons.prems(2) [of op, OF _ Cons.prems(1)] obtain m1 where
    m1: "perform op m = (Ok m1 :: (_, 'e) outcome)" "Q m1" "safe_step cap m m1" by auto
  from Cons.IH [OF m1(2)] Cons.prems(2) obtain Hs where
    "perform_all ops m1 = (Ok Hs :: (_, 'e) outcome)" "list_all Q Hs" "sorted_wrt (safe_step cap) (m1 # Hs)" by auto
  with m1 safe_step_trans [OF m1(3)] show ?case by auto
qed simp

lemma sorted_safe_append:
  assumes "sorted_wrt (safe_step cap) H" "H \<noteq> []" "sorted_wrt (safe_step cap) (last H # Hs)"
  shows "sorted_wrt (safe_step cap) (H @ Hs)"
proof -
  have "safe_step cap a (last H)" if "a \<in> set H" for a
  proof (cases "a = last H")
    case False
    obtain xs y where "H = xs @ [y]" using assms(2) by (metis rev_exhaust)
    with assms(1) that False show ?thesis by (auto simp: sorted_wrt_append)
  qed simp
  with assms show ?thesis by (auto simp: sorted_wrt_append intro: safe_step_trans)
qed

lemma overwrite_update:
  "s < length bs \<Longrightarrow> overwrite (bs[s := b]) (Suc s) ys = overwrite bs s (b # ys)"
  by (simp add: overwrite_def take_Suc_conv_app_nth)

lemma overwrite_Nil [simp]: "overwrite bs s [] = bs"
  by (simp add: overwrite_def)

definition body_stores :: "nat \<Rightarrow> byte_vec \<Rightarrow> store_op list" where
  "body_stores st bytes = map (\<lambda>(i, byte). StoreByte (st + i) byte) (enumerate 0 bytes)"

lemma body_stores_simps [simp]:
  "body_stores st [] = []" "body_stores st (b # bs) = StoreByte st b # body_stores (Suc st) bs"
  by (simp_all add: body_stores_def enumerate_Suc_eq split_def comp_def)

lemma perform_all_body:
  assumes "st + length bytes \<le> length (cr_bytes m)"
  shows "\<exists>Hs. perform_all (body_stores st bytes) m = (Ok Hs :: (_, 'e) outcome)
     \<and> last (m # Hs) = m\<lparr>cr_bytes := overwrite (cr_bytes m) st bytes\<rparr>"
  using assms
proof (induction bytes arbitrary: st m)
  case (Cons b bytes)
  let ?m = "m\<lparr>cr_bytes := (cr_bytes m)[st := b]\<rparr>"
  from Cons.IH [of "Suc st" ?m] Cons.prems obtain Hs where
    "perform_all (body_stores (Suc st) bytes) ?m = (Ok Hs :: (_, 'e) outcome)"
    "last (?m # Hs) = ?m\<lparr>cr_bytes := overwrite (cr_bytes ?m) (Suc st) bytes\<rparr>" by auto
  with Cons.prems show ?case by (simp add: store_byte_relaxed_def overwrite_update)
qed simp

lemma set_body_stores: "op \<in> set (body_stores st bytes) \<Longrightarrow> \<exists>i < length bytes. op = StoreByte (st + i) (bytes ! i)"
  by (auto simp: body_stores_def in_set_enumerate_eq)

subsection \<open>One publication\<close>

lemma retained_snoc: "cr_head_abs m < rr_end_abs x \<Longrightarrow> retained (es @ [x]) m = retained es m"
  by (simp add: retained_def)

lemma coherent_snoc:
  assumes "coherent cap es m" "cr_head_abs m < rr_end_abs x" "cr_oldest_abs m \<le> rr_start_abs x"
  shows "coherent cap (es @ [x]) m"
  using assms by (auto simp: coherent_def retained_snoc)

lemma entries_snoc:
  assumes "entries_ok es" "list_all (\<lambda>y. rr_end_abs y \<le> rr_start_abs x) es" "rr_start_abs x < rr_end_abs x"
    "rr_end_abs x < u64_limit" "es = [] \<Longrightarrow> rr_start_abs x = 0"
  shows "entries_ok (es @ [x])"
  using assms by (cases es) (auto simp: entries_ok_def sorted_wrt_append list_all_iff)

lemma survivors_filter:
  assumes lk: "linked bs o' rs h" and ne: "survivors f rs \<noteq> []"
  shows "[y \<leftarrow> rs. rr_start_abs (hd (survivors f rs)) \<le> rr_start_abs y] = survivors f rs"
proof -
  let ?ks = "survivors f rs"
  have ks: "linked bs (rr_start_abs (hd ?ks)) ?ks h"
    using linked_dropWhile [OF lk, of "\<lambda>x. rr_start_abs x < f"] ne by (simp add: survivors_def)
  have fl: "f \<le> rr_start_abs (hd ?ks)"
    using linked_dropWhile_floor [OF lk, of "hd ?ks" f] ne by (simp add: survivors_def)
  have "[y \<leftarrow> evicted f rs. rr_start_abs (hd ?ks) \<le> rr_start_abs y] = []"
    using fl by (fastforce simp: filter_empty_conv evicted_def dest: set_takeWhileD)
  moreover have "[y \<leftarrow> ?ks. rr_start_abs (hd ?ks) \<le> rr_start_abs y] = ?ks"
    using linked_bounds [OF ks] by (auto intro: filter_True)
  ultimately show ?thesis by (metis evicted_survivors append_self_conv2 filter_append)
qed

text \<open>A quiescent memory and a record about to be written.\<close>

definition pending :: "nat \<Rightarrow> ConcurrentRing \<Rightarrow> ReadRecord list \<Rightarrow> ReadRecord \<Rightarrow> bool" where
  "pending cap m es x \<longleftrightarrow> 0 < cap \<and> entries_ok es \<and> coherent cap es m \<and> cr_oldest_abs m \<le> cr_head_abs m
     \<and> list_all (\<lambda>y. rr_end_abs y \<le> cr_head_abs m) es
     \<and> encodable (rr_record x) True \<and> bit (rec_flags (rr_record x)) 3 \<and> record_len (rr_record x) True \<le> cap
     \<and> rr_start_abs x = place cap (cr_head_abs m) (record_len (rr_record x) True)
     \<and> rr_end_abs x = rr_start_abs x + record_len (rr_record x) True"

definition kept :: "nat \<Rightarrow> ConcurrentRing \<Rightarrow> ReadRecord list \<Rightarrow> ReadRecord \<Rightarrow> ReadRecord list" where
  "kept cap m es x = survivors (rr_end_abs x - cap) (retained es m)"

definition new_oldest :: "nat \<Rightarrow> ConcurrentRing \<Rightarrow> ReadRecord list \<Rightarrow> ReadRecord \<Rightarrow> nat" where
  "new_oldest cap m es x = rr_start_abs (hd (kept cap m es x @ [x]))"

lemma pendingD:
  assumes "pending cap m es x"
  shows "cr_head_abs m \<le> rr_start_abs x" "rr_start_abs x < rr_end_abs x" "length (cr_bytes m) = cap"
    "placed (cr_bytes m) (cr_head_abs m) (rr_start_abs x) (record_bytes (rr_record x) True)"
  using assms place_bounds [of cap "cr_head_abs m"] record_len_pos [of "rr_record x" True]
  by (auto simp: pending_def coherent_def placed_def)

lemma retained_linked:
  "coherent cap es m \<Longrightarrow> retained es m \<noteq> [] \<Longrightarrow> linked (cr_bytes m) (cr_oldest_abs m) (retained es m) (cr_head_abs m)"
  by (simp add: coherent_def)

lemma kept_linked:
  assumes "pending cap m es x" "kept cap m es x \<noteq> []"
  shows "linked (cr_bytes m) (new_oldest cap m es x) (kept cap m es x) (cr_head_abs m)"
    "hd (kept cap m es x) \<in> set (retained es m)" "rr_end_abs x \<le> new_oldest cap m es x + cap"
    "new_oldest cap m es x = rr_start_abs (hd (kept cap m es x))" "retained es m \<noteq> []"
proof -
  show ne: "retained es m \<noteq> []" using assms(2) by (auto simp: kept_def survivors_def)
  then have lk: "linked (cr_bytes m) (cr_oldest_abs m) (retained es m) (cr_head_abs m)"
    using assms(1) by (auto simp: pending_def intro: retained_linked)
  show eq: "new_oldest cap m es x = rr_start_abs (hd (kept cap m es x))" using assms(2) by (simp add: new_oldest_def)
  show "linked (cr_bytes m) (new_oldest cap m es x) (kept cap m es x) (cr_head_abs m)"
    unfolding eq kept_def survivors_def using linked_dropWhile [OF lk] assms(2) by (simp add: kept_def survivors_def)
  show "hd (kept cap m es x) \<in> set (retained es m)"
    using assms(2) by (metis kept_def survivors_def hd_in_set set_dropWhileD)
  have "rr_end_abs x - cap \<le> rr_start_abs (hd (kept cap m es x))"
    using linked_dropWhile_floor [OF lk, of "hd (kept cap m es x)"] assms(2) by (simp add: kept_def survivors_def)
  then show "rr_end_abs x \<le> new_oldest cap m es x + cap" unfolding eq by simp
qed

lemma new_oldest_bounds:
  assumes "pending cap m es x"
  shows "cr_oldest_abs m \<le> new_oldest cap m es x" "new_oldest cap m es x \<le> rr_start_abs x"
    "rr_end_abs x \<le> new_oldest cap m es x + cap"
proof -
  note d = pendingD [OF assms]
  have o: "cr_oldest_abs m \<le> cr_head_abs m" and n: "rr_end_abs x \<le> rr_start_abs x + cap"
    using assms by (auto simp: pending_def)
  have "cr_oldest_abs m \<le> new_oldest cap m es x \<and> new_oldest cap m es x \<le> rr_start_abs x
      \<and> rr_end_abs x \<le> new_oldest cap m es x + cap"
  proof (cases "kept cap m es x = []")
    case True
    then show ?thesis using d o n by (simp add: new_oldest_def)
  next
    case False
    note k = kept_linked [OF assms False]
    then have "cr_oldest_abs m \<le> new_oldest cap m es x" by (simp add: retained_def)
    moreover have "new_oldest cap m es x \<le> cr_head_abs m" using linked_le [OF k(1)] .
    ultimately show ?thesis using k(3) d(1) by simp
  qed
  then show "cr_oldest_abs m \<le> new_oldest cap m es x" "new_oldest cap m es x \<le> rr_start_abs x"
    "rr_end_abs x \<le> new_oldest cap m es x + cap" by auto
qed

lemma retained_after:
  assumes "pending cap m es x" "cr_oldest_abs m' = new_oldest cap m es x" "cr_head_abs m \<le> cr_head_abs m'"
  shows "retained es m' = kept cap m es x"
proof -
  let ?o = "new_oldest cap m es x"
  have c: "list_all (\<lambda>y. rr_end_abs y \<le> cr_head_abs m) es" and es: "entries_ok es" using assms(1) by (simp_all add: pending_def)
  have "retained es m' = [y \<leftarrow> es. ?o \<le> rr_start_abs y]"
    unfolding retained_def using c assms(2,3) by (intro filter_cong) (auto simp: list_all_iff)
  also have "\<dots> = [y \<leftarrow> retained es m. ?o \<le> rr_start_abs y]"
    unfolding retained_def using c new_oldest_bounds(1) [OF assms(1)]
    by (auto simp: list_all_iff intro!: filter_cong)
  also have "\<dots> = kept cap m es x"
  proof (cases "kept cap m es x = []")
    case True
    then have "?o = rr_start_abs x" by (simp add: new_oldest_def)
    then have "cr_head_abs m \<le> ?o" using pendingD(1) [OF assms(1)] by simp
    then show ?thesis using True c es by (fastforce simp: filter_empty_conv retained_def entries_ok_def list_all_iff)
  next
    case False
    note k = kept_linked [OF assms(1) False]
    have "linked (cr_bytes m) (cr_oldest_abs m) (retained es m) (cr_head_abs m)"
      using assms(1) k(5) by (auto simp: pending_def intro: retained_linked)
    from survivors_filter [OF this, of "rr_end_abs x - cap", folded kept_def] False k(4) show ?thesis by simp
  qed
  finally show ?thesis .
qed

lemma only_evicted_if_full:
  assumes pd: "pending cap m es x" and y: "y \<in> set es" "rr_start_abs y < new_oldest cap m es x"
  shows "rr_start_abs y < cr_oldest_abs m \<or> rr_start_abs y + cap < rr_end_abs x"
proof (cases "rr_start_abs y < cr_oldest_abs m")
  case False
  then have "y \<in> set (retained es m)" using pd y(1) by (simp add: pending_def retained_def list_all_iff)
  moreover have "y \<notin> set (kept cap m es x)"
    unfolding retained_after [OF pd, of "m\<lparr>cr_oldest_abs := new_oldest cap m es x\<rparr>", simplified, symmetric]
    using y(2) by (simp add: retained_def)
  ultimately have "y \<in> set (evicted (rr_end_abs x - cap) (retained es m))"
    unfolding kept_def by (metis Un_iff evicted_survivors set_append)
  then have "rr_start_abs y < rr_end_abs x - cap" by (auto simp: evicted_def dest: set_takeWhileD)
  then show ?thesis by linarith
qed simp

lemma coherent_oldest:
  assumes "pending cap m es x"
  shows "coherent cap (es @ [x]) (m\<lparr>cr_oldest_abs := new_oldest cap m es x\<rparr>)" (is "coherent _ _ ?m")
proof -
  note d = pendingD [OF assms] and b = new_oldest_bounds [OF assms]
  have r: "retained (es @ [x]) ?m = kept cap m es x"
    using retained_snoc [of ?m x es] retained_after [OF assms, of ?m] d by simp
  have c: "list_all (\<lambda>y. rr_end_abs y \<le> cr_head_abs m) es" and co: "coherent cap es m" using assms by (simp_all add: pending_def)
  have "new_oldest cap m es x \<in> rr_start_abs ` set (es @ [x])"
  proof (cases "kept cap m es x = []")
    case False
    with kept_linked(2,4) [OF assms False] show ?thesis by (auto simp: retained_def)
  qed (simp add: new_oldest_def)
  with r c b d co kept_linked(1,4) [OF assms] show ?thesis
    by (auto simp: coherent_def new_oldest_def list_all_iff)
qed

lemma coherent_published:
  assumes pd: "pending cap m es x" and m': "cr_bytes m' = written_bytes (cr_bytes m) (cr_head_abs m) (rr_start_abs x) (record_bytes (rr_record x) True)"
    "cr_head_abs m' = rr_end_abs x" "cr_oldest_abs m' = new_oldest cap m es x"
  shows "coherent cap (es @ [x]) m'" "retained (es @ [x]) m' = kept cap m es x @ [x]"
proof -
  note d = pendingD [OF pd] and b = new_oldest_bounds [OF pd]
  let ?enc = "record_bytes (rr_record x) True" and ?w = "cr_bytes m'"
  have c: "list_all (\<lambda>y. rr_end_abs y \<le> cr_head_abs m) es" and co: "coherent cap es m"
    and enc: "encodable (rr_record x) True" "length ?enc = record_len (rr_record x) True"
    and e: "rr_end_abs x = rr_start_abs x + length ?enc"
    using pd by (simp_all add: pending_def)
  show r: "retained (es @ [x]) m' = kept cap m es x @ [x]"
    using retained_after [OF pd m'(3)] m' d b(2) by (simp add: retained_def)
  have nf: "normalise_flags (rr_record x) True = rr_record x"
    using pd encode_flags_same [of "rec_flags (rr_record x)"] by (simp add: pending_def normalise_flags_def)
  have "\<lparr>rr_start_abs = rr_start_abs x, rr_end_abs = rr_start_abs x + record_len (rr_record x) True, rr_record = rr_record x\<rparr> = x"
    using e enc(2) by (cases x) simp
  then have st: "stored ?w x" using stored_written [OF d(4) enc(1)] nf by (simp add: m')
  have "linked ?w (new_oldest cap m es x) (kept cap m es x @ [x]) (rr_end_abs x)"
  proof (cases "kept cap m es x = []")
    case True
    then show ?thesis using st by (simp add: new_oldest_def)
  next
    case False
    have lk: "linked (cr_bytes m) (cr_oldest_abs m) (retained es m) (cr_head_abs m)"
      using co kept_linked(5) [OF pd False] by (rule retained_linked)
    show ?thesis
      using linked_written [OF d(4) lk st [unfolded m'(1)]] e d(3)
      by (simp add: m'(1) new_oldest_def kept_def)
  qed
  moreover have "new_oldest cap m es x \<in> rr_start_abs ` set (es @ [x])"
    using coherent_oldest [OF pd] b(2) by (cases "kept cap m es x = []") (auto simp: new_oldest_def retained_def dest: kept_linked(2) [OF pd])
  ultimately show "coherent cap (es @ [x]) m'"
    using m' r length_written_bytes [OF d(4)] c d
    by (auto simp: coherent_def new_oldest_def list_all_iff)
qed

lemma lost_irrelevant [simp]:
  "retained es (m\<lparr>cr_lost_count := l\<rparr>) = retained es m" "coherent cap es (m\<lparr>cr_lost_count := l\<rparr>) = coherent cap es m"
  "pending cap (m\<lparr>cr_lost_count := l\<rparr>) es x = pending cap m es x" "kept cap (m\<lparr>cr_lost_count := l\<rparr>) es x = kept cap m es x"
  "new_oldest cap (m\<lparr>cr_lost_count := l\<rparr>) es x = new_oldest cap m es x" "safe_step cap (m\<lparr>cr_lost_count := l\<rparr>) m' = safe_step cap m m'"
  "safe_step cap m (m'\<lparr>cr_lost_count := l\<rparr>) = safe_step cap m m'"
  by (simp_all add: retained_def coherent_def pending_def kept_def new_oldest_def safe_step_def)

lemma perform_all_seq:
  assumes "perform_all a m = (Ok A :: (_, 'e) outcome)" "last (m # A) = m1" "perform_all b m1 = (Ok B :: (_, 'e) outcome)"
  shows "perform_all (a @ b) m = (Ok (A @ B) :: (_, 'e) outcome)" "last (m # A @ B) = last (m1 # B)"
  using assms by (auto simp: perform_all_append)

definition clobbering :: "nat \<Rightarrow> nat \<Rightarrow> byte_vec \<Rightarrow> nat \<Rightarrow> store_op list" where
  "clobbering cap h enc s = (if s \<noteq> h then [StoreByte (h mod cap) 0] else []) @ body_stores (s mod cap) enc"

lemma perform_all_clobbering:
  assumes "placed (cr_bytes m) h s enc" "length (cr_bytes m) = cap"
  shows "\<exists>Hs. perform_all (clobbering cap h enc s) m = (Ok Hs :: (_, 'e) outcome)
     \<and> last (m # Hs) = m\<lparr>cr_bytes := written_bytes (cr_bytes m) h s enc\<rparr>"
proof -
  define m1 where "m1 = (if s \<noteq> h then m\<lparr>cr_bytes := (cr_bytes m)[h mod cap := 0]\<rparr> else m)"
  note d = placedD [OF assms(1)]
  have up: "(cr_bytes m)[h mod cap := 0] = overwrite (cr_bytes m) (h mod cap) [0]"
    using d(3) by (simp add: overwrite_def assms(2) upd_conv_take_nth_drop)
  have mk: "\<exists>A. perform_all (if s \<noteq> h then [StoreByte (h mod cap) 0] else []) m = (Ok A :: (_, 'e) outcome)
      \<and> last (m # A) = m1"
    using d(3) by (auto simp: m1_def store_byte_relaxed_def assms(2))
  have "length (cr_bytes m1) = cap" by (simp add: m1_def assms(2))
  with perform_all_body [of "s mod cap" enc m1] d(1) assms(2) obtain B where
    B: "perform_all (body_stores (s mod cap) enc) m1 = (Ok B :: (_, 'e) outcome)"
    "last (m1 # B) = m1\<lparr>cr_bytes := overwrite (cr_bytes m1) (s mod cap) enc\<rparr>" by auto
  have "m1\<lparr>cr_bytes := overwrite (cr_bytes m1) (s mod cap) enc\<rparr> = m\<lparr>cr_bytes := written_bytes (cr_bytes m) h s enc\<rparr>"
    by (simp add: m1_def written_bytes_def up assms(2))
  moreover from mk obtain A where "perform_all (if s \<noteq> h then [StoreByte (h mod cap) 0] else []) m = (Ok A :: (_, 'e) outcome)"
    "last (m # A) = m1" by blast
  ultimately show ?thesis
    using perform_all_seq [OF _ _ B(1)] B(2) unfolding clobbering_def by metis
qed

lemma clobbering_safe:
  assumes pd: "pending cap m es x" and op: "op \<in> set (clobbering cap (cr_head_abs m) (record_bytes (rr_record x) True) (rr_start_abs x))"
  shows "\<exists>q v. op = StoreByte (q mod cap) v \<and> cr_head_abs m \<le> q \<and> q < new_oldest cap m es x + cap"
proof -
  let ?enc = "record_bytes (rr_record x) True"
  note d = pendingD [OF pd] and b = new_oldest_bounds [OF pd]
  have e: "rr_end_abs x = rr_start_abs x + length ?enc" using pd by (simp add: pending_def)
  consider "op = StoreByte (cr_head_abs m mod cap) 0" "rr_start_abs x \<noteq> cr_head_abs m"
    | i where "i < length ?enc" "op = StoreByte (rr_start_abs x mod cap + i) (?enc ! i)"
    using op set_body_stores [of op "rr_start_abs x mod cap" ?enc] by (auto simp: clobbering_def split: if_splits)
  then show ?thesis
  proof cases
    case 1
    then show ?thesis using d b by (intro exI [of _ "cr_head_abs m"]) auto
  next
    case 2
    have "(rr_start_abs x + i) mod cap = rr_start_abs x mod cap + i"
      using placedD(1) [OF d(4)] 2(1) d(3) by (intro mod_shift) simp
    with 2 show ?thesis using d(1) b(3) e by (intro exI [of _ "rr_start_abs x + i"]) auto
  qed
qed

lemma clobbering_trace:
  fixes m
  assumes pd: "pending cap m es x"
  defines "m2 \<equiv> m\<lparr>cr_oldest_abs := new_oldest cap m es x\<rparr>"
    and "w \<equiv> written_bytes (cr_bytes m) (cr_head_abs m) (rr_start_abs x) (record_bytes (rr_record x) True)"
  shows "\<exists>Hs. perform_all (clobbering cap (cr_head_abs m) (record_bytes (rr_record x) True) (rr_start_abs x)) m2 = (Ok Hs :: (_, 'e) outcome)
     \<and> list_all (coherent cap (es @ [x])) Hs \<and> sorted_wrt (safe_step cap) (m2 # Hs) \<and> last (m2 # Hs) = m2\<lparr>cr_bytes := w\<rparr>"
proof -
  let ?h = "cr_head_abs m" and ?o = "new_oldest cap m es x"
  let ?ops = "clobbering cap ?h (record_bytes (rr_record x) True) (rr_start_abs x)"
  define Q where "Q m' \<longleftrightarrow> cr_head_abs m' = ?h \<and> cr_oldest_abs m' = ?o \<and> coherent cap (es @ [x]) m'" for m'
  note d = pendingD [OF pd]
  have cap: "0 < cap" using pd by (simp add: pending_def)
  have "Q m2" using coherent_oldest [OF pd] by (simp add: Q_def m2_def)
  moreover have "\<exists>m''. perform op m' = (Ok m'' :: (_, 'e) outcome) \<and> Q m'' \<and> safe_step cap m' m''" if "op \<in> set ?ops" "Q m'" for op m'
  proof -
    from clobbering_safe [OF pd that(1)] obtain q v where q: "op = StoreByte (q mod cap) v" "?h \<le> q" "q < ?o + cap" by blast
    have len: "length (cr_bytes m') = cap" using that(2) by (simp add: Q_def coherent_def)
    with byte_store_safe [OF len cap, of q v] q that(2) obtain m'' where
      m'': "perform op m' = (Ok m'' :: (_, 'e) outcome)" "m'' = m'\<lparr>cr_bytes := (cr_bytes m')[q mod cap := v]\<rparr>" "safe_step cap m' m''"
      by (auto simp: Q_def)
    then show ?thesis using that(2) len coherent_step [OF _ m''(3)] by (auto simp: Q_def)
  qed
  ultimately obtain Hs where Hs: "perform_all ?ops m2 = (Ok Hs :: (_, 'e) outcome)" "list_all Q Hs" "sorted_wrt (safe_step cap) (m2 # Hs)"
    using perform_all_inv [where Q = Q] by blast
  moreover have "last (m2 # Hs) = m2\<lparr>cr_bytes := w\<rparr>"
    using perform_all_clobbering [of m2 ?h "rr_start_abs x" "record_bytes (rr_record x) True" cap, where 'e = 'e] d(3,4) Hs(1)
    by (simp add: m2_def w_def)
  ultimately show ?thesis by (auto simp: Q_def list_all_iff)
qed

lemma publication_trace:
  assumes pd: "pending cap m es x"
    and ops: "ops = (if 0 < n then [AddLost n] else []) @ [StoreOldest (new_oldest cap m es x)]
      @ clobbering cap (cr_head_abs m) (record_bytes (rr_record x) True) (rr_start_abs x) @ [StoreHead (rr_end_abs x)]"
  shows "\<exists>Hs. perform_all ops m = (Ok Hs :: (_, 'e) outcome) \<and> Hs \<noteq> [] \<and> list_all (coherent cap (es @ [x])) Hs
     \<and> sorted_wrt (safe_step cap) (m # Hs) \<and> cr_head_abs (last Hs) = rr_end_abs x
     \<and> cr_oldest_abs (last Hs) = new_oldest cap m es x \<and> retained (es @ [x]) (last Hs) = kept cap m es x @ [x]"
proof -
  define l where "l = (if 0 < n then (cr_lost_count m + n) mod u64_limit else cr_lost_count m)"
  define m1 where "m1 = m\<lparr>cr_lost_count := l\<rparr>"
  define A where "A = (if 0 < n then [m1] else [])"
  let ?o = "new_oldest cap m es x" and ?c = "clobbering cap (cr_head_abs m) (record_bytes (rr_record x) True) (rr_start_abs x)"
  have A: "perform_all (if 0 < n then [AddLost n] else []) m = (Ok A :: (_, 'e) outcome)" "last (m # A) = m1"
    "list_all (coherent cap (es @ [x])) A" "sorted_wrt (safe_step cap) (m # A)"
    using coherent_snoc [of cap es m x] pd pendingD(1,2) [OF pd]
    by (auto simp: A_def m1_def l_def fetch_add_lost_release_def pending_def)
  have pd1: "pending cap m1 es x" using pd by (simp add: m1_def)
  define m2 where "m2 = m1\<lparr>cr_oldest_abs := ?o\<rparr>"
  define w where "w = written_bytes (cr_bytes m) (cr_head_abs m) (rr_start_abs x) (record_bytes (rr_record x) True)"
  have m1: "new_oldest cap m1 es x = ?o" "cr_head_abs m1 = cr_head_abs m" "cr_bytes m1 = cr_bytes m" by (simp_all add: m1_def)
  from clobbering_trace [OF pd1, unfolded m1, folded m2_def w_def] obtain B where
    B: "perform_all ?c m2 = (Ok B :: (_, 'e) outcome)" "list_all (coherent cap (es @ [x])) B"
    "sorted_wrt (safe_step cap) (m2 # B)" "last (m2 # B) = m2\<lparr>cr_bytes := w\<rparr>" by blast
  define m4 where "m4 = m2\<lparr>cr_bytes := w, cr_head_abs := rr_end_abs x\<rparr>"
  have co4: "coherent cap (es @ [x]) m4" "retained (es @ [x]) m4 = kept cap m es x @ [x]"
    using coherent_published [OF pd, of m4] by (simp_all add: m4_def m2_def w_def)
  have co2: "coherent cap (es @ [x]) m2" using coherent_oldest [OF pd1] by (simp add: m2_def m1)
  have s12: "safe_step cap m1 m2" using new_oldest_bounds(1) [OF pd] by (simp add: safe_step_def m2_def m1_def)
  have s34: "safe_step cap (m2\<lparr>cr_bytes := w\<rparr>) m4"
    using pendingD(1,2) [OF pd] by (simp add: safe_step_def m4_def m2_def m1_def)
  have "sorted_wrt (safe_step cap) ((m2 # B) @ [m4])"
    by (rule sorted_safe_append [OF B(3)]) (use s34 B(4) in simp_all)
  then have "sorted_wrt (safe_step cap) (m1 # m2 # B @ [m4])" using s12 safe_step_trans [OF s12] by auto
  then have srt: "sorted_wrt (safe_step cap) (m # A @ m2 # B @ [m4])"
    using sorted_safe_append [OF A(4), of "m2 # B @ [m4]"] A(2) by simp
  have head: "perform_all [StoreHead (rr_end_abs x)] (m2\<lparr>cr_bytes := w\<rparr>) = (Ok [m4] :: (_, 'e) outcome)"
    by (simp add: store_head_release_def m4_def)
  have old: "perform_all [StoreOldest ?o] m1 = (Ok [m2] :: (_, 'e) outcome)" by (simp add: store_oldest_relaxed_def m2_def)
  have "perform_all ops m = (Ok (A @ [m2] @ B @ [m4]) :: (_, 'e) outcome)"
    unfolding ops
    by (rule perform_all_seq(1) [OF A(1,2) perform_all_seq(1) [OF old _ perform_all_seq(1) [OF B(1,4) head]]]) simp
  then show ?thesis
    using A(3) B(2) co2 co4 srt by (intro exI [of _ "A @ m2 # B @ [m4]"]) (simp add: m4_def m2_def)
qed

subsection \<open>Every operation keeps the invariant\<close>

lemma pop_spans_survivors:
  "pop_spans f (map span_of rs) n = (Ok (sp, n') :: (_, 'e) outcome) \<Longrightarrow> sp = map span_of (survivors f rs)"
  by (induction rs arbitrary: n) (auto simp: span_of_def survivors_def outcome_simps split: if_splits)

lemma next_start_abs_place:
  assumes "next_start_abs cap p n = (Ok s :: (_, 'e) outcome)"
  shows "s = place cap (cp_head_abs p) n"
  using assms by (auto simp: next_start_abs_def place_def store_physical_offset_def Let_def outcome_simps split: if_splits)

lemma producer_inv_pending:
  assumes inv: "producer_inv cap p H es" and r: "encodable r True" "bit (rec_flags r) 3" "record_len r True \<le> cap"
  defines "s \<equiv> place cap (cp_head_abs p) (record_len r True)"
  shows "pending cap (last H) es \<lparr>rr_start_abs = s, rr_end_abs = s + record_len r True, rr_record = r\<rparr>"
proof -
  have "coherent cap es (last H)" using inv by (auto simp: producer_inv_def list_all_iff)
  moreover have "rr_end_abs y \<le> cr_head_abs (last H)" if "y \<in> set es" for y
  proof -
    have es: "entries_ok es" "last es \<in> set es" "es \<noteq> []" and h: "cr_head_abs (last H) = rr_end_abs (last es)"
      using inv that by (auto simp: producer_inv_def split: if_splits)
    obtain ys z where z: "es = ys @ [z]" using es(3) by (metis rev_exhaust)
    with es(1) have "y = z \<or> rr_end_abs y \<le> rr_start_abs z" "rr_start_abs z < rr_end_abs z"
      using that by (auto simp: entries_ok_def sorted_wrt_append)
    then show ?thesis using h z by auto
  qed
  ultimately show ?thesis using inv r by (auto simp: pending_def producer_inv_def s_def list_all_iff)
qed

lemma append_bytes_core_inv:
  assumes inv: "producer_inv cap p H es" and r: "encodable r True" "bit (rec_flags r) 3"
    and core: "append_bytes_core cap p (record_bytes r True) = (Ok (p', ops) :: (_, 'f) outcome)"
  shows "\<exists>Hs. perform_all ops (last H) = (Ok Hs :: (_, 'e) outcome) \<and> producer_inv cap p' (H @ Hs) (es @ [entry p' r])"
proof -
  let ?n = "record_len r True" and ?h = "cp_head_abs p" and ?m = "last H"
  define s where "s = place cap ?h ?n"
  define x where "x = \<lparr>rr_start_abs = s, rr_end_abs = s + ?n, rr_record = r\<rparr>"
  have n: "?n \<le> cap" using core r by (simp add: append_bytes_core_def split: if_splits)
  have pd: "pending cap ?m es x" using producer_inv_pending [OF inv r n] by (simp add: x_def s_def)
  note d = pendingD [OF pd] and b = new_oldest_bounds [OF pd]
  have hd: "cr_head_abs ?m = ?h" and sp: "cp_spans p = map span_of (retained es ?m)" using inv by (simp_all add: producer_inv_def)
  have n': "(\<not> length (record_bytes r True) \<le> cap) = False" using n r by simp
  from core obtain s' fh ev where start: "next_start_abs cap p (length (record_bytes r True)) = (Ok s' :: (_, 'f) outcome)"
    and fh: "u64_add s' (length (record_bytes r True)) = (Ok fh :: (_, 'f) outcome)"
    and ev: "spans_evict_before_clobber cap p fh s' = (Ok ev :: (_, 'f) outcome)"
    and res: "(case ev of (p1, evictions) \<Rightarrow>
       Ok (p1\<lparr>cp_spans := cp_spans p1 @ [(s', fh)], cp_head_abs := fh\<rparr>,
           evictions @ (if s' \<noteq> cp_head_abs p1 then [StoreByte (store_physical_offset cap ?h) 0] else [])
             @ body_stores (store_physical_offset cap s') (record_bytes r True) @ [StoreHead fh])) = (Ok (p', ops) :: (_, 'f) outcome)"
    unfolding append_bytes_core_def n' if_False Let_def body_stores_def by (elim and_thenE) blast
  have s': "s' = s" "fh = s + ?n" and lim: "s + ?n < u64_limit"
    using next_start_abs_place [OF start] fh r by (auto simp: s_def outcome_simps)
  from ev obtain sp' cnt where pop: "pop_spans (s + ?n - cap) (cp_spans p) 0 = (Ok (sp', cnt) :: (_, 'f) outcome)"
    and ev': "ev = (p\<lparr>cp_spans := sp'\<rparr>, (if 0 < cnt then [AddLost cnt] else []) @ [StoreOldest (case sp' of [] \<Rightarrow> s | (a, _) # _ \<Rightarrow> a)])"
    unfolding spans_evict_before_clobber_def Let_def s' by (elim and_thenE) auto
  have p': "p' = p\<lparr>cp_spans := sp' @ [(s, s + ?n)], cp_head_abs := s + ?n\<rparr>"
    and ops: "ops = ((if 0 < cnt then [AddLost cnt] else []) @ [StoreOldest (case sp' of [] \<Rightarrow> s | (a, _) # _ \<Rightarrow> a)])
       @ (if s \<noteq> ?h then [StoreByte (?h mod cap) 0] else []) @ body_stores (s mod cap) (record_bytes r True) @ [StoreHead (s + ?n)]"
    using res unfolding ev' s' store_physical_offset_def by simp_all
  have sp': "sp' = map span_of (kept cap ?m es x)"
    using pop_spans_survivors [OF pop [unfolded sp]] by (simp add: kept_def x_def)
  have "(case sp' of [] \<Rightarrow> s | (a, _) # _ \<Rightarrow> a) = new_oldest cap ?m es x"
    by (cases "kept cap ?m es x") (simp_all add: sp' new_oldest_def span_of_def x_def)
  then have ops': "ops = (if 0 < cnt then [AddLost cnt] else []) @ [StoreOldest (new_oldest cap ?m es x)]
      @ clobbering cap (cr_head_abs ?m) (record_bytes (rr_record x) True) (rr_start_abs x) @ [StoreHead (rr_end_abs x)]"
    by (simp add: ops clobbering_def hd x_def)
  from publication_trace [OF pd this] obtain Hs where Hs: "perform_all ops ?m = (Ok Hs :: (_, 'e) outcome)" "Hs \<noteq> []"
    "list_all (coherent cap (es @ [x])) Hs" "sorted_wrt (safe_step cap) (?m # Hs)" "cr_head_abs (last Hs) = rr_end_abs x"
    "cr_oldest_abs (last Hs) = new_oldest cap ?m es x" "retained (es @ [x]) (last Hs) = kept cap ?m es x @ [x]" by blast
  have ent: "entry p' r = x" by (simp add: entry_def p' x_def)
  have past: "coherent cap (es @ [x]) m" if "m \<in> set H" for m
  proof (rule coherent_snoc)
    have st: "safe_step cap m ?m"
      using that inv sorted_safe_append [of cap H "[]"]
      by (cases H rule: rev_cases) (auto simp: producer_inv_def sorted_wrt_append)
    show "coherent cap es m" using that inv by (simp add: producer_inv_def list_all_iff)
    show "cr_head_abs m < rr_end_abs x" using safe_stepD(1) [OF st] d(1,2) by linarith
    show "cr_oldest_abs m \<le> rr_start_abs x" using safe_stepD(2) [OF st] b(1,2) by linarith
  qed
  have ents: "entries_ok (es @ [x])"
  proof (rule entries_snoc)
    show "list_all (\<lambda>y. rr_end_abs y \<le> rr_start_abs x) es"
      using pd d(1) by (fastforce simp: pending_def list_all_iff)
    show "rr_start_abs x = 0" if "es = []" using that inv by (simp add: x_def s_def producer_inv_def place_def)
  qed (use pd d lim in \<open>auto simp: pending_def x_def\<close>)
  have full: "rr_start_abs y + cap < rr_end_abs x" if "y \<in> set es" "rr_start_abs y < new_oldest cap ?m es x" for y
    using only_evicted_if_full [OF pd that] inv that(1) d(1,2) hd by (auto simp: producer_inv_def list_all_iff)
  have "producer_inv cap p' (H @ Hs) (es @ [x])"
    using full inv Hs past ents sorted_safe_append [OF _ _ Hs(4)] b d n
    by (auto simp: producer_inv_def list_all_iff p' sp' span_of_def x_def)
  with Hs(1) ent show ?thesis by auto
qed

lemma normalised_encodable:
  "encodable r True \<Longrightarrow> encodable (normalise_flags r True) True \<and> bit (rec_flags (normalise_flags r True)) 3"
  using encode_flags_same [of "encode_flags (rec_flags r) True"]
  by (auto simp: encodable_def normalise_flags_def record_len_def)

lemma publish_record_core:
  assumes "publish_record cap p r = Ok (p', ops)"
  shows "encodable (normalise_flags r True) True \<and> bit (rec_flags (normalise_flags r True)) 3
     \<and> append_bytes_core cap p (record_bytes (normalise_flags r True) True) = (Ok (p', ops) :: (_, RingError) outcome)"
proof -
  from assms have e: "encodable r True"
    and core: "append_bytes_core cap p (record_bytes r True) = (Ok (p', ops) :: (_, RingError) outcome)"
    by (auto simp: publish_record_def outcome_simps encode_eq_Ok split: if_splits)
  with normalised_encodable [OF e] show ?thesis by (simp add: normalise_flags_bytes)
qed

lemma append_encoded_core:
  assumes "append_encoded cap p bytes = Ok (p', ops)"
  shows "\<exists>d. decode bytes = Ok d \<and> dec_consumed d = length bytes \<and> encodable (dec_record d) True
     \<and> bit (rec_flags (dec_record d)) 3 \<and> bytes = record_bytes (dec_record d) True
     \<and> append_bytes_core cap p bytes = (Ok (p', ops) :: (_, RingError) outcome)"
proof -
  from assms obtain flags where f: "read_le_u16 bytes 6 = (Ok flags :: (_, RingError) outcome)" "flags AND FLAG_HAS_CRC \<noteq> 0"
    and v: "validate_record bytes = Ok (length bytes)"
    and core: "append_bytes_core cap p bytes = (Ok (p', ops) :: (_, RingError) outcome)"
    by (auto simp: append_encoded_def outcome_simps split: if_splits outcome.splits)
  from decode_of_valid [OF v] obtain ss where d: "decode bytes = Ok \<lparr>dec_record = record_of_bytes bytes ss, dec_consumed = length bytes\<rparr>"
    by blast
  let ?r = "record_of_bytes bytes ss"
  have len: "40 \<le> length bytes" using validate_record_inv(1) [OF v] .
  then have "take 2 (drop 6 bytes) = [bytes ! 6, bytes ! 7]" by (simp add: numeral_2_eq_2 take_drop_Cons)
  with f(1) len have "rec_flags ?r = flags" by (simp add: read_le_u16_def record_of_bytes_def)
  then have "bit (rec_flags ?r) 3" using f(2) by (simp add: has_crc_iff)
  moreover from this d have "encodable ?r True" "bytes = record_bytes ?r True" by (auto simp: decode_eq_Ok)
  ultimately show ?thesis using d core by (intro exI [of _ "\<lparr>dec_record = ?r, dec_consumed = length bytes\<rparr>"]) auto
qed

lemma publish_record_inv:
  assumes "producer_inv cap p H es" "publish_record cap p r = Ok (p', ops)"
  shows "\<exists>Hs. perform_all ops (last H) = (Ok Hs :: (_, 'e) outcome)
     \<and> producer_inv cap p' (H @ Hs) (es @ [entry p' (normalise_flags r True)])"
  using append_bytes_core_inv [OF assms(1)] publish_record_core [OF assms(2)] by blast

lemma append_encoded_inv:
  assumes "producer_inv cap p H es" "append_encoded cap p bytes = Ok (p', ops)"
  shows "\<exists>d Hs. decode bytes = Ok d \<and> dec_consumed d = length bytes \<and> perform_all ops (last H) = (Ok Hs :: (_, 'e) outcome)
     \<and> producer_inv cap p' (H @ Hs) (es @ [entry p' (dec_record d)])"
proof -
  from append_encoded_core [OF assms(2)] obtain d where d: "decode bytes = Ok d" "dec_consumed d = length bytes"
    "encodable (dec_record d) True" "bit (rec_flags (dec_record d)) 3"
    "append_bytes_core cap p (record_bytes (dec_record d) True) = (Ok (p', ops) :: (_, RingError) outcome)" by auto
  from append_bytes_core_inv [OF assms(1) d(3-5)] d(1,2) show ?thesis by blast
qed

lemma produced_inv: "produced cap p H es \<Longrightarrow> producer_inv cap p H es"
proof (induction rule: produced.induct)
  case (start m)
  then show ?case
    by (auto simp: concurrent_ring_new_def producer_inv_def producer_with_store_def entries_ok_def coherent_def
        retained_def split: if_splits)
next
  case (publish p H es r p' ops Hs)
  then show ?case using publish_record_inv [OF publish.IH publish.hyps(2), where 'e = RingError] by auto
next
  case (append p H es bytes p' ops d Hs)
  then show ?case using append_encoded_inv [OF append.IH append.hyps(2), where 'e = RingError] by auto
qed

interpretation ring_publisher: publisher "\<lambda>cap H es. \<exists>p. produced cap p H es"
  by unfold_locales (auto simp: producer_inv_def list_all_iff dest!: produced_inv)

section \<open>The sequential ring is what a quiescent store holds\<close>

definition mirrors :: "ConcurrentProducer \<Rightarrow> ConcurrentRing \<Rightarrow> RingBuffer \<Rightarrow> bool" where
  "mirrors p m ring \<longleftrightarrow> cr_bytes m = ring_bytes ring \<and> cr_head_abs m = ring_head_abs ring
     \<and> cr_oldest_abs m = ring_oldest_abs ring \<and> cr_lost_count m = ring_lost_count ring
     \<and> cp_head_abs p = ring_head_abs ring
     \<and> cp_spans p = map (\<lambda>idx. (idx_start_abs idx, idx_end_abs idx)) (ring_index ring)"

lemma index_spans: "map (\<lambda>idx. (idx_start_abs idx, idx_end_abs idx)) (map index_of rs) = map span_of rs"
  by (simp add: index_of_def span_of_def)

lemma pop_spans_ok:
  "n + length rs < u64_limit \<Longrightarrow>
     pop_spans f (map span_of rs) n = Ok (map span_of (survivors f rs), n + length (evicted f rs))"
  by (induction rs arbitrary: n) (auto simp: span_of_def survivors_def evicted_def)

lemma mirrors_step:
  assumes inv: "ring_inv ring rs" and sim: "mirrors p m ring" and w: "write_record ring r = Ok (ring', s', e')"
  shows "\<exists>p' ops Hs. publish_record (capacity ring) p r = Ok (p', ops) \<and> perform_all ops m = (Ok Hs :: (_, 'e) outcome)
     \<and> mirrors p' (last Hs) ring'"
proof -
  let ?cap = "capacity ring" and ?h = "ring_head_abs ring" and ?n = "record_len r True" and ?enc = "record_bytes r True"
  define x where "x = next_entry ring r"
  define f where "f = rr_end_abs x - ?cap"
  define s where "s = place ?cap ?h ?n"
  have wr: "writable ring r" using w by (rule write_record_Ok_writable)
  obtain ranges where ring': "ring' = written_ring ring rs x ranges"
    using write_record_eq [OF inv wr] w by (auto simp: x_def)
  have x: "rr_start_abs x = s" "rr_end_abs x = s + ?n" "record_bytes (rr_record x) True = ?enc"
    by (simp_all add: x_def s_def next_entry_def Let_def normalise_flags_bytes)
  have enc: "encodable r True" "?n \<le> ?cap" and lim: "s + ?n < u64_limit" using wr x by (simp_all add: writable_def x_def)
  have pl: "placed (ring_bytes ring) ?h s ?enc" using next_entry_placed [OF inv wr] x by (simp add: x_def)
  have idx: "ring_index ring = map index_of rs" and cap: "?cap = length (ring_bytes ring)" "0 < ?cap"
    and cnt: "44 * (ring_lost_count ring + length rs) \<le> ?h"
    using inv by (simp_all add: ring_inv_def ring_holds_def capacity_def)
  have h: "?h \<le> s" by (rule placedD(2) [OF pl])
  have "length (evicted f rs) \<le> length rs" by (simp add: evicted_def length_takeWhile_le)
  then have few: "length rs < u64_limit" "ring_lost_count ring + length (evicted f rs) < u64_limit"
    using cnt h lim by (simp_all add: distrib_left)
  let ?ev = "length (evicted f rs)" and ?o = "rr_start_abs (hd (survivors f rs @ [x]))"
  define ops where "ops = ((if 0 < ?ev then [AddLost ?ev] else []) @ [StoreOldest ?o])
      @ clobbering ?cap ?h ?enc s @ [StoreHead (s + ?n)]"
  define p' where "p' = p\<lparr>cp_spans := map span_of (survivors f rs) @ [(s, s + ?n)], cp_head_abs := s + ?n\<rparr>"
  have start: "next_start_abs ?cap p ?n = (Ok s :: (_, RingError) outcome)"
    using lim sim by (auto simp: next_start_abs_def mirrors_def s_def place_def store_physical_offset_def Let_def split: if_splits)
  have oldest: "(case map span_of (survivors f rs) of [] \<Rightarrow> s | (a, _) # _ \<Rightarrow> a) = ?o"
    by (cases "survivors f rs") (simp_all add: span_of_def x)
  have sp: "cp_spans p = map span_of rs" and hp: "cp_head_abs p = ?h"
    using sim by (simp_all add: mirrors_def idx index_of_def span_of_def comp_def)
  have ev: "spans_evict_before_clobber ?cap p (s + ?n) s = (Ok (p\<lparr>cp_spans := map span_of (survivors f rs)\<rparr>,
      (if 0 < ?ev then [AddLost ?ev] else []) @ [StoreOldest ?o]) :: (_, RingError) outcome)"
    using pop_spans_ok [of 0 rs f, where 'a = RingError] few(1) oldest
    by (simp add: spans_evict_before_clobber_def sp f_def x Let_def)
  have "append_bytes_core ?cap p ?enc = (Ok (p', ops) :: (_, RingError) outcome)"
    using enc lim start ev
    by (simp add: append_bytes_core_def ops_def p'_def clobbering_def body_stores_def store_physical_offset_def hp Let_def)
  then have pub: "publish_record ?cap p r = Ok (p', ops)"
    using enc by (simp add: publish_record_def encode_ok)
  define m1 where "m1 = m\<lparr>cr_lost_count := ring_lost_count ring + ?ev, cr_oldest_abs := ?o\<rparr>"
  have a: "\<exists>A. perform_all ((if 0 < ?ev then [AddLost ?ev] else []) @ [StoreOldest ?o]) m = (Ok A :: (_, 'e) outcome)
      \<and> last (m # A) = m1"
    using sim few by (auto simp: m1_def mirrors_def fetch_add_lost_release_def store_oldest_relaxed_def)
  then obtain A where A: "perform_all ((if 0 < ?ev then [AddLost ?ev] else []) @ [StoreOldest ?o]) m = (Ok A :: (_, 'e) outcome)"
    "last (m # A) = m1" by blast
  have m1: "cr_bytes m1 = ring_bytes ring" using sim by (simp add: m1_def mirrors_def)
  obtain B where B: "perform_all (clobbering ?cap ?h ?enc s) m1 = (Ok B :: (_, 'e) outcome)"
    "last (m1 # B) = m1\<lparr>cr_bytes := written_bytes (ring_bytes ring) ?h s ?enc\<rparr>"
    using perform_all_clobbering [of m1 ?h s ?enc ?cap, where 'e = 'e] pl cap m1 by auto
  define m2 where "m2 = m1\<lparr>cr_bytes := written_bytes (ring_bytes ring) ?h s ?enc, cr_head_abs := s + ?n\<rparr>"
  have "perform_all ops m = (Ok (A @ B @ [m2]) :: (_, 'e) outcome)"
    unfolding ops_def
    by (rule perform_all_seq(1) [OF A perform_all_seq(1) [OF B]]) (simp add: m2_def store_head_release_def)
  moreover have "mirrors p' m2 ring'"
    using sim by (simp add: mirrors_def m2_def m1_def ring' written_ring_def Let_def f_def x p'_def map_append
        index_of_def span_of_def comp_def)
  ultimately show ?thesis using pub by (intro exI [of _ p'] exI [of _ ops] exI [of _ "A @ B @ [m2]"]) simp
qed

section \<open>Properties\<close>

lemma linked_length: "linked bs a rs h \<Longrightarrow> a + length rs \<le> h"
proof (induction rs arbitrary: a)
  case (Cons x rs)
  then have "a \<le> rr_start_abs x" "rr_start_abs x < rr_end_abs x" "rr_end_abs x + length rs \<le> h"
    using gap_ok_le stored_span by auto
  then show ?case by simp
qed simp

lemma publish_ok:
  assumes pr: "produced cap p H es" and r: "encodable r True" "record_len r True \<le> cap"
    and room: "place cap (cp_head_abs p) (record_len r True) + record_len r True < u64_limit"
  shows "\<exists>p' ops Hs. publish_record cap p r = Ok (p', ops) \<and> perform_all ops (last H) = (Ok Hs :: (_, RingError) outcome)
     \<and> produced cap p' (H @ Hs) (es @ [entry p' (normalise_flags r True)])
     \<and> entry p' (normalise_flags r True) = \<lparr>rr_start_abs = place cap (cp_head_abs p) (record_len r True),
          rr_end_abs = place cap (cp_head_abs p) (record_len r True) + record_len r True, rr_record = normalise_flags r True\<rparr>
     \<and> cp_head_abs p' = place cap (cp_head_abs p) (record_len r True) + record_len r True"
proof -
  let ?s = "place cap (cp_head_abs p) (record_len r True)"
  note inv = produced_inv [OF pr]
  have co: "coherent cap es (last H)" and cap: "0 < cap" and sp: "cp_spans p = map span_of (retained es (last H))"
    and h: "cr_head_abs (last H) = cp_head_abs p"
    using inv by (auto simp: producer_inv_def list_all_iff)
  have "length (retained es (last H)) \<le> cp_head_abs p"
    using retained_linked [OF co] linked_length [of _ _ _ "cp_head_abs p"] h by (cases "retained es (last H) = []") fastforce+
  moreover have hs: "cp_head_abs p \<le> ?s" using place_bounds [OF cap] by simp
  ultimately have few: "0 + length (retained es (last H)) < u64_limit" using room by linarith
  have start: "next_start_abs cap p (record_len r True) = (Ok ?s :: (_, RingError) outcome)"
    using room by (auto simp: next_start_abs_def place_def store_physical_offset_def Let_def split: if_splits)
  obtain p' ops where pub: "publish_record cap p r = Ok (p', ops)"
    and p': "fst (last (cp_spans p')) = ?s" "cp_head_abs p' = ?s + record_len r True"
    using r room start pop_spans_ok [OF few, where 'a = RingError]
    by (simp add: publish_record_def encode_ok append_bytes_core_def spans_evict_before_clobber_def sp Let_def)
  from publish_record_inv [OF inv pub, where 'e = RingError] obtain Hs where
    Hs: "perform_all ops (last H) = (Ok Hs :: (_, RingError) outcome)" by blast
  from produced.publish [OF pr pub Hs] pub Hs p' show ?thesis by (auto simp: entry_def)
qed

lemma first_publication:
  assumes "0 < cap" "encodable r True" "record_len r True \<le> cap" "cap < u64_limit"
  shows "\<exists>p H. produced cap p H [\<lparr>rr_start_abs = 0, rr_end_abs = record_len r True, rr_record = normalise_flags r True\<rparr>]
     \<and> cp_head_abs p = record_len r True"
proof -
  obtain m where "concurrent_ring_new cap = (Ok m :: (_, RingError) outcome)" using assms(1) by (simp add: concurrent_ring_new_def)
  from publish_ok [OF produced.start [OF this] assms(2,3)] assms obtain p' Hs where
    "produced cap p' ([m] @ Hs) [\<lparr>rr_start_abs = 0, rr_end_abs = record_len r True, rr_record = normalise_flags r True\<rparr>]"
    "cp_head_abs p' = record_len r True"
    by (auto simp: producer_with_store_def place_def)
  then show ?thesis by blast
qed

lemma sample_record:
  "encodable (record_new 1 2 3 4 5) True" "record_len (record_new 1 2 3 4 5) True = 44"
  by (simp_all add: encodable_def record_len_def record_new_def)

lemma constant_schedule: "i < length H \<Longrightarrow> schedule H (\<lambda>_. i)"
  by (simp add: schedule_def mono_def)

lemma paused_poll:
  assumes pr: "produced cap p H es" and sch: "schedule H \<tau>" and cap: "cap < 2 ^ 32"
    and pm: "poll_many (view H \<tau>) cap n consumer_with_store 0 = (k, Ok (c, batches))" and n: "n + 1 < u64_limit"
    and pause: "\<And>j. k \<le> j \<Longrightarrow> \<tau> j = \<tau> k"
  shows "\<exists>k' c'. concurrent_poll (view H \<tau>) cap c k = (k', Ok (c',
      \<lparr>rb_records = [x \<leftarrow> es. max (cc_cursor_abs c) (cr_oldest_abs (view H \<tau> k)) \<le> rr_start_abs x
          \<and> rr_end_abs x \<le> cr_head_abs (view H \<tau> k)],
       rb_next_abs = cr_head_abs (view H \<tau> k), rb_lapped = (cc_cursor_abs c < cr_oldest_abs (view H \<tau> k))\<rparr>))
     \<and> cc_cursor_abs c' = cr_head_abs (view H \<tau> k)"
proof -
  have pub: "\<exists>p. produced cap p H es" using pr by blast
  have pt: "point es (cc_cursor_abs c)" using ring_publisher.delivery [OF pub sch cap pm] by (simp add: settled_def)
  have same: "view H \<tau> j = view H \<tau> k" if "k \<le> j" for j using pause [OF that] by (simp add: view_def)
  from ring_publisher.paused_read [OF pub sch pt cap same] obtain k' batch where
    read: "read_raw_from_store (view H \<tau>) cap (cc_cursor_abs c) k = (k', Ok batch)" by auto
  note R = ring_publisher.store_read [OF pub sch pt cap read]
  have "cc_lapped_batches c + 1 < u64_limit" using poll_many_counters [OF pm] n by linarith
  with read R same [of "Suc k"] show ?thesis by (auto simp: concurrent_poll_def poll_with_def)
qed

lemma first_poll:
  obtains p H x k c b where "produced 100 p H [x]" "schedule H (\<lambda>_. length H - 1)" "cc_cursor_abs c = 44" "rr_start_abs x = 0"
    "rr_record x = normalise_flags (record_new 1 2 3 4 5) True"
    "poll_many (view H (\<lambda>_. length H - 1)) 100 1 consumer_with_store 0 = (k, Ok (c, [b]))" "\<not> list_ex rb_lapped [b]"
proof -
  let ?r = "record_new 1 2 3 4 5"
  from first_publication [of 100 ?r] obtain p H where
    pr: "produced 100 p H [\<lparr>rr_start_abs = 0, rr_end_abs = 44, rr_record = normalise_flags ?r True\<rparr>]" (is "produced _ _ _ [?x]")
    and hp: "cp_head_abs p = 44"
    using sample_record by (auto simp: u64_limit_def)
  let ?\<tau> = "\<lambda>_. length H - 1"
  have ne: "H \<noteq> []" "cr_head_abs (last H) = 44" using produced_inv [OF pr] hp by (auto simp: producer_inv_def)
  then have sch: "schedule H ?\<tau>" by (intro constant_schedule) simp
  have hd: "cr_head_abs (view H ?\<tau> 0) = 44" using ne by (simp add: view_def last_conv_nth)
  obtain k c b where poll: "concurrent_poll (view H ?\<tau>) 100 consumer_with_store 0 = (k, Ok (c, b))" "cc_cursor_abs c = 44"
    using paused_poll [OF pr sch, of 0 0 consumer_with_store "[]"] hd by (auto simp: u64_limit_def)
  have "cr_oldest_abs (view H ?\<tau> 0) = 0"
    using ring_publisher.view_coherent [of 100 H "[?x]" ?\<tau> 0] pr sch by (auto simp: coherent_def)
  with poll have "\<not> list_ex rb_lapped [b]"
    using paused_poll [OF pr sch, of 0 0 consumer_with_store "[]"] by (auto simp: u64_limit_def consumer_with_store_def)
  then show ?thesis using that [OF pr sch poll(2)] poll(1) by simp
qed

text \<open>C3. What a concurrent consumer delivers.  However the loads of a consumer fall between the stores of a
  producer (any monotone schedule of loads over the store history), after any number of polls the records it
  has delivered, with their positions, are a subsequence of what the producer published: none is torn,
  altered, repeated or out of order.  While no batch was flagged as lapped they are all the records below
  the cursor.\<close>

theorem concurrent_delivery:
  assumes "produced cap p H es" and "schedule H \<tau>" and "cap < 2 ^ 32"
    and "poll_many (view H \<tau>) cap n consumer_with_store 0 = (k, Ok (c, batches))"
  shows "subseq (delivered batches) es
     \<and> (\<not> list_ex rb_lapped batches \<longrightarrow> delivered batches = [x \<leftarrow> es. rr_start_abs x < cc_cursor_abs c])"
proof -
  have "\<exists>p. produced cap p H es" using assms(1) by blast
  from ring_publisher.delivery [OF this assms(2-4)] show ?thesis
    using subseq_order.trans [OF _ subseq_filter_left] by blast
qed

theorem concurrent_delivery_witness:
  "\<exists>p H es k c batches. produced 100 p H es \<and> schedule H (\<lambda>_. length H - 1)
     \<and> poll_many (view H (\<lambda>_. length H - 1)) 100 1 consumer_with_store 0 = (k, Ok (c, batches))
     \<and> delivered batches = es \<and> length es = 1"
proof -
  obtain p H x k c b where w: "produced 100 p H [x]" "schedule H (\<lambda>_. length H - 1)" "cc_cursor_abs c = 44" "rr_start_abs x = 0"
    "poll_many (view H (\<lambda>_. length H - 1)) 100 1 consumer_with_store 0 = (k, Ok (c, [b]))" "\<not> list_ex rb_lapped [b]"
    using first_poll by metis
  with concurrent_delivery [OF w(1,2) _ w(5)] have "delivered [b] = [x]" by simp
  with w show ?thesis by (intro exI conjI) (assumption | simp)+
qed

text \<open>A read is a snapshot.  If a read returns a batch, its records are exactly those committed when the head
  was loaded, from the cursor or from the oldest offset loaded after it, whichever is later, and the batch is
  flagged as lapped precisely when that offset had passed the cursor.\<close>

theorem concurrent_read_exact:
  assumes "produced cap p H es" and "schedule H \<tau>" and "cap < 2 ^ 32"
    and "poll_many (view H \<tau>) cap n consumer_with_store 0 = (k, Ok (c, batches))"
    and "read_raw_from_store (view H \<tau>) cap (cc_cursor_abs c) k = (k', Ok batch)"
  shows "batch = \<lparr>rb_records = [x \<leftarrow> es. max (cc_cursor_abs c) (cr_oldest_abs (view H \<tau> (Suc k))) \<le> rr_start_abs x
              \<and> rr_end_abs x \<le> cr_head_abs (view H \<tau> k)],
           rb_next_abs = cr_head_abs (view H \<tau> k),
           rb_lapped = (cc_cursor_abs c < cr_oldest_abs (view H \<tau> (Suc k)))\<rparr>"
proof -
  have pub: "\<exists>p. produced cap p H es" using assms(1) by blast
  have "point es (cc_cursor_abs c)" using ring_publisher.delivery [OF pub assms(2-4)] by (simp add: settled_def)
  from ring_publisher.store_read [OF pub assms(2) this assms(3,5)] show ?thesis .
qed

lemma fresh_reads:
  obtains m where "produced 100 producer_with_store [m] []" "schedule [m] (\<lambda>_. 0)"
    "poll_many (view [m] (\<lambda>_. 0)) 100 0 consumer_with_store 0 = (0, Ok (consumer_with_store, []))"
    "cr_head_abs m = 0" "cr_oldest_abs m = 0"
proof -
  obtain m where m: "concurrent_ring_new 100 = (Ok m :: (_, RingError) outcome)" by (simp add: concurrent_ring_new_def)
  then have "cr_head_abs m = 0" "cr_oldest_abs m = 0" by (auto simp: concurrent_ring_new_def)
  with produced.start [OF m] constant_schedule [of 0 "[m]"] that show thesis by simp
qed

theorem concurrent_read_exact_witness:
  "\<exists>p H k' batch. produced 100 p H [] \<and> read_raw_from_store (view H (\<lambda>_. 0)) 100 0 0 = (k', Ok batch) \<and> rb_records batch = []"
proof (rule fresh_reads)
  fix m assume m: "produced 100 producer_with_store [m] []" "schedule [m] (\<lambda>_. 0)"
    "poll_many (view [m] (\<lambda>_. 0)) 100 0 consumer_with_store 0 = (0, Ok (consumer_with_store, []))"
  have "\<exists>k' batch. read_raw_from_store (view [m] (\<lambda>_. 0)) 100 0 0 = (k', Ok batch)"
    using m by (intro ring_publisher.paused_read) (auto simp: point_def view_def)
  then obtain k' batch where "read_raw_from_store (view [m] (\<lambda>_. 0)) 100 (cc_cursor_abs consumer_with_store) 0 = (k', Ok batch)"
    by (auto simp: consumer_with_store_def)
  from concurrent_read_exact [OF m(1,2) _ m(3) this] m(1) this show ?thesis
    by (intro exI [of _ producer_with_store] exI [of _ "[m]"]) (simp add: consumer_with_store_def)
qed



text \<open>A paused producer is caught up with.  If from some load on the memory does not change, the next poll
  returns, with every record that is retained and not yet read, and the cursor reaches the head.\<close>

theorem concurrent_catch_up:
  assumes "produced cap p H es" and "schedule H \<tau>" and "cap < 2 ^ 32"
    and "poll_many (view H \<tau>) cap n consumer_with_store 0 = (k, Ok (c, batches))" and "n + 1 < u64_limit"
    and "\<And>j. k \<le> j \<Longrightarrow> \<tau> j = \<tau> k"
  shows "\<exists>k' c' batch. concurrent_poll (view H \<tau>) cap c k = (k', Ok (c', batch))
     \<and> cc_cursor_abs c' = cr_head_abs (view H \<tau> k)
     \<and> rb_records batch = [x \<leftarrow> es. max (cc_cursor_abs c) (cr_oldest_abs (view H \<tau> k)) \<le> rr_start_abs x
          \<and> rr_end_abs x \<le> cr_head_abs (view H \<tau> k)]"
  using paused_poll [OF assms] by auto

theorem concurrent_catch_up_witness:
  "\<exists>p H k' c' batch. produced 100 p H [] \<and> concurrent_poll (view H (\<lambda>_. 0)) 100 consumer_with_store 0 = (k', Ok (c', batch))
     \<and> cc_cursor_abs c' = 0"
proof (rule fresh_reads)
  fix m assume m: "produced 100 producer_with_store [m] []" "schedule [m] (\<lambda>_. 0)"
    "poll_many (view [m] (\<lambda>_. 0)) 100 0 consumer_with_store 0 = (0, Ok (consumer_with_store, []))" "cr_head_abs m = 0"
  from concurrent_catch_up [OF m(1,2) _ m(3)] m(1,4) show ?thesis
    by (intro exI [of _ producer_with_store] exI [of _ "[m]"]) (auto simp: u64_limit_def view_def)
qed

text \<open>C28. Evict before clobber.  A byte of the window between the oldest offset and the head never changes: for
  two moments of a run, every position that is below the head at the first and not below the oldest offset at
  the second holds the same byte at both; and the head and the oldest offset never move back.\<close>

theorem concurrent_window_stable:
  assumes "produced cap p H es" and "i \<le> j" and "j < length H"
  shows "cr_head_abs (H ! i) \<le> cr_head_abs (H ! j) \<and> cr_oldest_abs (H ! i) \<le> cr_oldest_abs (H ! j)
     \<and> list_all (\<lambda>q. cr_bytes (H ! j) ! (q mod cap) = cr_bytes (H ! i) ! (q mod cap))
         [cr_oldest_abs (H ! j) ..< cr_head_abs (H ! i)]"
proof -
  have "sorted_wrt (safe_step cap) H" using produced_inv [OF assms(1)] by (simp add: producer_inv_def)
  then have "safe_step cap (H ! i) (H ! j)"
    using assms(2,3) by (cases "i = j") (auto simp: sorted_wrt_iff_nth_less)
  then show ?thesis by (auto simp: safe_step_def list_all_iff)
qed

theorem concurrent_window_stable_witness:
  "\<exists>p H es. produced 100 p H es \<and> length es = 1 \<and> cr_head_abs (H ! 0) \<le> cr_head_abs (H ! (length H - 1))"
proof -
  from first_publication [of 100 "record_new 1 2 3 4 5"] obtain p H x where pr: "produced 100 p H [x]"
    using sample_record by (auto simp: u64_limit_def)
  then have "H \<noteq> []" using produced_inv [OF pr] by (simp add: producer_inv_def)
  with concurrent_window_stable [OF pr, of 0 "length H - 1"] pr show ?thesis by (intro exI [of _ p] exI [of _ H] exI [of _ "[x]"]) simp
qed

text \<open>C29. The concurrent producer is the sequential ring, store by store.  When the store and the producer mirror
  a valid ring (same bytes, offsets, loss counter and record spans) and \<open>write_record\<close> of the ring accepts a
  record, the concurrent \<open>write_record\<close> accepts it too, none of its stores panics, and after the last one
  the store and the producer mirror the new ring.\<close>

theorem concurrent_mirrors_ring:
  assumes "ring_inv ring rs" and "mirrors p m ring" and "write_record ring r = Ok (ring', start, stop)"
  shows "\<exists>p' ops Hs. publish_record (capacity ring) p r = Ok (p', ops)
     \<and> perform_all ops m = (Ok Hs :: (_, RingError) outcome) \<and> mirrors p' (last Hs) ring'"
  by (rule mirrors_step [OF assms])

theorem concurrent_mirrors_ring_witness:
  "\<exists>m p' ops Hs ring'. concurrent_ring_new 100 = (Ok m :: (_, RingError) outcome)
     \<and> publish_record 100 producer_with_store (record_new 1 2 3 4 5) = Ok (p', ops)
     \<and> perform_all ops m = (Ok Hs :: (_, RingError) outcome) \<and> mirrors p' (last Hs) ring'"
proof -
  from ring_new_inv [of 100] obtain ring where ring: "ring_new 100 = (Ok ring :: (_, RingError) outcome)" "ring_inv ring []"
    "capacity ring = 100" by auto
  obtain m where m: "concurrent_ring_new 100 = (Ok m :: (_, RingError) outcome)" by (simp add: concurrent_ring_new_def)
  have sim: "mirrors producer_with_store m ring"
    using ring(1) m by (auto simp: mirrors_def ring_new_def concurrent_ring_new_def producer_with_store_def)
  have "writable ring (record_new 1 2 3 4 5)"
    using ring sample_record by (auto simp: writable_def next_entry_def place_def ring_new_def Let_def u64_limit_def)
  then obtain ring' s e where w: "write_record ring (record_new 1 2 3 4 5) = Ok (ring', s, e)"
    using write_record_eq [OF ring(2)] by blast
  from concurrent_mirrors_ring [OF ring(2) sim w] m ring(3) show ?thesis by auto
qed

lemma load_bytes_const:
  assumes "\<And>j. k \<le> j \<Longrightarrow> j < k + n \<Longrightarrow> cr_bytes (mem j) = bs" "phys + n \<le> length bs"
  shows "load_bytes mem n phys k = (k + n, Ok (take n (drop phys bs)))"
  using assms
proof (induction n arbitrary: phys k)
  case (Suc n)
  have "cr_bytes (mem k) = bs" using Suc.prems(1) [of k] by simp
  with Suc.IH [of "Suc k" "Suc phys"] Suc.prems show ?case
    by (simp add: load_byte_relaxed_def take_drop_Cons)
qed simp

definition wide_record :: Record where
  "wide_record = (record_new 1 2 3 4 5)\<lparr>rec_slots := [slot_new 1 0x0D (replicate 40 255)]\<rparr>"

lemma wide_record:
  "encodable wide_record True" "record_len wide_record True = 88"
  by (simp_all add: wide_record_def encodable_def record_len_def record_new_def slot_new_def slot_ok_def padding_len_def)

lemma wide_record_bytes: "take 2 (drop 48 (record_bytes wide_record True)) = [255, 255]"
proof -
  obtain pre post where "record_bytes wide_record True = pre @ replicate 40 255 @ post" "length pre = 44"
    using record_bytes_header [of wide_record True "[]"]
    by (intro that [of "encode_header wide_record (of_nat (record_len wide_record True))
        (encode_flags (rec_flags wide_record) True) @ u16_to_le_bytes 1 @ [0x0D, 40]"])
       (simp_all add: wide_record_def slot_bytes_def slot_new_def padding_len_def)
  then show ?thesis by (simp add: numeral_2_eq_2)
qed

lemma published_stored:
  assumes "produced cap p H es" "x \<in> set es" "cr_oldest_abs (last H) \<le> rr_start_abs x"
  shows "stored (cr_bytes (last H)) x"
proof -
  note inv = produced_inv [OF assms(1)]
  have co: "coherent cap es (last H)" and h: "cr_head_abs (last H) = rr_end_abs (last es)" and es: "entries_ok es"
    using inv assms(2) by (auto simp: producer_inv_def list_all_iff split: if_splits)
  obtain ys y where y: "es = ys @ [y]" using assms(2) by (metis rev_exhaust empty_iff empty_set)
  have lt: "\<And>z. z \<in> set es \<Longrightarrow> rr_start_abs z < rr_end_abs z" and le: "\<And>z. z \<in> set ys \<Longrightarrow> rr_end_abs z \<le> rr_start_abs y"
    using es y by (auto simp: entries_ok_def sorted_wrt_append list_all_iff)
  have "x = y \<or> rr_end_abs x \<le> rr_start_abs y" using le [of x] assms(2) y by auto
  then have "rr_start_abs x < rr_end_abs (last es)" using lt [of x] lt [of y] assms(2) y by auto
  then have "x \<in> set (retained es (last H))"
    using coherent_entry [OF es co assms(2)] h assms(2,3) by (simp add: retained_def)
  moreover from this have "linked (cr_bytes (last H)) (cr_oldest_abs (last H)) (retained es (last H)) (cr_head_abs (last H))"
    using retained_linked [OF co] by (cases "retained es (last H) = []") auto
  ultimately show ?thesis using linked_stored by blast
qed

lemma torn_history:
  "\<exists>p H2 Hs es. produced 100 p (H2 @ Hs) es \<and> H2 \<noteq> [] \<and> Hs \<noteq> []
     \<and> cr_head_abs (last H2) = 144 \<and> cr_oldest_abs (last H2) = 44 \<and> length (cr_bytes (last H2)) = 100
     \<and> cr_bytes (last H2) ! 44 \<noteq> 0 \<and> take 4 (drop 44 (cr_bytes (last H2))) = SYNC
     \<and> length (cr_bytes (last Hs)) = 100 \<and> take 2 (drop 48 (cr_bytes (last Hs))) = [255, 255]
     \<and> 44 < cr_oldest_abs (last Hs)"
proof -
  let ?r = "record_new 1 2 3 4 5"
  define x where "x s = \<lparr>rr_start_abs = s, rr_end_abs = s + 44, rr_record = normalise_flags ?r True\<rparr>" for s
  define y where "y = \<lparr>rr_start_abs = 200, rr_end_abs = 288, rr_record = normalise_flags wide_record True\<rparr>"
  obtain m where m: "concurrent_ring_new 100 = (Ok m :: (_, RingError) outcome)" by (simp add: concurrent_ring_new_def)
  from publish_ok [OF produced.start [OF m] sample_record(1)] obtain p1 H1 where
    p1: "produced 100 p1 H1 [x 0]" "cp_head_abs p1 = 44"
    by (auto simp: sample_record producer_with_store_def place_def u64_limit_def x_def)
  from publish_ok [OF p1(1) sample_record(1)] obtain p2 H2 where
    p2: "produced 100 p2 H2 [x 0, x 44]" "cp_head_abs p2 = 88"
    by (auto simp: sample_record p1(2) place_def u64_limit_def x_def)
  from publish_ok [OF p2(1) sample_record(1)] obtain p3 H3 where
    p3: "produced 100 p3 H3 [x 0, x 44, x 100]" "cp_head_abs p3 = 144"
    by (auto simp: sample_record p2(2) place_def u64_limit_def x_def)
  from publish_ok [OF p3(1) wide_record(1)] obtain p4 Hs where
    p4: "produced 100 p4 (H3 @ Hs) [x 0, x 44, x 100, y]" "cp_head_abs p4 = 288"
    by (auto simp: wide_record p3(2) place_def u64_limit_def x_def y_def)
  note i3 = produced_inv [OF p3(1)] and i4 = produced_inv [OF p4(1)]
  have "cp_head_abs p3 \<le> cr_oldest_abs (last H3) + 100"
    "list_all (\<lambda>x. rr_start_abs x < cr_oldest_abs (last H3) \<longrightarrow> rr_start_abs x + 100 < cp_head_abs p3) [x 0, x 44, x 100]"
    using i3 by (simp_all only: producer_inv_def)
  then have "44 \<le> cr_oldest_abs (last H3)" "\<not> 44 < cr_oldest_abs (last H3)" by (simp_all add: p3(2) x_def)
  then have old: "cr_oldest_abs (last H3) = 44" by simp
  have len: "length (cr_bytes (last H3)) = 100" "length (cr_bytes (last (H3 @ Hs))) = 100"
    using i3 i4 unfolding producer_inv_def list_all_iff coherent_def by (metis last_in_set)+
  have heads: "cr_head_abs (last H3) = 144" "cr_head_abs (last (H3 @ Hs)) = 288" "H3 \<noteq> []"
    using i3 i4 p3(2) p4(2) by (simp_all add: producer_inv_def)
  then have Hs: "Hs \<noteq> []" by auto
  have "stored (cr_bytes (last H3)) (x 44)"
    by (rule published_stored [OF p3(1)]) (simp_all add: old x_def)
  note st = stored_header(3,4) [OF this]
  have "cr_oldest_abs (last (H3 @ Hs)) \<le> 200"
    using i4 p4(2) by (simp add: producer_inv_def y_def)
  then have "stored (cr_bytes (last (H3 @ Hs))) y"
    by (intro published_stored [OF p4(1)]) (simp_all add: y_def)
  then have "take 88 (cr_bytes (last Hs)) = record_bytes wide_record True"
    using Hs len by (simp add: stored_def y_def wide_record normalise_flags_bytes)
  moreover have "take 2 (drop 48 (take 88 z)) = take 2 (drop 48 z)" for z :: byte_vec by (simp add: drop_take)
  ultimately have "take 2 (drop 48 (cr_bytes (last Hs))) = take 2 (drop 48 (record_bytes wide_record True))" by metis
  moreover have "44 < cr_oldest_abs (last Hs)" using i4 p4(2) Hs by (simp add: producer_inv_def)
  ultimately show ?thesis using p4(1) heads Hs old len st wide_record_bytes
    by (intro exI [of _ p4] exI [of _ H3] exI [of _ Hs] exI [of _ "[x 0, x 44, x 100, y]"]) (simp add: x_def)
qed

text \<open>C40. A torn length stops a poll.  There is a run in which the producer overwrites a record after a poll has
  checked its sync bytes and before it loads its length: the poll does not lap but returns
  \<open>RecordCrossesBoundary\<close>, although the record had been evicted and the next poll would recover.\<close>

theorem concurrent_torn_length_is_fatal:
  "\<exists>p H es \<tau> k. produced 100 p H es \<and> schedule H \<tau>
     \<and> concurrent_poll (view H \<tau>) 100 consumer_with_store 0 = (k, Err (RecordCrossesBoundary 44))
     \<and> 44 < cr_oldest_abs (view H \<tau> (k - 1))"
proof -
  from torn_history obtain p H2 Hs es where pr: "produced 100 p (H2 @ Hs) es" and ne: "H2 \<noteq> []" "Hs \<noteq> []"
    and m2: "cr_head_abs (last H2) = 144" "cr_oldest_abs (last H2) = 44" "length (cr_bytes (last H2)) = 100"
      "cr_bytes (last H2) ! 44 \<noteq> 0" "take 4 (drop 44 (cr_bytes (last H2))) = SYNC"
    and m3: "length (cr_bytes (last Hs)) = 100" "take 2 (drop 48 (cr_bytes (last Hs))) = [255, 255]"
      "44 < cr_oldest_abs (last Hs)" by blast
  let ?H = "H2 @ Hs"
  define \<tau> where "\<tau> j = (if j < 8 then length H2 - 1 else length ?H - 1)" for j :: nat
  have "0 < length H2" "0 < length Hs" using ne by simp_all
  then have "length H2 - 1 < length ?H" "length H2 - 1 \<le> length ?H - 1" "length ?H - 1 < length ?H"
    unfolding length_append by linarith+
  then have sch: "schedule ?H \<tau>" unfolding schedule_def mono_def \<tau>_def by simp
  define mem where "mem = view ?H \<tau>"
  have mem: "mem j = (if j < 8 then last H2 else last Hs)" for j
  proof -
    have "?H ! (length ?H - 1) = last Hs" using last_conv_nth [of ?H] ne by simp
    moreover have "?H ! (length H2 - 1) = last H2" using ne by (simp add: nth_append last_conv_nth)
    ultimately show ?thesis by (simp add: mem_def view_def \<tau>_def del: length_append)
  qed
  have l4: "load_bytes mem 4 44 4 = (8, Ok SYNC)"
    using load_bytes_const [of 4 4 mem "cr_bytes (last H2)" 44] m2 by (simp add: mem)
  have l2: "load_bytes mem 2 48 8 = (10, Ok [255, 255])"
    using load_bytes_const [of 8 2 mem "cr_bytes (last Hs)" 48] m3 by (simp add: mem)
  have "read_store_loop mem 100 144 44 3 44 [] = (10, Err (RecordCrossesBoundary 44))"
    by (subst read_store_loop.simps)
       (simp add: store_physical_offset_def Let_def load_byte_relaxed_def mem m2 l4 l2 HEADER_LEN_def from_le_bytes_def)
  then have "read_raw_from_store mem 100 0 0 = (10, Err (RecordCrossesBoundary 44))"
    by (simp add: read_raw_from_store_def read_raw_with_def read_control_snapshot_def load_head_acquire_def
        load_oldest_acquire_def load_lost_acquire_def mem m2 Let_def numeral_3_eq_3)
  then have poll: "concurrent_poll mem 100 consumer_with_store 0 = (10, Err (RecordCrossesBoundary 44))"
    by (simp add: concurrent_poll_def poll_with_def consumer_with_store_def)
  moreover have "44 < cr_oldest_abs (mem 9)" using m3(3) by (simp add: mem)
  ultimately show ?thesis using pr sch unfolding mem_def by fastforce
qed

end
