(* ===== verification/Conformance.thy ===== *)
theory Conformance
  imports Text Interleaving Consumer
begin

text \<open>
  The stale-record oracles of \<open>crates/conformance/src/lib.rs\<close> and the batch observer that runs an oracle and a
  sequence check over what a consumer delivered.  What a
  stale oracle promises its observer is the locale \<open>stale_check\<close>, silence on a list of genuine reads; both
  oracles are interpretations.  A method on \<open>&mut self\<close> that returns \<open>Result\<close> gives the new state together with
  the outcome.
\<close>

section \<open>Violations\<close>

definition KEY_EXPECTED_RECORD_START_ABS :: u16 where "KEY_EXPECTED_RECORD_START_ABS = 0x8001"

datatype ConformanceError = ConformanceError string

datatype ViolationKind =
    ExpectedAbsMismatch
  | MissingExpectedAbsSlot
  | InvalidExpectedAbsSlot
  | UnexpectedRecord
  | DuplicateOrBackwardSeq
  | EventOrderMismatch

fun violation_as_str :: "ViolationKind \<Rightarrow> string" where
  "violation_as_str ExpectedAbsMismatch = ''expected_abs_mismatch''"
| "violation_as_str MissingExpectedAbsSlot = ''missing_expected_abs_slot''"
| "violation_as_str InvalidExpectedAbsSlot = ''invalid_expected_abs_slot''"
| "violation_as_str UnexpectedRecord = ''unexpected_record''"
| "violation_as_str DuplicateOrBackwardSeq = ''duplicate_or_backward_seq''"
| "violation_as_str EventOrderMismatch = ''event_order_mismatch''"

definition violation_parse :: "string \<Rightarrow> (ViolationKind, ConformanceError) outcome" where
  "violation_parse v =
     (if v = ''expected_abs_mismatch'' then Ok ExpectedAbsMismatch
      else if v = ''missing_expected_abs_slot'' then Ok MissingExpectedAbsSlot
      else if v = ''invalid_expected_abs_slot'' then Ok InvalidExpectedAbsSlot
      else if v = ''unexpected_record'' then Ok UnexpectedRecord
      else if v = ''duplicate_or_backward_seq'' then Ok DuplicateOrBackwardSeq
      else if v = ''event_order_mismatch'' then Ok EventOrderMismatch
      else Err (ConformanceError (''invalid violation kind '' @ v)))"

record StaleViolation =
  sv_kind :: ViolationKind
  sv_source_id :: u32
  sv_seq :: u64
  sv_expected_abs :: nat
  sv_actual_abs :: nat
  sv_crc_passed :: bool

definition violation_new :: "ViolationKind \<Rightarrow> ReadRecord \<Rightarrow> nat \<Rightarrow> nat \<Rightarrow> StaleViolation" where
  "violation_new kind read expected_abs actual_abs =
     \<lparr>sv_kind = kind, sv_source_id = rec_source_id (rr_record read), sv_seq = rec_seq (rr_record read),
      sv_expected_abs = expected_abs, sv_actual_abs = actual_abs, sv_crc_passed = True\<rparr>"

section \<open>The embedded-offset oracle\<close>

definition expected_record_start_abs :: "ReadRecord \<Rightarrow> (nat, StaleViolation) outcome" where
  "expected_record_start_abs read =
     (case find (\<lambda>slot. slot_key slot = KEY_EXPECTED_RECORD_START_ABS) (rec_slots (rr_record read)) of
        None \<Rightarrow> Err (violation_new MissingExpectedAbsSlot read 0 (rr_start_abs read))
      | Some slot \<Rightarrow>
          if slot_ty slot \<noteq> TY_ULINT \<or> length (slot_payload slot) \<noteq> 8
          then Err (violation_new InvalidExpectedAbsSlot read 0 (rr_start_abs read))
          else Ok (unat (from_le_bytes (slot_payload slot) :: u64)))"

definition embedded_observe ::
  "unit \<Rightarrow> ReadRecord \<Rightarrow> unit \<times> (StaleViolation list, ConformanceError) outcome" where
  "embedded_observe orc read =
     (orc, case expected_record_start_abs read of
             Ok expected_abs \<Rightarrow>
               if rr_start_abs read = expected_abs then Ok []
               else Ok [violation_new ExpectedAbsMismatch read expected_abs (rr_start_abs read)]
           | Err violation \<Rightarrow> Ok [violation]
           | Panic q \<Rightarrow> Panic q)"

definition expected_abs_slot :: "nat \<Rightarrow> Slot" where
  "expected_abs_slot expected_abs =
     slot_new KEY_EXPECTED_RECORD_START_ABS TY_ULINT (u64_to_le_bytes (of_nat expected_abs))"

section \<open>The sidecar oracle\<close>

record ExpectedRecord =
  xr_run_id :: u64
  xr_source_id :: u32
  xr_seq :: u64
  xr_event_type_id :: u32
  xr_encoded_len :: nat

record RecordKey =
  rk_run_id :: u64
  rk_source_id :: u32
  rk_seq :: u64
  rk_event_type_id :: u32

definition key_of_expected :: "ExpectedRecord \<Rightarrow> RecordKey" where
  "key_of_expected r = \<lparr>rk_run_id = xr_run_id r, rk_source_id = xr_source_id r, rk_seq = xr_seq r,
     rk_event_type_id = xr_event_type_id r\<rparr>"

definition key_of_read :: "ReadRecord \<Rightarrow> RecordKey" where
  "key_of_read read = \<lparr>rk_run_id = rec_run_id (rr_record read), rk_source_id = rec_source_id (rr_record read),
     rk_seq = rec_seq (rr_record read), rk_event_type_id = rec_event_type_id (rr_record read)\<rparr>"

record SidecarExpectedAbsOracle =
  so_expected_by_key :: "RecordKey \<rightharpoonup> nat"
  so_last_expected_abs :: "nat option"


definition sidecar_next_start_abs :: "nat \<Rightarrow> nat \<Rightarrow> nat \<Rightarrow> (nat, 'e) outcome" where
  "sidecar_next_start_abs cap head_abs encoded_len =
     (let start_phys = head_abs mod cap
      in if start_phys = 0 then Ok head_abs
         else and_then (u64_add start_phys encoded_len) (\<lambda>end_phys.
           if end_phys \<le> cap then Ok head_abs else u64_add head_abs (cap - start_phys)))"

fun sidecar_build ::
  "nat \<Rightarrow> nat \<Rightarrow> (RecordKey \<rightharpoonup> nat) \<Rightarrow> ExpectedRecord list \<Rightarrow> (RecordKey \<rightharpoonup> nat, ConformanceError) outcome" where
  "sidecar_build cap head_abs expected_by_key [] = Ok expected_by_key"
| "sidecar_build cap head_abs expected_by_key (r # rs) =
     (if xr_encoded_len r = 0 then Err (ConformanceError ''expected record length must be non-zero'')
      else if xr_encoded_len r > cap
      then Err (ConformanceError (''expected record length '' @ decimal (xr_encoded_len r) @ '' exceeds capacity '' @ decimal cap))
      else and_then (sidecar_next_start_abs cap head_abs (xr_encoded_len r)) (\<lambda>expected_abs.
        if expected_by_key (key_of_expected r) \<noteq> None
        then Err (ConformanceError (''duplicate expected record run='' @ decimal (unat (xr_run_id r)) @ '' source=''
               @ decimal (unat (xr_source_id r)) @ '' seq='' @ decimal (unat (xr_seq r)) @ '' event=''
               @ decimal (unat (xr_event_type_id r))))
        else and_then (u64_add expected_abs (xr_encoded_len r)) (\<lambda>head_abs.
          sidecar_build cap head_abs (expected_by_key(key_of_expected r \<mapsto> expected_abs)) rs)))"

definition sidecar_new :: "nat \<Rightarrow> ExpectedRecord list \<Rightarrow> (SidecarExpectedAbsOracle, ConformanceError) outcome" where
  "sidecar_new cap records =
     (if cap = 0 then Err (ConformanceError ''capacity must be non-zero'')
      else and_then (sidecar_build cap 0 Map.empty records) (\<lambda>expected_by_key.
        Ok \<lparr>so_expected_by_key = expected_by_key, so_last_expected_abs = None\<rparr>))"

definition sidecar_observe ::
  "SidecarExpectedAbsOracle \<Rightarrow> ReadRecord \<Rightarrow> SidecarExpectedAbsOracle \<times> (StaleViolation list, ConformanceError) outcome" where
  "sidecar_observe orc read =
     (case so_expected_by_key orc (key_of_read read) of
        None \<Rightarrow> (orc, Ok [violation_new UnexpectedRecord read 0 (rr_start_abs read)])
      | Some expected_abs \<Rightarrow>
          (orc\<lparr>so_last_expected_abs := Some expected_abs\<rparr>,
           Ok ((if rr_start_abs read \<noteq> expected_abs
                then [violation_new ExpectedAbsMismatch read expected_abs (rr_start_abs read)] else [])
               @ (if (case so_last_expected_abs orc of None \<Rightarrow> False | Some l \<Rightarrow> expected_abs < l)
                  then [violation_new EventOrderMismatch read expected_abs (rr_start_abs read)] else []))))"

section \<open>The batch observer\<close>

type_synonym 'o observer_fun = "'o \<Rightarrow> ReadRecord \<Rightarrow> 'o \<times> (StaleViolation list, ConformanceError) outcome"

record 'o BatchObserver =
  bo_oracle :: 'o
  bo_next_seq_by_source :: "u64 \<times> u32 \<rightharpoonup> nat"
  bo_seen_records :: "RecordKey set"
  bo_violations :: "StaleViolation list"

definition observer_new :: "'o \<Rightarrow> 'o BatchObserver" where
  "observer_new orc = \<lparr>bo_oracle = orc, bo_next_seq_by_source = Map.empty, bo_seen_records = {}, bo_violations = []\<rparr>"

definition observe_sequence :: "'o BatchObserver \<Rightarrow> ReadRecord \<Rightarrow> 'o BatchObserver \<times> (unit, ConformanceError) outcome" where
  "observe_sequence bo read =
     (let key = key_of_read read;
          complaint = violation_new DuplicateOrBackwardSeq read 0 (rr_start_abs read);
          source_key = (rec_run_id (rr_record read), rec_source_id (rr_record read));
          expected = map_get_or_0 (bo_next_seq_by_source bo) source_key
      in if key \<in> bo_seen_records bo
         then (bo\<lparr>bo_violations := bo_violations bo @ [complaint]\<rparr>, Ok ())
         else let bo = bo\<lparr>bo_seen_records := insert key (bo_seen_records bo)\<rparr>
           in if unat (rec_seq (rr_record read)) < expected
              then (bo\<lparr>bo_violations := bo_violations bo @ [complaint]\<rparr>, Ok ())
              else (case u64_add (unat (rec_seq (rr_record read))) 1 of
                      Ok n \<Rightarrow> (bo\<lparr>bo_next_seq_by_source := (bo_next_seq_by_source bo)(source_key \<mapsto> n)\<rparr>, Ok ())
                    | Err e \<Rightarrow> (bo, Err e)
                    | Panic q \<Rightarrow> (bo, Panic q)))"

fun observe_records ::
  "'o observer_fun \<Rightarrow> 'o BatchObserver \<Rightarrow> ReadRecord list \<Rightarrow> 'o BatchObserver \<times> (unit, ConformanceError) outcome" where
  "observe_records observe bo [] = (bo, Ok ())"
| "observe_records observe bo (read # reads) =
     (case observe (bo_oracle bo) read of
        (orc, Ok vs) \<Rightarrow>
          (case observe_sequence (bo\<lparr>bo_oracle := orc, bo_violations := bo_violations bo @ vs\<rparr>) read of
             (bo, Ok _) \<Rightarrow> observe_records observe bo reads
           | (bo, r) \<Rightarrow> (bo, r))
      | (orc, Err e) \<Rightarrow> (bo\<lparr>bo_oracle := orc\<rparr>, Err e)
      | (orc, Panic q) \<Rightarrow> (bo\<lparr>bo_oracle := orc\<rparr>, Panic q))"

definition observe_batch ::
  "'o observer_fun \<Rightarrow> 'o BatchObserver \<Rightarrow> ReadBatch \<Rightarrow> 'o BatchObserver \<times> (unit, ConformanceError) outcome" where
  "observe_batch observe bo batch = observe_records observe bo (rb_records batch)"

fun observe_batches ::
  "'o observer_fun \<Rightarrow> 'o BatchObserver \<Rightarrow> ReadBatch list \<Rightarrow> 'o BatchObserver \<times> (unit, ConformanceError) outcome" where
  "observe_batches observe bo [] = (bo, Ok ())"
| "observe_batches observe bo (batch # batches) =
     (case observe_batch observe bo batch of
        (bo, Ok _) \<Rightarrow> observe_batches observe bo batches
      | (bo, r) \<Rightarrow> (bo, r))"

lemma observe_records_append:
  "observe_records observe bo (xs @ ys) =
     (case observe_records observe bo xs of (bo, Ok _) \<Rightarrow> observe_records observe bo ys | (bo, r) \<Rightarrow> (bo, r))"
  by (induction xs arbitrary: bo) (auto split: prod.splits outcome.splits)

lemma observe_batches_delivered: "observe_batches observe bo bs = observe_records observe bo (delivered bs)"
  by (induction bs arbitrary: bo)
     (auto simp: delivered_def observe_batch_def observe_records_append split: prod.splits outcome.splits)

section \<open>Silence on genuine reads\<close>

definition stream_of :: "ReadRecord \<Rightarrow> u64 \<times> u32" where
  "stream_of x = (rec_run_id (rr_record x), rec_source_id (rr_record x))"

definition ascending :: "ReadRecord list \<Rightarrow> bool" where
  "ascending = sorted_wrt (\<lambda>x y. stream_of x = stream_of y \<longrightarrow> rec_seq (rr_record x) < rec_seq (rr_record y))"

definition unseen :: "'o BatchObserver \<Rightarrow> ReadRecord list \<Rightarrow> bool" where
  "unseen bo reads \<longleftrightarrow> (\<forall>y \<in> set reads. key_of_read y \<notin> bo_seen_records bo
     \<and> map_get_or_0 (bo_next_seq_by_source bo) (stream_of y) \<le> unat (rec_seq (rr_record y)))"

lemma observe_sequence_silent:
  assumes "unseen bo (x # xs)" "ascending (x # xs)" "seq_room x"
  shows "\<exists>bo'. observe_sequence bo x = (bo', Ok ()) \<and> bo_violations bo' = bo_violations bo
     \<and> bo_oracle bo' = bo_oracle bo \<and> unseen bo' xs"
proof -
  define bo' where "bo' = bo\<lparr>bo_seen_records := insert (key_of_read x) (bo_seen_records bo),
     bo_next_seq_by_source := (bo_next_seq_by_source bo)(stream_of x \<mapsto> unat (rec_seq (rr_record x)) + 1)\<rparr>"
  have "observe_sequence bo x = (bo', Ok ())"
    using assms by (auto simp: observe_sequence_def unseen_def stream_of_def bo'_def Let_def seq_room_def)
  moreover have "unseen bo' xs"
    unfolding unseen_def
  proof
    fix y assume y: "y \<in> set xs"
    then have lt: "stream_of x = stream_of y \<Longrightarrow> unat (rec_seq (rr_record x)) < unat (rec_seq (rr_record y))"
      using assms(2) by (auto simp: ascending_def word_less_nat_alt)
    then have "key_of_read y \<noteq> key_of_read x" by (auto simp: key_of_read_def stream_of_def)
    moreover have "key_of_read y \<notin> bo_seen_records bo"
      "map_get_or_0 (bo_next_seq_by_source bo) (stream_of y) \<le> unat (rec_seq (rr_record y))"
      using assms(1) y by (auto simp: unseen_def)
    ultimately show "key_of_read y \<notin> bo_seen_records bo' \<and>
        map_get_or_0 (bo_next_seq_by_source bo') (stream_of y) \<le> unat (rec_seq (rr_record y))"
      using lt by (auto simp: bo'_def map_get_or_0_def)
  qed
  ultimately show ?thesis by (auto simp: bo'_def)
qed

locale stale_check =
  fixes observe :: "'o observer_fun"
    and genuine :: "'o \<Rightarrow> ReadRecord list \<Rightarrow> bool"
  assumes silent_law: "genuine orc (x # xs) \<Longrightarrow> \<exists>orc'. observe orc x = (orc', Ok []) \<and> genuine orc' xs"
begin

lemma observer_silent:
  assumes "genuine (bo_oracle bo) reads" "unseen bo reads" "ascending reads" "list_all seq_room reads"
  shows "\<exists>bo'. observe_records observe bo reads = (bo', Ok ()) \<and> bo_violations bo' = bo_violations bo"
  using assms
proof (induction reads arbitrary: bo)
  case (Cons x reads)
  from silent_law [OF Cons.prems(1)] obtain orc' where orc: "observe (bo_oracle bo) x = (orc', Ok [])" "genuine orc' reads" by blast
  let ?bo = "bo\<lparr>bo_oracle := orc', bo_violations := bo_violations bo @ []\<rparr>"
  have "unseen ?bo (x # reads)" using Cons.prems(2) by (simp add: unseen_def)
  from observe_sequence_silent [OF this] Cons.prems(3,4) obtain bo' where
    bo': "observe_sequence ?bo x = (bo', Ok ())" "bo_violations bo' = bo_violations bo" "bo_oracle bo' = orc'" "unseen bo' reads"
    by auto
  from Cons.IH [of bo'] Cons.prems(3,4) bo' orc(2) show ?case by (auto simp: orc(1) ascending_def)
qed simp

end

definition sidecar_genuine :: "SidecarExpectedAbsOracle \<Rightarrow> ReadRecord list \<Rightarrow> bool" where
  "sidecar_genuine orc reads \<longleftrightarrow> list_all (\<lambda>x. so_expected_by_key orc (key_of_read x) = Some (rr_start_abs x)) reads
     \<and> sorted_wrt (\<lambda>x y. rr_start_abs x \<le> rr_start_abs y) reads
     \<and> (case so_last_expected_abs orc of None \<Rightarrow> True | Some l \<Rightarrow> list_all (\<lambda>x. l \<le> rr_start_abs x) reads)"

interpretation sidecar: stale_check sidecar_observe sidecar_genuine
  by unfold_locales (auto simp: sidecar_observe_def sidecar_genuine_def list_all_iff split: option.splits)

definition embedded_genuine :: "unit \<Rightarrow> ReadRecord list \<Rightarrow> bool" where
  "embedded_genuine orc = list_all (\<lambda>x. expected_record_start_abs x = Ok (rr_start_abs x))"

interpretation embedded: stale_check embedded_observe embedded_genuine
  by unfold_locales (simp add: embedded_observe_def embedded_genuine_def)

section \<open>Expected positions\<close>

definition expected_of :: "ReadRecord \<Rightarrow> ExpectedRecord" where
  "expected_of x = \<lparr>xr_run_id = rec_run_id (rr_record x), xr_source_id = rec_source_id (rr_record x),
     xr_seq = rec_seq (rr_record x), xr_event_type_id = rec_event_type_id (rr_record x),
     xr_encoded_len = record_len (rr_record x) True\<rparr>"

fun placed_chain :: "nat \<Rightarrow> nat \<Rightarrow> ReadRecord list \<Rightarrow> bool" where
  "placed_chain cap h [] \<longleftrightarrow> True"
| "placed_chain cap h (x # xs) \<longleftrightarrow> record_len (rr_record x) True \<le> cap
     \<and> rr_start_abs x = place cap h (record_len (rr_record x) True)
     \<and> rr_end_abs x = rr_start_abs x + record_len (rr_record x) True \<and> rr_end_abs x < u64_limit
     \<and> placed_chain cap (rr_end_abs x) xs"

lemma placed_chain_snoc:
  "placed_chain cap h (xs @ [x]) \<longleftrightarrow> placed_chain cap h xs \<and> placed_chain cap (if xs = [] then h else rr_end_abs (last xs)) [x]"
  by (induction xs arbitrary: h) auto

lemma key_expected_of [simp]: "key_of_expected (expected_of x) = key_of_read x"
  by (simp add: key_of_expected_def key_of_read_def expected_of_def)

lemma expected_of_len [simp]: "xr_encoded_len (expected_of x) = record_len (rr_record x) True"
  by (simp add: expected_of_def)

lemma sidecar_next_start_place:
  assumes "0 < cap" "cap < 2 ^ 32" "n \<le> cap" "place cap h n < u64_limit"
  shows "sidecar_next_start_abs cap h n = (Ok (place cap h n) :: (_, 'e) outcome)"
proof -
  have "h mod cap + n < u64_limit" using assms(1-3) mod_less_divisor [OF assms(1), of h] by (simp add: u64_limit_def)
  then show ?thesis using assms(4) by (auto simp: sidecar_next_start_abs_def place_def Let_def)
qed

lemma sidecar_build_positions:
  assumes "placed_chain cap h es" "0 < cap" "cap < 2 ^ 32" "distinct (map key_of_read es)"
    "\<And>x. x \<in> set es \<Longrightarrow> m (key_of_read x) = None"
  shows "\<exists>m'. sidecar_build cap h m (map expected_of es) = Ok m' \<and> m \<subseteq>\<^sub>m m'
     \<and> (\<forall>x \<in> set es. m' (key_of_read x) = Some (rr_start_abs x)) \<and> dom m' = dom m \<union> key_of_read ` set es"
  using assms
proof (induction es arbitrary: h m)
  case (Cons x es)
  let ?n = "record_len (rr_record x) True" and ?m = "m(key_of_read x \<mapsto> rr_start_abs x)"
  have pos: "0 < ?n" using record_len_pos [of "rr_record x" True] by simp
  have "?m (key_of_read y) = None" if "y \<in> set es" for y using that Cons.prems(4,5) by (simp add: image_iff) metis
  moreover have "placed_chain cap (rr_end_abs x) es" "distinct (map key_of_read es)"
    using Cons.prems(1,4) by auto
  ultimately obtain m' where
    m': "sidecar_build cap (rr_end_abs x) ?m (map expected_of es) = Ok m'" "?m \<subseteq>\<^sub>m m'"
      "\<forall>y \<in> set es. m' (key_of_read y) = Some (rr_start_abs y)" "dom m' = dom ?m \<union> key_of_read ` set es"
    using Cons.IH [of "rr_end_abs x" ?m] Cons.prems(2,3) by blast
  have "sidecar_next_start_abs cap h ?n = (Ok (rr_start_abs x) :: (_, ConformanceError) outcome)"
    using sidecar_next_start_place [of cap ?n h] Cons.prems by simp
  then have "sidecar_build cap h m (map expected_of (x # es)) = Ok m'"
    using m'(1) pos Cons.prems by (simp add: outcome_simps)
  moreover have "m \<subseteq>\<^sub>m ?m" using Cons.prems(5) by (auto simp: map_le_def)
  moreover have "m' (key_of_read x) = Some (rr_start_abs x)" using m'(2) by (auto simp: map_le_def)
  ultimately show ?case using m' map_le_trans by (intro exI [of _ m']) (auto simp del: fun_upd_apply)
qed simp

lemma append_bytes_core_place:
  assumes "append_bytes_core cap p bytes = (Ok (p', ops) :: (_, 'f) outcome)"
  shows "length bytes \<le> cap \<and> fst (last (cp_spans p')) = place cap (cp_head_abs p) (length bytes)
     \<and> cp_head_abs p' = fst (last (cp_spans p')) + length bytes \<and> cp_head_abs p' < u64_limit"
  using assms
  by (auto simp: append_bytes_core_def Let_def outcome_simps elim!: and_thenE dest: next_start_abs_place split: if_splits)

lemma placed_entry:
  assumes "produced cap p H es" "placed_chain cap 0 es" "encodable r True"
    "append_bytes_core cap p (record_bytes r True) = (Ok (p', ops) :: (_, 'f) outcome)"
  shows "placed_chain cap 0 (es @ [entry p' r])"
proof -
  have "cp_head_abs p = (if es = [] then 0 else rr_end_abs (last es))"
    using produced_inv [OF assms(1)] by (simp add: producer_inv_def)
  with append_bytes_core_place [OF assms(4)] assms(2,3) show ?thesis by (simp add: placed_chain_snoc entry_def)
qed

lemma produced_placed: "produced cap p H es \<Longrightarrow> placed_chain cap 0 es"
proof (induction rule: produced.induct)
  case (publish p H es r p' ops Hs)
  then show ?case using publish_record_core [OF publish.hyps(2)] placed_entry [OF publish.hyps(1)] by blast
next
  case (append p H es bytes p' ops d Hs)
  then show ?case using append_encoded_core [OF append.hyps(2)] placed_entry [OF append.hyps(1)] by auto
qed simp

lemma ascending_distinct: "ascending es \<Longrightarrow> distinct (map key_of_read es)"
  by (induction es) (force simp: ascending_def key_of_read_def stream_of_def)+

text \<open>What an observer sees of a record: its key and its position.\<close>

definition located :: "ReadRecord \<Rightarrow> RecordKey \<times> nat" where
  "located x = (key_of_read x, rr_start_abs x)"

lemma sorted_wrt_located:
  assumes "subseq (map located xs) (map located es)" "sorted_wrt P es"
    "\<And>x y x' y'. P x y \<Longrightarrow> located x = located x' \<Longrightarrow> located y = located y' \<Longrightarrow> Q x' y'"
  shows "sorted_wrt Q xs"
proof -
  let ?R = "\<lambda>a b. \<exists>x y. located x = a \<and> located y = b \<and> P x y"
  have "sorted_wrt ?R (map located es)"
    unfolding sorted_wrt_map using assms(2) by (rule sorted_wrt_mono_rel [rotated]) blast
  from sorted_wrt_subseq [OF assms(1) this] have "sorted_wrt (\<lambda>x y. ?R (located x) (located y)) xs"
    by (simp add: sorted_wrt_map)
  then show ?thesis by (rule sorted_wrt_mono_rel [rotated]) (use assms(3) in metis)
qed

lemma subseq_located_set:
  assumes "subseq (map located xs) (map located es)" "x \<in> set xs"
  shows "\<exists>y \<in> set es. located x = located y"
proof -
  have "located x \<in> set (map located xs)" using assms(2) by simp
  then have "located x \<in> set (map located es)" by (rule list_emb_set [OF assms(1)]) simp
  then show ?thesis by auto
qed

lemma entries_ascend: "entries_ok es \<Longrightarrow> sorted_wrt (\<lambda>x y. rr_start_abs x < rr_start_abs y) es"
proof -
  assume es: "entries_ok es"
  then have "sorted_wrt (\<lambda>x y. rr_end_abs x \<le> rr_start_abs y) es" by (simp add: entries_ok_def)
  then show ?thesis
    by (rule sorted_wrt_mono_rel [rotated]) (use es in \<open>auto simp: entries_ok_def list_all_iff intro: less_le_trans\<close>)
qed

lemma entries_inj: "entries_ok es \<Longrightarrow> inj_on rr_start_abs (set es)"
  using entries_ascend [of es] by (simp add: strict_sorted_iff distinct_map flip: sorted_wrt_map)

lemma sidecar_new_positions:
  assumes "produced cap p H es" "cap < 2 ^ 32" "ascending es"
  shows "\<exists>m. sidecar_new cap (map expected_of es) = Ok \<lparr>so_expected_by_key = m, so_last_expected_abs = None\<rparr>
     \<and> (\<forall>x \<in> set es. m (key_of_read x) = Some (rr_start_abs x)) \<and> dom m = key_of_read ` set es"
proof -
  have inv: "0 < cap" using produced_inv [OF assms(1)] by (simp add: producer_inv_def)
  from sidecar_build_positions [OF produced_placed [OF assms(1)] inv assms(2) ascending_distinct [OF assms(3)], of Map.empty]
  show ?thesis using inv by (auto simp: sidecar_new_def)
qed

lemma sidecar_silent:
  assumes "entries_ok es" "ascending es" "list_all seq_room es" "\<forall>x \<in> set es. m (key_of_read x) = Some (rr_start_abs x)"
    "subseq (map located reads) (map located es)"
  shows "\<exists>bo. observe_records sidecar_observe (observer_new \<lparr>so_expected_by_key = m, so_last_expected_abs = None\<rparr>) reads = (bo, Ok ())
     \<and> bo_violations bo = []"
proof -
  let ?bo = "observer_new \<lparr>so_expected_by_key = m, so_last_expected_abs = None\<rparr>"
  have "m (key_of_read x) = Some (rr_start_abs x)" if "x \<in> set reads" for x
    using subseq_located_set [OF assms(5) that] assms(4) by (auto simp: located_def)
  moreover have "sorted_wrt (\<lambda>x y. rr_start_abs x \<le> rr_start_abs y) reads"
    by (rule sorted_wrt_located [OF assms(5) entries_ascend [OF assms(1)]]) (auto simp: located_def)
  ultimately have "sidecar_genuine (bo_oracle ?bo) reads" by (simp add: sidecar_genuine_def observer_new_def list_all_iff)
  moreover have "ascending reads"
    unfolding ascending_def
    by (rule sorted_wrt_located [OF assms(5) assms(2) [unfolded ascending_def]]) (auto simp: located_def key_of_read_def stream_of_def)
  moreover have "seq_room x" if "x \<in> set reads" for x
    using subseq_located_set [OF assms(5) that] assms(3) by (auto simp: located_def key_of_read_def seq_room_def list_all_iff)
  ultimately show ?thesis
    using sidecar.observer_silent [of ?bo reads] by (auto simp: list_all_iff observer_new_def unseen_def map_get_or_0_def)
qed

lemma observe_sequence_grows: "\<exists>vs. bo_violations (fst (observe_sequence bo x)) = bo_violations bo @ vs"
  by (auto simp: observe_sequence_def Let_def u64_add_def)

lemma observe_records_grows: "\<exists>vs. bo_violations (fst (observe_records f bo xs)) = bo_violations bo @ vs"
proof (induction xs arbitrary: bo)
  case (Cons x xs)
  obtain orc r where f: "f (bo_oracle bo) x = (orc, r)" by (metis surj_pair)
  show ?case
  proof (cases r)
    case (Ok vs)
    let ?bo = "bo\<lparr>bo_oracle := orc, bo_violations := bo_violations bo @ vs\<rparr>"
    obtain bo' s where s: "observe_sequence ?bo x = (bo', s)" by (metis surj_pair)
    then obtain ws where "bo_violations bo' = bo_violations bo @ vs @ ws" using observe_sequence_grows [of ?bo x] by auto
    with Cons.IH [of bo'] Ok f s show ?thesis by (cases s) auto
  qed (use f in auto)
qed simp

lemma observe_sequence_quiet:
  assumes "observe_sequence bo x = (bo', Ok ())" "bo_violations bo' = bo_violations bo"
  shows "key_of_read x \<notin> bo_seen_records bo \<and> bo_seen_records bo' = insert (key_of_read x) (bo_seen_records bo)
     \<and> bo_oracle bo' = bo_oracle bo"
  using assms by (auto simp: observe_sequence_def Let_def u64_add_def split: if_splits)

lemma sidecar_quiet:
  assumes "observe_records sidecar_observe bo reads = (bo', Ok ())" "bo_violations bo' = bo_violations bo"
    "so_expected_by_key (bo_oracle bo) = m"
  shows "(\<forall>x \<in> set reads. m (key_of_read x) = Some (rr_start_abs x) \<and> key_of_read x \<notin> bo_seen_records bo)
     \<and> distinct (map key_of_read reads) \<and> sorted_wrt (\<lambda>x y. rr_start_abs x \<le> rr_start_abs y) reads
     \<and> (case so_last_expected_abs (bo_oracle bo) of None \<Rightarrow> True | Some l \<Rightarrow> \<forall>x \<in> set reads. l \<le> rr_start_abs x)"
  using assms
proof (induction reads arbitrary: bo)
  case (Cons x reads)
  obtain orc vs where orc: "sidecar_observe (bo_oracle bo) x = (orc, Ok vs)"
    by (cases "so_expected_by_key (bo_oracle bo) (key_of_read x)") (simp_all add: sidecar_observe_def)
  let ?bo = "bo\<lparr>bo_oracle := orc, bo_violations := bo_violations bo @ vs\<rparr>"
  from Cons.prems(1) orc obtain bo1 where bo1: "observe_sequence ?bo x = (bo1, Ok ())"
    and rest: "observe_records sidecar_observe bo1 reads = (bo', Ok ())"
    by (auto split: prod.splits outcome.splits)
  obtain v1 v2 where "bo_violations bo1 = bo_violations bo @ vs @ v1" "bo_violations bo' = bo_violations bo1 @ v2"
    using observe_sequence_grows [of ?bo x] observe_records_grows [of sidecar_observe bo1 reads] bo1 rest by auto
  with Cons.prems(2) have q: "vs = []" "bo_violations bo1 = bo_violations ?bo" "bo_violations bo' = bo_violations bo1" by auto
  note s = observe_sequence_quiet [OF bo1 q(2)]
  have o: "m (key_of_read x) = Some (rr_start_abs x)" "so_expected_by_key orc = m" "so_last_expected_abs orc = Some (rr_start_abs x)"
    "case so_last_expected_abs (bo_oracle bo) of None \<Rightarrow> True | Some l \<Rightarrow> l \<le> rr_start_abs x"
    using orc q(1) Cons.prems(3) by (auto simp: sidecar_observe_def split: option.splits if_splits)
  from Cons.IH [OF rest q(3)] s o show ?case by (fastforce split: option.splits)
qed (auto split: option.splits)

lemma subseq_by_position:
  assumes "sorted_wrt (\<lambda>x y. rr_start_abs x < rr_start_abs y) reads" "entries_ok es"
    "\<And>x. x \<in> set reads \<Longrightarrow> \<exists>y \<in> set es. located x = located y"
  shows "subseq (map located reads) (map located es)"
proof -
  let ?s = "rr_start_abs :: ReadRecord \<Rightarrow> nat"
  have st: "sorted_wrt (<) (map ?s reads)" "sorted_wrt (<) (map ?s es)"
    using assms(1) entries_ascend [OF assms(2)] by (simp_all add: sorted_wrt_map)
  have "set (map ?s reads) \<subseteq> set (map ?s es)" using assms(3) by (fastforce simp: located_def)
  then have sub: "subseq (map ?s reads) (map ?s es)"
    using st by (intro sorted_subset_imp_subseq) (simp_all add: strict_sorted_iff)
  have inj: "inj_on ?s (set es)" using assms(2) by (rule entries_inj)
  define g where "g a = located (the_inv_into (set es) ?s a)" for a
  have ge: "g (?s y) = located y" if "y \<in> set es" for y using the_inv_into_f_f [OF inj that] by (simp add: g_def)
  have "g (?s x) = located x" if "x \<in> set reads" for x
    using assms(3) [OF that] ge by (auto simp: located_def)
  then have "map located reads = map g (map ?s reads)" "map located es = map g (map ?s es)" using ge by simp_all
  with subseq_map [OF sub, of g] show ?thesis by metis
qed

lemma delivered_subseq:
  assumes "produced cap p H es" "schedule H \<tau>" "cap < 2 ^ 32"
    "poll_many (view H \<tau>) cap n consumer_with_store 0 = (k, Ok (c, batches))"
  shows "subseq (delivered batches) es"
proof -
  have "\<exists>p. produced cap p H es" using assms(1) by blast
  from ring_publisher.delivery [OF this assms(2-4)] show ?thesis
    using subseq_order.trans [OF _ subseq_filter_left] by blast
qed

section \<open>Properties\<close>



text \<open>No false alarm.  Under every interleaving of a producer and a polling consumer the observer with the
  sidecar oracle accepts everything the consumer delivers.\<close>

theorem sidecar_accepts_delivered:
  assumes "produced cap p H es" and "schedule H \<tau>" and "cap < 2 ^ 32"
    and "poll_many (view H \<tau>) cap n consumer_with_store 0 = (k, Ok (c, batches))"
    and "ascending es" and "list_all seq_room es"
  shows "\<exists>orc bo. sidecar_new cap (map expected_of es) = Ok orc
     \<and> observe_batches sidecar_observe (observer_new orc) batches = (bo, Ok ()) \<and> bo_violations bo = []"
proof -
  have "entries_ok es" using produced_inv [OF assms(1)] by (simp add: producer_inv_def)
  moreover have "subseq (map located (delivered batches)) (map located es)"
    by (rule subseq_map [OF delivered_subseq [OF assms(1-4)]])
  ultimately show ?thesis
    using sidecar_new_positions [OF assms(1,3,5)] sidecar_silent [OF _ assms(5,6)] observe_batches_delivered by metis
qed

theorem sidecar_accepts_delivered_witness:
  "\<exists>p H es k c batches orc bo. produced 100 p H es \<and> length es = 1
     \<and> poll_many (view H (\<lambda>_. length H - 1)) 100 1 consumer_with_store 0 = (k, Ok (c, batches))
     \<and> sidecar_new 100 (map expected_of es) = Ok orc
     \<and> observe_batches sidecar_observe (observer_new orc) batches = (bo, Ok ()) \<and> bo_violations bo = []"
proof -
  obtain p H x k c b where w: "produced 100 p H [x]" "schedule H (\<lambda>_. length H - 1)"
    "rr_record x = normalise_flags (record_new 1 2 3 4 5) True"
    "poll_many (view H (\<lambda>_. length H - 1)) 100 1 consumer_with_store 0 = (k, Ok (c, [b]))"
    using first_poll by metis
  then have r: "list_all seq_room [x]" "ascending [x]"
    by (simp_all add: seq_room_def normalise_flags_def record_new_def u64_limit_def ascending_def)
  from sidecar_accepts_delivered [OF w(1,2) _ w(4) r(2,1)] obtain orc bo where
    "sidecar_new 100 (map expected_of [x]) = Ok orc"
    "observe_batches sidecar_observe (observer_new orc) [b] = (bo, Ok ())" "bo_violations bo = []" by auto
  moreover have "length [x] = 1" by simp
  ultimately show ?thesis using w(1,4) by blast
qed

lemma embedded_position:
  assumes "find (\<lambda>slot. slot_key slot = KEY_EXPECTED_RECORD_START_ABS) (rec_slots (rr_record x)) = Some (expected_abs_slot (rr_start_abs x))"
    "rr_start_abs x < u64_limit"
  shows "expected_record_start_abs x = Ok (rr_start_abs x)"
  using assms by (simp add: expected_record_start_abs_def expected_abs_slot_def slot_new_def unat_of_nat_u64)

lemma embedded_silent:
  assumes es: "entries_ok es" and sub: "subseq (delivered batches) es" and asc: "ascending es" and room: "list_all seq_room es"
    and slots: "list_all (\<lambda>x. find (\<lambda>slot. slot_key slot = KEY_EXPECTED_RECORD_START_ABS) (rec_slots (rr_record x))
           = Some (expected_abs_slot (rr_start_abs x))) es"
  shows "\<exists>bo. observe_batches embedded_observe (observer_new ()) batches = (bo, Ok ()) \<and> bo_violations bo = []"
proof -
  have mem: "x \<in> set es" if "x \<in> set (delivered batches)" for x by (rule list_emb_set [OF sub that]) simp
  have "embedded_genuine () (delivered batches)"
    using slots es mem embedded_position by (fastforce simp: embedded_genuine_def list_all_iff entries_ok_def)
  moreover have "ascending (delivered batches)"
    using sorted_wrt_subseq [OF sub] asc by (simp add: ascending_def)
  moreover have "list_all seq_room (delivered batches)" using room mem by (simp add: list_all_iff)
  ultimately show ?thesis
    using embedded.observer_silent [of "observer_new ()" "delivered batches"]
    by (auto simp: observe_batches_delivered observer_new_def unseen_def map_get_or_0_def)
qed

text \<open>If every published record carries its own position in the synthetic slot, the embedded oracle and the
  sequence check are silent on whatever a polling consumer delivers.\<close>

theorem embedded_accepts_delivered:
  assumes "produced cap p H es" and "schedule H \<tau>" and "cap < 2 ^ 32"
    and "poll_many (view H \<tau>) cap n consumer_with_store 0 = (k, Ok (c, batches))"
    and "ascending es" and "list_all seq_room es"
    and "list_all (\<lambda>x. find (\<lambda>slot. slot_key slot = KEY_EXPECTED_RECORD_START_ABS) (rec_slots (rr_record x))
           = Some (expected_abs_slot (rr_start_abs x))) es"
  shows "\<exists>bo. observe_batches embedded_observe (observer_new ()) batches = (bo, Ok ()) \<and> bo_violations bo = []"
proof -
  have "entries_ok es" using produced_inv [OF assms(1)] by (simp add: producer_inv_def)
  from embedded_silent [OF this delivered_subseq [OF assms(1-4)] assms(5-7)] show ?thesis .
qed

end
