(* ===== verification/Shm.thy ===== *)
theory Shm
  imports Interleaving
begin

text \<open>
  The memory-mapped store of \<open>crates/open-ot-shm/src/lib.rs\<close>.  The mapping is a byte vector: 88 bytes of control
  block, padding up to \<open>DATA_OFFSET\<close>, then the byte pool of the ring.  The atomic views of the code are checked
  locations in it, and an atomic access reads or writes the little-endian bytes at a location in one step.  What
  the operating system does is an argument: \<open>map_file len\<close> is the result of creating, truncating, sizing and
  mapping the file, \<open>opened\<close> the content of an existing file or the error of opening or mapping it.  A producer
  on this store performs the stores of \<open>Concurrent\<close> between the two control-update brackets.
\<close>

section \<open>Layout\<close>

datatype FenceMode = Fenced | Unfenced

definition fence_parse :: "string \<Rightarrow> (FenceMode, string) outcome" where
  "fence_parse v =
     (if v = ''fenced'' then Ok Fenced
      else if v = ''unfenced'' then Ok Unfenced
      else Err (''invalid fence mode '' @ v @ ''; expected fenced or unfenced''))"

fun fence_as_str :: "FenceMode \<Rightarrow> string" where
  "fence_as_str Fenced = ''fenced''"
| "fence_as_str Unfenced = ''unfenced''"

datatype io_kind = InvalidInput | InvalidData | OtherKind
datatype io_error = IoError io_kind string

definition align_up :: "nat \<Rightarrow> nat \<Rightarrow> nat" where
  "align_up v alignment = ((v + alignment - 1) div alignment) * alignment"

definition DATA_OFFSET :: nat where
  "DATA_OFFSET = align_up CONTROL_BLOCK_LEN 64"

definition CONTROL_SNAPSHOT_RETRIES :: nat where
  "CONTROL_SNAPSHOT_RETRIES = 1000"

definition validate_capacity :: "nat \<Rightarrow> (unit, io_error) outcome" where
  "validate_capacity cap =
     (if cap = 0 then Err (IoError InvalidInput ''ring capacity must be non-zero'') else Ok ())"

definition validate_layout :: "(unit, 'e) outcome" where
  "validate_layout =
     (if list_all id [CONTROL_BLOCK_LEN = 88, OFF_SYNC = 0, OFF_VERSION = 4, OFF_CAPS = 5, OFF_RESERVED = 6,
          OFF_BUFFER_ID = 8, OFF_BUFFER_BYTES = 12, OFF_SEQ_LOCK = 16, OFF_RESERVED2 = 20, OFF_HEAD_ABS mod 8 = 0,
          OFF_OLDEST_ABS mod 8 = 0, OFF_LOST_COUNT mod 8 = 0, OFF_RUN_ID mod 8 = 0, OFF_EPOCH_ID mod 8 = 0,
          OFF_EPOCH_FIRST_ABS mod 8 = 0, OFF_DEFINITION_HASH = 72, OFF_PREV_DEFINITION_HASH = 80, DATA_OFFSET mod 64 = 0]
      then Ok () else Panic AssertionFailed)"

definition mapping_len :: "nat \<Rightarrow> (nat, io_error) outcome" where
  "mapping_len cap =
     (if DATA_OFFSET + cap < u64_limit then Ok (DATA_OFFSET + cap)
      else Err (IoError InvalidInput ''mapping length overflow''))"

section \<open>Atomic views\<close>

definition atomic_u8_at :: "byte_vec \<Rightarrow> nat \<Rightarrow> (nat, 'e) outcome" where
  "atomic_u8_at region offset = (if offset < length region then Ok offset else Panic AssertionFailed)"

definition atomic_u32 :: "byte_vec \<Rightarrow> nat \<Rightarrow> (nat, 'e) outcome" where
  "atomic_u32 region offset =
     (if offset mod 4 = 0 \<and> offset + 4 \<le> length region then Ok offset else Panic AssertionFailed)"

definition atomic_u64 :: "byte_vec \<Rightarrow> nat \<Rightarrow> (nat, 'e) outcome" where
  "atomic_u64 region offset =
     (if offset mod 8 = 0 \<and> offset + 8 \<le> length region then Ok offset else Panic AssertionFailed)"

definition atomic_u8 :: "nat \<Rightarrow> byte_vec \<Rightarrow> nat \<Rightarrow> (nat, 'e) outcome" where
  "atomic_u8 cap region phys =
     (if phys < cap then atomic_u8_at region (DATA_OFFSET + phys) else Panic AssertionFailed)"

definition u32_at :: "byte_vec \<Rightarrow> nat \<Rightarrow> u32" where
  "u32_at region loc = from_le_bytes (take 4 (drop loc region))"

definition u64_at :: "byte_vec \<Rightarrow> nat \<Rightarrow> u64" where
  "u64_at region loc = from_le_bytes (take 8 (drop loc region))"

definition put_u8 :: "byte_vec \<Rightarrow> nat \<Rightarrow> u8 \<Rightarrow> (byte_vec, 'e) outcome" where
  "put_u8 region offset v = and_then (atomic_u8_at region offset) (\<lambda>loc. Ok (overwrite region loc [v]))"

definition put_u32 :: "byte_vec \<Rightarrow> nat \<Rightarrow> u32 \<Rightarrow> (byte_vec, 'e) outcome" where
  "put_u32 region offset v = and_then (atomic_u32 region offset) (\<lambda>loc. Ok (overwrite region loc (u32_to_le_bytes v)))"

definition put_u64 :: "byte_vec \<Rightarrow> nat \<Rightarrow> u64 \<Rightarrow> (byte_vec, 'e) outcome" where
  "put_u64 region offset v = and_then (atomic_u64 region offset) (\<lambda>loc. Ok (overwrite region loc (u64_to_le_bytes v)))"

section \<open>Creating and opening\<close>

record SharedConcurrentStore =
  ss_region :: byte_vec
  ss_capacity :: nat
  ss_fence_mode :: FenceMode
  ss_recheck_stall :: nat

fun put_bytes :: "nat \<Rightarrow> byte_vec \<Rightarrow> byte_vec \<Rightarrow> (byte_vec, 'e) outcome" where
  "put_bytes offset [] region = Ok region"
| "put_bytes offset (b # bs) region = and_then (put_u8 region offset b) (\<lambda>region. put_bytes (Suc offset) bs region)"

definition initialize_counters :: "nat \<Rightarrow> byte_vec \<Rightarrow> (byte_vec, 'e) outcome" where
  "initialize_counters cap region =
     and_then (put_bytes 0 (replicate DATA_OFFSET 0) region) (\<lambda>region.
     and_then (put_bytes OFF_SYNC CONTROL_BLOCK_SYNC region) (\<lambda>region.
     and_then (put_u8 region OFF_VERSION 2) (\<lambda>region.
     and_then (put_u8 region OFF_CAPS 0) (\<lambda>region.
     and_then (put_u32 region OFF_BUFFER_ID DEFAULT_BUFFER_ID) (\<lambda>region.
     and_then (put_u32 region OFF_BUFFER_BYTES (if cap < 2 ^ 32 then of_nat cap else - 1)) (\<lambda>region.
     and_then (put_u32 region OFF_SEQ_LOCK 0) (\<lambda>region.
     and_then (put_u64 region OFF_HEAD_ABS 0) (\<lambda>region.
     and_then (put_u64 region OFF_OLDEST_ABS 0) (\<lambda>region.
     and_then (put_u64 region OFF_LOST_COUNT 0) (\<lambda>region.
     and_then (put_u64 region OFF_RUN_ID 0) (\<lambda>region.
     and_then (put_u64 region OFF_EPOCH_ID 0) (\<lambda>region.
       put_u64 region OFF_EPOCH_FIRST_ABS 0))))))))))))"

definition region_map :: "(byte_vec, io_error) outcome \<Rightarrow> nat \<Rightarrow> (byte_vec, io_error) outcome" where
  "region_map file len =
     (if len = 0 then Err (IoError InvalidInput ''cannot mmap zero bytes'') else file)"

definition create_with_mode ::
  "(nat \<Rightarrow> (byte_vec, io_error) outcome) \<Rightarrow> nat \<Rightarrow> FenceMode \<Rightarrow> (SharedConcurrentStore, io_error) outcome" where
  "create_with_mode map_file cap fence_mode =
     and_then (validate_capacity cap) (\<lambda>_.
     and_then validate_layout (\<lambda>_.
     and_then (mapping_len cap) (\<lambda>len.
     and_then (region_map (map_file len) len) (\<lambda>region.
     and_then (initialize_counters cap region) (\<lambda>region.
       Ok \<lparr>ss_region = region, ss_capacity = cap, ss_fence_mode = fence_mode, ss_recheck_stall = 0\<rparr>)))))"

definition open_existing_with_mode ::
  "(byte_vec, io_error) outcome \<Rightarrow> FenceMode \<Rightarrow> (SharedConcurrentStore, io_error) outcome" where
  "open_existing_with_mode opened fence_mode =
     and_then validate_layout (\<lambda>_.
     and_then opened (\<lambda>file.
     let len = length file in
     if len < DATA_OFFSET then Err (IoError InvalidData ''shared mapping shorter than control block'')
     else let cap = len - DATA_OFFSET in
       and_then (validate_capacity cap) (\<lambda>_.
       and_then (region_map opened len) (\<lambda>region.
         Ok \<lparr>ss_region = region, ss_capacity = cap, ss_fence_mode = fence_mode, ss_recheck_stall = 0\<rparr>))))"

definition with_recheck_stall :: "SharedConcurrentStore \<Rightarrow> nat \<Rightarrow> SharedConcurrentStore" where
  "with_recheck_stall store stall = store\<lparr>ss_recheck_stall := stall\<rparr>"

section \<open>Stores\<close>

datatype shared_op = BeginControlUpdate | RingStore store_op | EndControlUpdate

definition shared_store_byte :: "nat \<Rightarrow> byte_vec \<Rightarrow> nat \<Rightarrow> u8 \<Rightarrow> (byte_vec, 'e) outcome" where
  "shared_store_byte cap region phys v = and_then (atomic_u8 cap region phys) (\<lambda>loc. Ok (overwrite region loc [v]))"

definition shared_store_head :: "byte_vec \<Rightarrow> nat \<Rightarrow> (byte_vec, 'e) outcome" where
  "shared_store_head region v = put_u64 region OFF_HEAD_ABS (of_nat v)"

definition shared_store_oldest :: "byte_vec \<Rightarrow> nat \<Rightarrow> (byte_vec, 'e) outcome" where
  "shared_store_oldest region v = put_u64 region OFF_OLDEST_ABS (of_nat v)"

definition shared_fetch_add_lost :: "byte_vec \<Rightarrow> nat \<Rightarrow> (byte_vec, 'e) outcome" where
  "shared_fetch_add_lost region v =
     and_then (atomic_u64 region OFF_LOST_COUNT) (\<lambda>loc.
       Ok (overwrite region loc (u64_to_le_bytes (u64_at region loc + of_nat v))))"

definition begin_control_update :: "byte_vec \<Rightarrow> (byte_vec, 'e) outcome" where
  "begin_control_update region =
     and_then (atomic_u32 region OFF_SEQ_LOCK) (\<lambda>loc.
       let previous = u32_at region loc;
           region = overwrite region loc (u32_to_le_bytes (previous + 1))
       in if even previous then Ok region else Panic AssertionFailed)"

definition end_control_update_release :: "byte_vec \<Rightarrow> (byte_vec, 'e) outcome" where
  "end_control_update_release region =
     and_then (atomic_u32 region OFF_SEQ_LOCK) (\<lambda>loc.
       let previous = u32_at region loc;
           region = overwrite region loc (u32_to_le_bytes (previous + 1))
       in if odd previous then Ok region else Panic AssertionFailed)"

fun shared_perform :: "nat \<Rightarrow> shared_op \<Rightarrow> byte_vec \<Rightarrow> (byte_vec, 'e) outcome" where
  "shared_perform cap BeginControlUpdate region = begin_control_update region"
| "shared_perform cap (RingStore (StoreByte phys v)) region = shared_store_byte cap region phys v"
| "shared_perform cap (RingStore (StoreHead v)) region = shared_store_head region v"
| "shared_perform cap (RingStore (StoreOldest v)) region = shared_store_oldest region v"
| "shared_perform cap (RingStore (AddLost v)) region = shared_fetch_add_lost region v"
| "shared_perform cap EndControlUpdate region = end_control_update_release region"

fun shared_perform_all :: "nat \<Rightarrow> shared_op list \<Rightarrow> byte_vec \<Rightarrow> (byte_vec list, 'e) outcome" where
  "shared_perform_all cap [] region = Ok []"
| "shared_perform_all cap (op # ops) region =
     and_then (shared_perform cap op region) (\<lambda>region.
     and_then (shared_perform_all cap ops region) (\<lambda>regions. Ok (region # regions)))"

definition bracketed :: "store_op list \<Rightarrow> shared_op list" where
  "bracketed ops = BeginControlUpdate # map RingStore ops @ [EndControlUpdate]"

section \<open>The publisher\<close>

record SharedRecordPublisher =
  sp_producer :: ConcurrentProducer
  sp_store :: SharedConcurrentStore

definition publisher_with_store :: "SharedConcurrentStore \<Rightarrow> SharedRecordPublisher" where
  "publisher_with_store store = \<lparr>sp_producer = producer_with_store, sp_store = store\<rparr>"

definition publisher_create ::
  "(nat \<Rightarrow> (byte_vec, io_error) outcome) \<Rightarrow> nat \<Rightarrow> FenceMode \<Rightarrow> (SharedRecordPublisher, io_error) outcome" where
  "publisher_create map_file cap fence_mode =
     and_then (create_with_mode map_file cap fence_mode) (\<lambda>store. Ok (publisher_with_store store))"

definition publisher_open_existing ::
  "(byte_vec, io_error) outcome \<Rightarrow> FenceMode \<Rightarrow> (SharedRecordPublisher, io_error) outcome" where
  "publisher_open_existing opened fence_mode =
     and_then (open_existing_with_mode opened fence_mode) (\<lambda>store. Ok (publisher_with_store store))"

definition publisher_perform ::
  "SharedRecordPublisher \<Rightarrow> ConcurrentProducer \<times> store_op list \<Rightarrow> (SharedRecordPublisher \<times> byte_vec list, RingError) outcome" where
  "publisher_perform s step =
     (case step of (p, ops) \<Rightarrow>
       and_then (shared_perform_all (ss_capacity (sp_store s)) (bracketed ops) (ss_region (sp_store s))) (\<lambda>regions.
         Ok (\<lparr>sp_producer = p, sp_store = (sp_store s)\<lparr>ss_region := last regions\<rparr>\<rparr>, regions)))"

definition append_record :: "SharedRecordPublisher \<Rightarrow> Record \<Rightarrow> (SharedRecordPublisher \<times> byte_vec list, RingError) outcome" where
  "append_record s r =
     and_then (publish_record (ss_capacity (sp_store s)) (sp_producer s) r) (publisher_perform s)"

definition publisher_append_encoded ::
  "SharedRecordPublisher \<Rightarrow> byte_vec \<Rightarrow> (SharedRecordPublisher \<times> byte_vec list, RingError) outcome" where
  "publisher_append_encoded s bytes =
     and_then (append_encoded (ss_capacity (sp_store s)) (sp_producer s) bytes) (publisher_perform s)"

section \<open>Loads\<close>

type_synonym mapped = "nat \<Rightarrow> byte_vec"

definition shared_load_byte :: "mapped \<Rightarrow> nat \<Rightarrow> nat \<Rightarrow> nat \<Rightarrow> nat \<times> (u8, 'e) outcome" where
  "shared_load_byte smem cap phys k = (Suc k, and_then (atomic_u8 cap (smem k) phys) (\<lambda>loc. Ok (smem k ! loc)))"

definition load_u8_at :: "mapped \<Rightarrow> nat \<Rightarrow> nat \<Rightarrow> nat \<times> (u8, 'e) outcome" where
  "load_u8_at smem offset k = (Suc k, and_then (atomic_u8_at (smem k) offset) (\<lambda>loc. Ok (smem k ! loc)))"

definition load_u32 :: "mapped \<Rightarrow> nat \<Rightarrow> nat \<Rightarrow> nat \<times> (u32, 'e) outcome" where
  "load_u32 smem offset k = (Suc k, and_then (atomic_u32 (smem k) offset) (\<lambda>loc. Ok (u32_at (smem k) loc)))"

definition load_u64 :: "mapped \<Rightarrow> nat \<Rightarrow> nat \<Rightarrow> nat \<times> (u64, 'e) outcome" where
  "load_u64 smem offset k = (Suc k, and_then (atomic_u64 (smem k) offset) (\<lambda>loc. Ok (u64_at (smem k) loc)))"

definition shared_load_head :: "mapped \<Rightarrow> nat \<Rightarrow> nat \<times> (nat, 'e) outcome" where
  "shared_load_head smem k = load_then (load_u64 smem OFF_HEAD_ABS k) (\<lambda>k v. (k, Ok (unat v)))"

definition shared_load_oldest :: "mapped \<Rightarrow> nat \<Rightarrow> nat \<times> (nat, 'e) outcome" where
  "shared_load_oldest smem k = load_then (load_u64 smem OFF_OLDEST_ABS k) (\<lambda>k v. (k, Ok (unat v)))"

definition shared_load_lost :: "mapped \<Rightarrow> nat \<Rightarrow> nat \<times> (nat, 'e) outcome" where
  "shared_load_lost smem k = load_then (load_u64 smem OFF_LOST_COUNT k) (\<lambda>k v. (k, Ok (unat v)))"

definition read_u64_bytes :: "mapped \<Rightarrow> byte_vec \<Rightarrow> nat \<Rightarrow> nat \<Rightarrow> nat \<times> (byte_vec, 'e) outcome" where
  "read_u64_bytes smem bytes offset k =
     load_then (load_u64 smem offset k) (\<lambda>k v. (k, vec_copy bytes offset (u64_to_le_bytes v)))"

definition read_u32_bytes :: "mapped \<Rightarrow> byte_vec \<Rightarrow> nat \<Rightarrow> nat \<Rightarrow> nat \<times> (byte_vec, 'e) outcome" where
  "read_u32_bytes smem bytes offset k =
     load_then (load_u32 smem offset k) (\<lambda>k v. (k, vec_copy bytes offset (u32_to_le_bytes v)))"

primrec load_image :: "mapped \<Rightarrow> nat \<Rightarrow> nat \<Rightarrow> nat \<Rightarrow> nat \<times> (byte_vec, 'e) outcome" where
  "load_image smem 0 offset k = (k, Ok [])"
| "load_image smem (Suc n) offset k =
     load_then (load_u8_at smem offset k) (\<lambda>k b.
     load_then (load_image smem n (Suc offset) k) (\<lambda>k bs. (k, Ok (b # bs))))"

definition read_control_image :: "mapped \<Rightarrow> u32 \<Rightarrow> nat \<Rightarrow> nat \<times> (byte_vec, 'e) outcome" where
  "read_control_image smem seq_lock k =
     load_then (load_image smem CONTROL_BLOCK_LEN 0 k) (\<lambda>k bytes.
     load_then (k, vec_copy bytes OFF_SEQ_LOCK (u32_to_le_bytes seq_lock)) (\<lambda>k bytes.
     load_then (read_u32_bytes smem bytes OFF_BUFFER_ID k) (\<lambda>k bytes.
     load_then (read_u32_bytes smem bytes OFF_BUFFER_BYTES k) (\<lambda>k bytes.
     load_then (read_u64_bytes smem bytes OFF_HEAD_ABS k) (\<lambda>k bytes.
     load_then (read_u64_bytes smem bytes OFF_OLDEST_ABS k) (\<lambda>k bytes.
     load_then (read_u64_bytes smem bytes OFF_LOST_COUNT k) (\<lambda>k bytes.
     load_then (read_u64_bytes smem bytes OFF_RUN_ID k) (\<lambda>k bytes.
     load_then (read_u64_bytes smem bytes OFF_EPOCH_ID k) (\<lambda>k bytes.
       read_u64_bytes smem bytes OFF_EPOCH_FIRST_ABS k)))))))))"

primrec snapshot_attempts ::
  "mapped \<Rightarrow> nat \<Rightarrow> ControlBlockError \<Rightarrow> nat \<Rightarrow> nat \<times> (ControlBlockSnapshot, ControlBlockError) outcome" where
  "snapshot_attempts smem 0 last_error k = (k, Err last_error)"
| "snapshot_attempts smem (Suc n) last_error k =
     load_then (load_u32 smem OFF_SEQ_LOCK k) (\<lambda>k first.
     if odd first then snapshot_attempts smem n (Updating first) k
     else load_then (read_control_image smem first k) (\<lambda>k bytes.
       load_then (load_u32 smem OFF_SEQ_LOCK k) (\<lambda>k second.
         case decode_with_locks bytes first second of
           Ok snapshot \<Rightarrow> (k, Ok snapshot)
         | Err (Updating seq_lock) \<Rightarrow> snapshot_attempts smem n (Updating seq_lock) k
         | Err (StaleSnapshot a b) \<Rightarrow> snapshot_attempts smem n (StaleSnapshot a b) k
         | Err error \<Rightarrow> (k, Err error)
         | Panic q \<Rightarrow> (k, Panic q))))"

definition shared_read_control_snapshot :: "mapped \<Rightarrow> nat \<Rightarrow> nat \<times> (ControlBlockSnapshot, ControlBlockError) outcome" where
  "shared_read_control_snapshot smem k = snapshot_attempts smem CONTROL_SNAPSHOT_RETRIES (Updating 1) k"

definition shared_snapshot :: "mapped \<Rightarrow> nat \<Rightarrow> ControlBlockSnapshot loads" where
  "shared_snapshot smem k = (case shared_read_control_snapshot smem k of (k, r) \<Rightarrow> (k, map_err ControlBlock r))"

end
