(* ===== verification/Report.thy ===== *)
theory Report
  imports Conformance Text Shm
begin

text \<open>
  The observed report of \<open>crates/conformance/src/lib.rs\<close>: how it is built from the counters of a consumer, the
  text that \<open>write\<close> puts in a file and \<open>read\<close> parses, the checks of a fenced run and the evidence of an unfenced
  one.  The file system is not modelled: a report is written to and read from its text.
\<close>

section \<open>Data\<close>

record ExpectedSource =
  xs_run_id :: u64
  xs_source_id :: u32
  xs_expected_total :: nat

record SourceObserved =
  os_run_id :: u64
  os_source_id :: u32
  os_expected_total :: nat
  os_delivered :: nat
  os_lost :: nat

record ObservationMetadata =
  md_mode :: string
  md_append_mode :: string
  md_fence_mode :: FenceMode

record ReportInputs =
  ri_metadata :: ObservationMetadata
  ri_expected_sources :: "ExpectedSource list"
  ri_raw :: ConcurrentRawConsumer
  ri_accounting :: LossAccountingConsumer
  ri_poll_errors :: nat
  ri_stale_violations :: "StaleViolation list"

record ObservedReport =
  rp_mode :: string
  rp_fence_mode :: FenceMode
  rp_append_mode :: string
  rp_cap :: nat
  rp_head_abs :: nat
  rp_lost_count :: nat
  rp_lapped_batches :: nat
  rp_overwritten_retries :: nat
  rp_rejected_records :: nat
  rp_poll_errors :: nat
  rp_delivered_total :: nat
  rp_lost_total :: nat
  rp_stale_violations :: "StaleViolation list"
  rp_sources :: "SourceObserved list"

section \<open>Building a report\<close>

fun observe_sources ::
  "LossAccountingConsumer \<Rightarrow> ExpectedSource list \<Rightarrow> (SourceObserved list, 'e) outcome" where
  "observe_sources accounting [] = Ok []"
| "observe_sources accounting (expected # es) =
     (let delivered = lac_delivered_in_run accounting (xs_run_id expected) (xs_source_id expected)
      in and_then (lac_lost_in_run accounting (xs_run_id expected) (xs_source_id expected)) (\<lambda>lost.
         and_then (observe_sources accounting es) (\<lambda>rest.
           Ok (\<lparr>os_run_id = xs_run_id expected, os_source_id = xs_source_id expected,
                os_expected_total = xs_expected_total expected, os_delivered = delivered, os_lost = lost\<rparr> # rest))))"

fun u64_sum :: "nat \<Rightarrow> nat list \<Rightarrow> (nat, 'e) outcome" where
  "u64_sum acc [] = Ok acc"
| "u64_sum acc (n # ns) = and_then (u64_add acc n) (\<lambda>acc. u64_sum acc ns)"

definition from_consumer :: "observed \<Rightarrow> nat \<Rightarrow> ReportInputs \<Rightarrow> nat \<Rightarrow> ObservedReport loads" where
  "from_consumer mem cap inputs k =
     load_then (k, observe_sources (ri_accounting inputs) (ri_expected_sources inputs)) (\<lambda>k observed_sources.
     load_then (k, u64_sum 0 (map os_delivered observed_sources)) (\<lambda>k delivered_total.
     load_then (k, u64_sum 0 (map os_lost observed_sources)) (\<lambda>k lost_total.
     load_then (load_head_acquire mem k) (\<lambda>k head_abs.
     load_then (load_lost_acquire mem k) (\<lambda>k lost_count.
       (k, Ok \<lparr>rp_mode = md_mode (ri_metadata inputs), rp_fence_mode = md_fence_mode (ri_metadata inputs),
               rp_append_mode = md_append_mode (ri_metadata inputs), rp_cap = cap, rp_head_abs = head_abs,
               rp_lost_count = lost_count, rp_lapped_batches = cc_lapped_batches (ri_raw inputs),
               rp_overwritten_retries = cc_overwritten_retries (ri_raw inputs),
               rp_rejected_records = cc_rejected_records (ri_raw inputs), rp_poll_errors = ri_poll_errors inputs,
               rp_delivered_total = delivered_total, rp_lost_total = lost_total,
               rp_stale_violations = ri_stale_violations inputs, rp_sources = observed_sources\<rparr>))))))"

section \<open>Writing\<close>

definition stale_words :: "StaleViolation \<Rightarrow> string list" where
  "stale_words stale =
     [''stale'', violation_as_str (sv_kind stale), decimal (unat (sv_source_id stale)), decimal (unat (sv_seq stale)),
      decimal (sv_expected_abs stale), decimal (sv_actual_abs stale), bool_text (sv_crc_passed stale)]"

definition source_words :: "SourceObserved \<Rightarrow> string list" where
  "source_words source =
     [''source'', decimal (unat (os_run_id source)), decimal (unat (os_source_id source)),
      decimal (os_expected_total source), decimal (os_delivered source), decimal (os_lost source)]"

definition report_lines :: "ObservedReport \<Rightarrow> string list list" where
  "report_lines r =
     [[''report_version'', ''2''],
      [''mode'', rp_mode r],
      [''fence'', fence_as_str (rp_fence_mode r)],
      [''append_mode'', rp_append_mode r],
      [''cap'', decimal (rp_cap r)],
      [''head_abs'', decimal (rp_head_abs r)],
      [''lost_count'', decimal (rp_lost_count r)],
      [''lapped_batches'', decimal (rp_lapped_batches r)],
      [''overwritten_retries'', decimal (rp_overwritten_retries r)],
      [''rejected_records'', decimal (rp_rejected_records r)],
      [''poll_errors'', decimal (rp_poll_errors r)],
      [''delivered_total'', decimal (rp_delivered_total r)],
      [''lost_total'', decimal (rp_lost_total r)],
      [''stale_violations'', decimal (length (rp_stale_violations r))]]
     @ map stale_words (rp_stale_violations r) @ map source_words (rp_sources r)"

definition report_write :: "ObservedReport \<Rightarrow> string" where
  "report_write r = concat (map (\<lambda>ws. spaced ws @ [CHR 0x0A]) (report_lines r))"

section \<open>Reading\<close>

definition parse_value :: "(string \<Rightarrow> 'a option) \<Rightarrow> string \<Rightarrow> string \<Rightarrow> ('a, ConformanceError) outcome" where
  "parse_value from_str v field_name =
     (case from_str v of
        Some a \<Rightarrow> Ok a
      | None \<Rightarrow> Err (ConformanceError (''invalid value for '' @ field_name @ '': '' @ v)))"

definition parse_u64 :: "string \<Rightarrow> nat option" where "parse_u64 = parse_unsigned u64_limit"
definition parse_u32 :: "string \<Rightarrow> nat option" where "parse_u32 = parse_unsigned (2 ^ 32)"

record ReportParse =
  pp_mode :: "string option"
  pp_fence_mode :: "FenceMode option"
  pp_append_mode :: "string option"
  pp_cap :: "nat option"
  pp_head_abs :: "nat option"
  pp_lost_count :: "nat option"
  pp_lapped_batches :: "nat option"
  pp_overwritten_retries :: "nat option"
  pp_rejected_records :: "nat option"
  pp_poll_errors :: "nat option"
  pp_delivered_total :: "nat option"
  pp_lost_total :: "nat option"
  pp_stale_count :: "nat option"
  pp_stale_violations :: "StaleViolation list"
  pp_sources :: "SourceObserved list"

definition report_parse_init :: ReportParse where
  "report_parse_init =
     \<lparr>pp_mode = None, pp_fence_mode = None, pp_append_mode = None, pp_cap = None, pp_head_abs = None,
      pp_lost_count = None, pp_lapped_batches = None, pp_overwritten_retries = None, pp_rejected_records = None,
      pp_poll_errors = Some 0, pp_delivered_total = None, pp_lost_total = None, pp_stale_count = None,
      pp_stale_violations = [], pp_sources = []\<rparr>"

definition parse_stale ::
  "(ViolationKind, ConformanceError) outcome \<Rightarrow> string \<Rightarrow> string \<Rightarrow> string \<Rightarrow> string \<Rightarrow> string \<Rightarrow>
     (StaleViolation, ConformanceError) outcome" where
  "parse_stale kind source_id seq expected_abs actual_abs crc_passed =
     and_then kind (\<lambda>kind.
     and_then (parse_value parse_u32 source_id ''stale source_id'') (\<lambda>source_id.
     and_then (parse_value parse_u64 seq ''stale seq'') (\<lambda>seq.
     and_then (parse_value parse_u64 expected_abs ''stale expected_abs'') (\<lambda>expected_abs.
     and_then (parse_value parse_u64 actual_abs ''stale actual_abs'') (\<lambda>actual_abs.
     and_then (parse_value parse_bool crc_passed ''stale crc_passed'') (\<lambda>crc_passed.
       Ok \<lparr>sv_kind = kind, sv_source_id = of_nat source_id, sv_seq = of_nat seq, sv_expected_abs = expected_abs,
           sv_actual_abs = actual_abs, sv_crc_passed = crc_passed\<rparr>))))))"

definition parse_source ::
  "(nat, ConformanceError) outcome \<Rightarrow> string \<Rightarrow> string \<Rightarrow> string \<Rightarrow> string \<Rightarrow> (SourceObserved, ConformanceError) outcome" where
  "parse_source run_id source_id expected_total del lost =
     and_then run_id (\<lambda>run_id.
     and_then (parse_value parse_u32 source_id ''source source_id'') (\<lambda>source_id.
     and_then (parse_value parse_u64 expected_total ''source expected_total'') (\<lambda>expected_total.
     and_then (parse_value parse_u64 del ''source delivered'') (\<lambda>del.
     and_then (parse_value parse_u64 lost ''source lost'') (\<lambda>lost.
       Ok \<lparr>os_run_id = of_nat run_id, os_source_id = of_nat source_id, os_expected_total = expected_total,
           os_delivered = del, os_lost = lost\<rparr>)))))"

definition parse_pair :: "ReportParse \<Rightarrow> string \<Rightarrow> string \<Rightarrow> string \<Rightarrow> (ReportParse, ConformanceError) outcome" where
  "parse_pair st line name v =
     (if name = ''report_version'' \<and> v = ''2'' then Ok st
      else if name = ''mode'' then Ok (st\<lparr>pp_mode := Some v\<rparr>)
      else if name = ''fence'' then
        and_then (map_err ConformanceError (fence_parse v)) (\<lambda>f. Ok (st\<lparr>pp_fence_mode := Some f\<rparr>))
      else if name = ''append_mode'' then Ok (st\<lparr>pp_append_mode := Some v\<rparr>)
      else if name = ''cap'' then and_then (parse_value parse_u64 v ''cap'') (\<lambda>n. Ok (st\<lparr>pp_cap := Some n\<rparr>))
      else if name = ''head_abs'' then and_then (parse_value parse_u64 v ''head_abs'') (\<lambda>n. Ok (st\<lparr>pp_head_abs := Some n\<rparr>))
      else if name = ''lost_count'' then
        and_then (parse_value parse_u64 v ''lost_count'') (\<lambda>n. Ok (st\<lparr>pp_lost_count := Some n\<rparr>))
      else if name = ''lapped_batches'' then
        and_then (parse_value parse_u64 v ''lapped_batches'') (\<lambda>n. Ok (st\<lparr>pp_lapped_batches := Some n\<rparr>))
      else if name = ''overwritten_retries'' then
        and_then (parse_value parse_u64 v ''overwritten_retries'') (\<lambda>n. Ok (st\<lparr>pp_overwritten_retries := Some n\<rparr>))
      else if name = ''rejected_records'' then
        and_then (parse_value parse_u64 v ''rejected_records'') (\<lambda>n. Ok (st\<lparr>pp_rejected_records := Some n\<rparr>))
      else if name = ''poll_errors'' then
        and_then (parse_value parse_u64 v ''poll_errors'') (\<lambda>n. Ok (st\<lparr>pp_poll_errors := Some n\<rparr>))
      else if name = ''delivered_total'' then
        and_then (parse_value parse_u64 v ''delivered_total'') (\<lambda>n. Ok (st\<lparr>pp_delivered_total := Some n\<rparr>))
      else if name = ''lost_total'' then
        and_then (parse_value parse_u64 v ''lost_total'') (\<lambda>n. Ok (st\<lparr>pp_lost_total := Some n\<rparr>))
      else if name = ''stale_violations'' then
        and_then (parse_value parse_u64 v ''stale_violations'') (\<lambda>n. Ok (st\<lparr>pp_stale_count := Some n\<rparr>))
      else Err (ConformanceError (''invalid observed line: '' @ line)))"

definition add_stale :: "ReportParse \<Rightarrow> (StaleViolation, ConformanceError) outcome \<Rightarrow> (ReportParse, ConformanceError) outcome" where
  "add_stale st r = and_then r (\<lambda>v. Ok (st\<lparr>pp_stale_violations := pp_stale_violations st @ [v]\<rparr>))"

definition add_source :: "ReportParse \<Rightarrow> (SourceObserved, ConformanceError) outcome \<Rightarrow> (ReportParse, ConformanceError) outcome" where
  "add_source st r = and_then r (\<lambda>v. Ok (st\<lparr>pp_sources := pp_sources st @ [v]\<rparr>))"

definition parse_line :: "ReportParse \<Rightarrow> string \<Rightarrow> (ReportParse, ConformanceError) outcome" where
  "parse_line st line =
     (let invalid = Err (ConformanceError (''invalid observed line: '' @ line))
      in case split_whitespace line of
           [name, v] \<Rightarrow> parse_pair st line name v
         | [name, a, b, c, d, e, f] \<Rightarrow>
             if name = ''stale'' then add_stale st (parse_stale (violation_parse a) b c d e f) else invalid
         | [name, a, b, c, d, e] \<Rightarrow>
             if name = ''stale'' then add_stale st (parse_stale (Ok ExpectedAbsMismatch) a b c d e)
             else if name = ''source'' then add_source st (parse_source (parse_value parse_u64 a ''source run_id'') b c d e)
             else invalid
         | [name, a, b, c, d] \<Rightarrow>
             if name = ''source'' then add_source st (parse_source (Ok 0) a b c d) else invalid
         | _ \<Rightarrow> invalid)"

fun parse_lines :: "ReportParse \<Rightarrow> string list \<Rightarrow> (ReportParse, ConformanceError) outcome" where
  "parse_lines st [] = Ok st"
| "parse_lines st (line # ls) = and_then (parse_line st line) (\<lambda>st. parse_lines st ls)"

definition present :: "'a option \<Rightarrow> string \<Rightarrow> ('a, ConformanceError) outcome" where
  "present v name = (case v of Some a \<Rightarrow> Ok a | None \<Rightarrow> Err (ConformanceError (''missing '' @ name)))"

definition report_read :: "string \<Rightarrow> (ObservedReport, ConformanceError) outcome" where
  "report_read content =
     and_then (parse_lines report_parse_init (str_lines content)) (\<lambda>st.
     if pp_stale_count st \<noteq> Some (length (pp_stale_violations st))
     then Err (ConformanceError ''stale_violations count mismatch'')
     else
       and_then (present (pp_mode st) ''mode'') (\<lambda>mode.
       and_then (present (pp_fence_mode st) ''fence'') (\<lambda>fence_mode.
       and_then (present (pp_append_mode st) ''append_mode'') (\<lambda>append_mode.
       and_then (present (pp_cap st) ''cap'') (\<lambda>cap.
       and_then (present (pp_head_abs st) ''head_abs'') (\<lambda>head_abs.
       and_then (present (pp_lost_count st) ''lost_count'') (\<lambda>lost_count.
       and_then (present (pp_lapped_batches st) ''lapped_batches'') (\<lambda>lapped_batches.
       and_then (present (pp_overwritten_retries st) ''overwritten_retries'') (\<lambda>overwritten_retries.
       and_then (present (pp_rejected_records st) ''rejected_records'') (\<lambda>rejected_records.
       and_then (present (pp_poll_errors st) ''poll_errors'') (\<lambda>poll_errors.
       and_then (present (pp_delivered_total st) ''delivered_total'') (\<lambda>delivered_total.
       and_then (present (pp_lost_total st) ''lost_total'') (\<lambda>lost_total.
         Ok \<lparr>rp_mode = mode, rp_fence_mode = fence_mode, rp_append_mode = append_mode, rp_cap = cap,
             rp_head_abs = head_abs, rp_lost_count = lost_count, rp_lapped_batches = lapped_batches,
             rp_overwritten_retries = overwritten_retries, rp_rejected_records = rejected_records,
             rp_poll_errors = poll_errors, rp_delivered_total = delivered_total, rp_lost_total = lost_total,
             rp_stale_violations = pp_stale_violations st, rp_sources = pp_sources st\<rparr>)))))))))))))"

definition report_summary_line :: "ObservedReport \<Rightarrow> string" where
  "report_summary_line r =
     ''summary: mode='' @ rp_mode r @ '' fence='' @ fence_as_str (rp_fence_mode r) @ '' append_mode='' @ rp_append_mode r
     @ '' cap='' @ decimal (rp_cap r) @ '' head_abs='' @ decimal (rp_head_abs r) @ '' lost_count='' @ decimal (rp_lost_count r)
     @ '' delivered='' @ decimal (rp_delivered_total r) @ '' lost='' @ decimal (rp_lost_total r)
     @ '' lapped='' @ decimal (rp_lapped_batches r) @ '' retries='' @ decimal (rp_overwritten_retries r)
     @ '' rejected='' @ decimal (rp_rejected_records r) @ '' poll_errors='' @ decimal (rp_poll_errors r)
     @ '' stale='' @ decimal (length (rp_stale_violations r))"

section \<open>Checks\<close>

fun assert_sources :: "SourceObserved list \<Rightarrow> (unit, ConformanceError) outcome" where
  "assert_sources [] = Ok ()"
| "assert_sources (source # sources) =
     and_then (u64_add (os_delivered source) (os_lost source)) (\<lambda>total.
     if total \<noteq> os_expected_total source
     then Err (ConformanceError (''source '' @ decimal (unat (os_source_id source)) @ '' run '' @ decimal (unat (os_run_id source))
            @ '' reconciliation failed: delivered='' @ decimal (os_delivered source) @ '' lost='' @ decimal (os_lost source)
            @ '' expected_total='' @ decimal (os_expected_total source)))
     else assert_sources sources)"

definition assert_fenced :: "ObservedReport \<Rightarrow> nat option \<Rightarrow> bool \<Rightarrow> (unit, ConformanceError) outcome" where
  "assert_fenced r min_head_abs require_retention_pressure =
     (if rp_delivered_total r = 0 then Err (ConformanceError ''consumer made no progress'')
      else if (case min_head_abs of None \<Rightarrow> False | Some m \<Rightarrow> rp_head_abs r \<le> m)
      then Err (ConformanceError (''insufficient absolute progress: head_abs='' @ decimal (rp_head_abs r)
             @ '' min='' @ decimal (the min_head_abs)))
      else if require_retention_pressure \<and> rp_lost_count r = 0
      then Err (ConformanceError ''producer did not report ring evictions'')
      else if rp_rejected_records r \<noteq> 0
      then Err (ConformanceError (''fenced run rejected '' @ decimal (rp_rejected_records r) @ '' records''))
      else if rp_poll_errors r \<noteq> 0
      then Err (ConformanceError (''fenced run captured '' @ decimal (rp_poll_errors r) @ '' poll errors''))
      else if rp_stale_violations r \<noteq> []
      then Err (ConformanceError (''fenced run accepted stale records: '' @ decimal (length (rp_stale_violations r))))
      else assert_sources (rp_sources r))"

record UnfencedEvidence =
  ue_fence_mode :: FenceMode
  ue_hazard_observed :: bool
  ue_stale_violations :: nat
  ue_rejected_records :: nat
  ue_poll_errors :: nat
  ue_overwritten_retries :: nat
  ue_lapped_batches :: nat
  ue_delivered_total :: nat
  ue_lost_total :: nat
  ue_lost_count :: nat

definition unfenced_evidence :: "ObservedReport \<Rightarrow> UnfencedEvidence" where
  "unfenced_evidence r =
     (let stale = length (rp_stale_violations r)
      in \<lparr>ue_fence_mode = rp_fence_mode r,
          ue_hazard_observed = (stale > 0 \<or> rp_rejected_records r > 0 \<or> rp_poll_errors r > 0),
          ue_stale_violations = stale, ue_rejected_records = rp_rejected_records r, ue_poll_errors = rp_poll_errors r,
          ue_overwritten_retries = rp_overwritten_retries r, ue_lapped_batches = rp_lapped_batches r,
          ue_delivered_total = rp_delivered_total r, ue_lost_total = rp_lost_total r, ue_lost_count = rp_lost_count r\<rparr>)"

definition evidence_outcome :: "UnfencedEvidence \<Rightarrow> string" where
  "evidence_outcome e = (if ue_hazard_observed e then ''hazard-observed'' else ''non-reproduction'')"

definition non_reproduction_note :: string where
  "non_reproduction_note = ''non-reproduction, NOT proof of safety''"

definition evidence_summary_line :: "UnfencedEvidence \<Rightarrow> string" where
  "evidence_summary_line e =
     ''unfenced_evidence: outcome='' @ evidence_outcome e @ '' fence='' @ fence_as_str (ue_fence_mode e)
     @ '' stale='' @ decimal (ue_stale_violations e) @ '' rejected='' @ decimal (ue_rejected_records e)
     @ '' poll_errors='' @ decimal (ue_poll_errors e) @ '' retries='' @ decimal (ue_overwritten_retries e)
     @ '' lapped='' @ decimal (ue_lapped_batches e) @ '' delivered='' @ decimal (ue_delivered_total e)
     @ '' lost='' @ decimal (ue_lost_total e) @ '' lost_count='' @ decimal (ue_lost_count e)"

section \<open>The written text is read back\<close>

definition report_ok :: "ObservedReport \<Rightarrow> bool" where
  "report_ok r \<longleftrightarrow> word_text (rp_mode r) \<and> word_text (rp_append_mode r)
     \<and> list_all (\<lambda>n. n < u64_limit) [rp_cap r, rp_head_abs r, rp_lost_count r, rp_lapped_batches r, rp_overwritten_retries r,
          rp_rejected_records r, rp_poll_errors r, rp_delivered_total r, rp_lost_total r, length (rp_stale_violations r)]
     \<and> list_all (\<lambda>v. sv_expected_abs v < u64_limit \<and> sv_actual_abs v < u64_limit) (rp_stale_violations r)
     \<and> list_all (\<lambda>s. os_expected_total s < u64_limit \<and> os_delivered s < u64_limit \<and> os_lost s < u64_limit) (rp_sources r)"

lemma parse_value_u64 [simp]: "n < u64_limit \<Longrightarrow> parse_value parse_u64 (decimal n) f = Ok n"
  by (simp add: parse_value_def parse_u64_def)

lemma parse_value_u32 [simp]: "parse_value parse_u32 (decimal (unat (w :: u32))) f = Ok (unat w)"
  using unat_less_pow [of w] by (simp add: parse_value_def parse_u32_def)

lemma parse_value_bool [simp]: "parse_value parse_bool (bool_text b) f = Ok b"
  by (simp add: parse_value_def)

lemma violation_parse_as_str [simp]: "violation_parse (violation_as_str v) = Ok v"
  by (cases v) (simp_all add: violation_parse_def)

lemma fence_parse_as_str [simp]: "fence_parse (fence_as_str m) = Ok m"
  by (cases m) (simp_all add: fence_parse_def)

lemma word_literals [simp]:
  "word_text (violation_as_str v)" "word_text (fence_as_str m)" "word_text (bool_text b)"
  by ((cases v; simp), (cases m; simp), (cases b; simp add: bool_text_def))

lemma report_words: "report_ok r \<Longrightarrow> list_all (list_all word_text) (report_lines r)"
  by (auto simp: report_ok_def report_lines_def stale_words_def source_words_def list_all_iff)

lemma lines_of_report: "report_ok r \<Longrightarrow> str_lines (report_write r) = map spaced (report_lines r)"
  using str_lines_text [of "map spaced (report_lines r)"] report_words [of r]
  by (simp add: report_write_def text_of_lines_def comp_def list_all_iff line_of_words)

lemma parse_lines_append:
  "parse_lines st (xs @ ys) = and_then (parse_lines st xs) (\<lambda>st. parse_lines st ys)"
  by (induction xs arbitrary: st) (simp_all add: and_then_assoc)

lemma parse_stale_lines:
  assumes "list_all (\<lambda>v. sv_expected_abs v < u64_limit \<and> sv_actual_abs v < u64_limit) vs"
  shows "parse_lines st (map (spaced \<circ> stale_words) vs) = Ok (st\<lparr>pp_stale_violations := pp_stale_violations st @ vs\<rparr>)"
  using assms
proof (induction vs arbitrary: st)
  case (Cons v vs)
  have "split_whitespace (spaced (stale_words v)) = stale_words v"
    by (rule split_spaced) (auto simp: stale_words_def)
  then have "parse_line st (spaced (stale_words v)) = Ok (st\<lparr>pp_stale_violations := pp_stale_violations st @ [v]\<rparr>)"
    using Cons.prems by (simp add: parse_line_def stale_words_def add_stale_def parse_stale_def)
  with Cons show ?case by simp
qed simp

lemma parse_source_lines:
  assumes "list_all (\<lambda>s. os_expected_total s < u64_limit \<and> os_delivered s < u64_limit \<and> os_lost s < u64_limit) xs"
  shows "parse_lines st (map (spaced \<circ> source_words) xs) = Ok (st\<lparr>pp_sources := pp_sources st @ xs\<rparr>)"
  using assms
proof (induction xs arbitrary: st)
  case (Cons x xs)
  have "split_whitespace (spaced (source_words x)) = source_words x"
    by (rule split_spaced) (auto simp: source_words_def)
  then have "parse_line st (spaced (source_words x)) = Ok (st\<lparr>pp_sources := pp_sources st @ [x]\<rparr>)"
    using Cons.prems by (simp add: parse_line_def source_words_def add_source_def parse_source_def)
  with Cons show ?case by simp
qed simp

lemma parse_pair_line:
  "word_text a \<Longrightarrow> word_text b \<Longrightarrow> parse_line st (spaced [a, b]) = parse_pair st (spaced [a, b]) a b"
  using split_spaced [of "[a, b]"] by (simp add: parse_line_def del: spaced.simps)

lemma report_labels:
  "list_all word_text [''report_version'', ''2'', ''mode'', ''fence'', ''append_mode'', ''cap'', ''head_abs'', ''lost_count'',
     ''lapped_batches'', ''overwritten_retries'', ''rejected_records'', ''poll_errors'', ''delivered_total'', ''lost_total'',
     ''stale_violations'']"
  by simp

definition header_state :: "ObservedReport \<Rightarrow> ReportParse" where
  "header_state r =
     \<lparr>pp_mode = Some (rp_mode r), pp_fence_mode = Some (rp_fence_mode r), pp_append_mode = Some (rp_append_mode r),
      pp_cap = Some (rp_cap r), pp_head_abs = Some (rp_head_abs r), pp_lost_count = Some (rp_lost_count r),
      pp_lapped_batches = Some (rp_lapped_batches r), pp_overwritten_retries = Some (rp_overwritten_retries r),
      pp_rejected_records = Some (rp_rejected_records r), pp_poll_errors = Some (rp_poll_errors r),
      pp_delivered_total = Some (rp_delivered_total r), pp_lost_total = Some (rp_lost_total r),
      pp_stale_count = Some (length (rp_stale_violations r)), pp_stale_violations = [], pp_sources = []\<rparr>"

lemma parse_report_lines:
  assumes "report_ok r"
  shows "parse_lines report_parse_init (map spaced (report_lines r))
     = Ok ((header_state r)\<lparr>pp_stale_violations := rp_stale_violations r, pp_sources := rp_sources r\<rparr>)"
proof -
  note ok = assms [unfolded report_ok_def]
  define hs where "hs = take 14 (report_lines r)"
  have split: "report_lines r = hs @ map stale_words (rp_stale_violations r) @ map source_words (rp_sources r)"
    by (simp add: hs_def report_lines_def)
  have "parse_lines report_parse_init (map spaced hs) = Ok (header_state r)"
    using ok by (simp add: hs_def report_lines_def parse_pair_line parse_pair_def report_parse_init_def header_state_def
        del: spaced.simps)
  then show ?thesis
    using ok parse_stale_lines parse_source_lines
    by (simp add: split parse_lines_append header_state_def)
qed

lemma report_reads_back: "report_ok r \<Longrightarrow> report_read (report_write r) = Ok r"
  using parse_report_lines lines_of_report by (simp add: report_read_def present_def header_state_def)

text \<open>C25. Reports round trip.  \<open>ObservedReport::read\<close> turns what \<open>write\<close> produced back into the report that was written,
  if its counters fit their types and its two labels are single words.\<close>

theorem report_round_trip:
  assumes "report_ok r"
  shows "report_read (report_write r) = Ok r"
  using assms by (rule report_reads_back)

theorem report_round_trip_witness:
  "report_read (report_write \<lparr>rp_mode = ''live'', rp_fence_mode = Fenced, rp_append_mode = ''structured'', rp_cap = 4096,
     rp_head_abs = 18446744073709551615, rp_lost_count = 3, rp_lapped_batches = 1, rp_overwritten_retries = 0,
     rp_rejected_records = 0, rp_poll_errors = 0, rp_delivered_total = 7, rp_lost_total = 3,
     rp_stale_violations = [\<lparr>sv_kind = EventOrderMismatch, sv_source_id = 9, sv_seq = 4, sv_expected_abs = 100, sv_actual_abs = 0,
       sv_crc_passed = True\<rparr>],
     rp_sources = [\<lparr>os_run_id = 1, os_source_id = 9, os_expected_total = 10, os_delivered = 7, os_lost = 3\<rparr>]\<rparr>)
   = Ok \<lparr>rp_mode = ''live'', rp_fence_mode = Fenced, rp_append_mode = ''structured'', rp_cap = 4096,
     rp_head_abs = 18446744073709551615, rp_lost_count = 3, rp_lapped_batches = 1, rp_overwritten_retries = 0,
     rp_rejected_records = 0, rp_poll_errors = 0, rp_delivered_total = 7, rp_lost_total = 3,
     rp_stale_violations = [\<lparr>sv_kind = EventOrderMismatch, sv_source_id = 9, sv_seq = 4, sv_expected_abs = 100, sv_actual_abs = 0,
       sv_crc_passed = True\<rparr>],
     rp_sources = [\<lparr>os_run_id = 1, os_source_id = 9, os_expected_total = 10, os_delivered = 7, os_lost = 3\<rparr>]\<rparr>"
  by (rule report_round_trip) (simp add: report_ok_def u64_limit_def)

lemma assert_sources_Ok:
  "assert_sources ss = Ok () \<longleftrightarrow>
     list_all (\<lambda>s. os_delivered s + os_lost s = os_expected_total s \<and> os_expected_total s < u64_limit) ss"
  by (induction ss) (auto simp: outcome_simps split: if_splits)

theorem assert_fenced_exact:
  "assert_fenced r min_head_abs pressure = Ok () \<longleftrightarrow>
     0 < rp_delivered_total r \<and> list_all (\<lambda>m. m < rp_head_abs r) (case min_head_abs of None \<Rightarrow> [] | Some m \<Rightarrow> [m])
     \<and> \<not> (pressure \<and> rp_lost_count r = 0) \<and> \<not> ue_hazard_observed (unfenced_evidence r)
     \<and> list_all (\<lambda>s. os_delivered s + os_lost s = os_expected_total s \<and> os_expected_total s < u64_limit) (rp_sources r)"
  by (auto simp: assert_fenced_def unfenced_evidence_def Let_def assert_sources_Ok split: option.splits)

end
