(* ===== verification/Seqlock.thy ===== *)
theory Seqlock
  imports Shm
begin

text \<open>
  The mapped store keeps the promises of the carriage protocol.  \<open>ring_view\<close> reads a mapping as the ring of
  \<open>Concurrent\<close>; the stores of a publication act on the view as the owned store does, so the history of a mapping,
  brackets included, satisfies the locale \<open>publisher\<close>.  The sequence lock is stamped with the number of brackets
  passed; between two equal even stamps the control block does not change, which makes a snapshot that decodes a
  state of the memory, and the reader's properties follow from those of the generic reader.
\<close>

section \<open>The mapping as a ring\<close>

definition ring_view :: "nat \<Rightarrow> byte_vec \<Rightarrow> ConcurrentRing" where
  "ring_view cap region =
     \<lparr>cr_bytes = drop DATA_OFFSET region, cr_capacity = cap, cr_head_abs = unat (u64_at region OFF_HEAD_ABS),
      cr_oldest_abs = unat (u64_at region OFF_OLDEST_ABS), cr_lost_count = unat (u64_at region OFF_LOST_COUNT)\<rparr>"

lemma DATA_OFFSET_eq [simp]: "DATA_OFFSET = 128"
  by (simp add: DATA_OFFSET_def align_up_def)

lemma validate_layout_ok [simp]: "validate_layout = Ok ()"
  by (simp add: validate_layout_def)

lemma overwrite_elsewhere:
  assumes "s + length ys \<le> length bs" "a + n \<le> s \<or> s + length ys \<le> a"
  shows "take n (drop a (overwrite bs s ys)) = take n (drop a bs)"
  using assms by (intro nth_equalityI) (auto simp: nth_overwrite)

lemma overwrite_front: "s + length ys \<le> length bs \<Longrightarrow> n \<le> s \<Longrightarrow> take n (overwrite bs s ys) = take n bs"
  using overwrite_elsewhere [of s ys bs 0 n] by simp

lemma overwrite_back: "s + length ys \<le> length bs \<Longrightarrow> s + length ys \<le> a \<Longrightarrow> drop a (overwrite bs s ys) = drop a bs"
  using overwrite_elsewhere [of s ys bs a "length bs - a"] by simp

lemma overwrite_byte:
  assumes "a + p < length bs"
  shows "drop a (overwrite bs (a + p) [v]) = (drop a bs)[p := v]"
  using assms by (intro nth_equalityI) (auto simp: nth_overwrite nth_list_update)

lemma word_at_overwrite:
  "loc + 8 \<le> length bs \<Longrightarrow> u64_at (overwrite bs loc (u64_to_le_bytes v)) loc = v"
  "loc + 4 \<le> length bs \<Longrightarrow> u32_at (overwrite bs loc (u32_to_le_bytes w)) loc = w"
  using overwrite_same [of loc "u64_to_le_bytes v" bs] overwrite_same [of loc "u32_to_le_bytes w" bs]
  by (simp_all add: u64_at_def u32_at_def)

lemma word_at_elsewhere:
  "s + length ys \<le> length bs \<Longrightarrow> a + 8 \<le> s \<or> s + length ys \<le> a \<Longrightarrow> u64_at (overwrite bs s ys) a = u64_at bs a"
  "s + length ys \<le> length bs \<Longrightarrow> a + 4 \<le> s \<or> s + length ys \<le> a \<Longrightarrow> u32_at (overwrite bs s ys) a = u32_at bs a"
  by (simp_all add: u64_at_def u32_at_def overwrite_elsewhere)

lemmas region_simps = atomic_u8_at_def atomic_u8_def atomic_u32_def atomic_u64_def put_u8_def put_u32_def put_u64_def
  overwrite_back overwrite_front overwrite_elsewhere word_at_overwrite word_at_elsewhere

text \<open>What a store of the ring protocol leaves alone: everything before the head offset, the sequence lock and
  the identification of the block among it.\<close>

lemma ring_store_refines:
  assumes len: "length region = 128 + cap" and op: "perform op (ring_view cap region) = (Ok m :: (_, 'e) outcome)"
    and lim: "cr_head_abs m < u64_limit" "cr_oldest_abs m < u64_limit"
  shows "\<exists>region'. shared_perform cap (RingStore op) region = (Ok region' :: (_, 'f) outcome)
     \<and> ring_view cap region' = m \<and> length region' = 128 + cap \<and> take 24 region' = take 24 region"
proof (cases op)
  case (StoreByte phys v)
  then have "phys < cap" "m = (ring_view cap region)\<lparr>cr_bytes := (cr_bytes (ring_view cap region))[phys := v]\<rparr>"
    using op len by (auto simp: store_byte_relaxed_def ring_view_def split: if_splits)
  with StoreByte len show ?thesis
    by (simp add: shared_store_byte_def region_simps ring_view_def overwrite_byte)
next
  case (StoreHead v)
  with op lim len show ?thesis
    by (auto simp: shared_store_head_def store_head_release_def region_simps ring_view_def unat_of_nat_u64)
next
  case (StoreOldest v)
  with op lim len show ?thesis
    by (auto simp: shared_store_oldest_def store_oldest_relaxed_def region_simps ring_view_def unat_of_nat_u64)
next
  case (AddLost v)
  with op len show ?thesis
    by (auto simp: shared_fetch_add_lost_def fetch_add_lost_release_def region_simps ring_view_def unat_word_ariths
        unat_of_nat u64_limit_def mod_simps)
qed

lemma ring_stores_refine:
  assumes "length region = 128 + cap" "perform_all ops (ring_view cap region) = (Ok Hs :: (_, 'e) outcome)"
    "list_all (\<lambda>m. cr_head_abs m < u64_limit \<and> cr_oldest_abs m < u64_limit) Hs"
  shows "\<exists>Rs. shared_perform_all cap (map RingStore ops) region = (Ok Rs :: (_, 'f) outcome)
     \<and> map (ring_view cap) Rs = Hs \<and> list_all (\<lambda>r. length r = 128 + cap \<and> take 24 r = take 24 region) Rs"
  using assms
proof (induction ops arbitrary: region Hs)
  case (Cons op ops)
  from Cons.prems(2) obtain m Hs' where m: "perform op (ring_view cap region) = (Ok m :: (_, 'e) outcome)"
    "perform_all ops m = (Ok Hs' :: (_, 'e) outcome)" "Hs = m # Hs'" by (auto simp: outcome_simps)
  with Cons.prems(1,3) ring_store_refines [of region cap op m, where 'e = 'e and 'f = 'f] obtain region' where
    r: "shared_perform cap (RingStore op) region = (Ok region' :: (_, 'f) outcome)" "ring_view cap region' = m"
      "length region' = 128 + cap" "take 24 region' = take 24 region" by auto
  from Cons.IH [OF r(3)] m r(2) Cons.prems(3) obtain Rs where
    "shared_perform_all cap (map RingStore ops) region' = (Ok Rs :: (_, 'f) outcome)" "map (ring_view cap) Rs = Hs'"
    "list_all (\<lambda>r. length r = 128 + cap \<and> take 24 r = take 24 region') Rs" by auto
  with m(3) r show ?case by (auto simp: list_all_iff)
qed simp

lemma shared_perform_all_append:
  "shared_perform_all cap (a @ b) r = and_then (shared_perform_all cap a r :: (_, 'e) outcome) (\<lambda>A.
     and_then (shared_perform_all cap b (last (r # A))) (\<lambda>B. Ok (A @ B)))"
proof (induction a arbitrary: r)
  case Nil
  then show ?case by (cases "shared_perform_all cap b r :: (_, 'e) outcome") simp_all
next
  case (Cons op a)
  show ?case
    by (cases "shared_perform cap op r :: (_, 'e) outcome") (simp_all add: Cons and_then_assoc)
qed

section \<open>Stamped histories\<close>

definition control_header :: "nat \<Rightarrow> byte_vec" where
  "control_header cap =
     CONTROL_BLOCK_SYNC @ [2, 0, 0, 0] @ u32_to_le_bytes DEFAULT_BUFFER_ID
     @ u32_to_le_bytes (if cap < 2 ^ 32 then of_nat cap else - 1)"

text \<open>A region and the number of brackets passed when it was current.\<close>

definition mapped_ok :: "nat \<Rightarrow> nat \<times> byte_vec \<Rightarrow> bool" where
  "mapped_ok cap nr \<longleftrightarrow> length (snd nr) = 128 + cap \<and> take 16 (snd nr) = control_header cap
     \<and> u32_at (snd nr) 16 = of_nat (fst nr) \<and> take 4 (drop 20 (snd nr)) = [0, 0, 0, 0]"

definition quiet_step :: "nat \<times> byte_vec \<Rightarrow> nat \<times> byte_vec \<Rightarrow> bool" where
  "quiet_step a b \<longleftrightarrow> fst a \<le> fst b \<and> (fst a = fst b \<longrightarrow> even (fst a) \<longrightarrow> take 88 (snd b) = take 88 (snd a))"

definition shared_inv :: "nat \<Rightarrow> ConcurrentProducer \<Rightarrow> (nat \<times> byte_vec) list \<Rightarrow> ReadRecord list \<Rightarrow> bool" where
  "shared_inv cap p S es \<longleftrightarrow> producer_inv cap p (map (ring_view cap \<circ> snd) S) es \<and> list_all (mapped_ok cap) S
     \<and> sorted_wrt quiet_step S \<and> fst (last S) = 2 * length es"

inductive shared_produced :: "nat \<Rightarrow> ConcurrentProducer \<Rightarrow> byte_vec list \<Rightarrow> ReadRecord list \<Rightarrow> bool" for cap where
  start: "create_with_mode (\<lambda>len. Ok (replicate len 0)) cap mode = Ok store \<Longrightarrow>
     shared_produced cap producer_with_store [ss_region store] []"
| publish: "shared_produced cap p R es \<Longrightarrow> publish_record cap p r = Ok (p', ops) \<Longrightarrow>
     shared_perform_all cap (bracketed ops) (last R) = (Ok Rs :: (_, RingError) outcome) \<Longrightarrow>
     shared_produced cap p' (R @ Rs) (es @ [entry p' (normalise_flags r True)])"
| append: "shared_produced cap p R es \<Longrightarrow> append_encoded cap p bytes = Ok (p', ops) \<Longrightarrow> decode bytes = Ok d \<Longrightarrow>
     shared_perform_all cap (bracketed ops) (last R) = (Ok Rs :: (_, RingError) outcome) \<Longrightarrow>
     shared_produced cap p' (R @ Rs) (es @ [entry p' (dec_record d)])"

lemma lock_step:
  assumes "mapped_ok cap (n, r)"
  defines "r' \<equiv> overwrite r 16 (u32_to_le_bytes (u32_at r 16 + 1))"
  shows "mapped_ok cap (Suc n, r')" "ring_view cap r' = ring_view cap r"
    "even n \<Longrightarrow> begin_control_update r = (Ok r' :: (_, 'e) outcome)"
    "odd n \<Longrightarrow> end_control_update_release r = (Ok r' :: (_, 'e) outcome)"
proof -
  have len: "16 + length (u32_to_le_bytes (u32_at r 16 + 1)) \<le> length r" using assms(1) by (simp add: mapped_ok_def)
  show "mapped_ok cap (Suc n, r')" "ring_view cap r' = ring_view cap r"
    using assms(1) len by (simp_all add: mapped_ok_def r'_def ring_view_def region_simps add.commute)
  have "even (u32_at r 16) = even n" using assms(1) by (simp add: mapped_ok_def)
  then show "even n \<Longrightarrow> begin_control_update r = (Ok r' :: (_, 'e) outcome)"
    "odd n \<Longrightarrow> end_control_update_release r = (Ok r' :: (_, 'e) outcome)"
    using len by (simp_all add: begin_control_update_def end_control_update_release_def region_simps r'_def Let_def)
qed

lemma mapped_ok_front:
  "mapped_ok cap (n, r) \<Longrightarrow> length r' = 128 + cap \<Longrightarrow> take 24 r' = take 24 r \<Longrightarrow> mapped_ok cap (n, r')"
proof -
  assume ok: "mapped_ok cap (n, r)" and len: "length r' = 128 + cap" and eq: "take 24 r' = take 24 r"
  have sub: "take m (drop a r') = take m (drop a r)" if "a + m \<le> 24" for a m
    using arg_cong [OF eq, of "\<lambda>x. take m (drop a x)"] that by (simp add: drop_take min.absorb1)
  from ok len sub [of 0 16] sub [of 16 4] sub [of 20 4] show ?thesis by (simp add: mapped_ok_def u32_at_def)
qed

lemma bracketed_trace:
  assumes ok: "mapped_ok cap (n, r)" and ev: "even n"
    and ops: "perform_all ops (ring_view cap r) = (Ok Hs :: (_, 'e) outcome)" "Hs \<noteq> []"
    and lim: "list_all (\<lambda>m. cr_head_abs m < u64_limit \<and> cr_oldest_abs m < u64_limit) Hs"
  shows "\<exists>Rs. shared_perform_all cap (bracketed ops) r = (Ok Rs :: (_, 'f) outcome)
     \<and> map (ring_view cap) Rs = ring_view cap r # Hs @ [last Hs]
     \<and> list_all (mapped_ok cap) (zip (replicate (length Rs - 1) (Suc n) @ [Suc (Suc n)]) Rs)"
proof -
  let ?r1 = "overwrite r 16 (u32_to_le_bytes (u32_at r 16 + 1))"
  note b = lock_step [OF ok]
  have l1: "length ?r1 = 128 + cap" using b(1) by (simp add: mapped_ok_def)
  from ring_stores_refine [OF l1, where 'e = 'e and 'f = 'f] ops(1) lim b(2) obtain Rs where
    Rs: "shared_perform_all cap (map RingStore ops) ?r1 = (Ok Rs :: (_, 'f) outcome)" "map (ring_view cap) Rs = Hs"
      "list_all (\<lambda>x. length x = 128 + cap \<and> take 24 x = take 24 ?r1) Rs" by auto
  have ne: "Rs \<noteq> []" using Rs(2) ops(2) by auto
  have mid: "mapped_ok cap (Suc n, x)" if "x \<in> set (?r1 # Rs)" for x
    using that mapped_ok_front [OF b(1)] Rs(3) b(1) by (auto simp: list_all_iff)
  let ?r2 = "overwrite (last Rs) 16 (u32_to_le_bytes (u32_at (last Rs) 16 + 1))"
  note e = lock_step [OF mid [of "last Rs"]]
  have "shared_perform_all cap (bracketed ops) r = (Ok (?r1 # Rs @ [?r2]) :: (_, 'f) outcome)"
    using b(3) [OF ev, where 'e = 'f] e(4) [where 'e = 'f] ne ev Rs(1) by (simp add: bracketed_def shared_perform_all_append)
  moreover have "map (ring_view cap) (?r1 # Rs @ [?r2]) = ring_view cap r # Hs @ [last Hs]"
    using b(2) Rs(2) e(2) ne last_map [OF ne, of "ring_view cap"] by auto
  moreover have "list_all (mapped_ok cap) (zip (replicate (length (?r1 # Rs @ [?r2]) - 1) (Suc n) @ [Suc (Suc n)]) (?r1 # Rs @ [?r2]))"
  proof -
    have "zip (replicate (length xs) a) xs = map (Pair a) xs" for a :: nat and xs :: "byte_vec list"
      by (induction xs) simp_all
    from this [of "?r1 # Rs" "Suc n"]
    have "zip (replicate (Suc (length Rs)) (Suc n)) (?r1 # Rs) = map (Pair (Suc n)) (?r1 # Rs)" by simp
    then have "zip (replicate (length (?r1 # Rs @ [?r2]) - 1) (Suc n) @ [Suc (Suc n)]) (?r1 # Rs @ [?r2])
        = map (Pair (Suc n)) (?r1 # Rs) @ [(Suc (Suc n), ?r2)]"
      using zip_append [of "replicate (Suc (length Rs)) (Suc n)" "?r1 # Rs" "[Suc (Suc n)]" "[?r2]"] by simp
    with mid e(1) ne show ?thesis by (simp add: list_all_iff)
  qed
  ultimately show ?thesis by (intro exI [of _ "?r1 # Rs @ [?r2]"] conjI)
qed

lemma producer_inv_stutter:
  assumes "producer_inv cap p (H @ Hs) es" "H \<noteq> []" "Hs \<noteq> []"
  shows "producer_inv cap p (H @ last H # Hs @ [last Hs]) es"
proof -
  have srt: "sorted_wrt (safe_step cap) (H @ Hs)" using assms(1) by (simp add: producer_inv_def)
  have "safe_step cap a (last Hs)" if "a \<in> set (H @ Hs)" for a
    using sorted_safe_append [of cap "H @ Hs" "[]"] srt that assms(3)
    by (cases Hs rule: rev_cases) (auto simp: sorted_wrt_append)
  moreover have "safe_step cap a (last H)" if "a \<in> set H" for a
    using srt that assms(2) by (cases H rule: rev_cases) (auto simp: sorted_wrt_append)
  moreover have "safe_step cap (last H) b" if "b \<in> set Hs" for b
    using srt that assms(2) by (auto simp: sorted_wrt_append)
  ultimately have "sorted_wrt (safe_step cap) (H @ last H # Hs @ [last Hs])"
    using srt assms(2) by (auto simp: sorted_wrt_append)
  with assms show ?thesis by (auto simp: producer_inv_def list_all_iff)
qed

lemma append_bytes_core_shared:
  assumes inv: "shared_inv cap p S es" and r: "encodable r True" "bit (rec_flags r) 3"
    and core: "append_bytes_core cap p (record_bytes r True) = (Ok (p', ops) :: (_, RingError) outcome)"
  shows "\<exists>S'. shared_perform_all cap (bracketed ops) (snd (last S)) = (Ok (map snd S') :: (_, 'f) outcome)
     \<and> shared_inv cap p' (S @ S') (es @ [entry p' r])"
proof -
  let ?H = "map (ring_view cap \<circ> snd) S"
  define n where "n = 2 * length es"
  define r0 where "r0 = snd (last S)"
  have pi: "producer_inv cap p ?H es" using inv by (simp add: shared_inv_def)
  then have ne: "S \<noteq> []" by (auto simp: producer_inv_def)
  have last: "last S = (n, r0)" "last ?H = ring_view cap r0" using inv ne by (simp_all add: shared_inv_def n_def r0_def last_map prod_eq_iff)
  from append_bytes_core_inv [OF pi r core, where 'e = RingError] obtain Hs where
    Hs: "perform_all ops (last ?H) = (Ok Hs :: (_, RingError) outcome)" and inv': "producer_inv cap p' (?H @ Hs) (es @ [entry p' r])"
    by blast
  have "ops \<noteq> []" using core by (auto simp: append_bytes_core_def Let_def outcome_simps split: if_splits)
  then have hne: "Hs \<noteq> []" using Hs by (cases ops) (auto simp: outcome_simps)
  have lim: "list_all (\<lambda>m. cr_head_abs m < u64_limit \<and> cr_oldest_abs m < u64_limit) Hs"
    using inv' coherent_bounds by (auto simp: producer_inv_def list_all_iff)
  have ok: "mapped_ok cap (n, r0)"
    using inv last_in_set [OF ne] last(1) by (auto simp: shared_inv_def list_all_iff)
  have ev: "even n" by (simp add: n_def)
  from bracketed_trace [OF ok ev Hs [unfolded last(2)] hne lim, where 'f = 'f] obtain Rs where
    Rs: "shared_perform_all cap (bracketed ops) r0 = (Ok Rs :: (_, 'f) outcome)"
      "map (ring_view cap) Rs = ring_view cap r0 # Hs @ [last Hs]"
      "list_all (mapped_ok cap) (zip (replicate (length Rs - 1) (Suc n) @ [Suc (Suc n)]) Rs)" by (elim exE conjE)
  define S' where "S' = zip (replicate (length Rs - 1) (Suc n) @ [Suc (Suc n)]) Rs"
  have rne: "Rs \<noteq> []" using Rs(2) by auto
  then have snd: "map snd S' = Rs" by (simp add: S'_def)
  have "map (ring_view cap \<circ> snd) (S @ S') = ?H @ last ?H # Hs @ [last Hs]"
    using Rs(2) snd last(2) by (simp flip: map_map)
  with producer_inv_stutter [OF inv' _ hne] ne have "producer_inv cap p' (map (ring_view cap \<circ> snd) (S @ S')) (es @ [entry p' r])" by simp
  moreover have "fst (last S') = Suc (Suc n)" "S' \<noteq> []" using rne by (auto simp: S'_def last_zip)
  moreover have "sorted_wrt quiet_step (S @ S')"
  proof -
    have early: "fst a \<le> n" if "a \<in> set S" for a
      using that inv ne last(1) by (cases S rule: rev_cases) (auto simp: shared_inv_def sorted_wrt_append quiet_step_def)
    have late: "n < fst b" if "b \<in> set S'" for b
      using that set_zip_leftD [of "fst b" "snd b"] unfolding S'_def by fastforce
    have "sorted_wrt quiet_step S'"
      unfolding sorted_wrt_iff_nth_less S'_def quiet_step_def using rne ev by (auto simp: nth_append)
    with inv early late show ?thesis by (fastforce simp: shared_inv_def sorted_wrt_append quiet_step_def)
  qed
  ultimately show ?thesis
    using inv Rs(1,3) snd unfolding shared_inv_def r0_def [symmetric] by (intro exI [of _ S']) (auto simp: S'_def n_def)
qed

lemma put_bytes_eq:
  "offset + length bs \<le> length region \<Longrightarrow> put_bytes offset bs region = (Ok (overwrite region offset bs) :: (_, 'e) outcome)"
proof (induction bs arbitrary: offset region)
  case (Cons b bs)
  have "overwrite (overwrite region offset [b]) (Suc offset) bs = overwrite region offset (b # bs)"
    using Cons.prems by (simp add: overwrite_def take_Suc_conv_app_nth add.commute)
  with Cons.IH [of "Suc offset" "overwrite region offset [b]"] Cons.prems show ?case by (simp add: region_simps)
qed (simp add: overwrite_def)

definition fresh_region :: "nat \<Rightarrow> byte_vec" where
  "fresh_region cap = control_header cap @ replicate (112 + cap) 0"

lemma overwrite_zeros:
  assumes "length pre \<le> a" "a + length ys \<le> length pre + n"
  shows "overwrite (pre @ replicate n 0) a ys
     = (pre @ replicate (a - length pre) 0 @ ys) @ replicate (length pre + n - a - length ys) 0"
  using assms by (simp add: overwrite_def)

lemma overwrite_zeros_zero:
  assumes "length pre \<le> a" "a + m \<le> length pre + n"
  shows "overwrite (pre @ replicate n 0) a (replicate m 0) = pre @ replicate n 0"
  using assms by (simp add: overwrite_zeros flip: replicate_add)

lemma le_bytes_zero: "le_bytes n 0 = replicate n 0"
  by (induction n) simp_all

lemma zero_words: "u32_to_le_bytes 0 = replicate 4 0" "u64_to_le_bytes 0 = replicate 8 0" "replicate 3 (0 :: u8) = [0, 0, 0]"
  by (simp_all only: u32_to_le_bytes_def u64_to_le_bytes_def le_bytes_zero unsigned_0) (simp add: numeral_3_eq_3)

lemma length_control_header [simp]: "length (control_header cap) = 16"
  by (simp add: control_header_def)

lemma initialized_region: "initialize_counters cap (replicate (128 + cap) 0) = (Ok (fresh_region cap) :: (_, 'e) outcome)"
proof -
  define w :: u32 where "w = (if cap < 2 ^ 32 then of_nat cap else - 1)"
  let ?id = "u32_to_le_bytes DEFAULT_BUFFER_ID" and ?n = "u32_to_le_bytes w"
  let ?z = "\<lambda>n. replicate (n + cap) (0 :: u8)"
  have one: "overwrite (?z 128) 0 (replicate 128 0) = ?z 128" "overwrite (?z 128) 0 CONTROL_BLOCK_SYNC = CONTROL_BLOCK_SYNC @ ?z 124"
    using overwrite_zeros_zero [of "[]" 0 128 "128 + cap"] overwrite_zeros [of "[]" 0 CONTROL_BLOCK_SYNC "128 + cap"] by simp_all
  have two: "overwrite (CONTROL_BLOCK_SYNC @ ?z 124) 4 [2] = (CONTROL_BLOCK_SYNC @ [2]) @ ?z 123"
    using overwrite_zeros [of CONTROL_BLOCK_SYNC 4 "[2]" "124 + cap"] by simp
  have three: "overwrite ((CONTROL_BLOCK_SYNC @ [2]) @ ?z 123) 5 [0] = (CONTROL_BLOCK_SYNC @ [2]) @ ?z 123"
    using overwrite_zeros_zero [of "CONTROL_BLOCK_SYNC @ [2]" 5 1 "123 + cap"] by simp
  have four: "overwrite ((CONTROL_BLOCK_SYNC @ [2]) @ ?z 123) 8 ?id = (CONTROL_BLOCK_SYNC @ 2 # 0 # 0 # 0 # ?id) @ ?z 116"
    using overwrite_zeros [of "CONTROL_BLOCK_SYNC @ [2]" 8 ?id "123 + cap"] by (simp add: zero_words(3))
  have five: "overwrite ((CONTROL_BLOCK_SYNC @ 2 # 0 # 0 # 0 # ?id) @ ?z 116) 12 ?n = control_header cap @ ?z 112"
    using overwrite_zeros [of "CONTROL_BLOCK_SYNC @ 2 # 0 # 0 # 0 # ?id" 12 ?n "116 + cap"] by (simp add: control_header_def w_def)
  note steps = one two three four five
  have zero: "overwrite (control_header cap @ ?z 112) a (replicate m 0) = control_header cap @ ?z 112"
    if "16 \<le> a" "a + m \<le> 128 + cap" for a m
    using overwrite_zeros_zero [of "control_header cap" a m "112 + cap"] that by simp
  show ?thesis
    unfolding initialize_counters_def w_def [symmetric]
    by (simp add: put_bytes_eq put_u8_def put_u32_def put_u64_def atomic_u8_at_def atomic_u32_def atomic_u64_def
        steps zero zero_words fresh_region_def del: replicate.simps append_assoc)
qed

lemma created_region:
  assumes "0 < cap" "128 + cap < u64_limit"
  shows "create_with_mode (\<lambda>len. Ok (replicate len 0)) cap mode
     = Ok \<lparr>ss_region = fresh_region cap, ss_capacity = cap, ss_fence_mode = mode, ss_recheck_stall = 0\<rparr>"
  using assms initialized_region [of cap, where 'e = io_error]
  by (simp add: create_with_mode_def validate_capacity_def mapping_len_def region_map_def)

lemma fresh_inv:
  assumes "0 < cap"
  shows "producer_inv cap producer_with_store [ring_view cap (fresh_region cap)] [] \<and> mapped_ok cap (0, fresh_region cap)"
proof -
  have w: "take n (drop a (fresh_region cap)) = replicate n 0" if "16 \<le> a" "a + n \<le> 128" for a n
    using that by (simp add: fresh_region_def)
  have "from_le_bytes (replicate 8 0) = (0 :: u64)" "from_le_bytes (replicate 4 0) = (0 :: u32)"
    by (simp_all add: from_le_bytes_def numeral_eq_Suc)
  with w have "ring_view cap (fresh_region cap)
      = \<lparr>cr_bytes = replicate cap 0, cr_capacity = cap, cr_head_abs = 0, cr_oldest_abs = 0, cr_lost_count = 0\<rparr>"
    "u32_at (fresh_region cap) 16 = 0" "take 4 (drop 20 (fresh_region cap)) = [0, 0, 0, 0]"
    by (simp_all add: ring_view_def u64_at_def u32_at_def fresh_region_def numeral_eq_Suc)
  then show ?thesis
    using assms by (simp add: mapped_ok_def fresh_region_def producer_inv_def producer_with_store_def entries_ok_def
        coherent_def retained_def)
qed

lemma shared_produced_inv: "shared_produced cap p R es \<Longrightarrow> \<exists>S. R = map snd S \<and> shared_inv cap p S es"
proof (induction rule: shared_produced.induct)
  case (start mode store)
  then have cap: "0 < cap" "128 + cap < u64_limit"
    by (auto simp: create_with_mode_def validate_capacity_def mapping_len_def outcome_simps split: if_splits)
  then have r: "ss_region store = fresh_region cap" using start created_region [of cap mode] by auto
  have "shared_inv cap producer_with_store [(0, fresh_region cap)] []"
    using cap by (simp add: shared_inv_def fresh_inv)
  with r show ?case by (intro exI [of _ "[(0, fresh_region cap)]"]) simp
next
  case (publish p R es r p' ops Rs)
  then obtain S where S: "R = map snd S" "shared_inv cap p S es" by blast
  note c = publish_record_core [OF publish.hyps(2)]
  from append_bytes_core_shared [OF S(2), of "normalise_flags r True" p' ops, where 'f = RingError] c obtain S' where
    "shared_perform_all cap (bracketed ops) (snd (last S)) = (Ok (map snd S') :: (_, RingError) outcome)"
    "shared_inv cap p' (S @ S') (es @ [entry p' (normalise_flags r True)])" by blast
  moreover have "S \<noteq> []" using S(2) by (auto simp: shared_inv_def producer_inv_def)
  ultimately show ?case using publish.hyps(3) S(1) by (intro exI [of _ "S @ S'"]) (simp add: last_map)
next
  case (append p R es bytes p' ops d Rs)
  then obtain S where S: "R = map snd S" "shared_inv cap p S es" by blast
  from append_encoded_core [OF append.hyps(2)] append.hyps(3) have c: "encodable (dec_record d) True"
    "bit (rec_flags (dec_record d)) 3" "append_bytes_core cap p (record_bytes (dec_record d) True) = (Ok (p', ops) :: (_, RingError) outcome)"
    by auto
  from append_bytes_core_shared [OF S(2) c, where 'f = RingError] obtain S' where
    "shared_perform_all cap (bracketed ops) (snd (last S)) = (Ok (map snd S') :: (_, RingError) outcome)"
    "shared_inv cap p' (S @ S') (es @ [entry p' (dec_record d)])" by blast
  moreover have "S \<noteq> []" using S(2) by (auto simp: shared_inv_def producer_inv_def)
  ultimately show ?case using append.hyps(4) S(1) by (intro exI [of _ "S @ S'"]) (simp add: last_map)
qed

lemma shared_capacity: "shared_produced cap p R es \<Longrightarrow> 128 + cap < u64_limit"
  by (induction rule: shared_produced.induct)
     (auto simp: create_with_mode_def validate_capacity_def mapping_len_def outcome_simps split: if_splits)

interpretation shared_publisher: publisher "\<lambda>cap H es. \<exists>p R. shared_produced cap p R es \<and> H = map (ring_view cap) R"
  by unfold_locales
     (auto simp: shared_inv_def producer_inv_def list_all_iff comp_def dest!: shared_produced_inv)

section \<open>Snapshots\<close>

lemma load_image_eq:
  "(\<And>j. offset + n \<le> length (smem j)) \<Longrightarrow>
     load_image smem n offset k = (k + n, Ok (map (\<lambda>i. smem (k + i) ! (offset + i)) [0 ..< n]) :: (_, 'e) outcome)"
proof (induction n arbitrary: offset k)
  case (Suc n)
  have "offset < length (smem k)" "Suc offset + n \<le> length (smem j)" for j
    using Suc.prems [of k] Suc.prems [of j] by simp_all
  moreover from this(2) Suc.IH [of "Suc offset" "Suc k"]
  have "load_image smem n (Suc offset) (Suc k) = (Suc k + n, Ok (map (\<lambda>i. smem (Suc k + i) ! (Suc offset + i)) [0 ..< n]) :: (_, 'e) outcome)"
    by blast
  ultimately show ?case
    by (simp add: load_u8_at_def atomic_u8_at_def upt_conv_Cons map_Suc_upt [symmetric] comp_def del: upt_Suc)
qed simp

definition yields :: "nat \<times> ('a, 'e) outcome \<Rightarrow> nat \<Rightarrow> ('a \<Rightarrow> bool) \<Rightarrow> bool" where
  "yields x k P \<longleftrightarrow> (\<exists>a. x = (k, Ok a) \<and> P a)"

lemma yields_then: "yields x k P \<Longrightarrow> (\<And>a. P a \<Longrightarrow> yields (f k a) k' Q) \<Longrightarrow> yields (load_then x f) k' Q"
  by (auto simp: yields_def)

text \<open>The 88-byte image; if the block was constant while it was copied, it is the block.\<close>

definition image_of :: "bool \<Rightarrow> byte_vec \<Rightarrow> byte_vec \<Rightarrow> bool" where
  "image_of steady r b \<longleftrightarrow> length b = 88 \<and> (steady \<longrightarrow> b = take 88 r)"

lemma copy_same: "a + n \<le> length bs \<Longrightarrow> vec_copy bs a (take n (drop a bs)) = Ok bs"
  by (simp add: vec_copy_def) (metis append_take_drop_id drop_drop add.commute)

lemma read_word_image:
  assumes "image_of steady r b" "88 \<le> length r" "128 \<le> length (smem k)" "steady \<Longrightarrow> take 88 (smem k) = take 88 r"
  shows "offset mod 8 = 0 \<Longrightarrow> offset + 8 \<le> 88 \<Longrightarrow> yields (read_u64_bytes smem b offset k :: _ \<times> (_, 'e) outcome) (Suc k) (image_of steady r)"
    "offset mod 4 = 0 \<Longrightarrow> offset + 4 \<le> 88 \<Longrightarrow> yields (read_u32_bytes smem b offset k :: _ \<times> (_, 'e) outcome) (Suc k) (image_of steady r)"
proof -
  have sub: "take n (drop a (smem k)) = take n (drop a (take 88 r))" if "a + n \<le> 88" steady for a n
    using arg_cong [OF assms(4) [OF that(2)], of "\<lambda>x. take n (drop a x)"] that(1) by (simp add: drop_take min.absorb1)
  have len: "length (take n (drop a (smem k))) = n" if "a + n \<le> 88" for a n using that assms(3) by simp
  show "yields (read_u64_bytes smem b offset k :: _ \<times> (_, 'e) outcome) (Suc k) (image_of steady r)" if "offset mod 8 = 0" "offset + 8 \<le> 88"
  proof (cases steady)
    case True
    then have "vec_copy b offset (u64_to_le_bytes (u64_at (smem k) offset)) = (Ok b :: (_, 'e) outcome)"
      using copy_same [of offset 8 b] assms(1,2) that sub [of offset 8] len [of offset 8]
      by (simp add: image_of_def u64_at_def to_from_le_bytes)
    with that assms(1,3) show ?thesis by (simp add: yields_def read_u64_bytes_def load_u64_def atomic_u64_def)
  qed (use that assms in \<open>auto simp: yields_def read_u64_bytes_def load_u64_def atomic_u64_def image_of_def\<close>)
  show "yields (read_u32_bytes smem b offset k :: _ \<times> (_, 'e) outcome) (Suc k) (image_of steady r)" if "offset mod 4 = 0" "offset + 4 \<le> 88"
  proof (cases steady)
    case True
    then have "vec_copy b offset (u32_to_le_bytes (u32_at (smem k) offset)) = (Ok b :: (_, 'e) outcome)"
      using copy_same [of offset 4 b] assms(1,2) that sub [of offset 4] len [of offset 4]
      by (simp add: image_of_def u32_at_def to_from_le_bytes)
    with that assms(1,3) show ?thesis by (simp add: yields_def read_u32_bytes_def load_u32_def atomic_u32_def)
  qed (use that assms in \<open>auto simp: yields_def read_u32_bytes_def load_u32_def atomic_u32_def image_of_def\<close>)
qed

lemma read_image:
  assumes len: "\<And>j. 128 \<le> length (smem j)" and r: "128 \<le> length r" "q = u32_at r 16"
    and st: "\<And>j. steady \<Longrightarrow> k \<le> j \<Longrightarrow> j < k + 96 \<Longrightarrow> take 88 (smem j) = take 88 r"
  shows "yields (read_control_image smem q k :: _ \<times> (_, 'e) outcome) (k + 96) (image_of steady r)"
proof -
  have r88: "88 \<le> length r" using r(1) by simp
  have first: "yields (load_image smem 88 0 k :: _ \<times> (_, 'e) outcome) (k + 88) (image_of steady r)"
  proof -
    have "map (\<lambda>i. smem (k + i) ! i) [0 ..< 88] = take 88 r" if steady
    proof (rule nth_equalityI)
      fix i assume "i < length (map (\<lambda>i. smem (k + i) ! i) [0 ..< 88])"
      then have i: "i < 88" by simp
      have "take 88 (smem (k + i)) ! i = take 88 r ! i" using st [OF that, of "k + i"] i by simp
      then show "map (\<lambda>i. smem (k + i) ! i) [0 ..< 88] ! i = take 88 r ! i" using i by simp
    qed (use r88 in simp)
    moreover have "88 \<le> length (smem j)" for j using len [of j] by simp
    ultimately show ?thesis using load_image_eq [of 0 88 smem k, where 'e = 'e] by (simp add: yields_def image_of_def)
  qed
  have lock: "yields (k', vec_copy b 16 (u32_to_le_bytes q) :: (_, 'e) outcome) k' (image_of steady r)" if "image_of steady r b" for b k'
    using that r copy_same [of 16 4 b] by (cases steady) (auto simp: yields_def image_of_def u32_at_def to_from_le_bytes drop_take)
  have w: "offset mod 8 = 0 \<Longrightarrow> offset + 8 \<le> 88 \<Longrightarrow> yields (read_u64_bytes smem b offset j :: _ \<times> (_, 'e) outcome) (Suc j) (image_of steady r)"
    "offset mod 4 = 0 \<Longrightarrow> offset + 4 \<le> 88 \<Longrightarrow> yields (read_u32_bytes smem b offset j :: _ \<times> (_, 'e) outcome) (Suc j) (image_of steady r)"
    if "image_of steady r b" "k \<le> j" "j < k + 96" for b j offset
    using read_word_image [where smem = smem and k = j and 'e = 'e, OF that(1) r88 len [of j]] st [OF _ that(2,3)] by simp_all
  show ?thesis
    unfolding read_control_image_def CONTROL_BLOCK_LEN_def OFF_SEQ_LOCK_def OFF_BUFFER_ID_def OFF_BUFFER_BYTES_def OFF_HEAD_ABS_def
      OFF_OLDEST_ABS_def OFF_LOST_COUNT_def OFF_RUN_ID_def OFF_EPOCH_ID_def OFF_EPOCH_FIRST_ABS_def
    apply (rule yields_then [OF first])
    apply (erule yields_then [OF lock])
    apply (rule yields_then, rule w(2), assumption, (simp; fail)+)+
    apply (rule yields_then, rule w(1), assumption, (simp; fail)+)+
    subgoal for _ _ _ _ _ _ _ _ b using w(1) [of b "k + 95" 64] by (simp add: add.commute)
    done
qed

text \<open>The law of the sequence lock: equal even values enclose a constant block.\<close>

definition lock_law :: "mapped \<Rightarrow> bool" where
  "lock_law smem \<longleftrightarrow> (\<forall>j. 128 \<le> length (smem j)) \<and>
     (\<forall>i j l. i \<le> l \<longrightarrow> l \<le> j \<longrightarrow> u32_at (smem i) 16 = u32_at (smem j) 16 \<longrightarrow> even (u32_at (smem i) 16) \<longrightarrow>
        take 88 (smem l) = take 88 (smem i))"

lemma snapshot_of_take: "snapshot_of_bytes (take 88 r) = snapshot_of_bytes r"
  by (simp add: snapshot_of_bytes_def drop_take)

lemma load_lock: "lock_law smem \<Longrightarrow> load_u32 smem 16 k = (Suc k, Ok (u32_at (smem k) 16))"
proof -
  assume "lock_law smem"
  then have "128 \<le> length (smem k)" by (simp add: lock_law_def)
  then show ?thesis by (simp add: load_u32_def atomic_u32_def)
qed

lemma attempts_coherent:
  assumes law: "lock_law smem" and run: "snapshot_attempts smem n e k = (k', r)"
  shows "k \<le> k' \<and> (0 < n \<longrightarrow> k < k') \<and> \<not> is_panic r
     \<and> (\<forall>s. r = Ok s \<longrightarrow> (\<exists>i. k \<le> i \<and> i < k' \<and> even (u32_at (smem i) 16) \<and> s = snapshot_of_bytes (smem i)))"
  using run
proof (induction n arbitrary: e k)
  case (Suc n)
  have len: "128 \<le> length (smem j)" for j using law by (simp add: lock_law_def)
  let ?first = "u32_at (smem k) 16" and ?second = "u32_at (smem (k + 97)) 16"
  have IH: "k \<le> k' \<and> k < k' \<and> \<not> is_panic r
      \<and> (\<forall>s. r = Ok s \<longrightarrow> (\<exists>i. k \<le> i \<and> i < k' \<and> even (u32_at (smem i) 16) \<and> s = snapshot_of_bytes (smem i)))"
    if "snapshot_attempts smem n e' (k + Suc d) = (k', r)" for e' d
  proof -
    note ih = Suc.IH [OF that]
    have "\<exists>i. k \<le> i \<and> i < k' \<and> even (u32_at (smem i) 16) \<and> s = snapshot_of_bytes (smem i)" if r: "r = Ok s" for s
    proof -
      from ih r obtain i where "k + Suc d \<le> i" "i < k'" "even (u32_at (smem i) 16)" "s = snapshot_of_bytes (smem i)" by blast
      then show ?thesis by (intro exI [of _ i]) simp
    qed
    with ih show ?thesis by simp
  qed
  show ?case
  proof (cases "odd ?first")
    case True
    with Suc.prems have "snapshot_attempts smem n (Updating ?first) (k + Suc 0) = (k', r)" by (simp add: load_lock [OF law])
    from IH [OF this] show ?thesis by blast
  next
    case False
    let ?steady = "?first = ?second"
    have "yields (read_control_image smem ?first (Suc k) :: _ \<times> (_, ControlBlockError) outcome) (Suc k + 96) (image_of ?steady (smem k))"
    proof (rule read_image [OF len len refl])
      fix j assume "?steady" "Suc k \<le> j" "j < Suc k + 96"
      then have "k \<le> j" "j \<le> k + 97" by simp_all
      with \<open>?steady\<close> False law show "take 88 (smem j) = take 88 (smem k)" unfolding lock_law_def by blast
    qed
    then obtain b where b: "read_control_image smem ?first (Suc k) = (k + 97, Ok b :: (_, ControlBlockError) outcome)"
      and img: "image_of ?steady (smem k) b" by (auto simp: yields_def add.commute)
    have dec: "decode_with_locks b ?first ?second = Ok s \<Longrightarrow> s = snapshot_of_bytes (smem k)" for s
      using img by (auto simp: decode_with_locks_eq image_of_def snapshot_of_take split: if_splits)
    show ?thesis
    proof (cases "decode_with_locks b ?first ?second")
      case (Ok s)
      with Suc.prems False b have "k' = k + 98" "r = Ok s" by (simp_all add: load_lock [OF law])
      with dec [OF Ok] False show ?thesis by auto
    next
      case (Err err)
      then have "(\<exists>e'. snapshot_attempts smem n e' (k + Suc 97) = (k', r)) \<or> (k' = k + 98 \<and> r = Err err)"
        using Suc.prems False b by (cases err) (auto simp: load_lock [OF law] add.commute)
      then show ?thesis
      proof
        assume "\<exists>e'. snapshot_attempts smem n e' (k + Suc 97) = (k', r)"
        with IH show ?thesis by blast
      qed simp
    qed (use decode_with_locks_not_panic [of b ?first ?second] in simp)
  qed
qed auto

lemma shared_lock_law:
  assumes "shared_inv cap p S es" "length es < 2 ^ 31" "schedule (map snd S) \<tau>"
  shows "lock_law (\<lambda>k. map snd S ! \<tau> k)"
  unfolding lock_law_def
proof (intro conjI allI impI)
  have t: "\<tau> k < length S" and mono: "mono \<tau>" for k using assms(3) by (auto simp: schedule_def)
  have ok: "mapped_ok cap (S ! \<tau> k)" for k using assms(1) t by (simp add: shared_inv_def list_all_length)
  then show "128 \<le> length (map snd S ! \<tau> j)" for j using t by (simp add: mapped_ok_def)
  have q: "quiet_step (S ! a) (S ! b)" if "a \<le> b" "b < length S" for a b
    using assms(1) that by (cases "a = b") (auto simp: shared_inv_def sorted_wrt_iff_nth_less quiet_step_def)
  fix i j l assume ij: "i \<le> l" "l \<le> j" and eq: "u32_at (map snd S ! \<tau> i) 16 = u32_at (map snd S ! \<tau> j) 16"
    and ev: "even (u32_at (map snd S ! \<tau> i) 16)"
  have st: "\<tau> i \<le> \<tau> l" "\<tau> l \<le> \<tau> j" using mono ij by (auto simp: mono_def)
  have lim: "fst (S ! \<tau> k) < 2 ^ 32" for k
  proof -
    have "S \<noteq> []" "\<tau> k \<le> length S - 1" using t [of k] by auto
    with q [of "\<tau> k" "length S - 1"] assms(1,2) show ?thesis
      by (auto simp: shared_inv_def quiet_step_def last_conv_nth)
  qed
  have nat: "u32_at (map snd S ! \<tau> k) 16 = of_nat (fst (S ! \<tau> k))" for k using ok [of k] t [of k] by (simp add: mapped_ok_def)
  have "fst (S ! \<tau> i) = fst (S ! \<tau> j)"
    using eq lim [of i] lim [of j] unfolding nat by (simp add: word_of_nat_eq_iff take_bit_nat_eq_self)
  then have "fst (S ! \<tau> i) = fst (S ! \<tau> l)" using q [OF st(1) t] q [OF st(2) t] by (auto simp: quiet_step_def)
  moreover have "even (fst (S ! \<tau> i))" using ev unfolding nat by simp
  ultimately show "take 88 (map snd S ! \<tau> l) = take 88 (map snd S ! \<tau> i)"
    using q [OF st(1) t] t by (simp add: quiet_step_def)
qed

section \<open>The reader\<close>

text \<open>The loads of the mapped store are the loads of the ring it holds.\<close>

lemma shared_loads_view:
  assumes "length (smem k) = 128 + cap"
  shows "phys < cap \<Longrightarrow> shared_load_byte smem cap phys k = load_byte_relaxed (\<lambda>k. ring_view cap (smem k)) phys k"
    "shared_load_head smem k = load_head_acquire (\<lambda>k. ring_view cap (smem k)) k"
    "shared_load_oldest smem k = load_oldest_acquire (\<lambda>k. ring_view cap (smem k)) k"
    "shared_load_lost smem k = load_lost_acquire (\<lambda>k. ring_view cap (smem k)) k"
  using assms
  by (simp_all add: shared_load_byte_def load_byte_relaxed_def shared_load_head_def load_head_acquire_def shared_load_oldest_def
      load_oldest_acquire_def shared_load_lost_def load_lost_acquire_def load_u64_def region_simps ring_view_def)

definition shared_poll_many ::
  "mapped \<Rightarrow> nat \<Rightarrow> nat \<Rightarrow> ConcurrentRawConsumer \<Rightarrow> nat \<Rightarrow> (ConcurrentRawConsumer \<times> ReadBatch list) loads" where
  "shared_poll_many smem cap n c k = poll_many_with (shared_snapshot smem) (\<lambda>k. ring_view cap (smem k)) cap n c k"

definition shared_poll ::
  "mapped \<Rightarrow> nat \<Rightarrow> ConcurrentRawConsumer \<Rightarrow> nat \<Rightarrow> (ConcurrentRawConsumer \<times> ReadBatch) loads" where
  "shared_poll smem cap c k =
     poll_with (read_raw_with (shared_snapshot smem k) (\<lambda>k. ring_view cap (smem k)) cap (cc_cursor_abs c))
       (\<lambda>k. ring_view cap (smem k)) c"

lemma header_capacity:
  assumes "mapped_ok cap (n, r)" "cap < 2 ^ 32"
  shows "unat (cb_buffer_bytes (snapshot_of_bytes r)) = cap"
proof -
  have "take 4 (drop 12 r) = take 4 (drop 12 (take 16 r))" by (simp add: drop_take)
  also have "\<dots> = u32_to_le_bytes (of_nat cap)"
    using assms by (simp add: mapped_ok_def control_header_def CONTROL_BLOCK_SYNC_def)
  finally show ?thesis using assms(2) by (simp add: snapshot_of_bytes_def unat_of_nat)
qed

lemma view_fields:
  "unat (cb_head_abs (snapshot_of_bytes r)) = cr_head_abs (ring_view cap r)"
  "unat (cb_oldest_abs (snapshot_of_bytes r)) = cr_oldest_abs (ring_view cap r)"
  "unat (cb_lost_count (snapshot_of_bytes r)) = cr_lost_count (ring_view cap r)"
  by (simp_all add: snapshot_of_bytes_def ring_view_def u64_at_def)

lemma shared_takes_snapshot:
  assumes "shared_produced cap p R es" "schedule R \<tau>" "length es < 2 ^ 31" "cap < 2 ^ 32"
  shows "takes_snapshot (view (map (ring_view cap) R) \<tau>) cap (shared_snapshot (\<lambda>k. R ! \<tau> k))"
  unfolding takes_snapshot_def
proof (intro allI impI)
  fix k k' r assume run: "shared_snapshot (\<lambda>k. R ! \<tau> k) k = (k', r)"
  from shared_produced_inv [OF assms(1)] obtain S where S: "R = map snd S" "shared_inv cap p S es" by blast
  have law: "lock_law (\<lambda>k. R ! \<tau> k)" using shared_lock_law [OF S(2) assms(3)] assms(2) S(1) by simp
  have t: "\<tau> i < length S" for i using assms(2) S(1) by (simp add: schedule_def)
  obtain r0 where r0: "snapshot_attempts (\<lambda>k. R ! \<tau> k) CONTROL_SNAPSHOT_RETRIES (Updating 1) k = (k', r0)" "r = map_err ControlBlock r0"
    using run by (auto simp: shared_snapshot_def shared_read_control_snapshot_def split: prod.splits)
  note A = attempts_coherent [OF law r0(1)]
  have "unat (cb_buffer_bytes s) = cap \<and> (\<exists>i j. k \<le> i \<and> i \<le> j \<and> j < k'
      \<and> unat (cb_head_abs s) = cr_head_abs (view (map (ring_view cap) R) \<tau> i)
      \<and> unat (cb_oldest_abs s) = cr_oldest_abs (view (map (ring_view cap) R) \<tau> j))" if s: "r0 = Ok s" for s
  proof -
    from A s obtain i where i: "k \<le> i" "i < k'" "s = snapshot_of_bytes (R ! \<tau> i)" by blast
    have "mapped_ok cap (fst (S ! \<tau> i), R ! \<tau> i)" using S t [of i] by (simp add: shared_inv_def list_all_length)
    from header_capacity [OF this assms(4)] i S(1) t [of i] show ?thesis
      by (auto simp: view_def view_fields intro!: exI [of _ i])
  qed
  moreover have "k < k'" using A by (simp add: CONTROL_SNAPSHOT_RETRIES_def)
  ultimately show "k < k' \<and> (case r of
      Ok s \<Rightarrow> unat (cb_buffer_bytes s) = cap \<and> (\<exists>i j. k \<le> i \<and> i \<le> j \<and> j < k'
        \<and> unat (cb_head_abs s) = cr_head_abs (view (map (ring_view cap) R) \<tau> i)
        \<and> unat (cb_oldest_abs s) = cr_oldest_abs (view (map (ring_view cap) R) \<tau> j))
    | Err e \<Rightarrow> (\<exists>b. e = ControlBlock b) | Panic q \<Rightarrow> False)"
    using A r0(2) by (cases r0) simp_all
qed

text \<open>While the mapping rests between two publications, the first attempt at a snapshot succeeds and a poll
  delivers everything that is retained.\<close>

lemma quiet_snapshot:
  assumes ok: "mapped_ok cap (n, r)" "even n" and len': "\<And>j. 128 \<le> length (smem j)" and pause: "\<And>j. k \<le> j \<Longrightarrow> smem j = r"
  shows "shared_snapshot smem k = (k + 98, Ok (snapshot_of_bytes r))"
proof -
  have len: "128 \<le> length r" and hdr: "take 16 r = control_header cap" and res: "take 4 (drop 20 r) = [0, 0, 0, 0]"
    and lock: "u32_at r 16 = of_nat n" using ok(1) by (simp_all add: mapped_ok_def)
  have load: "load_u32 smem 16 j = (Suc j, Ok (of_nat n) :: (_, ControlBlockError) outcome)" if "k \<le> j" for j
    using len lock pause [OF that] by (simp add: load_u32_def atomic_u32_def)
  have "yields (read_control_image smem (of_nat n) (Suc k) :: _ \<times> (_, ControlBlockError) outcome) (Suc k + 96) (image_of True r)"
    using lock len pause by (intro read_image len' ) simp_all
  then have img: "read_control_image smem (of_nat n) (Suc k) = (k + 97, Ok (take 88 r) :: (_, ControlBlockError) outcome)"
    by (auto simp: yields_def image_of_def add.commute)
  have sub: "take m (drop a r) = take m (drop a (control_header cap))" if "a + m \<le> 16" for a m
    using arg_cong [OF hdr, of "\<lambda>x. take m (drop a x)"] that by (simp add: drop_take min.absorb1)
  have "take 4 r = CONTROL_BLOCK_SYNC" "take 2 (drop 6 r) = [0, 0]"
    using sub [of 0 4] sub [of 6 2] by (simp_all add: control_header_def CONTROL_BLOCK_SYNC_def)
  then have "decode_with_locks (take 88 r) (of_nat n) (of_nat n) = Ok (snapshot_of_bytes r)"
    using len res lock ok(2) by (simp add: decode_with_locks_eq drop_take min.absorb1 snapshot_of_take u32_at_def)
  with load img ok(2) show ?thesis
    by (simp add: shared_snapshot_def shared_read_control_snapshot_def CONTROL_SNAPSHOT_RETRIES_def numeral_eq_Suc)
qed

lemma region_ok:
  assumes "shared_produced cap p R es" "i < length R"
  shows "\<exists>n. mapped_ok cap (n, R ! i)"
proof -
  from shared_produced_inv [OF assms(1)] obtain S where "R = map snd S" "shared_inv cap p S es" by blast
  with assms(2) show ?thesis
    by (intro exI [of _ "fst (S ! i)"]) (simp add: shared_inv_def list_all_length)
qed

lemma shared_paused_poll_from:
  assumes pr: "shared_produced cap p R es" and sch: "schedule R \<tau>" and lim: "cap < 2 ^ 32"
    and pt: "point es (cc_cursor_abs c)" and room: "cc_lapped_batches c + 1 < u64_limit"
    and ev: "even (u32_at (R ! \<tau> k) 16)" and pause: "\<And>j. k \<le> j \<Longrightarrow> \<tau> j = \<tau> k"
  defines "m \<equiv> ring_view cap (R ! \<tau> k)"
  shows "\<exists>k' c'. shared_poll (\<lambda>k. R ! \<tau> k) cap c k = (k', Ok (c',
      \<lparr>rb_records = [x \<leftarrow> es. max (cc_cursor_abs c) (cr_oldest_abs m) \<le> rr_start_abs x \<and> rr_end_abs x \<le> cr_head_abs m],
       rb_next_abs = cr_head_abs m, rb_lapped = (cc_cursor_abs c < cr_oldest_abs m)\<rparr>))
     \<and> cc_cursor_abs c' = cr_head_abs m"
proof -
  let ?H = "map (ring_view cap) R"
  have pub: "\<exists>p R'. shared_produced cap p R' es \<and> ?H = map (ring_view cap) R'" using pr by blast
  have t: "\<tau> j < length R" for j using sch by (simp add: schedule_def)
  have sch': "schedule ?H \<tau>" using sch by (simp add: schedule_def)
  have v: "view ?H \<tau> = (\<lambda>k. ring_view cap (R ! \<tau> k))" using t by (auto simp: view_def)
  have len: "128 \<le> length (R ! \<tau> j)" for j using region_ok [OF pr t [of j]] by (auto simp: mapped_ok_def)
  from region_ok [OF pr t [of k]] obtain q where q: "mapped_ok cap (q, R ! \<tau> k)" by blast
  then have "even q" using ev by (simp add: mapped_ok_def)
  then have sn: "shared_snapshot (\<lambda>k. R ! \<tau> k) k = (k + 98, Ok (snapshot_of_bytes (R ! \<tau> k)))"
    by (rule quiet_snapshot [OF q _ len]) (erule arg_cong [OF pause])
  have "\<exists>k'. read_raw_with (k + 98, Ok (snapshot_of_bytes (R ! \<tau> k))) (view ?H \<tau>) cap (cc_cursor_abs c) = (k', Ok
      \<lparr>rb_records = [x \<leftarrow> es. max (cc_cursor_abs c) (cr_oldest_abs (view ?H \<tau> k)) \<le> rr_start_abs x
         \<and> rr_end_abs x \<le> cr_head_abs (view ?H \<tau> k)],
       rb_next_abs = cr_head_abs (view ?H \<tau> k), rb_lapped = (cc_cursor_abs c < cr_oldest_abs (view ?H \<tau> k))\<rparr>)"
  proof (rule shared_publisher.paused_read_with [OF pub sch' pt])
    show "view ?H \<tau> j = view ?H \<tau> k" if "k \<le> j" for j using pause [OF that] by (simp add: view_def)
  qed (simp_all add: header_capacity [OF q lim] v view_fields)
  then show ?thesis
    using room by (elim exE) (simp add: v shared_poll_def sn m_def poll_with_def)
qed

lemma shared_paused_poll:
  assumes pr: "shared_produced cap p R es" and sch: "schedule R \<tau>" and lim: "length es < 2 ^ 31" "cap < 2 ^ 32"
    and pm: "shared_poll_many (\<lambda>k. R ! \<tau> k) cap n consumer_with_store 0 = (k, Ok (c, batches))" and n: "n + 1 < u64_limit"
    and ev: "even (u32_at (R ! \<tau> k) 16)" and pause: "\<And>j. k \<le> j \<Longrightarrow> \<tau> j = \<tau> k"
  defines "m \<equiv> ring_view cap (R ! \<tau> k)"
  shows "\<exists>k' c'. shared_poll (\<lambda>k. R ! \<tau> k) cap c k = (k', Ok (c',
      \<lparr>rb_records = [x \<leftarrow> es. max (cc_cursor_abs c) (cr_oldest_abs m) \<le> rr_start_abs x \<and> rr_end_abs x \<le> cr_head_abs m],
       rb_next_abs = cr_head_abs m, rb_lapped = (cc_cursor_abs c < cr_oldest_abs m)\<rparr>))
     \<and> cc_cursor_abs c' = cr_head_abs m"
proof -
  let ?H = "map (ring_view cap) R"
  have pub: "\<exists>p R'. shared_produced cap p R' es \<and> ?H = map (ring_view cap) R'" using pr by blast
  have sch': "schedule ?H \<tau>" using sch by (simp add: schedule_def)
  have v: "view ?H \<tau> = (\<lambda>k. ring_view cap (R ! \<tau> k))" using sch by (auto simp: view_def schedule_def)
  have pm': "poll_many_with (shared_snapshot (\<lambda>k. R ! \<tau> k)) (view ?H \<tau>) cap n consumer_with_store 0 = (k, Ok (c, batches))"
    using pm by (simp add: shared_poll_many_def v)
  have pt: "point es (cc_cursor_abs c)"
    using shared_publisher.delivery_with [OF pub sch' shared_takes_snapshot [OF pr sch lim] pm'] by (simp add: settled_def)
  have "cc_lapped_batches c + 1 < u64_limit" using poll_many_with_counters [OF pm'] n by linarith
  from shared_paused_poll_from [OF pr sch lim(2) pt this ev pause] show ?thesis unfolding m_def .
qed

lemma fits_after:
  assumes "perform_all ops m = (Ok Hs :: (_, 'e) outcome)" "cr_head_abs m < u64_limit" "cr_oldest_abs m < u64_limit"
    "\<And>v. StoreHead v \<in> set ops \<or> StoreOldest v \<in> set ops \<Longrightarrow> v < u64_limit"
  shows "list_all (\<lambda>m. cr_head_abs m < u64_limit \<and> cr_oldest_abs m < u64_limit) Hs"
  using assms
proof (induction ops arbitrary: m Hs)
  case (Cons op ops)
  from Cons.prems(1) obtain m1 Hs1 where m1: "perform op m = (Ok m1 :: (_, 'e) outcome)"
    "perform_all ops m1 = (Ok Hs1 :: (_, 'e) outcome)" "Hs = m1 # Hs1" by (auto simp: outcome_simps)
  have "cr_head_abs m1 < u64_limit \<and> cr_oldest_abs m1 < u64_limit"
    using m1(1) Cons.prems(2-4)
    by (cases op) (auto simp: store_byte_relaxed_def store_head_release_def store_oldest_relaxed_def fetch_add_lost_release_def split: if_splits)
  moreover from this have "list_all (\<lambda>m. cr_head_abs m < u64_limit \<and> cr_oldest_abs m < u64_limit) Hs1"
    by (intro Cons.IH [OF m1(2)]) (use Cons.prems(4) in auto)
  ultimately show ?case using m1(3) by simp
qed simp

lemma fresh_publish:
  assumes "encodable r True" "record_len r True \<le> cap" "cap < u64_limit"
  shows "publish_record cap producer_with_store r
     = Ok (\<lparr>cp_spans = [(0, record_len r True)], cp_head_abs = record_len r True\<rparr>, StoreOldest 0 # body_stores 0 (record_bytes r True) @ [StoreHead (record_len r True)])"
proof -
  have "next_start_abs cap producer_with_store (record_len r True) = (Ok 0 :: (_, RingError) outcome)"
    by (simp add: next_start_abs_def producer_with_store_def store_physical_offset_def)
  with assms show ?thesis
    by (simp add: publish_record_def encode_ok append_bytes_core_def spans_evict_before_clobber_def producer_with_store_def
        store_physical_offset_def body_stores_def Let_def)
qed

lemma shared_first_publication:
  assumes "0 < cap" "encodable r True" "record_len r True \<le> cap" "128 + cap < u64_limit"
  shows "\<exists>p R. shared_produced cap p R [\<lparr>rr_start_abs = 0, rr_end_abs = record_len r True, rr_record = normalise_flags r True\<rparr>]
     \<and> cp_head_abs p = record_len r True"
proof -
  have start: "shared_produced cap producer_with_store [fresh_region cap] []"
    using shared_produced.start [OF created_region [OF assms(1,4), of Fenced]] by simp
  from shared_produced_inv [OF start] obtain S where S: "[fresh_region cap] = map snd S" "shared_inv cap producer_with_store S []" by metis
  have cap: "cap < u64_limit" using assms(4) by simp
  note pub = fresh_publish [OF assms(2,3) cap]
  note core = publish_record_core [OF pub]
  from append_bytes_core_shared [OF S(2), where 'f = RingError] core obtain S' :: "(nat \<times> byte_vec) list" where
    "shared_perform_all cap (bracketed (StoreOldest 0 # body_stores 0 (record_bytes r True) @ [StoreHead (record_len r True)]))
       (snd (last S)) = (Ok (map snd S') :: (_, RingError) outcome)" by blast
  moreover have "snd (last S) = fresh_region cap" using S(1) by (cases S) auto
  ultimately have "shared_produced cap \<lparr>cp_spans = [(0, record_len r True)], cp_head_abs = record_len r True\<rparr>
      ([fresh_region cap] @ map snd S') ([] @ [entry \<lparr>cp_spans = [(0, record_len r True)], cp_head_abs = record_len r True\<rparr> (normalise_flags r True)])"
    using start pub assms(4) by (intro shared_produced.publish [where ops = "StoreOldest 0 # body_stores 0 (record_bytes r True) @ [StoreHead (record_len r True)]"]) simp_all
  then show ?thesis by (fastforce simp: entry_def)
qed

lemma shared_sample:
  obtains p R x where "shared_produced 100 p R [x]" "schedule R (\<lambda>_. length R - 1)" "even (u32_at (R ! (length R - 1)) 16)"
    "rr_start_abs x = 0" "cr_head_abs (ring_view 100 (R ! (length R - 1))) = 44" "cr_oldest_abs (ring_view 100 (R ! (length R - 1))) = 0"
proof -
  from shared_first_publication [of 100 "record_new 1 2 3 4 5"] sample_record obtain p R x where
    pr: "shared_produced 100 p R [x]" and p: "cp_head_abs p = 44" and x: "rr_start_abs x = 0" by (fastforce simp: u64_limit_def)
  from shared_produced_inv [OF pr] obtain S where S: "R = map snd S" "shared_inv 100 p S [x]" by blast
  then have pi: "producer_inv 100 p (map (ring_view 100 \<circ> snd) S) [x]" by (simp add: shared_inv_def)
  then have ne: "S \<noteq> []" by (auto simp: producer_inv_def)
  have l: "R ! (length R - 1) = snd (last S)" using ne S(1) by (simp add: last_conv_nth)
  have "mapped_ok 100 (last S)" "fst (last S) = 2"
    using S(2) last_in_set [OF ne] by (simp_all add: shared_inv_def list_all_iff)
  then have "even (u32_at (snd (last S)) 16)" by (simp add: mapped_ok_def)
  moreover have "cr_head_abs (ring_view 100 (snd (last S))) = 44" using pi p ne by (simp add: producer_inv_def last_map)
  moreover have "cr_oldest_abs (ring_view 100 (snd (last S))) = 0"
    using pi x ne by (auto simp: producer_inv_def coherent_def list_all_iff)
  moreover have "schedule R (\<lambda>_. length R - 1)" using ne S(1) by (intro constant_schedule) simp
  ultimately show ?thesis using that [OF pr] x l by metis
qed

section \<open>Properties\<close>

text \<open>C5. The sequence lock works.  Whatever stores a publisher interleaves with the loads of \<open>read_control_snapshot\<close>, a
  snapshot that is returned is the control block of one moment of the call at which no update was in progress:
  never a mixture of two publications.  Fewer than $2^{31}$ publications are assumed, so that the 32-bit lock does
  not come round.\<close>

theorem shared_snapshot_coherent:
  assumes "shared_produced cap p R es" and "schedule R \<tau>" and "length es < 2 ^ 31"
    and "shared_read_control_snapshot (\<lambda>k. R ! \<tau> k) k = (k', Ok s)"
  shows "\<exists>i. k \<le> i \<and> i < k' \<and> even (u32_at (R ! \<tau> i) OFF_SEQ_LOCK) \<and> s = snapshot_of_bytes (R ! \<tau> i)"
proof -
  from shared_produced_inv [OF assms(1)] obtain S where S: "R = map snd S" "shared_inv cap p S es" by blast
  then have "lock_law (\<lambda>k. R ! \<tau> k)" using shared_lock_law [OF S(2) assms(3)] assms(2) by simp
  from attempts_coherent [OF this assms(4) [unfolded shared_read_control_snapshot_def]] show ?thesis by simp
qed

theorem shared_snapshot_coherent_witness:
  "\<exists>p R x k' s. shared_produced 100 p R [x] \<and> shared_read_control_snapshot (\<lambda>_. R ! (length R - 1)) 0 = (k', Ok s)
     \<and> s = snapshot_of_bytes (R ! (length R - 1))"
proof -
  from shared_sample obtain p R x where w: "shared_produced 100 p R [x]" "schedule R (\<lambda>_. length R - 1)"
    "even (u32_at (R ! (length R - 1)) 16)" by metis
  have "length R - 1 < length R" using w(2) unfolding schedule_def by blast
  with region_ok [OF w(1), of "length R - 1"] obtain q where q: "mapped_ok 100 (q, R ! (length R - 1))" by auto
  then have "even q" using w(3) by (simp add: mapped_ok_def)
  from quiet_snapshot [OF q this, of "\<lambda>_. R ! (length R - 1)" 0] q obtain k' s where
    run: "shared_read_control_snapshot (\<lambda>_. R ! (length R - 1)) 0 = (k', Ok s)"
    by (auto simp: mapped_ok_def shared_snapshot_def split: prod.splits) (metis map_err_eq_Ok)
  with shared_snapshot_coherent [OF w(1,2) _ run] w(1) show ?thesis by auto
qed

text \<open>C4. Delivery over the mapped store.  Under every interleaving of a publisher and a polling consumer on the same
  mapping, the delivered records are a subsequence of the published ones, unaltered and in order, and all of
  those below the cursor as long as no batch is flagged as lapped.\<close>

theorem shared_delivery:
  assumes "shared_produced cap p R es" and "schedule R \<tau>" and "length es < 2 ^ 31" and "cap < 2 ^ 32"
    and "shared_poll_many (\<lambda>k. R ! \<tau> k) cap n consumer_with_store 0 = (k, Ok (c, batches))"
  shows "subseq (delivered batches) es
     \<and> (\<not> list_ex rb_lapped batches \<longrightarrow> delivered batches = [x \<leftarrow> es. rr_start_abs x < cc_cursor_abs c])"
proof -
  let ?H = "map (ring_view cap) R"
  have pub: "\<exists>p R'. shared_produced cap p R' es \<and> ?H = map (ring_view cap) R'" using assms(1) by blast
  have sch: "schedule ?H \<tau>" using assms(2) by (simp add: schedule_def)
  have "view ?H \<tau> = (\<lambda>k. ring_view cap (R ! \<tau> k))" using assms(2) by (auto simp: view_def schedule_def)
  with shared_publisher.delivery_with [OF pub sch shared_takes_snapshot [OF assms(1-4)], of n k c batches] assms(5)
  show ?thesis
    using subseq_order.trans [OF _ subseq_filter_left] by (auto simp: shared_poll_many_def)
qed

theorem shared_delivery_witness:
  "\<exists>p R x k c b. shared_produced 100 p R [x] \<and> schedule R (\<lambda>_. length R - 1)
     \<and> shared_poll_many (\<lambda>_. R ! (length R - 1)) 100 1 consumer_with_store 0 = (k, Ok (c, [b])) \<and> delivered [b] = [x]"
proof -
  from shared_sample obtain p R x where w: "shared_produced 100 p R [x]" "schedule R (\<lambda>_. length R - 1)"
    "even (u32_at (R ! (length R - 1)) 16)" "rr_start_abs x = 0" "cr_head_abs (ring_view 100 (R ! (length R - 1))) = 44"
    "cr_oldest_abs (ring_view 100 (R ! (length R - 1))) = 0" by metis
  have start: "shared_poll_many (\<lambda>k. R ! (length R - 1)) 100 0 consumer_with_store 0 = (0, Ok (consumer_with_store, []))"
    by (simp add: shared_poll_many_def)
  from shared_paused_poll [OF w(1,2) _ _ start _ w(3)] w(5,6) obtain k c b where
    p: "shared_poll (\<lambda>_. R ! (length R - 1)) 100 consumer_with_store 0 = (k, Ok (c, b))" "cc_cursor_abs c = 44" "\<not> rb_lapped b"
    by (auto simp: u64_limit_def consumer_with_store_def)
  then have run: "shared_poll_many (\<lambda>_. R ! (length R - 1)) 100 1 consumer_with_store 0 = (k, Ok (c, [b]))"
    by (simp add: shared_poll_many_def shared_poll_def)
  from shared_delivery [OF w(1,2) _ _ run] p w(4) have "delivered [b] = [x]" by simp
  with w(1,2) run show ?thesis by (intro exI conjI)
qed

text \<open>A consumer catches up.  If the publisher rests between two publications, the next poll returns, with every record
  that is retained and not yet read, and the cursor reaches the head.\<close>

theorem shared_catch_up:
  assumes "shared_produced cap p R es" and "schedule R \<tau>" and "length es < 2 ^ 31" and "cap < 2 ^ 32"
    and "shared_poll_many (\<lambda>k. R ! \<tau> k) cap n consumer_with_store 0 = (k, Ok (c, batches))" and "n + 1 < u64_limit"
    and "even (u32_at (R ! \<tau> k) OFF_SEQ_LOCK)" and "\<And>j. k \<le> j \<Longrightarrow> \<tau> j = \<tau> k"
  defines "m \<equiv> ring_view cap (R ! \<tau> k)"
  shows "\<exists>k' c' batch. shared_poll (\<lambda>k. R ! \<tau> k) cap c k = (k', Ok (c', batch)) \<and> cc_cursor_abs c' = cr_head_abs m
     \<and> rb_records batch = [x \<leftarrow> es. max (cc_cursor_abs c) (cr_oldest_abs m) \<le> rr_start_abs x \<and> rr_end_abs x \<le> cr_head_abs m]"
  using shared_paused_poll [OF assms(1-6) _ assms(8)] assms(7) unfolding m_def by auto

theorem shared_catch_up_witness:
  "\<exists>p R x k c b. shared_produced 100 p R [x] \<and> shared_poll (\<lambda>_. R ! (length R - 1)) 100 consumer_with_store 0 = (k, Ok (c, b))
     \<and> cc_cursor_abs c = 44"
proof -
  from shared_sample obtain p R x where w: "shared_produced 100 p R [x]" "schedule R (\<lambda>_. length R - 1)"
    "even (u32_at (R ! (length R - 1)) 16)" "cr_head_abs (ring_view 100 (R ! (length R - 1))) = 44" by metis
  have start: "shared_poll_many (\<lambda>k. R ! (length R - 1)) 100 0 consumer_with_store 0 = (0, Ok (consumer_with_store, []))"
    by (simp add: shared_poll_many_def)
  from shared_catch_up [OF w(1,2) _ _ start] w show ?thesis by (fastforce simp: u64_limit_def)
qed

text \<open>A reopened ring is rewound.  \<open>SharedRecordPublisher::open_existing\<close> binds a producer whose head is 0 to a mapping
  that already holds records: the first record it appends overwrites the start of the pool and moves the
  published head back to the length of that record, below what consumers have already read.\<close>

theorem reopened_publisher_rewinds:
  assumes "shared_produced cap p R es" and "encodable r True" and "record_len r True \<le> cap"
    and "record_len r True < cp_head_abs p"
  shows "\<exists>s s' regions. publisher_open_existing (Ok (last R)) Fenced = Ok s \<and> append_record s r = Ok (s', regions)
     \<and> cr_head_abs (ring_view cap (last regions)) = record_len r True
     \<and> cr_head_abs (ring_view cap (last regions)) < cr_head_abs (ring_view cap (last R))"
proof -
  let ?n = "record_len r True" and ?r0 = "last R" and ?m = "ring_view cap (last R)"
  from shared_produced_inv [OF assms(1)] obtain S where S: "R = map snd S" "shared_inv cap p S es" by blast
  have pi: "producer_inv cap p (map (ring_view cap \<circ> snd) S) es" using S(2) by (simp add: shared_inv_def)
  then have ne: "S \<noteq> []" "0 < cap" by (auto simp: producer_inv_def)
  have hd: "cr_head_abs ?m = cp_head_abs p" using pi ne by (simp add: producer_inv_def S(1) last_map)
  have "last S = (2 * length es, ?r0)" using S ne(1) by (simp add: shared_inv_def last_map prod_eq_iff)
  then have ok: "mapped_ok cap (2 * length es, ?r0)"
    using S(2) last_in_set [OF ne(1)] by (simp add: shared_inv_def list_all_iff)
  then have len: "length ?r0 = 128 + cap" by (simp add: mapped_ok_def)
  have lim: "cr_head_abs ?m < u64_limit" "cr_oldest_abs ?m < u64_limit" "cr_lost_count ?m < u64_limit" by (simp_all add: ring_view_def)
  define s where "s = publisher_with_store \<lparr>ss_region = ?r0, ss_capacity = cap, ss_fence_mode = Fenced, ss_recheck_stall = 0\<rparr>"
  have op: "publisher_open_existing (Ok ?r0) Fenced = Ok s"
    using len ne(2) by (simp add: publisher_open_existing_def open_existing_with_mode_def validate_capacity_def region_map_def s_def)
  have capl: "cap < u64_limit" using shared_capacity [OF assms(1)] by simp
  let ?ops = "StoreOldest 0 # body_stores 0 (record_bytes r True) @ [StoreHead ?n]"
  note pub = fresh_publish [OF assms(2,3) capl]
  let ?m1 = "?m\<lparr>cr_oldest_abs := 0\<rparr>"
  have "0 + length (record_bytes r True) \<le> length (cr_bytes ?m1)" using assms(2,3) len by (simp add: ring_view_def)
  from perform_all_body [OF this, where 'e = RingError] obtain Bs where
    Bs: "perform_all (body_stores 0 (record_bytes r True)) ?m1 = (Ok Bs :: (_, RingError) outcome)" by blast
  define Hs where "Hs = ?m1 # Bs @ [(last (?m1 # Bs))\<lparr>cr_head_abs := ?n\<rparr>]"
  have Hs: "perform_all ?ops ?m = (Ok Hs :: (_, RingError) outcome)"
    using Bs by (simp add: perform_all_append Hs_def store_oldest_relaxed_def store_head_release_def)
  have "list_all (\<lambda>m. cr_head_abs m < u64_limit \<and> cr_oldest_abs m < u64_limit) Hs"
    by (rule fits_after [OF Hs lim(1,2)]) (use assms(4) hd lim(1) in \<open>auto dest!: set_body_stores simp: u64_limit_def\<close>)
  from bracketed_trace [OF ok _ Hs _ this, where 'f = RingError] obtain Rs where
    Rs: "shared_perform_all cap (bracketed ?ops) ?r0 = (Ok Rs :: (_, RingError) outcome)"
      "map (ring_view cap) Rs = ring_view cap ?r0 # Hs @ [last Hs]" by (auto simp: Hs_def)
  have "Rs \<noteq> []" using Rs(2) by auto
  then have "ring_view cap (last Rs) = last Hs" using Rs(2) by (metis last_map last_snoc append_Cons)
  then have "cr_head_abs (ring_view cap (last Rs)) = ?n" by (simp add: Hs_def)
  moreover have "\<exists>s'. append_record s r = Ok (s', Rs)"
    using pub Rs(1) by (simp add: append_record_def publisher_perform_def s_def publisher_with_store_def)
  ultimately show ?thesis using op hd assms(4) by auto
qed

theorem reopened_publisher_rewinds_witness:
  "\<exists>p R x s s' regions. shared_produced 100 p R [x] \<and> publisher_open_existing (Ok (last R)) Fenced = Ok s
     \<and> append_record s (record_new 1 2 3 4 5) = Ok (s', regions)
     \<and> cr_head_abs (ring_view 100 (last regions)) < cr_head_abs (ring_view 100 (last R))"
proof -
  let ?long = "(record_new 1 2 3 4 5)\<lparr>rec_slots := [slot_new 1 1 [7]]\<rparr>"
  have "encodable ?long True" "record_len ?long True = 52"
    by (simp_all add: encodable_def record_len_def record_new_def slot_new_def slot_ok_def slot_bytes_def padding_len_def)
  with shared_first_publication [of 100 ?long] obtain p R x where w: "shared_produced 100 p R [x]" "cp_head_abs p = 52"
    by (auto simp: u64_limit_def)
  with reopened_publisher_rewinds [OF w(1) sample_record(1)] sample_record(2) obtain s s' regions where
    "publisher_open_existing (Ok (last R)) Fenced = Ok s" "append_record s (record_new 1 2 3 4 5) = Ok (s', regions)"
    "cr_head_abs (ring_view 100 (last regions)) < cr_head_abs (ring_view 100 (last R))" by auto
  with w(1) show ?thesis by (intro exI conjI)
qed

end
