(* ===== verification/Floats.thy ===== *)
theory Floats
  imports Prelude
begin

text \<open>
  IEEE binary floating-point numbers as their bits: what the documents need of the cast from a single to a double,
  which is exact, and of the test for a finite number.
\<close>

fun top_bit :: "nat \<Rightarrow> nat" where
  "top_bit n = (if n < 2 then 0 else Suc (top_bit (n div 2)))"

declare top_bit.simps [simp del]

text \<open>The biased exponent and the fraction of the double that equals the single with exponent \<open>e\<close> and fraction \<open>m\<close>;
  a subnormal single is a normal double.\<close>

definition widen :: "nat \<Rightarrow> nat \<Rightarrow> nat \<times> nat" where
  "widen e m =
     (if e = 0 then if m = 0 then (0, 0) else (top_bit m + 874, (m - 2 ^ top_bit m) * 2 ^ (52 - top_bit m))
      else (e + 896, m * 2 ^ 29))"

definition f32_sign :: "u32 \<Rightarrow> nat" where "f32_sign b = unat b div 2 ^ 23 div 2 ^ 8"
definition f32_exponent :: "u32 \<Rightarrow> nat" where "f32_exponent b = unat b div 2 ^ 23 mod 2 ^ 8"
definition f32_fraction :: "u32 \<Rightarrow> nat" where "f32_fraction b = unat b mod 2 ^ 23"

definition f64_of_f32 :: "u32 \<Rightarrow> u64" where
  "f64_of_f32 b =
     (case widen (f32_exponent b) (f32_fraction b) of (e, m) \<Rightarrow> of_nat ((f32_sign b * 2 ^ 11 + e) * 2 ^ 52 + m))"

definition f32_is_finite :: "u32 \<Rightarrow> bool" where
  "f32_is_finite b \<longleftrightarrow> f32_exponent b \<noteq> 255"

definition f64_is_finite :: "u64 \<Rightarrow> bool" where
  "f64_is_finite b \<longleftrightarrow> unat b div 2 ^ 52 mod 2 ^ 11 \<noteq> 2047"

lemma top_bit_bounds: "0 < n \<Longrightarrow> 2 ^ top_bit n \<le> n \<and> n < 2 ^ Suc (top_bit n)"
proof (induction n rule: top_bit.induct)
  case (1 n)
  show ?case
  proof (cases "n < 2")
    case True
    with 1(2) show ?thesis by (simp add: top_bit.simps)
  next
    case False
    with 1(1) have "2 ^ top_bit (n div 2) \<le> n div 2 \<and> n div 2 < 2 ^ Suc (top_bit (n div 2))" by simp
    with False show ?thesis by (simp add: top_bit.simps [of n]) linarith
  qed
qed

lemma subnormal_fraction:
  assumes "0 < m" "m < 2 ^ 23"
  shows "top_bit m < 23" "(m - 2 ^ top_bit m) * 2 ^ (52 - top_bit m) < 2 ^ 52"
proof -
  from top_bit_bounds [OF assms(1)] have b: "2 ^ top_bit m \<le> m" "m < 2 * 2 ^ top_bit m" by simp_all
  have "(2 :: nat) ^ top_bit m < 2 ^ 23" using b(1) assms(2) by (rule le_less_trans)
  then show k: "top_bit m < 23" using power_less_imp_less_exp [of 2 "top_bit m" 23] by simp
  have "(m - 2 ^ top_bit m) * 2 ^ (52 - top_bit m) < 2 ^ top_bit m * 2 ^ (52 - top_bit m)" using b by simp
  also have "\<dots> = 2 ^ 52" using k by (simp flip: power_add)
  finally show "(m - 2 ^ top_bit m) * 2 ^ (52 - top_bit m) < 2 ^ 52" .
qed

lemma widen_bounds:
  assumes "e < 2 ^ 8" "m < 2 ^ 23"
  shows "fst (widen e m) < 2 ^ 11" "snd (widen e m) < 2 ^ 52"
  using assms subnormal_fraction [of m] by (auto simp: widen_def)

lemma widen_inject:
  assumes "m < 2 ^ 23" "m' < 2 ^ 23" "widen e m = widen e' m'"
  shows "e = e' \<and> m = m'"
proof (cases "e = 0 \<and> m \<noteq> 0 \<and> e' = 0 \<and> m' \<noteq> 0")
  case True
  then have k: "top_bit m = top_bit m'" using assms(3) by (simp add: widen_def)
  have "m - 2 ^ top_bit m = m' - 2 ^ top_bit m" using True assms(3) k by (simp add: widen_def)
  moreover have "2 ^ top_bit m \<le> m" "2 ^ top_bit m \<le> m'" using top_bit_bounds [of m] top_bit_bounds [of m'] True k by simp_all
  ultimately show ?thesis using True by linarith
next
  case False
  then show ?thesis
    using assms subnormal_fraction(1) [of m] subnormal_fraction(1) [of m'] by (auto simp: widen_def split: if_splits)
qed

lemma digits_inject:
  fixes q :: nat
  assumes "r < c" "r' < c" "q * c + r = q' * c + r'"
  shows "q = q' \<and> r = r'"
proof -
  have "(q * c + r) div c = q" "(q' * c + r') div c = q'" using assms(1,2) by simp_all
  with assms(3) show ?thesis by (metis add_left_cancel)
qed

lemma of_nat_u64_inject: "m < 2 ^ 64 \<Longrightarrow> n < 2 ^ 64 \<Longrightarrow> of_nat m = (of_nat n :: u64) \<Longrightarrow> m = n"
  by (simp add: word_of_nat_eq_iff take_bit_nat_eq_self)

lemma f64_of_f32_inject [simp]: "f64_of_f32 a = f64_of_f32 b \<longleftrightarrow> a = b"
proof
  assume eq: "f64_of_f32 a = f64_of_f32 b"
  let ?w = "\<lambda>x. widen (f32_exponent x) (f32_fraction x)"
  let ?n = "\<lambda>x. (f32_sign x * 2 ^ 11 + fst (?w x)) * 2 ^ 52 + snd (?w x)"
  have part: "f32_exponent x < 2 ^ 8" "f32_fraction x < 2 ^ 23" "f32_sign x < 2" for x :: u32
  proof -
    show "f32_exponent x < 2 ^ 8" "f32_fraction x < 2 ^ 23" by (simp_all add: f32_exponent_def f32_fraction_def)
    show "f32_sign x < 2" using unsigned_less [of x, where 'a = nat] by (simp add: f32_sign_def div_mult2_eq [symmetric] less_mult_imp_div_less)
  qed
  have W: "fst (?w x) < 2 ^ 11" "snd (?w x) < 2 ^ 52" for x by (rule widen_bounds [OF part(1,2)])+
  have fit: "?n x < 2 ^ 64" for x
  proof -
    have "f32_sign x * 2 ^ 11 + fst (?w x) < 2 ^ 12" using W(1) [of x] part(3) [of x] by simp
    with W(2) [of x] show ?thesis by simp
  qed
  have "of_nat (?n a) = (of_nat (?n b) :: u64)" using eq unfolding f64_of_f32_def case_prod_beta .
  then have "?n a = ?n b" by (rule of_nat_u64_inject [OF fit fit])
  from digits_inject [OF W(2) W(2) this] have 1: "f32_sign a * 2 ^ 11 + fst (?w a) = f32_sign b * 2 ^ 11 + fst (?w b)"
    "snd (?w a) = snd (?w b)" by auto
  from digits_inject [OF W(1) W(1) 1(1)] 1(2) have "f32_sign a = f32_sign b" "?w a = ?w b" by (auto simp: prod_eq_iff)
  with widen_inject [OF part(2) part(2)] have "f32_sign a = f32_sign b" "f32_exponent a = f32_exponent b" "f32_fraction a = f32_fraction b"
    by auto
  then have "unat a = unat b" unfolding f32_sign_def f32_exponent_def f32_fraction_def by (metis div_mult_mod_eq)
  then show "a = b" by (simp add: word_unat_eq_iff)
qed simp

end
