(* ===== verification/Document.thy ===== *)
theory Document
  imports Floats Resolution Consumer "HOL-Library.Char_ord" "HOL-Library.List_Lexorder"
begin

text \<open>
  The consumer documents of \<open>crates/document/src/lib.rs\<close>: how a resolution or a loss range becomes a document and
  which JSON value stands for it.  \<open>json\<close> is the value that is serialised: the fields of a structure in the order
  of their declaration with the names and omissions its \<open>serde\<close> attributes give, and the objects of \<open>json!\<close> in key
  order.  Turning the value into text is \<open>serde_json\<close>, an argument of \<open>to_json\<close>.  Floating-point numbers are the
  bits of an IEEE double.
\<close>

section \<open>JSON values\<close>

datatype json =
    JNull
  | JBool bool
  | JNumber int
  | JFloat u64
  | JString string
  | JArray "json list"
  | JObject "(string \<times> json) list"

definition json_object :: "(string \<times> json) list \<Rightarrow> json" where
  "json_object kvs = JObject (fold (\<lambda>(k, v) m. btree_insert k v m) kvs [])"

definition json_word :: "'a::len word \<Rightarrow> json" where
  "json_word w = JNumber (uint w)"

definition json_signed :: "'a::len word \<Rightarrow> json" where
  "json_signed w = JNumber (sint w)"

definition json_usize :: "nat \<Rightarrow> json" where
  "json_usize n = JNumber (int n)"

definition json_f32 :: "u32 \<Rightarrow> json" where
  "json_f32 b = (if f32_is_finite b then JFloat (f64_of_f32 b) else JNull)"

definition json_f64 :: "u64 \<Rightarrow> json" where
  "json_f64 b = (if f64_is_finite b then JFloat b else JNull)"

primrec hex_lower :: "byte_vec \<Rightarrow> string" where
  "hex_lower [] = []"
| "hex_lower (b # bs) =
     ''0123456789abcdef'' ! unat (drop_bit 4 b) # ''0123456789abcdef'' ! unat (and b 0x0F) # hex_lower bs"

section \<open>Documents\<close>

datatype EpochRelation = RelCurrent | RelPrior

record DocumentSource =
  dsrc_id :: u32
  dsrc_name :: "string option"
  dsrc_path :: "string list"
  dsrc_hierarchy :: "string list"
  dsrc_dynamic :: "bool option"

definition source_unresolved :: "u32 \<Rightarrow> DocumentSource" where
  "source_unresolved i = \<lparr>dsrc_id = i, dsrc_name = None, dsrc_path = [], dsrc_hierarchy = [], dsrc_dynamic = None\<rparr>"

record RecordDocumentContext =
  rc_buffer_id :: u32
  rc_receive_time_ns :: u64
  rc_definition_hash :: byte_vec
  rc_semantic_version :: "string option"
  rc_flags :: u16
  rc_source_time_ns :: "u64 option"
  rc_source :: "DocumentSource option"

definition record_context_new :: "u32 \<Rightarrow> u64 \<Rightarrow> byte_vec \<Rightarrow> u16 \<Rightarrow> RecordDocumentContext" where
  "record_context_new buffer_id receive_time_ns definition_hash flags =
     \<lparr>rc_buffer_id = buffer_id, rc_receive_time_ns = receive_time_ns, rc_definition_hash = definition_hash,
      rc_semantic_version = None, rc_flags = flags, rc_source_time_ns = None, rc_source = None\<rparr>"

definition record_with_semantic_version :: "RecordDocumentContext \<Rightarrow> string \<Rightarrow> RecordDocumentContext" where
  "record_with_semantic_version c v = c\<lparr>rc_semantic_version := Some v\<rparr>"

definition record_with_source_time :: "RecordDocumentContext \<Rightarrow> u64 \<Rightarrow> RecordDocumentContext" where
  "record_with_source_time c t = c\<lparr>rc_source_time_ns := Some t\<rparr>"

definition record_with_source :: "RecordDocumentContext \<Rightarrow> DocumentSource \<Rightarrow> RecordDocumentContext" where
  "record_with_source c s = c\<lparr>rc_source := Some s\<rparr>"

record LossDocumentContext =
  lc_receive_time_ns :: u64
  lc_epoch_id :: u64
  lc_epoch :: EpochRelation
  lc_definition_hash :: byte_vec
  lc_semantic_version :: "string option"
  lc_source :: "DocumentSource option"

definition loss_context_new :: "u64 \<Rightarrow> u64 \<Rightarrow> EpochRelation \<Rightarrow> byte_vec \<Rightarrow> LossDocumentContext" where
  "loss_context_new receive_time_ns epoch_id epoch definition_hash =
     \<lparr>lc_receive_time_ns = receive_time_ns, lc_epoch_id = epoch_id, lc_epoch = epoch,
      lc_definition_hash = definition_hash, lc_semantic_version = None, lc_source = None\<rparr>"

definition loss_with_semantic_version :: "LossDocumentContext \<Rightarrow> string \<Rightarrow> LossDocumentContext" where
  "loss_with_semantic_version c v = c\<lparr>lc_semantic_version := Some v\<rparr>"

definition loss_with_source :: "LossDocumentContext \<Rightarrow> DocumentSource \<Rightarrow> LossDocumentContext" where
  "loss_with_source c s = c\<lparr>lc_source := Some s\<rparr>"

datatype DocumentKind = KindEvent | KindLoss | KindPlaceholder

record DocumentEpoch =
  dep_id :: u64
  dep_relation :: EpochRelation
  dep_definition_hash :: string
  dep_semantic_version :: "string option"

record DocumentFlags =
  dfl_time_unsynced :: bool
  dfl_synthetic_record :: bool
  dfl_partial_payload :: bool

definition flags_default :: DocumentFlags where
  "flags_default = \<lparr>dfl_time_unsynced = False, dfl_synthetic_record = False, dfl_partial_payload = False\<rparr>"

definition from_record_flags :: "u16 \<Rightarrow> DocumentFlags" where
  "from_record_flags flags =
     \<lparr>dfl_time_unsynced = (and flags FLAG_TIME_UNSYNCED \<noteq> 0),
      dfl_synthetic_record = (and flags FLAG_SYNTHETIC \<noteq> 0),
      dfl_partial_payload = (and flags FLAG_PARTIAL_PAYLOAD \<noteq> 0)\<rparr>"

record Provenance =
  pv_buffer_id :: u32
  pv_source :: DocumentSource
  pv_run_id :: u64
  pv_epoch :: DocumentEpoch
  pv_source_time_ns :: "u64 option"
  pv_receive_time_ns :: u64
  pv_flags :: DocumentFlags

record DocumentField =
  dof_key :: u16
  dof_name :: string
  dof_type_name :: string
  dof_value :: json
  dof_unit :: "string option"
  dof_enum_label :: "string option"

record ExtensionField =
  ef_key :: u16
  ef_type_tag :: u8
  ef_type_name :: "string option"
  ef_name :: "string option"
  ef_value :: "json option"
  ef_payload_hex :: string

datatype LossBasis = Authoritative | Inferred

datatype PlaceholderReasonKind =
    PkMissingCurrentDefinition
  | PkStalePriorEpoch
  | PkDrift
  | PkFullHashDrift
  | PkUnknownEventId
  | PkSchemaViolation
  | PkInvalidPayload
  | PkHashError

record PlaceholderReasonDocument =
  prd_kind :: PlaceholderReasonKind
  prd_detail :: "json option"

record RawSlot =
  rs_key :: u16
  rs_type_tag :: u8
  rs_payload_hex :: string

record EventDocument =
  ed_kind :: DocumentKind
  ed_provenance :: Provenance
  ed_event_name :: string
  ed_event_type_id :: u32
  ed_seq :: u64
  ed_fields :: "DocumentField list"
  ed_extension_fields :: "ExtensionField list"

record LossDocument =
  ld_kind :: DocumentKind
  ld_provenance :: Provenance
  ld_first_seq :: nat
  ld_last_seq :: nat
  ld_count :: nat
  ld_basis :: LossBasis

record PlaceholderDocument =
  pd_kind :: DocumentKind
  pd_provenance :: Provenance
  pd_event_type_id :: u32
  pd_seq :: u64
  pd_reason :: PlaceholderReasonDocument
  pd_raw_slots :: "RawSlot list"

datatype Document =
    DocEvent EventDocument
  | DocLoss LossDocument
  | DocPlaceholder PlaceholderDocument

section \<open>Reasons\<close>

fun epoch_relation :: "ResolvedEpoch \<Rightarrow> EpochRelation" where
  "epoch_relation Current = RelCurrent"
| "epoch_relation Prior = RelPrior"

fun relation_json :: "EpochRelation \<Rightarrow> json" where
  "relation_json RelCurrent = JString ''current''"
| "relation_json RelPrior = JString ''prior''"

fun wire_error_document :: "WireError \<Rightarrow> json" where
  "wire_error_document (CrcMismatch expected actual) =
     json_object [(''crcMismatch'', json_object [(''expected'', json_word expected), (''actual'', json_word actual)])]"
| "wire_error_document (InvalidLength total_len available) =
     json_object [(''invalidLength'', json_object [(''totalLength'', json_usize total_len), (''available'', json_usize available)])]"
| "wire_error_document (InvalidPadding offset) = json_object [(''invalidPadding'', json_object [(''offset'', json_usize offset)])]"
| "wire_error_document (InvalidSlot offset) = json_object [(''invalidSlot'', json_object [(''offset'', json_usize offset)])]"
| "wire_error_document (RecordTooLong len) = json_object [(''recordTooLong'', json_object [(''len'', json_usize len)])]"
| "wire_error_document (SlotTooLong key len) =
     json_object [(''slotTooLong'', json_object [(''key'', json_word key), (''len'', json_usize len)])]"
| "wire_error_document (Truncated needed available) =
     json_object [(''truncated'', json_object [(''needed'', json_usize needed), (''available'', json_usize available)])]"
| "wire_error_document WrongSync = json_object [(''wrongSync'', json_object [])]"

fun definition_schema_violation_document :: "DefinitionSchemaViolation \<Rightarrow> json" where
  "definition_schema_violation_document (DuplicateEventId event_type_id) =
     json_object [(''duplicateEventId'', json_object [(''eventTypeId'', json_word event_type_id)])]"
| "definition_schema_violation_document (DuplicateSlotKey event_id key) =
     json_object [(''duplicateSlotKey'', json_object [(''eventTypeId'', json_word event_id), (''key'', json_word key)])]"
| "definition_schema_violation_document (OrderClassNotAscending event_id previous current) =
     json_object [(''orderClassNotAscending'', json_object [(''eventTypeId'', json_word event_id),
       (''previous'', json_word previous), (''current'', json_word current)])]"
| "definition_schema_violation_document (CoreTypeMismatch event_id key actual expected) =
     json_object [(''coreTypeMismatch'', json_object [(''eventTypeId'', json_word event_id), (''key'', json_word key),
       (''actual'', json_word actual), (''expected'', json_word expected)])]"
| "definition_schema_violation_document (DefUnknownTlvType event_id key ty_tag) =
     json_object [(''unknownTlvType'', json_object [(''eventTypeId'', json_word event_id), (''key'', json_word key), (''type'', json_word ty_tag)])]"
| "definition_schema_violation_document (DefReservedCoreKey event_id key) =
     json_object [(''reservedCoreKey'', json_object [(''eventTypeId'', json_word event_id), (''key'', json_word key)])]"
| "definition_schema_violation_document (InvalidMaxOccurs event_id key) =
     json_object [(''invalidMaxOccurs'', json_object [(''eventTypeId'', json_word event_id), (''key'', json_word key)])]"
| "definition_schema_violation_document (UnknownProceduralModel state_machine_id model) =
     json_object [(''unknownProceduralModel'', json_object [(''stateMachineId'', json_word state_machine_id), (''model'', JString model)])]"
| "definition_schema_violation_document (MissingEnumSet state_machine_id enum_set) =
     json_object [(''missingEnumSet'', json_object [(''stateMachineId'', json_word state_machine_id), (''enumSet'', JString enum_set)])]"
| "definition_schema_violation_document (ProceduralStateMismatch state_machine_id model value label) =
     json_object [(''proceduralStateMismatch'', json_object [(''stateMachineId'', json_word state_machine_id),
       (''model'', JString model), (''value'', json_word value), (''label'', JString label)])]"

fun schema_violation_document :: "SchemaViolation \<Rightarrow> json" where
  "schema_violation_document (Definition reason) =
     json_object [(''definition'', definition_schema_violation_document reason)]"
| "schema_violation_document (UnknownEventId event_type_id) =
     json_object [(''unknownEventId'', json_object [(''eventTypeId'', json_word event_type_id)])]"
| "schema_violation_document (RecordTooLarge actual limit) =
     json_object [(''recordTooLarge'', json_object [(''actual'', json_usize actual), (''max'', json_usize limit)])]"
| "schema_violation_document (TooManySlots actual limit) =
     json_object [(''tooManySlots'', json_object [(''actual'', json_usize actual), (''max'', json_usize limit)])]"
| "schema_violation_document (UnexpectedCoreKey key) =
     json_object [(''unexpectedCoreKey'', json_object [(''key'', json_word key)])]"
| "schema_violation_document (VendorExtensionNotTrailing key) =
     json_object [(''vendorExtensionNotTrailing'', json_object [(''key'', json_word key)])]"
| "schema_violation_document (VendorExtensionOutOfOrder previous key) =
     json_object [(''vendorExtensionOutOfOrder'', json_object [(''previous'', json_word previous), (''key'', json_word key)])]"
| "schema_violation_document (TypeMismatch key actual expected) =
     json_object [(''typeMismatch'', json_object [(''key'', json_word key), (''actual'', json_word actual), (''expected'', json_word expected)])]"
| "schema_violation_document (UnknownTlvType key ty_tag) =
     json_object [(''unknownTlvType'', json_object [(''key'', json_word key), (''type'', json_word ty_tag)])]"
| "schema_violation_document (ReservedCoreKey key) =
     json_object [(''reservedCoreKey'', json_object [(''key'', json_word key)])]"
| "schema_violation_document (FixedWidthMismatch key ty_tag actual expected) =
     json_object [(''fixedWidthMismatch'', json_object [(''key'', json_word key), (''type'', json_word ty_tag),
       (''actual'', json_usize actual), (''expected'', json_usize expected)])]"
| "schema_violation_document (MissingRequired key lower actual) =
     json_object [(''missingRequired'', json_object [(''key'', json_word key), (''min'', json_word lower), (''actual'', json_usize actual)])]"
| "schema_violation_document (TooManyOccurrences key upper actual) =
     json_object [(''tooManyOccurrences'', json_object [(''key'', json_word key), (''max'', json_word upper), (''actual'', json_usize actual)])]"
| "schema_violation_document (RepeatedSlotNotContiguous key) =
     json_object [(''repeatedSlotNotContiguous'', json_object [(''key'', json_word key)])]"
| "schema_violation_document (OrderClassViolation previous current key) =
     json_object [(''orderClassViolation'', json_object [(''previous'', json_word previous),
       (''current'', json_word current), (''key'', json_word key)])]"
| "schema_violation_document (Encode reason) = json_object [(''encode'', wire_error_document reason)]"

fun reason_document :: "ResolvePlaceholderReason \<Rightarrow> PlaceholderReasonDocument" where
  "reason_document MissingCurrentDefinition = \<lparr>prd_kind = PkMissingCurrentDefinition, prd_detail = None\<rparr>"
| "reason_document StalePriorEpoch = \<lparr>prd_kind = PkStalePriorEpoch, prd_detail = None\<rparr>"
| "reason_document (Drift epoch expected actual) =
     \<lparr>prd_kind = PkDrift, prd_detail = Some (json_object [(''epoch'', relation_json (epoch_relation epoch)),
        (''expected'', JString (hex_lower expected)), (''actual'', JString (hex_lower actual))])\<rparr>"
| "reason_document (FullHashDrift expected actual) =
     \<lparr>prd_kind = PkFullHashDrift, prd_detail = Some (json_object [(''expected'', JString expected), (''actual'', JString actual)])\<rparr>"
| "reason_document (ResolveUnknownEventId event_type_id) =
     \<lparr>prd_kind = PkUnknownEventId, prd_detail = Some (json_object [(''eventTypeId'', json_word event_type_id)])\<rparr>"
| "reason_document (SchemaReason reason) =
     \<lparr>prd_kind = PkSchemaViolation, prd_detail = Some (schema_violation_document reason)\<rparr>"
| "reason_document (InvalidUtf8 key) =
     \<lparr>prd_kind = PkInvalidPayload, prd_detail = Some (json_object [(''key'', json_word key), (''reason'', JString ''invalidUtf8'')])\<rparr>"
| "reason_document (ResolveUnknownTlvType key ty_tag) =
     \<lparr>prd_kind = PkInvalidPayload, prd_detail = Some (json_object [(''key'', json_word key), (''type'', json_word ty_tag),
        (''reason'', JString ''unknownTlvType'')])\<rparr>"
| "reason_document (HashReason error) =
     \<lparr>prd_kind = PkHashError, prd_detail = Some (json_object [(''message'', JString error)])\<rparr>"

section \<open>Conversion\<close>

fun value_document :: "ResolvedValue \<Rightarrow> json" where
  "value_document (RBool v) = JBool v"
| "value_document (RSInt v) = json_signed v"
| "value_document (RUSInt v) = json_word v"
| "value_document (RUInt v) = json_word v"
| "value_document (RInt v) = json_signed v"
| "value_document (RUDInt v) = json_word v"
| "value_document (RDInt v) = json_signed v"
| "value_document (RULInt v) = json_word v"
| "value_document (RLInt v) = json_signed v"
| "value_document (RReal v) = json_f32 v"
| "value_document (RLReal v) = json_f64 v"
| "value_document (RDateTime v) = json_word v"
| "value_document (RString v) = JString v"
| "value_document (RBytes v) = json_object [(''payloadHex'', JString (hex_lower v))]"

definition source_document :: "u32 \<Rightarrow> ResolvedSource \<Rightarrow> DocumentSource" where
  "source_document i source =
     \<lparr>dsrc_id = i, dsrc_name = Some (rsrc_name source), dsrc_path = rsrc_path source,
      dsrc_hierarchy = rsrc_hierarchy source, dsrc_dynamic = Some (rsrc_dynamic source)\<rparr>"

definition provenance_for_record ::
  "RecordDocumentContext \<Rightarrow> u32 \<Rightarrow> u64 \<Rightarrow> u64 \<Rightarrow> ResolvedEpoch \<Rightarrow> u64 option \<Rightarrow> ResolvedSource option \<Rightarrow> Provenance" where
  "provenance_for_record context source_id run_id epoch_id epoch source_time_ns resolved_source =
     \<lparr>pv_buffer_id = rc_buffer_id context,
      pv_source = (case resolved_source of
          Some source \<Rightarrow> source_document source_id source
        | None \<Rightarrow> (case rc_source context of Some source \<Rightarrow> source | None \<Rightarrow> source_unresolved source_id)),
      pv_run_id = run_id,
      pv_epoch = \<lparr>dep_id = epoch_id, dep_relation = epoch_relation epoch,
        dep_definition_hash = hex_lower (rc_definition_hash context), dep_semantic_version = rc_semantic_version context\<rparr>,
      pv_source_time_ns = source_time_ns,
      pv_receive_time_ns = rc_receive_time_ns context,
      pv_flags = from_record_flags (rc_flags context)\<rparr>"

definition field_document :: "ResolvedField \<Rightarrow> DocumentField" where
  "field_document fld =
     \<lparr>dof_key = rf_key fld, dof_name = rf_name fld, dof_type_name = rf_type_name fld,
      dof_value = value_document (rf_value fld), dof_unit = rf_unit fld, dof_enum_label = rf_enum_label fld\<rparr>"

definition extension_field_document :: "ResolvedExtensionField \<Rightarrow> ExtensionField" where
  "extension_field_document fld =
     \<lparr>ef_key = rx_key fld, ef_type_tag = rx_type_tag fld, ef_type_name = rx_type_name fld, ef_name = None,
      ef_value = map_option value_document (rx_value fld), ef_payload_hex = hex_lower (rx_payload fld)\<rparr>"

definition raw_slot_document :: "Slot \<Rightarrow> RawSlot" where
  "raw_slot_document s =
     \<lparr>rs_key = slot_key s, rs_type_tag = slot_ty s, rs_payload_hex = hex_lower (slot_payload s)\<rparr>"

definition event_document_from_record :: "ResolvedRecord \<Rightarrow> RecordDocumentContext \<Rightarrow> EventDocument" where
  "event_document_from_record r context =
     \<lparr>ed_kind = KindEvent,
      ed_provenance = provenance_for_record context (rv_source_id r) (rv_run_id r) (rv_epoch_id r) (rv_epoch r)
        (Some (rv_source_time r)) (rv_source r),
      ed_event_name = rv_event_name r, ed_event_type_id = rv_event_type_id r, ed_seq = rv_seq r,
      ed_fields = map field_document (rv_fields r),
      ed_extension_fields = map extension_field_document (rv_extension_fields r)\<rparr>"

definition placeholder_document_from_record :: "ResolvedPlaceholder \<Rightarrow> RecordDocumentContext \<Rightarrow> PlaceholderDocument" where
  "placeholder_document_from_record p context =
     \<lparr>pd_kind = KindPlaceholder,
      pd_provenance = provenance_for_record context (rp_source_id p) (rp_run_id p) (rp_epoch_id p) (rp_epoch p)
        (rc_source_time_ns context) None,
      pd_event_type_id = rp_event_type_id p, pd_seq = rp_seq p, pd_reason = reason_document (rp_reason p),
      pd_raw_slots = map raw_slot_document (rp_slots p)\<rparr>"

fun document_from_resolution :: "Resolution \<Rightarrow> RecordDocumentContext \<Rightarrow> Document" where
  "document_from_resolution (Resolved r) context = DocEvent (event_document_from_record r context)"
| "document_from_resolution (ResPlaceholder p) context = DocPlaceholder (placeholder_document_from_record p context)"

definition document_from_loss :: "LossEvent \<Rightarrow> LossDocumentContext \<Rightarrow> Document" where
  "document_from_loss event context =
     DocLoss \<lparr>ld_kind = KindLoss,
       ld_provenance = \<lparr>pv_buffer_id = le_buffer_id event,
         pv_source = (case lc_source context of Some source \<Rightarrow> source | None \<Rightarrow> source_unresolved (le_source_id event)),
         pv_run_id = le_run_id event,
         pv_epoch = \<lparr>dep_id = lc_epoch_id context, dep_relation = lc_epoch context,
           dep_definition_hash = hex_lower (lc_definition_hash context), dep_semantic_version = lc_semantic_version context\<rparr>,
         pv_source_time_ns = None, pv_receive_time_ns = lc_receive_time_ns context, pv_flags = flags_default\<rparr>,
       ld_first_seq = le_first_seq event, ld_last_seq = le_last_seq event, ld_count = le_count event,
       ld_basis = (if le_synthetic event then Inferred else Authoritative)\<rparr>"

section \<open>Serialisation\<close>

definition field_unless :: "bool \<Rightarrow> string \<Rightarrow> json \<Rightarrow> (string \<times> json) list" where
  "field_unless omit name v = (if omit then [] else [(name, v)])"

fun json_option :: "('a \<Rightarrow> json) \<Rightarrow> 'a option \<Rightarrow> json" where
  "json_option f None = JNull"
| "json_option f (Some a) = f a"

definition json_strings :: "string list \<Rightarrow> json" where
  "json_strings ss = JArray (map JString ss)"

fun kind_json :: "DocumentKind \<Rightarrow> json" where
  "kind_json KindEvent = JString ''event''"
| "kind_json KindLoss = JString ''loss''"
| "kind_json KindPlaceholder = JString ''placeholder''"

fun basis_json :: "LossBasis \<Rightarrow> json" where
  "basis_json Authoritative = JString ''authoritative''"
| "basis_json Inferred = JString ''inferred''"

fun reason_kind_json :: "PlaceholderReasonKind \<Rightarrow> json" where
  "reason_kind_json PkMissingCurrentDefinition = JString ''missingCurrentDefinition''"
| "reason_kind_json PkStalePriorEpoch = JString ''stalePriorEpoch''"
| "reason_kind_json PkDrift = JString ''drift''"
| "reason_kind_json PkFullHashDrift = JString ''fullHashDrift''"
| "reason_kind_json PkUnknownEventId = JString ''unknownEventId''"
| "reason_kind_json PkSchemaViolation = JString ''schemaViolation''"
| "reason_kind_json PkInvalidPayload = JString ''invalidPayload''"
| "reason_kind_json PkHashError = JString ''hashError''"

definition source_json :: "DocumentSource \<Rightarrow> json" where
  "source_json s =
     JObject ([(''id'', json_word (dsrc_id s))]
       @ field_unless (dsrc_name s = None) ''name'' (json_option JString (dsrc_name s))
       @ field_unless (dsrc_path s = []) ''path'' (json_strings (dsrc_path s))
       @ field_unless (dsrc_hierarchy s = []) ''hierarchy'' (json_strings (dsrc_hierarchy s))
       @ field_unless (dsrc_dynamic s = None) ''dynamic'' (json_option JBool (dsrc_dynamic s)))"

definition epoch_json :: "DocumentEpoch \<Rightarrow> json" where
  "epoch_json e =
     JObject ([(''id'', json_word (dep_id e)), (''relation'', relation_json (dep_relation e)),
         (''definitionHash'', JString (dep_definition_hash e))]
       @ field_unless (dep_semantic_version e = None) ''semanticVersion'' (json_option JString (dep_semantic_version e)))"

definition flags_json :: "DocumentFlags \<Rightarrow> json" where
  "flags_json f =
     JObject [(''timeUnsynced'', JBool (dfl_time_unsynced f)), (''syntheticRecord'', JBool (dfl_synthetic_record f)),
       (''partialPayload'', JBool (dfl_partial_payload f))]"

definition provenance_json :: "Provenance \<Rightarrow> json" where
  "provenance_json p =
     JObject ([(''bufferId'', json_word (pv_buffer_id p)), (''source'', source_json (pv_source p)),
         (''runId'', json_word (pv_run_id p)), (''epoch'', epoch_json (pv_epoch p))]
       @ field_unless (pv_source_time_ns p = None) ''sourceTimeNs'' (json_option json_word (pv_source_time_ns p))
       @ [(''receiveTimeNs'', json_word (pv_receive_time_ns p)), (''flags'', flags_json (pv_flags p))])"

definition field_json :: "DocumentField \<Rightarrow> json" where
  "field_json f =
     JObject ([(''key'', json_word (dof_key f)), (''name'', JString (dof_name f)), (''type'', JString (dof_type_name f)),
         (''value'', dof_value f)]
       @ field_unless (dof_unit f = None) ''unit'' (json_option JString (dof_unit f))
       @ [(''enumLabel'', json_option JString (dof_enum_label f))])"

definition extension_json :: "ExtensionField \<Rightarrow> json" where
  "extension_json f =
     JObject ([(''key'', json_word (ef_key f)), (''type'', json_word (ef_type_tag f)),
         (''typeName'', json_option JString (ef_type_name f)), (''name'', json_option JString (ef_name f))]
       @ field_unless (ef_value f = None) ''value'' (json_option (\<lambda>v. v) (ef_value f))
       @ [(''payloadHex'', JString (ef_payload_hex f))])"

definition reason_json :: "PlaceholderReasonDocument \<Rightarrow> json" where
  "reason_json r =
     JObject ([(''kind'', reason_kind_json (prd_kind r))]
       @ field_unless (prd_detail r = None) ''detail'' (json_option (\<lambda>v. v) (prd_detail r)))"

definition raw_slot_json :: "RawSlot \<Rightarrow> json" where
  "raw_slot_json s =
     JObject [(''key'', json_word (rs_key s)), (''type'', json_word (rs_type_tag s)), (''payloadHex'', JString (rs_payload_hex s))]"

definition event_json :: "EventDocument \<Rightarrow> json" where
  "event_json d =
     JObject ([(''kind'', kind_json (ed_kind d)), (''provenance'', provenance_json (ed_provenance d)),
         (''eventName'', JString (ed_event_name d)), (''eventTypeId'', json_word (ed_event_type_id d)),
         (''seq'', json_word (ed_seq d)), (''fields'', JArray (map field_json (ed_fields d)))]
       @ field_unless (ed_extension_fields d = []) ''extensionFields'' (JArray (map extension_json (ed_extension_fields d))))"

definition loss_json :: "LossDocument \<Rightarrow> json" where
  "loss_json d =
     JObject [(''kind'', kind_json (ld_kind d)), (''provenance'', provenance_json (ld_provenance d)),
       (''firstSeq'', json_usize (ld_first_seq d)), (''lastSeq'', json_usize (ld_last_seq d)),
       (''count'', json_usize (ld_count d)), (''basis'', basis_json (ld_basis d))]"

definition placeholder_json :: "PlaceholderDocument \<Rightarrow> json" where
  "placeholder_json d =
     JObject [(''kind'', kind_json (pd_kind d)), (''provenance'', provenance_json (pd_provenance d)),
       (''eventTypeId'', json_word (pd_event_type_id d)), (''seq'', json_word (pd_seq d)),
       (''reason'', reason_json (pd_reason d)), (''rawSlots'', JArray (map raw_slot_json (pd_raw_slots d)))]"

fun document_json :: "Document \<Rightarrow> json" where
  "document_json (DocEvent d) = event_json d"
| "document_json (DocLoss d) = loss_json d"
| "document_json (DocPlaceholder d) = placeholder_json d"

definition to_json :: "(json \<Rightarrow> (string, 'e) outcome) \<Rightarrow> Document \<Rightarrow> (string, 'e) outcome" where
  "to_json to_string document = to_string (document_json document)"

section \<open>Nothing is merged\<close>

lemma hex_lower_eq: "hex_lower bs = lower_hex bs"
proof (induction bs)
  case (Cons b bs)
  have "unat (drop_bit 4 b) = unat b div 16" by (simp add: drop_bit_eq_div unat_div)
  moreover have "and b 0x0F = take_bit 4 b" by (simp add: take_bit_eq_mask mask_eq_exp_minus_1)
  then have "unat (and b 0x0F) = unat b mod 16" by (simp add: take_bit_eq_mod unat_mod)
  ultimately show ?case using Cons by (simp add: hex_digit_def)
qed simp

lemma hex_lower_inject [simp]: "hex_lower a = hex_lower b \<longleftrightarrow> a = b"
proof
  assume "hex_lower a = hex_lower b"
  then have eq: "lower_hex a = lower_hex b" by (simp add: hex_lower_eq)
  from arg_cong [OF this, of length] have "length a = length b" by simp
  then show "a = b" using eq by (rule lower_hex_inject)
qed simp

lemma json_word_inject [simp]: "json_word v = json_word w \<longleftrightarrow> v = w"
  by (simp add: json_word_def word_uint_eq_iff)

lemma json_signed_inject [simp]: "json_signed v = json_signed w \<longleftrightarrow> v = w"
  using word_eq_iff_signed [of v w, where 'a = int] by (auto simp: json_signed_def)

lemma json_usize_inject [simp]: "json_usize m = json_usize n \<longleftrightarrow> m = n"
  by (simp add: json_usize_def)

lemma relation_json_inject [simp]: "relation_json a = relation_json b \<longleftrightarrow> a = b"
  by (cases a; cases b) simp_all

lemma epoch_relation_inject [simp]: "epoch_relation a = epoch_relation b \<longleftrightarrow> a = b"
  by (cases a; cases b) simp_all

lemma kind_json_inject [simp]: "kind_json a = kind_json b \<longleftrightarrow> a = b"
  by (cases a; cases b) simp_all

lemma basis_json_inject [simp]: "basis_json a = basis_json b \<longleftrightarrow> a = b"
  by (cases a; cases b) simp_all

lemma reason_kind_json_inject [simp]: "reason_kind_json a = reason_kind_json b \<longleftrightarrow> a = b"
  by (cases a; cases b) simp_all

lemmas json_eval = json_object_def less_char_def

lemma wire_error_document_inject [simp]: "wire_error_document a = wire_error_document b \<longleftrightarrow> a = b"
  by (cases a; cases b) (auto simp: json_eval)

lemma definition_document_inject [simp]:
  "definition_schema_violation_document a = definition_schema_violation_document b \<longleftrightarrow> a = b"
  by (cases a; cases b) (auto simp: json_eval)

lemma schema_document_inject [simp]: "schema_violation_document a = schema_violation_document b \<longleftrightarrow> a = b"
  by (cases a; cases b) (auto simp: json_eval)

lemma reason_document_inject [simp]: "reason_document a = reason_document b \<longleftrightarrow> a = b"
  by (cases a; cases b) (auto simp: json_eval)

text \<open>The serialised structures.  A field that is omitted leaves a gap no other field can fill, so the omission is
  visible in the list of names.\<close>

lemma map_inject: "(\<And>x y. f x = f y \<longleftrightarrow> x = y) \<Longrightarrow> map f xs = map f ys \<longleftrightarrow> xs = ys"
  by (metis injI list.inj_map_strong)

lemma json_strings_inject [simp]: "json_strings a = json_strings b \<longleftrightarrow> a = b"
  by (simp add: json_strings_def map_inject)

lemma json_option_inject [simp]:
  "json_option JString a = json_option JString b \<longleftrightarrow> a = b" "json_option JBool c = json_option JBool d \<longleftrightarrow> c = d"
  by (cases a; cases b; simp) (cases c; cases d; simp)

lemma source_json_inject [simp]: "source_json a = source_json b \<longleftrightarrow> a = (b :: DocumentSource)"
  by (cases a; cases b) (auto simp: source_json_def field_unless_def split: if_splits)

lemma epoch_json_inject [simp]: "epoch_json a = epoch_json b \<longleftrightarrow> a = (b :: DocumentEpoch)"
  by (cases a; cases b) (auto simp: epoch_json_def field_unless_def split: if_splits)

lemma flags_json_inject [simp]: "flags_json a = flags_json b \<longleftrightarrow> a = (b :: DocumentFlags)"
  by (cases a; cases b) (auto simp: flags_json_def)

lemma provenance_json_inject [simp]: "provenance_json a = provenance_json b \<longleftrightarrow> a = (b :: Provenance)"
  by (cases a; cases b) (auto simp: provenance_json_def field_unless_def split: if_splits)

lemma field_json_inject [simp]: "field_json a = field_json b \<longleftrightarrow> a = (b :: DocumentField)"
  by (cases a; cases b) (auto simp: field_json_def field_unless_def split: if_splits)

lemma extension_json_inject [simp]: "extension_json a = extension_json b \<longleftrightarrow> a = (b :: ExtensionField)"
  by (cases a; cases b) (auto simp: extension_json_def field_unless_def split: if_splits)

lemma reason_json_inject [simp]: "reason_json a = reason_json b \<longleftrightarrow> a = (b :: PlaceholderReasonDocument)"
  by (cases a; cases b) (auto simp: reason_json_def field_unless_def split: if_splits)

lemma raw_slot_json_inject [simp]: "raw_slot_json a = raw_slot_json b \<longleftrightarrow> a = (b :: RawSlot)"
  by (cases a; cases b) (auto simp: raw_slot_json_def)

lemma event_json_inject [simp]: "event_json a = event_json b \<longleftrightarrow> a = (b :: EventDocument)"
  by (cases a; cases b) (auto simp: event_json_def field_unless_def map_inject split: if_splits)

lemma loss_json_inject [simp]: "loss_json a = loss_json b \<longleftrightarrow> a = (b :: LossDocument)"
  by (cases a; cases b) (auto simp: loss_json_def)

lemma placeholder_json_inject [simp]: "placeholder_json a = placeholder_json b \<longleftrightarrow> a = (b :: PlaceholderDocument)"
  by (cases a; cases b) (auto simp: placeholder_json_def map_inject)

lemma json_kinds_distinct [simp]:
  "event_json a \<noteq> loss_json b" "event_json a \<noteq> placeholder_json c" "loss_json b \<noteq> placeholder_json c"
  by (simp_all add: event_json_def loss_json_def placeholder_json_def)

lemma document_json_inject: "document_json a = document_json b \<longleftrightarrow> a = b"
  by (cases a; cases b) (simp_all add: json_kinds_distinct [THEN not_sym])

lemma raw_slot_document_inject [simp]: "raw_slot_document a = raw_slot_document b \<longleftrightarrow> a = b"
  by (cases a; cases b) (auto simp: raw_slot_document_def)

section \<open>Losses\<close>

definition losses_of :: "u64 \<Rightarrow> u32 \<Rightarrow> Document list \<Rightarrow> LossDocument list" where
  "losses_of run src docs =
     [d \<leftarrow> List.map_filter (\<lambda>x. case x of DocLoss d \<Rightarrow> Some d | _ \<Rightarrow> None) docs.
       pv_run_id (ld_provenance d) = run \<and> dsrc_id (pv_source (ld_provenance d)) = src]"

lemma losses_of_events:
  assumes "lc_source context = None"
  shows "map (\<lambda>d. (ld_first_seq d, ld_last_seq d, ld_count d)) (losses_of run src (map (\<lambda>e. document_from_loss e context) evs))
     = map (\<lambda>e. (le_first_seq e, le_last_seq e, le_count e)) [e \<leftarrow> evs. le_stream e = (run, src)]"
  unfolding losses_of_def using assms
  by (induction evs) (auto simp: document_from_loss_def source_unresolved_def map_filter_simps le_stream_def)

lemma u64_sum_Ok: "u64_sum ns acc = (Ok s :: (nat, 'e) outcome) \<Longrightarrow> s = acc + sum_list ns"
proof (induction ns arbitrary: acc)
  case (Cons n ns)
  from Cons.prems have "u64_sum ns (acc + n) = (Ok s :: (nat, 'e) outcome)" by (auto simp: outcome_simps)
  from Cons.IH [OF this] show ?case by simp
qed simp

lemma sum_list_insort: "sum_list (map (f :: _ \<Rightarrow> nat) (insort_key g x xs)) = f x + sum_list (map f xs)"
  by (induction xs) auto

lemma sum_list_sort: "sum_list (map (f :: _ \<Rightarrow> nat) (sort_key g xs)) = sum_list (map f xs)"
  by (induction xs) (simp_all add: sum_list_insort)

section \<open>Properties\<close>



text \<open>C19. The document of a record is about that record.  Whatever the definitions are, a record that is resolved becomes
  an event document, one that is not a placeholder document, and both carry the record's own run, sequence number
  and event type and say whether it precedes the epoch of the control block.  An event document carries the source
  time, a field for every core slot in slot order and every private slot with its bytes, a placeholder document all
  slots with their bytes.\<close>

theorem document_describes_record:
  assumes "resolve_record jcs sha256 r record_abs snapshot definitions = Ok res"
  shows "case document_from_resolution res context of
      DocEvent d \<Rightarrow> pv_run_id (ed_provenance d) = rec_run_id r \<and> ed_seq d = rec_seq r \<and> ed_event_type_id d = rec_event_type_id r
        \<and> pv_source_time_ns (ed_provenance d) = Some (rec_source_time r)
        \<and> (dep_relation (pv_epoch (ed_provenance d)) = RelPrior) = (record_abs < unat (cb_epoch_first_abs snapshot))
        \<and> (rc_source context = None \<longrightarrow> dsrc_id (pv_source (ed_provenance d)) = rec_source_id r)
        \<and> map dof_key (ed_fields d) = [k \<leftarrow> map slot_key (rec_slots r). k < 0x8000 \<and> k \<noteq> 0]
        \<and> map (\<lambda>x. (ef_key x, ef_type_tag x, ef_payload_hex x)) (ed_extension_fields d)
            = map (\<lambda>s. (slot_key s, slot_ty s, hex_lower (slot_payload s))) [s \<leftarrow> rec_slots r. is_vendor_key (slot_key s)]
    | DocPlaceholder d \<Rightarrow> pv_run_id (pd_provenance d) = rec_run_id r \<and> pd_seq d = rec_seq r \<and> pd_event_type_id d = rec_event_type_id r
        \<and> (dep_relation (pv_epoch (pd_provenance d)) = RelPrior) = (record_abs < unat (cb_epoch_first_abs snapshot))
        \<and> (rc_source context = None \<longrightarrow> dsrc_id (pv_source (pd_provenance d)) = rec_source_id r)
        \<and> pd_raw_slots d = map raw_slot_document (rec_slots r)
    | DocLoss d \<Rightarrow> False"
proof (cases res)
  case (Resolved rv)
  with assms obtain d h where "resolve_against jcs sha256 r snapshot (epoch_of record_abs snapshot) h d = Ok rv"
    by (auto elim: resolve_record_Resolved)
  then have ids: "rv_epoch rv = epoch_of record_abs snapshot" "rv_source_id rv = rec_source_id r" "rv_run_id rv = rec_run_id r"
    "rv_seq rv = rec_seq r" "rv_event_type_id rv = rec_event_type_id r" "rv_source_time rv = rec_source_time r"
    by (auto elim: resolve_against_Ok)
  note slots = resolved_slots [OF assms [unfolded Resolved]]
  have "map (\<lambda>x. (rx_key x, rx_type_tag x, hex_lower (rx_payload x))) (rv_extension_fields rv)
      = map (\<lambda>s. (slot_key s, slot_ty s, hex_lower (slot_payload s))) [s \<leftarrow> rec_slots r. is_vendor_key (slot_key s)]"
    using arg_cong [OF slots [THEN conjunct2], of "map (\<lambda>(k, t, p). (k, t, hex_lower p))"] by (simp add: comp_def)
  with slots ids Resolved show ?thesis
    by (auto simp: event_document_from_record_def provenance_for_record_def epoch_of_def field_document_def
        extension_field_document_def comp_def source_document_def source_unresolved_def split: option.split)
next
  case (ResPlaceholder p)
  with assms have "rp_epoch p = epoch_of record_abs snapshot" "rp_source_id p = rec_source_id r" "rp_run_id p = rec_run_id r"
    "rp_seq p = rec_seq r" "rp_event_type_id p = rec_event_type_id r" "rp_slots p = rec_slots r"
    by (auto simp: resolve_record_def resolver_placeholder_def Let_def split: option.splits outcome.splits)
  with ResPlaceholder show ?thesis
    by (auto simp: placeholder_document_from_record_def provenance_for_record_def epoch_of_def source_unresolved_def split: option.split)
qed


theorem document_describes_record_witness:
  "\<exists>d rv. resolve_record (\<lambda>_. Ok []) (\<lambda>_. replicate 32 0) started_record 0 (zero_snapshot 0)
         (definition_set_current_and_prior d d) = (Ok (Resolved rv) :: (_, unit) outcome)
     \<and> map dof_key (ed_fields (event_document_from_record rv (record_context_new 9 50 (replicate 8 0) 0))) = [KEY_COLD_START]"
proof -
  from started_record_resolves [of 0] obtain d rv where d:
    "resolve_record (\<lambda>_. Ok []) (\<lambda>_. replicate 32 0) started_record 0 (zero_snapshot 0)
         (definition_set_current_and_prior d d) = (Ok (Resolved rv) :: (_, unit) outcome)" by blast
  from document_describes_record [OF d, of "record_context_new 9 50 (replicate 8 0) 0"]
  have "map dof_key (ed_fields (event_document_from_record rv (record_context_new 9 50 (replicate 8 0) 0))) = [KEY_COLD_START]"
    by (simp add: started_record_def slot_new_def registry_ids)
  with d show ?thesis by (intro exI [of _ d] exI [of _ rv]) simp
qed

text \<open>C21. Loss documents add up.  For the records a consumer has accounted for, the loss documents of a stream name
  exactly the sequence numbers below the next expected one that were not delivered and those a producer reported
  as dropped; the counts are the lengths of the ranges and their sum is the number of records lost.\<close>

theorem loss_documents_exact:
  fixes run :: u64 and src :: u32
  assumes "list_all loss_sane rs" and "account_all (tracker_new b) rs = (Ok t :: (LossTracker, 'e) outcome)"
    and "lc_source context = None"
  defines "ds \<equiv> losses_of run src (map (\<lambda>e. document_from_loss e context) (tracker_loss_events t))"
  shows "(\<Union>d \<in> set ds. {ld_first_seq d .. ld_last_seq d})
       = ({0 ..< map_get_or_0 (lt_next_seq_by_source t) (run, src)} - delivered_seqs (\<lambda>_. 0) rs (run, src)) \<union> reported_seqs rs (run, src)
     \<and> list_all (\<lambda>d. ld_first_seq d \<le> ld_last_seq d \<and> ld_count d = ld_last_seq d - ld_first_seq d + 1) ds
     \<and> tracker_lost t run src = (Ok (sum_list (map ld_count ds)) :: (nat, 'e) outcome)"
proof -
  let ?evs = "[e \<leftarrow> tracker_loss_events t. le_stream e = (run, src)]" and ?N = "{0 ..< next_of t (run, src)}"
  have n0: "next_of (tracker_new b) = (\<lambda>_. 0)" by (simp add: tracker_new_def map_get_or_0_def fun_eq_iff)
  from account_all_inv [OF loss_inv_new [of b] assms(1), where 'e = 'e] assms(2)
  have inv: "loss_inv t (delivered_seqs (\<lambda>_. 0) rs) (reported_seqs rs)" by (simp add: n0)
  then have ok: "list_all (event_ok (lt_buffer_id t)) (lt_loss_events t)" by (simp add: loss_inv_def events_ok_def)
  have perm: "set (tracker_loss_events t) = set (lt_loss_events t)" by (simp add: tracker_loss_events_def)
  note E = losses_of_events [OF assms(3), of run src "tracker_loss_events t", folded ds_def]
  have one: "(\<Union>d \<in> set ds. {ld_first_seq d .. ld_last_seq d}) = (\<Union>e \<in> set ?evs. span e)"
    using arg_cong [OF E, of "\<lambda>xs. \<Union>(i, j, n) \<in> set xs. {i .. j}"] by (simp add: span_def)
  also have "\<dots> = covered (lt_loss_events t) (run, src)" by (auto simp: covered_def perm)
  also have "\<dots> = (?N - delivered_seqs (\<lambda>_. 0) rs (run, src)) \<union> reported_seqs rs (run, src)" using inv by (simp add: loss_inv_def)
  finally have 1: "(\<Union>d \<in> set ds. {ld_first_seq d .. ld_last_seq d})
      = (?N - delivered_seqs (\<lambda>_. 0) rs (run, src)) \<union> reported_seqs rs (run, src)" .
  have "list_all (\<lambda>(i, j, n). i \<le> j \<and> n = j - i + 1) (map (\<lambda>e. (le_first_seq e, le_last_seq e, le_count e)) ?evs)"
    using ok by (auto simp: list_all_iff perm event_ok_def)
  then have 2: "list_all (\<lambda>d. ld_first_seq d \<le> ld_last_seq d \<and> ld_count d = ld_last_seq d - ld_first_seq d + 1) ds"
    by (auto simp: list_all_iff simp flip: E)
  have "map ld_count ds = map le_count ?evs" using arg_cong [OF E, of "map (\<lambda>(i, j, n). n)"] by (simp add: comp_def)
  moreover have "sum_list (map le_count ?evs) = sum_list (map le_count [e \<leftarrow> lt_loss_events t. le_stream e = (run, src)])"
    by (simp add: tracker_loss_events_def filter_sort sum_list_sort)
  moreover obtain n where "tracker_lost t run src = (Ok n :: (nat, 'e) outcome)"
    using tracker_lost_card [of "lt_buffer_id t" t run src] inv unfolding loss_inv_def by blast
  moreover from this have "n = sum_list (map le_count [e \<leftarrow> lt_loss_events t. le_stream e = (run, src)])"
    using u64_sum_Ok [where 'e = 'e] by (fastforce simp: tracker_lost_def le_stream_def)
  ultimately show ?thesis using 1 2 by simp
qed

theorem loss_documents_exact_witness:
  "\<exists>t. account_all (tracker_new 1) [record_new 0 1 0 7 2, record_new 0 1 3 7 2] = (Ok t :: (LossTracker, unit) outcome)
     \<and> tracker_lost t 1 7 = (Ok (sum_list (map ld_count (losses_of 1 7 (map (\<lambda>e. document_from_loss e
           (loss_context_new 60 7 RelCurrent (replicate 8 0))) (tracker_loss_events t))))) :: (nat, unit) outcome)"
proof -
  let ?rs = "[record_new 0 1 0 7 2, record_new 0 1 3 7 2]"
  have s: "list_all loss_sane ?rs" by (simp add: loss_sane_def record_new_def u64_limit_def)
  from account_all_inv [OF loss_inv_new [of 1] this, where 'e = unit] obtain t where
    t: "account_all (tracker_new 1) ?rs = (Ok t :: (LossTracker, unit) outcome)" by blast
  from loss_documents_exact [OF s t, of "loss_context_new 60 7 RelCurrent (replicate 8 0)" 1 7] t show ?thesis
    by (auto simp: loss_context_new_def)
qed

fun value_type :: "ResolvedValue \<Rightarrow> nat" where
  "value_type (RBool v) = 0" | "value_type (RSInt v) = 1" | "value_type (RUSInt v) = 2" | "value_type (RUInt v) = 3"
| "value_type (RInt v) = 4" | "value_type (RUDInt v) = 5" | "value_type (RDInt v) = 6" | "value_type (RULInt v) = 7"
| "value_type (RLInt v) = 8" | "value_type (RReal v) = 9" | "value_type (RLReal v) = 10" | "value_type (RDateTime v) = 11"
| "value_type (RString v) = 12" | "value_type (RBytes v) = 13"

fun finite_value :: "ResolvedValue \<Rightarrow> bool" where
  "finite_value (RReal v) = f32_is_finite v"
| "finite_value (RLReal v) = f64_is_finite v"
| "finite_value v = True"

text \<open>Values keep their value.  Two values of one type have the same JSON value only if they are equal, except that
  every infinity and every NaN of a floating-point type becomes \<open>null\<close>.\<close>

theorem value_document_faithful:
  assumes "value_type a = value_type b"
  shows "value_document a = value_document b \<longleftrightarrow> a = b \<or> \<not> finite_value a \<and> \<not> finite_value b"
  using assms
  by (cases a; cases b)
     (auto simp: json_f32_def json_f64_def json_object_def)

theorem value_document_faithful_witness:
  "RReal 0x7F800000 \<noteq> RReal 0x7FC00000 \<and> value_document (RReal 0x7F800000) = value_document (RReal 0x7FC00000)
     \<and> value_document (RSInt 0xFF) \<noteq> value_document (RSInt 0x7F)"
  using value_document_faithful [of "RReal 0x7F800000" "RReal 0x7FC00000"] value_document_faithful [of "RSInt 0xFF" "RSInt 0x7F"]
  by (simp add: f32_is_finite_def f32_exponent_def)

text \<open>The hash of a document has sixteen digits: it is the 8-byte hash of the control block, not the full content hash.\<close>

lemma document_hash_digits:
  assumes "length (rc_definition_hash context) = 8"
  shows "length (dep_definition_hash (pv_epoch (provenance_for_record context i run epoch_id epoch time source))) = 16"
  using assms by (simp add: provenance_for_record_def hex_lower_eq)

section \<open>Types of resolved values\<close>

definition ref_types :: "string list" where
  "ref_types = [''StateMachineRef'', ''ValueRef'', ''ConditionRef'', ''MessageTemplateRef'', ''CauseOperandRef'', ''StateRef'']"

definition typed_field :: "ResolvedField \<Rightarrow> bool" where
  "typed_field f \<longleftrightarrow>
     (case tlv_type_spec (of_nat (value_type (rf_value f))) of None \<Rightarrow> False | Some t \<Rightarrow> rf_type_name f = ts_name t)
     \<or> value_type (rf_value f) = 12 \<and> rf_type_name f \<in> set ref_types"

definition typed_extension :: "ResolvedExtensionField \<Rightarrow> bool" where
  "typed_extension x \<longleftrightarrow> rx_type_name x = map_option ts_name (tlv_type_spec (rx_type_tag x))
     \<and> (case rx_value x of None \<Rightarrow> True | Some v \<Rightarrow> value_type v = unat (rx_type_tag x))"

lemma decode_value_type: "decode_value s = Ok v \<Longrightarrow> value_type v = unat (slot_ty s)"
  by (auto simp: decode_value_def Let_def map_ok_def outcome_simps split: if_splits option.splits)

lemma replace_ref_type:
  assumes "replace_ref v name t found ref_name ref_t = (v', name', t')" "ref_t \<in> set ref_types"
  shows "v' = v \<and> t' = t \<or> value_type v' = 12 \<and> t' \<in> set ref_types"
  using assms by (auto simp: replace_ref_def split: option.splits)

lemma semantic_value_type:
  "semantic_value k v ctx d name t label = (v', name', t') \<Longrightarrow> v' = v \<and> t' = t \<or> value_type v' = 12 \<and> t' \<in> set ref_types"
  unfolding semantic_value_def by (auto split: if_splits dest!: replace_ref_type simp: ref_types_def)

lemma resolve_field_typed:
  assumes "resolve_field ctx d s f = Ok fld"
  shows "typed_field fld"
proof -
  from assms obtain t v where t: "tlv_type_spec (slot_ty s) = Some t" "decode_value s = Ok v"
    by (auto simp: resolve_field_def outcome_simps split: option.splits)
  obtain v' name' t' where sem: "semantic_value (slot_key s) v ctx d (fs_name f) (ts_name t) (enum_label (slot_key s) v ctx d)
      = (v', name', t')" by (metis surj_pair)
  with assms t have "rf_value fld = v'" "rf_type_name fld = t'" by (auto simp: resolve_field_def)
  with semantic_value_type [OF sem] t(1) decode_value_type [OF t(2)] show ?thesis by (auto simp: typed_field_def)
qed

lemma resolve_extension_typed: "resolve_extension_field s = (Ok x :: (_, 'e) outcome) \<Longrightarrow> typed_extension x"
  by (auto simp: resolve_extension_field_def decode_extension_value_def outcome_simps typed_extension_def decode_value_type
      split: option.splits if_splits outcome.splits)

lemma resolve_slots_typed:
  "resolve_slots_loop ctx e d slots = Ok (flds, exts) \<Longrightarrow> list_all typed_field flds \<and> list_all typed_extension exts"
proof (induction slots arbitrary: flds exts)
  case (Cons s slots)
  then show ?case
    by (auto simp: outcome_simps split: if_splits option.splits dest!: resolve_field_typed resolve_extension_typed)
qed simp

text \<open>C23. Resolved values are well typed.  The type name of a resolved field is the name of the type its value has, or one
  of the reference types and then the value is the name that was looked up; a private field's value has the type
  of its tag.\<close>

theorem resolved_values_typed:
  assumes "resolve_record jcs sha256 r a snapshot defs = Ok (Resolved rv)"
  shows "list_all typed_field (rv_fields rv) \<and> list_all typed_extension (rv_extension_fields rv)"
proof -
  from assms obtain d where "resolve_against jcs sha256 r snapshot (epoch_of a snapshot)
      (case epoch_of a snapshot of Current \<Rightarrow> cb_definition_hash snapshot | Prior \<Rightarrow> cb_prev_definition_hash snapshot) d
      = Ok rv" by (rule resolve_record_Resolved)
  then show ?thesis by (rule resolve_against_Ok) (auto simp: resolve_slots_def dest: resolve_slots_typed)
qed

theorem resolved_values_typed_witness:
  "\<exists>d rv. resolve_record (\<lambda>_. Ok []) (\<lambda>_. replicate 32 0) started_record 0 (zero_snapshot 0)
         (definition_set_current_and_prior d d) = (Ok (Resolved rv) :: (_, unit) outcome)
     \<and> list_all typed_field (rv_fields rv)"
proof -
  from started_record_resolves [of 0] obtain d rv where d:
    "resolve_record (\<lambda>_. Ok []) (\<lambda>_. replicate 32 0) started_record 0 (zero_snapshot 0)
         (definition_set_current_and_prior d d) = (Ok (Resolved rv) :: (_, unit) outcome)" by blast
  with resolved_values_typed [OF d] show ?thesis by (intro exI [of _ d] exI [of _ rv]) simp
qed

end
