(* ===== verification/Capture.thy ===== *)
theory Capture
  imports Epoch Control Text
begin

text \<open>
  The validation of captured producer images, \<open>crates/carriage/src/capture.rs\<close>: the reference image of a fixed
  scenario is regenerated by driving the epoch producer, a captured ring and its control fields are compared with
  it, and the captured bytes are read back, accounted for and resolved to epochs.
\<close>

section \<open>Data\<close>

definition S4A_CAPTURE_CAPACITY :: nat where "S4A_CAPTURE_CAPACITY = 256"
definition OLD_HASH :: byte_vec where "OLD_HASH = map of_char ''oldhash1''"
definition NEW_HASH :: byte_vec where "NEW_HASH = map of_char ''newhash2''"
definition TRANSITION_EPOCH :: u64 where "TRANSITION_EPOCH = 2"

datatype CaptureScenario = RichWrap | LifecycleSurvival

fun fixture_name :: "CaptureScenario \<Rightarrow> string" where
  "fixture_name RichWrap = ''s4a-rich-wrap''"
| "fixture_name LifecycleSurvival = ''s4a-lifecycle-survival''"

record CapturedControlFields =
  cf_head_abs :: u64
  cf_oldest_abs :: u64
  cf_lost_count :: u64
  cf_run_id :: u64
  cf_epoch_id :: u64
  cf_epoch_first_abs :: u64
  cf_definition_hash :: byte_vec
  cf_prev_definition_hash :: byte_vec

definition from_snapshot :: "ControlBlockSnapshot \<Rightarrow> CapturedControlFields" where
  "from_snapshot snapshot =
     \<lparr>cf_head_abs = cb_head_abs snapshot, cf_oldest_abs = cb_oldest_abs snapshot, cf_lost_count = cb_lost_count snapshot,
      cf_run_id = cb_run_id snapshot, cf_epoch_id = cb_epoch_id snapshot, cf_epoch_first_abs = cb_epoch_first_abs snapshot,
      cf_definition_hash = cb_definition_hash snapshot, cf_prev_definition_hash = cb_prev_definition_hash snapshot\<rparr>"

definition to_snapshot :: "CapturedControlFields \<Rightarrow> nat \<Rightarrow> ControlBlockSnapshot" where
  "to_snapshot c cap =
     \<lparr>cb_version = 2, cb_caps = 0, cb_buffer_id = DEFAULT_BUFFER_ID, cb_buffer_bytes = of_nat cap,
      cb_head_abs = cf_head_abs c, cb_oldest_abs = cf_oldest_abs c, cb_lost_count = cf_lost_count c,
      cb_run_id = cf_run_id c, cb_epoch_id = cf_epoch_id c, cb_epoch_first_abs = cf_epoch_first_abs c,
      cb_definition_hash = cf_definition_hash c, cb_prev_definition_hash = cf_prev_definition_hash c\<rparr>"

record CapturedImage =
  ci_ring_bytes :: byte_vec
  ci_control :: CapturedControlFields

record CapturedRecordSummary =
  cs_start_abs :: nat
  cs_end_abs :: nat
  cs_run_id :: u64
  cs_source_id :: u32
  cs_seq :: u64
  cs_event_type_id :: u32
  cs_resolved_epoch :: "u64 option"

record CaptureValidation =
  cv_batch :: ReadBatch
  cv_survivors :: "CapturedRecordSummary list"
  cv_loss_events :: "LossEvent list"

datatype CaptureValidationError =
    Reference EpochError
  | RingLengthMismatch nat nat                        \<comment> \<open>expected, actual\<close>
  | RingByteMismatch nat u8 u8                        \<comment> \<open>index, expected, actual\<close>
  | ControlFieldMismatch string u64 u64               \<comment> \<open>field, expected, actual\<close>
  | ControlHashMismatch string byte_vec byte_vec      \<comment> \<open>field, expected, actual\<close>
  | CaptureRing RingError
  | ScenarioInvariant CaptureScenario string          \<comment> \<open>scenario, message\<close>

section \<open>The reference\<close>

primrec repeat :: "nat \<Rightarrow> unit producing \<Rightarrow> unit producing" where
  "repeat 0 m = preturn ()"
| "repeat (Suc n) m = pbind m (\<lambda>_. repeat n m)"

definition drive_rich_wrap :: "unit producing" where
  "drive_rich_wrap =
     pbind (repeat 3 (emit_data 10 EVENT_MESSAGE)) (\<lambda>_.
     pbind (repeat 2 (emit_data 20 EVENT_MESSAGE)) (\<lambda>_.
     pbind checkpoint_high_water (\<lambda>_.
     pbind (begin_epoch_transition OLD_HASH NEW_HASH TRANSITION_EPOCH) (\<lambda>_.
     pbind emit_definition_changed (\<lambda>_.
     pbind finish_definition_change (\<lambda>_.
     pbind (emit_data 10 EVENT_MESSAGE) (\<lambda>_.
     pbind (emit_data 20 EVENT_MESSAGE) (\<lambda>_. preturn ()))))))))"

definition drive_lifecycle_survival :: "unit producing" where
  "drive_lifecycle_survival =
     pbind (emit_data 21 EVENT_MESSAGE) (\<lambda>_.
     pbind (begin_epoch_transition OLD_HASH NEW_HASH TRANSITION_EPOCH) (\<lambda>_.
     pbind emit_definition_changed (\<lambda>_.
     pbind finish_definition_change (\<lambda>_. preturn ()))))"

definition reference_capture :: "CaptureScenario \<Rightarrow> (CapturedImage, EpochError) outcome" where
  "reference_capture scenario =
     and_then (producer_new S4A_CAPTURE_CAPACITY 1 1) (\<lambda>producer.
     case (case scenario of RichWrap \<Rightarrow> drive_rich_wrap producer | LifecycleSurvival \<Rightarrow> drive_lifecycle_survival producer) of
       (producer, r) \<Rightarrow> and_then r (\<lambda>_.
         Ok \<lparr>ci_ring_bytes = ring_bytes (ep_ring producer), ci_control = from_snapshot (control_snapshot producer)\<rparr>))"

section \<open>Comparison\<close>

fun first_mismatch :: "nat \<Rightarrow> byte_vec \<Rightarrow> byte_vec \<Rightarrow> (unit, CaptureValidationError) outcome" where
  "first_mismatch index (a # actual) (e # expected) =
     (if a \<noteq> e then Err (RingByteMismatch index e a) else first_mismatch (Suc index) actual expected)"
| "first_mismatch index _ _ = Ok ()"

definition compare_ring_bytes :: "byte_vec \<Rightarrow> byte_vec \<Rightarrow> (unit, CaptureValidationError) outcome" where
  "compare_ring_bytes actual expected =
     (if length actual \<noteq> length expected then Err (RingLengthMismatch (length expected) (length actual))
      else first_mismatch 0 actual expected)"

definition compare_control_u64 :: "string \<Rightarrow> u64 \<Rightarrow> u64 \<Rightarrow> (unit, CaptureValidationError) outcome" where
  "compare_control_u64 fld actual expected =
     (if actual = expected then Ok () else Err (ControlFieldMismatch fld expected actual))"

definition compare_control_hash :: "string \<Rightarrow> byte_vec \<Rightarrow> byte_vec \<Rightarrow> (unit, CaptureValidationError) outcome" where
  "compare_control_hash fld actual expected =
     (if actual = expected then Ok () else Err (ControlHashMismatch fld expected actual))"

definition compare_control ::
  "CapturedControlFields \<Rightarrow> CapturedControlFields \<Rightarrow> (unit, CaptureValidationError) outcome" where
  "compare_control actual expected =
     and_then (compare_control_u64 ''headAbs'' (cf_head_abs actual) (cf_head_abs expected)) (\<lambda>_.
     and_then (compare_control_u64 ''oldestAbs'' (cf_oldest_abs actual) (cf_oldest_abs expected)) (\<lambda>_.
     and_then (compare_control_u64 ''lostCount'' (cf_lost_count actual) (cf_lost_count expected)) (\<lambda>_.
     and_then (compare_control_u64 ''runId'' (cf_run_id actual) (cf_run_id expected)) (\<lambda>_.
     and_then (compare_control_u64 ''epochId'' (cf_epoch_id actual) (cf_epoch_id expected)) (\<lambda>_.
     and_then (compare_control_u64 ''epochFirstAbs'' (cf_epoch_first_abs actual) (cf_epoch_first_abs expected)) (\<lambda>_.
     and_then (compare_control_hash ''definitionHash'' (cf_definition_hash actual) (cf_definition_hash expected)) (\<lambda>_.
       compare_control_hash ''prevDefinitionHash'' (cf_prev_definition_hash actual) (cf_prev_definition_hash expected))))))))"

section \<open>Invariants of the scenarios\<close>

definition ensure :: "CaptureScenario \<Rightarrow> bool \<Rightarrow> string \<Rightarrow> (unit, CaptureValidationError) outcome" where
  "ensure scenario condition message = (if condition then Ok () else Err (ScenarioInvariant scenario message))"

definition ensure_eq ::
  "('a \<Rightarrow> string) \<Rightarrow> CaptureScenario \<Rightarrow> 'a \<Rightarrow> 'a \<Rightarrow> string \<Rightarrow> (unit, CaptureValidationError) outcome" where
  "ensure_eq debug scenario actual expected name =
     (if actual = expected then Ok ()
      else Err (ScenarioInvariant scenario (name @ '': expected '' @ debug expected @ '', got '' @ debug actual)))"

definition ensure_eq_u64 :: "CaptureScenario \<Rightarrow> nat \<Rightarrow> nat \<Rightarrow> string \<Rightarrow> (unit, CaptureValidationError) outcome" where
  "ensure_eq_u64 scenario actual expected name = ensure_eq decimal scenario actual expected name"

definition summary :: "nat \<Rightarrow> nat \<Rightarrow> u64 \<Rightarrow> u32 \<Rightarrow> u64 \<Rightarrow> u32 \<Rightarrow> u64 option \<Rightarrow> CapturedRecordSummary" where
  "summary start_abs end_abs run_id source_id seq event_type_id resolved_epoch =
     \<lparr>cs_start_abs = start_abs, cs_end_abs = end_abs, cs_run_id = run_id, cs_source_id = source_id, cs_seq = seq,
      cs_event_type_id = event_type_id, cs_resolved_epoch = resolved_epoch\<rparr>"

definition debug_summary :: "CapturedRecordSummary \<Rightarrow> string" where
  "debug_summary s =
     ''CapturedRecordSummary { start_abs: '' @ decimal (cs_start_abs s) @ '', end_abs: '' @ decimal (cs_end_abs s)
     @ '', run_id: '' @ decimal (unat (cs_run_id s)) @ '', source_id: '' @ decimal (unat (cs_source_id s))
     @ '', seq: '' @ decimal (unat (cs_seq s)) @ '', event_type_id: '' @ decimal (unat (cs_event_type_id s))
     @ '', resolved_epoch: ''
     @ (case cs_resolved_epoch s of None \<Rightarrow> ''None'' | Some e \<Rightarrow> ''Some('' @ decimal (unat e) @ '')'') @ '' }''"

fun debug_elements :: "('a \<Rightarrow> string) \<Rightarrow> 'a list \<Rightarrow> string" where
  "debug_elements debug [] = ''''"
| "debug_elements debug [x] = debug x"
| "debug_elements debug (x # xs) = debug x @ '', '' @ debug_elements debug xs"

definition debug_slice :: "('a \<Rightarrow> string) \<Rightarrow> 'a list \<Rightarrow> string" where
  "debug_slice debug xs = ''['' @ debug_elements debug xs @ '']''"

definition rich_wrap_survivors :: "CapturedRecordSummary list" where
  "rich_wrap_survivors =
     [summary 624 704 1 SYSTEM_SOURCE_ID 1 EVENT_DEFINITION_CHANGED (Some 1),
      summary 704 756 1 SYSTEM_SOURCE_ID 2 EVENT_LOGGER_STARTED (Some 2),
      summary 768 820 1 10 5 EVENT_MESSAGE (Some 2),
      summary 820 872 1 20 4 EVENT_MESSAGE (Some 2)]"

definition ensure_lost ::
  "CaptureScenario \<Rightarrow> RawByteConsumer \<Rightarrow> u32 \<Rightarrow> nat \<Rightarrow> string \<Rightarrow> (unit, CaptureValidationError) outcome" where
  "ensure_lost scenario c source_id expected name =
     and_then (rbc_lost_in_run c 1 source_id) (\<lambda>lost. ensure_eq_u64 scenario lost expected name)"

definition assert_rich_wrap_invariants ::
  "ReadBatch \<Rightarrow> RawByteConsumer \<Rightarrow> CapturedRecordSummary list \<Rightarrow> (unit, CaptureValidationError) outcome" where
  "assert_rich_wrap_invariants batch c summaries =
     and_then (ensure RichWrap (rb_lapped batch) ''consumer must lap'') (\<lambda>_.
     and_then (ensure_eq (debug_slice debug_summary) RichWrap summaries rich_wrap_survivors ''rich-wrap survivors'') (\<lambda>_.
     and_then (ensure_eq_u64 RichWrap (rbc_delivered_in_run c 1 10) 1 ''source 10 delivered'') (\<lambda>_.
     and_then (ensure_lost RichWrap c 10 5 ''source 10 lost'') (\<lambda>_.
     and_then (ensure_eq_u64 RichWrap (rbc_delivered_in_run c 1 20) 1 ''source 20 delivered'') (\<lambda>_.
     and_then (ensure_lost RichWrap c 20 4 ''source 20 lost'') (\<lambda>_.
     and_then (ensure_eq_u64 RichWrap (rbc_delivered_in_run c 1 SYSTEM_SOURCE_ID) 2 ''system delivered'') (\<lambda>_.
       ensure_lost RichWrap c SYSTEM_SOURCE_ID 1 ''system lost'')))))))"

definition lifecycle_survivors :: "CapturedRecordSummary list" where
  "lifecycle_survivors =
     [summary 52 96 1 SYSTEM_SOURCE_ID 0 EVENT_LOGGER_STOPPED (Some 1),
      summary 96 152 1 21 1 EVENT_SOURCE_HIGH_WATER (Some 1),
      summary 152 232 1 SYSTEM_SOURCE_ID 1 EVENT_DEFINITION_CHANGED (Some 1),
      summary 256 308 1 SYSTEM_SOURCE_ID 2 EVENT_LOGGER_STARTED (Some 2)]"

definition assert_lifecycle_survival_invariants ::
  "ReadBatch \<Rightarrow> RawByteConsumer \<Rightarrow> CapturedRecordSummary list \<Rightarrow> (unit, CaptureValidationError) outcome" where
  "assert_lifecycle_survival_invariants batch c summaries =
     and_then (ensure LifecycleSurvival (rb_lapped batch) ''consumer must lap'') (\<lambda>_.
     and_then (ensure_eq (debug_slice debug_summary) LifecycleSurvival summaries lifecycle_survivors
       ''lifecycle-survival survivors'') (\<lambda>_.
     let retained_data_for_source = length [read \<leftarrow> rb_records batch.
           rec_source_id (rr_record read) = 21 \<and> rec_event_type_id (rr_record read) = EVENT_MESSAGE]
     in
     and_then (ensure_eq_u64 LifecycleSurvival retained_data_for_source 0 ''source 21 retained data records'') (\<lambda>_.
     and_then (ensure_lost LifecycleSurvival c 21 1 ''source 21 lost data records'') (\<lambda>_.
     and_then (rbc_lost_in_run c 1 21) (\<lambda>lost.
     and_then (u64_add retained_data_for_source lost) (\<lambda>total.
     and_then (ensure_eq_u64 LifecycleSurvival total 1 ''source 21 data delivered plus lost'') (\<lambda>_.
     and_then (ensure_eq_u64 LifecycleSurvival (rbc_delivered_in_run c 1 21) 1 ''source 21 delivered high-water record'') (\<lambda>_.
     and_then (ensure_eq_u64 LifecycleSurvival (rbc_delivered_in_run c 1 SYSTEM_SOURCE_ID) 3 ''system delivered'') (\<lambda>_.
       ensure_lost LifecycleSurvival c SYSTEM_SOURCE_ID 0 ''system lost'')))))))))"

section \<open>Validation\<close>

definition observe_all :: "EpochResolver \<Rightarrow> ReadRecord list \<Rightarrow> EpochResolver" where
  "observe_all resolver reads = foldl (\<lambda>er read. observe er DEFAULT_BUFFER_ID read) resolver reads"

definition captured_summary :: "EpochResolver \<Rightarrow> ReadRecord \<Rightarrow> CapturedRecordSummary" where
  "captured_summary resolver read =
     \<lparr>cs_start_abs = rr_start_abs read, cs_end_abs = rr_end_abs read, cs_run_id = rec_run_id (rr_record read),
      cs_source_id = rec_source_id (rr_record read), cs_seq = rec_seq (rr_record read),
      cs_event_type_id = rec_event_type_id (rr_record read),
      cs_resolved_epoch = resolve resolver DEFAULT_BUFFER_ID (rec_run_id (rr_record read)) (rr_start_abs read)\<rparr>"

definition validate_capture ::
  "CaptureScenario \<Rightarrow> byte_vec \<Rightarrow> CapturedControlFields \<Rightarrow> (CaptureValidation, CaptureValidationError) outcome" where
  "validate_capture scenario captured_ring_bytes captured_control =
     and_then (map_err Reference (reference_capture scenario)) (\<lambda>reference.
     and_then (compare_ring_bytes captured_ring_bytes (ci_ring_bytes reference)) (\<lambda>_.
     and_then (compare_control captured_control (ci_control reference)) (\<lambda>_.
     and_then (map_err CaptureRing (from_captured captured_ring_bytes (unat (cf_head_abs captured_control))
         (unat (cf_oldest_abs captured_control)) (unat (cf_lost_count captured_control)))) (\<lambda>captured_ring.
     and_then (map_err CaptureRing (rbc_poll_snapshot rbc_new captured_ring
         (to_snapshot captured_control S4A_CAPTURE_CAPACITY))) (\<lambda>(consumer, batch).
     let resolver = observe_all (resolver_new DEFAULT_BUFFER_ID 1 1) (rb_records batch);
         summaries = map (captured_summary resolver) (rb_records batch)
     in and_then (case scenario of
           RichWrap \<Rightarrow> assert_rich_wrap_invariants batch consumer summaries
         | LifecycleSurvival \<Rightarrow> assert_lifecycle_survival_invariants batch consumer summaries) (\<lambda>_.
       Ok \<lparr>cv_batch = batch, cv_survivors = summaries, cv_loss_events = rbc_loss_events consumer\<rparr>))))))"

end
