(* ===== verification/Scenarios.thy ===== *)
theory Scenarios
  imports Capture
begin

text \<open>
  The capture scenarios, computed.  The shape of a ring is what it retains and how many records it has lost; a
  write changes the shape of a ring by a function of the shape alone.  \<open>drives\<close> says that an operation of the
  producer, started with a ring of one shape, succeeds and ends with a ring of another, so that the scenarios are
  followed without computing the bytes; what the reader returns is then known from the properties of the ring.
\<close>

section \<open>Shapes\<close>

definition shape_head :: "ReadRecord list \<Rightarrow> nat" where
  "shape_head rs = (if rs = [] then 0 else rr_end_abs (last rs))"

definition has_shape :: "RingBuffer \<Rightarrow> nat \<times> ReadRecord list \<Rightarrow> bool" where
  "has_shape ring sh \<longleftrightarrow> ring_inv ring (snd sh) \<and> capacity ring = S4A_CAPTURE_CAPACITY
     \<and> ring_lost_count ring = fst sh \<and> ring_head_abs ring = shape_head (snd sh)"

definition shape_write :: "nat \<times> ReadRecord list \<Rightarrow> Record \<Rightarrow> nat \<times> ReadRecord list" where
  "shape_write sh r =
     (let n = record_len r True; s = place S4A_CAPTURE_CAPACITY (shape_head (snd sh)) n; f = s + n - S4A_CAPTURE_CAPACITY
      in (fst sh + length (evicted f (snd sh)),
          survivors f (snd sh) @ [\<lparr>rr_start_abs = s, rr_end_abs = s + n, rr_record = normalise_flags r True\<rparr>]))"

definition shape_fits :: "nat \<times> ReadRecord list \<Rightarrow> Record \<Rightarrow> bool" where
  "shape_fits sh r \<longleftrightarrow> encodable r True \<and> record_len r True \<le> S4A_CAPTURE_CAPACITY
     \<and> shape_head (snd sh) + 2 * S4A_CAPTURE_CAPACITY < u64_limit \<and> unat (rec_seq r) + 1 < u64_limit"

lemma write_shape:
  assumes "has_shape ring sh" "shape_fits sh r"
  defines "x \<equiv> last (snd (shape_write sh r))"
  shows "\<exists>ring'. write_record ring r = Ok (ring', rr_start_abs x, rr_end_abs x) \<and> has_shape ring' (shape_write sh r)"
proof -
  have inv: "ring_inv ring (snd sh)" and cap: "capacity ring = S4A_CAPTURE_CAPACITY" using assms(1) by (simp_all add: has_shape_def)
  have x: "next_entry ring r = x"
    using assms(1) by (simp add: next_entry_def has_shape_def x_def shape_write_def Let_def)
  have "writable ring r"
    using next_entry_end [of ring r] assms(1,2) by (simp add: writable_def has_shape_def shape_fits_def S4A_CAPTURE_CAPACITY_def)
  moreover have "seq_not_max r" using assms(2) by (simp add: shape_fits_def seq_not_max_def)
  moreover have "survivors (rr_end_abs x - S4A_CAPTURE_CAPACITY) (snd sh) @ [x] = snd (shape_write sh r)"
    "fst sh + length (evicted (rr_end_abs x - S4A_CAPTURE_CAPACITY) (snd sh)) = fst (shape_write sh r)"
    "rr_end_abs x = shape_head (snd (shape_write sh r))"
    by (simp_all add: x_def shape_write_def shape_head_def Let_def)
  ultimately show ?thesis
    using write_record_refines [OF inv, of r] assms(1) unfolding x cap has_shape_def by auto
qed

section \<open>Driving the producer\<close>

definition drives :: "'a producing \<Rightarrow> EpochProducer \<Rightarrow> nat \<times> ReadRecord list \<Rightarrow> 'a \<Rightarrow> EpochProducer \<Rightarrow> nat \<times> ReadRecord list \<Rightarrow> bool" where
  "drives m q sh a q' sh' \<longleftrightarrow> (\<forall>ring. has_shape ring sh \<longrightarrow>
     (\<exists>ring'. m (q\<lparr>ep_ring := ring\<rparr>) = (q'\<lparr>ep_ring := ring'\<rparr>, Ok a) \<and> has_shape ring' sh'))"

lemma drives_bind: "drives m q sh a q1 sh1 \<Longrightarrow> drives (f a) q1 sh1 b q2 sh2 \<Longrightarrow> drives (pbind m f) q sh b q2 sh2"
  unfolding drives_def pbind_def by fastforce

lemma drives_return: "drives (preturn a) q sh a q sh"
  by (auto simp: drives_def preturn_def)

lemma drives_system:
  assumes "shape_fits sh (system_record q e slots)" "ep_system_seq q + 1 < u64_limit" "ep_source_time q + 1 < u64_limit"
  defines "x \<equiv> last (snd (shape_write sh (system_record q e slots)))"
  shows "drives (emit_system e slots) q sh (rr_start_abs x, rr_end_abs x)
     (q\<lparr>ep_system_seq := ep_system_seq q + 1, ep_source_time := ep_source_time q + 1\<rparr>) (shape_write sh (system_record q e slots))"
  unfolding drives_def
proof (intro allI impI)
  fix ring assume "has_shape ring sh"
  from write_shape [OF this assms(1), folded x_def] obtain ring' where
    w: "write_record ring (system_record q e slots) = Ok (ring', rr_start_abs x, rr_end_abs x)"
    "has_shape ring' (shape_write sh (system_record q e slots))" by blast
  have "system_record (q\<lparr>ep_ring := ring\<rparr>) e slots = system_record q e slots" by (simp add: system_record_def)
  with w assms(2,3) show "\<exists>ring'. emit_system e slots (q\<lparr>ep_ring := ring\<rparr>) =
      (q\<lparr>ep_system_seq := ep_system_seq q + 1, ep_source_time := ep_source_time q + 1, ep_ring := ring'\<rparr>,
       Ok (rr_start_abs x, rr_end_abs x)) \<and> has_shape ring' (shape_write sh (system_record q e slots))"
    by (intro exI [of _ ring']) (simp add: emit_system_eq_Ok)
qed

lemma drives_data:
  assumes "ep_transition q = None" "shape_fits sh (data_record q src e)" "source_next q src + 1 < u64_limit" "ep_source_time q + 1 < u64_limit"
  shows "drives (emit_data src e) q sh ()
     (q\<lparr>ep_source_time := ep_source_time q + 1, ep_source_seq := btree_insert src (source_next q src + 1) (ep_source_seq q)\<rparr>)
     (shape_write sh (data_record q src e))"
  unfolding drives_def
proof (intro allI impI)
  fix ring assume "has_shape ring sh"
  from write_shape [OF this assms(2)] obtain ring' a b where
    w: "write_record ring (data_record q src e) = Ok (ring', a, b)" "has_shape ring' (shape_write sh (data_record q src e))" by blast
  have "data_record (q\<lparr>ep_ring := ring\<rparr>) src e = data_record q src e" "source_next (q\<lparr>ep_ring := ring\<rparr>) src = source_next q src"
    by (simp_all add: data_record_def source_next_def)
  with w assms(1,3,4) show "\<exists>ring'. emit_data src e (q\<lparr>ep_ring := ring\<rparr>) =
      (q\<lparr>ep_source_time := ep_source_time q + 1, ep_source_seq := btree_insert src (source_next q src + 1) (ep_source_seq q),
         ep_ring := ring'\<rparr>, Ok ()) \<and> has_shape ring' (shape_write sh (data_record q src e))"
    by (intro exI [of _ ring']) (simp add: emit_data_eq_Ok)
qed

definition high_water_record :: "EpochProducer \<Rightarrow> u32 \<Rightarrow> nat \<Rightarrow> Record" where
  "high_water_record q src n = stream_record (ep_source_time q) (ep_run_id q) src n EVENT_SOURCE_HIGH_WATER
     [slot_new KEY_SOURCE_HIGH_WATER TY_ULINT (u64_to_le_bytes (of_nat n))]"

lemma drives_checkpoint_nil: "drives (checkpoint_loop []) q sh () q sh"
  by (auto simp: drives_def)

lemma drives_checkpoint_cons:
  assumes "shape_fits sh (high_water_record q src n)" "n + 1 < u64_limit" "ep_source_time q + 1 < u64_limit"
    and rest: "drives (checkpoint_loop hw) (q\<lparr>ep_source_time := ep_source_time q + 1,
        ep_source_seq := btree_insert src (n + 1) (ep_source_seq q)\<rparr>) (shape_write sh (high_water_record q src n)) () q' sh'"
  shows "drives (checkpoint_loop ((src, n) # hw)) q sh () q' sh'"
  unfolding drives_def
proof (intro allI impI)
  fix ring assume "has_shape ring sh"
  from write_shape [OF this assms(1)] obtain ring1 a b where
    w: "write_record ring (high_water_record q src n) = Ok (ring1, a, b)" "has_shape ring1 (shape_write sh (high_water_record q src n))" by blast
  from rest w(2) obtain ring' where "checkpoint_loop hw (q\<lparr>ep_source_time := ep_source_time q + 1,
      ep_source_seq := btree_insert src (n + 1) (ep_source_seq q), ep_ring := ring1\<rparr>) = (q'\<lparr>ep_ring := ring'\<rparr>, Ok ())" "has_shape ring' sh'"
    unfolding drives_def by blast
  moreover have "q\<lparr>ep_source_time := t, ep_source_seq := m, ep_ring := ring1\<rparr> = q\<lparr>ep_source_time := t, ep_ring := ring1, ep_source_seq := m\<rparr>"
    for t m by (cases q) simp
  ultimately show "\<exists>ring'. checkpoint_loop ((src, n) # hw) (q\<lparr>ep_ring := ring\<rparr>) = (q'\<lparr>ep_ring := ring'\<rparr>, Ok ()) \<and> has_shape ring' sh'"
    using w(1) assms(2,3) by (intro exI [of _ ring'])
       (auto simp: pbind_eq_Ok producer_record_eq_Ok producer_write_eq_Ok high_water_record_def stream_record_def record_new_def)
qed

lemma drives_checkpoint:
  "ep_transition q = None \<Longrightarrow> drives (checkpoint_loop (ep_source_seq q)) q sh () q' sh' \<Longrightarrow> drives checkpoint_high_water q sh () q' sh'"
  by (simp add: drives_def checkpoint_high_water_def)


lemma drives_update: "(\<And>ring. g (q\<lparr>ep_ring := ring\<rparr>) = (g q)\<lparr>ep_ring := ring\<rparr>) \<Longrightarrow> drives (\<lambda>p. (g p, Ok ())) q sh () (g q) sh"
  unfolding drives_def by auto

lemma ring_last:
  "q\<lparr>ep_ring := r, ep_transition := t\<rparr> = q\<lparr>ep_transition := t, ep_ring := r\<rparr>"
  "q\<lparr>ep_transition := t, ep_ring := r, ep_epoch_id := e\<rparr> = q\<lparr>ep_transition := t, ep_epoch_id := e, ep_ring := r\<rparr>"
  by (cases q; simp)+

lemma drives_begin:
  assumes "ep_transition q = None" "drives (emit_system EVENT_LOGGER_STOPPED []) q sh a q1 sh1" "drives checkpoint_high_water q1 sh1 () q2 sh2"
  shows "drives (begin_epoch_transition old new e) q sh () (q2\<lparr>ep_transition := Some \<lparr>pt_def_hash_old = old, pt_def_hash_new = new,
     pt_epoch_id = e, pt_definition_changed_emitted = False\<rparr>\<rparr>) sh2"
proof -
  let ?t = "Some \<lparr>pt_def_hash_old = old, pt_def_hash_new = new, pt_epoch_id = e, pt_definition_changed_emitted = False\<rparr>"
  have "drives (pbind (emit_system EVENT_LOGGER_STOPPED []) (\<lambda>_. pbind checkpoint_high_water (\<lambda>_ p. (p\<lparr>ep_transition := ?t\<rparr>, Ok ()))))
      q sh () (q2\<lparr>ep_transition := ?t\<rparr>) sh2"
    by (rule drives_bind [OF assms(2)], rule drives_bind [OF assms(3)], rule drives_update) (simp add: ring_last)
  with assms(1) show ?thesis by (simp add: drives_def begin_epoch_transition_def)
qed

lemma drives_definition_changed:
  assumes "ep_transition q = Some t" "\<not> pt_definition_changed_emitted t"
    "drives (emit_system EVENT_DEFINITION_CHANGED (definition_changed_slots t)) (q\<lparr>ep_transition := None\<rparr>) sh a q1 sh1"
  shows "drives emit_definition_changed q sh () (q1\<lparr>ep_transition := Some (t\<lparr>pt_definition_changed_emitted := True\<rparr>)\<rparr>) sh1"
proof -
  let ?t = "Some (t\<lparr>pt_definition_changed_emitted := True\<rparr>)"
  have "drives (pbind (emit_system EVENT_DEFINITION_CHANGED (definition_changed_slots t)) (\<lambda>_ p. (p\<lparr>ep_transition := ?t\<rparr>, Ok ())))
      (q\<lparr>ep_transition := None\<rparr>) sh () (q1\<lparr>ep_transition := ?t\<rparr>) sh1"
    by (rule drives_bind [OF assms(3)], rule drives_update) (simp add: ring_last)
  with assms(1,2) show ?thesis
    by (simp add: drives_def emit_definition_changed_def definition_changed_slots_def ring_last)
qed

lemma drives_finish:
  assumes "ep_transition q = Some t" "pt_definition_changed_emitted t"
    "drives (emit_system EVENT_LOGGER_STARTED [slot_new KEY_COLD_START TY_BOOL [0]])
       (q\<lparr>ep_transition := None, ep_epoch_id := pt_epoch_id t\<rparr>) sh (a, b) q1 sh1"
  shows "drives finish_definition_change q sh () (q1\<lparr>ep_epoch_first_abs := a, ep_prev_definition_hash := pt_def_hash_old t,
     ep_definition_hash := pt_def_hash_new t\<rparr>) sh1"
proof -
  let ?g = "\<lambda>a p. p\<lparr>ep_epoch_first_abs := a, ep_prev_definition_hash := pt_def_hash_old t, ep_definition_hash := pt_def_hash_new t\<rparr>"
  have "drives (\<lambda>p. (?g a p, Ok ())) q1 sh1 () (?g a q1) sh1" by (rule drives_update) (cases q1, simp)
  then have "drives (adopt_epoch t 0) (q\<lparr>ep_transition := None, ep_epoch_id := pt_epoch_id t\<rparr>) sh () (?g a q1) sh1"
    unfolding adopt_epoch_def by (intro drives_bind [OF assms(3)]) simp
  with assms(1,2) show ?thesis by (simp add: drives_def finish_definition_change_def ring_last)
qed


section \<open>The scenarios\<close>

definition start_producer :: "RingBuffer \<Rightarrow> EpochProducer" where
  "start_producer ring =
     \<lparr>ep_ring = ring, ep_run_id = 1, ep_epoch_id = 1, ep_epoch_first_abs = 0, ep_system_seq = 0, ep_source_seq = [],
      ep_source_time = 1780000000000000000, ep_definition_hash = replicate 8 0, ep_prev_definition_hash = replicate 8 0,
      ep_transition = None\<rparr>"

lemma length_hashes [simp]: "length OLD_HASH = 8" "length NEW_HASH = 8"
  by (simp_all add: OLD_HASH_def NEW_HASH_def)

lemmas shape_steps = shape_fits_def shape_write_def shape_head_def data_record_def system_record_def high_water_record_def
  stream_record_def source_next_def record_new_def record_len_def encodable_def slot_new_def slot_ok_def slot_bytes_def
  padding_len_def place_def evicted_def survivors_def S4A_CAPTURE_CAPACITY_def u64_limit_def btree_get_def
  definition_changed_slots_def start_producer_def TRANSITION_EPOCH_def

lemma drives_returnI: "q = q' \<Longrightarrow> sh = sh' \<Longrightarrow> drives (preturn a) q sh a q' sh'"
  by (simp add: drives_return)

lemmas drives_rules = drives_bind drives_returnI drives_data drives_begin drives_system drives_checkpoint drives_checkpoint_cons
  drives_checkpoint_nil drives_definition_changed drives_finish

definition kept :: "nat \<Rightarrow> nat \<Rightarrow> nat \<Rightarrow> u32 \<Rightarrow> nat \<Rightarrow> u32 \<Rightarrow> Slot list \<Rightarrow> ReadRecord" where
  "kept start stop time src seq event slots =
     \<lparr>rr_start_abs = start, rr_end_abs = stop, rr_record = normalise_flags (stream_record time 1 src seq event slots) True\<rparr>"

definition changed_slots :: "Slot list" where
  "changed_slots = definition_changed_slots \<lparr>pt_def_hash_old = OLD_HASH, pt_def_hash_new = NEW_HASH, pt_epoch_id = TRANSITION_EPOCH,
     pt_definition_changed_emitted = False\<rparr>"

definition message_slots :: "Slot list" where
  "message_slots = [slot_new KEY_MESSAGE_TEMPLATE_ID TY_UDINT (u32_to_le_bytes 0)]"

definition lifecycle_retained :: "ReadRecord list" where
  "lifecycle_retained =
     [kept 52 96 1780000000000000001 SYSTEM_SOURCE_ID 0 EVENT_LOGGER_STOPPED [],
      kept 96 152 1780000000000000002 21 1 EVENT_SOURCE_HIGH_WATER [slot_new KEY_SOURCE_HIGH_WATER TY_ULINT (u64_to_le_bytes 1)],
      kept 152 232 1780000000000000003 SYSTEM_SOURCE_ID 1 EVENT_DEFINITION_CHANGED changed_slots,
      kept 256 308 1780000000000000004 SYSTEM_SOURCE_ID 2 EVENT_LOGGER_STARTED [slot_new KEY_COLD_START TY_BOOL [0]]]"

definition rich_wrap_retained :: "ReadRecord list" where
  "rich_wrap_retained =
     [kept 624 704 1780000000000000010 SYSTEM_SOURCE_ID 1 EVENT_DEFINITION_CHANGED changed_slots,
      kept 704 756 1780000000000000011 SYSTEM_SOURCE_ID 2 EVENT_LOGGER_STARTED [slot_new KEY_COLD_START TY_BOOL [0]],
      kept 768 820 1780000000000000012 10 5 EVENT_MESSAGE message_slots,
      kept 820 872 1780000000000000013 20 4 EVENT_MESSAGE message_slots]"

definition end_producer :: "RingBuffer \<Rightarrow> nat \<Rightarrow> (u32, nat) btree \<Rightarrow> nat \<Rightarrow> EpochProducer" where
  "end_producer ring first_abs seqs time =
     \<lparr>ep_ring = ring, ep_run_id = 1, ep_epoch_id = TRANSITION_EPOCH, ep_epoch_first_abs = first_abs, ep_system_seq = 3,
      ep_source_seq = seqs, ep_source_time = time, ep_definition_hash = NEW_HASH, ep_prev_definition_hash = OLD_HASH,
      ep_transition = None\<rparr>"

lemmas scenario_steps = shape_steps kept_def changed_slots_def message_slots_def end_producer_def

lemma lifecycle_drives:
  "drives drive_lifecycle_survival (start_producer r) (0, []) () (end_producer r 256 [(21, 2)] 1780000000000000005) (1, lifecycle_retained)"
  unfolding drive_lifecycle_survival_def
  by (simp add: scenario_steps lifecycle_retained_def | rule drives_rules)+

lemma rich_wrap_drives:
  "drives drive_rich_wrap (start_producer r) (0, []) () (end_producer r 704 [(10, 6), (20, 5)] 1780000000000000014) (10, rich_wrap_retained)"
  unfolding drive_rich_wrap_def numeral_3_eq_3 numeral_2_eq_2 repeat.simps
  by (simp add: scenario_steps rich_wrap_retained_def | rule drives_rules)+


section \<open>Reading an image back\<close>

definition scenario_end :: "CaptureScenario \<Rightarrow> RingBuffer \<Rightarrow> EpochProducer" where
  "scenario_end sc ring = (case sc of RichWrap \<Rightarrow> end_producer ring 704 [(10, 6), (20, 5)] 1780000000000000014
     | LifecycleSurvival \<Rightarrow> end_producer ring 256 [(21, 2)] 1780000000000000005)"

definition scenario_shape :: "CaptureScenario \<Rightarrow> nat \<times> ReadRecord list" where
  "scenario_shape sc = (case sc of RichWrap \<Rightarrow> (10, rich_wrap_retained) | LifecycleSurvival \<Rightarrow> (1, lifecycle_retained))"

lemma reference_shape:
  "\<exists>ring. has_shape ring (scenario_shape sc) \<and> reference_capture sc
     = Ok \<lparr>ci_ring_bytes = ring_bytes ring, ci_control = from_snapshot (control_snapshot (scenario_end sc ring))\<rparr>"
proof -
  obtain ring0 where new: "ring_new S4A_CAPTURE_CAPACITY = (Ok ring0 :: (_, EpochError) outcome)"
    by (simp add: ring_new_def S4A_CAPTURE_CAPACITY_def)
  have sh: "has_shape ring0 (0, [])"
    using new ring_new_Ok [OF new]
    by (auto simp: has_shape_def ring_new_def shape_head_def capacity_def S4A_CAPTURE_CAPACITY_def split: if_splits)
  have p: "producer_new S4A_CAPTURE_CAPACITY 1 1 = (Ok (start_producer ring0) :: (_, EpochError) outcome)"
    using new by (simp add: producer_new_def start_producer_def)
  have [simp]: "(start_producer r)\<lparr>ep_ring := ring\<rparr> = start_producer ring" "(end_producer r a m t)\<lparr>ep_ring := ring\<rparr> = end_producer ring a m t"
    for r ring a m t by (simp_all add: start_producer_def end_producer_def)
  show ?thesis
  proof (cases sc)
    case RichWrap
    from rich_wrap_drives [of ring0] sh obtain ring where "has_shape ring (10, rich_wrap_retained)"
      "drive_rich_wrap (start_producer ring0) = (end_producer ring 704 [(10, 6), (20, 5)] 1780000000000000014, Ok ())"
      unfolding drives_def by auto
    with RichWrap p show ?thesis
      by (intro exI [of _ ring]) (simp add: reference_capture_def scenario_shape_def scenario_end_def end_producer_def)
  next
    case LifecycleSurvival
    from lifecycle_drives [of ring0] sh obtain ring where "has_shape ring (1, lifecycle_retained)"
      "drive_lifecycle_survival (start_producer ring0) = (end_producer ring 256 [(21, 2)] 1780000000000000005, Ok ())"
      unfolding drives_def by auto
    with LifecycleSurvival p show ?thesis
      by (intro exI [of _ ring]) (simp add: reference_capture_def scenario_shape_def scenario_end_def end_producer_def)
  qed
qed

lemma captured_poll:
  assumes sh: "has_shape ring (lost, rs)" and ne: "rs \<noteq> []" "shape_head rs < u64_limit" and lost: "lost < u64_limit"
    and ring: "ep_ring p = ring"
  defines "c \<equiv> from_snapshot (control_snapshot p)"
  shows "\<exists>view. from_captured (ring_bytes ring) (unat (cf_head_abs c)) (unat (cf_oldest_abs c)) (unat (cf_lost_count c)) = Ok view
     \<and> rbc_poll_snapshot rbc_new view (to_snapshot c S4A_CAPTURE_CAPACITY)
       = and_then (account_all (tracker_new DEFAULT_BUFFER_ID) (map rr_record rs)) (\<lambda>t.
           Ok (\<lparr>rbc_cursor_abs = shape_head rs, rbc_tracker = t\<rparr>,
               \<lparr>rb_records = rs, rb_next_abs = shape_head rs, rb_lapped = (0 < rr_start_abs (hd rs))\<rparr>))"
proof -
  have inv: "ring_inv ring rs" and cap: "capacity ring = S4A_CAPTURE_CAPACITY" and hd: "ring_head_abs ring = shape_head rs"
    and lc: "ring_lost_count ring = lost" using sh by (simp_all add: has_shape_def)
  have holds: "ring_holds ring rs" using inv by (simp add: ring_inv_def)
  then have old: "ring_oldest_abs ring = rr_start_abs (hd rs)" "ring_oldest_abs ring \<le> ring_head_abs ring"
    "ring_head_abs ring \<le> ring_oldest_abs ring + capacity ring" "0 < capacity ring"
    using ne(1) linked_le by (auto simp: ring_holds_def)
  have lims: "ring_head_abs ring < u64_limit" "ring_oldest_abs ring < u64_limit" using ne(2) hd old(2) by simp_all
  have c: "unat (cf_head_abs c) = ring_head_abs ring" "unat (cf_oldest_abs c) = ring_oldest_abs ring" "unat (cf_lost_count c) = ring_lost_count ring"
    using lims lost lc by (simp_all add: c_def from_snapshot_def control_snapshot_def ring unat_of_nat_u64)
  let ?view = "\<lparr>ring_bytes = ring_bytes ring, ring_head_abs = ring_head_abs ring, ring_oldest_abs = ring_oldest_abs ring,
     ring_lost_count = ring_lost_count ring, ring_wraps = 0, ring_index = [], ring_producer_loss_ranges = []\<rparr>"
  have view: "from_captured (ring_bytes ring) (ring_head_abs ring) (ring_oldest_abs ring) (ring_lost_count ring) = Ok ?view"
    using old by (intro from_captured_ok) (auto simp: capacity_def)
  have "read_raw_from_snapshot ?view 0 (to_snapshot c S4A_CAPTURE_CAPACITY) = read_raw_from ring 0"
    using cap c
    by (simp add: read_raw_from_snapshot_def to_snapshot_def capacity_def S4A_CAPTURE_CAPACITY_def read_raw_from_def read_raw_window_def)
  also have "\<dots> = read_from ring 0" using holds lims(1) by (intro read_raw_from_ok) (auto simp: cursor_ok_def)
  also have "\<dots> = Ok \<lparr>rb_records = rs, rb_next_abs = shape_head rs, rb_lapped = (0 < rr_start_abs (hd rs))\<rparr>"
    using read_from_ok [OF holds, of 0] hd old(1) by simp
  finally show ?thesis
    using view c by (intro exI [of _ ?view]) (simp add: rbc_poll_snapshot_def rbc_new_def rbc_with_buffer_id_def rbc_account_batch_def and_then_assoc)
qed

lemmas accounting_steps = account_def account_high_water_def account_gap_def account_delivery_def account_dropped_def
  parse_source_high_water_def parse_records_dropped_def stream_loss_def insert_loss_event_def same_loss_stream_def
  ranges_touch_or_overlap_def merge_into_def u64_saturating_add_def map_get_or_0_def tracker_new_def kept_def stream_record_def
  record_new_def slot_new_def changed_slots_def message_slots_def definition_changed_slots_def normalise_flags_def registry_ids u64_limit_def
  DEFAULT_BUFFER_ID_def TRANSITION_EPOCH_def tracker_delivered_def tracker_lost_def Let_def

lemma lifecycle_accounted:
  "\<exists>t. account_all (tracker_new DEFAULT_BUFFER_ID) (map rr_record lifecycle_retained) = (Ok t :: (_, 'e) outcome)
     \<and> tracker_delivered t 1 21 = 1 \<and> tracker_delivered t 1 SYSTEM_SOURCE_ID = 3
     \<and> tracker_lost t 1 21 = (Ok 1 :: (_, 'f) outcome) \<and> tracker_lost t 1 SYSTEM_SOURCE_ID = (Ok 0 :: (_, 'f) outcome)"
  by (simp add: lifecycle_retained_def accounting_steps)

lemma rich_wrap_accounted:
  "\<exists>t. account_all (tracker_new DEFAULT_BUFFER_ID) (map rr_record rich_wrap_retained) = (Ok t :: (_, 'e) outcome)
     \<and> tracker_delivered t 1 10 = 1 \<and> tracker_lost t 1 10 = (Ok 5 :: (_, 'f) outcome)
     \<and> tracker_delivered t 1 20 = 1 \<and> tracker_lost t 1 20 = (Ok 4 :: (_, 'f) outcome)
     \<and> tracker_delivered t 1 SYSTEM_SOURCE_ID = 2 \<and> tracker_lost t 1 SYSTEM_SOURCE_ID = (Ok 1 :: (_, 'f) outcome)"
  by (simp add: rich_wrap_retained_def accounting_steps)

lemmas resolving_steps = observe_all_def observe_def resolver_new_def definition_changed_epoch_def logger_started_cold_start_def
  push_boundary_def resolve_def captured_summary_def summary_def kept_def stream_record_def record_new_def slot_new_def changed_slots_def
  message_slots_def definition_changed_slots_def normalise_flags_def registry_ids DEFAULT_BUFFER_ID_def TRANSITION_EPOCH_def Let_def

lemma lifecycle_resolved:
  "map (captured_summary (observe_all (resolver_new DEFAULT_BUFFER_ID 1 1) lifecycle_retained)) lifecycle_retained = lifecycle_survivors"
  by (simp add: lifecycle_retained_def lifecycle_survivors_def resolving_steps)

lemma rich_wrap_resolved:
  "map (captured_summary (observe_all (resolver_new DEFAULT_BUFFER_ID 1 1) rich_wrap_retained)) rich_wrap_retained = rich_wrap_survivors"
  by (simp add: rich_wrap_retained_def rich_wrap_survivors_def resolving_steps)


section \<open>Comparison\<close>

lemma first_mismatch_Ok: "length a = length e \<Longrightarrow> first_mismatch i a e = Ok () \<longleftrightarrow> a = e"
  by (induction a e arbitrary: i rule: list_induct2) simp_all

lemma compare_ring_bytes_Ok: "compare_ring_bytes actual expected = Ok () \<longleftrightarrow> actual = expected"
  by (auto simp: compare_ring_bytes_def first_mismatch_Ok)

lemma compare_control_Ok: "compare_control actual expected = Ok () \<longleftrightarrow> actual = (expected :: CapturedControlFields)"
  by (cases actual; cases expected)
     (auto simp: compare_control_def compare_control_u64_def compare_control_hash_def split: if_splits)

lemmas ensure_simps = ensure_def ensure_eq_def ensure_eq_u64_def ensure_lost_def rbc_lost_in_run_def rbc_delivered_in_run_def

lemma reference_validates:
  assumes "reference_capture sc = Ok i"
  shows "\<exists>v. validate_capture sc (ci_ring_bytes i) (ci_control i) = Ok v \<and> rb_records (cv_batch v) = snd (scenario_shape sc)
     \<and> cv_survivors v = (case sc of RichWrap \<Rightarrow> rich_wrap_survivors | LifecycleSurvival \<Rightarrow> lifecycle_survivors)"
proof -
  from reference_shape [of sc] assms obtain ring where sh: "has_shape ring (scenario_shape sc)"
    and i: "i = \<lparr>ci_ring_bytes = ring_bytes ring, ci_control = from_snapshot (control_snapshot (scenario_end sc ring))\<rparr>" by auto
  have ep: "ep_ring (scenario_end sc ring) = ring" by (simp add: scenario_end_def end_producer_def split: CaptureScenario.split)
  have nonempty: "snd (scenario_shape sc) \<noteq> []" "shape_head (snd (scenario_shape sc)) < u64_limit" "fst (scenario_shape sc) < u64_limit"
    "0 < rr_start_abs (hd (snd (scenario_shape sc)))"
    by (cases sc; simp add: scenario_shape_def rich_wrap_retained_def lifecycle_retained_def shape_head_def kept_def u64_limit_def)+
  from captured_poll [of ring "fst (scenario_shape sc)" "snd (scenario_shape sc)", OF _ nonempty(1-3) ep] sh nonempty(4) obtain view where
    view: "from_captured (ci_ring_bytes i) (unat (cf_head_abs (ci_control i))) (unat (cf_oldest_abs (ci_control i)))
        (unat (cf_lost_count (ci_control i))) = Ok view"
      "rbc_poll_snapshot rbc_new view (to_snapshot (ci_control i) S4A_CAPTURE_CAPACITY)
       = and_then (account_all (tracker_new DEFAULT_BUFFER_ID) (map rr_record (snd (scenario_shape sc)))) (\<lambda>t.
           Ok (\<lparr>rbc_cursor_abs = shape_head (snd (scenario_shape sc)), rbc_tracker = t\<rparr>,
               \<lparr>rb_records = snd (scenario_shape sc), rb_next_abs = shape_head (snd (scenario_shape sc)), rb_lapped = True\<rparr>))"
    by (auto simp: i)
  have same: "compare_ring_bytes (ci_ring_bytes i) (ci_ring_bytes i) = Ok ()" "compare_control (ci_control i) (ci_control i) = Ok ()"
    by (simp_all add: compare_ring_bytes_Ok compare_control_Ok)
  show ?thesis
  proof (cases sc)
    case RichWrap
    from rich_wrap_accounted [where 'e = RingError and 'f = CaptureValidationError] obtain t where
      t: "account_all (tracker_new DEFAULT_BUFFER_ID) (map rr_record rich_wrap_retained) = (Ok t :: (_, RingError) outcome)"
      "tracker_delivered t 1 10 = 1" "tracker_lost t 1 10 = (Ok 5 :: (_, CaptureValidationError) outcome)"
      "tracker_delivered t 1 20 = 1" "tracker_lost t 1 20 = (Ok 4 :: (_, CaptureValidationError) outcome)"
      "tracker_delivered t 1 SYSTEM_SOURCE_ID = 2" "tracker_lost t 1 SYSTEM_SOURCE_ID = (Ok 1 :: (_, CaptureValidationError) outcome)" by blast
    with RichWrap assms view same rich_wrap_resolved show ?thesis
      by (simp add: validate_capture_def scenario_shape_def assert_rich_wrap_invariants_def ensure_simps Let_def)
  next
    case LifecycleSurvival
    from lifecycle_accounted [where 'e = RingError and 'f = CaptureValidationError] obtain t where
      t: "account_all (tracker_new DEFAULT_BUFFER_ID) (map rr_record lifecycle_retained) = (Ok t :: (_, RingError) outcome)"
      "tracker_delivered t 1 21 = 1" "tracker_delivered t 1 SYSTEM_SOURCE_ID = 3"
      "tracker_lost t 1 21 = (Ok 1 :: (_, CaptureValidationError) outcome)"
      "tracker_lost t 1 SYSTEM_SOURCE_ID = (Ok 0 :: (_, CaptureValidationError) outcome)" by blast
    moreover have "[x \<leftarrow> lifecycle_retained. rec_source_id (rr_record x) = 21 \<and> rec_event_type_id (rr_record x) = EVENT_MESSAGE] = []"
      by (simp add: lifecycle_retained_def kept_def stream_record_def record_new_def normalise_flags_def registry_ids)
    ultimately show ?thesis using LifecycleSurvival assms view same lifecycle_resolved
      by (simp add: validate_capture_def scenario_shape_def assert_lifecycle_survival_invariants_def ensure_simps Let_def u64_limit_def)
  qed
qed

section \<open>Properties\<close>

text \<open>C22. Validation accepts exactly the reference.  For each scenario a captured ring and its control fields are accepted
  if and only if they are, byte for byte and field for field, the image the reference producer leaves; the image
  exists, and the validation reports the four records the scenario is meant to retain with their epochs.\<close>

theorem validate_capture_exact:
  "\<exists>i v. reference_capture sc = Ok i
     \<and> (\<forall>bytes control. (\<exists>w. validate_capture sc bytes control = Ok w) \<longleftrightarrow> bytes = ci_ring_bytes i \<and> control = ci_control i)
     \<and> validate_capture sc (ci_ring_bytes i) (ci_control i) = Ok v
     \<and> cv_survivors v = (case sc of RichWrap \<Rightarrow> rich_wrap_survivors | LifecycleSurvival \<Rightarrow> lifecycle_survivors)"
proof -
  obtain i where i: "reference_capture sc = Ok i" using reference_shape [of sc] by blast
  from reference_validates [OF i] obtain v where v: "validate_capture sc (ci_ring_bytes i) (ci_control i) = Ok v"
    "cv_survivors v = (case sc of RichWrap \<Rightarrow> rich_wrap_survivors | LifecycleSurvival \<Rightarrow> lifecycle_survivors)" by blast
  have "bytes = ci_ring_bytes i \<and> control = ci_control i" if "validate_capture sc bytes control = Ok w" for bytes control w
    using that i by (auto simp: validate_capture_def outcome_simps compare_ring_bytes_Ok compare_control_Ok)
  with i v show ?thesis by blast
qed

end
