(* ===== verification/Arguments.thy ===== *)
theory Arguments
  imports Text Shm
begin

text \<open>
  The command lines of \<open>crates/live-harness/src/main.rs\<close>: the parser that takes named arguments out of a list, the
  arguments of the three commands, and the command lines that \<open>run\<close> builds for the two processes it starts.  An
  \<open>OsString\<close> is its UTF-8 text, on which \<open>to_string_lossy\<close> is the identity.
\<close>

section \<open>Modes\<close>

datatype RunMode = Smoke | Litmus

datatype ArgError = ArgMessage string | UnexpectedArguments "string list"

definition run_mode_parse :: "string \<Rightarrow> (RunMode, ArgError) outcome" where
  "run_mode_parse v =
     (if v = ''smoke'' then Ok Smoke
      else if v = ''litmus'' then Ok Litmus
      else Err (ArgMessage (''invalid --mode '' @ v @ ''; expected smoke or litmus'')))"

fun run_mode_as_str :: "RunMode \<Rightarrow> string" where
  "run_mode_as_str Smoke = ''smoke''"
| "run_mode_as_str Litmus = ''litmus''"

record RunDefaults =
  rd_cap :: nat
  rd_sources :: nat
  rd_per_source :: nat

definition DEFAULT_CAP :: nat where "DEFAULT_CAP = 4096"
definition DEFAULT_SOURCES :: nat where "DEFAULT_SOURCES = 4"
definition DEFAULT_PER_SOURCE :: nat where "DEFAULT_PER_SOURCE = 5000"
definition DEFAULT_POLL_SLEEP_US :: nat where "DEFAULT_POLL_SLEEP_US = 100"
definition DEFAULT_TIMEOUT_MS :: nat where "DEFAULT_TIMEOUT_MS = 30000"
definition LITMUS_CAP :: nat where "LITMUS_CAP = 512"
definition LITMUS_SOURCES :: nat where "LITMUS_SOURCES = 1"
definition LITMUS_PER_SOURCE :: nat where "LITMUS_PER_SOURCE = 200000"
definition DEFAULT_STRESS_ITERATIONS :: nat where "DEFAULT_STRESS_ITERATIONS = 1"

fun mode_defaults :: "RunMode \<Rightarrow> RunDefaults" where
  "mode_defaults Smoke =
     \<lparr>rd_cap = DEFAULT_CAP, rd_sources = DEFAULT_SOURCES, rd_per_source = DEFAULT_PER_SOURCE\<rparr>"
| "mode_defaults Litmus =
     \<lparr>rd_cap = LITMUS_CAP, rd_sources = LITMUS_SOURCES, rd_per_source = LITMUS_PER_SOURCE\<rparr>"

datatype AppendMode = WriteRecord | Encoded

definition append_mode_parse :: "string \<Rightarrow> (AppendMode, ArgError) outcome" where
  "append_mode_parse v =
     (if v = ''write-record'' then Ok WriteRecord
      else if v = ''encoded'' then Ok Encoded
      else Err (ArgMessage (''invalid --append-mode '' @ v @ ''; expected write-record or encoded'')))"

fun append_mode_as_str :: "AppendMode \<Rightarrow> string" where
  "append_mode_as_str WriteRecord = ''write-record''"
| "append_mode_as_str Encoded = ''encoded''"

section \<open>The parser\<close>

record ArgParser =
  ap_args :: "string list"

type_synonym 'a parsed = "(ArgParser \<times> 'a, ArgError) outcome"

fun position :: "'a \<Rightarrow> 'a list \<Rightarrow> nat option" where
  "position x [] = None"
| "position x (y # ys) = (if y = x then Some 0 else map_option Suc (position x ys))"

definition vec_remove :: "nat \<Rightarrow> 'a list \<Rightarrow> 'a list" where
  "vec_remove index xs = take index xs @ drop (Suc index) xs"

definition parser_new :: "string list \<Rightarrow> ArgParser" where
  "parser_new args = \<lparr>ap_args = args\<rparr>"

definition take_flag :: "ArgParser \<Rightarrow> string \<Rightarrow> bool parsed" where
  "take_flag p name =
     (case position name (ap_args p) of
        None \<Rightarrow> Ok (p, False)
      | Some index \<Rightarrow> Ok (p\<lparr>ap_args := vec_remove index (ap_args p)\<rparr>, True))"

definition take_value :: "ArgParser \<Rightarrow> string \<Rightarrow> string option parsed" where
  "take_value p name =
     (case position name (ap_args p) of
        None \<Rightarrow> Ok (p, None)
      | Some index \<Rightarrow>
          let args = vec_remove index (ap_args p)
          in if index \<ge> length args then Err (ArgMessage (''missing value for '' @ name))
             else Ok (p\<lparr>ap_args := vec_remove index args\<rparr>, Some (args ! index)))"

definition finish :: "ArgParser \<Rightarrow> (unit, ArgError) outcome" where
  "finish p = (if ap_args p = [] then Ok () else Err (UnexpectedArguments (ap_args p)))"

definition parse_optional :: "(string \<Rightarrow> nat option) \<Rightarrow> string option \<Rightarrow> string \<Rightarrow> (nat option, ArgError) outcome" where
  "parse_optional from_str v name =
     (case v of
        None \<Rightarrow> Ok None
      | Some s \<Rightarrow> (case from_str s of
          Some n \<Rightarrow> Ok (Some n)
        | None \<Rightarrow> Err (ArgMessage (''invalid value for '' @ name))))"

definition parsed_value :: "(string \<Rightarrow> nat option) \<Rightarrow> ArgParser \<Rightarrow> string \<Rightarrow> nat option parsed" where
  "parsed_value from_str p name =
     and_then (take_value p name) (\<lambda>(p, v). and_then (parse_optional from_str v name) (\<lambda>n. Ok (p, n)))"

definition required :: "string \<Rightarrow> 'a option parsed \<Rightarrow> 'a parsed" where
  "required name r =
     and_then r (\<lambda>(p, v). case v of
        Some a \<Rightarrow> Ok (p, a) | None \<Rightarrow> Err (ArgMessage (''missing required argument '' @ name)))"

definition optional_path :: "ArgParser \<Rightarrow> string \<Rightarrow> string option parsed" where
  "optional_path p name = take_value p name"

definition arg_path :: "ArgParser \<Rightarrow> string \<Rightarrow> string parsed" where
  "arg_path p name = required name (optional_path p name)"

definition optional_usize :: "ArgParser \<Rightarrow> string \<Rightarrow> nat option parsed" where
  "optional_usize = parsed_value (parse_unsigned u64_limit)"

definition arg_usize :: "ArgParser \<Rightarrow> string \<Rightarrow> nat parsed" where
  "arg_usize p name = required name (optional_usize p name)"

definition optional_u32 :: "ArgParser \<Rightarrow> string \<Rightarrow> nat option parsed" where
  "optional_u32 = parsed_value (parse_unsigned (2 ^ 32))"

definition arg_u32 :: "ArgParser \<Rightarrow> string \<Rightarrow> nat parsed" where
  "arg_u32 p name = required name (optional_u32 p name)"

definition optional_u64 :: "ArgParser \<Rightarrow> string \<Rightarrow> nat option parsed" where
  "optional_u64 = parsed_value (parse_unsigned u64_limit)"

definition arg_u64 :: "ArgParser \<Rightarrow> string \<Rightarrow> nat parsed" where
  "arg_u64 p name = required name (optional_u64 p name)"

definition arg_run_mode :: "ArgParser \<Rightarrow> RunMode option parsed" where
  "arg_run_mode p =
     and_then (take_value p ''--mode'') (\<lambda>(p, v). case v of
        None \<Rightarrow> Ok (p, None)
      | Some s \<Rightarrow> and_then (run_mode_parse s) (\<lambda>m. Ok (p, Some m)))"

definition arg_fence_mode :: "ArgParser \<Rightarrow> FenceMode parsed" where
  "arg_fence_mode p =
     and_then (take_flag p ''--fenced'') (\<lambda>(p, fenced).
     and_then (take_flag p ''--unfenced'') (\<lambda>(p, unfenced).
       if fenced \<and> unfenced then Err (ArgMessage ''--fenced and --unfenced are mutually exclusive'')
       else Ok (p, if unfenced then Unfenced else Fenced)))"

definition arg_append_mode :: "ArgParser \<Rightarrow> AppendMode option parsed" where
  "arg_append_mode p =
     and_then (take_value p ''--append-mode'') (\<lambda>(p, v). case v of
        None \<Rightarrow> Ok (p, None)
      | Some s \<Rightarrow> and_then (append_mode_parse s) (\<lambda>m. Ok (p, Some m)))"

definition unwrap_or :: "'a option \<Rightarrow> 'a \<Rightarrow> 'a" where
  "unwrap_or v d = (case v of Some a \<Rightarrow> a | None \<Rightarrow> d)"

section \<open>The arguments of the commands\<close>

definition done_path :: "string \<Rightarrow> string" where
  "done_path shm = shm @ ''.done''"

definition observed_path :: "string \<Rightarrow> string" where
  "observed_path status = status @ ''.observed''"

definition default_shm_path :: "nat \<Rightarrow> string" where
  "default_shm_path process_id = ''/dev/shm/open-ot-live-'' @ decimal process_id"

record ProducerArgs =
  pa_shm :: string
  pa_cap :: nat
  pa_sources :: nat
  pa_per_source :: nat
  pa_fence_mode :: FenceMode
  pa_append_mode :: AppendMode

definition producer_args_parse :: "string list \<Rightarrow> (ProducerArgs, ArgError) outcome" where
  "producer_args_parse args =
     and_then (arg_path (parser_new args) ''--shm'') (\<lambda>(p, shm).
     and_then (arg_usize p ''--cap'') (\<lambda>(p, cap).
     and_then (arg_u32 p ''--sources'') (\<lambda>(p, sources).
     and_then (arg_u64 p ''--per-source'') (\<lambda>(p, per_source).
     and_then (arg_fence_mode p) (\<lambda>(p, fence_mode).
     and_then (arg_append_mode p) (\<lambda>(p, append_mode).
     and_then (finish p) (\<lambda>_.
       Ok \<lparr>pa_shm = shm, pa_cap = cap, pa_sources = sources, pa_per_source = per_source,
           pa_fence_mode = fence_mode, pa_append_mode = unwrap_or append_mode WriteRecord\<rparr>)))))))"

record ConsumerArgs =
  ca_mode :: RunMode
  ca_shm :: string
  ca_done :: string
  ca_out :: string
  ca_sources :: nat
  ca_per_source :: nat
  ca_poll_sleep_us :: nat
  ca_recheck_stall_us :: nat
  ca_timeout_ms :: nat
  ca_fence_mode :: FenceMode
  ca_append_mode :: AppendMode

definition consumer_args_parse :: "string list \<Rightarrow> (ConsumerArgs, ArgError) outcome" where
  "consumer_args_parse args =
     and_then (arg_run_mode (parser_new args)) (\<lambda>(p, mode).
     and_then (arg_path p ''--done'') (\<lambda>(p, done_file).
     and_then (optional_path p ''--out'') (\<lambda>(p, out).
     and_then (arg_path p ''--shm'') (\<lambda>(p, shm).
     and_then (arg_u32 p ''--sources'') (\<lambda>(p, sources).
     and_then (arg_u64 p ''--per-source'') (\<lambda>(p, per_source).
     and_then (optional_u64 p ''--poll-sleep-us'') (\<lambda>(p, poll_sleep_us).
     and_then (optional_u64 p ''--recheck-stall-us'') (\<lambda>(p, recheck_stall_us).
     and_then (optional_u64 p ''--timeout-ms'') (\<lambda>(p, timeout_ms).
     and_then (arg_fence_mode p) (\<lambda>(p, fence_mode).
     and_then (arg_append_mode p) (\<lambda>(p, append_mode).
     and_then (finish p) (\<lambda>_.
       Ok \<lparr>ca_mode = unwrap_or mode Smoke, ca_shm = shm, ca_done = done_file,
           ca_out = unwrap_or out (observed_path done_file), ca_sources = sources, ca_per_source = per_source,
           ca_poll_sleep_us = unwrap_or poll_sleep_us DEFAULT_POLL_SLEEP_US,
           ca_recheck_stall_us = unwrap_or recheck_stall_us 0,
           ca_timeout_ms = unwrap_or timeout_ms DEFAULT_TIMEOUT_MS,
           ca_fence_mode = fence_mode, ca_append_mode = unwrap_or append_mode WriteRecord\<rparr>))))))))))))"

record RunArgs =
  ra_mode :: RunMode
  ra_shm :: string
  ra_cap :: nat
  ra_sources :: nat
  ra_per_source :: nat
  ra_poll_sleep_us :: nat
  ra_recheck_stall_us :: nat
  ra_timeout_ms :: nat
  ra_fence_mode :: FenceMode
  ra_append_mode :: AppendMode
  ra_iterations :: nat

definition run_args_parse :: "nat \<Rightarrow> string list \<Rightarrow> (RunArgs, ArgError) outcome" where
  "run_args_parse process_id args =
     and_then (arg_run_mode (parser_new args)) (\<lambda>(p, mode).
     let mode = unwrap_or mode Smoke; defaults = mode_defaults mode in
     and_then (optional_path p ''--shm'') (\<lambda>(p, shm).
     and_then (optional_usize p ''--cap'') (\<lambda>(p, cap).
     and_then (optional_u32 p ''--sources'') (\<lambda>(p, sources).
     and_then (optional_u64 p ''--per-source'') (\<lambda>(p, per_source).
     and_then (optional_u64 p ''--poll-sleep-us'') (\<lambda>(p, poll_sleep_us).
     and_then (optional_u64 p ''--recheck-stall-us'') (\<lambda>(p, recheck_stall_us).
     and_then (optional_u64 p ''--timeout-ms'') (\<lambda>(p, timeout_ms).
     and_then (arg_fence_mode p) (\<lambda>(p, fence_mode).
     and_then (arg_append_mode p) (\<lambda>(p, append_mode).
     and_then (optional_u64 p ''--iterations'') (\<lambda>(p, iterations).
     and_then (finish p) (\<lambda>_.
       Ok \<lparr>ra_mode = mode, ra_shm = unwrap_or shm (default_shm_path process_id), ra_cap = unwrap_or cap (rd_cap defaults),
           ra_sources = unwrap_or sources (rd_sources defaults),
           ra_per_source = unwrap_or per_source (rd_per_source defaults),
           ra_poll_sleep_us = unwrap_or poll_sleep_us DEFAULT_POLL_SLEEP_US,
           ra_recheck_stall_us = unwrap_or recheck_stall_us 0,
           ra_timeout_ms = unwrap_or timeout_ms DEFAULT_TIMEOUT_MS,
           ra_fence_mode = fence_mode, ra_append_mode = unwrap_or append_mode WriteRecord,
           ra_iterations = unwrap_or iterations DEFAULT_STRESS_ITERATIONS\<rparr>))))))))))))"

section \<open>The command lines of the children\<close>

fun fence_flag :: "FenceMode \<Rightarrow> string" where
  "fence_flag Fenced = ''--fenced''"
| "fence_flag Unfenced = ''--unfenced''"

definition command_for :: "string \<Rightarrow> nat option \<Rightarrow> string list" where
  "command_for exe core =
     (case core of Some c \<Rightarrow> [''taskset'', ''-c'', decimal c, exe] | None \<Rightarrow> [exe])"

definition consumer_arguments :: "RunArgs \<Rightarrow> string list" where
  "consumer_arguments args =
     (let done_file = done_path (ra_shm args); observed = observed_path done_file
      in [''consumer'', ''--mode'', run_mode_as_str (ra_mode args), fence_flag (ra_fence_mode args),
          ''--append-mode'', append_mode_as_str (ra_append_mode args), ''--shm'', ra_shm args,
          ''--done'', done_file, ''--out'', observed,
          ''--sources'', decimal (ra_sources args), ''--per-source'', decimal (ra_per_source args),
          ''--poll-sleep-us'', decimal (ra_poll_sleep_us args),
          ''--recheck-stall-us'', decimal (ra_recheck_stall_us args),
          ''--timeout-ms'', decimal (ra_timeout_ms args)])"

definition producer_arguments :: "RunArgs \<Rightarrow> string list" where
  "producer_arguments args =
     [''producer'', fence_flag (ra_fence_mode args), ''--append-mode'', append_mode_as_str (ra_append_mode args),
      ''--shm'', ra_shm args, ''--cap'', decimal (ra_cap args), ''--sources'', decimal (ra_sources args),
      ''--per-source'', decimal (ra_per_source args)]"

datatype HarnessCommand =
    ProducerCommand ProducerArgs
  | ConsumerCommand ConsumerArgs
  | RunCommand RunArgs

definition usage :: string where
  "usage = ''usage: open-ot-live-harness run [--mode smoke|litmus] [--fenced|--unfenced] [--iterations N] [--shm PATH] [--cap BYTES] [--sources N] [--per-source N]'' @ [CHR 0x0A]
     @ ''or: open-ot-live-harness producer [--fenced|--unfenced] --shm PATH --cap BYTES --sources N --per-source N'' @ [CHR 0x0A]
     @ ''or: open-ot-live-harness consumer [--mode smoke|litmus] [--fenced|--unfenced] --shm PATH --done FILE --sources N --per-source N [--out FILE]''"

definition parse_command :: "nat \<Rightarrow> string list \<Rightarrow> (HarnessCommand, ArgError) outcome" where
  "parse_command process_id args =
     (case args of
        [] \<Rightarrow> Err (ArgMessage usage)
      | command # rest \<Rightarrow>
          if command = ''producer'' then and_then (producer_args_parse rest) (\<lambda>a. Ok (ProducerCommand a))
          else if command = ''consumer'' then and_then (consumer_args_parse rest) (\<lambda>a. Ok (ConsumerCommand a))
          else if command = ''run'' then and_then (run_args_parse process_id rest) (\<lambda>a. Ok (RunCommand a))
          else Err (ArgMessage usage))"

section \<open>The children parse what \<open>run\<close> wrote\<close>

lemma decimal_not_flag [simp]: "decimal n \<noteq> CHR ''-'' # s" "CHR ''-'' # s \<noteq> decimal n"
proof -
  show "CHR ''-'' # s \<noteq> decimal n"
  proof
    assume "CHR ''-'' # s = decimal n"
    with digits_decimal [of n] have "digits (CHR ''-'' # s)" by simp
    then show False by (simp add: digits_def)
  qed
  then show "decimal n \<noteq> CHR ''-'' # s" by (rule not_sym)
qed

definition flag_names :: "string list" where
  "flag_names = [''--mode'', ''--done'', ''--out'', ''--shm'', ''--cap'', ''--sources'', ''--per-source'', ''--poll-sleep-us'',
     ''--recheck-stall-us'', ''--timeout-ms'', ''--fenced'', ''--unfenced'', ''--append-mode'']"

definition run_args_ok :: "RunArgs \<Rightarrow> bool" where
  "run_args_ok args \<longleftrightarrow> ra_shm args \<notin> set flag_names \<and> ra_sources args < 2 ^ 32
     \<and> list_all (\<lambda>n. n < u64_limit) [ra_cap args, ra_per_source args, ra_poll_sleep_us args, ra_recheck_stall_us args, ra_timeout_ms args]"

lemma dotted_not_flag:
  assumes "CHR ''.'' \<in> set s" shows "s \<notin> set flag_names"
  using assms by (auto simp: flag_names_def)

lemma modes_parse [simp]: "run_mode_parse (run_mode_as_str m) = Ok m" "append_mode_parse (append_mode_as_str a) = Ok a"
  by ((cases m; simp add: run_mode_parse_def), (cases a; simp add: append_mode_parse_def))

lemma mode_not_flag [simp]:
  "run_mode_as_str m \<noteq> CHR ''-'' # s" "append_mode_as_str a \<noteq> CHR ''-'' # s" 
  by ((cases m; simp), (cases a; simp))

lemmas arg_defs = arg_path_def arg_usize_def arg_u32_def arg_u64_def optional_usize_def optional_u32_def optional_u64_def optional_path_def
  parsed_value_def required_def parse_optional_def take_value_def take_flag_def arg_run_mode_def arg_fence_mode_def arg_append_mode_def
  parser_new_def finish_def vec_remove_def unwrap_or_def Let_def

definition producer_args_of :: "RunArgs \<Rightarrow> ProducerArgs" where
  "producer_args_of args =
     \<lparr>pa_shm = ra_shm args, pa_cap = ra_cap args, pa_sources = ra_sources args, pa_per_source = ra_per_source args,
      pa_fence_mode = ra_fence_mode args, pa_append_mode = ra_append_mode args\<rparr>"

definition consumer_args_of :: "RunArgs \<Rightarrow> ConsumerArgs" where
  "consumer_args_of args =
     \<lparr>ca_mode = ra_mode args, ca_shm = ra_shm args, ca_done = done_path (ra_shm args),
      ca_out = observed_path (done_path (ra_shm args)), ca_sources = ra_sources args, ca_per_source = ra_per_source args,
      ca_poll_sleep_us = ra_poll_sleep_us args, ca_recheck_stall_us = ra_recheck_stall_us args,
      ca_timeout_ms = ra_timeout_ms args, ca_fence_mode = ra_fence_mode args, ca_append_mode = ra_append_mode args\<rparr>"

lemma producer_arguments_parse:
  assumes "run_args_ok args"
  shows "producer_args_parse (tl (producer_arguments args)) = Ok (producer_args_of args)"
  using assms
  by (cases "ra_fence_mode args")
     (simp_all add: run_args_ok_def flag_names_def producer_arguments_def producer_args_parse_def arg_defs producer_args_of_def)

lemma consumer_arguments_parse:
  assumes "run_args_ok args"
  shows "consumer_args_parse (tl (consumer_arguments args)) = Ok (consumer_args_of args)"
proof -
  define d o' where "d = done_path (ra_shm args)" and "o' = observed_path (done_path (ra_shm args))"
  have "d \<notin> set flag_names" "o' \<notin> set flag_names"
    unfolding d_def o'_def by (rule dotted_not_flag, simp add: done_path_def observed_path_def)+
  with assms show ?thesis
    unfolding d_def [symmetric] o'_def [symmetric] consumer_arguments_def consumer_args_of_def Let_def
    by (cases "ra_fence_mode args") (simp_all add: run_args_ok_def flag_names_def consumer_args_parse_def arg_defs)
qed

section \<open>Properties\<close>

text \<open>C26. The children get the arguments of the run.  The two command lines that \<open>run\<close> builds are parsed by the harness
  itself into the producer and the consumer command with the values of the run, for every number in range and
  every path that is not itself the name of an argument.\<close>

theorem children_parse_arguments:
  assumes "run_args_ok args"
  shows "parse_command pid (producer_arguments args) = Ok (ProducerCommand (producer_args_of args))
     \<and> parse_command pid (consumer_arguments args) = Ok (ConsumerCommand (consumer_args_of args))"
  using producer_arguments_parse [OF assms] consumer_arguments_parse [OF assms]
  by (simp add: parse_command_def producer_arguments_def consumer_arguments_def Let_def)

theorem children_parse_arguments_witness:
  "\<exists>args. run_args_parse 7 [''--unfenced'', ''--mode'', ''litmus'', ''--cap'', ''600''] = Ok args \<and> ra_cap args = 600
     \<and> parse_command 7 (producer_arguments args) = Ok (ProducerCommand (producer_args_of args))"
proof -
  let ?l = "[''--unfenced'', ''--mode'', ''litmus'', ''--cap'', ''600'']"
  have "parse_unsigned u64_limit ''600'' = Some 600"
    by (simp add: parse_unsigned_def digit_value_def u64_limit_def)
  then obtain args where args: "run_args_parse 7 ?l = Ok args" "ra_cap args = 600" "ra_shm args = default_shm_path 7" "ra_sources args = 1"
    "ra_per_source args = 200000" "ra_poll_sleep_us args = 100" "ra_recheck_stall_us args = 0" "ra_timeout_ms args = 30000"
    by (simp add: run_args_parse_def arg_defs run_mode_parse_def LITMUS_SOURCES_def LITMUS_PER_SOURCE_def
        DEFAULT_POLL_SLEEP_US_def DEFAULT_TIMEOUT_MS_def)
  then have "run_args_ok args" by (simp add: run_args_ok_def flag_names_def default_shm_path_def u64_limit_def)
  from children_parse_arguments [OF this, of 7] args show ?thesis by blast
qed

text \<open>A path that spells the name of an argument is not passed on: the consumer of a run on the mapping \<open>--done\<close>
  opens another file.\<close>

theorem flag_named_path_misparsed:
  "consumer_args_parse (tl (consumer_arguments (args\<lparr>ra_shm := ''--done'', ra_mode := Smoke, ra_sources := 1, ra_per_source := 1,
       ra_poll_sleep_us := 0, ra_recheck_stall_us := 0, ra_timeout_ms := 0, ra_fence_mode := Fenced\<rparr>)))
     = Ok \<lparr>ca_mode = Smoke, ca_shm = ''--done.done'', ca_done = ''--done'', ca_out = ''--done.done.observed'', ca_sources = 1,
         ca_per_source = 1, ca_poll_sleep_us = 0, ca_recheck_stall_us = 0, ca_timeout_ms = 0, ca_fence_mode = Fenced,
         ca_append_mode = ra_append_mode args\<rparr>"
  by (simp add: consumer_arguments_def consumer_args_parse_def arg_defs done_path_def observed_path_def u64_limit_def run_mode_parse_def)

end
