(* ===== verification/Harness.thy ===== *)
theory Harness
  imports Arguments Report Seqlock
begin

text \<open>
  The commands of \<open>crates/live-harness/src/main.rs\<close>.  A producer process stamps every record with the position it will
  get and publishes it on the shared mapping; a consumer process polls, checks the stamps and accounts for losses until
  the producer is done; \<open>run\<close> starts both, reads the consumer's report and judges it.  What the operating system decides
  is an argument: the content of an opened file, whether the done file exists and whether the deadline has passed at
  a moment of the consumer (the number of its loads so far), the exit status of a child.  The consumer's loop may run
  for ever, so it is a partial function whose value \<open>None\<close> means that it does not return.
\<close>

section \<open>Errors and arithmetic\<close>

datatype HarnessError =
    HarnessIo io_error
  | HarnessArg ArgError
  | HarnessMessage string
  | HarnessRing string RingError
  | HarnessWire string WireError
  | HarnessConformance ConformanceError

definition u64_mul :: "nat \<Rightarrow> nat \<Rightarrow> (nat, 'e) outcome" where
  "u64_mul a b = (if a * b < u64_limit then Ok (a * b) else Panic ArithmeticOverflow)"

section \<open>Records\<close>

definition RUN_ID :: u64 where "RUN_ID = 1"

definition source_ids :: "nat \<Rightarrow> nat list" where
  "source_ids count = [1 ..< count + 1]"

fun expected_sources_of :: "nat list \<Rightarrow> nat \<Rightarrow> (ExpectedSource list, 'e) outcome" where
  "expected_sources_of [] per_source = Ok []"
| "expected_sources_of (source_id # ids) per_source =
     and_then (u64_add per_source 1) (\<lambda>total.
     and_then (expected_sources_of ids per_source) (\<lambda>rest.
       Ok (\<lparr>xs_run_id = RUN_ID, xs_source_id = of_nat source_id, xs_expected_total = total\<rparr> # rest)))"

definition expected_sources :: "nat \<Rightarrow> nat \<Rightarrow> (ExpectedSource list, 'e) outcome" where
  "expected_sources count per_source = expected_sources_of (source_ids count) per_source"

definition message_record :: "nat \<Rightarrow> nat \<Rightarrow> (Record, 'e) outcome" where
  "message_record source_id seq =
     and_then (u64_add 1780000000000000000 seq) (\<lambda>source_time.
       Ok (record_new (of_nat source_time) RUN_ID (of_nat seq) (of_nat source_id) EVENT_MESSAGE))"

definition source_high_water_record :: "nat \<Rightarrow> nat \<Rightarrow> (Record, 'e) outcome" where
  "source_high_water_record source_id produced_count =
     and_then (u64_add 1780000000000000000 produced_count) (\<lambda>source_time.
       let r = record_new (of_nat source_time) RUN_ID (of_nat produced_count) (of_nat source_id) EVENT_SOURCE_HIGH_WATER
       in Ok (r\<lparr>rec_slots := rec_slots r @ [slot_new KEY_SOURCE_HIGH_WATER TY_ULINT (u64_to_le_bytes (of_nat produced_count))]\<rparr>))"

definition record_with_expected_abs :: "SharedRecordPublisher \<Rightarrow> Record \<Rightarrow> (Record, HarnessError) outcome" where
  "record_with_expected_abs producer r =
     (let slots = rec_slots r
      in and_then (map_err (HarnessWire ''placeholder encode failed'')
             (encode (r\<lparr>rec_slots := slots @ [expected_abs_slot 0]\<rparr>) True)) (\<lambda>encoded.
         and_then (next_start_abs (ss_capacity (sp_store producer)) (sp_producer producer) (length encoded)) (\<lambda>expected_abs.
           Ok (r\<lparr>rec_slots := slots @ [(expected_abs_slot 0)\<lparr>slot_payload := u64_to_le_bytes (of_nat expected_abs)\<rparr>]\<rparr>))))"

definition message_record_with_expected_abs :: "SharedRecordPublisher \<Rightarrow> nat \<Rightarrow> nat \<Rightarrow> (Record, HarnessError) outcome" where
  "message_record_with_expected_abs producer source_id seq =
     and_then (message_record source_id seq) (record_with_expected_abs producer)"

definition source_high_water_record_with_expected_abs ::
  "SharedRecordPublisher \<Rightarrow> nat \<Rightarrow> nat \<Rightarrow> (Record, HarnessError) outcome" where
  "source_high_water_record_with_expected_abs producer source_id produced_count =
     and_then (source_high_water_record source_id produced_count) (record_with_expected_abs producer)"

section \<open>The producer\<close>

definition harness_publish ::
  "SharedRecordPublisher \<Rightarrow> AppendMode \<Rightarrow> Record \<Rightarrow> string \<Rightarrow> (SharedRecordPublisher \<times> byte_vec list, HarnessError) outcome" where
  "harness_publish producer append_mode r context =
     (case append_mode of
        WriteRecord \<Rightarrow> map_err (HarnessRing (context @ '' failed'')) (append_record producer r)
      | Encoded \<Rightarrow>
          and_then (map_err (HarnessWire (context @ '' encode failed'')) (encode r True)) (\<lambda>encoded.
            map_err (HarnessRing (context @ '' encoded append failed'')) (publisher_append_encoded producer encoded)))"

type_synonym publication = "SharedRecordPublisher \<times> byte_vec list"

fun publish_sources ::
  "(SharedRecordPublisher \<Rightarrow> nat \<Rightarrow> (Record, HarnessError) outcome) \<Rightarrow> AppendMode \<Rightarrow> string \<Rightarrow> nat list \<Rightarrow> publication
     \<Rightarrow> (publication, HarnessError) outcome" where
  "publish_sources build append_mode context [] st = Ok st"
| "publish_sources build append_mode context (source_id # ids) st =
     (case st of (producer, regions) \<Rightarrow>
       and_then (build producer source_id) (\<lambda>r.
       and_then (harness_publish producer append_mode r context) (\<lambda>(producer, new).
         publish_sources build append_mode context ids (producer, regions @ new))))"

fun publish_rounds :: "AppendMode \<Rightarrow> nat list \<Rightarrow> nat list \<Rightarrow> publication \<Rightarrow> (publication, HarnessError) outcome" where
  "publish_rounds append_mode ids [] st = Ok st"
| "publish_rounds append_mode ids (seq # seqs) st =
     and_then (publish_sources (\<lambda>producer source_id. message_record_with_expected_abs producer source_id seq)
         append_mode ''producer write'' ids st)
       (publish_rounds append_mode ids seqs)"

definition producer_store ::
  "bool \<Rightarrow> (byte_vec, io_error) outcome \<Rightarrow> (nat \<Rightarrow> (byte_vec, io_error) outcome) \<Rightarrow> ProducerArgs
     \<Rightarrow> (SharedConcurrentStore, HarnessError) outcome" where
  "producer_store shm_exists opened map_file args =
     (if shm_exists then
        and_then (map_err HarnessIo (open_existing_with_mode opened (pa_fence_mode args))) (\<lambda>store.
          if ss_capacity store \<noteq> pa_cap args
          then Err (HarnessMessage (''existing shared mapping has cap '' @ decimal (ss_capacity store) @ '', producer requested '' @ decimal (pa_cap args)))
          else Ok store)
      else map_err HarnessIo (create_with_mode map_file (pa_cap args) (pa_fence_mode args)))"

definition producer_summary :: "ProducerArgs \<Rightarrow> byte_vec \<Rightarrow> (string, 'e) outcome" where
  "producer_summary args region =
     and_then (u64_mul (pa_sources args) (pa_per_source args)) (\<lambda>data_total.
     and_then (u64_add (pa_per_source args) 1) (\<lambda>per_stream.
     and_then (u64_mul (pa_sources args) per_stream) (\<lambda>stream_total.
     and_then (snd (shared_load_head (\<lambda>_. region) 0)) (\<lambda>head_abs.
     and_then (snd (shared_load_lost (\<lambda>_. region) 0)) (\<lambda>lost_count.
       Ok (''producer: fence='' @ fence_as_str (pa_fence_mode args) @ '' append_mode='' @ append_mode_as_str (pa_append_mode args)
         @ '' sources='' @ decimal (pa_sources args) @ '' per_source='' @ decimal (pa_per_source args)
         @ '' data_total='' @ decimal data_total @ '' stream_total='' @ decimal stream_total
         @ '' head_abs='' @ decimal head_abs @ '' lost_count='' @ decimal lost_count))))))"

definition producer_cmd ::
  "bool \<Rightarrow> (byte_vec, io_error) outcome \<Rightarrow> (nat \<Rightarrow> (byte_vec, io_error) outcome) \<Rightarrow> (unit, io_error) outcome \<Rightarrow> ProducerArgs
     \<Rightarrow> (publication \<times> string, HarnessError) outcome" where
  "producer_cmd shm_exists opened map_file done_written args =
     and_then (producer_store shm_exists opened map_file args) (\<lambda>store.
     and_then (publish_rounds (pa_append_mode args) (source_ids (pa_sources args)) [0 ..< pa_per_source args]
         (publisher_with_store store, [ss_region store])) (\<lambda>st.
     and_then (publish_sources (\<lambda>producer source_id. source_high_water_record_with_expected_abs producer source_id (pa_per_source args))
         (pa_append_mode args) ''producer high-water write'' (source_ids (pa_sources args)) st) (\<lambda>(producer, regions).
     and_then (map_err HarnessIo done_written) (\<lambda>_.
     and_then (producer_summary args (ss_region (sp_store producer))) (\<lambda>line.
       Ok ((producer, regions), line))))))"

section \<open>The consumer\<close>

record ConsumerState =
  cs_raw :: ConcurrentRawConsumer
  cs_accounting :: LossAccountingConsumer
  cs_observer :: "unit BatchObserver"

definition consumer_start :: ConsumerState where
  "consumer_start = \<lparr>cs_raw = consumer_with_store, cs_accounting = lac_new, cs_observer = observer_new ()\<rparr>"

definition load_err :: "('e \<Rightarrow> 'f) \<Rightarrow> nat \<times> ('a, 'e) outcome \<Rightarrow> nat \<times> ('a, 'f) outcome" where
  "load_err g x = (fst x, map_err g (snd x))"

definition caught_up :: "mapped \<Rightarrow> (nat \<Rightarrow> bool) \<Rightarrow> ConcurrentRawConsumer \<Rightarrow> nat \<Rightarrow> nat \<times> (bool, 'e) outcome" where
  "caught_up smem done_exists raw k =
     (if done_exists k then load_then (shared_load_head smem k) (\<lambda>k head_abs. (k, Ok (cc_cursor_abs raw = head_abs)))
      else (k, Ok False))"

definition consumer_iteration ::
  "mapped \<Rightarrow> nat \<Rightarrow> (nat \<Rightarrow> bool) \<Rightarrow> (nat \<Rightarrow> bool) \<Rightarrow> ConsumerState \<Rightarrow> nat \<Rightarrow> nat \<times> (ConsumerState \<times> bool, HarnessError) outcome" where
  "consumer_iteration smem cap done_exists expired st k =
     load_then (load_err (HarnessRing ''consumer poll failed'') (shared_poll smem cap (cs_raw st) k)) (\<lambda>k (raw, batch).
     case observe_batch embedded_observe (cs_observer st) batch of (observer, observed) \<Rightarrow>
     load_then (k, map_err HarnessConformance observed) (\<lambda>k _.
     load_then (k, lac_account_batch (cs_accounting st) batch) (\<lambda>k accounting.
     let st = \<lparr>cs_raw = raw, cs_accounting = accounting, cs_observer = observer\<rparr> in
     load_then (caught_up smem done_exists raw k) (\<lambda>k finished.
       if finished then (k, Ok (st, True))
       else if expired k then (k, Err (HarnessMessage ''consumer timed out before producer completion''))
       else (k, Ok (st, False))))))"

partial_function (option) consumer_loop ::
  "mapped \<Rightarrow> nat \<Rightarrow> (nat \<Rightarrow> bool) \<Rightarrow> (nat \<Rightarrow> bool) \<Rightarrow> ConsumerState \<Rightarrow> nat \<Rightarrow> (nat \<times> (ConsumerState, HarnessError) outcome) option" where
  "consumer_loop smem cap done_exists expired st k =
     (case consumer_iteration smem cap done_exists expired st k of
        (k, Ok (st, finished)) \<Rightarrow> if finished then Some (k, Ok st) else consumer_loop smem cap done_exists expired st k
      | (k, Err e) \<Rightarrow> Some (k, Err e)
      | (k, Panic q) \<Rightarrow> Some (k, Panic q))"

definition consumer_report :: "mapped \<Rightarrow> nat \<Rightarrow> ConsumerArgs \<Rightarrow> ConsumerState \<Rightarrow> nat \<Rightarrow> nat \<times> (ObservedReport, HarnessError) outcome" where
  "consumer_report smem cap args st k =
     load_then (k, expected_sources (ca_sources args) (ca_per_source args)) (\<lambda>k expected.
       load_err (HarnessRing ''report'') (from_consumer (\<lambda>k. ring_view cap (smem k)) cap
         \<lparr>ri_metadata = \<lparr>md_mode = run_mode_as_str (ca_mode args), md_append_mode = append_mode_as_str (ca_append_mode args),
                          md_fence_mode = ca_fence_mode args\<rparr>,
          ri_expected_sources = expected, ri_raw = cs_raw st, ri_accounting = cs_accounting st, ri_poll_errors = 0,
          ri_stale_violations = bo_violations (cs_observer st)\<rparr> k))"

definition consumer_cmd ::
  "(byte_vec, io_error) outcome \<Rightarrow> mapped \<Rightarrow> (nat \<Rightarrow> bool) \<Rightarrow> (nat \<Rightarrow> bool) \<Rightarrow> (unit, io_error) outcome \<Rightarrow> ConsumerArgs
     \<Rightarrow> (ObservedReport \<times> string, HarnessError) outcome option" where
  "consumer_cmd opened smem done_exists expired written args =
     (case map_err HarnessIo (open_existing_with_mode opened (ca_fence_mode args)) of
        Ok store \<Rightarrow>
          let store = with_recheck_stall store (ca_recheck_stall_us args); cap = ss_capacity store
          in map_option (\<lambda>(k, r).
               snd (load_then (k, r) (\<lambda>k st.
                    load_then (consumer_report smem cap args st k) (\<lambda>k observed.
                    load_then (k, map_err HarnessIo written) (\<lambda>k _.
                      (k, Ok (observed, report_summary_line observed)))))))
             (consumer_loop smem cap done_exists expired consumer_start 0)
      | Err e \<Rightarrow> Some (Err e)
      | Panic q \<Rightarrow> Some (Panic q))"

section \<open>Judging a run\<close>

fun assert_expected_sources ::
  "FenceMode \<Rightarrow> (u32 \<rightharpoonup> SourceObserved) \<Rightarrow> ExpectedSource list \<Rightarrow> (unit, HarnessError) outcome" where
  "assert_expected_sources fence_mode observed_by_source [] = Ok ()"
| "assert_expected_sources fence_mode observed_by_source (expected # es) =
     (case observed_by_source (xs_source_id expected) of
        None \<Rightarrow> Err (HarnessMessage (''missing observed source '' @ decimal (unat (xs_source_id expected))))
      | Some source \<Rightarrow>
          if os_expected_total source \<noteq> xs_expected_total expected
          then Err (HarnessMessage (''source '' @ decimal (unat (xs_source_id expected)) @ '' expected-total mismatch: run=''
                 @ decimal (xs_expected_total expected) @ '' observed='' @ decimal (os_expected_total source)))
          else and_then (if fence_mode = Fenced
                 then and_then (u64_add (os_delivered source) (os_lost source)) (\<lambda>n. Ok (n \<noteq> xs_expected_total expected))
                 else Ok False) (\<lambda>failed.
            if failed
            then Err (HarnessMessage (''source '' @ decimal (unat (xs_source_id expected)) @ '' in-band reconciliation failed: delivered=''
                   @ decimal (os_delivered source) @ '' lost='' @ decimal (os_lost source)
                   @ '' expected_total='' @ decimal (xs_expected_total expected)))
            else assert_expected_sources fence_mode observed_by_source es))"

definition assert_run_result ::
  "FenceMode \<Rightarrow> nat \<Rightarrow> nat \<Rightarrow> nat \<Rightarrow> ObservedReport \<Rightarrow> (unit, HarnessError) outcome" where
  "assert_run_result fence_mode cap sources per_source observed =
     (if rp_delivered_total observed = 0 then Err (HarnessMessage ''consumer made no progress'')
      else and_then (u64_mul cap 100) (\<lambda>min_head.
      if rp_head_abs observed \<le> min_head
      then Err (HarnessMessage (''insufficient absolute progress: head_abs='' @ decimal (rp_head_abs observed) @ '' cap='' @ decimal cap))
      else if rp_lost_count observed = 0 then Err (HarnessMessage ''producer did not report ring evictions'')
      else and_then (u64_add per_source 1) (\<lambda>per_stream.
           and_then (u64_mul sources per_stream) (\<lambda>expected_total.
           and_then (if fence_mode = Fenced
               then and_then (u64_add (rp_delivered_total observed) (rp_lost_total observed)) (\<lambda>n. Ok (n < expected_total))
               else Ok False) (\<lambda>short.
           if short
           then Err (HarnessMessage (''consumer did not reconcile the full in-band stream: delivered='' @ decimal (rp_delivered_total observed)
                  @ '' lost='' @ decimal (rp_lost_total observed) @ '' expected_total='' @ decimal expected_total))
           else if fence_mode = Fenced \<and> rp_stale_violations observed \<noteq> []
           then Err (HarnessMessage (''fenced run accepted stale records: '' @ decimal (length (rp_stale_violations observed))))
           else and_then (expected_sources sources per_source)
                  (assert_expected_sources fence_mode (map_of (rev (map (\<lambda>s. (os_source_id s, s)) (rp_sources observed))))))))))"

section \<open>A run\<close>

datatype ExitStatus = ExitSuccess | ExitFailure string

record RunEnvironment =
  env_map_file :: "nat \<Rightarrow> (byte_vec, io_error) outcome"
  env_current_exe :: "(string, io_error) outcome"
  env_can_use_taskset :: bool
  env_spawn :: "string list \<Rightarrow> (unit, io_error) outcome"
  env_wait :: "string list \<Rightarrow> (ExitStatus, io_error) outcome"
  env_read :: "string \<Rightarrow> (string, io_error) outcome"
  env_elapsed_ms :: nat

definition run_line :: "nat option \<Rightarrow> RunArgs \<Rightarrow> nat \<Rightarrow> bool \<Rightarrow> ObservedReport \<Rightarrow> string" where
  "run_line iteration args elapsed_ms pinning observed =
     (case iteration of Some i \<Rightarrow> ''run: iteration='' @ decimal i @ '' mode='' | None \<Rightarrow> ''run: mode='')
     @ run_mode_as_str (ra_mode args) @ '' fence='' @ fence_as_str (ra_fence_mode args)
     @ '' append_mode='' @ append_mode_as_str (ra_append_mode args) @ '' elapsed_ms='' @ decimal elapsed_ms
     @ '' pinned='' @ bool_text pinning @ '' stale_violations='' @ decimal (length (rp_stale_violations observed))"

fun run_source_lines :: "SourceObserved list \<Rightarrow> (string list, 'e) outcome" where
  "run_source_lines [] = Ok []"
| "run_source_lines (source # ss) =
     and_then (u64_add (os_delivered source) (os_lost source)) (\<lambda>reconciled.
     and_then (run_source_lines ss) (\<lambda>lines.
       Ok ((''source '' @ decimal (unat (os_source_id source)) @ '': expected_total='' @ decimal (os_expected_total source)
         @ '' delivered='' @ decimal (os_delivered source) @ '' lost='' @ decimal (os_lost source)
         @ '' reconciled='' @ decimal reconciled) # lines)))"

definition run_stale_line :: "StaleViolation \<Rightarrow> string" where
  "run_stale_line stale =
     ''stale: kind='' @ violation_as_str (sv_kind stale) @ '' source='' @ decimal (unat (sv_source_id stale))
     @ '' seq='' @ decimal (unat (sv_seq stale)) @ '' expected_abs='' @ decimal (sv_expected_abs stale)
     @ '' actual_abs='' @ decimal (sv_actual_abs stale) @ '' crc_passed='' @ bool_text (sv_crc_passed stale)"

text \<open>A run with what it prints.  The files that \<open>run_once\<close> removes first, so that the children meet none left over from an
  earlier run, and the consumer it kills when the producer fails, are the environment's.\<close>

definition run_once :: "RunEnvironment \<Rightarrow> nat option \<Rightarrow> RunArgs \<Rightarrow> (ObservedReport \<times> string list, HarnessError) outcome" where
  "run_once env iteration args =
     and_then (map_err HarnessIo (create_with_mode (env_map_file env) (ra_cap args) (ra_fence_mode args))) (\<lambda>_.
     and_then (map_err HarnessIo (env_current_exe env)) (\<lambda>exe.
     let pinning = (ra_mode args = Litmus \<and> env_can_use_taskset env);
         consumer = command_for exe (if pinning then Some 1 else None) @ consumer_arguments args;
         producer = command_for exe (if pinning then Some 0 else None) @ producer_arguments args in
     and_then (map_err HarnessIo (env_spawn env consumer)) (\<lambda>_.
     and_then (map_err HarnessIo (env_spawn env producer)) (\<lambda>_.
     and_then (map_err HarnessIo (env_wait env producer)) (\<lambda>producer_status.
     case producer_status of
       ExitFailure status \<Rightarrow> Err (HarnessMessage (''producer failed with '' @ status))
     | ExitSuccess \<Rightarrow>
     and_then (map_err HarnessIo (env_wait env consumer)) (\<lambda>consumer_status.
     case consumer_status of
       ExitFailure status \<Rightarrow> Err (HarnessMessage (''consumer failed with '' @ status))
     | ExitSuccess \<Rightarrow>
     and_then (map_err HarnessIo (env_read env (observed_path (done_path (ra_shm args))))) (\<lambda>content.
     and_then (map_err HarnessConformance (report_read content)) (\<lambda>observed.
     and_then (assert_run_result (ra_fence_mode args) (ra_cap args) (ra_sources args) (ra_per_source args) observed) (\<lambda>_.
     and_then (run_source_lines (rp_sources observed)) (\<lambda>source_lines.
       Ok (observed, run_line iteration args (env_elapsed_ms env) pinning observed # report_summary_line observed # source_lines
           @ map run_stale_line (rp_stale_violations observed))))))))))))"

record UnfencedStressSummary =
  us_hazard_iterations :: nat
  us_stale_violations :: nat
  us_rejected_records :: nat
  us_poll_errors :: nat
  us_overwritten_retries :: nat
  us_lapped_batches :: nat
  us_delivered_total :: nat
  us_lost_total :: nat
  us_lost_count :: nat

definition stress_default :: UnfencedStressSummary where
  "stress_default =
     \<lparr>us_hazard_iterations = 0, us_stale_violations = 0, us_rejected_records = 0, us_poll_errors = 0, us_overwritten_retries = 0,
      us_lapped_batches = 0, us_delivered_total = 0, us_lost_total = 0, us_lost_count = 0\<rparr>"

definition stress_observe :: "UnfencedStressSummary \<Rightarrow> UnfencedEvidence \<Rightarrow> (UnfencedStressSummary, 'e) outcome" where
  "stress_observe s evidence =
     and_then (if ue_hazard_observed evidence then u64_add (us_hazard_iterations s) 1 else Ok (us_hazard_iterations s)) (\<lambda>hazards.
     and_then (u64_add (us_stale_violations s) (ue_stale_violations evidence)) (\<lambda>stale.
     and_then (u64_add (us_rejected_records s) (ue_rejected_records evidence)) (\<lambda>rejected.
     and_then (u64_add (us_poll_errors s) (ue_poll_errors evidence)) (\<lambda>errors.
     and_then (u64_add (us_overwritten_retries s) (ue_overwritten_retries evidence)) (\<lambda>retries.
     and_then (u64_add (us_lapped_batches s) (ue_lapped_batches evidence)) (\<lambda>lapped.
     and_then (u64_add (us_delivered_total s) (ue_delivered_total evidence)) (\<lambda>del.
     and_then (u64_add (us_lost_total s) (ue_lost_total evidence)) (\<lambda>lost.
     and_then (u64_add (us_lost_count s) (ue_lost_count evidence)) (\<lambda>count.
       Ok \<lparr>us_hazard_iterations = hazards, us_stale_violations = stale, us_rejected_records = rejected, us_poll_errors = errors,
           us_overwritten_retries = retries, us_lapped_batches = lapped, us_delivered_total = del, us_lost_total = lost,
           us_lost_count = count\<rparr>)))))))))"

definition stress_hazard_observed :: "UnfencedStressSummary \<Rightarrow> bool" where
  "stress_hazard_observed s = (us_hazard_iterations s > 0)"

definition stress_summary_line :: "UnfencedStressSummary \<Rightarrow> nat \<Rightarrow> string" where
  "stress_summary_line s iterations =
     (let outcome = (if stress_hazard_observed s then ''hazard-observed'' else ''non-reproduction'')
      in ''unfenced_stress: outcome='' @ outcome @ '' iterations='' @ decimal iterations
       @ '' hazard_iterations='' @ decimal (us_hazard_iterations s) @ '' stale='' @ decimal (us_stale_violations s)
       @ '' rejected='' @ decimal (us_rejected_records s) @ '' poll_errors='' @ decimal (us_poll_errors s)
       @ '' retries='' @ decimal (us_overwritten_retries s) @ '' lapped='' @ decimal (us_lapped_batches s)
       @ '' delivered='' @ decimal (us_delivered_total s) @ '' lost='' @ decimal (us_lost_total s)
       @ '' lost_count='' @ decimal (us_lost_count s))"

text \<open>The environment of iteration \<open>i\<close> is \<open>env i\<close>.\<close>

fun stress_loop ::
  "(nat \<Rightarrow> RunEnvironment) \<Rightarrow> RunArgs \<Rightarrow> nat list \<Rightarrow> UnfencedStressSummary
     \<Rightarrow> (UnfencedStressSummary \<times> string list, HarnessError) outcome" where
  "stress_loop env args [] stress = Ok (stress, [])"
| "stress_loop env args (iteration # is) stress =
     and_then (run_once (env iteration) (Some iteration) args) (\<lambda>(observed, lines).
     let evidence = unfenced_evidence observed in
     and_then (stress_observe stress evidence) (\<lambda>stress.
     and_then (stress_loop env args is stress) (\<lambda>(stress, more).
       Ok (stress, lines @ (''stress iteration '' @ decimal iteration @ '': '' @ evidence_summary_line evidence) # more))))"

definition run_stress_cmd :: "(nat \<Rightarrow> RunEnvironment) \<Rightarrow> RunArgs \<Rightarrow> (string list, HarnessError) outcome" where
  "run_stress_cmd env args =
     and_then (stress_loop env args [1 ..< ra_iterations args + 1] stress_default) (\<lambda>(stress, lines).
       Ok (lines @ stress_summary_line stress (ra_iterations args)
           # (if \<not> stress_hazard_observed stress then [''unfenced: '' @ non_reproduction_note] else [])))"

definition unfenced_non_reproduction_note :: "RunArgs \<Rightarrow> ObservedReport \<Rightarrow> string list" where
  "unfenced_non_reproduction_note args observed =
     (if ra_fence_mode args = Unfenced \<and> rp_stale_violations observed = [] \<and> \<not> ue_hazard_observed (unfenced_evidence observed)
      then [''unfenced: '' @ non_reproduction_note] else [])"

definition run_cmd :: "(nat \<Rightarrow> RunEnvironment) \<Rightarrow> RunArgs \<Rightarrow> (string list, HarnessError) outcome" where
  "run_cmd env args =
     (if ra_iterations args = 0 then Err (HarnessMessage ''--iterations must be greater than zero'')
      else if ra_iterations args > 1 \<and> ra_fence_mode args \<noteq> Unfenced
      then Err (HarnessMessage ''--iterations > 1 is an unfenced diagnostic stress mode; pass --unfenced'')
      else if ra_iterations args > 1 then run_stress_cmd env args
      else and_then (run_once (env 1) None args) (\<lambda>(observed, lines). Ok (lines @ unfenced_non_reproduction_note args observed)))"

end
