(* ===== verification/Live_Producer.thy ===== *)
theory Live_Producer
  imports Harness
begin

text \<open>
  What the producer command of the harness leaves on the mapping: the stream of stamped records in the order of its
  loops, each at the position it carries, the loss counter of the control block, and the two facts about the stream
  the consumer's accounting needs, that every source's sequence numbers ascend and that its last record lies near the head.
\<close>

section \<open>The loss counter of a mapping\<close>

fun added_loss :: "shared_op \<Rightarrow> nat" where
  "added_loss (RingStore (AddLost n)) = n"
| "added_loss _ = 0"

lemma lost_word_step:
  assumes "length region = 128 + cap" "shared_perform cap op region = (Ok region' :: (_, 'e) outcome)"
  shows "length region' = 128 + cap \<and> u64_at region' OFF_LOST_COUNT = u64_at region OFF_LOST_COUNT + of_nat (added_loss op)"
proof (cases "(cap, op, region)" rule: shared_perform.cases)
  case (1 cap region)
  then show ?thesis using assms by (auto simp: begin_control_update_def region_simps Let_def split: if_splits)
next
  case (6 cap region)
  then show ?thesis using assms by (auto simp: end_control_update_release_def region_simps Let_def split: if_splits)
qed (use assms in \<open>auto simp: shared_store_byte_def shared_store_head_def shared_store_oldest_def shared_fetch_add_lost_def
    region_simps outcome_simps split: if_splits\<close>)

lemma lost_word_all:
  assumes "length region = 128 + cap" "shared_perform_all cap ops region = (Ok Rs :: (_, 'e) outcome)"
  shows "u64_at (last (region # Rs)) OFF_LOST_COUNT = u64_at region OFF_LOST_COUNT + of_nat (sum_list (map added_loss ops))"
  using assms
proof (induction ops arbitrary: region Rs)
  case (Cons op ops)
  from Cons.prems(2) obtain region' Rs' where s: "shared_perform cap op region = (Ok region' :: (_, 'e) outcome)"
    "shared_perform_all cap ops region' = (Ok Rs' :: (_, 'e) outcome)" "Rs = region' # Rs'" by (auto simp: outcome_simps)
  from lost_word_step [OF Cons.prems(1) s(1)] Cons.IH [OF _ s(2)] s(3) show ?case by (simp add: add.assoc)
qed simp

lemma pop_spans_count: "pop_spans f spans n = (Ok (spans', n') :: (_, 'e) outcome) \<Longrightarrow> n' + length spans' = n + length spans"
  by (induction spans arbitrary: n) (auto simp: outcome_simps split: if_splits)

lemma append_bytes_core_loss:
  assumes "append_bytes_core cap p bytes = (Ok (p', ops) :: (_, 'e) outcome)"
  shows "sum_list (map added_loss (bracketed ops)) + length (cp_spans p') = length (cp_spans p) + 1"
  using assms
  by (auto simp: append_bytes_core_def spans_evict_before_clobber_def bracketed_def Let_def outcome_simps comp_def enumerate_eq_zip
      sum_list_0 case_prod_beta elim!: and_thenE dest!: pop_spans_count split: if_splits)

lemma shared_last:
  assumes "shared_produced cap p R es"
  shows "R \<noteq> []" "length (last R) = 128 + cap" "0 < cap" "cr_head_abs (ring_view cap (last R)) = cp_head_abs p"
    "even (u32_at (last R) OFF_SEQ_LOCK)"
proof -
  from shared_produced_inv [OF assms] obtain S where S: "R = map snd S" "shared_inv cap p S es" by blast
  then have pi: "producer_inv cap p (map (ring_view cap \<circ> snd) S) es" and ne: "S \<noteq> []" by (auto simp: shared_inv_def producer_inv_def)
  have ok: "mapped_ok cap (last S)" "fst (last S) = 2 * length es" using S(2) last_in_set [OF ne] by (simp_all add: shared_inv_def list_all_iff)
  show "R \<noteq> []" using S ne by simp
  show "0 < cap" using pi by (simp add: producer_inv_def)
  show "length (last R) = 128 + cap" using ok S(1) ne by (simp add: mapped_ok_def last_map)
  show "even (u32_at (last R) OFF_SEQ_LOCK)" using ok S(1) ne by (simp add: mapped_ok_def last_map)
  show "cr_head_abs (ring_view cap (last R)) = cp_head_abs p" using pi S(1) ne by (simp add: producer_inv_def last_map)
qed

lemma shared_loss_step:
  assumes pr: "shared_produced cap p R es" and core: "append_bytes_core cap p bytes = (Ok (p', ops) :: (_, 'e) outcome)"
    and perf: "shared_perform_all cap (bracketed ops) (last R) = (Ok Rs :: (_, 'f) outcome)"
    and IH: "u64_at (last R) OFF_LOST_COUNT + of_nat (length (cp_spans p)) = of_nat (length es)"
  shows "u64_at (last (R @ Rs)) OFF_LOST_COUNT + of_nat (length (cp_spans p')) = of_nat (length (es @ [x]))"
proof -
  note l = shared_last [OF pr]
  have "last (R @ Rs) = last (last R # Rs)" using l(1) by (cases Rs) auto
  moreover note lost_word_all [OF l(2) perf]
  moreover have "of_nat (sum_list (map added_loss (bracketed ops))) + of_nat (length (cp_spans p')) = (of_nat (length (cp_spans p)) + 1 :: u64)"
    using arg_cong [OF append_bytes_core_loss [OF core], of "of_nat :: nat \<Rightarrow> u64"] by simp
  ultimately show ?thesis using IH [symmetric] by (simp add: add.assoc)
qed

lemma shared_loss_counted:
  "shared_produced cap p R es \<Longrightarrow> u64_at (last R) OFF_LOST_COUNT + of_nat (length (cp_spans p)) = of_nat (length es)"
proof (induction rule: shared_produced.induct)
  case (start mode store)
  then have cap: "0 < cap" "128 + cap < u64_limit"
    by (auto simp: create_with_mode_def validate_capacity_def mapping_len_def outcome_simps split: if_splits)
  with start created_region [of cap mode] have "ss_region store = fresh_region cap" by auto
  moreover have "take 8 (drop 40 (fresh_region cap)) = replicate 8 0" by (simp add: fresh_region_def)
  ultimately show ?case by (simp add: u64_at_def producer_with_store_def numeral_eq_Suc from_le_bytes_def)
next
  case (publish p R es r p' ops Rs)
  then show ?case using shared_loss_step publish_record_core by blast
next
  case (append p R es bytes p' ops d Rs)
  from append_encoded_core [OF append.hyps(2)] have "append_bytes_core cap p bytes = (Ok (p', ops) :: (_, RingError) outcome)" by blast
  from shared_loss_step [OF append.hyps(1) this append.hyps(4) append.IH] show ?case .
qed

section \<open>A publication\<close>

definition stamped :: "bool \<Rightarrow> nat \<Rightarrow> nat \<Rightarrow> nat \<Rightarrow> Record" where
  "stamped hw source_id seq a =
     (record_new (of_nat (1780000000000000000 + seq)) RUN_ID (of_nat seq) (of_nat source_id)
        (if hw then EVENT_SOURCE_HIGH_WATER else EVENT_MESSAGE))
       \<lparr>rec_slots := (if hw then [slot_new KEY_SOURCE_HIGH_WATER TY_ULINT (u64_to_le_bytes (of_nat seq))] else []) @ [expected_abs_slot a]\<rparr>"

definition stamped_len :: "bool \<Rightarrow> nat" where
  "stamped_len hw = (if hw then 68 else 56)"

lemma stamped_encodable [simp]: "encodable (stamped hw s q a) True" "record_len (stamped hw s q a) True = stamped_len hw"
  by (simp_all add: stamped_def stamped_len_def encodable_def record_len_def record_new_def slot_new_def expected_abs_slot_def
      slot_ok_def slot_bytes_def padding_len_def)

definition builder :: "bool \<Rightarrow> nat \<Rightarrow> SharedRecordPublisher \<Rightarrow> nat \<Rightarrow> (Record, HarnessError) outcome" where
  "builder hw seq producer source_id =
     (if hw then source_high_water_record_with_expected_abs producer source_id seq
      else message_record_with_expected_abs producer source_id seq)"

lemma record_with_expected_abs_ok:
  assumes "encodable (r\<lparr>rec_slots := rec_slots r @ [expected_abs_slot 0]\<rparr>) True"
    "next_start_abs (ss_capacity (sp_store pr)) (sp_producer pr) (record_len (r\<lparr>rec_slots := rec_slots r @ [expected_abs_slot 0]\<rparr>) True)
       = (Ok a :: (_, HarnessError) outcome)"
  shows "record_with_expected_abs pr r = Ok (r\<lparr>rec_slots := rec_slots r @ [expected_abs_slot a]\<rparr>)"
proof -
  have "(expected_abs_slot 0)\<lparr>slot_payload := u64_to_le_bytes (of_nat a)\<rparr> = expected_abs_slot a"
    by (simp add: expected_abs_slot_def slot_new_def)
  then show ?thesis using assms by (simp add: record_with_expected_abs_def Let_def encode_ok)
qed

lemma builder_ok:
  assumes "1780000000000000000 + seq < u64_limit"
    "next_start_abs (ss_capacity (sp_store pr)) (sp_producer pr) (stamped_len hw) = (Ok a :: (_, HarnessError) outcome)"
  shows "builder hw seq pr s = Ok (stamped hw s seq a)"
proof -
  define r where "r = (stamped hw s seq 0)\<lparr>rec_slots := butlast (rec_slots (stamped hw s seq 0))\<rparr>"
  have r: "r\<lparr>rec_slots := rec_slots r @ [expected_abs_slot a]\<rparr> = stamped hw s seq a" for a by (simp add: r_def stamped_def)
  have "record_with_expected_abs pr r = Ok (stamped hw s seq a)"
    using record_with_expected_abs_ok [of r pr a] assms(2) by (simp add: r)
  moreover have "builder hw seq pr s = record_with_expected_abs pr r"
    using assms(1) by (simp add: builder_def message_record_with_expected_abs_def message_record_def r_def stamped_def
        source_high_water_record_with_expected_abs_def source_high_water_record_def record_new_def Let_def)
  ultimately show ?thesis by simp
qed

text \<open>The producer's handle, the regions so far and the records published on them.\<close>

definition publishing :: "nat \<Rightarrow> publication \<Rightarrow> ReadRecord list \<Rightarrow> bool" where
  "publishing cap st es \<longleftrightarrow> shared_produced cap (sp_producer (fst st)) (snd st) es \<and> ss_capacity (sp_store (fst st)) = cap
     \<and> ss_region (sp_store (fst st)) = last (snd st)"

definition stamped_entry :: "nat \<Rightarrow> nat \<Rightarrow> bool \<times> nat \<times> nat \<Rightarrow> ReadRecord" where
  "stamped_entry cap h d = (case d of (hw, s, q) \<Rightarrow>
     let a = place cap h (stamped_len hw)
     in \<lparr>rr_start_abs = a, rr_end_abs = a + stamped_len hw, rr_record = normalise_flags (stamped hw s q a) True\<rparr>)"

lemma append_core_ok:
  assumes pr: "shared_produced cap p R es" and r: "length bytes \<le> cap"
    and room: "place cap (cp_head_abs p) (length bytes) + length bytes < u64_limit" and few: "length es < u64_limit"
  shows "\<exists>p' ops. append_bytes_core cap p bytes = (Ok (p', ops) :: (_, 'e) outcome)
     \<and> fst (last (cp_spans p')) = place cap (cp_head_abs p) (length bytes)
     \<and> cp_head_abs p' = place cap (cp_head_abs p) (length bytes) + length bytes"
proof -
  from shared_produced_inv [OF pr] obtain S where S: "shared_inv cap p S es" by blast
  then obtain m where sp: "cp_spans p = map span_of (retained es m)" by (auto simp: shared_inv_def producer_inv_def)
  have "length (retained es m) \<le> length es" by (simp add: retained_def)
  then have "0 + length (retained es m) < u64_limit" using few by simp
  from pop_spans_ok [OF this, where 'a = 'e] show ?thesis
    using room r by (auto simp: append_bytes_core_def spans_evict_before_clobber_def sp Let_def next_start_abs_def place_def
        store_physical_offset_def split: if_splits)
qed

lemma append_encoded_bytes:
  assumes "encodable r True" "record_len r True \<le> cap"
  shows "append_encoded cap p (record_bytes r True) = append_bytes_core cap p (record_bytes r True)"
proof -
  let ?b = "record_bytes r True"
  have len: "40 \<le> length ?b" by (simp add: record_len_def)
  have v: "validate_record ?b = Ok (record_len r True)" using validate_record_record_bytes [OF assms(1), of "[]"] by simp
  have fl: "take 2 (drop 6 ?b) = u16_to_le_bytes (encode_flags (rec_flags r) True)"
    using record_bytes_header [of r True "[]"] by (simp add: encode_header_def SYNC_def)
  have two: "take 2 (drop 6 ?b) = [?b ! 6, ?b ! 7]" using len by (simp add: numeral_2_eq_2 take_drop_Cons)
  have "read_le_u16 ?b 6 = (Ok (from_le_bytes [?b ! 6, ?b ! 7]) :: (_, RingError) outcome)"
    using len by (simp add: read_le_u16_def)
  then have "read_le_u16 ?b 6 = (Ok (encode_flags (rec_flags r) True) :: (_, RingError) outcome)"
    unfolding two [symmetric] fl by simp
  moreover have "encode_flags (rec_flags r) True AND FLAG_HAS_CRC \<noteq> 0"
    using normalised_encodable [OF assms(1)] by (simp add: has_crc_iff normalise_flags_def)
  ultimately show ?thesis using len v assms(2) by (simp add: append_encoded_def HEADER_LEN_def)
qed

lemma harness_publish_ok:
  assumes st: "publishing cap (pr, R) es" and r: "encodable r True" "record_len r True \<le> cap"
    and room: "place cap (cp_head_abs (sp_producer pr)) (record_len r True) + record_len r True < u64_limit" and few: "length es < u64_limit"
  defines "a \<equiv> place cap (cp_head_abs (sp_producer pr)) (record_len r True)"
  shows "\<exists>pr' new. harness_publish pr mode r ctx = Ok (pr', new)
     \<and> publishing cap (pr', R @ new) (es @ [\<lparr>rr_start_abs = a, rr_end_abs = a + record_len r True, rr_record = normalise_flags r True\<rparr>])
     \<and> cp_head_abs (sp_producer pr') = a + record_len r True"
proof -
  let ?p = "sp_producer pr" and ?b = "record_bytes r True"
  have prod: "shared_produced cap ?p R es" and cap: "ss_capacity (sp_store pr) = cap" "ss_region (sp_store pr) = last R"
    using st by (simp_all add: publishing_def)
  obtain p' ops where core: "append_bytes_core cap ?p ?b = (Ok (p', ops) :: (_, RingError) outcome)"
    and p': "fst (last (cp_spans p')) = a" "cp_head_abs p' = a + record_len r True"
    using append_core_ok [OF prod, of ?b, where 'e = RingError] r room few by (auto simp: a_def)
  note n = normalised_encodable [OF r(1)]
  from shared_produced_inv [OF prod] obtain S where S: "R = map snd S" "shared_inv cap ?p S es" by blast
  have "append_bytes_core cap ?p (record_bytes (normalise_flags r True) True) = (Ok (p', ops) :: (_, RingError) outcome)"
    using core by (simp add: normalise_flags_bytes)
  from append_bytes_core_shared [OF S(2) _ _ this, where 'f = RingError] n obtain S' :: "(nat \<times> byte_vec) list" where
    "shared_perform_all cap (bracketed ops) (snd (last S)) = (Ok (map snd S') :: (_, RingError) outcome)" by blast
  moreover have "S \<noteq> []" using shared_last(1) [OF prod] S(1) by simp
  ultimately obtain Rs where Rs: "shared_perform_all cap (bracketed ops) (last R) = (Ok Rs :: (_, RingError) outcome)"
    using S(1) by (simp add: last_map)
  then have ne: "Rs \<noteq> []" by (auto simp: bracketed_def outcome_simps)
  have pub: "publish_record cap ?p r = Ok (p', ops)" "append_encoded cap ?p ?b = Ok (p', ops)"
    using core r by (simp_all add: publish_record_def encode_ok append_encoded_bytes)
  have dec: "decode ?b = Ok \<lparr>dec_record = normalise_flags r True, dec_consumed = record_len r True\<rparr>"
    using decode_record_bytes [OF r(1), of "[]"] by simp
  let ?pr = "\<lparr>sp_producer = p', sp_store = (sp_store pr)\<lparr>ss_region := last Rs\<rparr>\<rparr>"
  have "harness_publish pr mode r ctx = Ok (?pr, Rs)"
    using pub r(1) Rs cap
    by (cases mode) (simp_all add: harness_publish_def append_record_def publisher_append_encoded_def publisher_perform_def encode_ok)
  moreover have "shared_produced cap p' (R @ Rs) (es @ [entry p' (normalise_flags r True)])"
    by (rule shared_produced.publish [OF prod pub(1) Rs])
  ultimately show ?thesis using p' ne cap by (auto simp: publishing_def entry_def)
qed

section \<open>The whole stream\<close>

fun stamped_chain :: "nat \<Rightarrow> nat \<Rightarrow> (bool \<times> nat \<times> nat) list \<Rightarrow> ReadRecord list" where
  "stamped_chain cap h [] = []"
| "stamped_chain cap h (d # ds) = (let x = stamped_entry cap h d in x # stamped_chain cap (rr_end_abs x) ds)"

definition chain_end :: "nat \<Rightarrow> ReadRecord list \<Rightarrow> nat" where
  "chain_end h xs = (if xs = [] then h else rr_end_abs (last xs))"

lemma place_near: "n \<le> cap \<Longrightarrow> 0 < n \<Longrightarrow> h \<le> place cap h n \<and> place cap h n < h + n"
proof -
  assume n: "n \<le> cap" "0 < n"
  then have "h mod cap < cap" by simp
  with n show ?thesis
    by (cases "h mod cap = 0 \<or> h mod cap + n \<le> cap"; simp only: place_def if_True if_False; linarith)
qed

lemma stamped_len_bounds: "56 \<le> stamped_len hw" "stamped_len hw \<le> 68"
  by (simp_all add: stamped_len_def)

lemma stamped_entry_bounds:
  assumes "68 \<le> cap"
  shows "h \<le> rr_start_abs (stamped_entry cap h d)" "h + 56 \<le> rr_end_abs (stamped_entry cap h d)"
    "rr_end_abs (stamped_entry cap h d) \<le> h + 136"
proof -
  obtain hw s q where d: "d = (hw, s, q)" by (metis surj_pair)
  have "h \<le> place cap h (stamped_len hw) \<and> place cap h (stamped_len hw) < h + stamped_len hw"
    using stamped_len_bounds [of hw] assms by (intro place_near) simp_all
  with stamped_len_bounds [of hw] show "h \<le> rr_start_abs (stamped_entry cap h d)" "h + 56 \<le> rr_end_abs (stamped_entry cap h d)"
    "rr_end_abs (stamped_entry cap h d) \<le> h + 136" by (simp_all add: stamped_entry_def d Let_def)
qed

lemma chain_end_simps [simp]:
  "chain_end h [] = h" "chain_end h (x # xs) = chain_end (rr_end_abs x) xs"
  by (simp_all add: chain_end_def)

lemma stamped_chain_append: "stamped_chain cap h (ds @ es) = stamped_chain cap h ds @ stamped_chain cap (chain_end h (stamped_chain cap h ds)) es"
  by (induction ds arbitrary: h) (simp_all add: Let_def)

lemma chain_end_append: "chain_end h (xs @ ys) = chain_end (chain_end h xs) ys"
  by (induction xs arbitrary: h) simp_all

lemma chain_end_bounds:
  "68 \<le> cap \<Longrightarrow> h + 56 * length ds \<le> chain_end h (stamped_chain cap h ds) \<and> chain_end h (stamped_chain cap h ds) \<le> h + 136 * length ds"
proof (induction ds arbitrary: h)
  case (Cons d ds)
  from Cons.IH [OF Cons.prems, of "rr_end_abs (stamped_entry cap h d)"] stamped_entry_bounds [OF Cons.prems, of h d]
  show ?case by (simp add: Let_def)
qed simp

lemma length_stamped_chain [simp]: "length (stamped_chain cap h ds) = length ds"
  by (induction ds arbitrary: h) (simp_all add: Let_def)

lemma publish_sources_ok:
  assumes "publishing cap st es" "68 \<le> cap" "1780000000000000000 + q < u64_limit" "cp_head_abs (sp_producer (fst st)) = h"
    "h + 136 * length ids < u64_limit" "length es + length ids < u64_limit"
  shows "\<exists>st'. publish_sources (builder hw q) mode ctx ids st = Ok st'
     \<and> publishing cap st' (es @ stamped_chain cap h (map (\<lambda>s. (hw, s, q)) ids))
     \<and> cp_head_abs (sp_producer (fst st')) = chain_end h (stamped_chain cap h (map (\<lambda>s. (hw, s, q)) ids))"
  using assms
proof (induction ids arbitrary: st es h)
  case (Cons s ids)
  obtain pr R where st: "st = (pr, R)" by (metis surj_pair)
  let ?n = "stamped_len hw" and ?x = "stamped_entry cap h (hw, s, q)"
  define a where "a = place cap h ?n"
  have b: "h \<le> a" "a + ?n \<le> h + 136" "a + ?n < u64_limit" "?n \<le> cap"
    using stamped_entry_bounds [OF Cons.prems(2), of h "(hw, s, q)"] stamped_len_bounds [of hw] Cons.prems(2,5)
    by (simp_all add: stamped_entry_def a_def Let_def)
  have hd: "cp_head_abs (sp_producer pr) = h" "ss_capacity (sp_store pr) = cap" using Cons.prems(1,4) st by (simp_all add: publishing_def)
  then have "next_start_abs (ss_capacity (sp_store pr)) (sp_producer pr) ?n = (Ok a :: (_, HarnessError) outcome)"
    using b(3) by (auto simp: next_start_abs_def a_def place_def store_physical_offset_def Let_def split: if_splits)
  from builder_ok [OF Cons.prems(3) this] have bld: "builder hw q pr s = Ok (stamped hw s q a)" .
  have x: "?x = \<lparr>rr_start_abs = a, rr_end_abs = a + ?n, rr_record = normalise_flags (stamped hw s q a) True\<rparr>"
    by (simp add: stamped_entry_def a_def Let_def)
  note step = harness_publish_ok [of cap pr R es "stamped hw s q a" mode ctx, unfolded stamped_encodable(2) hd(1), folded a_def, folded x]
  obtain pr' new where
    pub: "harness_publish pr mode (stamped hw s q a) ctx = Ok (pr', new)"
      "publishing cap (pr', R @ new) (es @ [?x])" "cp_head_abs (sp_producer pr') = a + ?n"
    using step Cons.prems(1,6) st b(3,4) by auto
  have e: "rr_end_abs ?x = a + ?n" by (simp add: x)
  from Cons.IH [OF pub(2) Cons.prems(2,3), of "a + ?n"] pub(3) Cons.prems(5,6) b obtain st' where
    "publish_sources (builder hw q) mode ctx ids (pr', R @ new) = Ok st'"
    "publishing cap st' ((es @ [?x]) @ stamped_chain cap (a + ?n) (map (\<lambda>s. (hw, s, q)) ids))"
    "cp_head_abs (sp_producer (fst st')) = chain_end (a + ?n) (stamped_chain cap (a + ?n) (map (\<lambda>s. (hw, s, q)) ids))" by auto
  with bld pub(1) st e show ?case by (simp add: Let_def)
qed simp

lemma publish_rounds_ok:
  assumes "publishing cap st es" "68 \<le> cap" "\<And>q. q \<in> set seqs \<Longrightarrow> 1780000000000000000 + q < u64_limit"
    "cp_head_abs (sp_producer (fst st)) = h" "h + 136 * (length seqs * length ids) < u64_limit" "length es + length seqs * length ids < u64_limit"
  defines "ds \<equiv> concat (map (\<lambda>q. map (\<lambda>s. (False, s, q)) ids) seqs)"
  shows "\<exists>st'. publish_rounds mode ids seqs st = Ok st' \<and> publishing cap st' (es @ stamped_chain cap h ds)
     \<and> cp_head_abs (sp_producer (fst st')) = chain_end h (stamped_chain cap h ds)"
  using assms(1,3-6) unfolding ds_def
proof (induction seqs arbitrary: st es h)
  case (Cons q seqs)
  let ?ds = "map (\<lambda>s. (False, s, q)) ids"
  let ?xs = "stamped_chain cap h ?ds"
  have b: "(\<lambda>pr s. message_record_with_expected_abs pr s q) = builder False q" by (simp add: builder_def fun_eq_iff)
  obtain st1 where st1: "publish_sources (builder False q) mode ''producer write'' ids st = Ok st1"
    "publishing cap st1 (es @ ?xs)" "cp_head_abs (sp_producer (fst st1)) = chain_end h ?xs"
    using publish_sources_ok [OF Cons.prems(1) assms(2), of q h ids False mode "''producer write''"] Cons.prems(2-5) by auto
  have "chain_end h ?xs \<le> h + 136 * length ids" using chain_end_bounds [OF assms(2), of h ?ds] by simp
  then have "chain_end h ?xs + 136 * (length seqs * length ids) < u64_limit" "length (es @ ?xs) + length seqs * length ids < u64_limit"
    using Cons.prems(4,5) by (simp_all add: algebra_simps)
  with Cons.IH [OF st1(2) _ st1(3)] Cons.prems(2) st1(1) show ?case
    by (auto simp: b stamped_chain_append chain_end_append)
qed simp

definition harness_plan :: "nat \<Rightarrow> nat \<Rightarrow> (bool \<times> nat \<times> nat) list" where
  "harness_plan sources per_source =
     concat (map (\<lambda>q. map (\<lambda>s. (False, s, q)) (source_ids sources)) [0 ..< per_source])
     @ map (\<lambda>s. (True, s, per_source)) (source_ids sources)"

lemma length_plan: "length (harness_plan n m) = n * (m + 1)"
proof -
  have "length (concat (map (\<lambda>q. map (f q) xs) qs)) = length qs * length xs" for f :: "nat \<Rightarrow> nat \<Rightarrow> bool \<times> nat \<times> nat" and xs qs
    by (induction qs) simp_all
  then show ?thesis by (simp add: harness_plan_def source_ids_def)
qed

definition stream_ok :: "nat \<Rightarrow> nat \<Rightarrow> nat \<Rightarrow> bool" where
  "stream_ok cap sources per_source \<longleftrightarrow> 68 \<le> cap \<and> cap < 2 ^ 32 \<and> sources * (per_source + 1) < 2 ^ 31 \<and> 0 < sources"

lemma stream_okD:
  assumes "stream_ok cap n m"
  shows "68 \<le> cap" "cap < 2 ^ 32" "n * (m + 1) < 2 ^ 31" "m < 2 ^ 31" "n < 2 ^ 31" "0 < n"
proof -
  have "1 * (m + 1) \<le> n * (m + 1)" "n * 1 \<le> n * (m + 1)"
    using assms by (intro mult_le_mono; simp add: stream_ok_def)+
  with assms show "68 \<le> cap" "cap < 2 ^ 32" "n * (m + 1) < 2 ^ 31" "m < 2 ^ 31" "n < 2 ^ 31" "0 < n" by (simp_all add: stream_ok_def)
qed

text \<open>The producer of a run opens the mapping that \<open>run_once\<close> created.\<close>

lemma producer_completes:
  assumes ok: "stream_ok (pa_cap args) (pa_sources args) (pa_per_source args)"
    and new: "create_with_mode (\<lambda>len. Ok (replicate len 0)) (pa_cap args) mode = Ok store"
  defines "es \<equiv> stamped_chain (pa_cap args) 0 (harness_plan (pa_sources args) (pa_per_source args))"
  shows "\<exists>st line. producer_cmd True (Ok (ss_region store)) map_file (Ok ()) args = Ok (st, line) \<and> publishing (pa_cap args) st es
     \<and> cp_head_abs (sp_producer (fst st)) = chain_end 0 es"
proof -
  let ?cap = "pa_cap args" and ?n = "pa_sources args" and ?m = "pa_per_source args"
  note d = stream_okD [OF ok]
  have cap: "0 < ?cap" "128 + ?cap < u64_limit" using d(1,2) by (simp_all add: u64_limit_def)
  have init: "shared_produced ?cap producer_with_store [ss_region store] []" using new by (rule shared_produced.start)
  have len: "length (ss_region store) = 128 + ?cap" using shared_last(2) [OF init] by simp
  define pr where "pr = publisher_with_store \<lparr>ss_region = ss_region store, ss_capacity = ?cap, ss_fence_mode = pa_fence_mode args, ss_recheck_stall = 0\<rparr>"
  have open_ok: "producer_store True (Ok (ss_region store)) map_file args
      = Ok \<lparr>ss_region = ss_region store, ss_capacity = ?cap, ss_fence_mode = pa_fence_mode args, ss_recheck_stall = 0\<rparr>"
    using len cap by (simp add: producer_store_def open_existing_with_mode_def validate_capacity_def region_map_def)
  have st0: "publishing ?cap (pr, [ss_region store]) []" "cp_head_abs (sp_producer pr) = 0"
    using init by (simp_all add: publishing_def pr_def publisher_with_store_def producer_with_store_def)
  let ?ids = "source_ids ?n" and ?ds = "concat (map (\<lambda>q. map (\<lambda>s. (False, s, q)) (source_ids ?n)) [0 ..< ?m])"
  have ids: "length ?ids = ?n" by (simp add: source_ids_def)
  have small: "?n * ?m + ?n < 2 ^ 31" using d(3) by (simp add: algebra_simps)
  have times: "1780000000000000000 + q < u64_limit" if "q \<le> ?m" for q using that d(4) by (simp add: u64_limit_def)
  obtain st1 where st1: "publish_rounds (pa_append_mode args) ?ids [0 ..< ?m] (pr, [ss_region store]) = Ok st1"
    "publishing ?cap st1 (stamped_chain ?cap 0 ?ds)" "cp_head_abs (sp_producer (fst st1)) = chain_end 0 (stamped_chain ?cap 0 ?ds)"
    using publish_rounds_ok [OF st0(1) d(1), of "[0 ..< ?m]" 0 ?ids "pa_append_mode args"] st0(2) times small
    by (auto simp: ids u64_limit_def algebra_simps)
  have ld: "length ?ds = ?n * ?m" using length_plan [of ?n ?m] ids by (simp add: harness_plan_def)
  have "chain_end 0 (stamped_chain ?cap 0 ?ds) + 136 * ?n < u64_limit"
    using chain_end_bounds [OF d(1), of 0 ?ds] small ld by (simp add: u64_limit_def)
  then obtain st2 where st2: "publish_sources (builder True ?m) (pa_append_mode args) ''producer high-water write'' ?ids st1 = Ok st2"
    "publishing ?cap st2 es" "cp_head_abs (sp_producer (fst st2)) = chain_end 0 es"
    using publish_sources_ok [OF st1(2) d(1), of ?m _ ?ids True "pa_append_mode args" "''producer high-water write''"] st1(3) times [of ?m] small ld ids
    by (auto simp: es_def harness_plan_def stamped_chain_append chain_end_append u64_limit_def)
  obtain pr2 R2 where p2: "st2 = (pr2, R2)" by (metis surj_pair)
  have r2: "length (ss_region (sp_store pr2)) = 128 + ?cap"
    using st2(2) shared_last(2) [of ?cap "sp_producer pr2" R2 es] p2 by (simp add: publishing_def)
  have "\<exists>line. producer_summary args (ss_region (sp_store pr2)) = (Ok line :: (_, HarnessError) outcome)"
    using small d(4) r2
    by (simp add: producer_summary_def u64_mul_def shared_load_head_def shared_load_lost_def load_u64_def region_simps u64_limit_def)
  moreover have "(\<lambda>pr s. source_high_water_record_with_expected_abs pr s ?m) = builder True ?m" by (simp add: builder_def fun_eq_iff)
  ultimately show ?thesis
    using open_ok st1(1) st2 p2 by (auto simp: producer_cmd_def pr_def)
qed

section \<open>What the stream looks like\<close>

definition entry_for :: "bool \<times> nat \<times> nat \<Rightarrow> ReadRecord \<Rightarrow> bool" where
  "entry_for d x \<longleftrightarrow> (case d of (hw, s, q) \<Rightarrow> rr_record x = normalise_flags (stamped hw s q (rr_start_abs x)) True)"

lemma chain_entries: "list_all2 entry_for ds (stamped_chain cap h ds)"
  by (induction ds arbitrary: h) (auto simp: Let_def entry_for_def stamped_entry_def)

lemma entry_fields:
  assumes "entry_for (hw, s, q) x"
  shows "rec_run_id (rr_record x) = 1" "rec_source_id (rr_record x) = of_nat s" "rec_seq (rr_record x) = of_nat q"
    "find (\<lambda>slot. slot_key slot = KEY_EXPECTED_RECORD_START_ABS) (rec_slots (rr_record x)) = Some (expected_abs_slot (rr_start_abs x))"
    "authoritative (rr_record x) = {}" "q < 2 ^ 31 \<Longrightarrow> loss_sane (rr_record x) \<and> seq_room x \<and> unat (rec_seq (rr_record x)) = q"
proof -
  have r: "rr_record x = normalise_flags (stamped hw s q (rr_start_abs x)) True" using assms by (simp add: entry_for_def)
  show "rec_run_id (rr_record x) = 1" "rec_source_id (rr_record x) = of_nat s" "rec_seq (rr_record x) = of_nat q"
    by (simp_all add: r normalise_flags_def stamped_def record_new_def RUN_ID_def)
  show "find (\<lambda>slot. slot_key slot = KEY_EXPECTED_RECORD_START_ABS) (rec_slots (rr_record x)) = Some (expected_abs_slot (rr_start_abs x))"
    by (simp add: r normalise_flags_def stamped_def record_new_def expected_abs_slot_def slot_new_def KEY_EXPECTED_RECORD_START_ABS_def registry_ids)
  show "authoritative (rr_record x) = {}"
    by (simp add: r authoritative_def parse_records_dropped_def normalise_flags_def stamped_def record_new_def registry_ids)
  assume q: "q < 2 ^ 31"
  then have "unat (of_nat q :: u64) = q" by (simp add: unat_of_nat)
  with q show "loss_sane (rr_record x) \<and> seq_room x \<and> unat (rec_seq (rr_record x)) = q"
    by (simp add: r loss_sane_def seq_room_def normalise_flags_def stamped_def record_new_def u64_limit_def expected_abs_slot_def slot_new_def
        KEY_EXPECTED_RECORD_START_ABS_def registry_ids)
qed

lemma source_ids_nth [simp]: "length (source_ids n) = n" "i < n \<Longrightarrow> source_ids n ! i = Suc i"
  by (simp_all add: source_ids_def del: upt_Suc)

fun plan_order :: "bool \<times> nat \<times> nat \<Rightarrow> bool \<times> nat \<times> nat \<Rightarrow> bool" where
  "plan_order (_, s, q) (_, s', q') \<longleftrightarrow> (s = s' \<longrightarrow> q < q')"

lemma plan_sorted: "sorted_wrt plan_order (harness_plan n m)"
proof -
  have row: "sorted_wrt plan_order (map (\<lambda>s. (b, s, q)) (source_ids n))" for b and q :: nat
    by (simp add: sorted_wrt_iff_nth_less)
  have "sorted_wrt plan_order (concat (map (\<lambda>q. map (\<lambda>s. (False, s, q)) (source_ids n)) [0 ..< m]))"
  proof (induction m)
    case (Suc m)
    then show ?case using row by (auto simp: sorted_wrt_append)
  qed simp
  then show ?thesis using row by (auto simp: harness_plan_def sorted_wrt_append)
qed

lemma plan_bounds: "(hw, s, q) \<in> set (harness_plan n m) \<Longrightarrow> 0 < s \<and> s \<le> n \<and> q \<le> m \<and> (hw \<longrightarrow> q = m)"
  by (auto simp: harness_plan_def source_ids_def)

lemma entry_planned:
  assumes "x \<in> set (stamped_chain cap h ds)"
  shows "\<exists>d \<in> set ds. entry_for d x"
  using assms chain_entries [of ds cap h] by (metis in_set_conv_nth length_stamped_chain list_all2_nthD nth_mem)

lemma stream_ascends:
  assumes "stream_ok cap n m"
  shows "ascending (stamped_chain cap 0 (harness_plan n m))"
proof -
  let ?ds = "harness_plan n m" and ?es = "stamped_chain cap 0 (harness_plan n m)"
  note d = stream_okD [OF assms]
  have "stream_of (?es ! i) = stream_of (?es ! j) \<longrightarrow> rec_seq (rr_record (?es ! i)) < rec_seq (rr_record (?es ! j))"
    if ij: "i < j" "j < length ?ds" for i j
  proof -
    obtain a s q b t r where eq: "?ds ! i = (a, s, q)" "?ds ! j = (b, t, r)" by (metis surj_pair)
    then have m: "(a, s, q) \<in> set ?ds" "(b, t, r) \<in> set ?ds" using ij by (metis less_trans nth_mem)+
    have e: "entry_for (a, s, q) (?es ! i)" "entry_for (b, t, r) (?es ! j)"
      using chain_entries [of ?ds cap 0] ij by (auto simp: list_all2_conv_all_nth simp flip: eq)
    have "s = t \<longrightarrow> q < r" using sorted_wrt_nth_less [OF plan_sorted ij] eq by simp
    moreover have "(of_nat s :: u32) = of_nat t \<longrightarrow> s = t"
      using plan_bounds [OF m(1)] plan_bounds [OF m(2)] d(5) by (simp add: word_of_nat_eq_iff take_bit_nat_eq_self)
    moreover have "unat (rec_seq (rr_record (?es ! i))) = q" "unat (rec_seq (rr_record (?es ! j))) = r"
      using entry_fields(6) [OF e(1)] entry_fields(6) [OF e(2)] plan_bounds [OF m(1)] plan_bounds [OF m(2)] d(4) by auto
    ultimately show ?thesis using entry_fields(2) [OF e(1)] entry_fields(2) [OF e(2)]
      by (simp add: stream_of_def word_less_nat_alt)
  qed
  then show ?thesis by (simp add: ascending_def sorted_wrt_iff_nth_less)
qed

lemma stream_sane:
  assumes "stream_ok cap n m" "x \<in> set (stamped_chain cap 0 (harness_plan n m))"
  shows "loss_sane (rr_record x)" "seq_room x" "authoritative (rr_record x) = {}" "unat (rec_seq (rr_record x)) \<le> m"
    "find (\<lambda>slot. slot_key slot = KEY_EXPECTED_RECORD_START_ABS) (rec_slots (rr_record x)) = Some (expected_abs_slot (rr_start_abs x))"
proof -
  obtain hw s q where e: "(hw, s, q) \<in> set (harness_plan n m)" "entry_for (hw, s, q) x" using entry_planned [OF assms(2)] by (metis surj_pair)
  have "q \<le> m" "q < 2 ^ 31" using plan_bounds [OF e(1)] stream_okD(4) [OF assms(1)] by auto
  with entry_fields [OF e(2)] show "loss_sane (rr_record x)" "seq_room x" "authoritative (rr_record x) = {}" "unat (rec_seq (rr_record x)) \<le> m"
    "find (\<lambda>slot. slot_key slot = KEY_EXPECTED_RECORD_START_ABS) (rec_slots (rr_record x)) = Some (expected_abs_slot (rr_start_abs x))" by auto
qed

lemma chain_starts:
  "68 \<le> cap \<Longrightarrow> x \<in> set (stamped_chain cap h ds) \<Longrightarrow> h \<le> rr_start_abs x"
proof (induction ds arbitrary: h)
  case (Cons d ds)
  then show ?case
    using stamped_entry_bounds [OF Cons.prems(1), of h d] by (fastforce simp: Let_def)
qed simp

text \<open>The last record of every source lies within \<open>136 * n\<close> bytes of the head.\<close>

lemma high_water_near:
  assumes "stream_ok cap n m" "0 < s" "s \<le> n"
  defines "es \<equiv> stamped_chain cap 0 (harness_plan n m)"
  shows "\<exists>x \<in> set es. stream_of x = (1, of_nat s) \<and> unat (rec_seq (rr_record x)) = m \<and> chain_end 0 es \<le> rr_start_abs x + 136 * n"
proof -
  note d = stream_okD [OF assms(1)]
  let ?hw = "map (\<lambda>s. (True, s, m)) (source_ids n)" and ?ds = "concat (map (\<lambda>q. map (\<lambda>s. (False, s, q)) (source_ids n)) [0 ..< m])"
  define h where "h = chain_end 0 (stamped_chain cap 0 ?ds)"
  have es: "es = stamped_chain cap 0 ?ds @ stamped_chain cap h ?hw" by (simp add: es_def harness_plan_def stamped_chain_append h_def)
  have i: "s - 1 < length ?hw" "?hw ! (s - 1) = (True, s, m)" using assms(2,3) source_ids_nth(2) [of "s - 1" n] by simp_all
  define x where "x = stamped_chain cap h ?hw ! (s - 1)"
  have x: "x \<in> set (stamped_chain cap h ?hw)" using i(1) by (simp add: x_def)
  have e: "entry_for (True, s, m) x" using chain_entries [of ?hw cap h] i by (auto simp: list_all2_conv_all_nth x_def simp flip: i(2))
  have "chain_end 0 es \<le> h + 136 * n"
    using chain_end_bounds [OF d(1), of h ?hw] by (simp add: es chain_end_append flip: h_def)
  moreover have "h \<le> rr_start_abs x" by (rule chain_starts [OF d(1) x])
  ultimately show ?thesis using entry_fields [OF e] d(4) x by (intro bexI [of _ x]) (auto simp: es stream_of_def)
qed

section \<open>Accounting a part of the stream\<close>

lemma account_all_next:
  assumes "loss_inv t D A" "list_all loss_sane rs" "account_all t rs = (Ok t' :: (_, 'e) outcome)"
    "\<And>r. r \<in> set rs \<Longrightarrow> unat (rec_seq r) \<le> m"
  shows "next_of t' k \<le> max (next_of t k) (Suc m)"
  using assms
proof (induction rs arbitrary: t D A)
  case (Cons r rs)
  from account_step [OF Cons.prems(1), of r, where 'e = 'e] Cons.prems(2) obtain t1 where
    t1: "account t r = (Ok t1 :: (_, 'e) outcome)"
    "\<exists>D A. loss_inv t1 D A" "next_of t1 = (if next_of t (record_stream r) \<le> unat (rec_seq r)
       then (next_of t)(record_stream r := unat (rec_seq r) + 1) else next_of t)" by auto
  from t1(2) obtain D' A' where "loss_inv t1 D' A'" by blast
  from Cons.IH [OF this] Cons.prems(2-4) t1(1) have "next_of t' k \<le> max (next_of t1 k) (Suc m)" by auto
  moreover have "next_of t1 k \<le> max (next_of t k) (Suc m)" using Cons.prems(4) [of r] by (auto simp: t1(3))
  ultimately show ?case by simp
qed simp

lemma delivered_seqs_ascending:
  assumes "ascending xs" "\<And>x. x \<in> set xs \<Longrightarrow> nxt (stream_of x) \<le> unat (rec_seq (rr_record x))"
  shows "delivered_seqs nxt (map rr_record xs) k = (\<lambda>x. unat (rec_seq (rr_record x))) ` {x \<in> set xs. stream_of x = k}"
  using assms
proof (induction xs arbitrary: nxt)
  case (Cons x xs)
  have st: "record_stream (rr_record x) = stream_of x" by (simp add: record_stream_def stream_of_def)
  let ?n = "nxt(stream_of x := Suc (unat (rec_seq (rr_record x))))"
  have "?n (stream_of y) \<le> unat (rec_seq (rr_record y))" if "y \<in> set xs" for y
    using Cons.prems(1) Cons.prems(2) [of y] that by (auto simp: ascending_def word_less_nat_alt)
  then have "delivered_seqs ?n (map rr_record xs) k = (\<lambda>x. unat (rec_seq (rr_record x))) ` {x \<in> set xs. stream_of x = k}"
    using Cons.prems(1) by (intro Cons.IH) (simp_all add: ascending_def)
  with Cons.prems(2) [of x] show ?case by (auto simp: st)
qed simp

text \<open>If the last record of a source is delivered, delivered and lost add up to everything it produced.\<close>

lemma source_reconciles:
  assumes ok: "stream_ok cap n m" and sub: "subseq xs (stamped_chain cap 0 (harness_plan n m))"
    and acc: "account_all (tracker_new b) (map rr_record xs) = (Ok t :: (_, 'e) outcome)"
    and x: "x \<in> set xs" "stream_of x = (1, src)" "unat (rec_seq (rr_record x)) = m"
  shows "\<exists>lost. tracker_lost t 1 src = (Ok lost :: (_, 'e) outcome) \<and> tracker_delivered t 1 src + lost = m + 1
     \<and> 0 < tracker_delivered t 1 src"
proof -
  let ?es = "stamped_chain cap 0 (harness_plan n m)" and ?rs = "map rr_record xs"
  have mem: "y \<in> set ?es" if "y \<in> set xs" for y by (rule list_emb_set [OF sub that]) simp
  have sane: "list_all loss_sane ?rs" using stream_sane(1) [OF ok mem] by (simp add: list_all_iff)
  have asc: "ascending xs" using sorted_wrt_subseq [OF sub] stream_ascends [OF ok] by (simp add: ascending_def)
  have n0: "next_of (tracker_new b) = (\<lambda>_. 0)" by (simp add: tracker_new_def map_get_or_0_def fun_eq_iff)
  have D: "delivered_seqs (\<lambda>_. 0) ?rs (1, src) = (\<lambda>x. unat (rec_seq (rr_record x))) ` {x \<in> set xs. stream_of x = (1, src)}"
    using delivered_seqs_ascending [OF asc, of "\<lambda>_. 0"] by simp
  from account_all_inv [OF loss_inv_new sane, of b, where 'e = 'e] acc
  have inv: "loss_inv t (delivered_seqs (\<lambda>_. 0) ?rs) (reported_seqs ?rs)" by (simp add: n0)
  then have "delivered_seqs (\<lambda>_. 0) ?rs (1, src) \<subseteq> {0 ..< next_of t (1, src)}" by (simp add: loss_inv_def)
  moreover have mD: "m \<in> delivered_seqs (\<lambda>_. 0) ?rs (1, src)" using x unfolding D by force
  ultimately have "m < next_of t (1, src)" by auto
  moreover have "next_of t (1, src) \<le> max (next_of (tracker_new b) (1, src)) (Suc m)"
    by (rule account_all_next [OF loss_inv_new sane acc]) (use stream_sane(4) [OF ok mem] in auto)
  ultimately have nx: "next_of t (1, src) = m + 1" by (simp add: n0)
  have "reported_seqs ?rs (1, src) = {}" using stream_sane(3) [OF ok mem] by (auto simp: reported_seqs_def)
  with delivered_plus_lost [OF sane acc, of 1 src] nx obtain lost where
    "tracker_lost t 1 src = (Ok lost :: (_, 'e) outcome)" "tracker_delivered t 1 src + lost = m + 1" by auto
  moreover have "0 < tracker_delivered t 1 src"
  proof -
    have "tracker_delivered t 1 src = card (delivered_seqs (\<lambda>_. 0) ?rs (1, src))"
      using inv by (simp add: loss_inv_def tracker_delivered_def)
    moreover have "finite (delivered_seqs (\<lambda>_. 0) ?rs (1, src))" unfolding D by simp
    ultimately show ?thesis using mD by (auto simp: card_gt_0_iff)
  qed
  ultimately show ?thesis by blast
qed

end
