(* ===== verification/Live_Consumer.thy ===== *)
theory Live_Consumer
  imports Live_Producer Consumer
begin

text \<open>
  The consumer command of the harness on a mapping that the producer writes: what its loop has seen (\<open>watching\<close>), when
  the loop returns and with what result, and the report of a finished loop.
\<close>

section \<open>The consumer's session\<close>

definition watching :: "mapped \<Rightarrow> nat \<Rightarrow> ConsumerState \<Rightarrow> nat \<Rightarrow> ReadBatch list \<Rightarrow> bool" where
  "watching smem cap st k batches \<longleftrightarrow>
     polled (shared_snapshot smem) (\<lambda>k. ring_view cap (smem k)) cap k (cs_raw st) batches
     \<and> observe_batches embedded_observe (observer_new ()) batches = (cs_observer st, Ok ())
     \<and> account_all (tracker_new DEFAULT_BUFFER_ID) (map rr_record (delivered batches))
         = (Ok (lac_tracker (cs_accounting st)) :: (_, HarnessError) outcome)"

lemma watching_start: "watching smem cap consumer_start k []"
  by (simp add: watching_def consumer_start_def lac_new_def lac_with_buffer_id_def delivered_def polled.start)

lemma observe_batches_append:
  "observe_batches f bo (xs @ ys) = (case observe_batches f bo xs of (bo, Ok _) \<Rightarrow> observe_batches f bo ys | (bo, r) \<Rightarrow> (bo, r))"
  by (induction xs arbitrary: bo) (auto split: prod.splits outcome.splits)

lemma delivered_append [simp]: "delivered (xs @ ys) = delivered xs @ delivered ys" "delivered [b] = rb_records b"
  by (simp_all add: delivered_def)

lemma load_err_eq:
  "load_err g x = (k, Ok a) \<longleftrightarrow> x = (k, Ok a)"
  by (cases x; cases "snd x") (auto simp: load_err_def)

lemma iteration_Ok:
  assumes "consumer_iteration smem cap done_exists expired st k = (k', Ok (st', finished))"
  obtains j raw batch where "shared_poll smem cap (cs_raw st) k = (j, Ok (raw, batch))" "cs_raw st' = raw"
    "observe_batch embedded_observe (cs_observer st) batch = (cs_observer st', Ok ())"
    "lac_account_batch (cs_accounting st) batch = (Ok (cs_accounting st') :: (_, HarnessError) outcome)"
    "caught_up smem done_exists raw j = (k', Ok finished :: (_, HarnessError) outcome)" "finished \<or> \<not> expired k'"
proof -
  from assms obtain j raw batch where p: "shared_poll smem cap (cs_raw st) k = (j, Ok (raw, batch))"
    by (auto simp: consumer_iteration_def load_then_eq load_err_eq)
  obtain ob r where o: "observe_batch embedded_observe (cs_observer st) batch = (ob, r)" by (metis surj_pair)
  have "r = Ok ()" using assms p o by (cases r) (auto simp: consumer_iteration_def load_err_def)
  with assms p o show thesis
    by (intro that [of j raw batch])
       (auto simp: consumer_iteration_def load_err_def load_then_eq Let_def split: if_splits)
qed

lemma caught_up_Ok:
  assumes "caught_up smem done_exists raw j = (k', Ok finished :: (_, 'e) outcome)" "length (smem j) = 128 + cap"
  shows "j \<le> k'" "finished \<Longrightarrow> done_exists j \<and> cc_cursor_abs raw = cr_head_abs (ring_view cap (smem j)) \<and> k' = Suc j"
  using assms by (auto simp: caught_up_def load_then_eq shared_load_head_def load_u64_def region_simps ring_view_def split: if_splits)

text \<open>A run of the consumer on a mapping that one producer writes.\<close>

definition live :: "nat \<Rightarrow> ConcurrentProducer \<Rightarrow> byte_vec list \<Rightarrow> ReadRecord list \<Rightarrow> (nat \<Rightarrow> nat) \<Rightarrow> bool" where
  "live cap p R es \<tau> \<longleftrightarrow> shared_produced cap p R es \<and> schedule R \<tau> \<and> length es < 2 ^ 31 \<and> cap < 2 ^ 32"

lemma liveD:
  assumes "live cap p R es \<tau>"
  shows "shared_produced cap p R es" "schedule R \<tau>" "length es < 2 ^ 31" "cap < 2 ^ 32" "length (R ! \<tau> k) = 128 + cap"
    "view (map (ring_view cap) R) \<tau> = (\<lambda>k. ring_view cap (R ! \<tau> k))"
    "schedule (map (ring_view cap) R) \<tau>" "takes_snapshot (\<lambda>k. ring_view cap (R ! \<tau> k)) cap (shared_snapshot (\<lambda>k. R ! \<tau> k))"
proof -
  show l: "shared_produced cap p R es" "schedule R \<tau>" "length es < 2 ^ 31" "cap < 2 ^ 32" using assms by (simp_all add: live_def)
  have t: "\<tau> k < length R" for k using l(2) by (simp add: schedule_def)
  show "length (R ! \<tau> k) = 128 + cap" using region_ok [OF l(1) t] by (auto simp: mapped_ok_def)
  show v: "view (map (ring_view cap) R) \<tau> = (\<lambda>k. ring_view cap (R ! \<tau> k))" using t by (auto simp: view_def)
  show "schedule (map (ring_view cap) R) \<tau>" using l(2) by (simp add: schedule_def)
  show "takes_snapshot (\<lambda>k. ring_view cap (R ! \<tau> k)) cap (shared_snapshot (\<lambda>k. R ! \<tau> k))"
    using shared_takes_snapshot [OF l] by (simp add: v)
qed

lemma live_delivery:
  assumes "live cap p R es \<tau>" "polled (shared_snapshot (\<lambda>k. R ! \<tau> k)) (\<lambda>k. ring_view cap (R ! \<tau> k)) cap k c batches"
  shows "point es (cc_cursor_abs c)" "subseq (delivered batches) es"
    "x \<in> set es \<Longrightarrow> cr_oldest_abs (ring_view cap (R ! \<tau> k)) \<le> rr_start_abs x \<Longrightarrow> rr_start_abs x < cc_cursor_abs c \<Longrightarrow> x \<in> set (delivered batches)"
proof -
  note l = liveD [OF assms(1)]
  have pub: "\<exists>p R'. shared_produced cap p R' es \<and> map (ring_view cap) R = map (ring_view cap) R'" using l(1) by blast
  note D = shared_publisher.polled_delivery [OF pub l(7), unfolded l(6), OF l(8) assms(2)]
  from D show "point es (cc_cursor_abs c)" by (simp add: settled_def)
  from D show "subseq (delivered batches) es" using subseq_order.trans [OF _ subseq_filter_left] by blast
  from D show "x \<in> set es \<Longrightarrow> cr_oldest_abs (ring_view cap (R ! \<tau> k)) \<le> rr_start_abs x \<Longrightarrow> rr_start_abs x < cc_cursor_abs c \<Longrightarrow> x \<in> set (delivered batches)"
    by blast
qed

lemma live_poll_advances:
  assumes "live cap p R es \<tau>" "point es (cc_cursor_abs c)" "shared_poll (\<lambda>k. R ! \<tau> k) cap c k = (k', Ok (c', b))"
  shows "k < k'"
proof -
  note l = liveD [OF assms(1)]
  have pub: "\<exists>p R'. shared_produced cap p R' es \<and> map (ring_view cap) R = map (ring_view cap) R'" using l(1) by blast
  show ?thesis
    by (rule shared_publisher.poll_with_spec [OF pub l(7) assms(2), unfolded l(6), OF l(8) assms(3) [unfolded shared_poll_def]]) auto
qed

lemma iteration_watching:
  assumes l: "live cap p R es \<tau>" and w: "watching (\<lambda>k. R ! \<tau> k) cap st k batches"
    and it: "consumer_iteration (\<lambda>k. R ! \<tau> k) cap done_exists expired st k = (k', Ok (st', finished))"
  shows "k < k' \<and> (\<exists>batches. watching (\<lambda>k. R ! \<tau> k) cap st' k' batches) \<and> (finished \<or> \<not> expired k')
     \<and> (finished \<longrightarrow> 0 < k' \<and> done_exists (k' - 1) \<and> cc_cursor_abs (cs_raw st') = cr_head_abs (ring_view cap (R ! \<tau> (k' - 1))))"
proof -
  from it obtain j raw batch where s: "shared_poll (\<lambda>k. R ! \<tau> k) cap (cs_raw st) k = (j, Ok (raw, batch))" "cs_raw st' = raw"
    "observe_batch embedded_observe (cs_observer st) batch = (cs_observer st', Ok ())"
    "lac_account_batch (cs_accounting st) batch = (Ok (cs_accounting st') :: (_, HarnessError) outcome)"
    "caught_up (\<lambda>k. R ! \<tau> k) done_exists raw j = (k', Ok finished :: (_, HarnessError) outcome)" "finished \<or> \<not> expired k'"
    by (rule iteration_Ok)
  have pl: "polled (shared_snapshot (\<lambda>k. R ! \<tau> k)) (\<lambda>k. ring_view cap (R ! \<tau> k)) cap k (cs_raw st) batches"
    using w by (simp add: watching_def)
  note c = caught_up_Ok [OF s(5) liveD(5) [OF l]]
  have adv: "k < j" by (rule live_poll_advances [OF l live_delivery(1) [OF l pl] s(1)])
  have "polled (shared_snapshot (\<lambda>k. R ! \<tau> k)) (\<lambda>k. ring_view cap (R ! \<tau> k)) cap k' (cs_raw st') (batches @ [batch])"
    using polled.wait [OF polled.poll [OF pl s(1) [unfolded shared_poll_def]] c(1)] s(2) by simp
  moreover have "account_all (tracker_new DEFAULT_BUFFER_ID) (map rr_record (delivered (batches @ [batch])))
      = (Ok (lac_tracker (cs_accounting st')) :: (_, HarnessError) outcome)"
    using w s(4) by (auto simp: watching_def account_all_append lac_account_batch_def outcome_simps dest!: sym [of _ "cs_accounting st'"])
  ultimately have "watching (\<lambda>k. R ! \<tau> k) cap st' k' (batches @ [batch])"
    using w s(3) by (simp add: watching_def observe_batches_append)
  then show ?thesis using adv c s(2,6) by auto
qed

lemma loop_finishes:
  assumes l: "live cap p R es \<tau>" and w: "watching (\<lambda>k. R ! \<tau> k) cap st k batches"
    and run: "consumer_loop (\<lambda>k. R ! \<tau> k) cap done_exists expired st k = Some (k', Ok st')"
  shows "\<exists>batches. watching (\<lambda>k. R ! \<tau> k) cap st' k' batches \<and> 0 < k' \<and> done_exists (k' - 1)
     \<and> cc_cursor_abs (cs_raw st') = cr_head_abs (ring_view cap (R ! \<tau> (k' - 1)))"
proof -
  let ?P = "\<lambda>smem c d e st k (r :: nat \<times> (ConsumerState, HarnessError) outcome). smem = (\<lambda>k. R ! \<tau> k) \<longrightarrow> c = cap \<longrightarrow> d = done_exists \<longrightarrow>
     (\<exists>batches. watching (\<lambda>k. R ! \<tau> k) cap st k batches) \<longrightarrow> (case r of
       (k', Ok st') \<Rightarrow> \<exists>batches. watching (\<lambda>k. R ! \<tau> k) cap st' k' batches \<and> 0 < k' \<and> done_exists (k' - 1)
         \<and> cc_cursor_abs (cs_raw st') = cr_head_abs (ring_view cap (R ! \<tau> (k' - 1)))
     | _ \<Rightarrow> True)"
  have "?P (\<lambda>k. R ! \<tau> k) cap done_exists expired st k (k', Ok st')"
  proof (rule consumer_loop.raw_induct [where P = ?P, OF _ run])
    fix f smem c d e st k r
    assume IH: "\<And>smem c d e st k r. f smem c d e st k = Some r \<Longrightarrow> ?P smem c d e st k r"
      and eq: "(case consumer_iteration smem c d e st k of
        (k, Ok (st, finished)) \<Rightarrow> if finished then Some (k, Ok st) else f smem c d e st k
      | (k, Err e) \<Rightarrow> Some (k, Err e) | (k, Panic q) \<Rightarrow> Some (k, Panic q)) = Some r"
    show "?P smem c d e st k r"
    proof (intro impI)
      assume h: "smem = (\<lambda>k. R ! \<tau> k)" "c = cap" "d = done_exists" "\<exists>batches. watching (\<lambda>k. R ! \<tau> k) cap st k batches"
      obtain k1 r1 where it: "consumer_iteration smem c d e st k = (k1, r1)" by (metis surj_pair)
      show "case r of (k', Ok st') \<Rightarrow> \<exists>batches. watching (\<lambda>k. R ! \<tau> k) cap st' k' batches \<and> 0 < k' \<and> done_exists (k' - 1)
         \<and> cc_cursor_abs (cs_raw st') = cr_head_abs (ring_view cap (R ! \<tau> (k' - 1))) | _ \<Rightarrow> True"
      proof (cases r1)
        case (Ok a)
        obtain st1 fin where a: "a = (st1, fin)" by (metis surj_pair)
        from h(4) obtain bs where "watching (\<lambda>k. R ! \<tau> k) cap st k bs" by blast
        note I = iteration_watching [OF l this it [unfolded h(1-3) Ok a]]
        show ?thesis
        proof (cases fin)
          case True
          with eq it Ok a I show ?thesis by auto
        next
          case False
          with eq it Ok a have "f smem c d e st1 k1 = Some r" by simp
          from IH [OF this] h(1-3) I show ?thesis by blast
        qed
      qed (use eq it in auto)
    qed
  qed
  with w show ?thesis by auto
qed

text \<open>The deadline bounds the loop.\<close>

lemma loop_returns:
  assumes l: "live cap p R es \<tau>" and w: "watching (\<lambda>k. R ! \<tau> k) cap st k batches" and dl: "\<And>j. K \<le> j \<Longrightarrow> expired j"
  shows "\<exists>r. consumer_loop (\<lambda>k. R ! \<tau> k) cap done_exists expired st k = Some r"
  using w
proof (induction "K - k" arbitrary: st k batches rule: less_induct)
  case less
  obtain k1 r1 where it: "consumer_iteration (\<lambda>k. R ! \<tau> k) cap done_exists expired st k = (k1, r1)" by (metis surj_pair)
  show ?case
  proof (cases r1)
    case (Ok a)
    obtain st1 fin where a: "a = (st1, fin)" by (metis surj_pair)
    from iteration_watching [OF l less.prems it [unfolded Ok a]] obtain bs where
      I: "k < k1" "watching (\<lambda>k. R ! \<tau> k) cap st1 k1 bs" "fin \<or> \<not> expired k1" by blast
    show ?thesis
    proof (cases fin)
      case False
      then have "k1 < K" using I(3) dl [of k1] by (meson not_le)
      then have "K - k1 < K - k" using I(1) by simp
      from less.hyps [OF this I(2)] it Ok a False show ?thesis by (simp add: consumer_loop.simps [of _ _ _ _ st k])
    qed (use it Ok a in \<open>simp add: consumer_loop.simps [of _ _ _ _ st k]\<close>)
  qed (use it in \<open>simp_all add: consumer_loop.simps [of _ _ _ _ st k]\<close>)
qed

section \<open>The report of a finished consumer\<close>

lemma polled_counters:
  "polled snapshot mem cap k c batches \<Longrightarrow>
     cc_lapped_batches c < u64_limit \<and> cc_overwritten_retries c < u64_limit \<and> cc_rejected_records c < u64_limit"
proof (induction rule: polled.induct)
  case (poll k c batches k' c' batch)
  from poll.hyps(2) poll.IH show ?case
    by (auto simp: poll_with_def load_then_eq outcome_simps load_oldest_acquire_def
        split: prod.splits outcome.splits RingError.splits if_splits)
qed (simp_all add: consumer_with_store_def u64_limit_def)

lemma sum_ok: "acc + sum_list ns < u64_limit \<Longrightarrow> u64_sum acc ns = Ok (acc + sum_list ns)"
  by (induction ns arbitrary: acc) (simp_all add: add.assoc)

lemma sum_list_const: "(\<And>x. x \<in> set xs \<Longrightarrow> f x + g x = (c :: nat)) \<Longrightarrow> sum_list (map f xs) + sum_list (map g xs) = length xs * c"
  by (induction xs) (simp_all add: algebra_simps)

lemma expected_sources_eq:
  assumes "m + 1 < u64_limit"
  shows "expected_sources n m = Ok (map (\<lambda>s. \<lparr>xs_run_id = 1, xs_source_id = of_nat s, xs_expected_total = m + 1\<rparr>) (source_ids n))"
proof -
  have "expected_sources_of ids m = Ok (map (\<lambda>s. \<lparr>xs_run_id = 1, xs_source_id = of_nat s, xs_expected_total = m + 1\<rparr>) ids)" for ids
    using assms by (induction ids) (simp_all add: RUN_ID_def)
  then show ?thesis by (simp add: expected_sources_def)
qed

lemma tracker_lost_any:
  assumes "tracker_lost t r s = (Ok n :: (_, 'e) outcome)"
  shows "tracker_lost t r s = (Ok n :: (_, 'f) outcome)"
proof -
  have "Loss.u64_sum ns acc = (Ok n :: (_, 'e) outcome) \<Longrightarrow> Loss.u64_sum ns acc = (Ok n :: (_, 'f) outcome)" for ns acc
    by (induction ns arbitrary: acc) (auto simp: outcome_simps)
  with assms show ?thesis by (simp add: tracker_lost_def)
qed

definition source_row :: "LossTracker \<Rightarrow> nat \<Rightarrow> nat \<Rightarrow> SourceObserved" where
  "source_row t m s =
     \<lparr>os_run_id = 1, os_source_id = of_nat s, os_expected_total = m + 1, os_delivered = tracker_delivered t 1 (of_nat s),
      os_lost = (case (tracker_lost t 1 (of_nat s) :: (nat, RingError) outcome) of Ok n \<Rightarrow> n | _ \<Rightarrow> 0)\<rparr>"

definition reconciled :: "LossTracker \<Rightarrow> nat \<Rightarrow> nat \<Rightarrow> bool" where
  "reconciled t m s \<longleftrightarrow> (\<exists>lost. tracker_lost t 1 (of_nat s) = (Ok lost :: (_, RingError) outcome)
     \<and> tracker_delivered t 1 (of_nat s) + lost = m + 1 \<and> 0 < tracker_delivered t 1 (of_nat s))"

lemma observe_sources_eq:
  assumes "\<And>s. s \<in> set ids \<Longrightarrow> reconciled (lac_tracker acc) m s"
  shows "observe_sources acc (map (\<lambda>s. \<lparr>xs_run_id = 1, xs_source_id = of_nat s, xs_expected_total = m + 1\<rparr>) ids)
     = (Ok (map (source_row (lac_tracker acc) m) ids) :: (_, RingError) outcome)"
  using assms
proof (induction ids)
  case (Cons s ids)
  from Cons.prems [of s] obtain lost where "tracker_lost (lac_tracker acc) 1 (of_nat s) = (Ok lost :: (_, RingError) outcome)"
    by (auto simp: reconciled_def)
  with Cons show ?case by (simp add: source_row_def lac_delivered_in_run_def lac_lost_in_run_def)
qed simp

lemma source_rows:
  assumes "\<And>s. s \<in> set (source_ids n) \<Longrightarrow> reconciled t m s" "n < 2 ^ 31" "s \<in> set (source_ids n)"
  shows "map_of (rev (map (\<lambda>x. (os_source_id x, x)) (map (source_row t m) (source_ids n)))) (of_nat s) = Some (source_row t m s)"
    "os_delivered (source_row t m s) + os_lost (source_row t m s) = m + 1" "0 < os_delivered (source_row t m s)"
proof -
  have id: "os_source_id (source_row t m s) = of_nat s" for s by (simp add: source_row_def)
  have "inj_on (\<lambda>s. of_nat s :: u32) (set (source_ids n))"
  proof (rule inj_onI)
    fix a b assume "a \<in> set (source_ids n)" "b \<in> set (source_ids n)" "(of_nat a :: u32) = of_nat b"
    moreover from this have "a < 2 ^ 32" "b < 2 ^ 32" using assms(2) by (auto simp: source_ids_def)
    ultimately show "a = b" by (simp add: word_of_nat_eq_iff take_bit_nat_eq_self)
  qed
  moreover have "distinct (source_ids n)" by (simp add: source_ids_def)
  ultimately have "distinct (map fst (rev (map (\<lambda>x. (os_source_id x, x)) (map (source_row t m) (source_ids n)))))"
    by (simp add: distinct_map comp_def id rev_map [symmetric])
  then show "map_of (rev (map (\<lambda>x. (os_source_id x, x)) (map (source_row t m) (source_ids n)))) (of_nat s) = Some (source_row t m s)"
    using assms(3) by (auto simp: id image_iff simp del: rev_map)
  show "os_delivered (source_row t m s) + os_lost (source_row t m s) = m + 1" "0 < os_delivered (source_row t m s)"
    using assms(1) [OF assms(3)] by (auto simp: reconciled_def source_row_def)
qed

lemma assert_expected_ok:
  assumes "\<And>s. s \<in> set ids \<Longrightarrow> f (of_nat s) = Some (row s) \<and> os_expected_total (row s) = m + 1 \<and> os_delivered (row s) + os_lost (row s) = m + 1"
    "m + 1 < u64_limit"
  shows "assert_expected_sources Fenced f (map (\<lambda>s. \<lparr>xs_run_id = 1, xs_source_id = of_nat s, xs_expected_total = m + 1\<rparr>) ids) = Ok ()"
  using assms by (induction ids) simp_all

lemma report_accepted:
  assumes ok: "stream_ok cap n m" and rec: "\<And>s. s \<in> set (source_ids n) \<Longrightarrow> reconciled t m s"
    and rows: "rp_sources r = map (source_row t m) (source_ids n)"
      "rp_delivered_total r = sum_list (map os_delivered (rp_sources r))" "rp_lost_total r = sum_list (map os_lost (rp_sources r))"
    and progress: "100 * cap < rp_head_abs r" "0 < rp_lost_count r" "rp_stale_violations r = []"
  shows "assert_run_result Fenced cap n m r = Ok ()"
proof -
  note d = stream_okD [OF ok]
  have m: "m + 1 < u64_limit" using d(4) by (simp add: u64_limit_def)
  have nm: "n + n * m < u64_limit" "cap * 100 < u64_limit" using d(2,3) by (simp_all add: u64_limit_def)
  note row = source_rows [OF rec d(5)]
  have total: "rp_delivered_total r + rp_lost_total r = n + n * m"
    using sum_list_const [of "source_ids n" "os_delivered \<circ> source_row t m" "os_lost \<circ> source_row t m" "m + 1"] row(2)
    by (simp add: rows)
  have "1 \<in> set (source_ids n)" using d(6) by (auto simp: source_ids_def)
  then have "os_delivered (source_row t m 1) \<in> set (map os_delivered (rp_sources r))" "0 < os_delivered (source_row t m 1)"
    using row(3) by (simp_all add: rows(1))
  then have "0 < rp_delivered_total r" using member_le_sum_list [of _ "map os_delivered (rp_sources r)"] by (fastforce simp: rows(2))
  moreover have "assert_expected_sources Fenced (map_of (rev (map (\<lambda>x. (os_source_id x, x)) (rp_sources r))))
      (map (\<lambda>s. \<lparr>xs_run_id = 1, xs_source_id = of_nat s, xs_expected_total = m + 1\<rparr>) (source_ids n)) = Ok ()"
    unfolding rows(1) by (rule assert_expected_ok [where row = "source_row t m"]) (use row m in \<open>auto simp: source_row_def\<close>)
  ultimately show ?thesis
    using progress total nm m expected_sources_eq [OF m, of n, where 'a = HarnessError]
    by (simp add: assert_run_result_def u64_mul_def mult.commute)
qed

text \<open>The state in which the consumer leaves its loop.\<close>

lemma finished_reconciles:
  assumes ok: "stream_ok cap n m" and fit: "136 * n \<le> cap"
  defines "es \<equiv> stamped_chain cap 0 (harness_plan n m)"
  assumes l: "live cap p R es \<tau>" and w: "watching (\<lambda>k. R ! \<tau> k) cap st k batches"
    and last: "\<tau> k = length R - 1" and cur: "cc_cursor_abs (cs_raw st) = cp_head_abs p"
  shows "bo_violations (cs_observer st) = [] \<and> (\<forall>s \<in> set (source_ids n). reconciled (lac_tracker (cs_accounting st)) m s)"
proof -
  note d = liveD [OF l]
  have pl: "polled (shared_snapshot (\<lambda>k. R ! \<tau> k)) (\<lambda>k. ring_view cap (R ! \<tau> k)) cap k (cs_raw st) batches"
    and ob: "observe_batches embedded_observe (observer_new ()) batches = (cs_observer st, Ok ())"
    and acc: "account_all (tracker_new DEFAULT_BUFFER_ID) (map rr_record (delivered batches)) = (Ok (lac_tracker (cs_accounting st)) :: (_, HarnessError) outcome)"
    using w by (simp_all add: watching_def)
  note D = live_delivery [OF l pl]
  from shared_produced_inv [OF d(1)] obtain S where S: "R = map snd S" "shared_inv cap p S es" by blast
  then have pi: "producer_inv cap p (map (ring_view cap \<circ> snd) S) es" and ne: "S \<noteq> []" by (auto simp: shared_inv_def producer_inv_def)
  have Rl: "R ! \<tau> k = last R" using last S(1) ne by (simp add: last_conv_nth)
  then have "ring_view cap (R ! \<tau> k) = List.last (map (ring_view cap \<circ> snd) S)" using S(1) ne by (simp add: last_map)
  then have old: "list_all (\<lambda>x. rr_start_abs x < cr_oldest_abs (ring_view cap (R ! \<tau> k)) \<longrightarrow> rr_start_abs x + cap < cp_head_abs p) es"
    and es: "entries_ok es" and hd: "es \<noteq> [] \<Longrightarrow> cp_head_abs p = rr_end_abs (List.last es)"
    using pi by (simp_all add: producer_inv_def split: if_splits)
  have "bo_violations (cs_observer st) = []"
    using embedded_silent [OF es D(2)] stream_ascends [OF ok] stream_sane(2,5) [OF ok] ob unfolding es_def by (auto simp: list_all_iff)
  moreover have "reconciled (lac_tracker (cs_accounting st)) m s" if s: "s \<in> set (source_ids n)" for s
  proof -
    have "0 < s" "s \<le> n" using s by (auto simp: source_ids_def)
    from high_water_near [OF ok this] obtain x where x: "x \<in> set es" "stream_of x = (1, of_nat s)" "unat (rec_seq (rr_record x)) = m"
      "chain_end 0 es \<le> rr_start_abs x + 136 * n" unfolding es_def by blast
    then have "es \<noteq> []" by auto
    then have h: "cp_head_abs p = chain_end 0 es" using hd by (simp add: chain_end_def)
    then have "cr_oldest_abs (ring_view cap (R ! \<tau> k)) \<le> rr_start_abs x" using old x(1,4) fit by (force simp: list_all_iff)
    moreover have "rr_start_abs x < cp_head_abs p"
    proof -
      have "rr_start_abs x < rr_end_abs x" using es x(1) by (simp add: entries_ok_def list_all_iff)
      moreover have "x = List.last es \<or> rr_end_abs x \<le> rr_start_abs (List.last es)" "rr_start_abs (List.last es) < rr_end_abs (List.last es)"
        using es x(1) \<open>es \<noteq> []\<close> by (cases es rule: rev_cases; auto simp: entries_ok_def sorted_wrt_append)+
      ultimately show ?thesis using hd \<open>es \<noteq> []\<close> by auto
    qed
    ultimately have "x \<in> set (delivered batches)" using D(3) x(1) cur by simp
    from source_reconciles [OF ok D(2) [unfolded es_def] acc this x(2,3)] show ?thesis
      using tracker_lost_any [where 'e = HarnessError and 'f = RingError] by (auto simp: reconciled_def)
  qed
  ultimately show ?thesis by blast
qed

lemma mapping_evicted:
  assumes pr: "shared_produced cap p R es" and es: "length es < 2 ^ 31" "es \<noteq> []" and full: "cap < cp_head_abs p"
  shows "0 < cr_lost_count (ring_view cap (last R))"
proof -
  from shared_produced_inv [OF pr] obtain S where S: "R = map snd S" "shared_inv cap p S es" by blast
  then have pi: "producer_inv cap p (map (ring_view cap \<circ> snd) S) es" by (simp add: shared_inv_def)
  then obtain m where m: "cp_spans p = map span_of (retained es m)" "cp_head_abs p \<le> cr_oldest_abs m + cap" "rr_start_abs (hd es) = 0"
    using es(2) by (auto simp: producer_inv_def entries_ok_def)
  then have "hd es \<notin> set (retained es m)" using full by (auto simp: retained_def)
  then have "length (cp_spans p) < length es"
    using es(2) m(1) by (cases es) (auto simp: retained_def le_imp_less_Suc split: if_splits)
  moreover have "u64_at (last R) OFF_LOST_COUNT + of_nat (length (cp_spans p)) = of_nat (length es)" by (rule shared_loss_counted [OF pr])
  ultimately have "u64_at (last R) OFF_LOST_COUNT \<noteq> 0"
    using es(1) by (auto simp: word_of_nat_eq_iff take_bit_nat_eq_self)
  then show ?thesis by (simp add: ring_view_def unat_gt_0)
qed

section \<open>A fenced run\<close>

text \<open>The conditions on the arguments under which a run must succeed: the last record of every source fits into the
  ring at the end, and the stream is long enough for the progress the judgement demands.\<close>

definition run_fits :: "RunArgs \<Rightarrow> bool" where
  "run_fits args \<longleftrightarrow> stream_ok (ra_cap args) (ra_sources args) (ra_per_source args) \<and> 136 * ra_sources args \<le> ra_cap args
     \<and> 100 * ra_cap args < 56 * (ra_sources args * (ra_per_source args + 1)) \<and> ra_fence_mode args = Fenced"

lemma report_of_finished:
  assumes ok: "stream_ok cap n m" and fit: "136 * n \<le> cap" and long: "100 * cap < 56 * (n * (m + 1))"
  defines "es \<equiv> stamped_chain cap 0 (harness_plan n m)"
  assumes l: "live cap p R es \<tau>" and h: "cp_head_abs p = chain_end 0 es"
    and d: "\<And>k. done_exists k \<Longrightarrow> \<tau> k = length R - 1"
    and run: "consumer_loop (\<lambda>k. R ! \<tau> k) cap done_exists expired consumer_start 0 = Some (k, Ok st)"
    and args: "ca_sources args = n" "ca_per_source args = m"
  shows "\<exists>k' report. consumer_report (\<lambda>k. R ! \<tau> k) cap args st k = (k', Ok report)
     \<and> assert_run_result Fenced cap n m report = Ok () \<and> report_ok report
     \<and> list_all (\<lambda>s. os_delivered s + os_lost s = m + 1) (rp_sources report)"
proof -
  note L = liveD [OF l] and D = stream_okD [OF ok]
  from loop_finishes [OF l watching_start run] obtain batches where w: "watching (\<lambda>k. R ! \<tau> k) cap st k batches" "0 < k"
    "done_exists (k - 1)" "cc_cursor_abs (cs_raw st) = cr_head_abs (ring_view cap (R ! \<tau> (k - 1)))" by blast
  have t: "\<tau> j = length R - 1" if "k - 1 \<le> j" for j
  proof -
    have "\<tau> (k - 1) \<le> \<tau> j" "\<tau> j < length R" using L(2) that by (auto simp: schedule_def mono_def)
    then show ?thesis using d [OF w(3)] by simp
  qed
  have R: "R ! \<tau> j = last R" if "k - 1 \<le> j" for j using t [OF that] shared_last(1) [OF L(1)] by (simp add: last_conv_nth)
  have cur: "cc_cursor_abs (cs_raw st) = cp_head_abs p" using w(4) R [of "k - 1"] shared_last(4) [OF L(1)] by simp
  from finished_reconciles [OF ok fit l [unfolded es_def] w(1) t cur]
  have quiet: "bo_violations (cs_observer st) = []"
    and rec: "\<And>s. s \<in> set (source_ids n) \<Longrightarrow> reconciled (lac_tracker (cs_accounting st)) m s" by simp_all
  let ?t = "lac_tracker (cs_accounting st)"
  let ?rows = "map (source_row ?t m) (source_ids n)"
  have m: "m + 1 < u64_limit" "n + n * m < u64_limit" using D(3,4) by (simp_all add: u64_limit_def)
  note row = source_rows [OF rec D(5)]
  have total: "sum_list (map os_delivered ?rows) + sum_list (map os_lost ?rows) = n + n * m"
    using sum_list_const [of "source_ids n" "os_delivered \<circ> source_row ?t m" "os_lost \<circ> source_row ?t m" "m + 1"] row(2) by simp
  then have sums: "u64_sum 0 (map os_delivered ?rows) = (Ok (sum_list (map os_delivered ?rows)) :: (_, RingError) outcome)"
    "u64_sum 0 (map os_lost ?rows) = (Ok (sum_list (map os_lost ?rows)) :: (_, RingError) outcome)"
    using m(2) sum_ok [of 0 "map os_delivered ?rows", where 'a = RingError] sum_ok [of 0 "map os_lost ?rows", where 'a = RingError] by simp_all
  have len: "length es = n * (m + 1)" by (simp add: es_def length_plan)
  have head: "100 * cap < cp_head_abs p"
    using chain_end_bounds [OF D(1), of 0 "harness_plan n m"] long h by (simp add: es_def length_plan)
  have lost: "0 < cr_lost_count (ring_view cap (last R))"
    using mapping_evicted [OF L(1,3)] len D(6) head by fastforce
  note eval = expected_sources_eq [OF m(1), of n, where 'a = HarnessError] observe_sources_eq [OF rec] sums
  have "\<exists>k' report. consumer_report (\<lambda>k. R ! \<tau> k) cap args st k = (k', Ok report)"
    using eval by (simp add: consumer_report_def args load_err_def from_consumer_def load_head_acquire_def load_lost_acquire_def)
  then obtain k' report where rep: "consumer_report (\<lambda>k. R ! \<tau> k) cap args st k = (k', Ok report)" by blast
  have r: "rp_sources report = ?rows" "rp_delivered_total report = sum_list (map os_delivered ?rows)"
    "rp_lost_total report = sum_list (map os_lost ?rows)" "rp_head_abs report = cp_head_abs p"
    "rp_lost_count report = cr_lost_count (ring_view cap (last R))" "rp_stale_violations report = []"
    "rp_mode report = run_mode_as_str (ca_mode args)" "rp_append_mode report = append_mode_as_str (ca_append_mode args)"
    "rp_cap report = cap" "rp_lapped_batches report = cc_lapped_batches (cs_raw st)" "rp_poll_errors report = 0"
    "rp_overwritten_retries report = cc_overwritten_retries (cs_raw st)" "rp_rejected_records report = cc_rejected_records (cs_raw st)"
    using rep eval R [of k] R [of "Suc k"] shared_last(4) [OF L(1)]
    by (auto simp: consumer_report_def args load_err_eq from_consumer_def load_head_acquire_def load_lost_acquire_def quiet)
  have acc: "assert_run_result Fenced cap n m report = Ok ()"
    by (rule report_accepted [OF ok rec]) (simp_all add: r head lost)
  have "polled (shared_snapshot (\<lambda>k. R ! \<tau> k)) (\<lambda>k. ring_view cap (R ! \<tau> k)) cap k (cs_raw st) batches"
    using w(1) by (simp add: watching_def)
  note c = polled_counters [OF this]
  have "os_delivered x < u64_limit \<and> os_lost x < u64_limit \<and> os_expected_total x < u64_limit" if "x \<in> set ?rows" for x
    using that row(2) m(1) by (force simp: source_row_def)
  moreover have "word_text (run_mode_as_str (ca_mode args))" "word_text (append_mode_as_str (ca_append_mode args))"
    by (cases "ca_mode args"; simp)+ (cases "ca_append_mode args"; simp)+
  moreover have "cr_head_abs (ring_view cap (last R)) < u64_limit" "cr_lost_count (ring_view cap (last R)) < u64_limit" "cap < u64_limit"
    using D(2) by (simp add: ring_view_def, simp add: ring_view_def, simp add: u64_limit_def)
  ultimately have "report_ok report"
    using c total m(2) shared_last(4) [OF L(1)] unfolding report_ok_def r by (auto simp: list_all_iff)
  moreover have "list_all (\<lambda>s. os_delivered s + os_lost s = m + 1) (rp_sources report)"
    using row(2) unfolding r by (auto simp: list_all_iff)
  ultimately show ?thesis using acc rep by blast
qed

lemma source_lines_ok:
  "list_all (\<lambda>s. os_delivered s + os_lost s < u64_limit) ss \<Longrightarrow> \<exists>lines. run_source_lines ss = (Ok lines :: (_, 'e) outcome)"
  by (induction ss) auto

section \<open>The outcome of the loop\<close>

lemma batch_accepted:
  assumes ok: "stream_ok cap n m"
  defines "es \<equiv> stamped_chain cap 0 (harness_plan n m)"
  assumes l: "live cap p R es \<tau>" and w: "watching (\<lambda>k. R ! \<tau> k) cap st k batches"
    and poll: "shared_poll (\<lambda>k. R ! \<tau> k) cap (cs_raw st) k = (k1, Ok (c, b))"
  shows "\<exists>bo a. observe_batch embedded_observe (cs_observer st) b = (bo, Ok ())
     \<and> lac_account_batch (cs_accounting st) b = (Ok a :: (_, HarnessError) outcome)"
proof -
  have pl: "polled (shared_snapshot (\<lambda>k. R ! \<tau> k)) (\<lambda>k. ring_view cap (R ! \<tau> k)) cap k (cs_raw st) batches"
    and ob: "observe_batches embedded_observe (observer_new ()) batches = (cs_observer st, Ok ())"
    and acc: "account_all (tracker_new DEFAULT_BUFFER_ID) (map rr_record (delivered batches)) = (Ok (lac_tracker (cs_accounting st)) :: (_, HarnessError) outcome)"
    using w by (simp_all add: watching_def)
  have sub: "subseq (delivered (batches @ [b])) es"
    by (rule live_delivery(2) [OF l polled.poll [OF pl poll [unfolded shared_poll_def]]])
  have mem: "x \<in> set es" if "x \<in> set (delivered (batches @ [b]))" for x by (rule list_emb_set [OF sub that]) simp
  have ent: "entries_ok es" using shared_publisher.entries_law liveD(1) [OF l] by blast
  obtain bo where "observe_batches embedded_observe (observer_new ()) (batches @ [b]) = (bo, Ok ())"
    using embedded_silent [OF ent sub] stream_ascends [OF ok] stream_sane(2,5) [OF ok] unfolding es_def by (auto simp: list_all_iff)
  then have obs: "observe_batch embedded_observe (cs_observer st) b = (bo, Ok ())"
    using ob by (simp add: observe_batches_append split: prod.splits outcome.splits)
  have "list_all loss_sane (map rr_record (delivered (batches @ [b])))"
    using stream_sane(1) [OF ok] mem unfolding es_def by (auto simp: list_all_iff)
  from account_all_inv [OF loss_inv_new this, of DEFAULT_BUFFER_ID, where 'e = HarnessError] acc obtain t where
    "account_all (lac_tracker (cs_accounting st)) (map rr_record (rb_records b)) = (Ok t :: (_, HarnessError) outcome)"
    by (auto simp: account_all_append)
  with obs show ?thesis by (simp add: lac_account_batch_def)
qed

lemma consumer_finishes:
  assumes ok: "stream_ok cap n m"
  defines "es \<equiv> stamped_chain cap 0 (harness_plan n m)"
  assumes l: "live cap p R es \<tau>" and w: "watching (\<lambda>k. R ! \<tau> k) cap st k batches"
    and room: "cc_lapped_batches (cs_raw st) + 1 < u64_limit"
    and rest: "\<And>j. k \<le> j \<Longrightarrow> \<tau> j = length R - 1 \<and> done_exists j"
  shows "\<exists>k' st'. consumer_loop (\<lambda>k. R ! \<tau> k) cap done_exists expired st k = Some (k', Ok st')"
proof -
  note L = liveD [OF l]
  have pl: "polled (shared_snapshot (\<lambda>k. R ! \<tau> k)) (\<lambda>k. ring_view cap (R ! \<tau> k)) cap k (cs_raw st) batches"
    using w by (simp add: watching_def)
  have R: "R ! \<tau> j = last R" if "k \<le> j" for j using rest [OF that] shared_last(1) [OF L(1)] by (simp add: last_conv_nth)
  have ev: "even (u32_at (R ! \<tau> k) 16)" using shared_last(5) [OF L(1)] R [of k] by simp
  have pause: "\<tau> j = \<tau> k" if "k \<le> j" for j using rest [OF that] rest [of k] by simp
  from shared_paused_poll_from [OF L(1,2,4) live_delivery(1) [OF l pl] room ev pause] obtain k1 c' b where
    poll: "shared_poll (\<lambda>k. R ! \<tau> k) cap (cs_raw st) k = (k1, Ok (c', b))"
      "cc_cursor_abs c' = cr_head_abs (ring_view cap (R ! \<tau> k))" by blast
  have adv: "k < k1" by (rule live_poll_advances [OF l live_delivery(1) [OF l pl] poll(1)])
  from batch_accepted [OF ok l [unfolded es_def] w poll(1)] obtain bo a where
    obs: "observe_batch embedded_observe (cs_observer st) b = (bo, Ok ())"
    and a: "lac_account_batch (cs_accounting st) b = (Ok a :: (_, HarnessError) outcome)" by blast
  have "caught_up (\<lambda>k. R ! \<tau> k) done_exists c' k1 = (Suc k1, Ok True :: (_, HarnessError) outcome)"
    using rest [of k1] adv poll(2) R [of k] R [of k1] shared_last(2) [OF L(1)]
    by (simp add: caught_up_def shared_load_head_def load_u64_def region_simps ring_view_def)
  then have "consumer_iteration (\<lambda>k. R ! \<tau> k) cap done_exists expired st k
      = (Suc k1, Ok (\<lparr>cs_raw = c', cs_accounting = a, cs_observer = bo\<rparr>, True))"
    using poll(1) obs a by (simp add: consumer_iteration_def load_err_def)
  then show ?thesis by (simp add: consumer_loop.simps)
qed

definition torn :: "RingError \<Rightarrow> bool" where
  "torn e \<longleftrightarrow> (\<exists>a. e = UnexpectedWrapMarker a \<or> e = RecordCrossesBoundary a)"

lemma iteration_outcome:
  assumes so: "stream_ok cap n m"
  defines "es \<equiv> stamped_chain cap 0 (harness_plan n m)"
  assumes l: "live cap p R es \<tau>" and w: "watching (\<lambda>k. R ! \<tau> k) cap st k batches" and h: "cp_head_abs p + cap \<le> u64_limit"
    and n: "cc_lapped_batches (cs_raw st) \<le> N" "cc_overwritten_retries (cs_raw st) \<le> N" "cc_rejected_records (cs_raw st) \<le> N" "N + 1 < u64_limit"
  obtains (returns) k' st' finished where "consumer_iteration (\<lambda>k. R ! \<tau> k) cap done_exists expired st k = (k', Ok (st', finished))"
      "cc_lapped_batches (cs_raw st') \<le> N + 1" "cc_overwritten_retries (cs_raw st') \<le> N + 1" "cc_rejected_records (cs_raw st') \<le> N + 1"
    | (torn) k' e where "consumer_iteration (\<lambda>k. R ! \<tau> k) cap done_exists expired st k = (k', Err (HarnessRing ''consumer poll failed'' e))" "torn e"
    | (expired) k' e where "consumer_iteration (\<lambda>k. R ! \<tau> k) cap done_exists expired st k = (k', Err e)" "expired k'"
proof -
  note L = liveD [OF l]
  let ?H = "map (ring_view cap) R"
  have pub: "\<exists>p R'. shared_produced cap p R' es \<and> ?H = map (ring_view cap) R'" using L(1) by blast
  have pl: "polled (shared_snapshot (\<lambda>k. R ! \<tau> k)) (\<lambda>k. ring_view cap (R ! \<tau> k)) cap k (cs_raw st) batches"
    using w by (simp add: watching_def)
  note pt = live_delivery(1) [OF l pl]
  have "cr_head_abs (last ?H) + cap \<le> u64_limit" using shared_last(1,4) [OF L(1)] h by (simp add: last_map)
  from shared_publisher.poll_with_no_panic [OF pub L(7) this, unfolded L(6), OF L(8), of "cs_raw st" k] n
  have np: "\<not> is_panic (snd (shared_poll (\<lambda>k. R ! \<tau> k) cap (cs_raw st) k))" by (simp add: shared_poll_def)
  obtain k1 r1 where p: "shared_poll (\<lambda>k. R ! \<tau> k) cap (cs_raw st) k = (k1, r1)" by (metis surj_pair)
  show thesis
  proof (cases r1)
    case (Ok a)
    obtain c b where a: "a = (c, b)" by (metis surj_pair)
    from batch_accepted [OF so l [unfolded es_def] w p [unfolded Ok a]] obtain bo acc where
      ba: "observe_batch embedded_observe (cs_observer st) b = (bo, Ok ())"
        "lac_account_batch (cs_accounting st) b = (Ok acc :: (_, HarnessError) outcome)" by blast
    obtain k2 f where c: "caught_up (\<lambda>k. R ! \<tau> k) done_exists c k1 = (k2, Ok f :: (_, HarnessError) outcome)"
      using L(5) [of k1] by (cases "done_exists k1") (simp_all add: caught_up_def shared_load_head_def load_u64_def region_simps)
    note cnt = poll_counters [OF p [unfolded Ok a shared_poll_def]]
    have it: "consumer_iteration (\<lambda>k. R ! \<tau> k) cap done_exists expired st k
        = (if f then (k2, Ok (\<lparr>cs_raw = c, cs_accounting = acc, cs_observer = bo\<rparr>, True))
           else if expired k2 then (k2, Err (HarnessMessage ''consumer timed out before producer completion''))
           else (k2, Ok (\<lparr>cs_raw = c, cs_accounting = acc, cs_observer = bo\<rparr>, False)))"
      using p Ok a ba c by (simp add: consumer_iteration_def load_err_def)
    show thesis
    proof (cases "f \<or> \<not> expired k2")
      case True
      with it cnt n show thesis by (intro returns [of k2 "\<lparr>cs_raw = c, cs_accounting = acc, cs_observer = bo\<rparr>" f]) auto
    next
      case False
      with it show thesis by (intro expired) auto
    qed
  next
    case (Err e)
    have "torn e"
      using shared_publisher.poll_with_error [OF pub L(7) pt, unfolded L(6), OF L(8) p [unfolded Err shared_poll_def]] by (simp add: torn_def)
    with p Err show thesis by (intro torn [of k1 e]) (simp_all add: consumer_iteration_def load_err_def)
  qed (use np p in simp)
qed

lemma loop_outcome:
  assumes ok: "stream_ok cap n m"
  defines "es \<equiv> stamped_chain cap 0 (harness_plan n m)"
  assumes l: "live cap p R es \<tau>" and w: "watching (\<lambda>k. R ! \<tau> k) cap st k batches" and h: "cp_head_abs p + cap \<le> u64_limit"
    and c: "cc_lapped_batches (cs_raw st) \<le> N" "cc_overwritten_retries (cs_raw st) \<le> N" "cc_rejected_records (cs_raw st) \<le> N"
    and K: "N + (K - k) + 1 < u64_limit"
    and rest: "\<And>j. K \<le> j \<Longrightarrow> \<tau> j = length R - 1 \<and> done_exists j" and time: "\<And>j. \<not> expired j"
  shows "\<exists>k' r. consumer_loop (\<lambda>k. R ! \<tau> k) cap done_exists expired st k = Some (k', r)
     \<and> (case r of Ok _ \<Rightarrow> True | Err x \<Rightarrow> \<exists>e. x = HarnessRing ''consumer poll failed'' e \<and> torn e | Panic _ \<Rightarrow> False)"
  using w c K
proof (induction "K - k" arbitrary: st k batches N rule: less_induct)
  case less
  show ?case
  proof (cases "k < K")
    case False
    have "cc_lapped_batches (cs_raw st) + 1 < u64_limit" using less.prems(2,5) by simp
    from consumer_finishes [OF ok l [unfolded es_def] less.prems(1) this, of done_exists expired] rest False show ?thesis
      by (fastforce simp: not_less)
  next
    case True
    have "N + 1 < u64_limit" using less.prems(5) by simp
    from ok l [unfolded es_def] less.prems(1) h less.prems(2-4) this show ?thesis
    proof (cases rule: iteration_outcome [where done_exists = done_exists and expired = expired])
      case (returns k1 st1 fin)
      from iteration_watching [OF l less.prems(1) returns(1)] obtain bs where I: "k < k1" "watching (\<lambda>k. R ! \<tau> k) cap st1 k1 bs" by blast
      show ?thesis
      proof (cases fin)
        case False
        have "K - k1 < K - k" "N + 1 + (K - k1) + 1 < u64_limit" using True I(1) less.prems(5) by simp_all
        from less.hyps [OF this(1) I(2) returns(2-4) this(2)] returns(1) False show ?thesis by (simp add: consumer_loop.simps [of _ _ _ _ st k])
      qed (use returns(1) in \<open>simp add: consumer_loop.simps [of _ _ _ _ st k]\<close>)
    next
      case (torn k1 e)
      then show ?thesis by (auto simp: consumer_loop.simps [of _ _ _ _ st k])
    next
      case (expired k1 e)
      then show ?thesis using time by blast
    qed
  qed
qed


end
