(* ===== verification/Live.thy ===== *)
theory Live
  imports Live_Consumer
begin

text \<open>
  Runs of the live harness from its arguments to the judgement: the properties of \<open>producer\<close>, \<open>consumer\<close> and \<open>run\<close>
  together.
\<close>

section \<open>Sessions\<close>

lemma producer_produces:
  assumes fits: "run_fits args" and new: "create_with_mode (\<lambda>len. Ok (replicate len 0)) (ra_cap args) Fenced = Ok store"
  defines "es \<equiv> stamped_chain (ra_cap args) 0 (harness_plan (ra_sources args) (ra_per_source args))"
  obtains pr R line where "producer_cmd True (Ok (ss_region store)) map_file (Ok ()) (producer_args_of args) = Ok ((pr, R), line)"
    "shared_produced (ra_cap args) (sp_producer pr) R es" "cp_head_abs (sp_producer pr) = chain_end 0 es" "length es < 2 ^ 31"
proof -
  have ok: "stream_ok (ra_cap args) (ra_sources args) (ra_per_source args)" using fits by (simp add: run_fits_def)
  then obtain pr R line where "producer_cmd True (Ok (ss_region store)) map_file (Ok ()) (producer_args_of args) = Ok ((pr, R), line)"
    "publishing (ra_cap args) (pr, R) es" "cp_head_abs (sp_producer pr) = chain_end 0 es"
    using producer_completes [of "producer_args_of args" Fenced store map_file] new by (auto simp: producer_args_of_def es_def)
  moreover have "length es < 2 ^ 31" using stream_okD(3) [OF ok] by (simp add: es_def length_plan)
  ultimately show thesis using that [of pr R line] by (simp add: publishing_def)
qed

lemma snd_load_then: "snd (load_then x f) = Ok a \<longleftrightarrow> (\<exists>k b. x = (k, Ok b) \<and> snd (f k b) = Ok a)"
  by (cases "(x, f)" rule: load_then.cases) auto

lemma open_region:
  assumes "length r = 128 + cap" "0 < cap"
  shows "open_existing_with_mode (Ok r) mode = Ok \<lparr>ss_region = r, ss_capacity = cap, ss_fence_mode = mode, ss_recheck_stall = 0\<rparr>"
  using assms by (simp add: open_existing_with_mode_def validate_capacity_def region_map_def)

text \<open>A session of the harness: the producer command ran on a fresh mapping whose successive contents are \<open>R\<close>, and
  load number \<open>k\<close> of the consumer meets content \<open>\<tau> k\<close>.\<close>

definition harness_session :: "RunArgs \<Rightarrow> byte_vec list \<Rightarrow> (nat \<Rightarrow> nat) \<Rightarrow> bool" where
  "harness_session args R \<tau> \<longleftrightarrow> schedule R \<tau> \<and>
     (\<exists>store map_file producer line. create_with_mode (\<lambda>len. Ok (replicate len 0)) (ra_cap args) (ra_fence_mode args) = Ok store
       \<and> producer_cmd True (Ok (ss_region store)) map_file (Ok ()) (producer_args_of args) = Ok ((producer, R), line))"

lemma session_live:
  assumes fits: "run_fits args" and s: "harness_session args R \<tau>"
  defines "es \<equiv> stamped_chain (ra_cap args) 0 (harness_plan (ra_sources args) (ra_per_source args))"
  obtains p where "live (ra_cap args) p R es \<tau>" "cp_head_abs p = chain_end 0 es" "cp_head_abs p + ra_cap args \<le> u64_limit"
proof -
  have ok: "stream_ok (ra_cap args) (ra_sources args) (ra_per_source args)" and F: "ra_fence_mode args = Fenced"
    using fits by (simp_all add: run_fits_def)
  note d = stream_okD [OF ok]
  from s obtain store map_file pr line where new: "create_with_mode (\<lambda>len. Ok (replicate len 0)) (ra_cap args) Fenced = Ok store"
    and run: "producer_cmd True (Ok (ss_region store)) map_file (Ok ()) (producer_args_of args) = Ok ((pr, R), line)" and sch: "schedule R \<tau>"
    by (auto simp: harness_session_def F)
  obtain pr' R' where "(pr, R) = (pr', R')" and P: "shared_produced (ra_cap args) (sp_producer pr') R' es"
    and h: "cp_head_abs (sp_producer pr') = chain_end 0 es" and "length es < 2 ^ 31"
    by (rule producer_produces [OF fits new, of map_file]) (use run es_def in auto)
  then have l: "live (ra_cap args) (sp_producer pr') R es \<tau>" using sch d(2) by (simp add: live_def)
  show thesis
  proof (rule that [OF l h])
    show "cp_head_abs (sp_producer pr') + ra_cap args \<le> u64_limit"
      using chain_end_bounds [OF d(1), of 0 "harness_plan (ra_sources args) (ra_per_source args)"] h d(2,3)
      by (simp add: es_def length_plan u64_limit_def)
  qed
qed

lemma session_command:
  assumes "run_fits args" "harness_session args R \<tau>"
  shows "consumer_cmd (Ok (R ! \<tau> 0)) (\<lambda>k. R ! \<tau> k) done_exists expired written (consumer_args_of args) =
    map_option (\<lambda>(k, r). snd (load_then (k, r) (\<lambda>k st.
        load_then (consumer_report (\<lambda>k. R ! \<tau> k) (ra_cap args) (consumer_args_of args) st k) (\<lambda>k observed.
        load_then (k, map_err HarnessIo written) (\<lambda>k _. (k, Ok (observed, report_summary_line observed)))))))
      (consumer_loop (\<lambda>k. R ! \<tau> k) (ra_cap args) done_exists expired consumer_start 0)"
proof -
  obtain p where l: "live (ra_cap args) p R (stamped_chain (ra_cap args) 0 (harness_plan (ra_sources args) (ra_per_source args))) \<tau>"
    using session_live [OF assms] .
  from open_region [OF liveD(5) [OF l] shared_last(3) [OF liveD(1) [OF l]], of 0] show ?thesis
    by (simp add: consumer_cmd_def with_recheck_stall_def Let_def)
qed

lemma session_report:
  assumes fits: "run_fits args" and s: "harness_session args R \<tau>" and d: "\<And>k. done_exists k \<Longrightarrow> \<tau> k = length R - 1"
    and run: "consumer_loop (\<lambda>k. R ! \<tau> k) (ra_cap args) done_exists expired consumer_start 0 = Some (k, Ok st)"
  shows "\<exists>k' report. consumer_report (\<lambda>k. R ! \<tau> k) (ra_cap args) (consumer_args_of args) st k = (k', Ok report)
     \<and> assert_run_result Fenced (ra_cap args) (ra_sources args) (ra_per_source args) report = Ok () \<and> report_ok report
     \<and> list_all (\<lambda>s. os_delivered s + os_lost s = ra_per_source args + 1) (rp_sources report)"
proof -
  have f: "stream_ok (ra_cap args) (ra_sources args) (ra_per_source args)" "136 * ra_sources args \<le> ra_cap args"
    "100 * ra_cap args < 56 * (ra_sources args * (ra_per_source args + 1))" using fits by (simp_all add: run_fits_def)
  obtain p where "live (ra_cap args) p R (stamped_chain (ra_cap args) 0 (harness_plan (ra_sources args) (ra_per_source args))) \<tau>"
    "cp_head_abs p = chain_end 0 (stamped_chain (ra_cap args) 0 (harness_plan (ra_sources args) (ra_per_source args)))"
    using session_live [OF fits s] .
  from report_of_finished [OF f this d run] show ?thesis by (simp add: consumer_args_of_def)
qed

lemma default_run_fits: "\<exists>args. run_args_parse process_id [''--mode'', run_mode_as_str mode] = Ok args \<and> run_fits args"
  by (cases mode) (simp_all add: run_args_parse_def arg_defs run_mode_parse_def run_fits_def stream_ok_def DEFAULT_CAP_def DEFAULT_SOURCES_def
      DEFAULT_PER_SOURCE_def LITMUS_CAP_def LITMUS_SOURCES_def LITMUS_PER_SOURCE_def)

lemma late_session:
  assumes "run_fits args"
  obtains R where "harness_session args R (\<lambda>_. length R - 1)"
proof -
  have ok: "stream_ok (ra_cap args) (ra_sources args) (ra_per_source args)" "ra_fence_mode args = Fenced"
    using assms by (simp_all add: run_fits_def)
  obtain store where new: "create_with_mode (\<lambda>len. Ok (replicate len 0)) (ra_cap args) Fenced = Ok store"
    using created_region [of "ra_cap args" Fenced] stream_okD(1,2) [OF ok(1)] by (auto simp: u64_limit_def)
  obtain pr R line where run: "producer_cmd True (Ok (ss_region store)) (\<lambda>_. Ok []) (Ok ()) (producer_args_of args) = Ok ((pr, R), line)"
    and "shared_produced (ra_cap args) (sp_producer pr) R (stamped_chain (ra_cap args) 0 (harness_plan (ra_sources args) (ra_per_source args)))"
    by (rule producer_produces [OF assms new])
  with shared_last(1) have "R \<noteq> []" by blast
  with new run ok(2) have "harness_session args R (\<lambda>_. length R - 1)" by (auto simp: harness_session_def schedule_def mono_def)
  then show thesis by (rule that)
qed

lemma late_report:
  assumes fits: "run_fits args" and s: "harness_session args R (\<lambda>_. length R - 1)"
  obtains report where "consumer_cmd (Ok (R ! (length R - 1))) (\<lambda>k. R ! (length R - 1)) (\<lambda>_. True) (\<lambda>_. False) (Ok ()) (consumer_args_of args)
     = Some (Ok (report, report_summary_line report))"
proof -
  have ok: "stream_ok (ra_cap args) (ra_sources args) (ra_per_source args)" using fits by (simp add: run_fits_def)
  obtain p where l: "live (ra_cap args) p R (stamped_chain (ra_cap args) 0 (harness_plan (ra_sources args) (ra_per_source args))) (\<lambda>_. length R - 1)"
    using session_live [OF fits s] .
  from consumer_finishes [OF ok l watching_start, where k = 0 and done_exists = "\<lambda>_. True" and expired = "\<lambda>_. False"] obtain k st where
    run: "consumer_loop (\<lambda>k. R ! (length R - 1)) (ra_cap args) (\<lambda>_. True) (\<lambda>_. False) consumer_start 0 = Some (k, Ok st)"
    by (auto simp: consumer_start_def consumer_with_store_def u64_limit_def)
  from session_report [OF fits s _ run] obtain k' report where
    "consumer_report (\<lambda>k. R ! (length R - 1)) (ra_cap args) (consumer_args_of args) st k = (k', Ok report)" by auto
  with run session_command [OF fits s] show thesis by (intro that [of report]) auto
qed

section \<open>Properties\<close>

text \<open>C6. A correct fenced run is accepted.  Let the producer command run on a fresh mapping, let the loads of the
  consumer fall anywhere between its stores, and let the done file appear only after the last store.  Whenever the
  consumer command returns a report and both children exit, \<open>run_once\<close> reads that report back and accepts it: every
  source's delivered and lost records add up to what it produced, no record is stale, and evictions are reported.
  The arguments are such that the last record of every source fits into the ring and the stream is long enough for
  the progress the judgement demands, as the defaults of both modes are.\<close>

theorem fenced_run_accepted:
  assumes "run_fits args" and "harness_session args R \<tau>" and "\<And>k. done_exists k \<Longrightarrow> \<tau> k = length R - 1"
    and "consumer_cmd (Ok (R ! \<tau> 0)) (\<lambda>k. R ! \<tau> k) done_exists expired (Ok ()) (consumer_args_of args) = Some (Ok (report, text))"
    and "env_map_file env = (\<lambda>len. Ok (replicate len 0))" and "env_current_exe env = Ok exe"
    and "env_spawn env = (\<lambda>_. Ok ())" and "env_wait env = (\<lambda>_. Ok ExitSuccess)"
    and "env_read env (observed_path (done_path (ra_shm args))) = Ok (report_write report)"
  shows "(\<exists>lines. run_once env iteration args = Ok (report, lines)) \<and> rp_stale_violations report = []
     \<and> list_all (\<lambda>s. os_delivered s + os_lost s = ra_per_source args + 1) (rp_sources report)"
proof -
  have F: "ra_fence_mode args = Fenced" using assms(1) by (simp add: run_fits_def)
  from assms(4) session_command [OF assms(1,2)] obtain k st where
    "consumer_loop (\<lambda>k. R ! \<tau> k) (ra_cap args) done_exists expired consumer_start 0 = Some (k, Ok st)"
    "\<exists>k'. consumer_report (\<lambda>k. R ! \<tau> k) (ra_cap args) (consumer_args_of args) st k = (k', Ok report)"
    by (auto simp: snd_load_then simp del: load_then.simps)
  with session_report [OF assms(1-3)]
  have judged: "assert_run_result Fenced (ra_cap args) (ra_sources args) (ra_per_source args) report = Ok ()" "report_ok report"
    and rows: "list_all (\<lambda>s. os_delivered s + os_lost s = ra_per_source args + 1) (rp_sources report)" by fastforce+
  have "list_all (\<lambda>s. os_delivered s + os_lost s < u64_limit) (rp_sources report)"
    using rows stream_okD(4) assms(1) by (fastforce simp: list_all_iff run_fits_def u64_limit_def)
  then obtain lines where lines: "run_source_lines (rp_sources report) = (Ok lines :: (_, HarnessError) outcome)"
    using source_lines_ok by blast
  obtain store where "create_with_mode (\<lambda>len. Ok (replicate len 0)) (ra_cap args) Fenced = Ok store"
    using assms(2) F by (auto simp: harness_session_def)
  with judged lines assms(5-9) F have "\<exists>lines. run_once env iteration args = Ok (report, lines)"
    by (simp add: run_once_def Let_def report_reads_back)
  moreover have "rp_stale_violations report = []" using judged(1) by (auto simp: assert_run_result_def outcome_simps split: if_splits)
  ultimately show ?thesis using rows by blast
qed

theorem fenced_run_accepted_witness:
  "\<exists>args R env report lines. run_args_parse 7 [''--mode'', ''smoke''] = Ok args \<and> run_fits args
     \<and> harness_session args R (\<lambda>_. length R - 1) \<and> run_once env None args = Ok (report, lines)"
proof -
  obtain args where a: "run_args_parse 7 [''--mode'', ''smoke''] = Ok args" "run_fits args" using default_run_fits [of 7 Smoke] by auto
  obtain R where s: "harness_session args R (\<lambda>_. length R - 1)" by (rule late_session [OF a(2)])
  obtain report where r: "consumer_cmd (Ok (R ! (length R - 1))) (\<lambda>k. R ! (length R - 1)) (\<lambda>_. True) (\<lambda>_. False) (Ok ()) (consumer_args_of args)
     = Some (Ok (report, report_summary_line report))" by (rule late_report [OF a(2) s])
  let ?env = "\<lparr>env_map_file = (\<lambda>len. Ok (replicate len 0)), env_current_exe = Ok ''harness'', env_can_use_taskset = False,
    env_spawn = (\<lambda>_. Ok ()), env_wait = (\<lambda>_. Ok ExitSuccess), env_read = (\<lambda>_. Ok (report_write report)),
    env_elapsed_ms = 12\<rparr>"
  from fenced_run_accepted [OF a(2) s _ r, of ?env "''harness''" None] obtain lines where "run_once ?env None args = Ok (report, lines)" by auto
  with a s show ?thesis by blast
qed

text \<open>C8. The consumer command always returns: once its deadline has passed, the loop ends at the latest with its next
  poll, whatever the producer is doing and whether or not the done file ever appears.\<close>

theorem consumer_command_returns:
  assumes "run_fits args" and "harness_session args R \<tau>" and "\<And>k. K \<le> k \<Longrightarrow> expired k"
  shows "\<exists>r. consumer_cmd (Ok (R ! \<tau> 0)) (\<lambda>k. R ! \<tau> k) done_exists expired written (consumer_args_of args) = Some r"
proof -
  obtain p where l: "live (ra_cap args) p R (stamped_chain (ra_cap args) 0 (harness_plan (ra_sources args) (ra_per_source args))) \<tau>"
    using session_live [OF assms(1,2)] .
  from session_command [OF assms(1,2)] loop_returns [OF l watching_start assms(3), where done_exists = done_exists] show ?thesis by auto
qed

theorem consumer_command_returns_witness:
  "\<exists>args R r. run_args_parse 7 [''--mode'', ''litmus''] = Ok args \<and> harness_session args R (\<lambda>_. length R - 1)
     \<and> consumer_cmd (Ok (R ! (length R - 1))) (\<lambda>_. R ! (length R - 1)) (\<lambda>_. False) (\<lambda>k. 1000 \<le> k) (Ok ()) (consumer_args_of args) = Some r"
proof -
  obtain args where a: "run_args_parse 7 [''--mode'', ''litmus''] = Ok args" "run_fits args" using default_run_fits [of 7 Litmus] by auto
  obtain R where s: "harness_session args R (\<lambda>_. length R - 1)" by (rule late_session [OF a(2)])
  from consumer_command_returns [OF a(2) s, of 1000 "\<lambda>k. 1000 \<le> k" "\<lambda>_. False" "Ok ()"] a(1) s show ?thesis by blast
qed

text \<open>C7. The consumer command is live: when the producer finishes and the done file exists before the deadline, the
  command returns a report that the judgement accepts, or stops at a record torn by the producer between two polls; it
  never panics, never times out and never reports a stale record.\<close>

theorem consumer_command_outcome:
  assumes "run_fits args" and "harness_session args R \<tau>" and "\<And>k. done_exists k \<Longrightarrow> \<tau> k = length R - 1"
    and "\<And>k. K \<le> k \<Longrightarrow> done_exists k" and "\<And>k. \<not> expired k" and "K + 1 < u64_limit"
  shows "(\<exists>report. consumer_cmd (Ok (R ! \<tau> 0)) (\<lambda>k. R ! \<tau> k) done_exists expired (Ok ()) (consumer_args_of args)
         = Some (Ok (report, report_summary_line report))
       \<and> assert_run_result Fenced (ra_cap args) (ra_sources args) (ra_per_source args) report = Ok ())
     \<or> (\<exists>e. consumer_cmd (Ok (R ! \<tau> 0)) (\<lambda>k. R ! \<tau> k) done_exists expired (Ok ()) (consumer_args_of args)
         = Some (Err (HarnessRing ''consumer poll failed'' e)) \<and> torn e)"
proof -
  have ok: "stream_ok (ra_cap args) (ra_sources args) (ra_per_source args)" using assms(1) by (simp add: run_fits_def)
  obtain p where l: "live (ra_cap args) p R (stamped_chain (ra_cap args) 0 (harness_plan (ra_sources args) (ra_per_source args))) \<tau>"
    and h: "cp_head_abs p + ra_cap args \<le> u64_limit"
    using session_live [OF assms(1,2)] .
  obtain k r where run: "consumer_loop (\<lambda>k. R ! \<tau> k) (ra_cap args) done_exists expired consumer_start 0 = Some (k, r)"
    and r: "case r of Ok _ \<Rightarrow> True | Err x \<Rightarrow> \<exists>e. x = HarnessRing ''consumer poll failed'' e \<and> torn e | Panic _ \<Rightarrow> False"
    using loop_outcome [OF ok l watching_start h, of 0 K 0 done_exists expired] assms(3-6)
    by (auto simp: consumer_start_def consumer_with_store_def)
  show ?thesis
  proof (cases r)
    case (Ok st)
    from session_report [OF assms(1-3) run [unfolded Ok]] run Ok show ?thesis by (auto simp: session_command [OF assms(1,2)])
  qed (use run r in \<open>auto simp: session_command [OF assms(1,2)]\<close>)
qed

theorem consumer_command_outcome_witness:
  "\<exists>args R r. run_args_parse 7 [''--mode'', ''litmus''] = Ok args \<and> harness_session args R (\<lambda>_. length R - 1)
     \<and> consumer_cmd (Ok (R ! (length R - 1))) (\<lambda>_. R ! (length R - 1)) (\<lambda>k. 500 \<le> k) (\<lambda>_. False) (Ok ()) (consumer_args_of args) = Some r
     \<and> r \<noteq> Err (HarnessMessage ''consumer timed out before producer completion'')"
proof -
  obtain args where a: "run_args_parse 7 [''--mode'', ''litmus''] = Ok args" "run_fits args" using default_run_fits [of 7 Litmus] by auto
  obtain R where s: "harness_session args R (\<lambda>_. length R - 1)" by (rule late_session [OF a(2)])
  from consumer_command_outcome [OF a(2) s, of "\<lambda>k. 500 \<le> k" 500 "\<lambda>_. False"] a(1) s show ?thesis by (auto simp: u64_limit_def)
qed

end
