(* ===== verification/Vector_Records.thy ===== *)
theory Vector_Records
  imports Registry Wire
begin

text \<open>
  The records of the conformance vectors, \<open>crates/carriage/src/vectors.rs\<close>: one definition per function that builds a
  record, its slots in the order in which they are pushed.  A signed payload is the two's complement of its value and
  a floating-point payload its bit pattern.
\<close>

unbundle bit_operations_syntax

definition with_slots :: "Record \<Rightarrow> Slot list \<Rightarrow> Record" where
  "with_slots r slots = r\<lparr>rec_slots := rec_slots r @ slots\<rparr>"

definition minimal_record :: "u32 \<Rightarrow> u64 \<Rightarrow> Record" where
  "minimal_record source_id seq = record_new (1780000000000000000 + seq) 1 seq source_id EVENT_MESSAGE"

text \<open>The source time of a minimal record is a checked sum in the source; it does not overflow for the sequence
  numbers of the vectors, all below 100.\<close>

lemma minimal_record_time: "unat seq < 2 ^ 62 \<Longrightarrow> unat (rec_source_time (minimal_record source_id seq)) = 1780000000000000000 + unat seq"
  by (simp add: minimal_record_def record_new_def unat_plus_simple [THEN iffD1] unat_word_ariths)

definition record_with_crc :: "Record \<Rightarrow> Record" where
  "record_with_crc r = r\<lparr>rec_flags := rec_flags r OR FLAG_HAS_CRC\<rparr>"

definition state_transition_record :: Record where
  "state_transition_record =
     with_slots (record_new 0x0102030405060708 1 2 42 EVENT_STATE_TRANSITION)
     [slot_new 0x0001 TY_UINT (u16_to_le_bytes 0x1234),
      slot_new 0x0002 TY_UINT (u16_to_le_bytes 2)]"

definition conformant_state_transition_record :: Record where
  "conformant_state_transition_record =
     with_slots (record_new 1000000000 1 1 66 EVENT_STATE_TRANSITION)
     [slot_new KEY_STATE_MACHINE_ID TY_UDINT (u32_to_le_bytes 7),
      slot_new KEY_CATEGORY TY_UINT (u16_to_le_bytes 2),
      slot_new KEY_PREVIOUS_STATE TY_UINT (u16_to_le_bytes 3),
      slot_new KEY_NEW_STATE TY_UINT (u16_to_le_bytes 4)]"

definition conformant_value_changed_real_record :: Record where
  "conformant_value_changed_real_record =
     with_slots (record_new 1000000020 1 3 66 EVENT_VALUE_CHANGED)
     [slot_new KEY_VALUE_ID TY_UDINT (u32_to_le_bytes 2001),
      slot_new KEY_NEW_VALUE TY_REAL (u32_to_le_bytes 0x41480000)]"

definition conformant_value_changed_dint_record :: Record where
  "conformant_value_changed_dint_record =
     with_slots (record_new 1000000030 1 4 66 EVENT_VALUE_CHANGED)
     [slot_new KEY_VALUE_ID TY_UDINT (u32_to_le_bytes 2002),
      slot_new KEY_NEW_VALUE TY_DINT (u32_to_le_bytes 42),
      slot_new KEY_PREVIOUS_VALUE TY_DINT (u32_to_le_bytes 40),
      slot_new KEY_QUALITY TY_UINT (u16_to_le_bytes 0)]"

definition conformant_value_changed_bool_record :: Record where
  "conformant_value_changed_bool_record =
     with_slots (record_new 1000000040 1 5 66 EVENT_VALUE_CHANGED)
     [slot_new KEY_VALUE_ID TY_UDINT (u32_to_le_bytes 2003),
      slot_new KEY_NEW_VALUE TY_BOOL [1]]"

definition conformant_value_changed_sint_record :: Record where
  "conformant_value_changed_sint_record =
     with_slots (record_new 1000000050 1 6 66 EVENT_VALUE_CHANGED)
     [slot_new KEY_VALUE_ID TY_UDINT (u32_to_le_bytes 2004),
      slot_new KEY_NEW_VALUE TY_SINT [(- 5)]]"

definition conformant_value_changed_usint_record :: Record where
  "conformant_value_changed_usint_record =
     with_slots (record_new 1000000060 1 7 66 EVENT_VALUE_CHANGED)
     [slot_new KEY_VALUE_ID TY_UDINT (u32_to_le_bytes 2005),
      slot_new KEY_NEW_VALUE TY_USINT [250]]"

definition conformant_value_changed_int_record :: Record where
  "conformant_value_changed_int_record =
     with_slots (record_new 1000000070 1 8 66 EVENT_VALUE_CHANGED)
     [slot_new KEY_VALUE_ID TY_UDINT (u32_to_le_bytes 2006),
      slot_new KEY_NEW_VALUE TY_INT (u16_to_le_bytes (- 1234))]"

definition conformant_value_changed_uint_record :: Record where
  "conformant_value_changed_uint_record =
     with_slots (record_new 1000000080 1 9 66 EVENT_VALUE_CHANGED)
     [slot_new KEY_VALUE_ID TY_UDINT (u32_to_le_bytes 2007),
      slot_new KEY_NEW_VALUE TY_UINT (u16_to_le_bytes 1234)]"

definition conformant_value_changed_udint_record :: Record where
  "conformant_value_changed_udint_record =
     with_slots (record_new 1000000090 1 10 66 EVENT_VALUE_CHANGED)
     [slot_new KEY_VALUE_ID TY_UDINT (u32_to_le_bytes 2008),
      slot_new KEY_NEW_VALUE TY_UDINT (u32_to_le_bytes 123456)]"

definition conformant_value_changed_ulint_record :: Record where
  "conformant_value_changed_ulint_record =
     with_slots (record_new 1000000100 1 11 66 EVENT_VALUE_CHANGED)
     [slot_new KEY_VALUE_ID TY_UDINT (u32_to_le_bytes 2009),
      slot_new KEY_NEW_VALUE TY_ULINT (u64_to_le_bytes 1234567890123)]"

definition conformant_value_changed_lint_record :: Record where
  "conformant_value_changed_lint_record =
     with_slots (record_new 1000000110 1 12 66 EVENT_VALUE_CHANGED)
     [slot_new KEY_VALUE_ID TY_UDINT (u32_to_le_bytes 2010),
      slot_new KEY_NEW_VALUE TY_LINT (u64_to_le_bytes (- 1234567890123))]"

definition conformant_value_changed_lreal_record :: Record where
  "conformant_value_changed_lreal_record =
     with_slots (record_new 1000000120 1 13 66 EVENT_VALUE_CHANGED)
     [slot_new KEY_VALUE_ID TY_UDINT (u32_to_le_bytes 2011),
      slot_new KEY_NEW_VALUE TY_LREAL (u64_to_le_bytes 0x4028800000000000)]"

definition conformant_value_changed_string_record :: Record where
  "conformant_value_changed_string_record =
     with_slots (record_new 1000000130 1 14 66 EVENT_VALUE_CHANGED)
     [slot_new KEY_VALUE_ID TY_UDINT (u32_to_le_bytes 2012),
      slot_new KEY_NEW_VALUE TY_STRING (map of_char ''ready'')]"

definition conformant_message_record :: Record where
  "conformant_message_record =
     with_slots (record_new 1000000010 1 2 66 EVENT_MESSAGE)
     [slot_new KEY_MESSAGE_TEMPLATE_ID TY_UDINT (u32_to_le_bytes 1001),
      slot_new KEY_ARG TY_STRING (map of_char ''phase ready''),
      slot_new KEY_SEVERITY TY_UINT (u16_to_le_bytes 500)]"

definition conformant_condition_active_record :: Record where
  "conformant_condition_active_record =
     with_slots (record_new 1000000140 1 15 66 EVENT_CONDITION_ACTIVE)
     [slot_new KEY_CONDITION_ID TY_UDINT (u32_to_le_bytes 9001),
      slot_new KEY_CONDITION_CLASS TY_UINT (u16_to_le_bytes 0),
      slot_new KEY_CORRELATION_ID TY_UDINT (u32_to_le_bytes 77),
      slot_new KEY_SEVERITY TY_UINT (u16_to_le_bytes 900),
      slot_new KEY_CAUSE_OPERAND TY_UDINT (u32_to_le_bytes 1)]"

definition conformant_condition_cleared_record :: Record where
  "conformant_condition_cleared_record =
     with_slots (record_new 1000000150 1 16 66 EVENT_CONDITION_CLEARED)
     [slot_new KEY_CONDITION_ID TY_UDINT (u32_to_le_bytes 9001),
      slot_new KEY_CONDITION_CLASS TY_UINT (u16_to_le_bytes 0),
      slot_new KEY_CORRELATION_ID TY_UDINT (u32_to_le_bytes 77)]"

definition conformant_condition_acknowledged_record :: Record where
  "conformant_condition_acknowledged_record =
     with_slots (record_new 1000000160 1 17 66 EVENT_CONDITION_ACKNOWLEDGED)
     [slot_new KEY_CONDITION_ID TY_UDINT (u32_to_le_bytes 9001),
      slot_new KEY_CORRELATION_ID TY_UDINT (u32_to_le_bytes 77),
      slot_new KEY_ACK_BY TY_STRING (map of_char ''operator-a'')]"

definition conformant_condition_confirmed_record :: Record where
  "conformant_condition_confirmed_record =
     with_slots (record_new 1000000200 1 21 66 EVENT_CONDITION_CONFIRMED)
     [slot_new KEY_CONDITION_ID TY_UDINT (u32_to_le_bytes 9001),
      slot_new KEY_CORRELATION_ID TY_UDINT (u32_to_le_bytes 77),
      slot_new KEY_ACK_BY TY_STRING (map of_char ''operator-a'')]"

definition conformant_condition_shelved_record :: Record where
  "conformant_condition_shelved_record =
     with_slots (record_new 1000000170 1 18 66 EVENT_CONDITION_SHELVED)
     [slot_new KEY_CONDITION_ID TY_UDINT (u32_to_le_bytes 9001),
      slot_new KEY_CORRELATION_ID TY_UDINT (u32_to_le_bytes 77),
      slot_new KEY_ACK_BY TY_STRING (map of_char ''operator-a''),
      slot_new KEY_SHELVE_SECS TY_UDINT (u32_to_le_bytes 300)]"

definition conformant_condition_unshelved_record :: Record where
  "conformant_condition_unshelved_record =
     with_slots (record_new 1000000210 1 22 66 EVENT_CONDITION_UNSHELVED)
     [slot_new KEY_CONDITION_ID TY_UDINT (u32_to_le_bytes 9001),
      slot_new KEY_CORRELATION_ID TY_UDINT (u32_to_le_bytes 77)]"

definition conformant_condition_suppressed_record :: Record where
  "conformant_condition_suppressed_record =
     with_slots (record_new 1000000180 1 19 66 EVENT_CONDITION_SUPPRESSED)
     [slot_new KEY_CONDITION_ID TY_UDINT (u32_to_le_bytes 9001),
      slot_new KEY_REASON TY_STRING (map of_char ''maintenance'')]"

definition conformant_condition_unsuppressed_record :: Record where
  "conformant_condition_unsuppressed_record =
     with_slots (record_new 1000000220 1 23 66 EVENT_CONDITION_UNSUPPRESSED)
     [slot_new KEY_CONDITION_ID TY_UDINT (u32_to_le_bytes 9001)]"

definition conformant_condition_out_of_service_record :: Record where
  "conformant_condition_out_of_service_record =
     with_slots (record_new 1000000190 1 20 66 EVENT_CONDITION_OUT_OF_SERVICE)
     [slot_new KEY_CONDITION_ID TY_UDINT (u32_to_le_bytes 9001),
      slot_new KEY_ACK_BY TY_STRING (map of_char ''operator-a'')]"

definition conformant_condition_in_service_record :: Record where
  "conformant_condition_in_service_record =
     with_slots (record_new 1000000230 1 24 66 EVENT_CONDITION_IN_SERVICE)
     [slot_new KEY_CONDITION_ID TY_UDINT (u32_to_le_bytes 9001)]"

definition conformant_condition_reset_record :: Record where
  "conformant_condition_reset_record =
     with_slots (record_new 1000000240 1 25 66 EVENT_CONDITION_RESET)
     [slot_new KEY_CONDITION_ID TY_UDINT (u32_to_le_bytes 9001),
      slot_new KEY_CORRELATION_ID TY_UDINT (u32_to_le_bytes 77),
      slot_new KEY_ACK_BY TY_STRING (map of_char ''operator-a'')]"

definition conformant_condition_commented_record :: Record where
  "conformant_condition_commented_record =
     with_slots (record_new 1000000250 1 26 66 EVENT_CONDITION_COMMENTED)
     [slot_new KEY_CONDITION_ID TY_UDINT (u32_to_le_bytes 9001),
      slot_new KEY_CORRELATION_ID TY_UDINT (u32_to_le_bytes 77),
      slot_new KEY_COMMENT TY_STRING (map of_char ''operator comment''),
      slot_new KEY_ACK_BY TY_STRING (map of_char ''operator-a'')]"

definition conformant_condition_priority_changed_record :: Record where
  "conformant_condition_priority_changed_record =
     with_slots (record_new 1000000260 1 27 66 EVENT_CONDITION_PRIORITY_CHANGED)
     [slot_new KEY_CONDITION_ID TY_UDINT (u32_to_le_bytes 9001),
      slot_new KEY_PREVIOUS_PRIORITY TY_UINT (u16_to_le_bytes 600),
      slot_new KEY_NEW_PRIORITY TY_UINT (u16_to_le_bytes 900),
      slot_new KEY_ACK_BY TY_STRING (map of_char ''operator-a'')]"

definition conformant_recipe_loaded_record :: Record where
  "conformant_recipe_loaded_record =
     with_slots (record_new 1000000270 1 28 66 EVENT_RECIPE_LOADED)
     [slot_new KEY_RECIPE_ID TY_UDINT (u32_to_le_bytes 3001),
      slot_new KEY_RECIPE_VERSION TY_STRING (map of_char ''v1.2.3''),
      slot_new KEY_BATCH_ID TY_UDINT (u32_to_le_bytes 4001)]"

definition conformant_recipe_approved_record :: Record where
  "conformant_recipe_approved_record =
     with_slots (record_new 1000000280 1 29 66 EVENT_RECIPE_APPROVED)
     [slot_new KEY_RECIPE_ID TY_UDINT (u32_to_le_bytes 3001),
      slot_new KEY_RECIPE_VERSION TY_STRING (map of_char ''v1.2.3''),
      slot_new KEY_AUTH_RESULT TY_UINT (u16_to_le_bytes 1),
      slot_new KEY_ACK_BY TY_STRING (map of_char ''approver-a'')]"

definition conformant_batch_event_record :: Record where
  "conformant_batch_event_record =
     with_slots (record_new 1000000290 1 30 66 EVENT_BATCH_EVENT)
     [slot_new KEY_BATCH_ID TY_UDINT (u32_to_le_bytes 4001),
      slot_new KEY_NEW_STATE TY_UINT (u16_to_le_bytes 2),
      slot_new KEY_RECIPE_ID TY_UDINT (u32_to_le_bytes 3001)]"

definition conformant_material_addition_record :: Record where
  "conformant_material_addition_record =
     with_slots (record_new 1000000300 1 31 66 EVENT_MATERIAL_ADDITION)
     [slot_new KEY_BATCH_ID TY_UDINT (u32_to_le_bytes 4001),
      slot_new KEY_MATERIAL_ID TY_UDINT (u32_to_le_bytes 5001),
      slot_new KEY_QUANTITY TY_LREAL (u64_to_le_bytes 0x4028800000000000),
      slot_new KEY_UNIT TY_UINT (u16_to_le_bytes 8)]"

definition conformant_operator_action_record :: Record where
  "conformant_operator_action_record =
     with_slots (record_new 1000000310 1 32 66 EVENT_OPERATOR_ACTION)
     [slot_new KEY_ACTION_ID TY_UDINT (u32_to_le_bytes 6001),
      slot_new KEY_ACTOR TY_STRING (map of_char ''operator-a''),
      slot_new KEY_CONTEXT_REF TY_UDINT (u32_to_le_bytes 7001),
      slot_new KEY_CONTEXT_REF TY_UDINT (u32_to_le_bytes 7002),
      slot_new KEY_AUTH_RESULT TY_UINT (u16_to_le_bytes 0),
      slot_new KEY_WORKSTATION TY_STRING (map of_char ''station-1'')]"

definition conformant_operator_login_record :: Record where
  "conformant_operator_login_record =
     with_slots (record_new 1000000320 1 33 66 EVENT_OPERATOR_LOGIN)
     [slot_new KEY_ACTOR TY_STRING (map of_char ''operator-a''),
      slot_new KEY_AUTH_RESULT TY_UINT (u16_to_le_bytes 0),
      slot_new KEY_WORKSTATION TY_STRING (map of_char ''station-1''),
      slot_new KEY_ROLE TY_UINT (u16_to_le_bytes 3)]"

definition conformant_operator_logout_record :: Record where
  "conformant_operator_logout_record =
     with_slots (record_new 1000000330 1 34 66 EVENT_OPERATOR_LOGOUT)
     [slot_new KEY_ACTOR TY_STRING (map of_char ''operator-a''),
      slot_new KEY_WORKSTATION TY_STRING (map of_char ''station-1'')]"

definition conformant_security_access_failure_record :: Record where
  "conformant_security_access_failure_record =
     with_slots (record_new 1000000340 1 35 66 EVENT_SECURITY_ACCESS_FAILURE)
     [slot_new KEY_ACTOR TY_STRING (map of_char ''operator-x''),
      slot_new KEY_WORKSTATION TY_STRING (map of_char ''station-2''),
      slot_new KEY_REASON TY_STRING (map of_char ''denied'')]"

definition conformant_parameter_change_real_record :: Record where
  "conformant_parameter_change_real_record =
     with_slots (record_new 1000000350 1 36 66 EVENT_PARAMETER_CHANGE)
     [slot_new KEY_VALUE_ID TY_UDINT (u32_to_le_bytes 2001),
      slot_new KEY_PREVIOUS_VALUE TY_REAL (u32_to_le_bytes 0x41480000),
      slot_new KEY_NEW_VALUE TY_REAL (u32_to_le_bytes 0x415C0000),
      slot_new KEY_ACTOR TY_STRING (map of_char ''operator-a''),
      slot_new KEY_REASON TY_STRING (map of_char ''setpoint change''),
      slot_new KEY_AUTH_RESULT TY_UINT (u16_to_le_bytes 0)]"

definition conformant_parameter_change_dint_record :: Record where
  "conformant_parameter_change_dint_record =
     with_slots (record_new 1000000360 1 37 66 EVENT_PARAMETER_CHANGE)
     [slot_new KEY_VALUE_ID TY_UDINT (u32_to_le_bytes 2002),
      slot_new KEY_PREVIOUS_VALUE TY_DINT (u32_to_le_bytes 40),
      slot_new KEY_NEW_VALUE TY_DINT (u32_to_le_bytes 42),
      slot_new KEY_ACTOR TY_STRING (map of_char ''operator-a''),
      slot_new KEY_REASON TY_STRING (map of_char ''count corrected'')]"

definition conformant_parameter_change_bool_record :: Record where
  "conformant_parameter_change_bool_record =
     with_slots (record_new 1000000370 1 38 66 EVENT_PARAMETER_CHANGE)
     [slot_new KEY_VALUE_ID TY_UDINT (u32_to_le_bytes 2003),
      slot_new KEY_PREVIOUS_VALUE TY_BOOL [0],
      slot_new KEY_NEW_VALUE TY_BOOL [1],
      slot_new KEY_ACTOR TY_STRING (map of_char ''operator-b''),
      slot_new KEY_REASON TY_STRING (map of_char ''enable audit'')]"

definition conformant_parameter_change_string_record :: Record where
  "conformant_parameter_change_string_record =
     with_slots (record_new 1000000380 1 39 66 EVENT_PARAMETER_CHANGE)
     [slot_new KEY_VALUE_ID TY_UDINT (u32_to_le_bytes 2012),
      slot_new KEY_PREVIOUS_VALUE TY_STRING (map of_char ''manual''),
      slot_new KEY_NEW_VALUE TY_STRING (map of_char ''auto''),
      slot_new KEY_ACTOR TY_STRING (map of_char ''operator-c''),
      slot_new KEY_REASON TY_STRING (map of_char ''mode note''),
      slot_new KEY_AUTH_RESULT TY_UINT (u16_to_le_bytes 1)]"

definition conformant_e_signature_record :: Record where
  "conformant_e_signature_record =
     with_slots (record_new 1000000390 1 40 66 EVENT_ESIGNATURE)
     [slot_new KEY_ACTION_ID TY_UDINT (u32_to_le_bytes 6002),
      slot_new KEY_ACTOR TY_STRING (map of_char ''signer-a''),
      slot_new KEY_SIGNATURE_MEANING TY_UINT (u16_to_le_bytes 2),
      slot_new KEY_SIGNED_EVENT_SEQ TY_ULINT (u64_to_le_bytes 37),
      slot_new KEY_AUTH_RESULT TY_UINT (u16_to_le_bytes 0)]"

definition conformant_records_dropped_record :: Record where
  "conformant_records_dropped_record =
     with_slots (record_new 0 9 100 66 EVENT_RECORDS_DROPPED)
     [slot_new KEY_DROPPED_COUNT TY_UDINT (u32_to_le_bytes 18),
      slot_new KEY_FIRST_LOST_SEQ TY_ULINT (u64_to_le_bytes 40),
      slot_new KEY_LAST_LOST_SEQ TY_ULINT (u64_to_le_bytes 57),
      slot_new KEY_WINDOW_START TY_DATE_TIME (u64_to_le_bytes 1000000000),
      slot_new KEY_WINDOW_END TY_DATE_TIME (u64_to_le_bytes 1000010000)]"

definition source_high_water_vector_record :: Record where
  "source_high_water_vector_record =
     with_slots (record_new 0 1 5 88 EVENT_SOURCE_HIGH_WATER)
     [slot_new KEY_SOURCE_HIGH_WATER TY_ULINT (u64_to_le_bytes 5)]"

definition conformant_source_high_water_record :: Record where
  "conformant_source_high_water_record = source_high_water_vector_record"

definition records_dropped_vector_record :: Record where
  "records_dropped_vector_record =
     with_slots (record_new 0 9 44 42 EVENT_RECORDS_DROPPED)
     [slot_new KEY_DROPPED_COUNT TY_UDINT (u32_to_le_bytes 5),
      slot_new KEY_FIRST_LOST_SEQ TY_ULINT (u64_to_le_bytes 100),
      slot_new KEY_LAST_LOST_SEQ TY_ULINT (u64_to_le_bytes 104)]"

definition minimal_message_record :: Record where
  "minimal_message_record =
     with_slots (minimal_record 7 3)
     [slot_new KEY_MESSAGE_TEMPLATE_ID TY_UDINT (u32_to_le_bytes 1001)]"

definition logger_stopped_record :: Record where
  "logger_stopped_record = record_new 0 1 0 SYSTEM_SOURCE_ID EVENT_LOGGER_STOPPED"

definition definition_changed_record :: Record where
  "definition_changed_record =
     with_slots (record_new 0 1 1 SYSTEM_SOURCE_ID EVENT_DEFINITION_CHANGED)
     [slot_new KEY_DEF_HASH_OLD TY_BYTES (map of_char ''oldhash1''),
      slot_new KEY_DEF_HASH_NEW TY_BYTES (map of_char ''newhash2''),
      slot_new KEY_EPOCH_ID TY_ULINT (u64_to_le_bytes 2)]"

definition logger_started_vector_record :: "u64 \<Rightarrow> u64 \<Rightarrow> bool \<Rightarrow> Record" where
  "logger_started_vector_record run_id seq cold_start =
     with_slots (record_new 0 run_id seq SYSTEM_SOURCE_ID EVENT_LOGGER_STARTED)
     [slot_new KEY_COLD_START TY_BOOL [if cold_start then 1 else 0]]"

definition logger_started_warm_record :: Record where
  "logger_started_warm_record = logger_started_vector_record 1 2 False"

definition logger_started_cold_record :: Record where
  "logger_started_cold_record = logger_started_vector_record 2 0 True"

end
