(* ===== verification/Vector_Texts.thy ===== *)
theory Vector_Texts
  imports Vector_Records Text
begin

text \<open>
  The record vectors of \<open>crates/carriage/src/vectors.rs\<close>: the arguments of every call of \<open>push_record_vector\<close> in
  \<open>generate_files\<close>, the JSON detail with its lines, and the tables of file names.
\<close>

record RecordVector =
  rv_stem :: string
  rv_description :: string
  rv_record :: Record
  rv_detail_json :: string

fun join_lines :: "string list \<Rightarrow> string" where
  "join_lines [] = []"
| "join_lines [line] = line"
| "join_lines (line # lines) = line @ [CHR 0x0A] @ join_lines lines"

definition vector_state_transition :: RecordVector where \<open>
  vector_state_transition =
    \<lparr>rv_stem = ''state_transition'',
     rv_description = ''wire-codec StateTransition record; schema-negative because stateMachineId is UInt and required state fields are absent'',
     rv_record = state_transition_record,
     rv_detail_json = join_lines
       [''{'',
        ''  "eventName": "StateTransition",'',
        ''  "schemaExpected": "reject",'',
        ''  "schemaViolation": "stateMachineId uses UInt instead of UDInt and previousState/newState are absent",'',
        ''  "fields": {'',
        ''    "sourceTime": "0x0102030405060708",'',
        ''    "runId": 1,'',
        ''    "seq": 2,'',
        ''    "sourceId": 42,'',
        ''    "eventTypeId": "0x0001"'',
        ''  },'',
        ''  "slots": ['',
        ''    { "key": "0x0001", "type": "UInt", "value": "0x1234" },'',
        ''    { "key": "0x0002", "type": "UInt", "value": 2 }'',
        ''  ]'',
        ''}'']\<rparr>\<close>

definition vector_conformant_state_transition :: RecordVector where \<open>
  vector_conformant_state_transition =
    \<lparr>rv_stem = ''conformant_state_transition'',
     rv_description = ''definition-layer positive StateTransition record'',
     rv_record = conformant_state_transition_record,
     rv_detail_json = join_lines
       [''{'',
        ''  "eventName": "StateTransition",'',
        ''  "schemaExpected": "accept",'',
        ''  "fields": {'',
        ''    "sourceTime": 1000000000,'',
        ''    "runId": 1,'',
        ''    "seq": 1,'',
        ''    "sourceId": 66,'',
        ''    "eventTypeId": "0x0001"'',
        ''  },'',
        ''  "slots": ['',
        ''    { "key": "0x0001", "type": "UDInt", "name": "stateMachineId", "value": 7 },'',
        ''    { "key": "0x0002", "type": "UInt", "name": "category", "value": 2 },'',
        ''    { "key": "0x0003", "type": "UInt", "name": "previousState", "value": 3 },'',
        ''    { "key": "0x0004", "type": "UInt", "name": "newState", "value": 4 }'',
        ''  ]'',
        ''}'']\<rparr>\<close>

definition vector_conformant_value_changed_real :: RecordVector where \<open>
  vector_conformant_value_changed_real =
    \<lparr>rv_stem = ''conformant_value_changed_real'',
     rv_description = ''definition-layer positive ValueChanged record carrying a REAL newValue'',
     rv_record = conformant_value_changed_real_record,
     rv_detail_json = join_lines
       [''{'',
        ''  "eventName": "ValueChanged",'',
        ''  "schemaExpected": "accept",'',
        ''  "fields": {'',
        ''    "sourceTime": 1000000020,'',
        ''    "runId": 1,'',
        ''    "seq": 3,'',
        ''    "sourceId": 66,'',
        ''    "eventTypeId": "0x0002"'',
        ''  },'',
        ''  "slots": ['',
        ''    { "key": "0x000D", "type": "UDInt", "name": "valueId", "value": 2001 },'',
        ''    { "key": "0x0010", "type": "Real", "name": "newValue", "value": 12.5 }'',
        ''  ]'',
        ''}'']\<rparr>\<close>

definition vector_conformant_value_changed_dint :: RecordVector where \<open>
  vector_conformant_value_changed_dint =
    \<lparr>rv_stem = ''conformant_value_changed_dint'',
     rv_description = ''definition-layer positive ValueChanged record carrying DINT previousValue/newValue plus quality'',
     rv_record = conformant_value_changed_dint_record,
     rv_detail_json = join_lines
       [''{'',
        ''  "eventName": "ValueChanged",'',
        ''  "schemaExpected": "accept",'',
        ''  "fields": {'',
        ''    "sourceTime": 1000000030,'',
        ''    "runId": 1,'',
        ''    "seq": 4,'',
        ''    "sourceId": 66,'',
        ''    "eventTypeId": "0x0002"'',
        ''  },'',
        ''  "slots": ['',
        ''    { "key": "0x000D", "type": "UDInt", "name": "valueId", "value": 2002 },'',
        ''    { "key": "0x0010", "type": "DInt", "name": "newValue", "value": 42 },'',
        ''    { "key": "0x000F", "type": "DInt", "name": "previousValue", "value": 40 },'',
        ''    { "key": "0x0011", "type": "UInt", "name": "quality", "value": 0 }'',
        ''  ]'',
        ''}'']\<rparr>\<close>

definition vector_conformant_value_changed_bool :: RecordVector where \<open>
  vector_conformant_value_changed_bool =
    \<lparr>rv_stem = ''conformant_value_changed_bool'',
     rv_description = ''definition-layer positive ValueChanged record carrying a BOOL newValue'',
     rv_record = conformant_value_changed_bool_record,
     rv_detail_json = join_lines
       [''{'',
        ''  "eventName": "ValueChanged",'',
        ''  "schemaExpected": "accept",'',
        ''  "fields": {'',
        ''    "sourceTime": 1000000040,'',
        ''    "runId": 1,'',
        ''    "seq": 5,'',
        ''    "sourceId": 66,'',
        ''    "eventTypeId": "0x0002"'',
        ''  },'',
        ''  "slots": ['',
        ''    { "key": "0x000D", "type": "UDInt", "name": "valueId", "value": 2003 },'',
        ''    { "key": "0x0010", "type": "Bool", "name": "newValue", "value": true }'',
        ''  ]'',
        ''}'']\<rparr>\<close>

definition vector_conformant_value_changed_sint :: RecordVector where \<open>
  vector_conformant_value_changed_sint =
    \<lparr>rv_stem = ''conformant_value_changed_sint'',
     rv_description = ''definition-layer positive ValueChanged record carrying an SINT newValue'',
     rv_record = conformant_value_changed_sint_record,
     rv_detail_json = join_lines
       [''{'',
        ''  "eventName": "ValueChanged",'',
        ''  "schemaExpected": "accept",'',
        ''  "fields": {'',
        ''    "sourceTime": 1000000050,'',
        ''    "runId": 1,'',
        ''    "seq": 6,'',
        ''    "sourceId": 66,'',
        ''    "eventTypeId": "0x0002"'',
        ''  },'',
        ''  "slots": ['',
        ''    { "key": "0x000D", "type": "UDInt", "name": "valueId", "value": 2004 },'',
        ''    { "key": "0x0010", "type": "SInt", "name": "newValue", "value": -5 }'',
        ''  ]'',
        ''}'']\<rparr>\<close>

definition vector_conformant_value_changed_usint :: RecordVector where \<open>
  vector_conformant_value_changed_usint =
    \<lparr>rv_stem = ''conformant_value_changed_usint'',
     rv_description = ''definition-layer positive ValueChanged record carrying a USINT newValue'',
     rv_record = conformant_value_changed_usint_record,
     rv_detail_json = join_lines
       [''{'',
        ''  "eventName": "ValueChanged",'',
        ''  "schemaExpected": "accept",'',
        ''  "fields": {'',
        ''    "sourceTime": 1000000060,'',
        ''    "runId": 1,'',
        ''    "seq": 7,'',
        ''    "sourceId": 66,'',
        ''    "eventTypeId": "0x0002"'',
        ''  },'',
        ''  "slots": ['',
        ''    { "key": "0x000D", "type": "UDInt", "name": "valueId", "value": 2005 },'',
        ''    { "key": "0x0010", "type": "USInt", "name": "newValue", "value": 250 }'',
        ''  ]'',
        ''}'']\<rparr>\<close>

definition vector_conformant_value_changed_int :: RecordVector where \<open>
  vector_conformant_value_changed_int =
    \<lparr>rv_stem = ''conformant_value_changed_int'',
     rv_description = ''definition-layer positive ValueChanged record carrying an INT newValue'',
     rv_record = conformant_value_changed_int_record,
     rv_detail_json = join_lines
       [''{'',
        ''  "eventName": "ValueChanged",'',
        ''  "schemaExpected": "accept",'',
        ''  "fields": {'',
        ''    "sourceTime": 1000000070,'',
        ''    "runId": 1,'',
        ''    "seq": 8,'',
        ''    "sourceId": 66,'',
        ''    "eventTypeId": "0x0002"'',
        ''  },'',
        ''  "slots": ['',
        ''    { "key": "0x000D", "type": "UDInt", "name": "valueId", "value": 2006 },'',
        ''    { "key": "0x0010", "type": "Int", "name": "newValue", "value": -1234 }'',
        ''  ]'',
        ''}'']\<rparr>\<close>

definition vector_conformant_value_changed_uint :: RecordVector where \<open>
  vector_conformant_value_changed_uint =
    \<lparr>rv_stem = ''conformant_value_changed_uint'',
     rv_description = ''definition-layer positive ValueChanged record carrying a UINT newValue'',
     rv_record = conformant_value_changed_uint_record,
     rv_detail_json = join_lines
       [''{'',
        ''  "eventName": "ValueChanged",'',
        ''  "schemaExpected": "accept",'',
        ''  "fields": {'',
        ''    "sourceTime": 1000000080,'',
        ''    "runId": 1,'',
        ''    "seq": 9,'',
        ''    "sourceId": 66,'',
        ''    "eventTypeId": "0x0002"'',
        ''  },'',
        ''  "slots": ['',
        ''    { "key": "0x000D", "type": "UDInt", "name": "valueId", "value": 2007 },'',
        ''    { "key": "0x0010", "type": "UInt", "name": "newValue", "value": 1234 }'',
        ''  ]'',
        ''}'']\<rparr>\<close>

definition vector_conformant_value_changed_udint :: RecordVector where \<open>
  vector_conformant_value_changed_udint =
    \<lparr>rv_stem = ''conformant_value_changed_udint'',
     rv_description = ''definition-layer positive ValueChanged record carrying a UDINT newValue'',
     rv_record = conformant_value_changed_udint_record,
     rv_detail_json = join_lines
       [''{'',
        ''  "eventName": "ValueChanged",'',
        ''  "schemaExpected": "accept",'',
        ''  "fields": {'',
        ''    "sourceTime": 1000000090,'',
        ''    "runId": 1,'',
        ''    "seq": 10,'',
        ''    "sourceId": 66,'',
        ''    "eventTypeId": "0x0002"'',
        ''  },'',
        ''  "slots": ['',
        ''    { "key": "0x000D", "type": "UDInt", "name": "valueId", "value": 2008 },'',
        ''    { "key": "0x0010", "type": "UDInt", "name": "newValue", "value": 123456 }'',
        ''  ]'',
        ''}'']\<rparr>\<close>

definition vector_conformant_value_changed_ulint :: RecordVector where \<open>
  vector_conformant_value_changed_ulint =
    \<lparr>rv_stem = ''conformant_value_changed_ulint'',
     rv_description = ''definition-layer positive ValueChanged record carrying a ULINT newValue'',
     rv_record = conformant_value_changed_ulint_record,
     rv_detail_json = join_lines
       [''{'',
        ''  "eventName": "ValueChanged",'',
        ''  "schemaExpected": "accept",'',
        ''  "fields": {'',
        ''    "sourceTime": 1000000100,'',
        ''    "runId": 1,'',
        ''    "seq": 11,'',
        ''    "sourceId": 66,'',
        ''    "eventTypeId": "0x0002"'',
        ''  },'',
        ''  "slots": ['',
        ''    { "key": "0x000D", "type": "UDInt", "name": "valueId", "value": 2009 },'',
        ''    { "key": "0x0010", "type": "ULInt", "name": "newValue", "value": 1234567890123 }'',
        ''  ]'',
        ''}'']\<rparr>\<close>

definition vector_conformant_value_changed_lint :: RecordVector where \<open>
  vector_conformant_value_changed_lint =
    \<lparr>rv_stem = ''conformant_value_changed_lint'',
     rv_description = ''definition-layer positive ValueChanged record carrying an LINT newValue'',
     rv_record = conformant_value_changed_lint_record,
     rv_detail_json = join_lines
       [''{'',
        ''  "eventName": "ValueChanged",'',
        ''  "schemaExpected": "accept",'',
        ''  "fields": {'',
        ''    "sourceTime": 1000000110,'',
        ''    "runId": 1,'',
        ''    "seq": 12,'',
        ''    "sourceId": 66,'',
        ''    "eventTypeId": "0x0002"'',
        ''  },'',
        ''  "slots": ['',
        ''    { "key": "0x000D", "type": "UDInt", "name": "valueId", "value": 2010 },'',
        ''    { "key": "0x0010", "type": "LInt", "name": "newValue", "value": -1234567890123 }'',
        ''  ]'',
        ''}'']\<rparr>\<close>

definition vector_conformant_value_changed_lreal :: RecordVector where \<open>
  vector_conformant_value_changed_lreal =
    \<lparr>rv_stem = ''conformant_value_changed_lreal'',
     rv_description = ''definition-layer positive ValueChanged record carrying an LREAL newValue'',
     rv_record = conformant_value_changed_lreal_record,
     rv_detail_json = join_lines
       [''{'',
        ''  "eventName": "ValueChanged",'',
        ''  "schemaExpected": "accept",'',
        ''  "fields": {'',
        ''    "sourceTime": 1000000120,'',
        ''    "runId": 1,'',
        ''    "seq": 13,'',
        ''    "sourceId": 66,'',
        ''    "eventTypeId": "0x0002"'',
        ''  },'',
        ''  "slots": ['',
        ''    { "key": "0x000D", "type": "UDInt", "name": "valueId", "value": 2011 },'',
        ''    { "key": "0x0010", "type": "LReal", "name": "newValue", "value": 12.25 }'',
        ''  ]'',
        ''}'']\<rparr>\<close>

definition vector_conformant_value_changed_string :: RecordVector where \<open>
  vector_conformant_value_changed_string =
    \<lparr>rv_stem = ''conformant_value_changed_string'',
     rv_description = ''definition-layer positive ValueChanged record carrying a STRING newValue'',
     rv_record = conformant_value_changed_string_record,
     rv_detail_json = join_lines
       [''{'',
        ''  "eventName": "ValueChanged",'',
        ''  "schemaExpected": "accept",'',
        ''  "fields": {'',
        ''    "sourceTime": 1000000130,'',
        ''    "runId": 1,'',
        ''    "seq": 14,'',
        ''    "sourceId": 66,'',
        ''    "eventTypeId": "0x0002"'',
        ''  },'',
        ''  "slots": ['',
        ''    { "key": "0x000D", "type": "UDInt", "name": "valueId", "value": 2012 },'',
        ''    { "key": "0x0010", "type": "String", "name": "newValue", "value": "ready" }'',
        ''  ]'',
        ''}'']\<rparr>\<close>

definition vector_conformant_message :: RecordVector where \<open>
  vector_conformant_message =
    \<lparr>rv_stem = ''conformant_message'',
     rv_description = ''definition-layer positive Message record'',
     rv_record = conformant_message_record,
     rv_detail_json = join_lines
       [''{'',
        ''  "eventName": "Message",'',
        ''  "schemaExpected": "accept",'',
        ''  "fields": {'',
        ''    "sourceTime": 1000000010,'',
        ''    "runId": 1,'',
        ''    "seq": 2,'',
        ''    "sourceId": 66,'',
        ''    "eventTypeId": "0x0003"'',
        ''  },'',
        ''  "slots": ['',
        ''    { "key": "0x0014", "type": "UDInt", "name": "messageTemplateId", "value": 1001 },'',
        ''    { "key": "0x0015", "type": "String", "name": "arg", "value": "phase ready" },'',
        ''    { "key": "0x0008", "type": "UInt", "name": "severity", "value": 500 }'',
        ''  ]'',
        ''}'']\<rparr>\<close>

definition vector_conformant_condition_active :: RecordVector where \<open>
  vector_conformant_condition_active =
    \<lparr>rv_stem = ''conformant_condition_active'',
     rv_description = ''definition-layer positive ConditionActive record carrying correlation and cause operand'',
     rv_record = conformant_condition_active_record,
     rv_detail_json = join_lines
       [''{'',
        ''  "eventName": "ConditionActive",'',
        ''  "schemaExpected": "accept",'',
        ''  "fields": {'',
        ''    "sourceTime": 1000000140,'',
        ''    "runId": 1,'',
        ''    "seq": 15,'',
        ''    "sourceId": 66,'',
        ''    "eventTypeId": "0x0200"'',
        ''  },'',
        ''  "slots": ['',
        ''    { "key": "0x0005", "type": "UDInt", "name": "conditionId", "value": 9001 },'',
        ''    { "key": "0x0006", "type": "UInt", "name": "conditionClass", "value": 0 },'',
        ''    { "key": "0x0007", "type": "UDInt", "name": "correlationId", "value": 77 },'',
        ''    { "key": "0x0008", "type": "UInt", "name": "severity", "value": 900 },'',
        ''    { "key": "0x0009", "type": "UDInt", "name": "causeOperand", "value": 1 }'',
        ''  ]'',
        ''}'']\<rparr>\<close>

definition vector_conformant_condition_cleared :: RecordVector where \<open>
  vector_conformant_condition_cleared =
    \<lparr>rv_stem = ''conformant_condition_cleared'',
     rv_description = ''definition-layer positive ConditionCleared record echoing activation correlation'',
     rv_record = conformant_condition_cleared_record,
     rv_detail_json = join_lines
       [''{'',
        ''  "eventName": "ConditionCleared",'',
        ''  "schemaExpected": "accept",'',
        ''  "fields": {'',
        ''    "sourceTime": 1000000150,'',
        ''    "runId": 1,'',
        ''    "seq": 16,'',
        ''    "sourceId": 66,'',
        ''    "eventTypeId": "0x0201"'',
        ''  },'',
        ''  "slots": ['',
        ''    { "key": "0x0005", "type": "UDInt", "name": "conditionId", "value": 9001 },'',
        ''    { "key": "0x0006", "type": "UInt", "name": "conditionClass", "value": 0 },'',
        ''    { "key": "0x0007", "type": "UDInt", "name": "correlationId", "value": 77 }'',
        ''  ]'',
        ''}'']\<rparr>\<close>

definition vector_conformant_condition_acknowledged :: RecordVector where \<open>
  vector_conformant_condition_acknowledged =
    \<lparr>rv_stem = ''conformant_condition_acknowledged'',
     rv_description = ''definition-layer positive ConditionAcknowledged record with ackBy'',
     rv_record = conformant_condition_acknowledged_record,
     rv_detail_json = join_lines
       [''{'',
        ''  "eventName": "ConditionAcknowledged",'',
        ''  "schemaExpected": "accept",'',
        ''  "fields": {'',
        ''    "sourceTime": 1000000160,'',
        ''    "runId": 1,'',
        ''    "seq": 17,'',
        ''    "sourceId": 66,'',
        ''    "eventTypeId": "0x0202"'',
        ''  },'',
        ''  "slots": ['',
        ''    { "key": "0x0005", "type": "UDInt", "name": "conditionId", "value": 9001 },'',
        ''    { "key": "0x0007", "type": "UDInt", "name": "correlationId", "value": 77 },'',
        ''    { "key": "0x001D", "type": "String", "name": "ackBy", "value": "operator-a" }'',
        ''  ]'',
        ''}'']\<rparr>\<close>

definition vector_conformant_condition_confirmed :: RecordVector where \<open>
  vector_conformant_condition_confirmed =
    \<lparr>rv_stem = ''conformant_condition_confirmed'',
     rv_description = ''definition-layer positive ConditionConfirmed record with ackBy'',
     rv_record = conformant_condition_confirmed_record,
     rv_detail_json = join_lines
       [''{'',
        ''  "eventName": "ConditionConfirmed",'',
        ''  "schemaExpected": "accept",'',
        ''  "fields": {'',
        ''    "sourceTime": 1000000200,'',
        ''    "runId": 1,'',
        ''    "seq": 21,'',
        ''    "sourceId": 66,'',
        ''    "eventTypeId": "0x0203"'',
        ''  },'',
        ''  "slots": ['',
        ''    { "key": "0x0005", "type": "UDInt", "name": "conditionId", "value": 9001 },'',
        ''    { "key": "0x0007", "type": "UDInt", "name": "correlationId", "value": 77 },'',
        ''    { "key": "0x001D", "type": "String", "name": "ackBy", "value": "operator-a" }'',
        ''  ]'',
        ''}'']\<rparr>\<close>

definition vector_conformant_condition_shelved :: RecordVector where \<open>
  vector_conformant_condition_shelved =
    \<lparr>rv_stem = ''conformant_condition_shelved'',
     rv_description = ''definition-layer positive ConditionShelved record with ackBy and shelveSecs'',
     rv_record = conformant_condition_shelved_record,
     rv_detail_json = join_lines
       [''{'',
        ''  "eventName": "ConditionShelved",'',
        ''  "schemaExpected": "accept",'',
        ''  "fields": {'',
        ''    "sourceTime": 1000000170,'',
        ''    "runId": 1,'',
        ''    "seq": 18,'',
        ''    "sourceId": 66,'',
        ''    "eventTypeId": "0x0204"'',
        ''  },'',
        ''  "slots": ['',
        ''    { "key": "0x0005", "type": "UDInt", "name": "conditionId", "value": 9001 },'',
        ''    { "key": "0x0007", "type": "UDInt", "name": "correlationId", "value": 77 },'',
        ''    { "key": "0x001D", "type": "String", "name": "ackBy", "value": "operator-a" },'',
        ''    { "key": "0x001E", "type": "UDInt", "name": "shelveSecs", "value": 300 }'',
        ''  ]'',
        ''}'']\<rparr>\<close>

definition vector_conformant_condition_unshelved :: RecordVector where \<open>
  vector_conformant_condition_unshelved =
    \<lparr>rv_stem = ''conformant_condition_unshelved'',
     rv_description = ''definition-layer positive ConditionUnshelved record with activation correlation'',
     rv_record = conformant_condition_unshelved_record,
     rv_detail_json = join_lines
       [''{'',
        ''  "eventName": "ConditionUnshelved",'',
        ''  "schemaExpected": "accept",'',
        ''  "fields": {'',
        ''    "sourceTime": 1000000210,'',
        ''    "runId": 1,'',
        ''    "seq": 22,'',
        ''    "sourceId": 66,'',
        ''    "eventTypeId": "0x0205"'',
        ''  },'',
        ''  "slots": ['',
        ''    { "key": "0x0005", "type": "UDInt", "name": "conditionId", "value": 9001 },'',
        ''    { "key": "0x0007", "type": "UDInt", "name": "correlationId", "value": 77 }'',
        ''  ]'',
        ''}'']\<rparr>\<close>

definition vector_conformant_condition_suppressed :: RecordVector where \<open>
  vector_conformant_condition_suppressed =
    \<lparr>rv_stem = ''conformant_condition_suppressed'',
     rv_description = ''definition-layer positive ConditionSuppressed record with reason and no correlation'',
     rv_record = conformant_condition_suppressed_record,
     rv_detail_json = join_lines
       [''{'',
        ''  "eventName": "ConditionSuppressed",'',
        ''  "schemaExpected": "accept",'',
        ''  "fields": {'',
        ''    "sourceTime": 1000000180,'',
        ''    "runId": 1,'',
        ''    "seq": 19,'',
        ''    "sourceId": 66,'',
        ''    "eventTypeId": "0x0206"'',
        ''  },'',
        ''  "slots": ['',
        ''    { "key": "0x0005", "type": "UDInt", "name": "conditionId", "value": 9001 },'',
        ''    { "key": "0x001F", "type": "String", "name": "reason", "value": "maintenance" }'',
        ''  ]'',
        ''}'']\<rparr>\<close>

definition vector_conformant_condition_unsuppressed :: RecordVector where \<open>
  vector_conformant_condition_unsuppressed =
    \<lparr>rv_stem = ''conformant_condition_unsuppressed'',
     rv_description = ''definition-layer positive ConditionUnsuppressed record with no correlation'',
     rv_record = conformant_condition_unsuppressed_record,
     rv_detail_json = join_lines
       [''{'',
        ''  "eventName": "ConditionUnsuppressed",'',
        ''  "schemaExpected": "accept",'',
        ''  "fields": {'',
        ''    "sourceTime": 1000000220,'',
        ''    "runId": 1,'',
        ''    "seq": 23,'',
        ''    "sourceId": 66,'',
        ''    "eventTypeId": "0x0207"'',
        ''  },'',
        ''  "slots": ['',
        ''    { "key": "0x0005", "type": "UDInt", "name": "conditionId", "value": 9001 }'',
        ''  ]'',
        ''}'']\<rparr>\<close>

definition vector_conformant_condition_out_of_service :: RecordVector where \<open>
  vector_conformant_condition_out_of_service =
    \<lparr>rv_stem = ''conformant_condition_out_of_service'',
     rv_description = ''definition-layer positive ConditionOutOfService record with ackBy and no correlation'',
     rv_record = conformant_condition_out_of_service_record,
     rv_detail_json = join_lines
       [''{'',
        ''  "eventName": "ConditionOutOfService",'',
        ''  "schemaExpected": "accept",'',
        ''  "fields": {'',
        ''    "sourceTime": 1000000190,'',
        ''    "runId": 1,'',
        ''    "seq": 20,'',
        ''    "sourceId": 66,'',
        ''    "eventTypeId": "0x0208"'',
        ''  },'',
        ''  "slots": ['',
        ''    { "key": "0x0005", "type": "UDInt", "name": "conditionId", "value": 9001 },'',
        ''    { "key": "0x001D", "type": "String", "name": "ackBy", "value": "operator-a" }'',
        ''  ]'',
        ''}'']\<rparr>\<close>

definition vector_conformant_condition_in_service :: RecordVector where \<open>
  vector_conformant_condition_in_service =
    \<lparr>rv_stem = ''conformant_condition_in_service'',
     rv_description = ''definition-layer positive ConditionInService record with no correlation'',
     rv_record = conformant_condition_in_service_record,
     rv_detail_json = join_lines
       [''{'',
        ''  "eventName": "ConditionInService",'',
        ''  "schemaExpected": "accept",'',
        ''  "fields": {'',
        ''    "sourceTime": 1000000230,'',
        ''    "runId": 1,'',
        ''    "seq": 24,'',
        ''    "sourceId": 66,'',
        ''    "eventTypeId": "0x0209"'',
        ''  },'',
        ''  "slots": ['',
        ''    { "key": "0x0005", "type": "UDInt", "name": "conditionId", "value": 9001 }'',
        ''  ]'',
        ''}'']\<rparr>\<close>

definition vector_conformant_condition_reset :: RecordVector where \<open>
  vector_conformant_condition_reset =
    \<lparr>rv_stem = ''conformant_condition_reset'',
     rv_description = ''definition-layer positive ConditionReset record with ackBy'',
     rv_record = conformant_condition_reset_record,
     rv_detail_json = join_lines
       [''{'',
        ''  "eventName": "ConditionReset",'',
        ''  "schemaExpected": "accept",'',
        ''  "fields": {'',
        ''    "sourceTime": 1000000240,'',
        ''    "runId": 1,'',
        ''    "seq": 25,'',
        ''    "sourceId": 66,'',
        ''    "eventTypeId": "0x020B"'',
        ''  },'',
        ''  "slots": ['',
        ''    { "key": "0x0005", "type": "UDInt", "name": "conditionId", "value": 9001 },'',
        ''    { "key": "0x0007", "type": "UDInt", "name": "correlationId", "value": 77 },'',
        ''    { "key": "0x001D", "type": "String", "name": "ackBy", "value": "operator-a" }'',
        ''  ]'',
        ''}'']\<rparr>\<close>

definition vector_conformant_condition_commented :: RecordVector where \<open>
  vector_conformant_condition_commented =
    \<lparr>rv_stem = ''conformant_condition_commented'',
     rv_description = ''definition-layer positive ConditionCommented record with required comment before ackBy'',
     rv_record = conformant_condition_commented_record,
     rv_detail_json = join_lines
       [''{'',
        ''  "eventName": "ConditionCommented",'',
        ''  "schemaExpected": "accept",'',
        ''  "fields": {'',
        ''    "sourceTime": 1000000250,'',
        ''    "runId": 1,'',
        ''    "seq": 26,'',
        ''    "sourceId": 66,'',
        ''    "eventTypeId": "0x020A"'',
        ''  },'',
        ''  "slots": ['',
        ''    { "key": "0x0005", "type": "UDInt", "name": "conditionId", "value": 9001 },'',
        ''    { "key": "0x0007", "type": "UDInt", "name": "correlationId", "value": 77 },'',
        ''    { "key": "0x0037", "type": "String", "name": "comment", "value": "operator comment" },'',
        ''    { "key": "0x001D", "type": "String", "name": "ackBy", "value": "operator-a" }'',
        ''  ]'',
        ''}'']\<rparr>\<close>

definition vector_conformant_condition_priority_changed :: RecordVector where \<open>
  vector_conformant_condition_priority_changed =
    \<lparr>rv_stem = ''conformant_condition_priority_changed'',
     rv_description = ''definition-layer positive ConditionPriorityChanged record with required priority fields before ackBy'',
     rv_record = conformant_condition_priority_changed_record,
     rv_detail_json = join_lines
       [''{'',
        ''  "eventName": "ConditionPriorityChanged",'',
        ''  "schemaExpected": "accept",'',
        ''  "fields": {'',
        ''    "sourceTime": 1000000260,'',
        ''    "runId": 1,'',
        ''    "seq": 27,'',
        ''    "sourceId": 66,'',
        ''    "eventTypeId": "0x020C"'',
        ''  },'',
        ''  "slots": ['',
        ''    { "key": "0x0005", "type": "UDInt", "name": "conditionId", "value": 9001 },'',
        ''    { "key": "0x002E", "type": "UInt", "name": "previousPriority", "value": 600 },'',
        ''    { "key": "0x002C", "type": "UInt", "name": "newPriority", "value": 900 },'',
        ''    { "key": "0x001D", "type": "String", "name": "ackBy", "value": "operator-a" }'',
        ''  ]'',
        ''}'']\<rparr>\<close>

definition vector_conformant_recipe_loaded :: RecordVector where \<open>
  vector_conformant_recipe_loaded =
    \<lparr>rv_stem = ''conformant_recipe_loaded'',
     rv_description = ''definition-layer positive RecipeLoaded record'',
     rv_record = conformant_recipe_loaded_record,
     rv_detail_json = join_lines
       [''{'',
        ''  "eventName": "RecipeLoaded",'',
        ''  "schemaExpected": "accept",'',
        ''  "fields": {'',
        ''    "sourceTime": 1000000270,'',
        ''    "runId": 1,'',
        ''    "seq": 28,'',
        ''    "sourceId": 66,'',
        ''    "eventTypeId": "0x0301"'',
        ''  },'',
        ''  "slots": ['',
        ''    { "key": "0x0023", "type": "UDInt", "name": "recipeId", "value": 3001 },'',
        ''    { "key": "0x0024", "type": "String", "name": "recipeVersion", "value": "v1.2.3" },'',
        ''    { "key": "0x0025", "type": "UDInt", "name": "batchId", "value": 4001 }'',
        ''  ]'',
        ''}'']\<rparr>\<close>

definition vector_conformant_recipe_approved :: RecordVector where \<open>
  vector_conformant_recipe_approved =
    \<lparr>rv_stem = ''conformant_recipe_approved'',
     rv_description = ''definition-layer positive RecipeApproved record'',
     rv_record = conformant_recipe_approved_record,
     rv_detail_json = join_lines
       [''{'',
        ''  "eventName": "RecipeApproved",'',
        ''  "schemaExpected": "accept",'',
        ''  "fields": {'',
        ''    "sourceTime": 1000000280,'',
        ''    "runId": 1,'',
        ''    "seq": 29,'',
        ''    "sourceId": 66,'',
        ''    "eventTypeId": "0x0302"'',
        ''  },'',
        ''  "slots": ['',
        ''    { "key": "0x0023", "type": "UDInt", "name": "recipeId", "value": 3001 },'',
        ''    { "key": "0x0024", "type": "String", "name": "recipeVersion", "value": "v1.2.3" },'',
        ''    { "key": "0x0020", "type": "UInt", "name": "authResult", "value": 1 },'',
        ''    { "key": "0x001D", "type": "String", "name": "ackBy", "value": "approver-a" }'',
        ''  ]'',
        ''}'']\<rparr>\<close>

definition vector_conformant_batch_event :: RecordVector where \<open>
  vector_conformant_batch_event =
    \<lparr>rv_stem = ''conformant_batch_event'',
     rv_description = ''definition-layer positive BatchEvent record'',
     rv_record = conformant_batch_event_record,
     rv_detail_json = join_lines
       [''{'',
        ''  "eventName": "BatchEvent",'',
        ''  "schemaExpected": "accept",'',
        ''  "fields": {'',
        ''    "sourceTime": 1000000290,'',
        ''    "runId": 1,'',
        ''    "seq": 30,'',
        ''    "sourceId": 66,'',
        ''    "eventTypeId": "0x0303"'',
        ''  },'',
        ''  "slots": ['',
        ''    { "key": "0x0025", "type": "UDInt", "name": "batchId", "value": 4001 },'',
        ''    { "key": "0x0004", "type": "UInt", "name": "newState", "value": 2 },'',
        ''    { "key": "0x0023", "type": "UDInt", "name": "recipeId", "value": 3001 }'',
        ''  ]'',
        ''}'']\<rparr>\<close>

definition vector_conformant_material_addition :: RecordVector where \<open>
  vector_conformant_material_addition =
    \<lparr>rv_stem = ''conformant_material_addition'',
     rv_description = ''definition-layer positive MaterialAddition record'',
     rv_record = conformant_material_addition_record,
     rv_detail_json = join_lines
       [''{'',
        ''  "eventName": "MaterialAddition",'',
        ''  "schemaExpected": "accept",'',
        ''  "fields": {'',
        ''    "sourceTime": 1000000300,'',
        ''    "runId": 1,'',
        ''    "seq": 31,'',
        ''    "sourceId": 66,'',
        ''    "eventTypeId": "0x0304"'',
        ''  },'',
        ''  "slots": ['',
        ''    { "key": "0x0025", "type": "UDInt", "name": "batchId", "value": 4001 },'',
        ''    { "key": "0x0026", "type": "UDInt", "name": "materialId", "value": 5001 },'',
        ''    { "key": "0x0027", "type": "LReal", "name": "quantity", "value": 12.25 },'',
        ''    { "key": "0x0013", "type": "UInt", "name": "unit", "value": 8 }'',
        ''  ]'',
        ''}'']\<rparr>\<close>

definition vector_conformant_operator_action :: RecordVector where \<open>
  vector_conformant_operator_action =
    \<lparr>rv_stem = ''conformant_operator_action'',
     rv_description = ''definition-layer positive OperatorAction record'',
     rv_record = conformant_operator_action_record,
     rv_detail_json = join_lines
       [''{'',
        ''  "eventName": "OperatorAction",'',
        ''  "schemaExpected": "accept",'',
        ''  "fields": {'',
        ''    "sourceTime": 1000000310,'',
        ''    "runId": 1,'',
        ''    "seq": 32,'',
        ''    "sourceId": 66,'',
        ''    "eventTypeId": "0x0400"'',
        ''  },'',
        ''  "slots": ['',
        ''    { "key": "0x000A", "type": "UDInt", "name": "actionId", "value": 6001 },'',
        ''    { "key": "0x000B", "type": "String", "name": "actor", "value": "operator-a" },'',
        ''    { "key": "0x000C", "type": "UDInt", "name": "contextRef", "value": 7001 },'',
        ''    { "key": "0x000C", "type": "UDInt", "name": "contextRef", "value": 7002 },'',
        ''    { "key": "0x0020", "type": "UInt", "name": "authResult", "value": 0 },'',
        ''    { "key": "0x0021", "type": "String", "name": "workstation", "value": "station-1" }'',
        ''  ]'',
        ''}'']\<rparr>\<close>

definition vector_conformant_operator_login :: RecordVector where \<open>
  vector_conformant_operator_login =
    \<lparr>rv_stem = ''conformant_operator_login'',
     rv_description = ''definition-layer positive OperatorLogin record'',
     rv_record = conformant_operator_login_record,
     rv_detail_json = join_lines
       [''{'',
        ''  "eventName": "OperatorLogin",'',
        ''  "schemaExpected": "accept",'',
        ''  "fields": {'',
        ''    "sourceTime": 1000000320,'',
        ''    "runId": 1,'',
        ''    "seq": 33,'',
        ''    "sourceId": 66,'',
        ''    "eventTypeId": "0x0401"'',
        ''  },'',
        ''  "slots": ['',
        ''    { "key": "0x000B", "type": "String", "name": "actor", "value": "operator-a" },'',
        ''    { "key": "0x0020", "type": "UInt", "name": "authResult", "value": 0 },'',
        ''    { "key": "0x0021", "type": "String", "name": "workstation", "value": "station-1" },'',
        ''    { "key": "0x0033", "type": "UInt", "name": "role", "value": 3 }'',
        ''  ]'',
        ''}'']\<rparr>\<close>

definition vector_conformant_operator_logout :: RecordVector where \<open>
  vector_conformant_operator_logout =
    \<lparr>rv_stem = ''conformant_operator_logout'',
     rv_description = ''definition-layer positive OperatorLogout record'',
     rv_record = conformant_operator_logout_record,
     rv_detail_json = join_lines
       [''{'',
        ''  "eventName": "OperatorLogout",'',
        ''  "schemaExpected": "accept",'',
        ''  "fields": {'',
        ''    "sourceTime": 1000000330,'',
        ''    "runId": 1,'',
        ''    "seq": 34,'',
        ''    "sourceId": 66,'',
        ''    "eventTypeId": "0x0402"'',
        ''  },'',
        ''  "slots": ['',
        ''    { "key": "0x000B", "type": "String", "name": "actor", "value": "operator-a" },'',
        ''    { "key": "0x0021", "type": "String", "name": "workstation", "value": "station-1" }'',
        ''  ]'',
        ''}'']\<rparr>\<close>

definition vector_conformant_security_access_failure :: RecordVector where \<open>
  vector_conformant_security_access_failure =
    \<lparr>rv_stem = ''conformant_security_access_failure'',
     rv_description = ''definition-layer positive SecurityAccessFailure record'',
     rv_record = conformant_security_access_failure_record,
     rv_detail_json = join_lines
       [''{'',
        ''  "eventName": "SecurityAccessFailure",'',
        ''  "schemaExpected": "accept",'',
        ''  "fields": {'',
        ''    "sourceTime": 1000000340,'',
        ''    "runId": 1,'',
        ''    "seq": 35,'',
        ''    "sourceId": 66,'',
        ''    "eventTypeId": "0x0405"'',
        ''  },'',
        ''  "slots": ['',
        ''    { "key": "0x000B", "type": "String", "name": "actor", "value": "operator-x" },'',
        ''    { "key": "0x0021", "type": "String", "name": "workstation", "value": "station-2" },'',
        ''    { "key": "0x001F", "type": "String", "name": "reason", "value": "denied" }'',
        ''  ]'',
        ''}'']\<rparr>\<close>

definition vector_conformant_parameter_change_real :: RecordVector where \<open>
  vector_conformant_parameter_change_real =
    \<lparr>rv_stem = ''conformant_parameter_change_real'',
     rv_description = ''definition-layer positive ParameterChange record carrying REAL previous/new values'',
     rv_record = conformant_parameter_change_real_record,
     rv_detail_json = join_lines
       [''{'',
        ''  "eventName": "ParameterChange",'',
        ''  "schemaExpected": "accept",'',
        ''  "fields": {'',
        ''    "sourceTime": 1000000350,'',
        ''    "runId": 1,'',
        ''    "seq": 36,'',
        ''    "sourceId": 66,'',
        ''    "eventTypeId": "0x0403"'',
        ''  },'',
        ''  "slots": ['',
        ''    { "key": "0x000D", "type": "UDInt", "name": "valueId", "value": 2001 },'',
        ''    { "key": "0x000F", "type": "Real", "name": "previousValue", "value": 12.5 },'',
        ''    { "key": "0x0010", "type": "Real", "name": "newValue", "value": 13.75 },'',
        ''    { "key": "0x000B", "type": "String", "name": "actor", "value": "operator-a" },'',
        ''    { "key": "0x001F", "type": "String", "name": "reason", "value": "setpoint change" },'',
        ''    { "key": "0x0020", "type": "UInt", "name": "authResult", "value": 0 }'',
        ''  ]'',
        ''}'']\<rparr>\<close>

definition vector_conformant_parameter_change_dint :: RecordVector where \<open>
  vector_conformant_parameter_change_dint =
    \<lparr>rv_stem = ''conformant_parameter_change_dint'',
     rv_description = ''definition-layer positive ParameterChange record carrying DINT previous/new values'',
     rv_record = conformant_parameter_change_dint_record,
     rv_detail_json = join_lines
       [''{'',
        ''  "eventName": "ParameterChange",'',
        ''  "schemaExpected": "accept",'',
        ''  "fields": {'',
        ''    "sourceTime": 1000000360,'',
        ''    "runId": 1,'',
        ''    "seq": 37,'',
        ''    "sourceId": 66,'',
        ''    "eventTypeId": "0x0403"'',
        ''  },'',
        ''  "slots": ['',
        ''    { "key": "0x000D", "type": "UDInt", "name": "valueId", "value": 2002 },'',
        ''    { "key": "0x000F", "type": "DInt", "name": "previousValue", "value": 40 },'',
        ''    { "key": "0x0010", "type": "DInt", "name": "newValue", "value": 42 },'',
        ''    { "key": "0x000B", "type": "String", "name": "actor", "value": "operator-a" },'',
        ''    { "key": "0x001F", "type": "String", "name": "reason", "value": "count corrected" }'',
        ''  ]'',
        ''}'']\<rparr>\<close>

definition vector_conformant_parameter_change_bool :: RecordVector where \<open>
  vector_conformant_parameter_change_bool =
    \<lparr>rv_stem = ''conformant_parameter_change_bool'',
     rv_description = ''definition-layer positive ParameterChange record carrying BOOL previous/new values through the bits path'',
     rv_record = conformant_parameter_change_bool_record,
     rv_detail_json = join_lines
       [''{'',
        ''  "eventName": "ParameterChange",'',
        ''  "schemaExpected": "accept",'',
        ''  "fields": {'',
        ''    "sourceTime": 1000000370,'',
        ''    "runId": 1,'',
        ''    "seq": 38,'',
        ''    "sourceId": 66,'',
        ''    "eventTypeId": "0x0403"'',
        ''  },'',
        ''  "slots": ['',
        ''    { "key": "0x000D", "type": "UDInt", "name": "valueId", "value": 2003 },'',
        ''    { "key": "0x000F", "type": "Bool", "name": "previousValue", "value": false },'',
        ''    { "key": "0x0010", "type": "Bool", "name": "newValue", "value": true },'',
        ''    { "key": "0x000B", "type": "String", "name": "actor", "value": "operator-b" },'',
        ''    { "key": "0x001F", "type": "String", "name": "reason", "value": "enable audit" }'',
        ''  ]'',
        ''}'']\<rparr>\<close>

definition vector_conformant_parameter_change_string :: RecordVector where \<open>
  vector_conformant_parameter_change_string =
    \<lparr>rv_stem = ''conformant_parameter_change_string'',
     rv_description = ''definition-layer positive ParameterChange record carrying STRING previous/new values'',
     rv_record = conformant_parameter_change_string_record,
     rv_detail_json = join_lines
       [''{'',
        ''  "eventName": "ParameterChange",'',
        ''  "schemaExpected": "accept",'',
        ''  "fields": {'',
        ''    "sourceTime": 1000000380,'',
        ''    "runId": 1,'',
        ''    "seq": 39,'',
        ''    "sourceId": 66,'',
        ''    "eventTypeId": "0x0403"'',
        ''  },'',
        ''  "slots": ['',
        ''    { "key": "0x000D", "type": "UDInt", "name": "valueId", "value": 2012 },'',
        ''    { "key": "0x000F", "type": "String", "name": "previousValue", "value": "manual" },'',
        ''    { "key": "0x0010", "type": "String", "name": "newValue", "value": "auto" },'',
        ''    { "key": "0x000B", "type": "String", "name": "actor", "value": "operator-c" },'',
        ''    { "key": "0x001F", "type": "String", "name": "reason", "value": "mode note" },'',
        ''    { "key": "0x0020", "type": "UInt", "name": "authResult", "value": 1 }'',
        ''  ]'',
        ''}'']\<rparr>\<close>

definition vector_conformant_e_signature :: RecordVector where \<open>
  vector_conformant_e_signature =
    \<lparr>rv_stem = ''conformant_e_signature'',
     rv_description = ''definition-layer positive ESignature record'',
     rv_record = conformant_e_signature_record,
     rv_detail_json = join_lines
       [''{'',
        ''  "eventName": "ESignature",'',
        ''  "schemaExpected": "accept",'',
        ''  "fields": {'',
        ''    "sourceTime": 1000000390,'',
        ''    "runId": 1,'',
        ''    "seq": 40,'',
        ''    "sourceId": 66,'',
        ''    "eventTypeId": "0x0404"'',
        ''  },'',
        ''  "slots": ['',
        ''    { "key": "0x000A", "type": "UDInt", "name": "actionId", "value": 6002 },'',
        ''    { "key": "0x000B", "type": "String", "name": "actor", "value": "signer-a" },'',
        ''    { "key": "0x0022", "type": "UInt", "name": "signatureMeaning", "value": 2 },'',
        ''    { "key": "0x002F", "type": "ULInt", "name": "signedEventSeq", "value": 37 },'',
        ''    { "key": "0x0020", "type": "UInt", "name": "authResult", "value": 0 }'',
        ''  ]'',
        ''}'']\<rparr>\<close>

definition vector_conformant_records_dropped :: RecordVector where \<open>
  vector_conformant_records_dropped =
    \<lparr>rv_stem = ''conformant_records_dropped'',
     rv_description = ''definition-layer positive RecordsDropped record'',
     rv_record = conformant_records_dropped_record,
     rv_detail_json = join_lines
       [''{'',
        ''  "eventName": "RecordsDropped",'',
        ''  "schemaExpected": "accept",'',
        ''  "fields": {'',
        ''    "sourceTime": 0,'',
        ''    "runId": 9,'',
        ''    "seq": 100,'',
        ''    "sourceId": 66,'',
        ''    "eventTypeId": "0x0104"'',
        ''  },'',
        ''  "slots": ['',
        ''    { "key": "0x0016", "type": "UDInt", "name": "count", "value": 18 },'',
        ''    { "key": "0x0017", "type": "ULInt", "name": "firstLostSeq", "value": 40 },'',
        ''    { "key": "0x0018", "type": "ULInt", "name": "lastLostSeq", "value": 57 },'',
        ''    { "key": "0x0019", "type": "DateTime", "name": "windowStart", "value": 1000000000 },'',
        ''    { "key": "0x001A", "type": "DateTime", "name": "windowEnd", "value": 1000010000 }'',
        ''  ]'',
        ''}'']\<rparr>\<close>

definition vector_conformant_source_high_water :: RecordVector where \<open>
  vector_conformant_source_high_water =
    \<lparr>rv_stem = ''conformant_source_high_water'',
     rv_description = ''definition-layer positive SourceHighWater record'',
     rv_record = conformant_source_high_water_record,
     rv_detail_json = join_lines
       [''{'',
        ''  "eventName": "SourceHighWater",'',
        ''  "schemaExpected": "accept",'',
        ''  "fields": {'',
        ''    "sourceTime": 0,'',
        ''    "runId": 1,'',
        ''    "seq": 5,'',
        ''    "sourceId": 88,'',
        ''    "eventTypeId": "0x0108"'',
        ''  },'',
        ''  "slots": ['',
        ''    { "key": "0x0038", "type": "ULInt", "name": "producedCount", "value": 5 }'',
        ''  ]'',
        ''}'']\<rparr>\<close>

definition vector_records_dropped :: RecordVector where \<open>
  vector_records_dropped =
    \<lparr>rv_stem = ''records_dropped'',
     rv_description = ''canonical RecordsDropped record'',
     rv_record = records_dropped_vector_record,
     rv_detail_json = join_lines
       [''{'',
        ''  "eventName": "RecordsDropped",'',
        ''  "fields": {'',
        ''    "sourceTime": 0,'',
        ''    "runId": 9,'',
        ''    "seq": 44,'',
        ''    "sourceId": 42,'',
        ''    "eventTypeId": "0x0104"'',
        ''  },'',
        ''  "slots": ['',
        ''    { "key": "0x0016", "type": "UDInt", "name": "droppedCount", "value": 5 },'',
        ''    { "key": "0x0017", "type": "ULInt", "name": "firstLostSeq", "value": 100 },'',
        ''    { "key": "0x0018", "type": "ULInt", "name": "lastLostSeq", "value": 104 }'',
        ''  ]'',
        ''}'']\<rparr>\<close>

definition vector_source_high_water :: RecordVector where \<open>
  vector_source_high_water =
    \<lparr>rv_stem = ''source_high_water'',
     rv_description = ''per-source SourceHighWater checkpoint'',
     rv_record = source_high_water_vector_record,
     rv_detail_json = join_lines
       [''{'',
        ''  "eventName": "SourceHighWater",'',
        ''  "fields": {'',
        ''    "sourceTime": 0,'',
        ''    "runId": 1,'',
        ''    "seq": 5,'',
        ''    "sourceId": 88,'',
        ''    "eventTypeId": "0x0108"'',
        ''  },'',
        ''  "slots": ['',
        ''    { "key": "0x0038", "type": "ULInt", "name": "producedCount", "value": 5 }'',
        ''  ]'',
        ''}'']\<rparr>\<close>

definition vector_minimal_message :: RecordVector where \<open>
  vector_minimal_message =
    \<lparr>rv_stem = ''minimal_message'',
     rv_description = ''minimal valid Message record carrying a messageTemplateId'',
     rv_record = minimal_message_record,
     rv_detail_json = join_lines
       [''{'',
        ''  "eventName": "Message",'',
        ''  "fields": {'',
        ''    "sourceTime": 1780000000000000003,'',
        ''    "runId": 1,'',
        ''    "seq": 3,'',
        ''    "sourceId": 7,'',
        ''    "eventTypeId": "0x0003"'',
        ''  },'',
        ''  "slots": ['',
        ''    { "key": "0x0014", "type": "UDInt", "name": "messageTemplateId", "value": 1001 }'',
        ''  ]'',
        ''}'']\<rparr>\<close>

definition vector_logger_stopped :: RecordVector where \<open>
  vector_logger_stopped =
    \<lparr>rv_stem = ''logger_stopped'',
     rv_description = ''LoggerStopped lifecycle record'',
     rv_record = logger_stopped_record,
     rv_detail_json = join_lines
       [''{'',
        ''  "eventName": "LoggerStopped",'',
        ''  "systemSourceSeq": 0,'',
        ''  "fields": {'',
        ''    "sourceTime": 0,'',
        ''    "runId": 1,'',
        ''    "seq": 0,'',
        ''    "sourceId": 0,'',
        ''    "eventTypeId": "0x0102"'',
        ''  },'',
        ''  "slots": []'',
        ''}'']\<rparr>\<close>

definition vector_definition_changed :: RecordVector where \<open>
  vector_definition_changed =
    \<lparr>rv_stem = ''definition_changed'',
     rv_description = ''DefinitionChanged lifecycle record with epoch.rs emission slot order'',
     rv_record = definition_changed_record,
     rv_detail_json = join_lines
       [''{'',
        ''  "eventName": "DefinitionChanged",'',
        ''  "systemSourceSeq": 1,'',
        ''  "fields": {'',
        ''    "sourceTime": 0,'',
        ''    "runId": 1,'',
        ''    "seq": 1,'',
        ''    "sourceId": 0,'',
        ''    "eventTypeId": "0x0106"'',
        ''  },'',
        ''  "slots": ['',
        ''    { "key": "0x0039", "type": "Bytes", "name": "defHashOld", "value": "oldhash1", "order": 1 },'',
        ''    { "key": "0x001C", "type": "Bytes", "name": "defHashNew", "value": "newhash2", "order": 2 },'',
        ''    { "key": "0x003A", "type": "ULInt", "name": "epochId", "value": 2, "order": 3 }'',
        ''  ],'',
        ''  "slotOrderNote": "Matches epoch.rs emit_definition_changed: old, new, epoch; not numeric key order."'',
        ''}'']\<rparr>\<close>

definition vector_logger_started_warm :: RecordVector where \<open>
  vector_logger_started_warm =
    \<lparr>rv_stem = ''logger_started_warm'',
     rv_description = ''LoggerStarted warm lifecycle record'',
     rv_record = logger_started_warm_record,
     rv_detail_json = join_lines
       [''{'',
        ''  "eventName": "LoggerStarted",'',
        ''  "systemSourceSeq": 2,'',
        ''  "fields": {'',
        ''    "sourceTime": 0,'',
        ''    "runId": 1,'',
        ''    "seq": 2,'',
        ''    "sourceId": 0,'',
        ''    "eventTypeId": "0x0101"'',
        ''  },'',
        ''  "slots": ['',
        ''    { "key": "0x003B", "type": "Bool", "name": "coldStart", "value": false }'',
        ''  ]'',
        ''}'']\<rparr>\<close>

definition vector_logger_started_cold :: RecordVector where \<open>
  vector_logger_started_cold =
    \<lparr>rv_stem = ''logger_started_cold'',
     rv_description = ''LoggerStarted cold lifecycle record after system sequence reset'',
     rv_record = logger_started_cold_record,
     rv_detail_json = join_lines
       [''{'',
        ''  "eventName": "LoggerStarted",'',
        ''  "systemSourceSeq": 0,'',
        ''  "fields": {'',
        ''    "sourceTime": 0,'',
        ''    "runId": 2,'',
        ''    "seq": 0,'',
        ''    "sourceId": 0,'',
        ''    "eventTypeId": "0x0101"'',
        ''  },'',
        ''  "slots": ['',
        ''    { "key": "0x003B", "type": "Bool", "name": "coldStart", "value": true }'',
        ''  ],'',
        ''  "systemSeqNote": "finish_cold_start resets system_seq before emitting LoggerStarted."'',
        ''}'']\<rparr>\<close>

definition record_vectors :: "RecordVector list" where
  "record_vectors =
    [vector_state_transition,
     vector_conformant_state_transition,
     vector_conformant_value_changed_real,
     vector_conformant_value_changed_dint,
     vector_conformant_value_changed_bool,
     vector_conformant_value_changed_sint,
     vector_conformant_value_changed_usint,
     vector_conformant_value_changed_int,
     vector_conformant_value_changed_uint,
     vector_conformant_value_changed_udint,
     vector_conformant_value_changed_ulint,
     vector_conformant_value_changed_lint,
     vector_conformant_value_changed_lreal,
     vector_conformant_value_changed_string,
     vector_conformant_message,
     vector_conformant_condition_active,
     vector_conformant_condition_cleared,
     vector_conformant_condition_acknowledged,
     vector_conformant_condition_confirmed,
     vector_conformant_condition_shelved,
     vector_conformant_condition_unshelved,
     vector_conformant_condition_suppressed,
     vector_conformant_condition_unsuppressed,
     vector_conformant_condition_out_of_service,
     vector_conformant_condition_in_service,
     vector_conformant_condition_reset,
     vector_conformant_condition_commented,
     vector_conformant_condition_priority_changed,
     vector_conformant_recipe_loaded,
     vector_conformant_recipe_approved,
     vector_conformant_batch_event,
     vector_conformant_material_addition,
     vector_conformant_operator_action,
     vector_conformant_operator_login,
     vector_conformant_operator_logout,
     vector_conformant_security_access_failure,
     vector_conformant_parameter_change_real,
     vector_conformant_parameter_change_dint,
     vector_conformant_parameter_change_bool,
     vector_conformant_parameter_change_string,
     vector_conformant_e_signature,
     vector_conformant_records_dropped,
     vector_conformant_source_high_water,
     vector_records_dropped,
     vector_source_high_water,
     vector_minimal_message,
     vector_logger_stopped,
     vector_definition_changed,
     vector_logger_started_warm,
     vector_logger_started_cold]"

definition hex_paths :: "(string \<times> string) list" where
  "hex_paths =
    [(''state_transition'', ''state_transition.hex''),
     (''conformant_state_transition'', ''conformant_state_transition.hex''),
     (''conformant_value_changed_real'', ''conformant_value_changed_real.hex''),
     (''conformant_value_changed_dint'', ''conformant_value_changed_dint.hex''),
     (''conformant_value_changed_bool'', ''conformant_value_changed_bool.hex''),
     (''conformant_value_changed_sint'', ''conformant_value_changed_sint.hex''),
     (''conformant_value_changed_usint'', ''conformant_value_changed_usint.hex''),
     (''conformant_value_changed_int'', ''conformant_value_changed_int.hex''),
     (''conformant_value_changed_uint'', ''conformant_value_changed_uint.hex''),
     (''conformant_value_changed_udint'', ''conformant_value_changed_udint.hex''),
     (''conformant_value_changed_ulint'', ''conformant_value_changed_ulint.hex''),
     (''conformant_value_changed_lint'', ''conformant_value_changed_lint.hex''),
     (''conformant_value_changed_lreal'', ''conformant_value_changed_lreal.hex''),
     (''conformant_value_changed_string'', ''conformant_value_changed_string.hex''),
     (''conformant_message'', ''conformant_message.hex''),
     (''conformant_condition_active'', ''conformant_condition_active.hex''),
     (''conformant_condition_cleared'', ''conformant_condition_cleared.hex''),
     (''conformant_condition_acknowledged'', ''conformant_condition_acknowledged.hex''),
     (''conformant_condition_confirmed'', ''conformant_condition_confirmed.hex''),
     (''conformant_condition_shelved'', ''conformant_condition_shelved.hex''),
     (''conformant_condition_unshelved'', ''conformant_condition_unshelved.hex''),
     (''conformant_condition_suppressed'', ''conformant_condition_suppressed.hex''),
     (''conformant_condition_unsuppressed'', ''conformant_condition_unsuppressed.hex''),
     (''conformant_condition_out_of_service'', ''conformant_condition_out_of_service.hex''),
     (''conformant_condition_in_service'', ''conformant_condition_in_service.hex''),
     (''conformant_condition_reset'', ''conformant_condition_reset.hex''),
     (''conformant_condition_commented'', ''conformant_condition_commented.hex''),
     (''conformant_condition_priority_changed'', ''conformant_condition_priority_changed.hex''),
     (''conformant_recipe_loaded'', ''conformant_recipe_loaded.hex''),
     (''conformant_recipe_approved'', ''conformant_recipe_approved.hex''),
     (''conformant_batch_event'', ''conformant_batch_event.hex''),
     (''conformant_material_addition'', ''conformant_material_addition.hex''),
     (''conformant_operator_action'', ''conformant_operator_action.hex''),
     (''conformant_operator_login'', ''conformant_operator_login.hex''),
     (''conformant_operator_logout'', ''conformant_operator_logout.hex''),
     (''conformant_security_access_failure'', ''conformant_security_access_failure.hex''),
     (''conformant_parameter_change_real'', ''conformant_parameter_change_real.hex''),
     (''conformant_parameter_change_dint'', ''conformant_parameter_change_dint.hex''),
     (''conformant_parameter_change_bool'', ''conformant_parameter_change_bool.hex''),
     (''conformant_parameter_change_string'', ''conformant_parameter_change_string.hex''),
     (''conformant_e_signature'', ''conformant_e_signature.hex''),
     (''conformant_records_dropped'', ''conformant_records_dropped.hex''),
     (''conformant_source_high_water'', ''conformant_source_high_water.hex''),
     (''records_dropped'', ''records_dropped.hex''),
     (''source_high_water'', ''source_high_water.hex''),
     (''minimal_message'', ''minimal_message.hex''),
     (''logger_stopped'', ''logger_stopped.hex''),
     (''definition_changed'', ''definition_changed.hex''),
     (''logger_started_warm'', ''logger_started_warm.hex''),
     (''logger_started_cold'', ''logger_started_cold.hex'')]"

definition json_paths :: "(string \<times> string) list" where
  "json_paths =
    [(''state_transition'', ''state_transition.json''),
     (''conformant_state_transition'', ''conformant_state_transition.json''),
     (''conformant_value_changed_real'', ''conformant_value_changed_real.json''),
     (''conformant_value_changed_dint'', ''conformant_value_changed_dint.json''),
     (''conformant_value_changed_bool'', ''conformant_value_changed_bool.json''),
     (''conformant_value_changed_sint'', ''conformant_value_changed_sint.json''),
     (''conformant_value_changed_usint'', ''conformant_value_changed_usint.json''),
     (''conformant_value_changed_int'', ''conformant_value_changed_int.json''),
     (''conformant_value_changed_uint'', ''conformant_value_changed_uint.json''),
     (''conformant_value_changed_udint'', ''conformant_value_changed_udint.json''),
     (''conformant_value_changed_ulint'', ''conformant_value_changed_ulint.json''),
     (''conformant_value_changed_lint'', ''conformant_value_changed_lint.json''),
     (''conformant_value_changed_lreal'', ''conformant_value_changed_lreal.json''),
     (''conformant_value_changed_string'', ''conformant_value_changed_string.json''),
     (''conformant_message'', ''conformant_message.json''),
     (''conformant_condition_active'', ''conformant_condition_active.json''),
     (''conformant_condition_cleared'', ''conformant_condition_cleared.json''),
     (''conformant_condition_acknowledged'', ''conformant_condition_acknowledged.json''),
     (''conformant_condition_confirmed'', ''conformant_condition_confirmed.json''),
     (''conformant_condition_shelved'', ''conformant_condition_shelved.json''),
     (''conformant_condition_unshelved'', ''conformant_condition_unshelved.json''),
     (''conformant_condition_suppressed'', ''conformant_condition_suppressed.json''),
     (''conformant_condition_unsuppressed'', ''conformant_condition_unsuppressed.json''),
     (''conformant_condition_out_of_service'', ''conformant_condition_out_of_service.json''),
     (''conformant_condition_in_service'', ''conformant_condition_in_service.json''),
     (''conformant_condition_reset'', ''conformant_condition_reset.json''),
     (''conformant_condition_commented'', ''conformant_condition_commented.json''),
     (''conformant_condition_priority_changed'', ''conformant_condition_priority_changed.json''),
     (''conformant_recipe_loaded'', ''conformant_recipe_loaded.json''),
     (''conformant_recipe_approved'', ''conformant_recipe_approved.json''),
     (''conformant_batch_event'', ''conformant_batch_event.json''),
     (''conformant_material_addition'', ''conformant_material_addition.json''),
     (''conformant_operator_action'', ''conformant_operator_action.json''),
     (''conformant_operator_login'', ''conformant_operator_login.json''),
     (''conformant_operator_logout'', ''conformant_operator_logout.json''),
     (''conformant_security_access_failure'', ''conformant_security_access_failure.json''),
     (''conformant_parameter_change_real'', ''conformant_parameter_change_real.json''),
     (''conformant_parameter_change_dint'', ''conformant_parameter_change_dint.json''),
     (''conformant_parameter_change_bool'', ''conformant_parameter_change_bool.json''),
     (''conformant_parameter_change_string'', ''conformant_parameter_change_string.json''),
     (''conformant_e_signature'', ''conformant_e_signature.json''),
     (''conformant_records_dropped'', ''conformant_records_dropped.json''),
     (''conformant_source_high_water'', ''conformant_source_high_water.json''),
     (''records_dropped'', ''records_dropped.json''),
     (''source_high_water'', ''source_high_water.json''),
     (''minimal_message'', ''minimal_message.json''),
     (''logger_stopped'', ''logger_stopped.json''),
     (''definition_changed'', ''definition_changed.json''),
     (''logger_started_warm'', ''logger_started_warm.json''),
     (''logger_started_cold'', ''logger_started_cold.json'')]"

end
