(* ===== verification/Vectors.thy ===== *)
theory Vectors
  imports Vector_Texts Consumer Control
begin

text \<open>
  The generator of the conformance vectors, \<open>crates/carriage/src/vectors.rs\<close>.  A push function appends its files and
  panics where an \<open>expect\<close> or an assertion of the source fails; writing the files to disk is the caller's.
\<close>

unbundle bit_operations_syntax

section \<open>Panics\<close>

fun expect :: "('a, 'f) outcome \<Rightarrow> ('a, 'e) outcome" where
  "expect (Ok a) = Ok a"
| "expect (Err e) = Panic ExpectFailed"
| "expect (Panic p) = Panic p"

definition assert_that :: "bool \<Rightarrow> (unit, 'e) outcome" where
  "assert_that b = (if b then Ok () else Panic AssertionFailed)"

section \<open>Text\<close>

definition hex_digit_upper :: "nat \<Rightarrow> char" where
  "hex_digit_upper n = ''0123456789ABCDEF'' ! n"

primrec hex_upper :: "nat \<Rightarrow> nat \<Rightarrow> string" where
  "hex_upper 0 n = []"
| "hex_upper (Suc width) n = hex_upper width (n div 16) @ [hex_digit_upper (n mod 16)]"

definition hex_compact :: "byte_vec \<Rightarrow> string" where
  "hex_compact bytes = concat (map (\<lambda>byte. hex_upper 2 (unat byte)) bytes)"

fun hex_dump_from :: "nat \<Rightarrow> byte_vec \<Rightarrow> string" where
  "hex_dump_from index [] = [CHR 0x0A]"
| "hex_dump_from index (byte # bytes) =
     (if index > 0 then (if index mod 16 = 0 then [CHR 0x0A] else [CHR 0x20]) else [])
     @ hex_upper 2 (unat byte) @ hex_dump_from (Suc index) bytes"

definition hex_dump :: "byte_vec \<Rightarrow> string" where
  "hex_dump bytes = hex_dump_from 0 bytes"

function trim_start :: "string \<Rightarrow> string" where
  "trim_start s = (let n = whitespace_len s in if n = 0 then s else trim_start (drop n s))"
  by pat_completeness auto
termination
proof (relation "measure length", simp)
  fix s :: string and n assume n: "n = whitespace_len s" "n \<noteq> 0"
  then have "s \<noteq> []" by (auto simp: whitespace_len_def whitespace_chars_def)
  with n show "(drop n s, s) \<in> measure length" by simp
qed

declare trim_start.simps [simp del]

definition indent_json :: "string \<Rightarrow> nat \<Rightarrow> string" where
  "indent_json input spaces =
     trim_start (join_lines (map (\<lambda>line. replicate spaces (CHR 0x20) @ line) (str_lines input)))"

definition vector_read_u16 :: "byte_vec \<Rightarrow> nat \<Rightarrow> (u16, 'e) outcome" where
  "vector_read_u16 bytes offset =
     and_then (vec_index bytes offset) (\<lambda>a. and_then (vec_index bytes (offset + 1)) (\<lambda>b. Ok (from_le_bytes [a, b])))"

definition trailer_crc :: "byte_vec \<Rightarrow> (u32, 'e) outcome" where
  "trailer_crc bytes =
     (if length bytes < 4 then Panic ArithmeticOverflow
      else and_then (vec_slice bytes (length bytes - 4) (length bytes)) (\<lambda>b. Ok (from_le_bytes b)))"

definition hex_path :: "string \<Rightarrow> (string, 'e) outcome" where
  "hex_path stem = (case map_of hex_paths stem of Some path \<Rightarrow> Ok path | None \<Rightarrow> Panic Unreachable)"

definition json_path :: "string \<Rightarrow> (string, 'e) outcome" where
  "json_path stem = (case map_of json_paths stem of Some path \<Rightarrow> Ok path | None \<Rightarrow> Panic Unreachable)"

section \<open>Record vectors\<close>

record VectorFile =
  vf_path :: string
  vf_contents :: string

definition record_vector_json :: "RecordVector \<Rightarrow> nat \<Rightarrow> u16 \<Rightarrow> u16 \<Rightarrow> u32 \<Rightarrow> string" where \<open>
  record_vector_json v byte_count total_len flags crc = join_lines
    [''{'',
     ''  "name": "'' @ rv_stem v @ ''",'',
     ''  "description": "'' @ rv_description v @ ''",'',
     ''  "kind": "record",'',
     ''  "encoding": "wire-v2",'',
     ''  "expected": "accept",'',
     ''  "hexFile": "'' @ rv_stem v @ ''.hex",'',
     ''  "byteCount": '' @ decimal byte_count @ '','',
     ''  "headerLength": '' @ decimal HEADER_LEN @ '','',
     ''  "totalRecordLength": '' @ decimal (unat total_len) @ '','',
     ''  "flags": "0x'' @ hex_upper 4 (unat flags) @ ''",'',
     ''  "crc32c": "0x'' @ hex_upper 8 (unat crc) @ ''",'',
     ''  "detail": '' @ indent_json (rv_detail_json v) 2,
     ''}'',
     []]\<close>

definition push_record_vector :: "VectorFile list \<Rightarrow> RecordVector \<Rightarrow> (VectorFile list, 'e) outcome" where
  "push_record_vector files v =
     and_then (expect (encode (rv_record v) True)) (\<lambda>bytes.
     and_then (expect (decode bytes)) (\<lambda>decoded.
     and_then (assert_that (dec_record decoded = record_with_crc (rv_record v))) (\<lambda>_.
     and_then (trailer_crc bytes) (\<lambda>crc.
     and_then (hex_path (rv_stem v)) (\<lambda>hex_file.
     and_then (json_path (rv_stem v)) (\<lambda>json_file.
     and_then (vector_read_u16 bytes 4) (\<lambda>total_len.
     and_then (vector_read_u16 bytes 6) (\<lambda>flags.
       Ok (files @ [\<lparr>vf_path = hex_file, vf_contents = hex_dump bytes\<rparr>,
                    \<lparr>vf_path = json_file, vf_contents = record_vector_json v (length bytes) total_len flags crc\<rparr>])))))))))"

section \<open>Control block vectors\<close>

definition vector_control_snapshot :: ControlBlockSnapshot where
  "vector_control_snapshot =
     \<lparr>cb_version = 2, cb_caps = 3, cb_buffer_id = 7, cb_buffer_bytes = 4096, cb_head_abs = 8192, cb_oldest_abs = 6144,
      cb_lost_count = 12, cb_run_id = 3, cb_epoch_id = 5, cb_epoch_first_abs = 7000,
      cb_definition_hash = map of_char ''defhash1'', cb_prev_definition_hash = map of_char ''oldhash1''\<rparr>"

definition control_block_json :: "ControlBlockSnapshot \<Rightarrow> string" where \<open>
  control_block_json snapshot = join_lines
    [''{'',
     ''  "name": "control_block",'',
     ''  "kind": "control-block",'',
     ''  "encoding": "open-ot-control-v2",'',
     ''  "expected": "accept",'',
     ''  "hexFile": "control_block.hex",'',
     ''  "byteCount": '' @ decimal CONTROL_BLOCK_LEN @ '','',
     ''  "seqLock": 2,'',
     ''  "fields": {'',
     ''    "bufferId": '' @ decimal (unat (cb_buffer_id snapshot)) @ '','',
     ''    "bufferBytes": '' @ decimal (unat (cb_buffer_bytes snapshot)) @ '','',
     ''    "headAbs": '' @ decimal (unat (cb_head_abs snapshot)) @ '','',
     ''    "oldestAbs": '' @ decimal (unat (cb_oldest_abs snapshot)) @ '','',
     ''    "lostCount": '' @ decimal (unat (cb_lost_count snapshot)) @ '','',
     ''    "runId": '' @ decimal (unat (cb_run_id snapshot)) @ '','',
     ''    "epochId": '' @ decimal (unat (cb_epoch_id snapshot)) @ '','',
     ''    "epochFirstAbs": '' @ decimal (unat (cb_epoch_first_abs snapshot)) @ '','',
     ''    "definitionHash": "'' @ hex_compact (cb_definition_hash snapshot) @ ''",'',
     ''    "prevDefinitionHash": "'' @ hex_compact (cb_prev_definition_hash snapshot) @ ''"'',
     ''  }'',
     ''}'',
     []]\<close>

definition control_block_torn_json :: string where \<open>
  control_block_torn_json = join_lines
    [''{'',
     ''  "name": "control_block_torn_snapshot",'',
     ''  "kind": "control-block",'',
     ''  "encoding": "open-ot-control-v2",'',
     ''  "expected": "reject",'',
     ''  "expectedError": "Updating",'',
     ''  "hexFile": "control_block_torn_snapshot.hex",'',
     ''  "observedSeqLock": 3'',
     ''}'',
     []]\<close>

definition control_block_stale_json :: string where \<open>
  control_block_stale_json = join_lines
    [''{'',
     ''  "name": "control_block_stale_snapshot",'',
     ''  "kind": "control-block",'',
     ''  "encoding": "open-ot-control-v2",'',
     ''  "expected": "reject",'',
     ''  "expectedError": "StaleSnapshot",'',
     ''  "hexFile": "control_block_stale_snapshot.hex",'',
     ''  "observedSeqLockFirst": 2,'',
     ''  "observedSeqLockSecond": 4'',
     ''}'',
     []]\<close>

definition control_block_overwrite_json :: string where \<open>
  control_block_overwrite_json = join_lines
    [''{'',
     ''  "name": "control_block_overwrite_snapshot",'',
     ''  "kind": "control-block",'',
     ''  "encoding": "open-ot-control-v2",'',
     ''  "expected": "reject-record",'',
     ''  "reason": "OldestAbs > recordAbs",'',
     ''  "hexFile": "control_block_overwrite_snapshot.hex",'',
     ''  "recordAbs": 128,'',
     ''  "oldestAbs": 256'',
     ''}'',
     []]\<close>

definition push_control_block_vectors :: "VectorFile list \<Rightarrow> (VectorFile list, 'e) outcome" where
  "push_control_block_vectors files =
     (let snapshot = vector_control_snapshot in
     and_then (snapshot_encode snapshot 2) (\<lambda>bytes.
     and_then (vec_copy bytes 16 (u32_to_le_bytes 3)) (\<lambda>torn.
     and_then (snapshot_encode (snapshot\<lparr>cb_oldest_abs := 256\<rparr>) 4) (\<lambda>overwrite_bytes.
       Ok (files @
         [\<lparr>vf_path = ''control_block.hex'', vf_contents = hex_dump bytes\<rparr>,
          \<lparr>vf_path = ''control_block.json'', vf_contents = control_block_json snapshot\<rparr>,
          \<lparr>vf_path = ''control_block_torn_snapshot.hex'', vf_contents = hex_dump torn\<rparr>,
          \<lparr>vf_path = ''control_block_torn_snapshot.json'', vf_contents = control_block_torn_json\<rparr>,
          \<lparr>vf_path = ''control_block_stale_snapshot.hex'', vf_contents = hex_dump bytes\<rparr>,
          \<lparr>vf_path = ''control_block_stale_snapshot.json'', vf_contents = control_block_stale_json\<rparr>,
          \<lparr>vf_path = ''control_block_overwrite_snapshot.hex'', vf_contents = hex_dump overwrite_bytes\<rparr>,
          \<lparr>vf_path = ''control_block_overwrite_snapshot.json'', vf_contents = control_block_overwrite_json\<rparr>])))))"

section \<open>Ring vectors\<close>

definition wrap_marker_json :: "RingBuffer \<Rightarrow> ReadRecord \<Rightarrow> string" where \<open>
  wrap_marker_json ring read = join_lines
    [''{'',
     ''  "name": "wrap_marker_boundary",'',
     ''  "kind": "physical-ring-image",'',
     ''  "encoding": "wire-v2-ring",'',
     ''  "expected": "accept-after-lap",'',
     ''  "hexFile": "wrap_marker_boundary.hex",'',
     ''  "capacity": '' @ decimal (capacity ring) @ '','',
     ''  "headAbs": '' @ decimal (ring_head_abs ring) @ '','',
     ''  "oldestAbs": '' @ decimal (ring_oldest_abs ring) @ '','',
     ''  "wrapMarker": { "abs": 88, "phys": 88, "value": "0x00" },'',
     ''  "cursorAbs": 88,'',
     ''  "expectedLapped": true,'',
     ''  "expectedDelivered": ['',
     ''    { "sourceId": 81, "seq": 2, "startAbs": '' @ decimal (rr_start_abs read) @ '', "endAbs": '' @ decimal (rr_end_abs read) @ '' }'',
     ''  ]'',
     ''}'',
     []]\<close>

definition push_wrap_marker_boundary :: "VectorFile list \<Rightarrow> (VectorFile list, 'e) outcome" where
  "push_wrap_marker_boundary files =
     and_then (ring_new 128) (\<lambda>ring.
     and_then (expect (write_record ring (minimal_record 81 0))) (\<lambda>(ring, _, first_end).
     and_then (expect (write_record ring (minimal_record 81 1))) (\<lambda>(ring, _, second_end).
     and_then (assert_that ((first_end, second_end) = (44, 88))) (\<lambda>_.
     let wrapped = with_slots (minimal_record 81 2) [slot_new 0x1000 TY_UINT (u16_to_le_bytes 0x2222)] in
     and_then (expect (encode wrapped True)) (\<lambda>encoded.
     and_then (assert_that (length encoded = 52)) (\<lambda>_.
     and_then (expect (write_record ring wrapped)) (\<lambda>(ring, third_start, third_end).
     and_then (assert_that ((third_start, third_end) = (128, 180))) (\<lambda>_.
     and_then (vec_index (ring_bytes ring) 88) (\<lambda>marker.
     and_then (assert_that (marker = 0)) (\<lambda>_.
     and_then (vec_slice (ring_bytes ring) 0 4) (\<lambda>front.
     and_then (assert_that (front = SYNC)) (\<lambda>_.
     and_then (expect (read_raw_from ring 88)) (\<lambda>batch.
     and_then (assert_that (rb_lapped batch)) (\<lambda>_.
     and_then (assert_that (length (rb_records batch) = 1)) (\<lambda>_.
     and_then (vec_index (rb_records batch) 0) (\<lambda>read.
     and_then (assert_that (rec_seq (rr_record read) = 2)) (\<lambda>_.
       Ok (files @ [\<lparr>vf_path = ''wrap_marker_boundary.hex'', vf_contents = hex_dump (ring_bytes ring)\<rparr>,
                    \<lparr>vf_path = ''wrap_marker_boundary.json'', vf_contents = wrap_marker_json ring read\<rparr>]))))))))))))))))))"

definition torn_record_json :: "nat \<Rightarrow> u16 \<Rightarrow> nat \<Rightarrow> string" where \<open>
  torn_record_json byte_count total_len copied = join_lines
    [''{'',
     ''  "name": "torn_record_must_reject",'',
     ''  "kind": "record-fragment",'',
     ''  "encoding": "wire-v2",'',
     ''  "expected": "reject",'',
     ''  "expectedError": "CrcMismatch",'',
     ''  "hexFile": "torn_record_must_reject.hex",'',
     ''  "byteCount": '' @ decimal byte_count @ '','',
     ''  "advertisedTotalRecordLength": '' @ decimal (unat total_len) @ '','',
     ''  "copiedPrefixBytes": '' @ decimal copied @ '','',
     ''  "fault": "valid sync and length, copied header plus slot header, unwritten tail filled with 0xA5"'',
     ''}'',
     []]\<close>

fun is_crc_mismatch :: "('a, WireError) outcome \<Rightarrow> bool" where
  "is_crc_mismatch (Err (CrcMismatch _ _)) = True"
| "is_crc_mismatch _ = False"

definition push_torn_record :: "VectorFile list \<Rightarrow> (VectorFile list, 'e) outcome" where
  "push_torn_record files =
     (let r = with_slots (minimal_record 73 0) [slot_new 0x1000 TY_UDINT (u32_to_le_bytes 123)] in
     and_then (expect (encode r True)) (\<lambda>complete.
     let copied = HEADER_LEN + 4 in
     and_then (vec_slice complete 0 copied) (\<lambda>front.
     and_then (vec_copy (replicate (length complete) 0) 0 front) (\<lambda>torn.
     let torn = take copied torn @ replicate (length torn - copied) 0xA5 in
     and_then (vec_slice torn 0 4) (\<lambda>sync.
     and_then (assert_that (sync = SYNC)) (\<lambda>_.
     and_then (vector_read_u16 torn 4) (\<lambda>total_len.
     and_then (assert_that (unat total_len = length torn)) (\<lambda>_.
     and_then (assert_that (is_crc_mismatch (decode torn))) (\<lambda>_.
       Ok (files @ [\<lparr>vf_path = ''torn_record_must_reject.hex'', vf_contents = hex_dump torn\<rparr>,
                    \<lparr>vf_path = ''torn_record_must_reject.json'', vf_contents = torn_record_json (length torn) total_len copied\<rparr>]))))))))))"

fun write_minimal :: "u32 \<Rightarrow> nat list \<Rightarrow> RingBuffer \<Rightarrow> (RingBuffer, 'e) outcome" where
  "write_minimal source_id [] ring = Ok ring"
| "write_minimal source_id (seq # seqs) ring =
     and_then (expect (write_record ring (minimal_record source_id (of_nat seq)))) (\<lambda>(ring, _, _). write_minimal source_id seqs ring)"

fun encode_stream :: "ReadRecord list \<Rightarrow> (byte_vec, 'e) outcome" where
  "encode_stream [] = Ok []"
| "encode_stream (read # reads) =
     and_then (expect (encode (rr_record read) True)) (\<lambda>bytes. and_then (encode_stream reads) (\<lambda>rest. Ok (bytes @ rest)))"

definition overflow_json :: "nat \<Rightarrow> nat \<Rightarrow> LossRange \<Rightarrow> nat \<Rightarrow> string" where \<open>
  overflow_json cap records loss count = join_lines
    [''{'',
     ''  "name": "overflow_records_dropped_sequence",'',
     ''  "kind": "logical-record-stream",'',
     ''  "encoding": "wire-v2",'',
     ''  "expected": "accept",'',
     ''  "hexFile": "overflow_records_dropped_sequence.hex",'',
     ''  "ringCapacity": '' @ decimal cap @ '','',
     ''  "batchLapped": true,'',
     ''  "recordsInStream": '' @ decimal records @ '','',
     ''  "producerLoss": {'',
     ''    "runId": '' @ decimal (unat (lr_run_id loss)) @ '','',
     ''    "sourceId": '' @ decimal (unat (lr_source_id loss)) @ '','',
     ''    "firstSeq": '' @ decimal (lr_first_seq loss) @ '','',
     ''    "lastSeq": '' @ decimal (lr_last_seq loss) @ '','',
     ''    "count": '' @ decimal count,
     ''  },'',
     ''  "expectedAccounting": {'',
     ''    "sourceId": 88,'',
     ''    "lost": 5,'',
     ''    "deliveredRecordsDroppedRecord": true'',
     ''  }'',
     ''}'',
     []]\<close>

definition push_overflow_records_dropped :: "VectorFile list \<Rightarrow> (VectorFile list, 'e) outcome" where
  "push_overflow_records_dropped files =
     and_then (ring_new 256) (\<lambda>ring.
     and_then (write_minimal 88 [0 ..< 5] ring) (\<lambda>ring.
     and_then (write_minimal 99 [0 ..< 80] ring) (\<lambda>ring.
     case take_producer_loss_ranges ring of (ring, ranges) \<Rightarrow>
     and_then (case find (\<lambda>rng. lr_source_id rng = 88) ranges of Some rng \<Rightarrow> Ok rng | None \<Rightarrow> Panic ExpectFailed) (\<lambda>loss.
     and_then (assert_that (loss = \<lparr>lr_run_id = 1, lr_source_id = 88, lr_first_seq = 0, lr_last_seq = 4\<rparr>)) (\<lambda>_.
     and_then (records_dropped_record 5 loss) (\<lambda>dropped.
     and_then (expect (write_record ring dropped)) (\<lambda>(ring, _, _).
     and_then (expect (rbc_poll rbc_new ring)) (\<lambda>(raw, batch).
     and_then (assert_that (rb_lapped batch)) (\<lambda>_.
     and_then (tracker_lost (rbc_tracker raw) 1 88) (\<lambda>lost.
     and_then (assert_that (lost = 5)) (\<lambda>_.
     and_then (assert_that (list_ex (\<lambda>read. rec_event_type_id (rr_record read) = EVENT_RECORDS_DROPPED
         \<and> rec_source_id (rr_record read) = 88) (rb_records batch))) (\<lambda>_.
     and_then (encode_stream (rb_records batch)) (\<lambda>stream.
     and_then (loss_range_count loss) (\<lambda>count.
       Ok (files @ [\<lparr>vf_path = ''overflow_records_dropped_sequence.hex'', vf_contents = hex_dump stream\<rparr>,
                    \<lparr>vf_path = ''overflow_records_dropped_sequence.json'',
                      vf_contents = overflow_json (capacity ring) (length (rb_records batch)) loss count\<rparr>])))))))))))))))"

section \<open>All files\<close>

definition readme :: string where
  "readme = join_lines
    [''# OpenOT wire-v2 conformance vectors'',
     [],
     ''These files are generated, not hand-written. Regenerate them with:'',
     [],
     ''```sh'',
     ''cargo run -p open-ot-carriage --bin dump_vectors'',
     ''```'',
     [],
     ''`cargo test` compares the checked-in files with the generator output, so byte'',
     ''fixture drift is a test failure. `.hex` files are byte-exact hexadecimal dumps.'',
     ''The adjacent `.json` files describe the expected interpretation or rejection.'',
     [],
     ''Files named `conformant_*` are definition-layer positive record fixtures. The'',
     ''older codec fixtures remain valid wire records; where their `.json` marks'',
     ''`schemaExpected: reject`, they are intended as future schema-violation negatives.'',
     []]"

fun push_record_vectors :: "RecordVector list \<Rightarrow> VectorFile list \<Rightarrow> (VectorFile list, 'e) outcome" where
  "push_record_vectors [] files = Ok files"
| "push_record_vectors (v # vs) files = and_then (push_record_vector files v) (push_record_vectors vs)"

definition generate_files :: "unit \<Rightarrow> (VectorFile list, 'e) outcome" where
  "generate_files _ =
     and_then (push_record_vectors record_vectors [\<lparr>vf_path = ''README.md'', vf_contents = readme\<rparr>]) (\<lambda>files.
     and_then (push_control_block_vectors files) (\<lambda>files.
     and_then (push_wrap_marker_boundary files) (\<lambda>files.
     and_then (push_torn_record files)
       push_overflow_records_dropped)))"

end
