(* ===== verification/Vector_Files.thy ===== *)
theory Vector_Files
  imports Vectors
begin

text \<open>
  What the vector generator writes, without the calls that write it: a hexadecimal dump determines its bytes,
  the file tables name every record vector, each \<open>push_*\<close> function of records, control blocks and the torn
  record ends without a panic and appends the listed files, and the torn record is refused by its checksum.
\<close>

section \<open>Hexadecimal dumps\<close>

lemma length_hex_upper [simp]: "length (hex_upper w n) = w"
  by (induction w arbitrary: n) simp_all

lemma hex_digit_inject: "i < 16 \<Longrightarrow> j < 16 \<Longrightarrow> hex_digit_upper i = hex_digit_upper j \<longleftrightarrow> i = j"
  unfolding hex_digit_upper_def by (rule nth_eq_iff_index_eq) simp_all

lemma hex_upper_inject: "hex_upper w m = hex_upper w n \<Longrightarrow> m mod 16 ^ w = n mod 16 ^ w"
proof (induction w arbitrary: m n)
  case (Suc w)
  have "m mod 16 = n mod 16"
    using Suc.prems by (simp add: hex_digit_inject)
  moreover have "m div 16 mod 16 ^ w = n div 16 mod 16 ^ w" by (rule Suc.IH) (use Suc.prems in simp)
  ultimately show ?case by (simp only: power_Suc mod_mult2_eq)
qed simp

lemma hex_byte_inject: "hex_upper 2 (unat (a :: u8)) = hex_upper 2 (unat b) \<longleftrightarrow> a = b"
proof
  assume "hex_upper 2 (unat a) = hex_upper 2 (unat b)"
  from hex_upper_inject [OF this] unat_byte_bound [of a] unat_byte_bound [of b] show "a = b" by (simp add: word_unat_eq_iff)
qed simp

lemma hex_dump_from_inject: "hex_dump_from i a = hex_dump_from i b \<longleftrightarrow> a = b"
proof (induction i a arbitrary: b rule: hex_dump_from.induct)
  case (1 i)
  show ?case by (cases b) (auto simp: numeral_2_eq_2)
next
  case (2 i x a)
  show ?case
  proof (cases b)
    case Nil
    then show ?thesis by (auto simp: numeral_2_eq_2)
  next
    case (Cons y b')
    then show ?thesis using 2 [of b'] hex_byte_inject [of x y] by auto
  qed
qed

lemma hex_dump_inject: "hex_dump a = hex_dump b \<longleftrightarrow> a = b"
  by (simp add: hex_dump_def hex_dump_from_inject)

section \<open>Record vectors\<close>

lemma expect_eq_Ok [simp]: "expect r = Ok a \<longleftrightarrow> r = Ok a"
  by (cases r) simp_all

lemma assert_that_eq_Ok [simp]: "assert_that b = Ok u \<longleftrightarrow> b" "b \<Longrightarrow> assert_that b = Ok ()"
  by (simp_all add: assert_that_def)

lemma vector_read_u16_eq: "offset + 2 \<le> length bytes \<Longrightarrow> vector_read_u16 bytes offset = read_u16 bytes offset"
  by (simp add: vector_read_u16_def read_u16_def take_Suc_conv_app_nth numeral_2_eq_2 hd_drop_conv_nth Cons_nth_drop_Suc [symmetric])

lemma record_with_crc_normalises: "record_with_crc r = normalise_flags r True"
  by (simp add: record_with_crc_def normalise_flags_def encode_flags_def)

lemmas vector_defs =
  vector_state_transition_def vector_conformant_state_transition_def vector_conformant_value_changed_real_def
  vector_conformant_value_changed_dint_def vector_conformant_value_changed_bool_def
  vector_conformant_value_changed_sint_def vector_conformant_value_changed_usint_def
  vector_conformant_value_changed_int_def vector_conformant_value_changed_uint_def
  vector_conformant_value_changed_udint_def vector_conformant_value_changed_ulint_def
  vector_conformant_value_changed_lint_def vector_conformant_value_changed_lreal_def
  vector_conformant_value_changed_string_def vector_conformant_message_def vector_conformant_condition_active_def
  vector_conformant_condition_cleared_def vector_conformant_condition_acknowledged_def
  vector_conformant_condition_confirmed_def vector_conformant_condition_shelved_def
  vector_conformant_condition_unshelved_def vector_conformant_condition_suppressed_def
  vector_conformant_condition_unsuppressed_def vector_conformant_condition_out_of_service_def
  vector_conformant_condition_in_service_def vector_conformant_condition_reset_def
  vector_conformant_condition_commented_def vector_conformant_condition_priority_changed_def
  vector_conformant_recipe_loaded_def vector_conformant_recipe_approved_def vector_conformant_batch_event_def
  vector_conformant_material_addition_def vector_conformant_operator_action_def vector_conformant_operator_login_def
  vector_conformant_operator_logout_def vector_conformant_security_access_failure_def
  vector_conformant_parameter_change_real_def vector_conformant_parameter_change_dint_def
  vector_conformant_parameter_change_bool_def vector_conformant_parameter_change_string_def
  vector_conformant_e_signature_def vector_conformant_records_dropped_def vector_conformant_source_high_water_def
  vector_records_dropped_def vector_source_high_water_def vector_minimal_message_def vector_logger_stopped_def
  vector_definition_changed_def vector_logger_started_warm_def vector_logger_started_cold_def

lemma path_tables:
  "list_all (\<lambda>(s, p). p = s @ ''.hex'') hex_paths" "list_all (\<lambda>(s, p). p = s @ ''.json'') json_paths"
  "map fst hex_paths = map rv_stem record_vectors" "map fst json_paths = map rv_stem record_vectors"
proof -
  show "list_all (\<lambda>(s, p). p = s @ ''.hex'') hex_paths" by (simp add: hex_paths_def)
  show "list_all (\<lambda>(s, p). p = s @ ''.json'') json_paths" by (simp add: json_paths_def)
  show "map fst hex_paths = map rv_stem record_vectors" by (simp add: hex_paths_def record_vectors_def vector_defs)
  show "map fst json_paths = map rv_stem record_vectors" by (simp add: json_paths_def record_vectors_def vector_defs)
qed

lemma table_lookup:
  assumes "map fst table = map rv_stem vs" "list_all (\<lambda>(s, p). p = s @ ext) table" "v \<in> set vs"
  shows "map_of table (rv_stem v) = Some (rv_stem v @ ext)"
proof -
  have "rv_stem v \<in> fst ` set table" using assms(1,3) by (metis image_eqI list.set_map)
  then obtain p where "map_of table (rv_stem v) = Some p" by (metis map_of_eq_None_iff not_None_eq)
  with map_of_SomeD assms(2) show ?thesis by (fastforce simp: list_all_iff)
qed

lemma vector_paths:
  assumes "v \<in> set record_vectors"
  shows "hex_path (rv_stem v) = Ok (rv_stem v @ ''.hex'')" "json_path (rv_stem v) = Ok (rv_stem v @ ''.json'')"
  using table_lookup [OF path_tables(3,1) assms] table_lookup [OF path_tables(4,2) assms] by (simp_all add: hex_path_def json_path_def)

definition vector_fits :: "Record \<Rightarrow> bool" where
  "vector_fits r \<longleftrightarrow> encodable r True \<and> record_len r True \<le> 256 \<and> length (rec_slots r) \<le> 16"

definition record_vector_files :: "RecordVector \<Rightarrow> VectorFile list" where
  "record_vector_files v =
     (let r = rv_record v in
      [\<lparr>vf_path = rv_stem v @ ''.hex'', vf_contents = hex_dump (record_bytes r True)\<rparr>,
       \<lparr>vf_path = rv_stem v @ ''.json'',
        vf_contents = record_vector_json v (record_len r True) (of_nat (record_len r True)) (rec_flags r OR FLAG_HAS_CRC)
          (crc32c (record_body r True))\<rparr>])"

lemma push_record_vector_ok:
  assumes fits: "encodable (rv_record v) True" and v: "v \<in> set record_vectors"
  shows "push_record_vector files v = (Ok (files @ record_vector_files v) :: (_, 'e) outcome)"
proof -
  let ?r = "rv_record v" and ?bs = "record_bytes (rv_record v) True"
  have dec: "decode ?bs = Ok \<lparr>dec_record = normalise_flags ?r True, dec_consumed = record_len ?r True\<rparr>"
    using decode_record_bytes [OF fits, of "[]"] by simp
  have len: "44 \<le> record_len ?r True" by (simp add: record_len_def)
  have crc: "trailer_crc ?bs = (Ok (crc32c (record_body ?r True)) :: (_, 'e) outcome)"
    by (simp add: trailer_crc_def record_bytes_def)
  have "vector_read_u16 ?bs 4 = (Ok (of_nat (record_len ?r True)) :: (_, 'e) outcome)"
    "vector_read_u16 ?bs 6 = (Ok (encode_flags (rec_flags ?r) True) :: (_, 'e) outcome)"
    using len header_reads(2,3) [of ?r] record_bytes_header [of ?r True "[]"] by (simp_all add: vector_read_u16_eq)
  with crc dec show ?thesis
    by (simp add: vector_paths [OF v] push_record_vector_def encode_ok [OF fits] record_with_crc_normalises record_vector_files_def encode_flags_def Let_def)
qed

lemma push_record_vectors_ok:
  assumes "list_all (\<lambda>v. encodable (rv_record v) True \<and> v \<in> set record_vectors) vs"
  shows "push_record_vectors vs files = Ok (files @ concat (map record_vector_files vs))"
  using assms by (induction vs arbitrary: files) (simp_all add: push_record_vector_ok)

section \<open>Control block vectors\<close>

lemma vector_snapshot_wf [simp]: "snapshot_wf vector_control_snapshot" "snapshot_wf (vector_control_snapshot\<lparr>cb_oldest_abs := 256\<rparr>)"
  by (simp_all add: snapshot_wf_def vector_control_snapshot_def)

definition torn_image :: byte_vec where
  "torn_image = (let image = snapshot_image vector_control_snapshot 2 in take 16 image @ u32_to_le_bytes 3 @ drop 20 image)"

definition control_vector_files :: "VectorFile list" where
  "control_vector_files =
     [\<lparr>vf_path = ''control_block.hex'', vf_contents = hex_dump (snapshot_image vector_control_snapshot 2)\<rparr>,
      \<lparr>vf_path = ''control_block.json'', vf_contents = control_block_json vector_control_snapshot\<rparr>,
      \<lparr>vf_path = ''control_block_torn_snapshot.hex'', vf_contents = hex_dump torn_image\<rparr>,
      \<lparr>vf_path = ''control_block_torn_snapshot.json'', vf_contents = control_block_torn_json\<rparr>,
      \<lparr>vf_path = ''control_block_stale_snapshot.hex'', vf_contents = hex_dump (snapshot_image vector_control_snapshot 2)\<rparr>,
      \<lparr>vf_path = ''control_block_stale_snapshot.json'', vf_contents = control_block_stale_json\<rparr>,
      \<lparr>vf_path = ''control_block_overwrite_snapshot.hex'',
       vf_contents = hex_dump (snapshot_image (vector_control_snapshot\<lparr>cb_oldest_abs := 256\<rparr>) 4)\<rparr>,
      \<lparr>vf_path = ''control_block_overwrite_snapshot.json'', vf_contents = control_block_overwrite_json\<rparr>]"

lemma push_control_ok: "push_control_block_vectors files = (Ok (files @ control_vector_files) :: (_, 'a) outcome)"
proof -
  let ?i = "snapshot_image vector_control_snapshot 2"
  have "vec_copy ?i 16 (u32_to_le_bytes 3) = (Ok torn_image :: (_, 'a) outcome)"
    by (simp add: vec_copy_def torn_image_def Let_def)
  then show ?thesis by (simp add: push_control_block_vectors_def snapshot_encode_ok Let_def control_vector_files_def)
qed

section \<open>The torn record\<close>

definition torn_source :: Record where
  "torn_source = with_slots (minimal_record 73 0) [slot_new 0x1000 TY_UDINT (u32_to_le_bytes 123)]"

definition torn_bytes :: byte_vec where
  "torn_bytes = take 44 (record_bytes torn_source True) @ replicate 8 0xA5"

lemma torn_source_fits: "encodable torn_source True" "record_len torn_source True = 52"
  by (simp_all add: torn_source_def with_slots_def minimal_record_def record_new_def slot_new_def encodable_def record_len_def
      padding_len_def slot_ok_def)

lemma torn_bytes_eq: "torn_bytes =
   [0x4F, 0x4F, 0x54, 0x32, 0x34, 0x00, 0x08, 0x00, 0x00, 0x00, 0x32, 0xB4, 0x91, 0xD4, 0xB3, 0x18, 0x01, 0x00, 0x00, 0x00,
    0x00, 0x00, 0x00, 0x00, 0x00, 0x00, 0x00, 0x00, 0x00, 0x00, 0x00, 0x00, 0x49, 0x00, 0x00, 0x00, 0x03, 0x00, 0x00, 0x00,
    0x00, 0x10, 0x05, 0x04, 0xA5, 0xA5, 0xA5, 0xA5, 0xA5, 0xA5, 0xA5, 0xA5]"
  by (simp add: torn_bytes_def record_bytes_def record_body_def encode_header_def torn_source_fits SYNC_def,
      simp add: torn_source_def with_slots_def minimal_record_def record_new_def slot_new_def registry_ids encode_flags_def
        FLAG_HAS_CRC_def u16_to_le_bytes_def u32_to_le_bytes_def u64_to_le_bytes_def slot_bytes_def padding_len_def,
      simp add: eval_nat_numeral)

lemma torn_rejected: "is_crc_mismatch (decode torn_bytes)"
proof -
  have "\<exists>e a. validate_record torn_bytes = Err (CrcMismatch e a)"
  proof (rule validate_record_crc_fails [where n = 52])
    show "u32_to_le_bytes (crc32c (take (52 - 4) torn_bytes)) \<noteq> take 4 (drop (52 - 4) torn_bytes)"
      by (simp add: torn_bytes_eq crc_eval u32_to_le_bytes_def)
  qed (simp_all add: torn_bytes_eq SYNC_def u16_to_le_bytes_def from_le_bytes_def)
  then show ?thesis by (auto simp: decode_def)
qed

definition torn_vector_files :: "VectorFile list" where
  "torn_vector_files =
     [\<lparr>vf_path = ''torn_record_must_reject.hex'', vf_contents = hex_dump torn_bytes\<rparr>,
      \<lparr>vf_path = ''torn_record_must_reject.json'', vf_contents = torn_record_json 52 52 44\<rparr>]"

lemma push_torn_ok: "push_torn_record files = (Ok (files @ torn_vector_files) :: (_, 'e) outcome)"
proof -
  have "length torn_bytes = 52" "take 4 torn_bytes = SYNC" "vector_read_u16 torn_bytes 4 = (Ok 52 :: (_, 'e) outcome)"
    by (simp_all add: torn_bytes_eq SYNC_def vector_read_u16_def from_le_bytes_def)
  then show ?thesis
    using torn_rejected
    by (simp add: push_torn_record_def torn_source_def [symmetric] encode_ok torn_source_fits HEADER_LEN_def vec_copy_def torn_bytes_def [symmetric]
        torn_vector_files_def Let_def)
qed

end
