(* ===== verification/Vector_Rings.thy ===== *)
theory Vector_Rings
  imports Vector_Files Scenarios
begin

text \<open>
  The two vectors that are taken from a running ring: a quiet source evicted by a noisy one, whose loss a
  \<open>RecordsDropped\<close> record reports and a consumer counts, and a record placed behind a wrap marker. The
  ring is followed write by write through \<open>write_record_refines\<close>.
\<close>

section \<open>Equal records in a ring of 256 bytes\<close>

definition overflow_record :: "nat \<Rightarrow> Record" where
  "overflow_record k = (if k < 5 then minimal_record 88 (of_nat k) else minimal_record 99 (of_nat (k - 5)))"

definition overflow_entry :: "nat \<Rightarrow> ReadRecord" where
  "overflow_entry k =
     (let s = 256 * (k div 5) + 44 * (k mod 5)
      in \<lparr>rr_start_abs = s, rr_end_abs = s + 44, rr_record = normalise_flags (overflow_record k) True\<rparr>)"

definition overflow_ring :: "nat \<Rightarrow> RingBuffer \<Rightarrow> bool" where
  "overflow_ring k ring \<longleftrightarrow> ring_inv ring (map overflow_entry [k - 5 ..< k]) \<and> capacity ring = 256
     \<and> ring_head_abs ring = (if k = 0 then 0 else rr_end_abs (overflow_entry (k - 1)))
     \<and> ring_producer_loss_ranges ring = foldl push_loss [] (map (stream_key \<circ> overflow_entry) [0 ..< k - 5])"

lemma minimal_record_fits [simp]: "encodable (minimal_record s q) True" "record_len (minimal_record s q) True = 44"
  by (simp_all add: minimal_record_def record_new_def encodable_def record_len_def)

lemma overflow_place:
  assumes "h = (if k = 0 then 0 else rr_end_abs (overflow_entry (k - 1)))"
  shows "place 256 h 44 = rr_start_abs (overflow_entry k)"
proof (cases k)
  case (Suc j)
  define a b where "a = j div 5" and "b = j mod 5"
  have j: "j = 5 * a + b" "b < 5" by (simp_all add: a_def b_def)
  have h: "h = 256 * a + (44 * b + 44)" using assms Suc j by (simp add: overflow_entry_def Let_def)
  have m: "h mod 256 = 44 * b + 44" using j(2) unfolding h by simp
  show ?thesis
  proof (cases "b = 4")
    case True
    then have "Suc j div 5 = a + 1" "Suc j mod 5 = 0" using j(1) by simp_all
    then show ?thesis using m h True Suc by (simp add: place_def overflow_entry_def Let_def)
  next
    case False
    then have "b < 4" using j(2) by simp
    then have "Suc j div 5 = a" "Suc j mod 5 = b + 1" using j(1) by simp_all
    then show ?thesis using m h \<open>b < 4\<close> Suc by (simp add: place_def overflow_entry_def Let_def)
  qed
qed (use assms in \<open>simp add: place_def overflow_entry_def\<close>)

lemma overflow_neighbour:
  assumes "5 \<le> k"
  shows "rr_start_abs (overflow_entry (k - 5)) + 256 = rr_start_abs (overflow_entry k)"
    "rr_start_abs (overflow_entry k) \<le> rr_start_abs (overflow_entry (k - 4)) + 212"
proof -
  define a b where "a = k div 5" and "b = k mod 5"
  have k: "k = 5 * a + b" "b < 5" "0 < a" using assms by (simp_all add: a_def b_def div_greater_zero_iff)
  then have "(k - 5) div 5 = a - 1" "(k - 5) mod 5 = b"
    by (simp_all add: a_def b_def le_div_geq [symmetric] le_mod_geq [symmetric] assms)
  then show "rr_start_abs (overflow_entry (k - 5)) + 256 = rr_start_abs (overflow_entry k)"
    using k(3) by (simp add: overflow_entry_def Let_def a_def [symmetric] b_def [symmetric] algebra_simps)
  show "rr_start_abs (overflow_entry k) \<le> rr_start_abs (overflow_entry (k - 4)) + 212"
  proof (cases "b = 4")
    case True
    then have "k - 4 = 5 * a" using k(1) by simp
    then have "(k - 4) div 5 = a" "(k - 4) mod 5 = 0" by simp_all
    then show ?thesis using True by (simp add: overflow_entry_def Let_def a_def [symmetric] b_def [symmetric])
  next
    case False
    then have "k - 4 = 5 * (a - 1) + (b + 1)" "b < 4" using k by (simp_all add: algebra_simps)
    then have "(k - 4) div 5 = a - 1" "(k - 4) mod 5 = b + 1" by simp_all
    then show ?thesis using k(3) by (simp add: overflow_entry_def Let_def a_def [symmetric] b_def [symmetric] algebra_simps)
  qed
qed

lemma overflow_retained:
  defines "f k \<equiv> rr_end_abs (overflow_entry k) - 256"
  shows "survivors (f k) (map overflow_entry [k - 5 ..< k]) @ [overflow_entry k] = map overflow_entry [Suc k - 5 ..< Suc k]"
    and "evicted (f k) (map overflow_entry [k - 5 ..< k]) = map overflow_entry [k - 5 ..< Suc k - 5]"
proof -
  have "(\<forall>x \<in> set (map overflow_entry [k - 5 ..< k]). \<not> rr_start_abs x < f k)" if "k < 5"
    using that by (simp add: f_def overflow_entry_def Let_def)
  moreover have "[k - 5 ..< k] = (k - 5) # (k - 4) # [k - 3 ..< k]" if "5 \<le> k"
  proof -
    from that have "k - 4 = Suc (k - 5)" "k - 3 = Suc (k - 4)" "k - 5 < k" "k - 4 < k" by linarith+
    then show ?thesis by (simp add: upt_conv_Cons)
  qed
  moreover have "rr_start_abs (overflow_entry (k - 5)) < f k" "\<not> rr_start_abs (overflow_entry (k - 4)) < f k" if "5 \<le> k"
  proof -
    have "rr_end_abs (overflow_entry k) = rr_start_abs (overflow_entry k) + 44" by (simp add: overflow_entry_def Let_def)
    then show "rr_start_abs (overflow_entry (k - 5)) < f k" "\<not> rr_start_abs (overflow_entry (k - 4)) < f k"
      using overflow_neighbour [OF that] unfolding f_def by linarith+
  qed
  ultimately show "survivors (f k) (map overflow_entry [k - 5 ..< k]) @ [overflow_entry k] = map overflow_entry [Suc k - 5 ..< Suc k]"
    "evicted (f k) (map overflow_entry [k - 5 ..< k]) = map overflow_entry [k - 5 ..< Suc k - 5]"
    by (cases "k < 5"; auto simp: survivors_def evicted_def dropWhile_eq_self_iff takeWhile_eq_Nil_iff upt_conv_Cons Suc_diff_le)+
qed

lemma overflow_step:
  assumes "overflow_ring k ring" "k < 100"
  shows "\<exists>ring' s e. write_record ring (overflow_record k) = Ok (ring', s, e) \<and> overflow_ring (Suc k) ring'"
proof -
  let ?r = "overflow_record k" and ?rs = "map overflow_entry [k - 5 ..< k]"
  have o: "ring_inv ring ?rs" "capacity ring = 256" "ring_head_abs ring = (if k = 0 then 0 else rr_end_abs (overflow_entry (k - 1)))"
    "ring_producer_loss_ranges ring = foldl push_loss [] (map (stream_key \<circ> overflow_entry) [0 ..< k - 5])"
    using assms(1) by (simp_all add: overflow_ring_def)
  have r: "encodable ?r True" "record_len ?r True = 44" by (simp_all add: overflow_record_def)
  have "unat (rec_seq ?r) < 100"
    using assms(2) by (simp add: overflow_record_def minimal_record_def record_new_def unat_of_nat less_imp_diff_less del: of_nat_diff)
  have x: "next_entry ring ?r = overflow_entry k"
    using overflow_place [OF o(3)] r(2) o(2) by (simp add: next_entry_def overflow_entry_def Let_def)
  have "rr_end_abs (overflow_entry k) < u64_limit"
    using assms(2) by (simp add: overflow_entry_def Let_def u64_limit_def)
  then have w: "writable ring ?r" using r o(2) x by (simp add: writable_def)
  have "seq_not_max ?r" using \<open>unat (rec_seq ?r) < 100\<close> by (simp add: seq_not_max_def u64_limit_def)
  from write_record_refines [OF o(1) w this, unfolded x o(2)] obtain ring' where
    W: "write_record ring ?r = Ok (ring', rr_start_abs (overflow_entry k), rr_end_abs (overflow_entry k))"
      "ring_inv ring' (map overflow_entry [Suc k - 5 ..< Suc k])" "capacity ring' = 256" "ring_head_abs ring' = rr_end_abs (overflow_entry k)"
    unfolding overflow_retained by blast
  have "ring_producer_loss_ranges ring' = foldl push_loss [] (map (stream_key \<circ> overflow_entry) [0 ..< Suc k - 5])"
  proof -
    have "[0 ..< k - 5 + (Suc k - 5 - (k - 5))] = [0 ..< k - 5] @ [k - 5 ..< k - 5 + (Suc k - 5 - (k - 5))]" by (rule upt_add_eq_append) simp
    moreover have "k - 5 + (Suc k - 5 - (k - 5)) = Suc k - 5" by linarith
    ultimately have "[0 ..< Suc k - 5] = [0 ..< k - 5] @ [k - 5 ..< Suc k - 5]" by simp
    with write_record_ranges [OF o(1) w W(1)] show ?thesis by (simp only: o(2,4) overflow_retained map_append map_map foldl_append)
  qed
  with W show ?thesis by (auto simp: overflow_ring_def)
qed

lemma overflow_writes:
  assumes "overflow_ring k ring" "k + length qs \<le> 100" "map overflow_record [k ..< k + length qs] = map (\<lambda>q. minimal_record src (of_nat q)) qs"
  shows "\<exists>ring'. write_minimal src qs ring = (Ok ring' :: (_, 'e) outcome) \<and> overflow_ring (k + length qs) ring'"
  using assms
proof (induction qs arbitrary: k ring)
  case (Cons q qs)
  have q: "overflow_record k = minimal_record src (of_nat q)" "map overflow_record [Suc k ..< Suc k + length qs] = map (\<lambda>q. minimal_record src (of_nat q)) qs"
    using Cons.prems(3) by (simp_all add: upt_conv_Cons del: upt_Suc)
  from overflow_step [OF Cons.prems(1)] Cons.prems(2) obtain ring1 s e where
    "write_record ring (minimal_record src (of_nat q)) = Ok (ring1, s, e)" "overflow_ring (Suc k) ring1" by (auto simp: q(1))
  with Cons.IH [OF this(2)] Cons.prems(2) q(2) show ?case by auto
qed simp

lemma push_loss_run:
  "b + 1 \<le> n \<Longrightarrow> foldl push_loss (rs @ [\<lparr>lr_run_id = run, lr_source_id = src, lr_first_seq = a, lr_last_seq = b\<rparr>]) (map (\<lambda>q. (run, src, q)) [b + 1 ..< n])
     = rs @ [\<lparr>lr_run_id = run, lr_source_id = src, lr_first_seq = a, lr_last_seq = n - 1\<rparr>]"
proof (induction n)
  case (Suc n)
  then show ?case by (cases "b + 1 \<le> n") (simp_all add: push_loss_def not_less_eq_eq le_antisym)
qed simp

lemma overflow_key: "k < 100 \<Longrightarrow> stream_key (overflow_entry k) = (if k < 5 then (1, 88, k) else (1, 99, k - 5))"
  by (simp add: stream_key_def overflow_entry_def overflow_record_def minimal_record_def record_new_def Let_def unat_of_nat
      less_imp_diff_less del: of_nat_diff)

lemma overflow_ranges:
  "foldl push_loss [] (map (stream_key \<circ> overflow_entry) [0 ..< 80])
     = [\<lparr>lr_run_id = 1, lr_source_id = 88, lr_first_seq = 0, lr_last_seq = 4\<rparr>, \<lparr>lr_run_id = 1, lr_source_id = 99, lr_first_seq = 0, lr_last_seq = 74\<rparr>]"
proof -
  have "map (stream_key \<circ> overflow_entry) [0 ..< 80]
      = (1, 88, 0) # map (\<lambda>q. (1, 88, q)) [0 + 1 ..< 5] @ (1, 99, 0) # map (\<lambda>q. (1, 99, q)) [0 + 1 ..< 75]"
    by (rule nth_equalityI) (auto simp: overflow_key nth_append nth_Cons')
  then show ?thesis
    using push_loss_run [of 0 5 "[]" 1 88 0] push_loss_run [of 0 75 "[\<lparr>lr_run_id = 1, lr_source_id = 88, lr_first_seq = 0, lr_last_seq = 4\<rparr>]" 1 99 0]
    by (simp add: push_loss_def)
qed

section \<open>The overflow vector\<close>

definition overflow_loss :: LossRange where
  "overflow_loss = \<lparr>lr_run_id = 1, lr_source_id = 88, lr_first_seq = 0, lr_last_seq = 4\<rparr>"

definition dropped_record :: Record where
  "dropped_record = (record_new 1780000000000000005 1 5 88 EVENT_RECORDS_DROPPED)\<lparr>rec_slots :=
     [slot_new KEY_DROPPED_COUNT TY_UDINT (u32_to_le_bytes 5), slot_new KEY_FIRST_LOST_SEQ TY_ULINT (u64_to_le_bytes 0),
      slot_new KEY_LAST_LOST_SEQ TY_ULINT (u64_to_le_bytes 4)]\<rparr>"

definition overflow_stream :: "ReadRecord list" where
  "overflow_stream = map overflow_entry [82 ..< 85] @ [\<lparr>rr_start_abs = 4352, rr_end_abs = 4428, rr_record = normalise_flags dropped_record True\<rparr>]"

lemma dropped_record_eq: "records_dropped_record 5 overflow_loss = Ok dropped_record" "loss_range_count overflow_loss = Ok 5"
  by (simp_all add: records_dropped_record_def overflow_loss_def loss_range_count_def dropped_record_def u64_limit_def)

lemma dropped_record_fits: "encodable dropped_record True" "record_len dropped_record True = 76" "seq_not_max dropped_record"
  by (simp_all add: dropped_record_def record_new_def slot_new_def encodable_def record_len_def padding_len_def slot_ok_def seq_not_max_def u64_limit_def)

lemma overflow_last_write:
  assumes "overflow_ring 85 ring"
  shows "\<exists>ring'. write_record (ring\<lparr>ring_producer_loss_ranges := []\<rparr>) dropped_record = Ok (ring', 4352, 4428) \<and> ring_inv ring' overflow_stream
     \<and> capacity ring' = 256 \<and> ring_head_abs ring' = 4428 \<and> ring_oldest_abs ring' = 4184"
proof -
  let ?ring = "ring\<lparr>ring_producer_loss_ranges := []\<rparr>"
  have o: "ring_inv ?ring (map overflow_entry [80 ..< 85])" "capacity ?ring = 256" "ring_head_abs ?ring = 4316"
    using assms by (simp_all add: overflow_ring_def ring_inv_def ring_holds_def capacity_def ranges_ok_def overflow_entry_def)
  have x: "next_entry ?ring dropped_record = \<lparr>rr_start_abs = 4352, rr_end_abs = 4428, rr_record = normalise_flags dropped_record True\<rparr>"
    unfolding next_entry_def o(2,3) dropped_record_fits(2) by (simp add: place_def)
  have w: "writable ?ring dropped_record" using dropped_record_fits o(2) x by (simp add: writable_def u64_limit_def)
  have "survivors 4172 (map overflow_entry [80 ..< 85]) = map overflow_entry [82 ..< 85]"
    by (simp add: survivors_def upt_conv_Cons overflow_entry_def)
  with write_record_refines [OF o(1) w dropped_record_fits(3), unfolded x o(2)] show ?thesis
    by (auto simp: overflow_stream_def overflow_entry_def upt_conv_Cons)
qed

lemma overflow_accounted:
  "\<exists>t. account_all (tracker_new DEFAULT_BUFFER_ID) (map rr_record overflow_stream) = (Ok t :: (_, 'e) outcome)
     \<and> tracker_lost t 1 88 = (Ok 5 :: (_, 'f) outcome)"
  by (simp add: overflow_stream_def upt_conv_Cons overflow_entry_def overflow_record_def minimal_record_def dropped_record_def accounting_steps)

definition overflow_vector_files :: "VectorFile list" where
  "overflow_vector_files =
     [\<lparr>vf_path = ''overflow_records_dropped_sequence.hex'', vf_contents = hex_dump (concat (map (\<lambda>x. record_bytes (rr_record x) True) overflow_stream))\<rparr>,
      \<lparr>vf_path = ''overflow_records_dropped_sequence.json'', vf_contents = overflow_json 256 4 overflow_loss 5\<rparr>]"

lemma encode_stream_ok:
  "list_all (\<lambda>x. encodable (rr_record x) True) xs \<Longrightarrow> encode_stream xs = Ok (concat (map (\<lambda>x. record_bytes (rr_record x) True) xs))"
  by (induction xs) (simp_all add: encode_ok)

lemma overflow_poll:
  assumes "ring_inv ring overflow_stream" "ring_head_abs ring = 4428" "ring_oldest_abs ring = 4184"
  shows "\<exists>raw. rbc_poll rbc_new ring = Ok (raw, \<lparr>rb_records = overflow_stream, rb_next_abs = 4428, rb_lapped = True\<rparr>)
     \<and> tracker_lost (rbc_tracker raw) 1 88 = (Ok 5 :: (_, 'e) outcome)"
proof -
  have h: "ring_holds ring overflow_stream" using assms(1) by (simp add: ring_inv_def)
  have "read_raw_from ring 0 = Ok \<lparr>rb_records = overflow_stream, rb_next_abs = 4428, rb_lapped = True\<rparr>"
    using read_raw_from_ok [OF h, of 0] read_from_ok [OF h, of 0] assms(2,3) by (simp add: u64_limit_def cursor_ok_def)
  moreover obtain t where "account_all (tracker_new DEFAULT_BUFFER_ID) (map rr_record overflow_stream) = (Ok t :: (_, RingError) outcome)"
    "tracker_lost t 1 88 = (Ok 5 :: (_, 'e) outcome)" using overflow_accounted by blast
  ultimately show ?thesis by (simp add: rbc_poll_def rbc_new_def rbc_with_buffer_id_def rbc_account_batch_def)
qed

lemma push_overflow_ok: "push_overflow_records_dropped files = (Ok (files @ overflow_vector_files) :: (_, 'e) outcome)"
proof -
  obtain ring0 where r0: "ring_new 256 = (Ok ring0 :: (_, 'e) outcome)" "overflow_ring 0 ring0"
    by (auto simp: ring_new_def overflow_ring_def ring_inv_def ring_holds_def ranges_ok_def capacity_def)
  have "map overflow_record [0 ..< 0 + length [0 ..< 5]] = map (\<lambda>q. minimal_record 88 (of_nat q)) [0 ..< 5]"
    by (simp add: overflow_record_def)
  from overflow_writes [OF r0(2) _ this, where 'e = 'e] obtain ring1 where
    r1: "write_minimal 88 [0 ..< 5] ring0 = (Ok ring1 :: (_, 'e) outcome)" "overflow_ring 5 ring1" by auto
  have noisy: "map overflow_record [5 ..< 5 + n] = map (\<lambda>q. minimal_record 99 (of_nat q)) [0 ..< n]" for n
    by (rule nth_equalityI) (simp_all add: overflow_record_def)
  have "map overflow_record [5 ..< 5 + length [0 ..< 80]] = map (\<lambda>q. minimal_record 99 (of_nat q)) [0 ..< 80]"
    unfolding length_upt by (simp only: noisy diff_zero)
  from overflow_writes [OF r1(2) _ this, where 'e = 'e] obtain ring2 where
    r2: "write_minimal 99 [0 ..< 80] ring1 = (Ok ring2 :: (_, 'e) outcome)" "overflow_ring 85 ring2" by auto
  have ranges: "find (\<lambda>rng. lr_source_id rng = 88) (ring_producer_loss_ranges ring2) = Some overflow_loss"
    using r2(2) overflow_ranges by (simp add: overflow_ring_def overflow_loss_def)
  from overflow_last_write [OF r2(2)] obtain ring3 where
    r3: "write_record (ring2\<lparr>ring_producer_loss_ranges := []\<rparr>) dropped_record = Ok (ring3, 4352, 4428)" "ring_inv ring3 overflow_stream"
      "capacity ring3 = 256" "ring_head_abs ring3 = 4428" "ring_oldest_abs ring3 = 4184" by blast
  from overflow_poll [OF r3(2,4,5), where 'e = 'e] obtain raw where
    poll: "rbc_poll rbc_new ring3 = Ok (raw, \<lparr>rb_records = overflow_stream, rb_next_abs = 4428, rb_lapped = True\<rparr>)"
      "tracker_lost (rbc_tracker raw) 1 88 = (Ok 5 :: (_, 'e) outcome)" by blast
  have n: "encodable (normalise_flags r c) d = encodable r d" for r c d by (simp add: encodable_def record_len_def normalise_flags_def)
  have fits: "list_all (\<lambda>x. encodable (rr_record x) True) overflow_stream" "length overflow_stream = 4"
    "list_ex (\<lambda>read. rec_event_type_id (rr_record read) = EVENT_RECORDS_DROPPED \<and> rec_source_id (rr_record read) = 88) overflow_stream"
    by (simp_all add: overflow_stream_def overflow_entry_def overflow_record_def upt_conv_Cons dropped_record_fits n Let_def)
       (simp add: dropped_record_def record_new_def normalise_flags_def)
  show ?thesis
    using r0(1) r1(1) r2(1) ranges r3(1,3) poll fits
    by (simp add: push_overflow_records_dropped_def take_producer_loss_ranges_def dropped_record_eq encode_stream_ok
        overflow_vector_files_def overflow_loss_def [symmetric])
qed

section \<open>The wrap marker vector\<close>

definition wrapped_record :: Record where
  "wrapped_record = with_slots (minimal_record 81 2) [slot_new 0x1000 TY_UINT (u16_to_le_bytes 0x2222)]"

definition wrap_entry :: ReadRecord where
  "wrap_entry = \<lparr>rr_start_abs = 128, rr_end_abs = 180, rr_record = normalise_flags wrapped_record True\<rparr>"

lemma wrapped_record_fits: "encodable wrapped_record True" "record_len wrapped_record True = 52" "seq_not_max wrapped_record" "rec_seq wrapped_record = 2"
  by (simp_all add: wrapped_record_def with_slots_def minimal_record_def record_new_def slot_new_def encodable_def record_len_def padding_len_def
      slot_ok_def seq_not_max_def u64_limit_def)

lemma minimal_seq [simp]: "seq_not_max (minimal_record s 0)" "seq_not_max (minimal_record s 1)"
  by (simp_all add: minimal_record_def record_new_def seq_not_max_def u64_limit_def)

lemma wrap_ring:
  obtains ring0 ring1 ring2 ring3 where "ring_new 128 = (Ok ring0 :: (_, 'e) outcome)"
    "write_record ring0 (minimal_record 81 0) = Ok (ring1, 0, 44)" "write_record ring1 (minimal_record 81 1) = Ok (ring2, 44, 88)"
    "write_record ring2 wrapped_record = Ok (ring3, 128, 180)" "ring_inv ring3 [wrap_entry]" "capacity ring3 = 128"
    "ring_head_abs ring3 = 180" "ring_oldest_abs ring3 = 128" "ring_bytes ring3 ! 88 = 0"
proof -
  obtain ring0 where r0: "ring_new 128 = (Ok ring0 :: (_, 'e) outcome)" "ring_inv ring0 []" "capacity ring0 = 128" "ring_head_abs ring0 = 0"
    by (auto simp: ring_new_def ring_inv_def ring_holds_def ranges_ok_def capacity_def)
  let ?e0 = "\<lparr>rr_start_abs = 0, rr_end_abs = 44, rr_record = normalise_flags (minimal_record 81 0) True\<rparr>"
  let ?e1 = "\<lparr>rr_start_abs = 44, rr_end_abs = 88, rr_record = normalise_flags (minimal_record 81 1) True\<rparr>"
  have x: "next_entry ring0 (minimal_record 81 0) = ?e0" using r0(3,4) by (simp add: next_entry_def place_def)
  have w: "writable ring0 (minimal_record 81 0)" using r0(3) x by (simp add: writable_def u64_limit_def)
  from write_record_refines [OF r0(2) w minimal_seq(1), unfolded x r0(3)] obtain ring1 where
    r1: "write_record ring0 (minimal_record 81 0) = Ok (ring1, 0, 44)" "ring_inv ring1 [?e0]" "capacity ring1 = 128" "ring_head_abs ring1 = 44"
    by (auto simp: survivors_def)
  have x: "next_entry ring1 (minimal_record 81 1) = ?e1" using r1(3,4) by (simp add: next_entry_def place_def)
  have w: "writable ring1 (minimal_record 81 1)" using r1(3) x by (simp add: writable_def u64_limit_def)
  from write_record_refines [OF r1(2) w minimal_seq(2), unfolded x r1(3)] obtain ring2 where
    r2: "write_record ring1 (minimal_record 81 1) = Ok (ring2, 44, 88)" "ring_inv ring2 [?e0, ?e1]" "capacity ring2 = 128" "ring_head_abs ring2 = 88"
    by (auto simp: survivors_def)
  have x: "next_entry ring2 wrapped_record = wrap_entry" using r2(3,4) by (simp add: next_entry_def place_def wrapped_record_fits wrap_entry_def)
  have w: "writable ring2 wrapped_record" using r2(3) x by (simp add: writable_def wrapped_record_fits wrap_entry_def u64_limit_def)
  from write_record_refines [OF r2(2) w wrapped_record_fits(3), unfolded x r2(3)] obtain ring3 where
    r3: "write_record ring2 wrapped_record = Ok (ring3, 128, 180)" "ring_inv ring3 [wrap_entry]" "capacity ring3 = 128" "ring_head_abs ring3 = 180"
      "ring_oldest_abs ring3 = 128"
    by (auto simp: survivors_def wrap_entry_def)
  from write_record_eq [OF r2(2) w, unfolded x] r3(1) obtain ranges where "ring3 = written_ring ring2 [?e0, ?e1] wrap_entry ranges" by auto
  moreover have "placed (ring_bytes ring2) 88 128 (record_bytes wrapped_record True)"
    using next_entry_placed [OF r2(2) w] r2(4) x by (simp add: wrap_entry_def)
  from written_bytes_marker [OF this] have "written_bytes (ring_bytes ring2) 88 128 (record_bytes wrapped_record True) ! 88 = 0"
    using r2(3) by (simp add: capacity_def wrapped_record_fits)
  ultimately have "ring_bytes ring3 ! 88 = 0" using r2(4) by (simp add: written_ring_def Let_def wrap_entry_def normalise_flags_bytes)
  with r0(1) r1(1) r2(1) r3 show thesis by (rule that)
qed

definition wrap_vector_files :: "RingBuffer \<Rightarrow> VectorFile list" where
  "wrap_vector_files ring =
     [\<lparr>vf_path = ''wrap_marker_boundary.hex'', vf_contents = hex_dump (ring_bytes ring)\<rparr>,
      \<lparr>vf_path = ''wrap_marker_boundary.json'', vf_contents = wrap_marker_json ring wrap_entry\<rparr>]"

lemma push_wrap_ok:
  "\<exists>ring. ring_inv ring [wrap_entry] \<and> capacity ring = 128 \<and> ring_head_abs ring = 180 \<and> ring_oldest_abs ring = 128
     \<and> push_wrap_marker_boundary files = (Ok (files @ wrap_vector_files ring) :: (_, 'e) outcome)"
proof -
  obtain ring0 ring1 ring2 ring3 where r: "ring_new 128 = (Ok ring0 :: (_, 'e) outcome)"
    "write_record ring0 (minimal_record 81 0) = Ok (ring1, 0, 44)" "write_record ring1 (minimal_record 81 1) = Ok (ring2, 44, 88)"
    "write_record ring2 wrapped_record = Ok (ring3, 128, 180)" "ring_inv ring3 [wrap_entry]" "capacity ring3 = 128"
    "ring_head_abs ring3 = 180" "ring_oldest_abs ring3 = 128" "ring_bytes ring3 ! 88 = 0" by (rule wrap_ring)
  have h: "ring_holds ring3 [wrap_entry]" using r(5) by (simp add: ring_inv_def)
  then have "stored (ring_bytes ring3) wrap_entry" by (simp add: ring_holds_def)
  from stored_header(4) [OF this] r(6) have sync: "take 4 (ring_bytes ring3) = SYNC" by (simp add: wrap_entry_def capacity_def)
  have read: "read_raw_from ring3 88 = Ok \<lparr>rb_records = [wrap_entry], rb_next_abs = 180, rb_lapped = True\<rparr>"
    using read_raw_from_ok [OF h, of 88] read_from_ok [OF h, of 88] r(7,8) by (simp add: u64_limit_def cursor_ok_def wrap_entry_def)
  have "push_wrap_marker_boundary files = (Ok (files @ wrap_vector_files ring3) :: (_, 'e) outcome)"
    using r sync read
    by (simp add: push_wrap_marker_boundary_def wrapped_record_def [symmetric] encode_ok wrapped_record_fits Let_def capacity_def
        wrap_vector_files_def wrap_entry_def)
  with r show ?thesis by blast
qed

end
