(* ===== verification/Vector_Verdicts.thy ===== *)
theory Vector_Verdicts
  imports Vector_Rings Canonical
begin

text \<open>
  The conformance vectors as test oracles: the generator ends with 115 distinct files, every record vector
  reads back as its record and gets the verdict its description promises under the sample definition, and the
  hazard vectors are refused or accepted as described.
\<close>

definition sample_conformant :: "DefinitionFile \<Rightarrow> Record \<Rightarrow> bool" where
  "sample_conformant d r \<longleftrightarrow> (case canonical_event_type (rec_event_type_id r) of None \<Rightarrow> False | Some e \<Rightarrow> conforms r d e (rec_slots r) [])"

lemmas vector_eval = sample_conformant_def with_slots_def minimal_record_def record_new_def canonical_event_type_def canonical_catalogue
  event_spec_def event_catalogue conform_eval value_slot_def sample_values_def record_value_id_def

lemma value_vectors_conform:
  assumes "df_values d = sample_values"
  shows "list_all (sample_conformant d)
    [conformant_value_changed_real_record, conformant_value_changed_dint_record, conformant_value_changed_bool_record,
     conformant_value_changed_sint_record, conformant_value_changed_usint_record, conformant_value_changed_int_record,
     conformant_value_changed_uint_record, conformant_value_changed_udint_record, conformant_value_changed_ulint_record,
     conformant_value_changed_lint_record, conformant_value_changed_lreal_record, conformant_value_changed_string_record]"
  using assms
  by (simp add: vector_eval conformant_value_changed_real_record_def conformant_value_changed_dint_record_def
      conformant_value_changed_bool_record_def conformant_value_changed_sint_record_def
      conformant_value_changed_usint_record_def conformant_value_changed_int_record_def
      conformant_value_changed_uint_record_def conformant_value_changed_udint_record_def
      conformant_value_changed_ulint_record_def conformant_value_changed_lint_record_def
      conformant_value_changed_lreal_record_def conformant_value_changed_string_record_def)

lemma condition_vectors_conform:
  assumes "df_values d = sample_values"
  shows "list_all (sample_conformant d)
    [conformant_condition_active_record, conformant_condition_cleared_record, conformant_condition_acknowledged_record,
     conformant_condition_confirmed_record, conformant_condition_shelved_record, conformant_condition_unshelved_record,
     conformant_condition_suppressed_record, conformant_condition_unsuppressed_record,
     conformant_condition_out_of_service_record, conformant_condition_in_service_record,
     conformant_condition_reset_record, conformant_condition_commented_record,
     conformant_condition_priority_changed_record]"
  using assms
  by (simp add: vector_eval conformant_condition_active_record_def conformant_condition_cleared_record_def
      conformant_condition_acknowledged_record_def conformant_condition_confirmed_record_def
      conformant_condition_shelved_record_def conformant_condition_unshelved_record_def
      conformant_condition_suppressed_record_def conformant_condition_unsuppressed_record_def
      conformant_condition_out_of_service_record_def conformant_condition_in_service_record_def
      conformant_condition_reset_record_def conformant_condition_commented_record_def
      conformant_condition_priority_changed_record_def)

lemma operation_vectors_conform:
  assumes "df_values d = sample_values"
  shows "list_all (sample_conformant d)
    [conformant_recipe_loaded_record, conformant_recipe_approved_record, conformant_batch_event_record,
     conformant_material_addition_record, conformant_operator_action_record, conformant_operator_login_record,
     conformant_operator_logout_record, conformant_security_access_failure_record,
     conformant_parameter_change_real_record, conformant_parameter_change_dint_record,
     conformant_parameter_change_bool_record, conformant_parameter_change_string_record, conformant_e_signature_record]"
  using assms
  by (simp add: vector_eval conformant_recipe_loaded_record_def conformant_recipe_approved_record_def conformant_batch_event_record_def
      conformant_material_addition_record_def conformant_operator_action_record_def conformant_operator_login_record_def
      conformant_operator_logout_record_def conformant_security_access_failure_record_def
      conformant_parameter_change_real_record_def conformant_parameter_change_dint_record_def
      conformant_parameter_change_bool_record_def conformant_parameter_change_string_record_def
      conformant_e_signature_record_def)

lemma system_vectors_conform:
  assumes "df_values d = sample_values"
  shows "list_all (sample_conformant d)
    [conformant_state_transition_record, conformant_message_record, conformant_records_dropped_record,
     conformant_source_high_water_record, records_dropped_vector_record, source_high_water_vector_record,
     minimal_message_record, logger_stopped_record, definition_changed_record, logger_started_warm_record,
     logger_started_cold_record]"
  using assms
  by (simp add: vector_eval conformant_state_transition_record_def conformant_message_record_def conformant_records_dropped_record_def
      conformant_source_high_water_record_def source_high_water_vector_record_def records_dropped_vector_record_def
      minimal_message_record_def logger_stopped_record_def definition_changed_record_def logger_started_warm_record_def
      logger_started_vector_record_def logger_started_cold_record_def)

section \<open>The verdicts\<close>

lemmas vector_record_defs = with_slots_def minimal_record_def record_new_def slot_new_def
  state_transition_record_def conformant_state_transition_record_def conformant_value_changed_real_record_def
  conformant_value_changed_dint_record_def conformant_value_changed_bool_record_def conformant_value_changed_sint_record_def
  conformant_value_changed_usint_record_def conformant_value_changed_int_record_def conformant_value_changed_uint_record_def
  conformant_value_changed_udint_record_def conformant_value_changed_ulint_record_def conformant_value_changed_lint_record_def
  conformant_value_changed_lreal_record_def conformant_value_changed_string_record_def conformant_message_record_def
  conformant_condition_active_record_def conformant_condition_cleared_record_def conformant_condition_acknowledged_record_def
  conformant_condition_confirmed_record_def conformant_condition_shelved_record_def conformant_condition_unshelved_record_def
  conformant_condition_suppressed_record_def conformant_condition_unsuppressed_record_def
  conformant_condition_out_of_service_record_def conformant_condition_in_service_record_def
  conformant_condition_reset_record_def conformant_condition_commented_record_def
  conformant_condition_priority_changed_record_def conformant_recipe_loaded_record_def conformant_recipe_approved_record_def
  conformant_batch_event_record_def conformant_material_addition_record_def conformant_operator_action_record_def
  conformant_operator_login_record_def conformant_operator_logout_record_def conformant_security_access_failure_record_def
  conformant_parameter_change_real_record_def conformant_parameter_change_dint_record_def
  conformant_parameter_change_bool_record_def conformant_parameter_change_string_record_def conformant_e_signature_record_def
  conformant_records_dropped_record_def source_high_water_vector_record_def conformant_source_high_water_record_def
  records_dropped_vector_record_def minimal_message_record_def logger_stopped_record_def definition_changed_record_def
  logger_started_vector_record_def logger_started_warm_record_def logger_started_cold_record_def

lemma vector_records_fit: "list_all (\<lambda>v. vector_fits (rv_record v)) record_vectors"
  by (simp add: record_vectors_def vector_defs vector_fits_def encodable_def slot_ok_def record_len_def padding_len_def vector_record_defs)


definition sample_verdict :: "RecordVector \<Rightarrow> Record \<Rightarrow> SchemaValidation" where
  "sample_verdict v r =
     (if rv_stem v = ''state_transition'' then placeholder r (TypeMismatch KEY_STATE_MACHINE_ID TY_UINT TY_UDINT) else Valid [])"

lemma vectors_conform:
  assumes "df_values d = sample_values"
  shows "list_all (\<lambda>v. rv_stem v \<noteq> ''state_transition'' \<longrightarrow> sample_conformant d (rv_record v)) record_vectors"
  using value_vectors_conform [OF assms] condition_vectors_conform [OF assms] operation_vectors_conform [OF assms] system_vectors_conform [OF assms]
  by (simp add: record_vectors_def vector_defs)

lemma vector_paths_distinct: "distinct (map rv_stem record_vectors)"
  by (simp add: record_vectors_def vector_defs)

lemma conforms_normalised: "conforms (normalise_flags r c) d e known vendor \<longleftrightarrow> conforms r d e known vendor"
  by (simp add: conforms_def value_type_ok_def record_value_id_def normalise_flags_def)

lemma state_transition_event:
  "\<exists>e. canonical_event_type (rec_event_type_id state_transition_record) = Some e
     \<and> schema_map e KEY_STATE_MACHINE_ID = Some (slot KEY_STATE_MACHINE_ID TY_UDINT 1 (Count 1) 1)"
  by (simp add: state_transition_record_def vector_eval schema_map_def)

lemma state_transition_verdict:
  assumes "schema_map e KEY_STATE_MACHINE_ID = Some (slot KEY_STATE_MACHINE_ID TY_UDINT 1 (Count 1) 1)"
  shows "validate_record_slots (normalise_flags state_transition_record c) e d = Err (TypeMismatch KEY_STATE_MACHINE_ID TY_UINT TY_UDINT)"
proof -
  obtain s ss where ss: "rec_slots (normalise_flags state_transition_record c) = s # ss" "slot_key s = KEY_STATE_MACHINE_ID" "slot_ty s = TY_UINT"
    by (simp add: state_transition_record_def with_slots_def record_new_def normalise_flags_def slot_new_def registry_ids)
  have "validate_record_slot_type s (slot KEY_STATE_MACHINE_ID TY_UDINT 1 (Count 1) 1) = Err (TypeMismatch KEY_STATE_MACHINE_ID TY_UINT TY_UDINT)"
    using ss(2,3) by (simp add: validate_record_slot_type_def slot_def field_spec_def field_catalogue registry_ids)
  then show ?thesis using ss assms by (simp add: validate_record_slots_def scan_start_def)
qed

lemma sample_verdicts:
  assumes d: "definition_ok d" "df_event_types d = canonical_list" "df_values d = sample_values"
    and limits: "dk_max_record_size (dh_constraints (df_header d)) = 256" "dk_max_slots (dh_constraints (df_header d)) = 16"
    and v: "v \<in> set record_vectors"
  shows "schema_validate_record (normalise_flags (rv_record v) True) (record_len (rv_record v) True) d
      = Ok (sample_verdict v (normalise_flags (rv_record v) True))"
proof -
  let ?r = "normalise_flags (rv_record v) True"
  have size: "record_len (rv_record v) True \<le> 256" "length (rec_slots ?r) \<le> 16"
    using v vector_records_fit by (auto simp: list_all_iff vector_fits_def normalise_flags_def)
  show ?thesis
  proof (cases "rv_stem v = ''state_transition''")
    case True
    have "vector_state_transition \<in> set record_vectors" "rv_stem vector_state_transition = ''state_transition''"
      "rv_record vector_state_transition = state_transition_record" by (simp_all add: record_vectors_def vector_state_transition_def)
    with True v have r: "rv_record v = state_transition_record"
      using vector_paths_distinct unfolding distinct_map inj_on_def by metis
    obtain e where e: "canonical_event_type (rec_event_type_id ?r) = Some e"
      "schema_map e KEY_STATE_MACHINE_ID = Some (slot KEY_STATE_MACHINE_ID TY_UDINT 1 (Count 1) 1)"
      using state_transition_event r by (auto simp: normalise_flags_def)
    have "validate_definition d = Ok ()" using d by (simp add: validate_definition_eq_Ok)
    with canonical_find [OF d(1,2) e(1)] state_transition_verdict [OF e(2)] size limits True show ?thesis
      by (simp add: schema_validate_record_def sample_verdict_def r)
  next
    case False
    with v vectors_conform [OF d(3)] have "sample_conformant d (rv_record v)" by (auto simp: list_all_iff)
    then obtain e where "canonical_event_type (rec_event_type_id ?r) = Some e" "conforms ?r d e (rec_slots ?r) []"
      unfolding conforms_normalised by (auto simp: sample_conformant_def normalise_flags_def split: option.splits)
    from canonical_valid [OF d(1,2) _ _ this] size limits False show ?thesis by (simp add: sample_verdict_def)
  qed
qed

section \<open>Properties\<close>

lemma record_vector_paths: "map vf_path (record_vector_files v) = [rv_stem v @ ''.hex'', rv_stem v @ ''.json'']"
  by (simp add: record_vector_files_def Let_def)

lemma hazard_vector_paths:
  "map vf_path control_vector_files = [''control_block.hex'', ''control_block.json'', ''control_block_torn_snapshot.hex'',
     ''control_block_torn_snapshot.json'', ''control_block_stale_snapshot.hex'', ''control_block_stale_snapshot.json'',
     ''control_block_overwrite_snapshot.hex'', ''control_block_overwrite_snapshot.json'']"
  "map vf_path (wrap_vector_files ring) = [''wrap_marker_boundary.hex'', ''wrap_marker_boundary.json'']"
  "map vf_path torn_vector_files = [''torn_record_must_reject.hex'', ''torn_record_must_reject.json'']"
  "map vf_path overflow_vector_files = [''overflow_records_dropped_sequence.hex'', ''overflow_records_dropped_sequence.json'']"
  by (simp_all add: control_vector_files_def wrap_vector_files_def torn_vector_files_def overflow_vector_files_def)

definition vector_files :: "RingBuffer \<Rightarrow> VectorFile list" where
  "vector_files ring = \<lparr>vf_path = ''README.md'', vf_contents = readme\<rparr> # concat (map record_vector_files record_vectors)
     @ control_vector_files @ wrap_vector_files ring @ torn_vector_files @ overflow_vector_files"

lemma vector_stems: "map rv_stem record_vectors = map fst hex_paths"
  by (simp only: path_tables)

lemma vector_files_distinct: "distinct (map vf_path (vector_files ring)) \<and> length (vector_files ring) = 115"
proof -
  have "map vf_path (concat (map record_vector_files vs)) = concat (map (\<lambda>s. [s @ ''.hex'', s @ ''.json'']) (map rv_stem vs))" for vs
    by (induction vs) (simp_all add: record_vector_paths)
  from this [of record_vectors] have paths: "map vf_path (vector_files ring) = ''README.md'' # concat (map (\<lambda>s. [s @ ''.hex'', s @ ''.json'']) (map fst hex_paths))
     @ map vf_path control_vector_files @ map vf_path (wrap_vector_files ring) @ map vf_path torn_vector_files @ map vf_path overflow_vector_files"
    by (simp add: vector_files_def vector_stems del: map_map)
  have "distinct (map vf_path (vector_files ring)) \<and> length (map vf_path (vector_files ring)) = 115"
    unfolding paths hazard_vector_paths hex_paths_def by simp
  then show ?thesis by simp
qed

text \<open>C37. The generator of the conformance vectors ends: \<open>generate_files\<close> returns its 115 files, with no two paths
  the same, and none of its \<open>expect\<close> calls and assertions fails. The files are the README, a dump and a description
  of every record vector, the control block vectors, the dump of a ring of 128 bytes that holds exactly the wrapped
  record, the torn record and the overflow sequence.\<close>

theorem vectors_generated:
  "\<exists>ring. generate_files () = (Ok (vector_files ring) :: (_, 'e) outcome)
     \<and> distinct (map vf_path (vector_files ring)) \<and> length (vector_files ring) = 115
     \<and> ring_inv ring [wrap_entry] \<and> capacity ring = 128 \<and> ring_head_abs ring = 180 \<and> ring_oldest_abs ring = 128"
proof -
  let ?files = "\<lparr>vf_path = ''README.md'', vf_contents = readme\<rparr> # concat (map record_vector_files record_vectors) @ control_vector_files"
  obtain ring where ring: "ring_inv ring [wrap_entry]" "capacity ring = 128" "ring_head_abs ring = 180" "ring_oldest_abs ring = 128"
    "push_wrap_marker_boundary ?files = (Ok (?files @ wrap_vector_files ring) :: (_, 'e) outcome)"
    using push_wrap_ok [where 'e = 'e, of ?files] by blast
  have "list_all (\<lambda>v. encodable (rv_record v) True \<and> v \<in> set record_vectors) record_vectors"
    using vector_records_fit by (auto simp: list_all_iff vector_fits_def)
  from push_record_vectors_ok [where 'a = 'e, OF this] ring have "generate_files () = (Ok (vector_files ring) :: (_, 'e) outcome)"
    by (simp add: generate_files_def push_control_ok push_torn_ok push_overflow_ok vector_files_def)
  with ring(1-4) vector_files_distinct show ?thesis by blast
qed

text \<open>C36. Every record vector is a correct oracle: the bytes in its dump are the encoding of its record, decoding them
  returns the record with the checksum flag set and consumes all of them, and validation under the sample definition
  accepts the record without extension keys. The one exception is \<open>state_transition\<close>, a wire-format example whose state
  machine id is a UINT where the schema asks for a UDINT, which becomes a placeholder with that reason.\<close>

theorem vector_verdicts:
  assumes "v \<in> set record_vectors"
  shows "\<exists>d bytes dec. sample_definition = (Ok d :: (_, unit) outcome) \<and> encode (rv_record v) True = Ok bytes
     \<and> hex_dump bytes \<in> vf_contents ` set (record_vector_files v) \<and> decode bytes = Ok dec
     \<and> dec_record dec = record_with_crc (rv_record v) \<and> dec_consumed dec = length bytes
     \<and> schema_validate_record (dec_record dec) (dec_consumed dec) d = (Ok (sample_verdict v (dec_record dec)) :: (_, unit) outcome)"
proof -
  from sample_definition_ok [where 'e = unit] obtain d where d: "sample_definition = (Ok d :: (_, unit) outcome)"
    "definition_ok d" "df_event_types d = canonical_list"
    "dk_max_record_size (dh_constraints (df_header d)) = 256" "dk_max_slots (dh_constraints (df_header d)) = 16" by blast
  let ?r = "rv_record v"
  have fits: "encodable ?r True" using assms vector_records_fit by (auto simp: list_all_iff vector_fits_def)
  have "decode (record_bytes ?r True) = Ok \<lparr>dec_record = normalise_flags ?r True, dec_consumed = record_len ?r True\<rparr>"
    using decode_record_bytes [OF fits, of "[]"] by simp
  moreover have "hex_dump (record_bytes ?r True) \<in> vf_contents ` set (record_vector_files v)" by (simp add: record_vector_files_def Let_def)
  ultimately show ?thesis
    using d encode_ok [OF fits] sample_verdicts [OF d(2,3) sample_definition_values [OF d(1)] d(4,5) assms]
    by (fastforce simp: record_with_crc_normalises)
qed

theorem vector_verdicts_witness:
  "\<exists>d. sample_definition = (Ok d :: (_, unit) outcome)
     \<and> schema_validate_record (record_with_crc state_transition_record) 60 d
       = (Ok (placeholder (record_with_crc state_transition_record) (TypeMismatch KEY_STATE_MACHINE_ID TY_UINT TY_UDINT)) :: (_, unit) outcome)"
proof -
  have v: "vector_state_transition \<in> set record_vectors" by (simp add: record_vectors_def)
  have "rv_record vector_state_transition = state_transition_record" "rv_stem vector_state_transition = ''state_transition''"
    by (simp_all add: vector_state_transition_def)
  moreover have "encodable state_transition_record True" "record_len state_transition_record True = 60"
    by (simp_all add: state_transition_record_def with_slots_def record_new_def slot_new_def encodable_def slot_ok_def record_len_def padding_len_def)
  ultimately show ?thesis using vector_verdicts [OF v] by (auto simp: encode_ok sample_verdict_def)
qed

lemma control_vector_verdicts:
  "decode_with_locks (snapshot_image vector_control_snapshot 2) 2 2 = Ok vector_control_snapshot"
  "decode_with_locks torn_image 3 second = Err (Updating 3)"
  "decode_with_locks (snapshot_image vector_control_snapshot 2) 2 4 = Err (StaleSnapshot 2 4)"
  "decode_with_locks (snapshot_image (vector_control_snapshot\<lparr>cb_oldest_abs := 256\<rparr>) 4) 4 4 = Ok (vector_control_snapshot\<lparr>cb_oldest_abs := 256\<rparr>)"
  using image_fields [where rest = "[]", OF vector_snapshot_wf(1)] image_fields [where rest = "[]", OF vector_snapshot_wf(2)]
    snapshot_of_image [where rest = "[]", OF vector_snapshot_wf(1)] snapshot_of_image [where rest = "[]", OF vector_snapshot_wf(2)]
  by (simp_all add: decode_with_locks_eq torn_image_def Let_def)

text \<open>The hazard vectors show the hazard they name: the control block reads back under the locks of its description,
  the torn block is refused as updating whatever lock is read afterwards, the stale one as stale, the overwrite one
  reads back and says that the record at offset 128 is gone, the torn record fails its checksum, and a consumer that
  accounts the overflow stream reports the five lost records of the quiet source.\<close>

theorem hazard_vectors:
  "decode_with_locks (snapshot_image vector_control_snapshot 2) 2 2 = Ok vector_control_snapshot
   \<and> (\<forall>second. decode_with_locks torn_image 3 second = Err (Updating 3))
   \<and> decode_with_locks (snapshot_image vector_control_snapshot 2) 2 4 = Err (StaleSnapshot 2 4)
   \<and> (\<exists>s. decode_with_locks (snapshot_image (vector_control_snapshot\<lparr>cb_oldest_abs := 256\<rparr>) 4) 4 4 = Ok s
        \<and> overwrote_record_at s 128)
   \<and> is_crc_mismatch (decode torn_bytes)
   \<and> (\<exists>t. account_all (tracker_new DEFAULT_BUFFER_ID) (map rr_record overflow_stream) = (Ok t :: (_, RingError) outcome)
        \<and> tracker_lost t 1 88 = (Ok 5 :: (_, RingError) outcome))"
  using overflow_accounted torn_rejected by (simp add: control_vector_verdicts overwrote_record_at_def)

end
