(* ===== verification/Spec2Isabelle.thy ===== *)
theory Spec2Isabelle
  imports Consumer Control Resolution Report Seqlock Document Scenarios Live Vector_Verdicts
begin

text \<open>
  \<^bold>\<open>A verification development for the OpenOT crates.\<close>

  \<^bold>\<open>The program.\<close>  A producer (a controller) writes event records into a byte ring that overwrites its oldest
  records; consumers read the ring asynchronously, account for everything they did not see, and turn the
  records into typed, named events with the help of a definition file whose hash the ring's control block
  publishes.  The parts under \<open>src/crates\<close> and the theories that model them:

  \<^item> \<open>carriage/src/crc.rs\<close>, \<open>wire.rs\<close>: the CRC-32C and the record format.  \<open>Crc\<close>, \<open>Wire\<close>: \<open>crc32c\<close>, \<open>encode\<close>,
    \<open>validate_record\<close>, \<open>decode\<close>.  Shown: both round trips (what is encoded decodes to the same record; what
    decodes is the encoding of its result), totality of decoding on arbitrary bytes, exact length of an
    encoding, rejection of any single damaged byte behind the length and flags.
  \<^item> \<open>carriage/src/control.rs\<close>: the control block.  \<open>Control\<close>: \<open>encode\<close>, \<open>decode_with_locks\<close>; a snapshot is
    returned exactly for an untorn encoding of it.
  \<^item> \<open>carriage/src/ring.rs\<close>: the ring.  \<open>Ring\<close>: the record \<open>RingBuffer\<close> (byte pool, offsets, index, loss
    ranges), \<open>write_record\<close> with \<open>evict_before_clobber\<close>, \<open>read_from\<close>, \<open>read_raw_from\<close>, captured rings.  The
    contract of a drop-oldest log is the locale \<open>bounded_log\<close> of \<open>Log_Spec\<close>, interpreted on the ring.  Shown:
    writing refines appending to a bounded list, nothing is lost unreported, the byte walk equals the indexed
    read, a concurrent overwrite is detected, arbitrary captured images are read without panic.
  \<^item> \<open>carriage/src/loss.rs\<close>, \<open>consumer.rs\<close>: loss accounting and the polling consumers.  \<open>Btree\<close> (the ordered
    maps), \<open>Loss\<close>, \<open>Consumer\<close>: \<open>account\<close>, \<open>insert_loss_event\<close>, \<open>parse_records_dropped\<close>, \<open>lac_poll\<close>,
    \<open>rbc_poll\<close>.  Sessions of writes and polls in any order are the step relation \<open>session_step\<close>; the locale
    \<open>polling_consumer\<close> is interpreted on both consumers.  Shown: in-order, at-most-once, complete-unless-lapped
    delivery, and that delivered and lost counts are exact.
  \<^item> \<open>carriage/src/concurrent.rs\<close>: the shared-memory protocol.  \<open>Concurrent\<close> models the code (stores of the
    producer as lists in program order, the consumer as a function of the memories its loads observe),
    \<open>Publishing\<close> states what the writer promises (locale \<open>publisher\<close>) and proves the reader once from it,
    \<open>Interleaving\<close> proves that the producer keeps the promises and instantiates the locale.  Shown: under every
    interleaving the consumer delivers a subsequence of what was published, a retained byte never changes, a
    poll recovers or reports an overwrite, a paused producer is caught up with, the store mirrors the
    sequential ring.
  \<^item> \<open>carriage/src/epoch.rs\<close>: epochs.  \<open>Epoch\<close>: \<open>EpochProducer\<close> and \<open>EpochResolver\<close>.  The protocol automaton
    with phases none, open and changed is the specification every producer operation refines; further shown:
    gap-free sequence numbers, recovery of every record's epoch by the resolver.
  \<^item> \<open>carriage/src/registry.rs\<close>: ids and catalogues.  \<open>Registry\<close>, with lookups proved complete.
  \<^item> \<open>definition/src/model.rs\<close>, \<open>schema.rs\<close>: definition files and validation.  \<open>Definition_Model\<close>, \<open>Schema\<close>,
    \<open>Canonical\<close>: the structs, the canonical event schemas, \<open>validate_definition\<close>, \<open>schema_validate_record\<close>.
    \<open>conforms\<close> is a declarative description of a valid record; validation is shown to accept exactly these,
    never to panic, and to accept every record the epoch producer writes about itself.
  \<^item> \<open>definition/src/hash.rs\<close>, \<open>resolver.rs\<close>: hashes and resolution.  \<open>Hash\<close>, \<open>Resolver\<close>, \<open>Resolution\<close>:
    \<open>compute_content_hash\<close>, the guard \<open>visit\<close> against duplicate keys and floats, \<open>resolve_record\<close>.  Shown: a
    record resolves only against the definition whose hash is published for its epoch, no slot is dropped,
    resolution always returns, the published boundary selects the current epoch.
  \<^item> \<open>open-ot-shm/src/lib.rs\<close>: the memory-mapped store.  \<open>Shm\<close> models the mapping as a byte vector with the control
    block in front of the pool, its atomic views, creation and opening, the stores and loads, the sequence lock and
    the publisher; \<open>Seqlock\<close> reads the mapping as the ring of \<open>Concurrent\<close> and interprets the locale \<open>publisher\<close> on
    it.  Shown: a snapshot is never torn, the delivery and catch-up properties hold on the mapping, and a publisher
    that reopens a ring rewinds it.
  \<^item> \<open>carriage/src/capture.rs\<close>: captured producer images.  \<open>Capture\<close> has the scenarios, the comparison with the reference
    and the validation; \<open>Scenarios\<close> follows the scenarios symbolically.  Shown: exactly the reference image is
    accepted.  Evaluating \<open>reference_capture\<close> gives the bytes of \<open>fixtures/st-captures/s4a-rich-wrap/ring.hex\<close>.
  \<^item> \<open>document/src/lib.rs\<close>: consumer documents.  \<open>Floats\<close>, \<open>Document\<close>: the conversion of resolutions and losses and the
    JSON value of every document.  Shown: the JSON of an unresolved record determines the record, a document
    describes its record, values keep their value and have the type they are labelled with, loss documents add up.
  \<^item> \<open>conformance/src/lib.rs\<close>: what an observer checks.  \<open>Text\<close> (decimal numbers, words and lines), \<open>Conformance\<close> (the
    two oracles behind the locale \<open>stale_check\<close>, the batch observer), \<open>Report\<close> (the observed report and its text).
    Shown: the observer flags exactly what is stale or out of order, raises no alarm on what a concurrent consumer
    delivers, and a report reads back as it was written.
  \<^item> \<open>live-harness/src/main.rs\<close>: two processes on one mapping.  \<open>Arguments\<close> (the command lines), \<open>Harness\<close> (the producer,
    consumer and run commands, the stress loop, everything printed), \<open>Live_Producer\<close>, \<open>Live_Consumer\<close>, \<open>Live\<close> (the proofs,
    on top of \<open>Seqlock\<close>, \<open>Conformance\<close> and \<open>Report\<close>).  Shown: the children parse the command lines they are given, a
    fenced run that returns a report is accepted with delivered and lost records adding up, the consumer returns once
    its deadline has passed, and before it returns a report or a torn record's error.
  \<^item> \<open>carriage/src/vectors.rs\<close>: the conformance vectors.  \<open>Vector_Records\<close> (the records), \<open>Vector_Texts\<close> (descriptions and
    file names), \<open>Vectors\<close> (dumps, JSON texts, the \<open>push_*\<close> functions, \<open>generate_files\<close>), \<open>Vector_Files\<close>, \<open>Vector_Rings\<close>,
    \<open>Vector_Verdicts\<close> (the proofs).  Shown: the generator ends with 115 distinct files and no failed assertion, every
    record vector reads back and gets the verdict it promises under the sample definition, the hazard vectors are
    refused as described.  Evaluating \<open>generate_files\<close> gives the contents of all files in \<open>carriage/vectors\<close>.

  \<^bold>\<open>How code becomes definitions.\<close>  A fallible function returns \<open>outcome\<close> (\<open>Prelude\<close>): \<open>Ok\<close>, \<open>Err\<close> with the
  source's error enum, or \<open>Panic\<close>; indexing, slicing and \<open>copy_from_slice\<close> panic out of range.  An operation on
  \<open>&mut self\<close> returns the new state in its \<open>Ok\<close> value where every error precedes the first assignment, and a
  pair of state and outcome where state changes survive an error (\<open>Epoch\<close>).  Data on the wire are machine
  words; absolute offsets, sequence counters and statistics are naturals with the 64-bit bound checked at every
  addition as in the dev profile (\<open>u64_add\<close> panics), and \<open>usize\<close> lengths are naturals.  Strings are their UTF-8
  bytes, floating-point values their bit patterns.  A \<open>BTreeMap\<close> is a list sorted by key.  Loops that are not
  structural are total functions with a measure.  The one loop that may run forever, the consumer's polling loop of the
  harness, is a \<open>partial_function\<close> into \<open>option\<close>, and that it returns is proved.  No fuel is used anywhere.

  \<^bold>\<open>Parameters.\<close>  The canonical JSON serializer (\<open>serde_jcs\<close>) and SHA-256 (\<open>sha2\<close>) are third-party code: they are
  the arguments \<open>jcs\<close> and \<open>sha256\<close> of the hash and resolver definitions.  The one property that depends on them
  assumes that a digest has at least eight bytes and that the serializer does not panic.  The operating system's
  part in creating and opening a mapping is the argument \<open>map_file\<close> of \<open>create_with_mode\<close> and \<open>opened\<close> of
  \<open>open_existing_with_mode\<close>; the properties start from a fresh zeroed mapping.  Writing a JSON value as text
  (\<open>serde_json\<close>) is the argument of \<open>to_json\<close>.  What the harness gets from outside are arguments of its commands: the
  contents of the mapping each load meets, when the done file exists, when the deadline has passed, and in a
  \<open>RunEnvironment\<close> how the children exit, the text of the report file and the elapsed time.

  \<^bold>\<open>Concurrency.\<close>  Each atomic load and store is one step, in program order, and a schedule places every load of
  the consumer anywhere in the store history; this covers all sequentially consistent executions.  Reordering
  on weakly ordered hardware, which the release and acquire fences exclude, is outside the model; so the fence mode
  and the recheck stall of the mapped store, which only matter there, are data without effect.  The properties of
  the sequence lock assume fewer than $2^{31}$ publications, two increments of the 32-bit lock each.

  \<^bold>\<open>Not modelled.\<close>  The JSON reader behind \<open>parse_json_value\<close> and the deserializers of the documents (third-party),
  file input and output (the report file, \<open>write_vectors\<close>), unmapping, starting and killing processes, and the
  command-line programs \<open>dump_vectors\<close> and \<open>end_to_end\<close>, which only call the modelled functions and print.
\<close>

end
